(* ===== verification/Aic_Prelude.thy ===== *)
theory Aic_Prelude
  imports Main "HOL-Library.Word" "HOL-Library.Monad_Syntax"
begin

text \<open>
  Shared vocabulary of the development: the fixed-width integers of the driver, the flag words that
  its C code tests with \<^verbatim>\<open>&\<close>, sets with \<^verbatim>\<open>|=\<close> and clears with \<^verbatim>\<open>&= ~\<close>, the little-endian byte
  layout of 16-bit fields, and the facts on lists that the queues of several components need.
\<close>

unbundle bit_operations_syntax

type_synonym u8 = "8 word"
type_synonym u16 = "16 word"
type_synonym u32 = "32 word"
type_synonym u64 = "64 word"

named_theorems flag_simps \<open>reading a flag word after flags were set or cleared\<close>
named_theorems list_frame \<open>what an update at one index leaves alone at another\<close>

section \<open>Flag words\<close>

definition flag_set :: "'a::len word \<Rightarrow> 'a word \<Rightarrow> bool" where
  "flag_set f m \<longleftrightarrow> f AND m \<noteq> 0"

definition flag_add :: "'a::len word \<Rightarrow> 'a word \<Rightarrow> 'a word" where
  "flag_add f m = f OR m"

definition flag_clear :: "'a::len word \<Rightarrow> 'a word \<Rightarrow> 'a word" where
  "flag_clear f m = f AND NOT m"

lemma or_eq_0_word [simp]: "(a OR b = (0 :: 'a::len word)) \<longleftrightarrow> a = 0 \<and> b = 0"
  by (auto simp: bit_eq_iff bit_simps)

lemma flag_set_add [flag_simps]: "flag_set (flag_add f m) n \<longleftrightarrow> flag_set f n \<or> flag_set m n"
proof -
  have "(f OR m) AND n = (f AND n) OR (m AND n)"
    by (simp add: bit.conj_disj_distrib2)
  then show ?thesis
    by (simp add: flag_set_def flag_add_def)
qed

lemma flag_set_clear_same [flag_simps]: "\<not> flag_set (flag_clear f m) m"
  by (simp add: flag_set_def flag_clear_def bit_eq_iff bit_simps)

lemma flag_set_clear_other [flag_simps]:
  assumes "m AND n = 0"
  shows "flag_set (flag_clear f m) n \<longleftrightarrow> flag_set f n"
proof -
  from assms have "\<And>k. bit m k \<and> bit n k \<Longrightarrow> False"
    by (metis bit_0_eq bit_and_iff bot_apply bot_bool_def)
  then have "(f AND NOT m) AND n = f AND n"
    by (intro bit_word_eqI) (auto simp: bit_simps)
  then show ?thesis
    by (simp add: flag_set_def flag_clear_def)
qed

lemma flag_set_or_mask [flag_simps]: "flag_set f (m OR n) \<longleftrightarrow> flag_set f m \<or> flag_set f n"
  by (simp add: flag_set_def bit.conj_disj_distrib)

section \<open>Little-endian 16-bit fields\<close>

definition le16 :: "u16 \<Rightarrow> u8 list" where
  "le16 w = [ucast w, ucast (drop_bit 8 w)]"

definition of_le16 :: "u8 \<Rightarrow> u8 \<Rightarrow> u16" where
  "of_le16 lo hi = ucast lo OR push_bit 8 (ucast hi)"

lemma length_le16 [simp]: "length (le16 w) = 2"
  by (simp add: le16_def)

lemma of_le16_le16 [simp]: "of_le16 (ucast w) (ucast (drop_bit 8 w)) = w"
  unfolding of_le16_def
  by (rule bit_word_eqI) (auto simp: bit_simps)

lemma unat_u16_less: "unat (w :: u16) < 65536"
  using unsigned_less [of w] by simp

lemma unat_u32_less: "unat (w :: u32) < 4294967296"
  using unsigned_less [of w] by simp

lemma unat_ucast_small: "unat w < 2 ^ LENGTH('b) \<Longrightarrow> unat (ucast w :: 'b::len word) = unat w"
  by (simp add: unsigned_ucast_eq take_bit_nat_eq_self)

lemma unat_u16_u32 [simp]: "unat (ucast (w :: u16) :: u32) = unat w"
  using unat_u16_less [of w] by (simp add: unat_ucast_small)

section \<open>Reads from a buffer\<close>

text \<open>A read past the end of the buffer is \<open>None\<close>.\<close>

definition rd :: "u8 list \<Rightarrow> nat \<Rightarrow> u8 option" where
  "rd b i = (if i < length b then Some (b ! i) else None)"

text \<open>Loads of 16 and 32 bits: as stored on a little-endian host, and in network order for \<^verbatim>\<open>ntohs\<close> and \<^verbatim>\<open>ntohl\<close>.\<close>

definition rd16 :: "u8 list \<Rightarrow> nat \<Rightarrow> u16 option" where
  "rd16 b i = do { x \<leftarrow> rd b i; y \<leftarrow> rd b (i + 1); Some (of_le16 x y) }"

definition rd32 :: "u8 list \<Rightarrow> nat \<Rightarrow> u32 option" where
  "rd32 b i = do { x \<leftarrow> rd16 b i; y \<leftarrow> rd16 b (i + 2); Some (ucast x OR push_bit 16 (ucast y)) }"

definition rd16_be :: "u8 list \<Rightarrow> nat \<Rightarrow> u16 option" where
  "rd16_be b i = do { x \<leftarrow> rd b i; y \<leftarrow> rd b (i + 1); Some (of_le16 y x) }"

definition rd32_be :: "u8 list \<Rightarrow> nat \<Rightarrow> u32 option" where
  "rd32_be b i = do { x \<leftarrow> rd16_be b i; y \<leftarrow> rd16_be b (i + 2); Some (ucast y OR push_bit 16 (ucast x)) }"

section \<open>Lists updated by index\<close>

lemma nth_update_other [list_frame]: "i \<noteq> j \<Longrightarrow> (xs[i := x]) ! j = xs ! j"
  by simp

lemma nth_update_if: "(xs[i := x]) ! j = (if i = j \<and> i < length xs then x else xs ! j)"
  by (cases "i = j") (auto simp: not_less list_update_beyond)

lemma sorted_append_last:
  fixes xs :: "nat list"
  assumes "sorted xs" and "xs \<noteq> []" and "last xs = 0"
  shows "\<forall>x \<in> set xs. x = 0"
proof -
  have "xs = butlast xs @ [last xs]" using assms(2) by simp
  with assms(1) have "sorted (butlast xs @ [last xs])" by simp
  then have "\<forall>x \<in> set (butlast xs). x \<le> last xs" by (simp add: sorted_append)
  with assms(2,3) show ?thesis
    by (metis append_butlast_last_id le_0_eq rotate1.simps(2) set_ConsD set_rotate1)
qed

lemma remove1_map_update:
  "\<forall>q \<in> set ps. f q = g q \<Longrightarrow> map f (remove1 p ps) = map g (remove1 p ps)"
  by (meson map_eq_conv notin_set_remove1)

section \<open>Invariants of step systems\<close>

text \<open>
  The interface between a component's operations and the claims about all of its runs: a set of start states, a
  step relation and a property that holds at the start and that every step keeps.
\<close>

locale step_system =
  fixes start :: "'s \<Rightarrow> bool"
    and step :: "'s \<Rightarrow> 's \<Rightarrow> bool"
    and inv :: "'s \<Rightarrow> bool"
  assumes inv_start: "start s \<Longrightarrow> inv s"
    and inv_step: "inv s \<Longrightarrow> step s t \<Longrightarrow> inv t"
begin

lemma inv_steps: "step\<^sup>*\<^sup>* s t \<Longrightarrow> inv s \<Longrightarrow> inv t"
  by (induction rule: rtranclp_induct) (blast intro: inv_step)+

lemma inv_reachable: "start s \<Longrightarrow> step\<^sup>*\<^sup>* s t \<Longrightarrow> inv t"
  by (blast intro: inv_steps inv_start)

end

end
