(* ===== verification/Rx_Reorder.thy ===== *)
theory Rx_Reorder
  imports Aic_Prelude
begin

text \<open>
  The receive reorder buffer (\<^verbatim>\<open>rwnx_rx.c\<close> under \<^verbatim>\<open>AICWF_RX_REORDER\<close>, \<^verbatim>\<open>aicwf_txrxif.h\<close>).  Per station and traffic
  identifier a controller keeps the frames that arrived ahead of the sequence number that is due, \<^verbatim>\<open>ind_sn\<close>, and releases
  them in order.

  A \<^verbatim>\<open>struct recv_msdu *\<close> is the index of the frame in \<^verbatim>\<open>recv_frames\<close>; the lists \<^verbatim>\<open>rxframes_freequeue\<close> and \<^verbatim>\<open>reord_list\<close> are lists
  of such indices.  Stations are the list \<^verbatim>\<open>stas_reord_list\<close>.  What a released frame passes through (ARP offload, TCP
  acknowledgement filter, the network stack) is recorded in order in \<open>events\<close>, as are the buffers that are freed.  \<open>amsdu\<close>
  stands for the deaggregation of an A-MSDU.  Each operation runs under its locks and is one step.
\<close>

section \<open>Sequence numbers (\<^verbatim>\<open>aicwf_txrxif.h\<close>)\<close>

definition SN_LESS :: "u16 \<Rightarrow> u16 \<Rightarrow> bool" where
  "SN_LESS a b \<longleftrightarrow> (a - b) AND 0x800 \<noteq> 0"

definition SN_EQUAL :: "u16 \<Rightarrow> u16 \<Rightarrow> bool" where
  "SN_EQUAL a b \<longleftrightarrow> a = b"

definition AICWF_REORDER_WINSIZE :: u8 where "AICWF_REORDER_WINSIZE = 64"
definition REORDER_UPDATE_TIME :: nat where "REORDER_UPDATE_TIME = 500"
definition MAX_REORD_RXFRAME :: nat where "MAX_REORD_RXFRAME = 250"

section \<open>Data\<close>

datatype iftype = STATION | P2P_CLIENT | AP | P2P_GO | OTHER_IFTYPE

text \<open>A socket buffer: identity, \<^verbatim>\<open>len\<close>, and the bytes of its memory from \<^verbatim>\<open>data\<close> on, tail room included.\<close>

record sk_buff =
  skb_id :: nat
  skb_len :: u32
  skb_mem :: "u8 list"

record recv_msdu =
  pkt :: "sk_buff option"
  f_tid :: u8
  forward :: bool
  seq_num :: u16
  is_amsdu :: bool
  is_ap_reord :: bool
  ap_fwd_cnt :: u8
  ap_resend_cnt :: u8
  fwd_skbs :: "sk_buff list"
  resend_skbs :: "sk_buff list"

record reord_ctrl =
  r_enable :: bool
  ind_sn :: u16
  wsize_b :: u8
  reord_list :: "nat list"
  reord_timer :: "u64 option"
  work_pending :: bool

record reord_ctrl_info =
  mac_addr :: "u8 list"
  preorder_ctrl :: "reord_ctrl list"

datatype rx_event = ArpOffload nat | FilterRxTcpAck nat | NetifReceive nat | KfreeSkb nat

record rx_priv =
  recv_frames :: "recv_msdu list"
  rxframes_freequeue :: "nat list"
  stas_reord_list :: "reord_ctrl_info list"
  iftype :: iftype
  bus_down :: bool
  usb_down :: bool
  rx_packets :: u64
  rx_bytes :: u64
  events :: "rx_event list"

definition upd_frame :: "nat \<Rightarrow> (recv_msdu \<Rightarrow> recv_msdu) \<Rightarrow> rx_priv \<Rightarrow> rx_priv" where
  "upd_frame p f s = s\<lparr>recv_frames := (recv_frames s)[p := f (recv_frames s ! p)]\<rparr>"

definition emit :: "rx_event list \<Rightarrow> rx_priv \<Rightarrow> rx_priv" where
  "emit es s = s\<lparr>events := events s @ es\<rparr>"

definition ctrl_of :: "rx_priv \<Rightarrow> nat \<Rightarrow> nat \<Rightarrow> reord_ctrl" where
  "ctrl_of s i t = preorder_ctrl (stas_reord_list s ! i) ! t"

definition set_ctrl :: "nat \<Rightarrow> nat \<Rightarrow> reord_ctrl \<Rightarrow> rx_priv \<Rightarrow> rx_priv" where
  "set_ctrl i t c s = (let info = stas_reord_list s ! i in
     s\<lparr>stas_reord_list := (stas_reord_list s)[i := info\<lparr>preorder_ctrl := (preorder_ctrl info)[t := c]\<rparr>]\<rparr>)"

section \<open>Frame pool and stations\<close>

definition reord_rxframe_free :: "nat \<Rightarrow> rx_priv \<Rightarrow> rx_priv" where
  "reord_rxframe_free p s = s\<lparr>rxframes_freequeue := p # rxframes_freequeue s\<rparr>"

definition reord_rxframe_alloc :: "rx_priv \<Rightarrow> nat option \<times> rx_priv" where
  "reord_rxframe_alloc s = (case rxframes_freequeue s of [] \<Rightarrow> (None, s)
     | p # ps \<Rightarrow> (Some p, s\<lparr>rxframes_freequeue := ps\<rparr>))"

definition fresh_ctrl :: reord_ctrl where
  "fresh_ctrl = \<lparr>r_enable = True, ind_sn = 0xFFFF, wsize_b = AICWF_REORDER_WINSIZE, reord_list = [],
     reord_timer = None, work_pending = False\<rparr>"

text \<open>\<open>mem\<close> tells whether \<^verbatim>\<open>kmalloc\<close> succeeds.\<close>

definition reord_init_sta :: "bool \<Rightarrow> u8 list \<Rightarrow> rx_priv \<Rightarrow> reord_ctrl_info option" where
  "reord_init_sta mem mac s = (if bus_down s \<or> \<not> mem then None
     else Some \<lparr>mac_addr = mac, preorder_ctrl = replicate 8 fresh_ctrl\<rparr>)"

section \<open>Handing a frame to the stack\<close>

definition deliver_skb :: "rx_priv \<Rightarrow> sk_buff \<Rightarrow> rx_priv" where
  "deliver_skb s b = emit ((if iftype s = STATION \<or> iftype s = P2P_CLIENT then [ArpOffload (skb_id b)] else [])
       @ [FilterRxTcpAck (skb_id b), NetifReceive (skb_id b)])
     (s\<lparr>rx_packets := rx_packets s + 1, rx_bytes := rx_bytes s + ucast (skb_len b)\<rparr>)"

definition release_frame :: "nat \<Rightarrow> rx_priv \<Rightarrow> rx_priv" where
  "release_frame p s = reord_rxframe_free p (upd_frame p (\<lambda>f. f\<lparr>pkt := None\<rparr>) s)"

definition reord_single_frame_ind :: "(sk_buff \<Rightarrow> sk_buff list) \<Rightarrow> nat \<Rightarrow> rx_priv \<Rightarrow> int \<times> rx_priv" where
  "reord_single_frame_ind amsdu p s =
    (let f = recv_frames s ! p in
     case pkt f of None \<Rightarrow> (-1, s)
     | Some skb \<Rightarrow>
        if \<not> is_ap_reord f \<and> \<not> forward f then (0, release_frame p (emit [KfreeSkb (skb_id skb)] s))
        else (let s1 = (if is_ap_reord f \<and> ap_resend_cnt f \<noteq> 0
                        then emit (map (KfreeSkb \<circ> skb_id) (resend_skbs f)) s else s) in
          if is_ap_reord f \<and> ap_resend_cnt f \<noteq> 0 \<and> ap_fwd_cnt f = 0 then (0, release_frame p s1)
          else (let skbs = (if is_ap_reord f then fwd_skbs f else if is_amsdu f then amsdu skb else [skb])
                in (0, release_frame p (foldl deliver_skb s1 skbs)))))"

section \<open>The reorder controller\<close>

abbreviation seq_of :: "rx_priv \<Rightarrow> nat \<Rightarrow> u16" where
  "seq_of s p \<equiv> seq_num (recv_frames s ! p)"

definition reord_need_check :: "reord_ctrl \<Rightarrow> u16 \<Rightarrow> int \<times> reord_ctrl" where
  "reord_need_check c sn =
    (let wsize = ucast (wsize_b c) :: u16;
         wend = (ind_sn c + wsize - 1) AND 0xFFF;
         c1 = (if ind_sn c = 0xFFFF then c\<lparr>ind_sn := sn\<rparr> else c)
     in if SN_LESS sn (ind_sn c1) then (-1, c1)
        else if SN_EQUAL sn (ind_sn c1) then (0, c1\<lparr>ind_sn := (ind_sn c1 + 1) AND 0xFFF\<rparr>)
        else if SN_LESS wend sn then
          (0, c1\<lparr>ind_sn := (if sn \<ge> wsize - 1 then sn - (wsize - 1) else 0xFFF - (wsize - (sn + 1)) + 1)\<rparr>)
        else (0, c1))"

text \<open>The search for the place of a frame; \<open>None\<close> when its sequence number is already buffered.\<close>

fun enqueue_at :: "(nat \<Rightarrow> u16) \<Rightarrow> nat \<Rightarrow> nat list \<Rightarrow> nat list option" where
  "enqueue_at sq p [] = Some [p]"
| "enqueue_at sq p (q # qs) =
    (if SN_LESS (sq q) (sq p) then map_option (Cons q) (enqueue_at sq p qs)
     else if SN_EQUAL (sq q) (sq p) then None
     else Some (p # q # qs))"

definition reord_rxframe_enqueue :: "(nat \<Rightarrow> u16) \<Rightarrow> nat \<Rightarrow> reord_ctrl \<Rightarrow> int \<times> reord_ctrl" where
  "reord_rxframe_enqueue sq p c = (case enqueue_at sq p (reord_list c) of None \<Rightarrow> (-1, c)
     | Some l \<Rightarrow> (0, c\<lparr>reord_list := l\<rparr>))"

fun process_scan :: "(nat \<Rightarrow> u16) \<Rightarrow> u16 \<Rightarrow> nat list \<Rightarrow> bool \<times> u16" where
  "process_scan sq sn [] = (False, sn)"
| "process_scan sq sn (q # qs) =
    (if \<not> SN_LESS sn (sq q) then process_scan sq (if SN_EQUAL sn (sq q) then (sn + 1) AND 0xFFF else sn) qs
     else (True, sn))"

definition reord_rxframes_process :: "(nat \<Rightarrow> u16) \<Rightarrow> bool \<Rightarrow> reord_ctrl \<Rightarrow> bool \<times> reord_ctrl" where
  "reord_rxframes_process sq bforced c =
    (case reord_list c of [] \<Rightarrow> (False, c)
     | q # _ \<Rightarrow> (let c1 = (if bforced then c\<lparr>ind_sn := sq q\<rparr> else c);
                     (buf, sn) = process_scan sq (ind_sn c1) (reord_list c1)
                 in (buf, c1\<lparr>ind_sn := sn\<rparr>)))"

text \<open>The frames at the head of the list that are due, and the rest.\<close>

definition due :: "(nat \<Rightarrow> u16) \<Rightarrow> u16 \<Rightarrow> nat \<Rightarrow> bool" where
  "due sq sn q \<longleftrightarrow> \<not> SN_LESS sn (sq q)"

function reord_rxframes_ind :: "(sk_buff \<Rightarrow> sk_buff list) \<Rightarrow> nat \<Rightarrow> nat \<Rightarrow> nat list \<Rightarrow> rx_priv \<Rightarrow> rx_priv" where
  "reord_rxframes_ind amsdu i t [] s = s"
| "reord_rxframes_ind amsdu i t (q # qs) s =
    (if due (seq_of s) (ind_sn (ctrl_of s i t)) q
     then reord_rxframes_ind amsdu i t qs
       (snd (reord_single_frame_ind amsdu q (set_ctrl i t ((ctrl_of s i t)\<lparr>reord_list := qs\<rparr>) s)))
     else s)"
  by pat_completeness auto
termination by (relation "measure (\<lambda>(_, _, _, l, _). length l)") auto

definition ind_all :: "(sk_buff \<Rightarrow> sk_buff list) \<Rightarrow> nat \<Rightarrow> nat \<Rightarrow> rx_priv \<Rightarrow> rx_priv" where
  "ind_all amsdu i t s = reord_rxframes_ind amsdu i t (reord_list (ctrl_of s i t)) s"

section \<open>Timeout\<close>

text \<open>The timer has expired: it is no longer pending, and the work is scheduled unless the bus is down.\<close>

definition reord_timeout_handler :: "nat \<Rightarrow> nat \<Rightarrow> rx_priv \<Rightarrow> rx_priv" where
  "reord_timeout_handler i t s =
    (let c = (ctrl_of s i t)\<lparr>reord_timer := None\<rparr> in
     set_ctrl i t (if usb_down s then c else c\<lparr>work_pending := True\<rparr>) s)"

definition reord_timeout_worker :: "(sk_buff \<Rightarrow> sk_buff list) \<Rightarrow> u64 \<Rightarrow> nat \<Rightarrow> nat \<Rightarrow> rx_priv \<Rightarrow> rx_priv" where
  "reord_timeout_worker amsdu expires i t s =
    (let c0 = (ctrl_of s i t)\<lparr>work_pending := False\<rparr>;
         (buf, c) = reord_rxframes_process (seq_of s) True c0
     in ind_all amsdu i t (set_ctrl i t (if buf then c\<lparr>reord_timer := Some expires\<rparr> else c) s))"

section \<open>Receiving one frame\<close>

definition h_dest :: "sk_buff \<Rightarrow> u8 list" where "h_dest b = take 6 (skb_mem b)"
definition h_source :: "sk_buff \<Rightarrow> u8 list" where "h_source b = take 6 (drop 6 (skb_mem b))"

definition sta_mac :: "iftype \<Rightarrow> sk_buff \<Rightarrow> u8 list option" where
  "sta_mac ty b = (case ty of STATION \<Rightarrow> Some (h_dest b) | P2P_CLIENT \<Rightarrow> Some (h_dest b)
     | AP \<Rightarrow> Some (h_source b) | P2P_GO \<Rightarrow> Some (h_source b) | OTHER_IFTYPE \<Rightarrow> None)"

fun find_sta :: "u8 list \<Rightarrow> nat \<Rightarrow> reord_ctrl_info list \<Rightarrow> nat option" where
  "find_sta mac i [] = None"
| "find_sta mac i (r # rs) = (if mac_addr r = mac then Some i else find_sta mac (Suc i) rs)"

definition enable_ctrl :: "reord_ctrl \<Rightarrow> reord_ctrl" where
  "enable_ctrl c = (if r_enable c then c
     else c\<lparr>r_enable := True, ind_sn := 0xFFFF, wsize_b := AICWF_REORDER_WINSIZE\<rparr>)"

text \<open>
  The station of the frame: found, with the controller enabled, or created; \<open>None\<close> is the failure of the allocation.
\<close>

definition find_ctrl :: "bool \<Rightarrow> u8 list \<Rightarrow> nat \<Rightarrow> rx_priv \<Rightarrow> (nat \<times> rx_priv) option" where
  "find_ctrl mem mac t s = (case find_sta mac 0 (stas_reord_list s) of
      Some i \<Rightarrow> Some (i, set_ctrl i t (enable_ctrl (ctrl_of s i t)) s)
    | None \<Rightarrow> (case reord_init_sta mem mac s of None \<Rightarrow> None
        | Some info \<Rightarrow> Some (length (stas_reord_list s), s\<lparr>stas_reord_list := stas_reord_list s @ [info]\<rparr>)))"

definition drop_frame :: "nat \<Rightarrow> rx_priv \<Rightarrow> rx_priv" where
  "drop_frame p s = (let s1 = (case pkt (recv_frames s ! p) of None \<Rightarrow> s
        | Some skb \<Rightarrow> upd_frame p (\<lambda>f. f\<lparr>pkt := None\<rparr>) (emit [KfreeSkb (skb_id skb)] s))
     in reord_rxframe_free p s1)"

text \<open>A frame behind the window: an RTP packet is dropped unless it is the one due, any other one is handed on.\<close>

definition late_frame :: "(sk_buff \<Rightarrow> sk_buff list) \<Rightarrow> nat \<Rightarrow> sk_buff \<Rightarrow> u16 \<Rightarrow> rx_priv \<Rightarrow> (int \<times> rx_priv) option" where
  "late_frame amsdu p skb sn s = do {
     b42 \<leftarrow> rd (skb_mem skb) 42;
     Some (0, if b42 = 0x80 \<and> seq_of s p \<noteq> sn then drop_frame p s else snd (reord_single_frame_ind amsdu p s)) }"

definition buffer_frame :: "(sk_buff \<Rightarrow> sk_buff list) \<Rightarrow> u64 \<Rightarrow> nat \<Rightarrow> nat \<Rightarrow> nat \<Rightarrow> rx_priv \<Rightarrow> int \<times> rx_priv" where
  "buffer_frame amsdu expires p i t s =
    (case reord_rxframe_enqueue (seq_of s) p (ctrl_of s i t) of (ret, c) \<Rightarrow>
       if ret \<noteq> 0 then (0, drop_frame p s)
       else (let (buf, c1) = reord_rxframes_process (seq_of s) False c;
                 c2 = (if buf then (if reord_timer c1 = None then c1\<lparr>reord_timer := Some expires\<rparr> else c1)
                       else c1\<lparr>reord_timer := None\<rparr>)
             in (0, ind_all amsdu i t (set_ctrl i t c2 s))))"

definition reord_ctrl_frame :: "(sk_buff \<Rightarrow> sk_buff list) \<Rightarrow> u64 \<Rightarrow> nat \<Rightarrow> nat \<Rightarrow> nat \<Rightarrow> sk_buff \<Rightarrow> rx_priv
    \<Rightarrow> (int \<times> rx_priv) option" where
  "reord_ctrl_frame amsdu expires p i t skb s =
    (if \<not> r_enable (ctrl_of s i t) then
       (let s1 = set_ctrl i t ((ctrl_of s i t)\<lparr>ind_sn := seq_of s p\<rparr>) s;
            s2 = snd (reord_single_frame_ind amsdu p s1)
        in Some (0, set_ctrl i t ((ctrl_of s2 i t)\<lparr>ind_sn := (ind_sn (ctrl_of s2 i t) + 1) mod 4096\<rparr>) s2))
     else (case reord_need_check (ctrl_of s i t) (seq_of s p) of (chk, c) \<Rightarrow>
       if chk \<noteq> 0 then late_frame amsdu p skb (ind_sn c) (set_ctrl i t c s)
       else Some (buffer_frame amsdu expires p i t (set_ctrl i t c s))))"

text \<open>A traffic identifier above 7 selects a controller past the array: \<open>None\<close>.\<close>

definition reord_process_unit :: "(sk_buff \<Rightarrow> sk_buff list) \<Rightarrow> u64 \<Rightarrow> bool \<Rightarrow> nat \<Rightarrow> sk_buff \<Rightarrow> u16 \<Rightarrow> u8 \<Rightarrow> bool \<Rightarrow> bool
    \<Rightarrow> rx_priv \<Rightarrow> (int \<times> rx_priv) option" where
  "reord_process_unit amsdu expires mem p skb sn tid fwd isam s0 =
    (let s = upd_frame p (\<lambda>f. f\<lparr>seq_num := sn, f_tid := tid, pkt := Some skb, forward := fwd, is_amsdu := isam\<rparr>) s0 in do {
       da \<leftarrow> rd (skb_mem skb) 0;
       proto \<leftarrow> rd16_be (skb_mem skb) 12;
       if proto = 0x888E \<or> da AND 1 \<noteq> 0 then Some (reord_single_frame_ind amsdu p s)
       else (case sta_mac (iftype s) skb of None \<Rightarrow> Some (-1, emit [KfreeSkb (skb_id skb)] s)
         | Some mac \<Rightarrow> (case find_ctrl mem mac (unat tid) s of
             None \<Rightarrow> Some (-1, snd (reord_single_frame_ind amsdu p s))
           | Some (i, s1) \<Rightarrow>
              if 8 \<le> tid then None else reord_ctrl_frame amsdu expires p i (unat tid) skb s1)) })"

section \<open>Flushing and removing\<close>

fun flush_list :: "(sk_buff \<Rightarrow> sk_buff list) \<Rightarrow> nat list \<Rightarrow> rx_priv \<Rightarrow> rx_priv" where
  "flush_list amsdu [] s = s"
| "flush_list amsdu (p # ps) s = flush_list amsdu ps (snd (reord_single_frame_ind amsdu p s))"

definition reord_flush_tid :: "(sk_buff \<Rightarrow> sk_buff list) \<Rightarrow> sk_buff \<Rightarrow> nat \<Rightarrow> rx_priv \<Rightarrow> int \<times> rx_priv" where
  "reord_flush_tid amsdu skb t s = (case sta_mac (iftype s) skb of
      None \<Rightarrow> (-1, emit [KfreeSkb (skb_id skb)] s)
    | Some mac \<Rightarrow> (case find_sta mac 0 (stas_reord_list s) of None \<Rightarrow> (0, s)
        | Some i \<Rightarrow>
           if \<not> r_enable (ctrl_of s i t) then (0, s)
           else (let s1 = flush_list amsdu (reord_list (ctrl_of s i t)) s
                 in (0, set_ctrl i t ((ctrl_of s1 i t)\<lparr>reord_list := [], r_enable := False, reord_timer := None,
                       work_pending := False\<rparr>) s1))))"

fun drop_list :: "nat list \<Rightarrow> rx_priv \<Rightarrow> rx_priv" where
  "drop_list [] s = s"
| "drop_list (p # ps) s = drop_list ps (drop_frame p s)"

text \<open>The timer and the work are cancelled for enabled controllers only.\<close>

definition deinit_ctrl :: "nat \<Rightarrow> rx_priv \<Rightarrow> nat \<Rightarrow> rx_priv" where
  "deinit_ctrl i s t =
    (let c = ctrl_of s i t;
         c1 = (if r_enable c then c\<lparr>r_enable := False, reord_timer := None, work_pending := False\<rparr> else c)
     in drop_list (reord_list c) (set_ctrl i t (c1\<lparr>reord_list := []\<rparr>) s))"

definition reord_deinit_sta :: "nat \<Rightarrow> rx_priv \<Rightarrow> rx_priv" where
  "reord_deinit_sta i s =
    (let s1 = foldl (deinit_ctrl i) s [0..<8]
     in s1\<lparr>stas_reord_list := take i (stas_reord_list s1) @ drop (Suc i) (stas_reord_list s1)\<rparr>)"

end
