(* ===== verification/Rx_Data.thy ===== *)
theory Rx_Data
  imports Rx_Reorder
begin

text \<open>
  The received data path (\<^verbatim>\<open>rwnx_rx.c\<close>): \<^verbatim>\<open>rwnx_rxdataind_aicwf\<close> takes a transfer with its 60 bytes of hardware header, turns the
  802.11 header into an Ethernet header, collects fragments, splits aggregated frames (A-MSDU), and hands the result to the
  reorder buffer, to the network stack, or back to the air.  A socket buffer is its memory with the offset of \<^verbatim>\<open>data\<close>, so that the
  hardware header is read where the code reads it.  \<open>None\<close> means that the code does not come back: an access outside a buffer, a kernel
  \<^verbatim>\<open>BUG\<close>, a null pointer, or a loop that does not end.
\<close>

section \<open>Socket buffers\<close>

record rx_buf =
  rb_id :: nat
  rb_mem :: "u8 list"                 \<comment> \<open>all bytes, head room and tail room included\<close>
  rb_data :: nat                      \<comment> \<open>offset of \<^verbatim>\<open>data\<close>\<close>
  rb_len :: nat

definition buf_pull :: "nat \<Rightarrow> rx_buf \<Rightarrow> rx_buf" where
  "buf_pull n b = (if n \<le> rb_len b then b\<lparr>rb_data := rb_data b + n, rb_len := rb_len b - n\<rparr> else b)"

definition buf_push :: "nat \<Rightarrow> rx_buf \<Rightarrow> rx_buf option" where
  "buf_push n b = (if n \<le> rb_data b then Some (b\<lparr>rb_data := rb_data b - n, rb_len := rb_len b + n\<rparr>) else None)"

definition buf_put :: "nat \<Rightarrow> rx_buf \<Rightarrow> rx_buf option" where
  "buf_put n b = (if rb_data b + rb_len b + n \<le> length (rb_mem b) then Some (b\<lparr>rb_len := rb_len b + n\<rparr>) else None)"

definition byte :: "rx_buf \<Rightarrow> nat \<Rightarrow> u8 option" where
  "byte b k = rd (rb_mem b) (rb_data b + k)"

text \<open>\<^verbatim>\<open>memcpy\<close> from and to the bytes at \<^verbatim>\<open>data + k\<close>.\<close>

definition load :: "nat \<Rightarrow> nat \<Rightarrow> rx_buf \<Rightarrow> u8 list option" where
  "load k n b = (if rb_data b + k + n \<le> length (rb_mem b) then Some (take n (drop (rb_data b + k) (rb_mem b))) else None)"

definition overwrite :: "nat \<Rightarrow> u8 list \<Rightarrow> u8 list \<Rightarrow> u8 list option" where
  "overwrite k xs m = (if k + length xs \<le> length m then Some (take k m @ xs @ drop (k + length xs) m) else None)"

definition store :: "nat \<Rightarrow> u8 list \<Rightarrow> rx_buf \<Rightarrow> rx_buf option" where
  "store k xs b = map_option (\<lambda>m. b\<lparr>rb_mem := m\<rparr>) (overwrite (rb_data b + k) xs (rb_mem b))"

definition content :: "rx_buf \<Rightarrow> u8 list" where
  "content b = take (rb_len b) (drop (rb_data b) (rb_mem b))"

text \<open>A new buffer with \<open>room\<close> bytes behind \<^verbatim>\<open>data\<close>.\<close>

definition new_buf :: "nat \<Rightarrow> nat \<Rightarrow> rx_buf" where
  "new_buf i room = \<lparr>rb_id = i, rb_mem = replicate room 0, rb_data = 0, rb_len = 0\<rparr>"

section \<open>The hardware header\<close>

text \<open>The fields of \<^verbatim>\<open>struct hw_rxhdr\<close> the data path uses, at their place in its 56 bytes.\<close>

record hw_rxhdr =
  hx_len :: u16
  hx_decr :: nat
  hx_ga :: bool
  hx_amsdu :: bool
  hx_mpdu :: bool
  hx_4addr :: bool
  hx_new_peer :: bool
  hx_reord :: bool
  hx_upload :: bool
  hx_monitor :: bool
  hx_vif :: nat
  hx_sta :: nat
  hx_dst :: nat

definition read_rxhdr :: "u8 list \<Rightarrow> nat \<Rightarrow> hw_rxhdr option" where
  "read_rxhdr m h = do {
     len \<leftarrow> rd16 m h;
     s0 \<leftarrow> rd m (h + 36);
     s1 \<leftarrow> rd m (h + 37);
     fl \<leftarrow> rd m (h + 48);
     vif \<leftarrow> rd m (h + 49);
     sta \<leftarrow> rd m (h + 50);
     dst \<leftarrow> rd m (h + 51);
     Some \<lparr>hx_len = len, hx_decr = unat (drop_bit 2 s0 AND 7), hx_ga = bit s1 2, hx_amsdu = bit fl 0, hx_mpdu = bit fl 1, hx_4addr = bit fl 2,
       hx_new_peer = bit fl 3, hx_reord = bit fl 5, hx_upload = bit fl 6, hx_monitor = bit fl 7, hx_vif = unat vif, hx_sta = unat sta,
       hx_dst = unat dst\<rparr> }"

definition set_amsdu :: "nat \<Rightarrow> bool \<Rightarrow> rx_buf \<Rightarrow> rx_buf option" where
  "set_amsdu h f b = do {
     fl \<leftarrow> rd (rb_mem b) (h + 48);
     m \<leftarrow> overwrite (h + 48) [if f then fl OR 1 else fl AND NOT 1] (rb_mem b);
     Some (b\<lparr>rb_mem := m\<rparr>) }"

definition RWNX_INVALID_STA :: nat where "RWNX_INVALID_STA = 0xFF"
definition RWNX_INVALID_VIF :: nat where "RWNX_INVALID_VIF = 0xFF"
definition RX_NX_VIRT_DEV_MAX :: nat where "RX_NX_VIRT_DEV_MAX = 4"

section \<open>State\<close>

datatype nl_iftype = NL_STATION | NL_P2P_CLIENT | NL_AP | NL_AP_VLAN | NL_P2P_GO | NL_MESH_POINT | NL_MONITOR | NL_OTHER

record rx_vif =
  vf_up :: bool
  vf_type :: nl_iftype
  vf_index :: nat
  vf_isolate :: bool                  \<comment> \<open>\<^verbatim>\<open>RWNX_AP_ISOLATE\<close>\<close>
  vf_4addr :: bool
  vf_stas :: "nat list"               \<comment> \<open>\<^verbatim>\<open>ap.sta_list\<close>\<close>

record rx_sta =
  st_valid :: bool
  st_vlan :: nat
  st_mac :: "u8 list"

text \<open>A frame of which some fragments have arrived.\<close>

record defrag_ctrl_info =
  df_sta :: nat
  df_tid :: nat
  df_sn :: u16
  df_fn :: u8
  df_len :: u16
  df_buf :: rx_buf

datatype mgmt_up = NewPeerCandidate | ObssBeacon | UnprotMlme | FtEvent | RxMgmt

datatype data_event =
    NetRx nat nat "u8 list"           \<comment> \<open>interface, buffer, frame: to the network stack\<close>
  | AirTx nat "u8 list"               \<comment> \<open>a copy is sent again on the interface\<close>
  | MgmtRx nat mgmt_up nat
  | Unexpected4Addr nat
  | KFree nat

record rx_hw =
  rh_vifs :: "rx_vif option list"
  rh_vlist :: "nat list"              \<comment> \<open>\<^verbatim>\<open>rwnx_hw->vifs\<close>\<close>
  rh_stas :: "rx_sta list"
  rh_defrag :: "defrag_ctrl_info list"
  rh_reord :: rx_priv
  rh_next :: nat
  rh_events :: "data_event list"

text \<open>
  The environment: whether the \<open>k\<close>-th allocation succeeds, the room of a buffer allocated for \<open>n\<close> bytes, what a read of the hardware header
  yields after its buffer was freed, and the arguments of the reorder buffer.
\<close>

record rx_env =
  en_alloc :: "nat \<Rightarrow> bool"
  en_room :: "nat \<Rightarrow> nat"
  en_freed :: "hw_rxhdr \<Rightarrow> hw_rxhdr"
  en_amsdu :: "sk_buff \<Rightarrow> sk_buff list"
  en_expires :: u64
  en_kmalloc :: bool

definition rx_log :: "data_event list \<Rightarrow> rx_hw \<Rightarrow> rx_hw" where
  "rx_log es s = s\<lparr>rh_events := rh_events s @ es\<rparr>"

definition free_buf :: "rx_buf \<Rightarrow> rx_hw \<Rightarrow> rx_hw" where
  "free_buf b = rx_log [KFree (rb_id b)]"

text \<open>An allocation takes the next number as the identity of the new object.\<close>

definition try_alloc :: "rx_env \<Rightarrow> rx_hw \<Rightarrow> nat option \<times> rx_hw" where
  "try_alloc e s = (if en_alloc e (rh_next s) then Some (rh_next s) else None, s\<lparr>rh_next := rh_next s + 1\<rparr>)"

definition rwnx_rx_get_vif :: "nat \<Rightarrow> rx_hw \<Rightarrow> rx_vif option" where
  "rwnx_rx_get_vif i s =
    (if i < RX_NX_VIRT_DEV_MAX \<and> i < length (rh_vifs s)
     then (case rh_vifs s ! i of None \<Rightarrow> None | Some v \<Rightarrow> if vf_up v then Some v else None) else None)"

definition sta_at :: "nat \<Rightarrow> rx_hw \<Rightarrow> rx_sta option" where
  "sta_at i s = (if i < length (rh_stas s) then Some (rh_stas s ! i) else None)"

section \<open>Splitting an A-MSDU\<close>

datatype amsdu_step = AmsduStop "rx_buf list" rx_hw | AmsduNext rx_buf "rx_buf list" rx_hw

definition sub_len :: "rx_buf \<Rightarrow> nat option" where
  "sub_len b = do { hi \<leftarrow> byte b 12; lo \<leftarrow> byte b 13; Some (256 * unat hi + unat lo) }"

definition aligned_len :: "nat \<Rightarrow> nat \<Rightarrow> nat" where
  "aligned_len len n = (if n + 14 < len then (n + 17) div 4 * 4 else n + 14) mod 65536"

text \<open>
  One round of the loop.  The new buffer is filled with the addresses and what follows six bytes of LLC header; a length below six makes the size
  of that copy negative.
\<close>

definition amsdu_round :: "rx_env \<Rightarrow> nat \<Rightarrow> rx_buf \<Rightarrow> rx_buf list \<Rightarrow> rx_hw \<Rightarrow> amsdu_step option" where
  "amsdu_round e v b subs s = do {
     n \<leftarrow> sub_len b;
     if rb_len b < n + 14 then Some (AmsduStop subs s)
     else (case try_alloc e s of
         (None, s1) \<Rightarrow> Some (AmsduStop subs s1)
       | (Some i, s1) \<Rightarrow>
           if n < 6 then None
           else do {
             addrs \<leftarrow> load 0 12 b;
             body \<leftarrow> load 20 (n - 6) b;
             Some (case rwnx_rx_get_vif v s1 of
                 None \<Rightarrow> AmsduStop subs s1
               | Some _ \<Rightarrow> AmsduNext (buf_pull (aligned_len (rb_len b) n) b)
                   (subs @ [\<lparr>rb_id = i, rb_mem = addrs @ body, rb_data = 0, rb_len = n + 6\<rparr>]) s1) }) }"

text \<open>The loop: \<open>None\<close> does not end, \<open>Some None\<close> is a fault.\<close>

partial_function (option) amsdu_loop :: "rx_env \<Rightarrow> nat \<Rightarrow> rx_buf \<Rightarrow> rx_buf list \<Rightarrow> rx_hw \<Rightarrow> (rx_buf list \<times> rx_hw) option option" where
  "amsdu_loop e v b subs s =
    (if rb_len b \<le> 16 then Some (Some (subs, s))
     else (case amsdu_round e v b subs s of
         None \<Rightarrow> Some None
       | Some (AmsduStop l t) \<Rightarrow> Some (Some (l, t))
       | Some (AmsduNext b1 l t) \<Rightarrow> amsdu_loop e v b1 l t))"

definition rwnx_rxdata_process_amsdu :: "rx_env \<Rightarrow> nat \<Rightarrow> rx_buf \<Rightarrow> rx_hw \<Rightarrow> (rx_buf list \<times> rx_hw) option" where
  "rwnx_rxdata_process_amsdu e v b s = do {
     r \<leftarrow> amsdu_loop e v b [] s;
     (l, t) \<leftarrow> r;
     Some (l, free_buf b t) }"

section \<open>Handing frames on\<close>

definition rwnx_rx_data_skb_resend :: "rx_env \<Rightarrow> rx_vif \<Rightarrow> rx_buf \<Rightarrow> rx_hw \<Rightarrow> rx_hw" where
  "rwnx_rx_data_skb_resend e v b s =
    (case try_alloc e s of (None, t) \<Rightarrow> t | (Some _, t) \<Rightarrow> rx_log [AirTx (vf_index v) (content b)] t)"

definition rwnx_rx_data_skb_forward :: "rx_vif \<Rightarrow> rx_buf \<Rightarrow> rx_hw \<Rightarrow> rx_hw" where
  "rwnx_rx_data_skb_forward v b = rx_log [NetRx (vf_index v) (rb_id b) (content b)]"

definition group_addressed :: "rx_buf \<Rightarrow> bool option" where
  "group_addressed b = map_option (\<lambda>x. bit x 0) (byte b 0)"

text \<open>The decision of \<^verbatim>\<open>rwnx_rx_data_skb\<close> for the first frame of the list: resend, forward.\<close>

definition skb_route :: "rx_vif \<Rightarrow> hw_rxhdr \<Rightarrow> rx_buf list \<Rightarrow> rx_hw \<Rightarrow> (bool \<times> bool) option" where
  "skb_route v x l s =
    (if vf_type v \<in> {NL_AP, NL_AP_VLAN, NL_P2P_GO} \<and> \<not> vf_isolate v then
       (case l of [] \<Rightarrow> None
        | r # _ \<Rightarrow> do {
            g \<leftarrow> group_addressed r;
            if g then Some (True, True)
            else if hx_dst x \<noteq> RWNX_INVALID_STA then do {
              st \<leftarrow> sta_at (hx_dst x) s;
              Some (if st_valid st \<and> st_vlan st = vf_index v then (True, False) else (False, True)) }
            else Some (False, True) })
     else if vf_type v = NL_MESH_POINT then
       (case l of [] \<Rightarrow> None
        | r # _ \<Rightarrow> do { g \<leftarrow> group_addressed r; Some (if \<not> g \<and> hx_dst x \<noteq> RWNX_INVALID_STA then (True, False) else (False, True)) })
     else Some (False, True))"

definition skb_out :: "rx_env \<Rightarrow> rx_vif \<Rightarrow> bool \<Rightarrow> bool \<Rightarrow> rx_buf \<Rightarrow> rx_hw \<Rightarrow> rx_hw" where
  "skb_out e v resend fwd b s =
    (let s1 = (if resend then rwnx_rx_data_skb_resend e v b s else s)
     in if fwd then rwnx_rx_data_skb_forward v b s1 else s1)"

definition rwnx_rx_data_skb :: "rx_env \<Rightarrow> rx_vif \<Rightarrow> rx_buf \<Rightarrow> hw_rxhdr \<Rightarrow> rx_hw \<Rightarrow> (bool \<times> rx_hw) option" where
  "rwnx_rx_data_skb e v b x s = do {
     (l, s1) \<leftarrow> (if hx_amsdu x then rwnx_rxdata_process_amsdu e (hx_vif x) b s else Some ([b], s));
     (resend, fwd) \<leftarrow> skb_route v x l s1;
     Some (fwd, fold (skb_out e v resend fwd) l s1) }"

section \<open>Management frames\<close>

text \<open>A protected management frame loses its CCMP header.\<close>

definition remove_sec_hdr_mgmt_frame :: "hw_rxhdr \<Rightarrow> rx_buf \<Rightarrow> rx_buf option" where
  "remove_sec_hdr_mgmt_frame x b =
    (if hx_ga x then Some b
     else do {
       b0 \<leftarrow> byte b 0;
       b1 \<leftarrow> byte b 1;
       if b0 AND 0x0C = 0 \<and> b1 AND 0x40 = 0x40 \<and> hx_decr x = 3
       then do { hdr \<leftarrow> load 0 24 b; store 0 hdr (buf_pull 8 b) }
       else Some b })"

definition fc_is :: "u8 \<Rightarrow> u8 \<Rightarrow> bool" where
  "fc_is subtype b0 \<longleftrightarrow> b0 AND 0xFC = subtype"

definition rwnx_rx_mgmt :: "rx_vif \<Rightarrow> bool \<Rightarrow> rx_buf \<Rightarrow> mgmt_up option" where
  "rwnx_rx_mgmt v new_peer b = do {
     b0 \<leftarrow> byte b 0;
     if fc_is 0x80 b0 then Some (if vf_type v = NL_MESH_POINT \<and> new_peer then NewPeerCandidate else ObssBeacon)
     else do {
       reason \<leftarrow> (if fc_is 0xC0 b0 \<or> fc_is 0xA0 b0 then do { lo \<leftarrow> byte b 24; hi \<leftarrow> byte b 25; Some (of_le16 lo hi) } else Some 0);
       if reason \<in> {6, 7} then Some UnprotMlme
       else do {
         category \<leftarrow> (if vf_type v = NL_STATION \<and> fc_is 0xD0 b0 then byte b 24 else Some 0);
         Some (if category = 6 then FtEvent else RxMgmt) } } }"

fun mgmt_to_all :: "bool \<Rightarrow> rx_buf \<Rightarrow> nat list \<Rightarrow> rx_hw \<Rightarrow> rx_hw option" where
  "mgmt_to_all p b [] s = Some s"
| "mgmt_to_all p b (i # is) s =
    (if i < length (rh_vifs s) then
       (case rh_vifs s ! i of
          None \<Rightarrow> None
        | Some v \<Rightarrow> if vf_up v
            then do { m \<leftarrow> rwnx_rx_mgmt v p b; mgmt_to_all p b is (rx_log [MgmtRx (vf_index v) m (rb_id b)] s) }
            else mgmt_to_all p b is s)
     else None)"

definition rwnx_rx_mgmt_any :: "hw_rxhdr \<Rightarrow> rx_buf \<Rightarrow> rx_hw \<Rightarrow> rx_hw option" where
  "rwnx_rx_mgmt_any x b s = do {
     t \<leftarrow> (if hx_vif x = RWNX_INVALID_VIF then mgmt_to_all (hx_new_peer x) b (rh_vlist s) s
          else (case rwnx_rx_get_vif (hx_vif x) s of
              None \<Rightarrow> Some s
            | Some v \<Rightarrow> do { m \<leftarrow> rwnx_rx_mgmt v (hx_new_peer x) b; Some (rx_log [MgmtRx (vf_index v) m (rb_id b)] s) }));
     Some (free_buf b t) }"

section \<open>The 802.11 header\<close>

record mac_info =
  mi_hdr :: nat
  mi_tid :: nat
  mi_qos :: bool
  mi_amsdu :: bool
  mi_ra :: "u8 list"
  mi_ta :: "u8 list"
  mi_pull :: nat
  mi_ether :: "u8 list"

text \<open>Bytes of the security header in front of the LLC header, by decryption status (CCMP, TKIP, WEP, WAPI).\<close>

definition sec_len :: "nat \<Rightarrow> nat" where
  "sec_len d = (if d = 3 then 8 else if d = 2 then 8 else if d = 1 then 4 else if d = 7 then 18 else 0)"

text \<open>Destination and source as \<^verbatim>\<open>ra\<close> and \<^verbatim>\<open>ta\<close>: towards the distribution system, from it; otherwise they stay zero.\<close>

definition mac_addrs :: "u8 \<Rightarrow> rx_buf \<Rightarrow> (u8 list \<times> u8 list) option" where
  "mac_addrs b1 b =
    (if b1 AND 3 = 1 then do { ra \<leftarrow> load 16 6 b; ta \<leftarrow> load 10 6 b; Some (ra, ta) }
     else if b1 AND 3 = 2 then do { ta \<leftarrow> load 16 6 b; ra \<leftarrow> load 4 6 b; Some (ra, ta) }
     else Some (replicate 6 0, replicate 6 0))"

definition parse_mac :: "nat \<Rightarrow> rx_buf \<Rightarrow> mac_info option" where
  "parse_mac decr b = do {
     b0 \<leftarrow> byte b 0;
     b1 \<leftarrow> byte b 1;
     let qos = (b0 AND 0x80 = 0x80);
     qc \<leftarrow> (if qos then byte b 24 else Some 0);
     let hdr = (if qos then 26 else 24) + (if b1 AND 0x80 \<noteq> 0 then 4 else 0);
     (ra, ta) \<leftarrow> mac_addrs b1 b;
     et \<leftarrow> load (hdr + 6 + sec_len decr) 2 b;
     Some \<lparr>mi_hdr = hdr, mi_tid = unat (qc AND 0x0F), mi_qos = qos, mi_amsdu = (qc AND 0x80 \<noteq> 0), mi_ra = ra, mi_ta = ta,
       mi_pull = hdr + 8 + sec_len decr, mi_ether = et\<rparr> }"

text \<open>The headers are replaced by an Ethernet header.\<close>

definition to_eth :: "mac_info \<Rightarrow> rx_buf \<Rightarrow> rx_buf option" where
  "to_eth mi b = do {
     b1 \<leftarrow> buf_push 14 (buf_pull (mi_pull mi) b);
     store 0 (mi_ra mi @ mi_ta mi @ mi_ether mi) b1 }"

section \<open>Fragments\<close>

fun find_defrag :: "u16 \<Rightarrow> nat \<Rightarrow> nat \<Rightarrow> nat \<Rightarrow> defrag_ctrl_info list \<Rightarrow> nat option" where
  "find_defrag sn tid sta i [] = None"
| "find_defrag sn tid sta i (d # ds) =
    (if df_sn d = sn \<and> df_tid d = tid \<and> df_sta d = sta then Some i else find_defrag sn tid sta (Suc i) ds)"

text \<open>The payload of a fragment goes behind what has arrived.  The buffer for it was allocated for 2000 bytes.\<close>

definition append_frag :: "nat \<Rightarrow> rx_buf \<Rightarrow> defrag_ctrl_info \<Rightarrow> defrag_ctrl_info option" where
  "append_frag skip b d =
    (if rb_len b < skip then None
     else do {
       d1 \<leftarrow> buf_put (rb_len b - skip) (df_buf d);
       xs \<leftarrow> load skip (rb_len b - skip) b;
       d2 \<leftarrow> store (unat (df_len d)) xs d1;
       Some (d\<lparr>df_buf := d2, df_len := df_len d + word_of_nat (rb_len b - skip)\<rparr>) })"

definition first_frag :: "rx_env \<Rightarrow> mac_info \<Rightarrow> u16 \<Rightarrow> nat \<Rightarrow> rx_buf \<Rightarrow> rx_hw \<Rightarrow> rx_hw option" where
  "first_frag e mi sn sta b s =
    (case try_alloc e s of
       (None, s1) \<Rightarrow> Some (free_buf b s1)
     | (Some _, s1) \<Rightarrow>
       (case try_alloc e s1 of
          (None, s2) \<Rightarrow> Some (free_buf b s2)
        | (Some i, s2) \<Rightarrow> do {
            b1 \<leftarrow> to_eth mi b;
            d1 \<leftarrow> buf_put (rb_len b1) (new_buf i (en_room e 2000));
            xs \<leftarrow> load 0 (rb_len b1) b1;
            d2 \<leftarrow> store 0 xs d1;
            Some (free_buf b (s2\<lparr>rh_defrag := rh_defrag s2 @ [\<lparr>df_sta = sta, df_tid = mi_tid mi, df_sn = sn, df_fn = 1,
              df_len = word_of_nat (rb_len b1), df_buf = d2\<rparr>]\<rparr>)) }))"

definition next_frag :: "mac_info \<Rightarrow> u8 \<Rightarrow> nat \<Rightarrow> rx_buf \<Rightarrow> rx_hw \<Rightarrow> rx_hw option" where
  "next_frag mi fn k b s =
    (let d = rh_defrag s ! k
     in if df_fn d \<noteq> fn then Some (free_buf b s)
        else do {
          d1 \<leftarrow> append_frag (mi_pull mi - 8) b d;
          Some (free_buf b (s\<lparr>rh_defrag := (rh_defrag s)[k := d1\<lparr>df_fn := df_fn d1 + 1\<rparr>]\<rparr>)) })"

text \<open>
  The last fragment.  Its buffer is freed before the complete frame is handed on with a pointer to the hardware header in it.
\<close>

definition last_frag :: "rx_env \<Rightarrow> hw_rxhdr \<Rightarrow> mac_info \<Rightarrow> u8 \<Rightarrow> nat \<Rightarrow> rx_buf \<Rightarrow> rx_hw \<Rightarrow> rx_hw option" where
  "last_frag e x mi fn k b s =
    (let d = rh_defrag s ! k
     in if df_fn d \<noteq> fn then Some (free_buf b s)
        else do {
          d1 \<leftarrow> append_frag (mi_pull mi - 8) b d;
          (case rwnx_rx_get_vif (hx_vif x) s of
             None \<Rightarrow> Some (free_buf b (s\<lparr>rh_defrag := (rh_defrag s)[k := d1]\<rparr>))
           | Some v \<Rightarrow> do {
               (forwarded, t) \<leftarrow> rwnx_rx_data_skb e v (df_buf d1) (en_freed e x)
                  (free_buf b (s\<lparr>rh_defrag := take k (rh_defrag s) @ drop (Suc k) (rh_defrag s)\<rparr>));
               Some (if forwarded then t else free_buf (df_buf d1) t) }) })"

text \<open>\<open>None\<close> inside: the frame is not a fragment to be kept, or its beginning is not known.\<close>

definition defragment :: "rx_env \<Rightarrow> hw_rxhdr \<Rightarrow> mac_info \<Rightarrow> u16 \<Rightarrow> u8 \<Rightarrow> bool \<Rightarrow> rx_buf \<Rightarrow> rx_hw \<Rightarrow> rx_hw option option" where
  "defragment e x mi sn fn mf b s =
    (let sta = (if hx_dst x \<noteq> RWNX_INVALID_STA then hx_dst x else 0);
         known = find_defrag sn (mi_tid mi) sta 0 (rh_defrag s)
     in if hx_reord x \<or> \<not> mf \<and> fn = 0 then Some None
        else if mf then map_option Some (case known of None \<Rightarrow> first_frag e mi sn sta b s | Some k \<Rightarrow> next_frag mi fn k b s)
        else (case known of None \<Rightarrow> Some None | Some k \<Rightarrow> map_option Some (last_frag e x mi fn k b s)))"

definition defrag_timeout_cb :: "nat \<Rightarrow> rx_hw \<Rightarrow> rx_hw" where
  "defrag_timeout_cb k s =
    (if k < length (rh_defrag s)
     then free_buf (df_buf (rh_defrag s ! k)) (s\<lparr>rh_defrag := take k (rh_defrag s) @ drop (Suc k) (rh_defrag s)\<rparr>) else s)"

definition defrag_teardown :: "rx_hw \<Rightarrow> rx_hw" where
  "defrag_teardown s = rx_log (map (\<lambda>d. KFree (rb_id (df_buf d))) (rh_defrag s)) (s\<lparr>rh_defrag := []\<rparr>)"

section \<open>A frame for a station interface\<close>

definition to_skb :: "rx_buf \<Rightarrow> sk_buff" where
  "to_skb b = \<lparr>skb_id = rb_id b, skb_len = word_of_nat (rb_len b), skb_mem = drop (rb_data b) (rb_mem b)\<rparr>"

definition reord_type :: "nl_iftype \<Rightarrow> iftype" where
  "reord_type t = (case t of NL_STATION \<Rightarrow> STATION | NL_P2P_CLIENT \<Rightarrow> P2P_CLIENT | NL_AP \<Rightarrow> AP | NL_P2P_GO \<Rightarrow> P2P_GO | _ \<Rightarrow> OTHER_IFTYPE)"

definition with_reord :: "rx_priv \<Rightarrow> rx_hw \<Rightarrow> rx_hw" where
  "with_reord r s = s\<lparr>rh_reord := r\<rparr>"

text \<open>\<^verbatim>\<open>reord_flush_tid\<close>; a traffic identifier above 7 selects a controller past the array of a known station.\<close>

definition flush_tid :: "rx_env \<Rightarrow> rx_buf \<Rightarrow> nat \<Rightarrow> rx_hw \<Rightarrow> (int \<times> rx_hw) option" where
  "flush_tid e b tid s =
    (let r = rh_reord s; skb = to_skb b
     in if 8 \<le> tid \<and> (\<exists>mac. sta_mac (iftype r) skb = Some mac \<and> find_sta mac 0 (stas_reord_list r) \<noteq> None) then None
        else (case reord_flush_tid (en_amsdu e) skb tid r of (ret, r1) \<Rightarrow> Some (ret, with_reord r1 s)))"

definition sta_frame :: "rx_env \<Rightarrow> hw_rxhdr \<Rightarrow> rx_vif \<Rightarrow> bool \<Rightarrow> nat \<Rightarrow> u16 \<Rightarrow> rx_buf \<Rightarrow> rx_hw \<Rightarrow> rx_hw option" where
  "sta_frame e x v qos tid sn b s =
    (if qos \<and> hx_reord x then
       (case reord_rxframe_alloc (rh_reord s) of
          (None, r) \<Rightarrow> Some (free_buf b (with_reord r s))
        | (Some p, r) \<Rightarrow> do {
            (ret, r1) \<leftarrow> reord_process_unit (en_amsdu e) (en_expires e) (en_kmalloc e) p (to_skb b) sn (word_of_nat tid) True (hx_amsdu x)
               (upd_frame p (\<lambda>f. f\<lparr>is_ap_reord := False, ap_fwd_cnt := 0, ap_resend_cnt := 0\<rparr>) r);
            Some (with_reord r1 s) })
     else do {
       s1 \<leftarrow> (if qos then map_option snd (flush_tid e b tid s) else Some s);
       (fwd, s2) \<leftarrow> rwnx_rx_data_skb e v b x s1;
       Some (if \<not> fwd \<and> \<not> hx_amsdu x then free_buf b s2 else s2) })"

section \<open>A frame for an access point\<close>

text \<open>What happens to one frame: resend it, forward it.\<close>

definition ap_route :: "rx_vif \<Rightarrow> hw_rxhdr \<Rightarrow> rx_buf \<Rightarrow> rx_hw \<Rightarrow> (bool \<times> bool) option" where
  "ap_route v x b s = do {
     g \<leftarrow> group_addressed b;
     if g then Some (True, True)
     else if hx_dst x \<noteq> RWNX_INVALID_STA \<and> \<not> hx_amsdu x then do {
       st \<leftarrow> sta_at (hx_dst x) s;
       Some (if st_valid st \<and> st_vlan st = vf_index v then (True, False) else (False, True)) }
     else do {
       da \<leftarrow> load 0 6 b;
       macs \<leftarrow> those (map (\<lambda>i. map_option st_mac (sta_at i s)) (vf_stas v));
       Some (if da \<in> set macs then (True, False) else (False, True)) } }"

text \<open>A frame of the pool collects the frames of one transfer that are to be forwarded and those that were sent again.\<close>

definition collect :: "bool \<Rightarrow> rx_buf \<Rightarrow> recv_msdu \<Rightarrow> recv_msdu" where
  "collect fwd b f =
    (if fwd then f\<lparr>ap_fwd_cnt := ap_fwd_cnt f + 1, fwd_skbs := fwd_skbs f @ [to_skb b]\<rparr>
     else f\<lparr>ap_resend_cnt := ap_resend_cnt f + 1, resend_skbs := resend_skbs f @ [to_skb b]\<rparr>)"

definition ap_pframe :: "bool \<Rightarrow> rx_buf \<Rightarrow> nat option \<Rightarrow> rx_hw \<Rightarrow> nat option \<times> rx_hw" where
  "ap_pframe fwd b pf s =
    (case pf of
       Some p \<Rightarrow> (Some p, with_reord (upd_frame p (collect fwd b) (rh_reord s)) s)
     | None \<Rightarrow>
       (case reord_rxframe_alloc (rh_reord s) of
          (None, r) \<Rightarrow> (None, free_buf b (with_reord r s))
        | (Some p, r) \<Rightarrow>
            (Some p, with_reord (upd_frame p (\<lambda>f. collect fwd b (f\<lparr>ap_fwd_cnt := 0, ap_resend_cnt := 0, fwd_skbs := [], resend_skbs := []\<rparr>)) r) s)))"

text \<open>The list of frames.  \<open>Inl\<close>: no frame was left in the pool, the rest of the list is abandoned.\<close>

fun ap_loop :: "rx_env \<Rightarrow> rx_vif \<Rightarrow> hw_rxhdr \<Rightarrow> bool \<Rightarrow> nat \<Rightarrow> rx_buf list \<Rightarrow> nat option \<Rightarrow> rx_hw \<Rightarrow> (rx_hw + nat option \<times> rx_hw) option" where
  "ap_loop e v x qos tid [] pf s = Some (Inr (pf, s))"
| "ap_loop e v x qos tid (b # bs) pf s = do {
     (resend, fwd) \<leftarrow> ap_route v x b s;
     let s1 = (if resend then rwnx_rx_data_skb_resend e v b s else s);
     if qos \<and> hx_reord x then
       (case ap_pframe fwd b pf s1 of
          (None, s2) \<Rightarrow> Some (Inl s2)
        | (Some p, s2) \<Rightarrow> ap_loop e v x qos tid bs (Some p) s2)
     else do {
       (ret, s2) \<leftarrow> (if qos then flush_tid e b tid s1 else Some (0, s1));
       ap_loop e v x qos tid bs pf
         (if fwd then rwnx_rx_data_skb_forward v b s2 else if ret = 0 then free_buf b s2 else s2) } }"

definition ap_frame :: "rx_env \<Rightarrow> hw_rxhdr \<Rightarrow> rx_vif \<Rightarrow> bool \<Rightarrow> nat \<Rightarrow> u16 \<Rightarrow> rx_buf \<Rightarrow> rx_hw \<Rightarrow> rx_hw option" where
  "ap_frame e x v qos tid sn b s = do {
     (l, s1) \<leftarrow> (if hx_amsdu x then rwnx_rxdata_process_amsdu e (hx_vif x) b s else Some ([b], s));
     r \<leftarrow> ap_loop e v x qos tid l None s1;
     (case r of
        Inl s2 \<Rightarrow> Some s2
      | Inr (None, s2) \<Rightarrow> Some s2
      | Inr (Some p, s2) \<Rightarrow> do {
          (ret, r1) \<leftarrow> reord_process_unit (en_amsdu e) (en_expires e) (en_kmalloc e) p (to_skb (last l)) sn (word_of_nat tid) False False
             (upd_frame p (\<lambda>f. f\<lparr>is_ap_reord := True\<rparr>) (rh_reord s2));
          Some (with_reord r1 s2) }) }"

section \<open>A transfer\<close>

text \<open>The interface of the sending station, which may be a VLAN; \<open>None\<close> inside when that interface is gone.\<close>

definition sender_vif :: "hw_rxhdr \<Rightarrow> rx_vif \<Rightarrow> rx_hw \<Rightarrow> rx_vif option option" where
  "sender_vif x v s =
    (if hx_sta x = RWNX_INVALID_STA then Some (Some v)
     else do {
       st \<leftarrow> sta_at (hx_sta x) s;
       if st_vlan st \<noteq> vf_index v then (if st_vlan st < length (rh_vifs s) then Some (rh_vifs s ! st_vlan st) else None)
       else Some (Some v) })"

text \<open>What follows the conversion of the header.  An interface of another type disposes of nothing.\<close>

definition data_frame :: "rx_env \<Rightarrow> nat \<Rightarrow> bool \<Rightarrow> nat \<Rightarrow> u16 \<Rightarrow> rx_buf \<Rightarrow> rx_hw \<Rightarrow> rx_hw option" where
  "data_frame e h qos tid sn b s = do {
     x \<leftarrow> read_rxhdr (rb_mem b) h;
     if hx_mpdu x then do { b1 \<leftarrow> remove_sec_hdr_mgmt_frame x b; rwnx_rx_mgmt_any x b1 s }
     else (case rwnx_rx_get_vif (hx_vif x) s of
         None \<Rightarrow> Some (free_buf b s)
       | Some v \<Rightarrow> do {
           w \<leftarrow> sender_vif x v s;
           (case w of
              None \<Rightarrow> Some (free_buf b s)
            | Some v1 \<Rightarrow>
                (let s1 = (if hx_sta x \<noteq> RWNX_INVALID_STA \<and> hx_4addr x \<and> \<not> vf_4addr v1 then rx_log [Unexpected4Addr (hx_sta x)] s else s);
                     s2 = with_reord ((rh_reord s1)\<lparr>iftype := reord_type (vf_type v1)\<rparr>) s1
                 in if vf_type v1 \<in> {NL_STATION, NL_P2P_CLIENT} then sta_frame e x v1 qos tid sn b s2
                    else if vf_type v1 \<in> {NL_AP, NL_P2P_GO} then ap_frame e x v1 qos tid sn b s2
                    else Some s2)) }) }"

text \<open>A data frame: the header is read, fragments are collected, an A-MSDU is left with its subframes in front.\<close>

definition data_header :: "rx_env \<Rightarrow> nat \<Rightarrow> u16 \<Rightarrow> u8 \<Rightarrow> bool \<Rightarrow> rx_buf \<Rightarrow> rx_hw \<Rightarrow> rx_hw option" where
  "data_header e h sn fn mf b s = do {
     x \<leftarrow> read_rxhdr (rb_mem b) h;
     mi \<leftarrow> parse_mac (hx_decr x) b;
     b1 \<leftarrow> set_amsdu h (mi_amsdu mi) b;
     let b2 = (if mi_amsdu mi then buf_pull (mi_pull mi - 8) b1 else b1);
     r \<leftarrow> defragment e (x\<lparr>hx_amsdu := mi_amsdu mi\<rparr>) mi sn fn mf b2 s;
     (case r of
        Some t \<Rightarrow> Some t
      | None \<Rightarrow> do {
          b3 \<leftarrow> (if mi_amsdu mi then Some b2 else to_eth mi b2);
          data_frame e h (mi_qos mi) (mi_tid mi) sn b3 s }) }"

text \<open>The part of \<^verbatim>\<open>rwnx_rxdataind_aicwf\<close> for a frame that is to be handed up (\<^verbatim>\<open>RX_STAT_FORWARD\<close>).\<close>

definition rxdata_upload :: "rx_env \<Rightarrow> rx_buf \<Rightarrow> rx_hw \<Rightarrow> rx_hw option" where
  "rxdata_upload e b0 s =
    (let h = rb_data b0; b = buf_pull 60 b0 in do {
       fc \<leftarrow> byte b 0;
       fc1 \<leftarrow> byte b 1;
       lo \<leftarrow> byte b 22;
       hi \<leftarrow> byte b 23;
       let sn = (ucast (drop_bit 4 (lo AND 0xf0)) OR push_bit 4 (ucast hi) :: u16);
       if fc AND 0x0F = 0x08 then data_header e h sn (lo AND 0x0F) (fc1 AND 0x04 \<noteq> 0) b s
       else data_frame e h False 0 sn b s })"

end
