(* ===== verification/Rx_Amsdu.thy ===== *)
theory Rx_Amsdu
  imports Rx_Data
begin

text \<open>Buffers as bytes before, of and behind the packet, and the splitting of an A-MSDU.\<close>

section \<open>Where the packet lies in its buffer\<close>

definition holds :: "rx_buf \<Rightarrow> u8 list \<Rightarrow> u8 list \<Rightarrow> u8 list \<Rightarrow> bool" where
  "holds b pre body post \<longleftrightarrow> rb_mem b = pre @ body @ post \<and> rb_data b = length pre \<and> rb_len b = length body"

lemma holds_byte: "holds b pre body post \<Longrightarrow> k < length body \<Longrightarrow> byte b k = Some (body ! k)"
  by (simp add: holds_def byte_def rd_def nth_append)

lemma holds_load:
  assumes "holds b pre body post" and "k + n \<le> length body"
  shows "load k n b = Some (take n (drop k body))"
  using assms by (simp add: holds_def load_def)

lemma holds_load_any:
  assumes "holds b pre body post" and "k + n \<le> length body + length post"
  shows "load k n b = Some (take n (drop k (body @ post)))"
  using assms by (simp add: holds_def load_def)

lemma holds_pull: "holds b pre (xs @ ys) post \<Longrightarrow> n = length xs \<Longrightarrow> holds (buf_pull n b) (pre @ xs) ys post"
  by (simp add: holds_def buf_pull_def)

lemma holds_content: "holds b pre body post \<Longrightarrow> content b = body"
  by (simp add: holds_def content_def)

lemma pull_id [simp]: "rb_id (buf_pull n b) = rb_id b" "rb_mem (buf_pull n b) = rb_mem b"
  by (simp_all add: buf_pull_def)

lemma rx_sel [simp]:
  "rh_vifs (rx_log es s) = rh_vifs s" "rh_stas (rx_log es s) = rh_stas s" "rh_defrag (rx_log es s) = rh_defrag s" "rh_reord (rx_log es s) = rh_reord s"
  "rh_next (rx_log es s) = rh_next s" "rh_events (rx_log es s) = rh_events s @ es"
  "rh_vifs (free_buf b s) = rh_vifs s" "rh_stas (free_buf b s) = rh_stas s" "rh_defrag (free_buf b s) = rh_defrag s"
  "rh_reord (free_buf b s) = rh_reord s" "rh_next (free_buf b s) = rh_next s" "rh_events (free_buf b s) = rh_events s @ [KFree (rb_id b)]"
  by (simp_all add: rx_log_def free_buf_def)

lemma rx_log_nil [simp]: "rx_log [] s = s"
  by (simp add: rx_log_def)

lemma rx_log_log [simp]: "rx_log es (rx_log fs s) = rx_log (fs @ es) s"
  by (simp add: rx_log_def)

lemma get_vif_cong: "rh_vifs t = rh_vifs s \<Longrightarrow> rwnx_rx_get_vif i t = rwnx_rx_get_vif i s"
  by (simp add: rwnx_rx_get_vif_def)

lemma sta_at_cong: "rh_stas t = rh_stas s \<Longrightarrow> sta_at i t = sta_at i s"
  by (simp add: sta_at_def)

section \<open>Subframes on the wire\<close>

text \<open>
  A subframe: destination, source, six bytes of LLC header and what follows them.  On the wire its length stands in front of the LLC header and up to
  three bytes fill it up to a multiple of four.
\<close>

record subframe =
  sf_addrs :: "u8 list"
  sf_llc :: "u8 list"
  sf_body :: "u8 list"
  sf_pad :: "u8 list"

definition sf_len :: "subframe \<Rightarrow> nat" where
  "sf_len f = 6 + length (sf_body f)"

definition sf_be16 :: "nat \<Rightarrow> u8 list" where
  "sf_be16 n = [word_of_nat (n div 256), word_of_nat n]"

definition sf_head :: "subframe \<Rightarrow> u8 list" where
  "sf_head f = sf_addrs f @ sf_be16 (sf_len f) @ sf_llc f @ sf_body f"

definition sf_wire :: "subframe \<Rightarrow> u8 list" where
  "sf_wire f = sf_head f @ sf_pad f"

definition sf_eth :: "subframe \<Rightarrow> u8 list" where
  "sf_eth f = sf_addrs f @ sf_body f"

definition sf_fields :: "subframe \<Rightarrow> bool" where
  "sf_fields f \<longleftrightarrow> length (sf_addrs f) = 12 \<and> length (sf_llc f) = 6 \<and> sf_len f < 65504"

definition sf_filled :: "subframe \<Rightarrow> bool" where
  "sf_filled f \<longleftrightarrow> length (sf_pad f) < 4 \<and> (sf_len f + 14 + length (sf_pad f)) mod 4 = 0"

text \<open>The last subframe may do without filling.\<close>

fun amsdu_ok :: "subframe list \<Rightarrow> bool" where
  "amsdu_ok [] = True"
| "amsdu_ok [f] = (sf_fields f \<and> (sf_pad f = [] \<or> sf_filled f))"
| "amsdu_ok (f # fs) = (sf_fields f \<and> sf_filled f \<and> amsdu_ok fs)"

abbreviation amsdu_wire :: "subframe list \<Rightarrow> u8 list" where
  "amsdu_wire fs \<equiv> concat (map sf_wire fs)"

lemma len_sf_head: "sf_fields f \<Longrightarrow> length (sf_head f) = sf_len f + 14"
  by (simp add: sf_fields_def sf_head_def sf_be16_def sf_len_def)

lemma sf_be16_read: "n < 65536 \<Longrightarrow> 256 * unat (word_of_nat (n div 256) :: u8) + unat (word_of_nat n :: u8) = n"
proof -
  assume n: "n < 65536"
  have "unat (word_of_nat (n div 256) :: u8) = n div 256" using n by (simp add: unat_of_nat)
  moreover have "unat (word_of_nat n :: u8) = n mod 256" by (simp add: unat_of_nat)
  ultimately show ?thesis by simp
qed

lemma sub_len_head:
  assumes "sf_fields f" and "holds b pre (sf_head f @ ys) post"
  shows "sub_len b = Some (sf_len f)"
proof -
  have l: "length (sf_addrs f) = 12" "sf_len f < 65536" using assms(1) by (simp_all add: sf_fields_def)
  have "(sf_head f @ ys) ! 12 = word_of_nat (sf_len f div 256)" "(sf_head f @ ys) ! 13 = word_of_nat (sf_len f)"
    using l(1) by (simp_all add: sf_head_def sf_be16_def nth_append)
  moreover have "13 < length (sf_head f @ ys)" using len_sf_head [OF assms(1)] by simp
  ultimately show ?thesis
    using holds_byte [OF assms(2), of 12] holds_byte [OF assms(2), of 13] sf_be16_read [OF l(2)] by (simp add: sub_len_def)
qed

text \<open>One round takes a subframe off.\<close>

definition sub_buf :: "nat \<Rightarrow> subframe \<Rightarrow> rx_buf" where
  "sub_buf i f = \<lparr>rb_id = i, rb_mem = sf_eth f, rb_data = 0, rb_len = sf_len f + 6\<rparr>"

lemma content_sub_buf: "sf_fields f \<Longrightarrow> content (sub_buf i f) = sf_eth f"
  by (simp add: content_def sub_buf_def sf_eth_def sf_fields_def sf_len_def)

lemma amsdu_round_head:
  assumes "sf_fields f" and "holds b pre (sf_head f @ ys) post" and "en_alloc e (rh_next s)" and "rwnx_rx_get_vif v s \<noteq> None"
  shows "amsdu_round e v b subs s =
    Some (AmsduNext (buf_pull (aligned_len (length (sf_head f @ ys)) (sf_len f)) b) (subs @ [sub_buf (rh_next s) f]) (s\<lparr>rh_next := rh_next s + 1\<rparr>))"
proof -
  let ?n = "sf_len f"
  have len: "rb_len b = length (sf_head f @ ys)" "length (sf_head f) = ?n + 14" "length (sf_addrs f) = 12" "length (sf_llc f) = 6" "6 \<le> ?n"
    using assms(1,2) len_sf_head [OF assms(1)] by (simp_all add: holds_def sf_fields_def sf_len_def)
  have n: "sub_len b = Some ?n" by (rule sub_len_head [OF assms(1,2)])
  have 1: "load 0 12 b = Some (sf_addrs f)"
    using holds_load [OF assms(2), of 0 12] len by (simp add: sf_head_def)
  have "drop 20 (sf_head f) = sf_body f" using len(3,4) by (simp add: sf_head_def sf_be16_def)
  then have 2: "load 20 (?n - 6) b = Some (sf_body f)"
    using holds_load [OF assms(2), of 20 "?n - 6"] len by (simp add: sf_len_def)
  have v: "rwnx_rx_get_vif v (s\<lparr>rh_next := rh_next s + 1\<rparr>) = rwnx_rx_get_vif v s" by (rule get_vif_cong) simp
  have "\<not> rb_len b < ?n + 14" "\<not> ?n < 6" using len by simp_all
  then show ?thesis
    using n 1 2 v assms(3,4) len(1) by (auto simp: amsdu_round_def try_alloc_def sub_buf_def sf_eth_def)
qed

lemma aligned_filled:
  assumes "sf_filled f" and "sf_fields f"
  shows "aligned_len (sf_len f + 14 + length (sf_pad f) + k) (sf_len f) = sf_len f + 14 + length (sf_pad f)"
proof -
  have a: "length (sf_pad f) < 4" "(sf_len f + 14 + length (sf_pad f)) mod 4 = 0" "sf_len f < 65504"
    using assms by (simp_all add: sf_filled_def sf_fields_def)
  have "(sf_len f + 17) div 4 * 4 = sf_len f + 14 + length (sf_pad f)" using a(1,2) by presburger
  with a(1,3) show ?thesis by (auto simp: aligned_len_def)
qed

fun sub_bufs :: "nat \<Rightarrow> subframe list \<Rightarrow> rx_buf list" where
  "sub_bufs n [] = []"
| "sub_bufs n (f # fs) = sub_buf n f # sub_bufs (Suc n) fs"

lemma sub_bufs_ids: "map rb_id (sub_bufs n fs) = [n ..< n + length fs]"
  by (induction fs arbitrary: n) (simp_all add: sub_buf_def upt_conv_Cons del: upt_Suc)

lemma amsdu_fields: "amsdu_ok fs \<Longrightarrow> \<forall>f \<in> set fs. sf_fields f"
  by (induction fs rule: amsdu_ok.induct) simp_all

lemma sub_bufs_contents: "amsdu_ok fs \<Longrightarrow> map content (sub_bufs n fs) = map sf_eth fs"
proof -
  have "\<forall>f \<in> set fs. sf_fields f \<Longrightarrow> map content (sub_bufs n fs) = map sf_eth fs"
    by (induction fs arbitrary: n) (simp_all add: content_sub_buf)
  then show "amsdu_ok fs \<Longrightarrow> map content (sub_bufs n fs) = map sf_eth fs" using amsdu_fields by blast
qed

text \<open>A filled subframe is taken off whatever comes behind it.\<close>

lemma amsdu_loop_filled:
  assumes "sf_fields f" "sf_filled f" and "holds b pre (sf_wire f @ ys) post" and "\<forall>k. en_alloc e k" and "rwnx_rx_get_vif v s \<noteq> None"
  shows "amsdu_loop e v b subs s = amsdu_loop e v (buf_pull (length (sf_wire f)) b) (subs @ [sub_buf (rh_next s) f]) (s\<lparr>rh_next := rh_next s + 1\<rparr>)"
proof -
  have h: "holds b pre (sf_head f @ sf_pad f @ ys) post" using assms(3) by (simp add: sf_wire_def)
  have hl: "length (sf_head f) = sf_len f + 14" by (rule len_sf_head [OF assms(1)])
  have "\<not> rb_len b \<le> 16" using h hl by (simp add: holds_def sf_len_def)
  moreover have "aligned_len (length (sf_head f @ sf_pad f @ ys)) (sf_len f) = length (sf_wire f)"
    using aligned_filled [OF assms(2,1), of "length ys"] hl by (simp add: add.assoc sf_wire_def)
  ultimately show ?thesis
    using amsdu_round_head [OF assms(1) h, of e s v subs] assms(4,5) by (subst amsdu_loop.simps) simp
qed

definition all_filled :: "subframe list \<Rightarrow> bool" where
  "all_filled fs \<longleftrightarrow> (\<forall>f \<in> set fs. sf_fields f \<and> sf_filled f)"

lemma amsdu_loop_prefix:
  assumes "all_filled fs" and "holds b pre (amsdu_wire fs @ ys) post" and "\<forall>k. en_alloc e k" and "rwnx_rx_get_vif v s \<noteq> None"
  shows "amsdu_loop e v b subs s =
    amsdu_loop e v (buf_pull (length (amsdu_wire fs)) b) (subs @ sub_bufs (rh_next s) fs) (s\<lparr>rh_next := rh_next s + length fs\<rparr>)"
  using assms
proof (induction fs arbitrary: b pre subs s)
  case Nil
  then show ?case by (simp add: buf_pull_def)
next
  case (Cons f fs)
  let ?b = "buf_pull (length (sf_wire f)) b" and ?s = "s\<lparr>rh_next := rh_next s + 1\<rparr>"
  have h: "holds b pre (sf_wire f @ amsdu_wire fs @ ys) post" using Cons.prems(2) by simp
  have "rwnx_rx_get_vif v ?s = rwnx_rx_get_vif v s" by (rule get_vif_cong) simp
  then have v: "rwnx_rx_get_vif v ?s \<noteq> None" using Cons.prems(4) by simp
  have f: "sf_fields f" "sf_filled f" "all_filled fs" using Cons.prems(1) by (simp_all add: all_filled_def)
  have "buf_pull (length (amsdu_wire fs)) ?b = buf_pull (length (amsdu_wire (f # fs))) b"
    using h by (simp add: buf_pull_def holds_def)
  with Cons.IH [OF f(3) holds_pull [OF h refl] Cons.prems(3) v, of "subs @ [sub_buf (rh_next s) f]"]
    amsdu_loop_filled [OF f(1,2) h Cons.prems(3,4), of subs]
  show ?case by simp
qed

text \<open>The last subframe, with at most 16 bytes behind it.\<close>

lemma amsdu_loop_last:
  assumes "sf_fields f" and "holds b pre (sf_head f @ xs) post" and "length xs \<le> 16" and "xs = [] \<or> (sf_len f + 17) div 4 \<le> (sf_len f + 14 + length xs) div 4"
    and "en_alloc e (rh_next s)" and "rwnx_rx_get_vif v s \<noteq> None"
  shows "amsdu_loop e v b subs s = Some (Some (subs @ [sub_buf (rh_next s) f], s\<lparr>rh_next := rh_next s + 1\<rparr>))"
proof -
  have l: "rb_len b = length (sf_head f @ xs)" "length (sf_head f) = sf_len f + 14" "6 \<le> sf_len f" "sf_len f < 65504"
    using assms(1,2) len_sf_head [OF assms(1)] by (simp_all add: holds_def sf_fields_def sf_len_def)
  let ?n = "aligned_len (length (sf_head f @ xs)) (sf_len f)"
  have "(sf_len f + 17) div 4 * 4 \<le> sf_len f + 14 + length xs" if "xs \<noteq> []" using assms(4) that by linarith
  moreover have "sf_len f + 14 \<le> (sf_len f + 17) div 4 * 4" by linarith
  ultimately have "sf_len f + 14 \<le> ?n \<and> ?n \<le> rb_len b" using l by (cases "xs = []") (simp_all add: aligned_len_def)
  then have "rb_len (buf_pull ?n b) \<le> 16" using l assms(3) unfolding buf_pull_def by auto
  then have "amsdu_loop e v (buf_pull ?n b) m t = Some (Some (m, t))" for m t by (subst amsdu_loop.simps) simp
  then show ?thesis
    using amsdu_round_head [OF assms(1,2,5,6), of subs] l by (subst amsdu_loop.simps) simp
qed

lemma amsdu_ok_split: "amsdu_ok fs \<Longrightarrow> fs \<noteq> [] \<Longrightarrow> all_filled (butlast fs) \<and> sf_fields (last fs) \<and> (sf_pad (last fs) = [] \<or> sf_filled (last fs))"
  by (induction fs rule: amsdu_ok.induct) (auto simp: all_filled_def)

lemma sub_bufs_append: "sub_bufs n (fs @ gs) = sub_bufs n fs @ sub_bufs (n + length fs) gs"
  by (induction fs arbitrary: n) simp_all

lemma amsdu_loop_end:
  assumes "all_filled fs" and "sf_fields f" and "holds b pre (amsdu_wire fs @ sf_head f @ xs) post" and "length xs \<le> 16"
    and "xs = [] \<or> (sf_len f + 17) div 4 \<le> (sf_len f + 14 + length xs) div 4" and "\<forall>k. en_alloc e k" and "rwnx_rx_get_vif v s \<noteq> None"
  shows "amsdu_loop e v b subs s = Some (Some (subs @ sub_bufs (rh_next s) (fs @ [f]), s\<lparr>rh_next := rh_next s + Suc (length fs)\<rparr>))"
proof -
  let ?s = "s\<lparr>rh_next := rh_next s + length fs\<rparr>"
  have "rwnx_rx_get_vif v ?s = rwnx_rx_get_vif v s" by (rule get_vif_cong) simp
  then have v: "rwnx_rx_get_vif v ?s \<noteq> None" using assms(7) by simp
  have "en_alloc e (rh_next ?s)" using assms(6) by blast
  from amsdu_loop_last [OF assms(2) holds_pull [OF assms(3) refl] assms(4,5) this v, of "subs @ sub_bufs (rh_next s) fs"]
  show ?thesis using amsdu_loop_prefix [OF assms(1,3,6,7), of subs] by (simp add: sub_bufs_append)
qed

lemma amsdu_loop_wire:
  assumes "amsdu_ok fs" and "holds b pre (amsdu_wire fs) post" and "\<forall>k. en_alloc e k" and "rwnx_rx_get_vif v s \<noteq> None"
  shows "amsdu_loop e v b subs s = Some (Some (subs @ sub_bufs (rh_next s) fs, s\<lparr>rh_next := rh_next s + length fs\<rparr>))"
proof (cases "fs = []")
  case True
  then have "rb_len b = 0" using assms(2) by (simp add: holds_def)
  then show ?thesis using True by (subst amsdu_loop.simps) simp
next
  case False
  then obtain gs f where fs: "fs = gs @ [f]" by (metis append_butlast_last_id)
  have f: "all_filled gs" "sf_fields f" "sf_pad f = [] \<or> sf_filled f" using amsdu_ok_split [OF assms(1) False] fs by simp_all
  have h: "holds b pre (amsdu_wire gs @ sf_head f @ sf_pad f) post" using assms(2) fs by (simp add: sf_wire_def [of f])
  have "sf_pad f = [] \<or> (sf_len f + 17) div 4 \<le> (sf_len f + 14 + length (sf_pad f)) div 4" "length (sf_pad f) \<le> 16"
    using f(3) by (auto simp: sf_filled_def)
  from amsdu_loop_end [OF f(1,2) h this(2,1) assms(3,4)] show ?thesis using fs by simp
qed

text \<open>Bytes behind the last subframe that do not fill it up: the loop asks for more than is there and stays where it is.\<close>

definition badly_filled :: "rx_buf \<Rightarrow> bool" where
  "badly_filled b \<longleftrightarrow> (\<exists>f pre xs post. sf_fields f \<and> holds b pre (sf_head f @ xs) post \<and> xs \<noteq> [] \<and> (sf_len f + 14 + length xs) div 4 < (sf_len f + 17) div 4)"

lemma badly_filled_round:
  assumes "badly_filled b" and "en_alloc e (rh_next s)" and "rwnx_rx_get_vif v s \<noteq> None"
  shows "\<not> rb_len b \<le> 16 \<and> (\<exists>l. amsdu_round e v b subs s = Some (AmsduNext b l (s\<lparr>rh_next := rh_next s + 1\<rparr>)))"
proof -
  obtain f pre xs post where f: "sf_fields f" "holds b pre (sf_head f @ xs) post" "xs \<noteq> []"
    "(sf_len f + 14 + length xs) div 4 < (sf_len f + 17) div 4" using assms(1) by (auto simp: badly_filled_def)
  have len: "rb_len b = sf_len f + 14 + length xs" "6 \<le> sf_len f" "sf_len f < 65504"
    using f(1,2) len_sf_head [OF f(1)] by (simp_all add: holds_def sf_fields_def sf_len_def)
  have x: "0 < length xs" using f(3) by simp
  have "sf_len f + 14 + length xs < (sf_len f + 17) div 4 * 4" using f(4) by presburger
  then have "buf_pull (aligned_len (rb_len b) (sf_len f)) b = b"
    using len x by (simp add: aligned_len_def buf_pull_def)
  moreover have "length (sf_head f @ xs) = rb_len b" using f(2) by (simp add: holds_def)
  ultimately show ?thesis using amsdu_round_head [OF f(1,2) assms(2,3), of subs] len by simp
qed

lemma amsdu_loop_stuck:
  assumes "badly_filled b" and "\<forall>k. en_alloc e k" and "rwnx_rx_get_vif v s \<noteq> None"
  shows "amsdu_loop e v b subs s = None"
proof (rule ccontr)
  let ?P = "\<lambda>e v b (s :: rx_hw). badly_filled b \<and> (\<forall>k. en_alloc e k) \<and> rwnx_rx_get_vif v s \<noteq> None"
  assume "amsdu_loop e v b subs s \<noteq> None"
  then obtain r where r: "amsdu_loop e v b subs s = Some r" by blast
  have "\<not> ?P e v b s"
  proof (rule amsdu_loop.raw_induct [where P = "\<lambda>e v b subs s _. \<not> ?P e v b s", OF _ r])
    fix f e v b subs s r
    assume IH: "\<And>e v b subs s r. f e v b subs s = Some r \<Longrightarrow> \<not> ?P e v b s"
      and eq: "(if rb_len b \<le> 16 then Some (Some (subs, s)) else (case amsdu_round e v b subs s of None \<Rightarrow> Some None
         | Some (AmsduStop l t) \<Rightarrow> Some (Some (l, t)) | Some (AmsduNext b1 l t) \<Rightarrow> f e v b1 l t)) = Some r"
    show "\<not> ?P e v b s"
    proof
      assume p: "?P e v b s"
      then obtain l where "\<not> rb_len b \<le> 16" "amsdu_round e v b subs s = Some (AmsduNext b l (s\<lparr>rh_next := rh_next s + 1\<rparr>))"
        using badly_filled_round [of b e s v subs] by blast
      with eq have "f e v b l (s\<lparr>rh_next := rh_next s + 1\<rparr>) = Some r" by simp
      from IH [OF this] p get_vif_cong [of "s\<lparr>rh_next := rh_next s + 1\<rparr>" s v] show False by auto
    qed
  qed
  with assms show False by blast
qed

text \<open>
  C39: splitting an A-MSDU ends, with all subframes, exactly if the bytes behind the last subframe (at most 16) are none or reach the next multiple of
  four; otherwise the loop asks for more bytes than there are, stays where it is, and does not end while allocations succeed.
\<close>

theorem amsdu_split_ends_iff_filled:
  assumes "holds b pre (amsdu_wire fs @ sf_head f @ xs) post" and "all_filled fs" and "sf_fields f" and "length xs \<le> 16"
    and "\<forall>k. en_alloc e k" and "rwnx_rx_get_vif v s \<noteq> None"
  shows "amsdu_loop e v b [] s =
    (if xs = [] \<or> (sf_len f + 17) div 4 \<le> (sf_len f + 14 + length xs) div 4
     then Some (Some (sub_bufs (rh_next s) (fs @ [f]), s\<lparr>rh_next := rh_next s + Suc (length fs)\<rparr>)) else None)"
proof (cases "xs = [] \<or> (sf_len f + 17) div 4 \<le> (sf_len f + 14 + length xs) div 4")
  case True
  then show ?thesis using amsdu_loop_end [OF assms(2,3,1,4) True assms(5,6), of "[]"] by simp
next
  case False
  let ?b = "buf_pull (length (amsdu_wire fs)) b" and ?s = "s\<lparr>rh_next := rh_next s + length fs\<rparr>"
  have "badly_filled ?b" unfolding badly_filled_def using holds_pull [OF assms(1) refl] assms(3) False by (auto simp: not_le)
  moreover have "rwnx_rx_get_vif v ?s = rwnx_rx_get_vif v s" by (rule get_vif_cong) simp
  ultimately show ?thesis
    using amsdu_loop_stuck [of ?b e v ?s] assms(5,6) amsdu_loop_prefix [OF assms(2,1,5,6), of "[]"] False by simp
qed

text \<open>Whatever the bytes are, the loop ends on a packet whose length is a multiple of four.\<close>

lemma amsdu_round_next:
  assumes "amsdu_round e v b subs s = Some (AmsduNext b1 l t)" and "rb_len b mod 4 = 0" and "rb_len b < 65536"
  shows "rb_len b1 < rb_len b \<and> rb_len b1 mod 4 = 0"
proof -
  obtain n where n: "n + 14 \<le> rb_len b" "b1 = buf_pull (aligned_len (rb_len b) n) b"
    using assms(1) by (auto simp: amsdu_round_def not_less Option.bind_eq_Some_conv split: if_splits prod.splits option.splits)
  have "aligned_len (rb_len b) n \<le> rb_len b \<and> 0 < aligned_len (rb_len b) n \<and> aligned_len (rb_len b) n mod 4 = 0"
  proof (cases "n + 14 < rb_len b")
    case True
    then have "(n + 17) div 4 * 4 \<le> rb_len b" using assms(2) by presburger
    moreover have "0 < (n + 17) div 4 * 4" by simp
    ultimately show ?thesis using True assms(3) by (simp add: aligned_len_def)
  next
    case False
    then have "n + 14 = rb_len b" using n(1) by simp
    then show ?thesis using False assms(2,3) by (simp add: aligned_len_def)
  qed
  moreover have "(a - c) mod 4 = 0" if "a mod 4 = 0" "c mod 4 = 0" for a c :: nat using that by presburger
  ultimately show ?thesis using n assms(2) by (simp add: buf_pull_def)
qed

theorem amsdu_split_ends_on_words:
  assumes "rb_len b mod 4 = 0" and "rb_len b < 65536"
  shows "\<exists>r. amsdu_loop e v b subs s = Some r"
  using assms
proof (induction "rb_len b" arbitrary: b subs s rule: less_induct)
  case less
  show ?case
  proof (cases "amsdu_round e v b subs s")
    case None
    then show ?thesis by (subst amsdu_loop.simps) simp
  next
    case (Some r)
    show ?thesis
    proof (cases r)
      case (AmsduStop l t)
      then show ?thesis using Some by (subst amsdu_loop.simps) simp
    next
      case (AmsduNext b1 l t)
      with Some amsdu_round_next [of e v b subs s b1 l t] less have "\<exists>q. amsdu_loop e v b1 l t = Some q" by simp
      then show ?thesis using Some AmsduNext by (subst amsdu_loop.simps) simp
    qed
  qed
qed

lemma amsdu_short_faults:
  assumes "sub_len b = Some n" and "n < 6" and "16 < rb_len b" and "n + 14 \<le> rb_len b" and "en_alloc e (rh_next s)"
  shows "amsdu_loop e v b subs s = Some None"
  using assms by (subst amsdu_loop.simps) (simp add: amsdu_round_def try_alloc_def)

end
