(* ===== verification/Rx_Frames.thy ===== *)
theory Rx_Frames
  imports Rx_Amsdu
begin

text \<open>
  Data frames as the firmware delivers them, and what the data path makes of their headers: a transfer is a hardware header and a frame, a frame
  is an 802.11 header, a security header and a body that starts with an LLC header.
\<close>

section \<open>A frame\<close>

record wire_frame =
  wf_fc0 :: u8
  wf_fc1 :: u8
  wf_dur :: "u8 list"
  wf_a1 :: "u8 list"
  wf_a2 :: "u8 list"
  wf_a3 :: "u8 list"
  wf_sc0 :: u8
  wf_sc1 :: u8
  wf_qc :: "u8 list"
  wf_htc :: "u8 list"
  wf_sec :: "u8 list"

definition wf_head :: "wire_frame \<Rightarrow> u8 list" where
  "wf_head w = [wf_fc0 w, wf_fc1 w] @ wf_dur w @ wf_a1 w @ wf_a2 w @ wf_a3 w @ [wf_sc0 w, wf_sc1 w] @ wf_qc w @ wf_htc w @ wf_sec w"

definition wf_qos :: "wire_frame \<Rightarrow> bool" where
  "wf_qos w \<longleftrightarrow> wf_fc0 w AND 0x80 = 0x80"

definition wf_ok :: "nat \<Rightarrow> wire_frame \<Rightarrow> bool" where
  "wf_ok d w \<longleftrightarrow> wf_fc0 w AND 0x0F = 0x08 \<and> length (wf_dur w) = 2 \<and> length (wf_a1 w) = 6 \<and> length (wf_a2 w) = 6 \<and> length (wf_a3 w) = 6 \<and>
     length (wf_qc w) = (if wf_qos w then 2 else 0) \<and> length (wf_htc w) = (if wf_fc1 w AND 0x80 \<noteq> 0 then 4 else 0) \<and> length (wf_sec w) = sec_len d"

text \<open>Destination and source by the direction bits.\<close>

definition wf_da :: "wire_frame \<Rightarrow> u8 list" where
  "wf_da w = (if wf_fc1 w AND 3 = 1 then wf_a3 w else if wf_fc1 w AND 3 = 2 then wf_a1 w else replicate 6 0)"

definition wf_sa :: "wire_frame \<Rightarrow> u8 list" where
  "wf_sa w = (if wf_fc1 w AND 3 = 1 then wf_a2 w else if wf_fc1 w AND 3 = 2 then wf_a3 w else replicate 6 0)"

definition wf_tid :: "wire_frame \<Rightarrow> nat" where
  "wf_tid w = (if wf_qos w then unat (hd (wf_qc w) AND 0x0F) else 0)"

definition wf_amsdu :: "wire_frame \<Rightarrow> bool" where
  "wf_amsdu w \<longleftrightarrow> wf_qos w \<and> hd (wf_qc w) AND 0x80 \<noteq> 0"

definition wf_sn :: "wire_frame \<Rightarrow> u16" where
  "wf_sn w = ucast (drop_bit 4 (wf_sc0 w AND 0xf0)) OR push_bit 4 (ucast (wf_sc1 w))"

definition wf_fn :: "wire_frame \<Rightarrow> u8" where
  "wf_fn w = wf_sc0 w AND 0x0F"

definition wf_mf :: "wire_frame \<Rightarrow> bool" where
  "wf_mf w \<longleftrightarrow> wf_fc1 w AND 0x04 \<noteq> 0"

definition wf_info :: "wire_frame \<Rightarrow> u8 list \<Rightarrow> mac_info" where
  "wf_info w et = \<lparr>mi_hdr = (if wf_qos w then 26 else 24) + (if wf_fc1 w AND 0x80 \<noteq> 0 then 4 else 0), mi_tid = wf_tid w, mi_qos = wf_qos w,
     mi_amsdu = wf_amsdu w, mi_ra = wf_da w, mi_ta = wf_sa w, mi_pull = length (wf_head w) + 8, mi_ether = et\<rparr>"

lemma wf_ok_len: "wf_ok d w \<Longrightarrow> length (wf_head w) = (if wf_qos w then 26 else 24) + (if wf_fc1 w AND 0x80 \<noteq> 0 then 4 else 0) + sec_len d"
  by (simp add: wf_ok_def wf_head_def)

lemma wf_addr_len: "wf_ok d w \<Longrightarrow> length (wf_da w) = 6 \<and> length (wf_sa w) = 6"
  by (simp add: wf_ok_def wf_da_def wf_sa_def)

lemma wf_head_nth:
  assumes "wf_ok d w"
  shows "(wf_head w @ ys) ! 0 = wf_fc0 w" "(wf_head w @ ys) ! 1 = wf_fc1 w" "(wf_head w @ ys) ! 22 = wf_sc0 w" "(wf_head w @ ys) ! 23 = wf_sc1 w"
    "wf_qos w \<Longrightarrow> (wf_head w @ ys) ! 24 = hd (wf_qc w)"
  using assms by (cases "wf_qc w"; auto simp: wf_ok_def wf_head_def nth_append)+

lemma wf_head_addrs:
  assumes "wf_ok d w"
  shows "take 6 (drop 16 (wf_head w @ ys)) = wf_a3 w" "take 6 (drop 10 (wf_head w @ ys)) = wf_a2 w" "take 6 (drop 4 (wf_head w @ ys)) = wf_a1 w"
  using assms by (simp_all add: wf_ok_def wf_head_def)

lemma head_byte:
  assumes "wf_ok d w" and "holds b pre (wf_head w @ body) post"
  shows "byte b 0 = Some (wf_fc0 w)" "byte b 1 = Some (wf_fc1 w)" "byte b 22 = Some (wf_sc0 w)" "byte b 23 = Some (wf_sc1 w)"
    "wf_qos w \<Longrightarrow> byte b 24 = Some (hd (wf_qc w))"
proof -
  have "24 \<le> length (wf_head w)" "wf_qos w \<Longrightarrow> 26 \<le> length (wf_head w)" using wf_ok_len [OF assms(1)] by simp_all
  then have "byte b k = Some ((wf_head w @ body) ! k)" if "k < 24 \<or> wf_qos w \<and> k < 26" for k
    using holds_byte [OF assms(2), of k] that by auto
  then show "byte b 0 = Some (wf_fc0 w)" "byte b 1 = Some (wf_fc1 w)" "byte b 22 = Some (wf_sc0 w)" "byte b 23 = Some (wf_sc1 w)"
    "wf_qos w \<Longrightarrow> byte b 24 = Some (hd (wf_qc w))"
    using wf_head_nth [OF assms(1), of body] by auto
qed

lemma parse_mac_head:
  assumes "wf_ok d w" and "holds b pre (wf_head w @ body) post" and "8 \<le> length body + length post"
  shows "parse_mac d b = Some (wf_info w (take 2 (drop 6 (body @ post))))"
proof -
  note l = wf_ok_len [OF assms(1)]
  then have l24: "24 \<le> length (wf_head w)" by simp
  note b = head_byte [OF assms(1,2)]
  have a: "load 16 6 b = Some (wf_a3 w)" "load 10 6 b = Some (wf_a2 w)" "load 4 6 b = Some (wf_a1 w)"
    using holds_load [OF assms(2), of 16 6] holds_load [OF assms(2), of 10 6] holds_load [OF assms(2), of 4 6] wf_head_addrs [OF assms(1), of body] l24
    by simp_all
  let ?h = "(if wf_qos w then 26 else 24) + (if wf_fc1 w AND 0x80 \<noteq> 0 then 4 else 0) :: nat"
  have "load (length (wf_head w) + 6) 2 b = Some (take 2 (drop 6 (body @ post)))"
    using holds_load_any [OF assms(2), of "length (wf_head w) + 6" 2] assms(3) by simp
  moreover have "?h + 6 + sec_len d = length (wf_head w) + 6" using l by simp
  ultimately have e: "load (?h + 6 + sec_len d) 2 b = Some (take 2 (drop 6 (body @ post)))" by (simp only:)
  have m: "mac_addrs (wf_fc1 w) b = Some (wf_da w, wf_sa w)"
    using a by (simp add: mac_addrs_def wf_da_def wf_sa_def)
  show ?thesis
    using b(1,2,5) m e l unfolding parse_mac_def wf_info_def wf_tid_def wf_amsdu_def wf_qos_def
    by (cases "wf_fc0 w AND 0x80 = 0x80"; cases "wf_fc1 w AND 0x80 = 0") (simp_all add: Let_def wf_qos_def)
qed

section \<open>The Ethernet header\<close>

lemma to_eth_holds:
  assumes "holds b pre (xs @ ys) post" and "length xs = mi_pull mi" and "14 \<le> mi_pull mi"
    and "length (mi_ra mi) = 6" "length (mi_ta mi) = 6" "length (mi_ether mi) = 2"
  shows "\<exists>b'. to_eth mi b = Some b' \<and> holds b' (pre @ take (mi_pull mi - 14) xs) (mi_ra mi @ mi_ta mi @ mi_ether mi @ ys) post \<and> rb_id b' = rb_id b"
proof -
  let ?n = "mi_pull mi" and ?e = "mi_ra mi @ mi_ta mi @ mi_ether mi"
  have h: "holds (buf_pull ?n b) (pre @ xs) ys post" using holds_pull [OF assms(1)] assms(2) by simp
  then have p: "buf_push 14 (buf_pull ?n b) = Some (buf_pull ?n b\<lparr>rb_data := length (pre @ xs) - 14, rb_len := length ys + 14\<rparr>)"
    using assms(2,3) by (simp add: buf_push_def holds_def)
  have "overwrite (length (pre @ xs) - 14) ?e (pre @ xs @ ys @ post) = Some ((pre @ take (?n - 14) xs) @ ?e @ ys @ post)"
    using assms(2-6) by (simp add: overwrite_def)
  moreover have "rb_mem b = pre @ xs @ ys @ post" using assms(1) by (simp add: holds_def)
  ultimately show ?thesis
    using p assms(2-6) by (auto simp: to_eth_def store_def holds_def)
qed

section \<open>The hardware header in front\<close>

lemma rd_at: "rd (pre @ xs @ post) (length pre + k) = (if k < length xs then Some (xs ! k) else rd post (k - length xs))"
  by (auto simp: rd_def nth_append)

lemma read_rxhdr_at:
  assumes "52 \<le> length xs"
  shows "read_rxhdr (pre @ xs @ post) (length pre) = read_rxhdr xs 0"
proof -
  have "rd (pre @ xs @ post) (length pre + k) = rd xs k" if "k < 52" for k using that assms by (simp add: rd_def nth_append)
  from this [of 0] this [of 1] this [of 36] this [of 37] this [of 48] this [of 49] this [of 50] this [of 51]
  show ?thesis by (simp add: read_rxhdr_def rd16_def)
qed

definition hdr_flag :: "bool \<Rightarrow> u8 list \<Rightarrow> u8 list" where
  "hdr_flag f hdr = hdr[48 := (if f then hdr ! 48 OR 1 else hdr ! 48 AND NOT 1)]"

lemma hdr_flag_length [simp]: "length (hdr_flag f hdr) = length hdr"
  by (simp add: hdr_flag_def)

lemma read_rxhdr_flag:
  assumes "52 \<le> length hdr" and "read_rxhdr hdr 0 = Some x"
  shows "read_rxhdr (hdr_flag f hdr) 0 = Some (x\<lparr>hx_amsdu := f\<rparr>)"
  using assms by (cases x) (auto simp: read_rxhdr_def hdr_flag_def rd16_def rd_def bit_simps)

lemma set_amsdu_at:
  assumes "52 \<le> length hdr" and "rb_mem b = pre @ hdr @ post"
  shows "set_amsdu (length pre) f b = Some (b\<lparr>rb_mem := pre @ hdr_flag f hdr @ post\<rparr>)"
proof -
  have "rd (rb_mem b) (length pre + 48) = Some (hdr ! 48)" using assms by (simp add: rd_at)
  moreover have "overwrite (length pre + 48) [v] (pre @ hdr @ post) = Some (pre @ hdr[48 := v] @ post)" for v
    using assms(1) by (simp add: overwrite_def upd_conv_take_nth_drop)
  ultimately show ?thesis using assms(2) by (simp add: set_amsdu_def hdr_flag_def)
qed

section \<open>The first part of the work\<close>

text \<open>A transfer: the hardware header \<open>x\<close> in 60 bytes, the frame header \<open>w\<close>, the body; bytes before and behind.\<close>

definition data_transfer :: "rx_buf \<Rightarrow> u8 list \<Rightarrow> hw_rxhdr \<Rightarrow> wire_frame \<Rightarrow> u8 list \<Rightarrow> u8 list \<Rightarrow> bool" where
  "data_transfer b pre x w body post \<longleftrightarrow> (\<exists>hdr. holds b pre (hdr @ wf_head w @ body) post \<and> length hdr = 60 \<and> read_rxhdr hdr 0 = Some x) \<and>
     wf_ok (hx_decr x) w \<and> 8 \<le> length body + length post"

abbreviation marked :: "hw_rxhdr \<Rightarrow> wire_frame \<Rightarrow> hw_rxhdr" where
  "marked x w \<equiv> x\<lparr>hx_amsdu := wf_amsdu w\<rparr>"

lemma upload_head:
  assumes "data_transfer b0 pre x w body post"
  shows "\<exists>hdr b. holds b (pre @ hdr) (wf_head w @ body) post \<and> rb_id b = rb_id b0 \<and> length hdr = 60 \<and> read_rxhdr hdr 0 = Some (marked x w) \<and>
    rxdata_upload e b0 s = (let mi = wf_info w (take 2 (drop 6 (body @ post))); b2 = (if wf_amsdu w then buf_pull (length (wf_head w)) b else b) in do {
      r \<leftarrow> defragment e (marked x w) mi (wf_sn w) (wf_fn w) (wf_mf w) b2 s;
      (case r of Some t \<Rightarrow> Some t
       | None \<Rightarrow> do { b3 \<leftarrow> (if wf_amsdu w then Some b2 else to_eth mi b2); data_frame e (length pre) (wf_qos w) (wf_tid w) (wf_sn w) b3 s }) })"
proof -
  obtain hdr where h: "holds b0 pre (hdr @ wf_head w @ body) post" "length hdr = 60" "read_rxhdr hdr 0 = Some x"
    and w: "wf_ok (hx_decr x) w" "8 \<le> length body + length post" using assms by (auto simp: data_transfer_def)
  let ?b = "buf_pull 60 b0"
  let ?c = "?b\<lparr>rb_mem := pre @ hdr_flag (wf_amsdu w) hdr @ wf_head w @ body @ post\<rparr>"
  have b: "holds ?b (pre @ hdr) (wf_head w @ body) post" using holds_pull [OF h(1)] h(2) by simp
  then have c: "holds ?c (pre @ hdr_flag (wf_amsdu w) hdr) (wf_head w @ body) post" by (simp add: holds_def)
  have m: "rb_mem ?b = pre @ hdr @ wf_head w @ body @ post" using b by (simp add: holds_def)
  have x: "read_rxhdr (rb_mem ?b) (length pre) = Some x" using read_rxhdr_at [of hdr pre "wf_head w @ body @ post"] h(2,3) m by simp
  have f: "set_amsdu (length pre) (wf_amsdu w) ?b = Some ?c" using set_amsdu_at [of hdr ?b pre "wf_head w @ body @ post"] h(2) m by simp
  note p = parse_mac_head [OF w(1) b w(2)]
  note y = head_byte [OF w(1) b]
  have d: "wf_fc0 w AND 0x0F = 0x08" "rb_data b0 = length pre" using w(1) h(1) by (simp_all add: wf_ok_def holds_def)
  have u: "rxdata_upload e b0 s = data_header e (length pre) (wf_sn w) (wf_fn w) (wf_mf w) ?b s"
    using y d by (simp add: rxdata_upload_def wf_sn_def wf_fn_def wf_mf_def Let_def)
  have "mi_amsdu (wf_info w et) = wf_amsdu w" "mi_pull (wf_info w et) - 8 = length (wf_head w)" "mi_qos (wf_info w et) = wf_qos w"
    "mi_tid (wf_info w et) = wf_tid w" for et by (simp_all add: wf_info_def)
  then show ?thesis
    using c read_rxhdr_flag [of hdr x "wf_amsdu w"] h(2,3) u x f p
    by (intro exI [of _ "hdr_flag (wf_amsdu w) hdr"] exI [of _ ?c]) (simp add: data_header_def Let_def)
qed

end
