(* ===== verification/Rx_Deliver.thy ===== *)
theory Rx_Deliver
  imports Rx_Frames
begin

text \<open>What becomes of a frame for a station interface: an Ethernet frame for the stack, the subframes of an A-MSDU, or the reorder buffer.\<close>

section \<open>The interface\<close>

text \<open>The frame is not for the management path and its interface, or that of its sender, is there.\<close>

definition reaches :: "hw_rxhdr \<Rightarrow> rx_vif \<Rightarrow> rx_hw \<Rightarrow> bool" where
  "reaches x v s \<longleftrightarrow> \<not> hx_mpdu x \<and> (\<exists>v0. rwnx_rx_get_vif (hx_vif x) s = Some v0 \<and> sender_vif x v0 s = Some (Some v))"

definition strays :: "hw_rxhdr \<Rightarrow> rx_vif \<Rightarrow> data_event list" where
  "strays x v = (if hx_sta x \<noteq> RWNX_INVALID_STA \<and> hx_4addr x \<and> \<not> vf_4addr v then [Unexpected4Addr (hx_sta x)] else [])"

definition enter :: "hw_rxhdr \<Rightarrow> rx_vif \<Rightarrow> rx_hw \<Rightarrow> rx_hw" where
  "enter x v s = with_reord ((rh_reord s)\<lparr>iftype := reord_type (vf_type v)\<rparr>) (rx_log (strays x v) s)"

lemma data_frame_reaches:
  assumes "read_rxhdr (rb_mem b) h = Some x" and "reaches x v s"
  shows "data_frame e h qos tid sn b s =
    (if vf_type v \<in> {NL_STATION, NL_P2P_CLIENT} then sta_frame e x v qos tid sn b (enter x v s)
     else if vf_type v \<in> {NL_AP, NL_P2P_GO} then ap_frame e x v qos tid sn b (enter x v s) else Some (enter x v s))"
  using assms by (auto simp: data_frame_def reaches_def enter_def strays_def Let_def)

text \<open>Apart from the reorder buffer and the numbering of new objects, only events are added.\<close>

definition logged :: "rx_hw \<Rightarrow> data_event list \<Rightarrow> rx_hw \<Rightarrow> bool" where
  "logged s es t \<longleftrightarrow> rh_events t = rh_events s @ es \<and> rh_vifs t = rh_vifs s \<and> rh_vlist t = rh_vlist s \<and> rh_stas t = rh_stas s \<and> rh_defrag t = rh_defrag s"

lemma with_reord_sel [simp]:
  "rh_vifs (with_reord r s) = rh_vifs s" "rh_vlist (with_reord r s) = rh_vlist s" "rh_stas (with_reord r s) = rh_stas s"
  "rh_defrag (with_reord r s) = rh_defrag s" "rh_next (with_reord r s) = rh_next s" "rh_events (with_reord r s) = rh_events s"
  "rh_reord (with_reord r s) = r"
  by (simp_all add: with_reord_def)

lemma vlist_log [simp]: "rh_vlist (rx_log es s) = rh_vlist s" "rh_vlist (free_buf b s) = rh_vlist s"
  by (simp_all add: rx_log_def free_buf_def)

lemma logged_enter: "logged s (strays x v) (enter x v s)"
  by (simp add: logged_def enter_def)

lemma logged_trans: "logged s es t \<Longrightarrow> logged t fs u \<Longrightarrow> logged s (es @ fs) u"
  by (simp add: logged_def)

lemma logged_log: "logged s es (rx_log es s)" "logged s [KFree (rb_id b)] (free_buf b s)"
  by (simp_all add: logged_def)

lemma flush_tid_small: "tid < 8 \<Longrightarrow> \<exists>ret r. flush_tid e b tid s = Some (ret, with_reord r s)"
  by (cases "reord_flush_tid (en_amsdu e) (to_skb b) tid (rh_reord s)") (auto simp: flush_tid_def Let_def)

section \<open>A single frame\<close>

lemma wf_sn_less: "uint (wf_sn w) < 4096"
proof -
  have "wf_sn w = take_bit 12 (wf_sn w)" unfolding wf_sn_def
    by (rule bit_word_eqI) (auto simp: bit_simps dest: bit_imp_le_length)
  then have "uint (wf_sn w) = take_bit 12 (uint (wf_sn w))" by (metis unsigned_take_bit_eq)
  moreover have "take_bit 12 (uint (wf_sn w)) < 2 ^ 12" by (rule take_bit_int_less_exp)
  ultimately show ?thesis by simp
qed

lemma upload_single:
  assumes "data_transfer b0 pre x w (llc @ type @ payload) post" and "length llc = 6" "length type = 2"
    and "\<not> wf_amsdu w" and "hx_reord x \<or> \<not> wf_mf w \<and> wf_fn w = 0"
  shows "\<exists>b pre'. rxdata_upload e b0 s = data_frame e (length pre) (wf_qos w) (wf_tid w) (wf_sn w) b s \<and>
    holds b pre' (wf_da w @ wf_sa w @ type @ payload) post \<and> rb_id b = rb_id b0 \<and> read_rxhdr (rb_mem b) (length pre) = Some (marked x w)"
proof -
  let ?body = "llc @ type @ payload" and ?mi = "wf_info w type"
  obtain hdr b where h: "holds b (pre @ hdr) (wf_head w @ ?body) post" "rb_id b = rb_id b0" "length hdr = 60" "read_rxhdr hdr 0 = Some (marked x w)"
    and u: "rxdata_upload e b0 s = (let mi = wf_info w (take 2 (drop 6 (?body @ post))); b2 = (if wf_amsdu w then buf_pull (length (wf_head w)) b else b) in do {
      r \<leftarrow> defragment e (marked x w) mi (wf_sn w) (wf_fn w) (wf_mf w) b2 s;
      (case r of Some t \<Rightarrow> Some t
       | None \<Rightarrow> do { b3 \<leftarrow> (if wf_amsdu w then Some b2 else to_eth mi b2); data_frame e (length pre) (wf_qos w) (wf_tid w) (wf_sn w) b3 s }) })"
    using upload_head [OF assms(1), of e s] by blast
  have mi: "wf_info w (take 2 (drop 6 (?body @ post))) = ?mi" using assms(2,3) by simp
  have "defragment e (marked x w) ?mi (wf_sn w) (wf_fn w) (wf_mf w) b s = Some None" using assms(5) by (auto simp: defragment_def Let_def)
  with u mi assms(4) have u': "rxdata_upload e b0 s = do { b3 \<leftarrow> to_eth ?mi b; data_frame e (length pre) (wf_qos w) (wf_tid w) (wf_sn w) b3 s }"
    by (simp add: Let_def)
  have w: "wf_ok (hx_decr x) w" using assms(1) by (simp add: data_transfer_def)
  let ?xs = "wf_head w @ llc @ type"
  have "holds b (pre @ hdr) (?xs @ payload) post" using h(1) by simp
  moreover have "length ?xs = mi_pull ?mi" "14 \<le> mi_pull ?mi" using assms(2,3) wf_ok_len [OF w] by (simp_all add: wf_info_def)
  moreover have "length (mi_ra ?mi) = 6" "length (mi_ta ?mi) = 6" "length (mi_ether ?mi) = 2" using wf_addr_len [OF w] assms(3) by (simp_all add: wf_info_def)
  ultimately obtain b' where b': "to_eth ?mi b = Some b'" "rb_id b' = rb_id b"
      "holds b' ((pre @ hdr) @ take (mi_pull ?mi - 14) ?xs) (mi_ra ?mi @ mi_ta ?mi @ mi_ether ?mi @ payload) post"
    using to_eth_holds [of b "pre @ hdr" ?xs payload post ?mi] by blast
  have "read_rxhdr (rb_mem b') (length pre) = Some (marked x w)"
    using read_rxhdr_at [of hdr pre] h(3,4) b'(3) by (simp add: holds_def)
  then show ?thesis using u' b' h(2) by (auto simp: wf_info_def)
qed

text \<open>The routing decision of a station interface: to the stack.\<close>

lemma skb_route_sta: "vf_type v \<in> {NL_STATION, NL_P2P_CLIENT} \<Longrightarrow> skb_route v x l s = Some (False, True)"
  by (auto simp: skb_route_def)

lemma fold_forward: "fold (skb_out e v False True) l s = rx_log (map (\<lambda>b. NetRx (vf_index v) (rb_id b) (content b)) l) s"
  by (induction l arbitrary: s) (simp_all add: skb_out_def rwnx_rx_data_skb_forward_def Let_def)

lemma sta_frame_plain:
  assumes "vf_type v \<in> {NL_STATION, NL_P2P_CLIENT}" and "\<not> (qos \<and> hx_reord x)" and "tid < 8" and "\<not> hx_amsdu x"
  shows "\<exists>t. sta_frame e x v qos tid sn b s = Some t \<and> logged s [NetRx (vf_index v) (rb_id b) (content b)] t"
proof -
  obtain ret r where r: "flush_tid e b tid s = Some (ret, with_reord r s)" using flush_tid_small [OF assms(3)] by blast
  let ?s = "if qos then with_reord r s else s"
  have "sta_frame e x v qos tid sn b s = Some (rx_log [NetRx (vf_index v) (rb_id b) (content b)] ?s)"
    using assms r by (auto simp: sta_frame_def rwnx_rx_data_skb_def skb_route_sta skb_out_def rwnx_rx_data_skb_forward_def Let_def)
  then show ?thesis by (simp add: logged_def)
qed

text \<open>
  C8: a data frame for a station interface that needs no reordering reaches the network stack as an Ethernet frame: destination and source taken
  from the addresses its direction bits name, the type and the payload as they were sent, whatever QoS, HT control and security headers were in
  front.  Nothing else happens but the notice of an unexpected four-address frame.
\<close>

theorem station_frame_is_delivered:
  assumes "data_transfer b0 pre x w (llc @ type @ payload) post" and "length llc = 6" "length type = 2"
    and "\<not> wf_amsdu w" and "\<not> wf_mf w" "wf_fn w = 0" and "reaches (marked x w) v s" and "vf_type v \<in> {NL_STATION, NL_P2P_CLIENT}"
    and "\<not> (wf_qos w \<and> hx_reord x)" and "wf_tid w < 8"
  shows "\<exists>t. rxdata_upload e b0 s = Some t \<and>
    logged s (strays x v @ [NetRx (vf_index v) (rb_id b0) (wf_da w @ wf_sa w @ type @ payload)]) t"
proof -
  obtain b pre' where u: "rxdata_upload e b0 s = data_frame e (length pre) (wf_qos w) (wf_tid w) (wf_sn w) b s"
    and b: "holds b pre' (wf_da w @ wf_sa w @ type @ payload) post" "rb_id b = rb_id b0" "read_rxhdr (rb_mem b) (length pre) = Some (marked x w)"
    using upload_single [OF assms(1-4), of e s] assms(5,6) by blast
  have "data_frame e (length pre) (wf_qos w) (wf_tid w) (wf_sn w) b s =
      sta_frame e (marked x w) v (wf_qos w) (wf_tid w) (wf_sn w) b (enter (marked x w) v s)"
    using data_frame_reaches [OF b(3) assms(7)] assms(8) by simp
  moreover obtain t where "sta_frame e (marked x w) v (wf_qos w) (wf_tid w) (wf_sn w) b (enter (marked x w) v s) = Some t"
      "logged (enter (marked x w) v s) [NetRx (vf_index v) (rb_id b) (content b)] t"
    using sta_frame_plain [OF assms(8), of "wf_qos w" "marked x w" "wf_tid w"] assms(4,9,10) by force
  moreover have "strays (marked x w) v = strays x v" by (simp add: strays_def)
  ultimately show ?thesis
    using u b(2) holds_content [OF b(1)] logged_trans [OF logged_enter [of s "marked x w" v]] by simp
qed

text \<open>With reordering it becomes the packet of a pool frame and goes to its controller with its sequence number.\<close>

theorem station_frame_is_reordered:
  assumes "data_transfer b0 pre x w (llc @ type @ payload) post" and "length llc = 6" "length type = 2"
    and "\<not> wf_amsdu w" and "reaches (marked x w) v s" and "vf_type v \<in> {NL_STATION, NL_P2P_CLIENT}"
    and "wf_qos w" "hx_reord x" and "reord_rxframe_alloc (rh_reord (enter x v s)) = (Some p, r)"
  shows "rxdata_upload e b0 s = do {
      (ret, r1) \<leftarrow> reord_process_unit (en_amsdu e) (en_expires e) (en_kmalloc e) p
        \<lparr>skb_id = rb_id b0, skb_len = word_of_nat (14 + length payload), skb_mem = wf_da w @ wf_sa w @ type @ payload @ post\<rparr>
        (wf_sn w) (word_of_nat (wf_tid w)) True False
        (upd_frame p (\<lambda>f. f\<lparr>is_ap_reord := False, ap_fwd_cnt := 0, ap_resend_cnt := 0\<rparr>) r);
      Some (with_reord r1 (enter x v s)) } \<and> uint (wf_sn w) < 4096"
proof -
  obtain b pre' where u: "rxdata_upload e b0 s = data_frame e (length pre) (wf_qos w) (wf_tid w) (wf_sn w) b s"
    and b: "holds b pre' (wf_da w @ wf_sa w @ type @ payload) post" "rb_id b = rb_id b0" "read_rxhdr (rb_mem b) (length pre) = Some (marked x w)"
    using upload_single [OF assms(1-4), of e s] assms(8) by blast
  have n: "enter (marked x w) v s = enter x v s" by (simp add: enter_def strays_def)
  have "length (wf_da w @ wf_sa w @ type @ payload) = 14 + length payload"
    using wf_addr_len [of "hx_decr x" w] assms(1,3) by (simp add: data_transfer_def)
  moreover have "rb_len b = length (wf_da w @ wf_sa w @ type @ payload)" "drop (rb_data b) (rb_mem b) = wf_da w @ wf_sa w @ type @ payload @ post"
    using b(1) by (simp_all add: holds_def)
  ultimately have "to_skb b = \<lparr>skb_id = rb_id b0, skb_len = word_of_nat (14 + length payload), skb_mem = wf_da w @ wf_sa w @ type @ payload @ post\<rparr>"
    using b(2) by (simp only: to_skb_def)
  then show ?thesis
    using u data_frame_reaches [OF b(3) assms(5), of e "wf_qos w" "wf_tid w" "wf_sn w"] assms(4,6-9) n wf_sn_less
    by (simp add: sta_frame_def)
qed

section \<open>An A-MSDU\<close>

lemma upload_amsdu:
  assumes "data_transfer b0 pre x w body post" and "wf_amsdu w" and "hx_reord x \<or> \<not> wf_mf w \<and> wf_fn w = 0"
  shows "\<exists>b pre'. rxdata_upload e b0 s = data_frame e (length pre) True (wf_tid w) (wf_sn w) b s \<and>
    holds b pre' body post \<and> rb_id b = rb_id b0 \<and> read_rxhdr (rb_mem b) (length pre) = Some (marked x w)"
proof -
  let ?x = "marked x w"
  obtain hdr b where h: "holds b (pre @ hdr) (wf_head w @ body) post" "rb_id b = rb_id b0" "length hdr = 60" "read_rxhdr hdr 0 = Some ?x"
    and u: "rxdata_upload e b0 s = (let mi = wf_info w (take 2 (drop 6 (body @ post))); b2 = (if wf_amsdu w then buf_pull (length (wf_head w)) b else b) in do {
      r \<leftarrow> defragment e ?x mi (wf_sn w) (wf_fn w) (wf_mf w) b2 s;
      (case r of Some t \<Rightarrow> Some t
       | None \<Rightarrow> do { b3 \<leftarrow> (if wf_amsdu w then Some b2 else to_eth mi b2); data_frame e (length pre) (wf_qos w) (wf_tid w) (wf_sn w) b3 s }) })"
    using upload_head [OF assms(1), of e s] by blast
  let ?b = "buf_pull (length (wf_head w)) b"
  have "defragment e ?x mi (wf_sn w) (wf_fn w) (wf_mf w) ?b s = Some None" for mi using assms(3) by (auto simp: defragment_def Let_def)
  moreover have "wf_qos w" using assms(2) by (simp add: wf_amsdu_def)
  ultimately have u': "rxdata_upload e b0 s = data_frame e (length pre) True (wf_tid w) (wf_sn w) ?b s" using u assms(2) by (simp add: Let_def)
  have b: "holds ?b ((pre @ hdr) @ wf_head w) body post" using holds_pull [OF h(1)] by simp
  then have "read_rxhdr (rb_mem ?b) (length pre) = Some ?x" using read_rxhdr_at [of hdr pre] h(3,4) by (simp add: holds_def)
  with u' b h(2) show ?thesis by (metis pull_id(1))
qed


end
