(* ===== verification/Rx_Defrag.thy ===== *)
theory Rx_Defrag
  imports Rx_Deliver
begin

text \<open>Fragments: what is collected of a frame, and what the next fragment does to it.\<close>

section \<open>A frame of which fragments have arrived\<close>

text \<open>The bytes \<open>xs\<close> of \<open>i\<close> fragments are in the buffer \<open>n\<close>; \<open>ds\<close> and \<open>es\<close> are the other entries of the list.\<close>

definition collecting :: "rx_env \<Rightarrow> u16 \<Rightarrow> nat \<Rightarrow> nat \<Rightarrow> nat \<Rightarrow> nat \<Rightarrow> u8 list \<Rightarrow> defrag_ctrl_info list \<Rightarrow> defrag_ctrl_info list \<Rightarrow> rx_hw \<Rightarrow> bool" where
  "collecting e sn tid sta i n xs ds es s \<longleftrightarrow> (\<exists>d post. rh_defrag s = ds @ d # es \<and> find_defrag sn tid sta 0 ds = None \<and> df_sn d = sn \<and>
     df_tid d = tid \<and> df_sta d = sta \<and> df_fn d = word_of_nat i \<and> df_len d = word_of_nat (length xs) \<and> rb_id (df_buf d) = n \<and>
     holds (df_buf d) [] xs post \<and> length xs + length post = en_room e 2000)"

text \<open>A fragment as it arrives: a transfer of frame \<open>(sn, tid, sta)\<close> with number \<open>i\<close>, \<open>mf\<close> when more follow.\<close>

record fragment =
  fg_buf :: rx_buf
  fg_pre :: "u8 list"
  fg_hdr :: hw_rxhdr
  fg_frame :: wire_frame
  fg_body :: "u8 list"
  fg_post :: "u8 list"

definition fragment_ok :: "u16 \<Rightarrow> nat \<Rightarrow> nat \<Rightarrow> bool \<Rightarrow> fragment \<Rightarrow> bool" where
  "fragment_ok sn tid sta mf f \<longleftrightarrow> data_transfer (fg_buf f) (fg_pre f) (fg_hdr f) (fg_frame f) (fg_body f) (fg_post f) \<and> \<not> wf_amsdu (fg_frame f) \<and>
     \<not> hx_reord (fg_hdr f) \<and> wf_sn (fg_frame f) = sn \<and> wf_tid (fg_frame f) = tid \<and> wf_mf (fg_frame f) = mf \<and>
     sta = (if hx_dst (fg_hdr f) \<noteq> RWNX_INVALID_STA then hx_dst (fg_hdr f) else 0)"

lemma find_defrag_append: "find_defrag sn tid sta i ds = None \<Longrightarrow> find_defrag sn tid sta i (ds @ es) = find_defrag sn tid sta (i + length ds) es"
  by (induction ds arbitrary: i) (auto split: if_splits)

lemma collecting_find:
  assumes "collecting e sn tid sta i n xs ds es s"
  shows "find_defrag sn tid sta 0 (rh_defrag s) = Some (length ds)"
  using assms by (auto simp: collecting_def find_defrag_append)

lemma defragment_search:
  assumes "\<not> hx_reord x" and "mf \<or> fn \<noteq> 0" and "mi_tid mi = tid" and "sta = (if hx_dst x \<noteq> RWNX_INVALID_STA then hx_dst x else 0)"
  shows "defragment e x mi sn fn mf b s = (let known = find_defrag sn tid sta 0 (rh_defrag s) in
      if mf then map_option Some (case known of None \<Rightarrow> first_frag e mi sn sta b s | Some k \<Rightarrow> next_frag mi fn k b s)
      else (case known of None \<Rightarrow> Some None | Some k \<Rightarrow> map_option Some (last_frag e x mi fn k b s)))"
  using assms by (auto simp: defragment_def Let_def)

text \<open>The upload of a fragment up to the search in the list.\<close>

lemma upload_fragment:
  assumes "fragment_ok sn tid sta mf f" and "mf \<or> wf_fn (fg_frame f) \<noteq> 0"
  shows "\<exists>b hdr. holds b (fg_pre f @ hdr) (wf_head (fg_frame f) @ fg_body f) (fg_post f) \<and> rb_id b = rb_id (fg_buf f) \<and>
    (let x = marked (fg_hdr f) (fg_frame f); mi = wf_info (fg_frame f) (take 2 (drop 6 (fg_body f @ fg_post f))); fn = wf_fn (fg_frame f);
         known = find_defrag sn tid sta 0 (rh_defrag s)
     in (mf \<longrightarrow> rxdata_upload e (fg_buf f) s = (case known of None \<Rightarrow> first_frag e mi sn sta b s | Some k \<Rightarrow> next_frag mi fn k b s)) \<and>
        (\<not> mf \<and> known \<noteq> None \<longrightarrow> rxdata_upload e (fg_buf f) s = last_frag e x mi fn (the known) b s))"
proof -
  let ?w = "fg_frame f" and ?x = "marked (fg_hdr f) (fg_frame f)" and ?mi = "wf_info (fg_frame f) (take 2 (drop 6 (fg_body f @ fg_post f)))"
  have f: "data_transfer (fg_buf f) (fg_pre f) (fg_hdr f) ?w (fg_body f) (fg_post f)" "\<not> wf_amsdu ?w" "\<not> hx_reord (fg_hdr f)" "wf_sn ?w = sn" "wf_tid ?w = tid"
      "wf_mf ?w = mf" "sta = (if hx_dst (fg_hdr f) \<noteq> RWNX_INVALID_STA then hx_dst (fg_hdr f) else 0)"
    using assms(1) by (simp_all add: fragment_ok_def)
  obtain b hdr where b: "holds b (fg_pre f @ hdr) (wf_head ?w @ fg_body f) (fg_post f)" "rb_id b = rb_id (fg_buf f)"
    and u: "rxdata_upload e (fg_buf f) s = (let mi = ?mi; b2 = (if wf_amsdu ?w then buf_pull (length (wf_head ?w)) b else b) in do {
      r \<leftarrow> defragment e ?x mi (wf_sn ?w) (wf_fn ?w) (wf_mf ?w) b2 s;
      (case r of Some t \<Rightarrow> Some t
       | None \<Rightarrow> do { b3 \<leftarrow> (if wf_amsdu ?w then Some b2 else to_eth mi b2); data_frame e (length (fg_pre f)) (wf_qos ?w) (wf_tid ?w) (wf_sn ?w) b3 s }) })"
    using upload_head [OF f(1), of e s] by blast
  have bind: "(map_option Some r \<bind> (\<lambda>r. case r of Some t \<Rightarrow> Some t | None \<Rightarrow> g)) = r" for r :: "rx_hw option" and g by (cases r) simp_all
  have "mi_tid ?mi = tid" using f(5) by (simp add: wf_info_def)
  then have d: "defragment e ?x ?mi (wf_sn ?w) (wf_fn ?w) mf b s = (let known = find_defrag sn tid sta 0 (rh_defrag s) in
      if mf then map_option Some (case known of None \<Rightarrow> first_frag e ?mi sn sta b s | Some k \<Rightarrow> next_frag ?mi (wf_fn ?w) k b s)
      else (case known of None \<Rightarrow> Some None | Some k \<Rightarrow> map_option Some (last_frag e ?x ?mi (wf_fn ?w) k b s)))"
    unfolding f(4) using assms(2) f(3,7) by (intro defragment_search) simp_all
  show ?thesis
    using b u d f(2,6) by (intro exI [of _ b] exI [of _ hdr]) (auto simp: Let_def bind split: option.splits)
qed

section \<open>The first fragment\<close>

lemma first_fragment:
  assumes "fragment_ok sn tid sta True f" and "fg_body f = llc @ type @ payload" "length llc = 6" "length type = 2"
    and "find_defrag sn tid sta 0 (rh_defrag s) = None" and "en_alloc e (rh_next s)" "en_alloc e (rh_next s + 1)"
    and "14 + length payload \<le> en_room e 2000"
  shows "\<exists>t. rxdata_upload e (fg_buf f) s = Some t \<and> rh_events t = rh_events s @ [KFree (rb_id (fg_buf f))] \<and> rh_vifs t = rh_vifs s \<and>
    collecting e sn tid sta 1 (rh_next s + 1) (wf_da (fg_frame f) @ wf_sa (fg_frame f) @ type @ payload) (rh_defrag s) [] t"
proof -
  let ?w = "fg_frame f" and ?mi = "wf_info (fg_frame f) type"
  let ?xs = "wf_da ?w @ wf_sa ?w @ type @ payload" and ?h = "wf_head ?w @ llc @ type"
  obtain b hdr where b: "holds b (fg_pre f @ hdr) (wf_head ?w @ fg_body f) (fg_post f)" "rb_id b = rb_id (fg_buf f)"
    and u: "rxdata_upload e (fg_buf f) s = first_frag e ?mi sn sta b s"
    using upload_fragment [OF assms(1), where e = e and s = s] assms(2-5) by (auto simp: Let_def)
  have w: "wf_ok (hx_decr (fg_hdr f)) ?w" "wf_tid ?w = tid" using assms(1) by (simp_all add: fragment_ok_def data_transfer_def)
  have "holds b (fg_pre f @ hdr) (?h @ payload) (fg_post f)" using b(1) assms(2) by simp
  moreover have "length ?h = mi_pull ?mi" "14 \<le> mi_pull ?mi" using assms(3,4) wf_ok_len [OF w(1)] by (simp_all add: wf_info_def)
  moreover have "length (mi_ra ?mi) = 6" "length (mi_ta ?mi) = 6" "length (mi_ether ?mi) = 2" using wf_addr_len [OF w(1)] assms(4) by (simp_all add: wf_info_def)
  ultimately obtain b' where b': "to_eth ?mi b = Some b'" "rb_id b' = rb_id b"
      "holds b' ((fg_pre f @ hdr) @ take (mi_pull ?mi - 14) ?h) (mi_ra ?mi @ mi_ta ?mi @ mi_ether ?mi @ payload) (fg_post f)"
    using to_eth_holds [of b "fg_pre f @ hdr" ?h payload "fg_post f" ?mi] by blast
  have h': "holds b' ((fg_pre f @ hdr) @ take (mi_pull ?mi - 14) ?h) ?xs (fg_post f)" using b'(3) by (simp add: wf_info_def)
  have len: "length ?xs = 14 + length payload" "rb_len b' = length ?xs"
    using wf_addr_len [OF w(1)] assms(4) h' by (simp_all add: holds_def)
  let ?i = "rh_next s + 1"
  let ?d = "(new_buf ?i (en_room e 2000))\<lparr>rb_len := length ?xs, rb_mem := ?xs @ replicate (en_room e 2000 - length ?xs) 0\<rparr>"
  have "load 0 (rb_len b') b' = Some ?xs" using holds_load [OF h', of 0] len(2) by simp
  moreover have "buf_put (rb_len b') (new_buf ?i (en_room e 2000)) = Some ((new_buf ?i (en_room e 2000))\<lparr>rb_len := length ?xs\<rparr>)"
    using len assms(8) by (simp add: buf_put_def new_buf_def)
  moreover have "store 0 ?xs ((new_buf ?i (en_room e 2000))\<lparr>rb_len := length ?xs\<rparr>) = Some ?d"
    using len(1) assms(8) unfolding store_def overwrite_def by (simp add: new_buf_def)
  ultimately have "first_frag e ?mi sn sta b s = Some (free_buf b (s\<lparr>rh_next := rh_next s + 2, rh_defrag := rh_defrag s @
      [\<lparr>df_sta = sta, df_tid = tid, df_sn = sn, df_fn = 1, df_len = word_of_nat (length ?xs), df_buf = ?d\<rparr>]\<rparr>))"
    using b'(1) w(2) assms(6,7) len(2) by (simp add: first_frag_def try_alloc_def wf_info_def)
  moreover have "holds ?d [] ?xs (replicate (en_room e 2000 - length ?xs) 0)" by (simp add: holds_def new_buf_def)
  moreover have "length ?xs + length (replicate (en_room e 2000 - length ?xs) (0::u8)) = en_room e 2000" using len(1) assms(8) by simp
  moreover have "rb_id ?d = ?i" by (simp add: new_buf_def)
  ultimately show ?thesis using u b(2) assms(5) by (auto simp: collecting_def)
qed

section \<open>The fragments behind it\<close>

lemma append_frag_holds:
  assumes "holds b pre (h0 @ ys) post" and "holds (df_buf d) [] xs room" and "df_len d = word_of_nat (length xs)"
    and "length ys \<le> length room" and "length xs < 65536"
  shows "\<exists>d'. append_frag (length h0) b d = Some d' \<and> df_fn d' = df_fn d \<and> df_sn d' = df_sn d \<and> df_tid d' = df_tid d \<and> df_sta d' = df_sta d \<and>
    df_len d' = word_of_nat (length (xs @ ys)) \<and> rb_id (df_buf d') = rb_id (df_buf d) \<and> holds (df_buf d') [] (xs @ ys) (drop (length ys) room)"
proof -
  have l: "rb_len b = length h0 + length ys" using assms(1) by (simp add: holds_def)
  have 1: "load (length h0) (length ys) b = Some ys" using holds_load [OF assms(1), of "length h0"] by simp
  have d: "rb_mem (df_buf d) = xs @ room" "rb_data (df_buf d) = 0" "rb_len (df_buf d) = length xs" using assms(2) by (simp_all add: holds_def)
  have 2: "buf_put (length ys) (df_buf d) = Some (df_buf d\<lparr>rb_len := length xs + length ys\<rparr>)" using d assms(4) by (simp add: buf_put_def)
  have "unat (df_len d) = length xs" using assms(3,5) by (simp add: unat_of_nat)
  moreover have "overwrite (length xs) ys (xs @ room) = Some (xs @ ys @ drop (length ys) room)" using assms(4) by (simp add: overwrite_def)
  ultimately have 3: "store (unat (df_len d)) ys (df_buf d\<lparr>rb_len := length xs + length ys\<rparr>) =
      Some (df_buf d\<lparr>rb_len := length xs + length ys, rb_mem := xs @ ys @ drop (length ys) room\<rparr>)"
    using d by (simp add: store_def)
  show ?thesis using l 1 2 3 d(2) assms(3) by (simp add: append_frag_def holds_def)
qed

lemma append_frag_full:
  assumes "holds b pre (h0 @ ys) post" and "holds (df_buf d) [] xs room" and "length room < length ys"
  shows "append_frag (length h0) b d = None"
  using assms by (simp add: append_frag_def holds_def buf_put_def)

lemma next_fragment:
  assumes "collecting e sn tid sta i n xs ds es s" and "fragment_ok sn tid sta True f" and "en_room e 2000 < 65536"
  shows "if wf_fn (fg_frame f) \<noteq> word_of_nat i then rxdata_upload e (fg_buf f) s = Some (free_buf (fg_buf f) s)
    else if en_room e 2000 < length xs + length (fg_body f) then rxdata_upload e (fg_buf f) s = None
    else (\<exists>t. rxdata_upload e (fg_buf f) s = Some t \<and> rh_events t = rh_events s @ [KFree (rb_id (fg_buf f))] \<and> rh_vifs t = rh_vifs s \<and>
      collecting e sn tid sta (Suc i) n (xs @ fg_body f) ds es t)"
proof -
  let ?w = "fg_frame f" and ?mi = "wf_info (fg_frame f) (take 2 (drop 6 (fg_body f @ fg_post f)))"
  obtain d room where d: "rh_defrag s = ds @ d # es" "find_defrag sn tid sta 0 ds = None" "df_sn d = sn" "df_tid d = tid" "df_sta d = sta"
      "df_fn d = word_of_nat i" "df_len d = word_of_nat (length xs)" "rb_id (df_buf d) = n" "holds (df_buf d) [] xs room"
      "length xs + length room = en_room e 2000" using assms(1) by (auto simp: collecting_def)
  obtain b hdr where b: "holds b (fg_pre f @ hdr) (wf_head ?w @ fg_body f) (fg_post f)" "rb_id b = rb_id (fg_buf f)"
    and u: "rxdata_upload e (fg_buf f) s = next_frag ?mi (wf_fn ?w) (length ds) b s"
    using upload_fragment [OF assms(2), where e = e and s = s] collecting_find [OF assms(1)] by (auto simp: Let_def)
  have mi: "mi_pull ?mi - 8 = length (wf_head ?w)" by (simp add: wf_info_def)
  have k: "rh_defrag s ! length ds = d" using d(1) by simp
  consider (wrong) "wf_fn ?w \<noteq> word_of_nat i" | (long) "wf_fn ?w = word_of_nat i" "length room < length (fg_body f)"
    | (ok) "wf_fn ?w = word_of_nat i" "length (fg_body f) \<le> length room" by linarith
  then show ?thesis
  proof cases
    case wrong
    then show ?thesis using u d(6) k b(2) by (simp add: next_frag_def free_buf_def)
  next
    case long
    then show ?thesis using u d(6,10) k mi append_frag_full [OF b(1) d(9)] by (simp add: next_frag_def Let_def)
  next
    case ok
    then obtain d' where d': "append_frag (length (wf_head ?w)) b d = Some d'" "df_fn d' = df_fn d" "df_sn d' = df_sn d" "df_tid d' = df_tid d" "df_sta d' = df_sta d"
        "df_len d' = word_of_nat (length (xs @ fg_body f))" "rb_id (df_buf d') = rb_id (df_buf d)"
        "holds (df_buf d') [] (xs @ fg_body f) (drop (length (fg_body f)) room)"
      using append_frag_holds [OF b(1) d(9,7)] d(10) assms(3) by auto
    let ?t = "free_buf b (s\<lparr>rh_defrag := ds @ d'\<lparr>df_fn := df_fn d' + 1\<rparr> # es\<rparr>)"
    have "rxdata_upload e (fg_buf f) s = Some ?t"
      using u k mi ok(1) d(1,6) d'(1) by (simp add: next_frag_def Let_def)
    moreover have "collecting e sn tid sta (Suc i) n (xs @ fg_body f) ds es ?t"
      unfolding collecting_def using d d' ok(2)
      by (intro exI [of _ "d'\<lparr>df_fn := df_fn d' + 1\<rparr>"] exI [of _ "drop (length (fg_body f)) room"]) simp
    ultimately show ?thesis using ok(1,2) d(10) b(2) by auto
  qed
qed

lemma last_fragment:
  assumes "collecting e sn tid sta i n xs ds es s" and "fragment_ok sn tid sta False f" and "en_room e 2000 < 65536"
    and "wf_fn (fg_frame f) = word_of_nat i" "wf_fn (fg_frame f) \<noteq> 0" and "length xs + length (fg_body f) \<le> en_room e 2000"
    and "rwnx_rx_get_vif (hx_vif (fg_hdr f)) s = Some v" "vf_type v \<in> {NL_STATION, NL_P2P_CLIENT}" and "\<forall>x. hx_amsdu (en_freed e x) = hx_amsdu x"
  shows "\<exists>t. rxdata_upload e (fg_buf f) s = Some t \<and> rh_defrag t = ds @ es \<and>
    rh_events t = rh_events s @ [KFree (rb_id (fg_buf f)), NetRx (vf_index v) n (xs @ fg_body f)]"
proof -
  let ?w = "fg_frame f" and ?x = "marked (fg_hdr f) (fg_frame f)" and ?mi = "wf_info (fg_frame f) (take 2 (drop 6 (fg_body f @ fg_post f)))"
  obtain d room where d: "rh_defrag s = ds @ d # es" "df_fn d = word_of_nat i" "df_len d = word_of_nat (length xs)" "rb_id (df_buf d) = n"
      "holds (df_buf d) [] xs room" "length xs + length room = en_room e 2000" using assms(1) by (auto simp: collecting_def)
  obtain b hdr where b: "holds b (fg_pre f @ hdr) (wf_head ?w @ fg_body f) (fg_post f)" "rb_id b = rb_id (fg_buf f)"
    and u: "rxdata_upload e (fg_buf f) s = last_frag e ?x ?mi (wf_fn ?w) (length ds) b s"
    using upload_fragment [OF assms(2), where e = e and s = s] assms(5) collecting_find [OF assms(1)] by (auto simp: Let_def)
  have mi: "mi_pull ?mi - 8 = length (wf_head ?w)" by (simp add: wf_info_def)
  obtain d' where d': "append_frag (length (wf_head ?w)) b d = Some d'" "rb_id (df_buf d') = rb_id (df_buf d)"
      "holds (df_buf d') [] (xs @ fg_body f) (drop (length (fg_body f)) room)"
    using append_frag_holds [OF b(1) d(5,3)] d(6) assms(3,6) by auto
  have "\<not> hx_amsdu (en_freed e ?x)" using assms(2,9) by (simp add: fragment_ok_def)
  then have "rwnx_rx_data_skb e v (df_buf d') (en_freed e ?x) t = Some (True, rx_log [NetRx (vf_index v) n (xs @ fg_body f)] t)" for t
    using assms(8) d(4) d'(2) holds_content [OF d'(3)] fold_forward [of e v "[df_buf d']"]
    by (simp add: rwnx_rx_data_skb_def skb_route_sta)
  then show ?thesis
    using u d(1,2) mi d'(1) assms(4,7) b(2) by (simp add: last_frag_def Let_def)
qed

section \<open>A whole frame\<close>

fun uploads :: "rx_env \<Rightarrow> rx_buf list \<Rightarrow> rx_hw \<Rightarrow> rx_hw option" where
  "uploads e [] s = Some s"
| "uploads e (b # bs) s = do { t \<leftarrow> rxdata_upload e b s; uploads e bs t }"

lemma uploads_append: "uploads e (bs @ cs) s = do { t \<leftarrow> uploads e bs s; uploads e cs t }"
  by (induction bs arbitrary: s) (auto split: Option.bind_split)

lemma middle_fragments:
  assumes "collecting e sn tid sta i n xs ds es s" and "\<forall>f \<in> set fs. fragment_ok sn tid sta True f" and "en_room e 2000 < 65536"
    and "map (\<lambda>f. wf_fn (fg_frame f)) fs = map word_of_nat [i ..< i + length fs]" and "length xs + length (concat (map fg_body fs)) \<le> en_room e 2000"
  shows "\<exists>t. uploads e (map fg_buf fs) s = Some t \<and> rh_events t = rh_events s @ map (\<lambda>f. KFree (rb_id (fg_buf f))) fs \<and> rh_vifs t = rh_vifs s \<and>
    collecting e sn tid sta (i + length fs) n (xs @ concat (map fg_body fs)) ds es t"
  using assms
proof (induction fs arbitrary: i xs s)
  case Nil
  then show ?case by simp
next
  case (Cons f fs)
  have n: "[i ..< i + length (f # fs)] = i # [Suc i ..< Suc i + length fs]" by (simp add: upt_conv_Cons del: upt_Suc)
  have f: "wf_fn (fg_frame f) = word_of_nat i" "map (\<lambda>f. wf_fn (fg_frame f)) fs = map word_of_nat [Suc i ..< Suc i + length fs]"
    using Cons.prems(4) unfolding n by simp_all
  have "\<not> en_room e 2000 < length xs + length (fg_body f)" using Cons.prems(5) by simp
  with next_fragment [OF Cons.prems(1) _ assms(3), of f] f(1) Cons.prems(2)
  obtain t where t: "rxdata_upload e (fg_buf f) s = Some t" "rh_events t = rh_events s @ [KFree (rb_id (fg_buf f))]" "rh_vifs t = rh_vifs s"
    "collecting e sn tid sta (Suc i) n (xs @ fg_body f) ds es t" by auto
  obtain u where u: "uploads e (map fg_buf fs) t = Some u" "rh_events u = rh_events t @ map (\<lambda>f. KFree (rb_id (fg_buf f))) fs" "rh_vifs u = rh_vifs t"
    "collecting e sn tid sta (Suc i + length fs) n ((xs @ fg_body f) @ concat (map fg_body fs)) ds es u"
    using Cons.IH [OF t(4) _ assms(3) f(2)] Cons.prems(2,5) by auto
  show ?case using t u by simp
qed

lemma too_many_fragments:
  assumes "collecting e sn tid sta i n xs ds es s" and "\<forall>f \<in> set fs. fragment_ok sn tid sta True f" and "en_room e 2000 < 65536"
    and "map (\<lambda>f. wf_fn (fg_frame f)) fs = map word_of_nat [i ..< i + length fs]" and "en_room e 2000 < length xs + length (concat (map fg_body fs))"
    and "length xs \<le> en_room e 2000"
  shows "uploads e (map fg_buf fs) s = None"
  using assms
proof (induction fs arbitrary: i xs s)
  case Nil
  then show ?case by simp
next
  case (Cons f fs)
  have n: "[i ..< i + length (f # fs)] = i # [Suc i ..< Suc i + length fs]" by (simp add: upt_conv_Cons del: upt_Suc)
  have f: "wf_fn (fg_frame f) = word_of_nat i" "map (\<lambda>f. wf_fn (fg_frame f)) fs = map word_of_nat [Suc i ..< Suc i + length fs]"
    using Cons.prems(4) unfolding n by simp_all
  note step = next_fragment [OF Cons.prems(1) _ assms(3), of f]
  show ?case
  proof (cases "en_room e 2000 < length xs + length (fg_body f)")
    case True
    then show ?thesis using step f(1) Cons.prems(2) by simp
  next
    case False
    with step f(1) Cons.prems(2) obtain t where t: "rxdata_upload e (fg_buf f) s = Some t" "collecting e sn tid sta (Suc i) n (xs @ fg_body f) ds es t" by auto
    have "uploads e (map fg_buf fs) t = None"
      using Cons.IH [OF t(2) _ assms(3) f(2)] Cons.prems(2,5) False by auto
    with t(1) show ?thesis by simp
  qed
qed


text \<open>
  C9: fragments that carry more than the buffer of their frame has room for bring the kernel down.  The buffer is allocated for 2000 bytes when
  the first fragment arrives, and \<^verbatim>\<open>skb_put\<close> on it is not preceded by a check.
\<close>

theorem oversized_frame_is_fatal:
  assumes "fragment_ok sn tid sta True f" and "fg_body f = llc @ type @ payload" "length llc = 6" "length type = 2"
    and "\<forall>g \<in> set fs. fragment_ok sn tid sta True g" and "map (\<lambda>g. wf_fn (fg_frame g)) fs = map word_of_nat [1 ..< length fs + 1]"
    and "14 + length payload \<le> en_room e 2000" "en_room e 2000 < 14 + length payload + length (concat (map fg_body fs))" "en_room e 2000 < 65536"
    and "find_defrag sn tid sta 0 (rh_defrag s) = None" and "en_alloc e (rh_next s)" "en_alloc e (rh_next s + 1)"
  shows "uploads e (map fg_buf (f # fs)) s = None"
proof -
  let ?xs = "wf_da (fg_frame f) @ wf_sa (fg_frame f) @ type @ payload"
  have "wf_ok (hx_decr (fg_hdr f)) (fg_frame f)" using assms(1) by (simp add: fragment_ok_def data_transfer_def)
  then have len: "length ?xs = 14 + length payload" using wf_addr_len assms(4) by simp
  have fn: "map (\<lambda>g. wf_fn (fg_frame g)) fs = map word_of_nat [1 ..< 1 + length fs]" using assms(6) by (simp add: add.commute)
  obtain t where t: "rxdata_upload e (fg_buf f) s = Some t"
      "collecting e sn tid sta 1 (rh_next s + 1) ?xs (rh_defrag s) [] t"
    using first_fragment [OF assms(1-4,10-12,7)] by auto
  have "uploads e (map fg_buf fs) t = None"
    using too_many_fragments [OF t(2) assms(5,9) fn] assms(7,8) len by simp
  with t(1) show ?thesis by simp
qed

end
