(* ===== verification/Rx_Bridge.thy ===== *)
theory Rx_Bridge
  imports Rx_Defrag
begin

text \<open>What an access point does with the frames of its stations: back to the air, to the network stack, or both.\<close>

section \<open>Where a frame goes\<close>

definition group_frame :: "u8 list \<Rightarrow> bool" where
  "group_frame f \<longleftrightarrow> bit (hd f) 0"

text \<open>The destination is a station of the cell: by the index the firmware gives, or, for subframes and without an index, by its address.\<close>

definition local_frame :: "rx_vif \<Rightarrow> hw_rxhdr \<Rightarrow> rx_sta list \<Rightarrow> u8 list \<Rightarrow> bool" where
  "local_frame v x stas f \<longleftrightarrow>
    (if hx_dst x \<noteq> RWNX_INVALID_STA \<and> \<not> hx_amsdu x then st_valid (stas ! hx_dst x) \<and> st_vlan (stas ! hx_dst x) = vf_index v
     else take 6 f \<in> set (map (\<lambda>i. st_mac (stas ! i)) (vf_stas v)))"

definition to_air :: "rx_vif \<Rightarrow> hw_rxhdr \<Rightarrow> rx_sta list \<Rightarrow> u8 list \<Rightarrow> bool" where
  "to_air v x stas f \<longleftrightarrow> group_frame f \<or> local_frame v x stas f"

definition to_stack :: "rx_vif \<Rightarrow> hw_rxhdr \<Rightarrow> rx_sta list \<Rightarrow> u8 list \<Rightarrow> bool" where
  "to_stack v x stas f \<longleftrightarrow> group_frame f \<or> \<not> local_frame v x stas f"

definition stations_known :: "rx_vif \<Rightarrow> hw_rxhdr \<Rightarrow> rx_sta list \<Rightarrow> bool" where
  "stations_known v x stas \<longleftrightarrow> (hx_dst x \<noteq> RWNX_INVALID_STA \<longrightarrow> hx_dst x < length stas) \<and> (\<forall>i \<in> set (vf_stas v). i < length stas)"

definition frame_in :: "rx_buf \<Rightarrow> bool" where
  "frame_in b \<longleftrightarrow> (\<exists>pre post. holds b pre (content b) post) \<and> 6 \<le> length (content b)"

lemma holds_frame_in: "holds b pre body post \<Longrightarrow> 6 \<le> length body \<Longrightarrow> frame_in b"
  using holds_content [of b pre body post] by (auto simp: frame_in_def)

lemma those_some: "(\<forall>x \<in> set xs. f x = Some (g x)) \<Longrightarrow> those (map f xs) = Some (map g xs)"
  by (induction xs) simp_all

lemma ap_route_frame:
  assumes "frame_in b" and "stations_known v x (rh_stas s)"
  shows "ap_route v x b s = Some (to_air v x (rh_stas s) (content b), to_stack v x (rh_stas s) (content b))"
proof -
  obtain pre post where h: "holds b pre (content b) post" and l: "6 \<le> length (content b)" using assms(1) by (auto simp: frame_in_def)
  have "content b \<noteq> []" using l by auto
  then have "byte b 0 = Some (hd (content b))" using holds_byte [OF h, of 0] by (simp add: hd_conv_nth)
  then have g: "group_addressed b = Some (group_frame (content b))" by (simp add: group_addressed_def group_frame_def)
  have a: "load 0 6 b = Some (take 6 (content b))" using holds_load [OF h, of 0 6] l by simp
  have m: "those (map (\<lambda>i. map_option st_mac (sta_at i s)) (vf_stas v)) = Some (map (\<lambda>i. st_mac (rh_stas s ! i)) (vf_stas v))"
    using assms(2) by (intro those_some) (simp add: stations_known_def sta_at_def)
  show ?thesis
    using g a m assms(2) by (auto simp: ap_route_def to_air_def to_stack_def local_frame_def stations_known_def sta_at_def)
qed

lemma resend_alloc: "en_alloc e (rh_next s) \<Longrightarrow> rwnx_rx_data_skb_resend e v b s = rx_log [AirTx (vf_index v) (content b)] (s\<lparr>rh_next := rh_next s + 1\<rparr>)"
  by (simp add: rwnx_rx_data_skb_resend_def try_alloc_def)

section \<open>Without reordering\<close>

definition bridge :: "rx_vif \<Rightarrow> hw_rxhdr \<Rightarrow> rx_sta list \<Rightarrow> rx_buf \<Rightarrow> data_event list" where
  "bridge v x stas b =
    (if to_air v x stas (content b) then [AirTx (vf_index v) (content b)] else []) @
    (if to_stack v x stas (content b) then [NetRx (vf_index v) (rb_id b) (content b)] else [KFree (rb_id b)])"

lemma iftype_delivered: "iftype (foldl deliver_skb r l) = iftype r"
  by (induction l arbitrary: r) (simp_all add: deliver_skb_def emit_def)

lemma iftype_single: "iftype (snd (reord_single_frame_ind amsdu p r)) = iftype r"
  by (auto simp: reord_single_frame_ind_def Let_def release_frame_def reord_rxframe_free_def upd_frame_def emit_def iftype_delivered split: option.splits)

lemma iftype_flushed: "iftype (flush_list amsdu ps r) = iftype r"
  by (induction ps arbitrary: r) (simp_all add: iftype_single)

lemma flush_tid_ap:
  assumes "tid < 8" and "iftype (rh_reord s) \<noteq> OTHER_IFTYPE"
  shows "\<exists>r. flush_tid e b tid s = Some (0, with_reord r s) \<and> iftype r = iftype (rh_reord s)"
proof -
  obtain mac where mac: "sta_mac (iftype (rh_reord s)) (to_skb b) = Some mac"
    using assms(2) by (cases "iftype (rh_reord s)") (simp_all add: sta_mac_def)
  show ?thesis
    using assms(1) mac iftype_flushed by (auto simp: flush_tid_def Let_def reord_flush_tid_def set_ctrl_def split: option.splits)
qed

lemma ap_loop_bridges:
  assumes "\<forall>b \<in> set l. frame_in b" and "stations_known v x (rh_stas s)" and "\<not> (qos \<and> hx_reord x)" and "tid < 8" and "\<forall>k. en_alloc e k"
    and "iftype (rh_reord s) \<noteq> OTHER_IFTYPE"
  shows "\<exists>t. ap_loop e v x qos tid l None s = Some (Inr (None, t)) \<and> logged s (concat (map (bridge v x (rh_stas s)) l)) t"
  using assms
proof (induction l arbitrary: s)
  case Nil
  then show ?case by (simp add: logged_def)
next
  case (Cons b l)
  have b: "frame_in b" "en_alloc e (rh_next s)" using Cons.prems by simp_all
  note r = ap_route_frame [OF b(1) Cons.prems(2)]
  let ?air = "to_air v x (rh_stas s) (content b)" and ?stack = "to_stack v x (rh_stas s) (content b)"
  let ?s1 = "if ?air then rwnx_rx_data_skb_resend e v b s else s"
  have s1: "logged s (if ?air then [AirTx (vf_index v) (content b)] else []) ?s1" "rh_reord ?s1 = rh_reord s"
    using resend_alloc [OF b(2), of v b] by (simp_all add: logged_def)
  obtain s2 where s2: "(if qos then flush_tid e b tid ?s1 else Some (0, ?s1)) = Some (0, s2)" "logged ?s1 [] s2" "iftype (rh_reord s2) = iftype (rh_reord s)"
    using flush_tid_ap [OF assms(4), of ?s1 e b] Cons.prems(6) s1(2) by (cases qos) (fastforce simp: logged_def)+
  let ?s3 = "if ?stack then rwnx_rx_data_skb_forward v b s2 else free_buf b s2"
  have s3: "logged s (bridge v x (rh_stas s) b) ?s3" "rh_reord ?s3 = rh_reord s2"
    using s1(1) s2(2) by (auto simp: logged_def bridge_def rwnx_rx_data_skb_forward_def)
  have "rh_stas ?s3 = rh_stas s" using s3(1) by (simp add: logged_def)
  moreover obtain t where "ap_loop e v x qos tid l None ?s3 = Some (Inr (None, t))" "logged ?s3 (concat (map (bridge v x (rh_stas ?s3)) l)) t"
    using Cons.IH [of ?s3] Cons.prems s3(2) s2(3) calculation by auto
  moreover have "ap_loop e v x qos tid (b # l) None s = ap_loop e v x qos tid l None ?s3"
    using r s2(1) Cons.prems(3) by (auto simp: Let_def)
  ultimately show ?case using logged_trans [OF s3(1)] by simp
qed

text \<open>
  C26: an access point without reordering bridges: a group frame goes back to the air and to the stack, a frame for a station of the cell goes to
  the air only and is freed, any other frame goes to the stack only.
\<close>

theorem access_point_bridges:
  assumes "data_transfer b0 pre x w (llc @ type @ payload) post" and "length llc = 6" "length type = 2"
    and "\<not> wf_amsdu w" and "\<not> wf_mf w" "wf_fn w = 0" and "reaches (marked x w) v s" and "vf_type v \<in> {NL_AP, NL_P2P_GO}"
    and "\<not> (wf_qos w \<and> hx_reord x)" and "wf_tid w < 8" and "stations_known v x (rh_stas s)" and "\<forall>k. en_alloc e k"
  defines "f \<equiv> wf_da w @ wf_sa w @ type @ payload"
  defines "loc \<equiv> local_frame v (marked x w) (rh_stas s) f"
  shows "\<exists>t. rxdata_upload e b0 s = Some t \<and> logged s (strays x v @
      (if group_frame f \<or> loc then [AirTx (vf_index v) f] else []) @
      (if group_frame f \<or> \<not> loc then [NetRx (vf_index v) (rb_id b0) f] else [KFree (rb_id b0)])) t"
proof -
  let ?x = "marked x w"
  obtain b pre' where u: "rxdata_upload e b0 s = data_frame e (length pre) (wf_qos w) (wf_tid w) (wf_sn w) b s"
    and b: "holds b pre' f post" "rb_id b = rb_id b0" "read_rxhdr (rb_mem b) (length pre) = Some ?x"
    using upload_single [OF assms(1-4), of e s] assms(5,6) unfolding f_def by blast
  have "6 \<le> length f" using wf_addr_len [of "hx_decr x" w] assms(1) by (simp add: data_transfer_def f_def)
  then have i: "frame_in b" "content b = f" using holds_frame_in [OF b(1)] holds_content [OF b(1)] by simp_all
  have st: "rh_stas (enter ?x v s) = rh_stas s" "iftype (rh_reord (enter ?x v s)) \<noteq> OTHER_IFTYPE"
    using assms(8) by (auto simp: enter_def reord_type_def)
  have "stations_known v ?x (rh_stas s)" using assms(11) by (simp add: stations_known_def)
  then obtain t where t: "ap_loop e v ?x (wf_qos w) (wf_tid w) [b] None (enter ?x v s) = Some (Inr (None, t))"
      "logged (enter ?x v s) (concat (map (bridge v ?x (rh_stas s)) [b])) t"
    using ap_loop_bridges [of "[b]" v ?x "enter ?x v s" "wf_qos w" "wf_tid w" e] i(1) assms(9,10,12) st by auto
  have "data_frame e (length pre) (wf_qos w) (wf_tid w) (wf_sn w) b s = Some t"
    using data_frame_reaches [OF b(3) assms(7)] assms(4,8) t(1) by (auto simp: ap_frame_def simp del: ap_loop.simps)
  moreover have "strays ?x v = strays x v" by (simp add: strays_def)
  moreover have "concat (map (bridge v ?x (rh_stas s)) [b]) = (if group_frame f \<or> loc then [AirTx (vf_index v) f] else []) @
      (if group_frame f \<or> \<not> loc then [NetRx (vf_index v) (rb_id b0) f] else [KFree (rb_id b0)])"
    using i(2) b(2) by (simp only: bridge_def to_air_def to_stack_def loc_def concat.simps list.map append_Nil2)
  ultimately show ?thesis using u logged_trans [OF logged_enter [of s ?x v] t(2)] by simp
qed

section \<open>With reordering\<close>

lemma sub_bufs_frames: "amsdu_ok fs \<Longrightarrow> \<forall>b \<in> set (sub_bufs n fs). frame_in b"
proof -
  have "frame_in (sub_buf n f)" if "sf_fields f" for n f
  proof (rule holds_frame_in)
    show "holds (sub_buf n f) [] (sf_eth f) []" using that by (simp add: holds_def sub_buf_def sf_eth_def sf_fields_def sf_len_def)
    show "6 \<le> length (sf_eth f)" using that by (simp add: sf_eth_def sf_fields_def)
  qed
  then have "\<forall>f \<in> set fs. sf_fields f \<Longrightarrow> \<forall>b \<in> set (sub_bufs n fs). frame_in b"
    by (induction fs arbitrary: n) simp_all
  then show "amsdu_ok fs \<Longrightarrow> \<forall>b \<in> set (sub_bufs n fs). frame_in b" using amsdu_fields by blast
qed

text \<open>The frames of one transfer go into one pool frame.\<close>

definition collected :: "(u8 list \<Rightarrow> bool) \<Rightarrow> rx_buf list \<Rightarrow> recv_msdu \<Rightarrow> recv_msdu" where
  "collected fwd l f = f\<lparr>ap_fwd_cnt := ap_fwd_cnt f + word_of_nat (length (filter (fwd \<circ> content) l)), fwd_skbs := fwd_skbs f @ map to_skb (filter (fwd \<circ> content) l),
     ap_resend_cnt := ap_resend_cnt f + word_of_nat (length (filter (Not \<circ> fwd \<circ> content) l)),
     resend_skbs := resend_skbs f @ map to_skb (filter (Not \<circ> fwd \<circ> content) l)\<rparr>"

definition resent :: "rx_vif \<Rightarrow> hw_rxhdr \<Rightarrow> rx_sta list \<Rightarrow> rx_buf list \<Rightarrow> data_event list" where
  "resent v x stas l = map (\<lambda>b. AirTx (vf_index v) (content b)) (filter (to_air v x stas \<circ> content) l)"

lemma resent_contents: "resent v x stas l = map (AirTx (vf_index v)) (filter (to_air v x stas) (map content l))"
  by (simp add: resent_def filter_map comp_def)

lemma collected_Cons: "collected fwd l (collect (fwd (content b)) b f) = collected fwd (b # l) f"
  by (simp add: collected_def collect_def)

lemma collected_Nil: "collected fwd [] f = f"
  by (simp add: collected_def)

lemma upd_frame_upd: "upd_frame p f (upd_frame p g r) = upd_frame p (\<lambda>x. f (g x)) r"
  by (cases "p < length (recv_frames r)") (simp_all add: upd_frame_def list_update_beyond)

lemma upd_frame_id: "upd_frame p (\<lambda>f. f) r = r"
  by (simp add: upd_frame_def)

lemma ap_loop_collects:
  assumes "\<forall>b \<in> set l. frame_in b" and "stations_known v x (rh_stas s)" and "hx_reord x" and "\<forall>k. en_alloc e k"
  shows "\<exists>t. ap_loop e v x True tid l (Some p) s = Some (Inr (Some p, t)) \<and> logged s (resent v x (rh_stas s) l) t \<and>
    rh_reord t = upd_frame p (collected (to_stack v x (rh_stas s)) l) (rh_reord s)"
  using assms
proof (induction l arbitrary: s)
  case Nil
  then show ?case by (simp add: logged_def resent_def collected_Nil upd_frame_id)
next
  case (Cons b l)
  have b: "frame_in b" "en_alloc e (rh_next s)" using Cons.prems by simp_all
  note r = ap_route_frame [OF b(1) Cons.prems(2)]
  let ?air = "to_air v x (rh_stas s) (content b)" and ?stack = "to_stack v x (rh_stas s)"
  let ?s1 = "if ?air then rwnx_rx_data_skb_resend e v b s else s"
  let ?s2 = "with_reord (upd_frame p (collect (?stack (content b)) b) (rh_reord ?s1)) ?s1"
  have s1: "logged s (resent v x (rh_stas s) [b]) ?s2" "rh_reord ?s1 = rh_reord s"
    using resend_alloc [OF b(2), of v b] by (simp_all add: logged_def resent_def)
  have st: "rh_stas ?s2 = rh_stas s" using s1(1) by (simp add: logged_def)
  obtain t where t: "ap_loop e v x True tid l (Some p) ?s2 = Some (Inr (Some p, t))" "logged ?s2 (resent v x (rh_stas s) l) t"
      "rh_reord t = upd_frame p (collected ?stack l) (rh_reord ?s2)"
    using Cons.IH [of ?s2] Cons.prems unfolding st by auto
  have "ap_loop e v x True tid (b # l) (Some p) s = ap_loop e v x True tid l (Some p) ?s2"
    using r Cons.prems(3) by (simp add: Let_def ap_pframe_def)
  moreover have "resent v x (rh_stas s) [b] @ resent v x (rh_stas s) l = resent v x (rh_stas s) (b # l)" by (simp add: resent_def)
  moreover have "rh_reord t = upd_frame p (collected ?stack (b # l)) (rh_reord s)"
    using t(3) s1(2) by (simp add: upd_frame_upd collected_Cons)
  ultimately show ?case using t(1) logged_trans [OF s1(1) t(2)] by simp
qed

lemma ap_loop_collects_first:
  assumes "\<forall>b \<in> set l. frame_in b" and "l \<noteq> []" and "stations_known v x (rh_stas s)" and "hx_reord x" and "\<forall>k. en_alloc e k"
    and "reord_rxframe_alloc (rh_reord s) = (Some p, r)"
  shows "\<exists>t. ap_loop e v x True tid l None s = Some (Inr (Some p, t)) \<and> logged s (resent v x (rh_stas s) l) t \<and>
    rh_reord t = upd_frame p (\<lambda>f. collected (to_stack v x (rh_stas s)) l (f\<lparr>ap_fwd_cnt := 0, ap_resend_cnt := 0, fwd_skbs := [], resend_skbs := []\<rparr>)) r"
proof -
  obtain b bs where l: "l = b # bs" using assms(2) by (cases l) simp_all
  have b: "frame_in b" "en_alloc e (rh_next s)" using assms(1,5) l by simp_all
  note rt = ap_route_frame [OF b(1) assms(3)]
  let ?air = "to_air v x (rh_stas s) (content b)" and ?stack = "to_stack v x (rh_stas s)"
  let ?clear = "\<lambda>f. f\<lparr>ap_fwd_cnt := 0, ap_resend_cnt := 0, fwd_skbs := [], resend_skbs := []\<rparr>"
  let ?s1 = "if ?air then rwnx_rx_data_skb_resend e v b s else s"
  let ?s2 = "with_reord (upd_frame p (\<lambda>f. collect (?stack (content b)) b (?clear f)) r) ?s1"
  have s1: "logged s (resent v x (rh_stas s) [b]) ?s2" "rh_reord ?s1 = rh_reord s"
    using resend_alloc [OF b(2), of v b] by (simp_all add: logged_def resent_def)
  have st: "rh_stas ?s2 = rh_stas s" using s1(1) by (simp add: logged_def)
  obtain t where t: "ap_loop e v x True tid bs (Some p) ?s2 = Some (Inr (Some p, t))" "logged ?s2 (resent v x (rh_stas s) bs) t"
      "rh_reord t = upd_frame p (collected ?stack bs) (rh_reord ?s2)"
    using ap_loop_collects [of bs v x ?s2 e tid p] assms(1,3,4,5) l unfolding st by auto
  have "ap_loop e v x True tid l None s = ap_loop e v x True tid bs (Some p) ?s2"
    using rt assms(4,6) l s1(2) by (simp add: Let_def ap_pframe_def)
  moreover have "resent v x (rh_stas s) [b] @ resent v x (rh_stas s) bs = resent v x (rh_stas s) l" by (simp add: resent_def l)
  moreover have "rh_reord t = upd_frame p (\<lambda>f. collected ?stack l (?clear f)) r" using t(3) l by (simp add: upd_frame_upd collected_Cons)
  ultimately show ?thesis using t(1) logged_trans [OF s1(1) t(2)] by simp
qed

text \<open>
  An A-MSDU for an access point that reorders: group subframes and those for stations of the cell go back to the air at once, in order; the pool
  frame takes the buffers of those for the stack and of those that are to be freed, in order, to the controller.
\<close>

theorem access_point_collects_amsdu:
  assumes "data_transfer b0 pre x w (amsdu_wire fs) post" and "amsdu_ok fs" "fs \<noteq> []" and "wf_amsdu w" and "hx_reord x"
    and "reaches (marked x w) v s" and "vf_type v \<in> {NL_AP, NL_P2P_GO}" and "stations_known v x (rh_stas s)" and "\<forall>k. en_alloc e k"
    and "reord_rxframe_alloc (rh_reord (enter x v s)) = (Some p, r)"
  defines "l \<equiv> sub_bufs (rh_next s) fs"
  defines "stack \<equiv> to_stack v (marked x w) (rh_stas s)"
  shows "\<exists>t. rxdata_upload e b0 s = do {
        (ret, r1) \<leftarrow> reord_process_unit (en_amsdu e) (en_expires e) (en_kmalloc e) p (to_skb (last l)) (wf_sn w) (word_of_nat (wf_tid w)) False False
          (upd_frame p (\<lambda>f. f\<lparr>ap_fwd_cnt := word_of_nat (length (filter (stack \<circ> content) l)), fwd_skbs := map to_skb (filter (stack \<circ> content) l),
             ap_resend_cnt := word_of_nat (length (filter (Not \<circ> stack \<circ> content) l)), resend_skbs := map to_skb (filter (Not \<circ> stack \<circ> content) l), is_ap_reord := True\<rparr>) r);
        Some (with_reord r1 t) } \<and>
    logged s (strays x v @ KFree (rb_id b0) # map (AirTx (vf_index v)) (filter (to_air v (marked x w) (rh_stas s)) (map sf_eth fs))) t"
proof -
  let ?x = "marked x w" and ?s = "enter (marked x w) v s"
  obtain b pre' where u: "rxdata_upload e b0 s = data_frame e (length pre) True (wf_tid w) (wf_sn w) b s"
    and b: "holds b pre' (amsdu_wire fs) post" "rb_id b = rb_id b0" "read_rxhdr (rb_mem b) (length pre) = Some ?x"
    using upload_amsdu [OF assms(1,4), of e s] assms(5) by blast
  have d: "data_frame e (length pre) True (wf_tid w) (wf_sn w) b s = ap_frame e ?x v True (wf_tid w) (wf_sn w) b ?s"
    using data_frame_reaches [OF b(3) assms(6)] assms(7) by auto
  have en: "enter x v s = ?s" "strays x v = strays ?x v" by (simp_all add: enter_def strays_def)
  have eq: "rh_vifs ?s = rh_vifs s" "rh_next ?s = rh_next s" "rh_stas ?s = rh_stas s" by (simp_all add: enter_def)
  have "rwnx_rx_get_vif (hx_vif x) s \<noteq> None" using assms(6) by (auto simp: reaches_def)
  then have "rwnx_rx_get_vif (hx_vif x) ?s \<noteq> None" using get_vif_cong [OF eq(1)] by simp
  then have "amsdu_loop e (hx_vif x) b [] ?s = Some (Some (l, ?s\<lparr>rh_next := rh_next s + length fs\<rparr>))"
    using amsdu_loop_wire [OF assms(2) b(1) assms(9), of "hx_vif x" ?s "[]"] eq(2) by (simp add: l_def)
  then have split: "rwnx_rxdata_process_amsdu e (hx_vif x) b ?s = Some (l, free_buf b (?s\<lparr>rh_next := rh_next s + length fs\<rparr>))"
    by (simp add: rwnx_rxdata_process_amsdu_def)
  let ?t = "free_buf b (?s\<lparr>rh_next := rh_next s + length fs\<rparr>)"
  have t: "rh_stas ?t = rh_stas s" "rh_reord ?t = rh_reord ?s" "logged ?s [KFree (rb_id b0)] ?t" using eq b(2) by (simp_all add: logged_def)
  have "\<forall>b \<in> set l. frame_in b" unfolding l_def by (rule sub_bufs_frames [OF assms(2)])
  moreover have "l \<noteq> []" using assms(3) by (cases fs) (simp_all add: l_def)
  moreover have "stations_known v ?x (rh_stas ?t)" using assms(8) t(1) by (simp add: stations_known_def)
  moreover have "reord_rxframe_alloc (rh_reord ?t) = (Some p, r)" using assms(10) en(1) t(2) by simp
  ultimately obtain q where q: "ap_loop e v ?x True (wf_tid w) l None ?t = Some (Inr (Some p, q))" "logged ?t (resent v ?x (rh_stas s) l) q"
      "rh_reord q = upd_frame p (\<lambda>f. collected stack l (f\<lparr>ap_fwd_cnt := 0, ap_resend_cnt := 0, fwd_skbs := [], resend_skbs := []\<rparr>)) r"
    using ap_loop_collects_first [of l v ?x ?t e p r "wf_tid w"] assms(5,9) unfolding t(1) stack_def by auto
  have "resent v ?x (rh_stas s) l = map (AirTx (vf_index v)) (filter (to_air v ?x (rh_stas s)) (map sf_eth fs))"
    using resent_contents [of v ?x "rh_stas s" l] sub_bufs_contents [OF assms(2), of "rh_next s"] by (simp add: l_def)
  then have "logged s (strays x v @ KFree (rb_id b0) # map (AirTx (vf_index v)) (filter (to_air v ?x (rh_stas s)) (map sf_eth fs))) q"
    using logged_trans [OF logged_trans [OF logged_enter t(3)] q(2)] en(2) by simp
  moreover have "ap_frame e ?x v True (wf_tid w) (wf_sn w) b ?s = do {
        (ret, r1) \<leftarrow> reord_process_unit (en_amsdu e) (en_expires e) (en_kmalloc e) p (to_skb (last l)) (wf_sn w) (word_of_nat (wf_tid w)) False False
          (upd_frame p (\<lambda>f. f\<lparr>is_ap_reord := True\<rparr>) (rh_reord q));
        Some (with_reord r1 q) }"
    using split q(1) assms(4) by (simp add: ap_frame_def)
  ultimately show ?thesis using u d q(3) by (auto simp: upd_frame_upd collected_def comp_def)
qed

end
