(* ===== verification/Rx_Order.thy ===== *)
theory Rx_Order
  imports Rx_Reorder
begin

text \<open>
  Correctness of the reorder controller: sequence numbers modulo 4096 as offsets from the number that is due, the window
  invariant, and what receiving a frame or a timeout releases.
\<close>

section \<open>Sequence numbers as offsets\<close>

definition dist :: "u16 \<Rightarrow> u16 \<Rightarrow> int" where
  "dist a b = (uint b - uint a) mod 4096"

definition sn_at :: "u16 \<Rightarrow> int \<Rightarrow> u16" where
  "sn_at a k = word_of_int ((uint a + k) mod 4096)"

lemma dist_bounds [simp]: "0 \<le> dist a b" "dist a b < 4096"
  by (simp_all add: dist_def)

lemma bit_11_mod: "bit (x :: int) 11 \<longleftrightarrow> 2048 \<le> x mod 4096"
proof -
  have "x mod 4096 = 2048 * (x div 2048 mod 2) + x mod 2048"
    using zmod_zmult2_eq [of 2 x 2048] by simp
  moreover have "0 \<le> x mod 2048" "x mod 2048 < 2048" by simp_all
  moreover have "x div 2048 mod 2 = 0 \<or> x div 2048 mod 2 = 1" by linarith
  ultimately show ?thesis by (auto simp: bit_iff_odd odd_iff_mod_2_eq_one)
qed

lemma SN_LESS_iff: "SN_LESS a b \<longleftrightarrow> 2048 \<le> (uint a - uint b) mod 4096"
proof -
  have "(a - b) AND 0x800 \<noteq> 0 \<longleftrightarrow> bit (a - b) 11"
  proof -
    have e: "(0x800 :: u16) = 2 ^ 11" by simp
    have m: "bit (0x800 :: u16) n \<longleftrightarrow> n = 11" if "n < 16" for n
      unfolding e bit_exp_iff using that by (simp add: possible_bit_word)
    have "(a - b) AND 0x800 = (if bit (a - b) 11 then 0x800 else 0)"
    proof (rule bit_word_eqI)
      fix n assume "n < LENGTH(16)"
      with m [of n] show "bit ((a - b) AND 0x800) n = bit (if bit (a - b) 11 then 0x800 else (0 :: u16)) n"
        by (auto simp: bit_and_iff)
    qed
    then show ?thesis by simp
  qed
  also have "\<dots> \<longleftrightarrow> bit (uint (a - b)) 11" by (simp add: bit_uint_iff)
  also have "\<dots> \<longleftrightarrow> 2048 \<le> (uint a - uint b) mod 4096"
    by (simp add: bit_11_mod uint_word_ariths mod_mod_cancel)
  finally show ?thesis by (simp add: SN_LESS_def)
qed

lemma SN_LESS_dist_iff:
  assumes "dist i x < 2048" and "dist i y < 2048"
  shows "SN_LESS x y \<longleftrightarrow> dist i x < dist i y"
proof -
  have "(uint x - uint y) mod 4096 = (dist i x - dist i y) mod 4096"
    by (simp add: dist_def mod_diff_eq)
  moreover have "2048 \<le> (d - e) mod 4096 \<longleftrightarrow> d < e" if "0 \<le> d" "d < 2048" "0 \<le> e" "e < 2048" for d e :: int
  proof (cases "d < e")
    case True
    then have "(d - e) mod 4096 = d - e + 4096"
      using that mod_add_self2 [of "d - e" 4096] mod_pos_pos_trivial [of "d - e + 4096" 4096] by linarith
    with that show ?thesis using True by linarith
  next
    case False
    with that show ?thesis by (simp add: mod_pos_pos_trivial)
  qed
  ultimately show ?thesis using assms by (simp add: SN_LESS_iff)
qed

lemma uint_sn_at [simp]: "uint (sn_at a k) = (uint a + k) mod 4096"
proof -
  have "0 \<le> (uint a + k) mod 4096" "(uint a + k) mod 4096 < 4096" by simp_all
  then show ?thesis by (simp add: sn_at_def uint_word_of_int)
qed

lemma dist_sn_at: "0 \<le> k \<Longrightarrow> k < 4096 \<Longrightarrow> dist a (sn_at a k) = k"
  by (simp add: dist_def mod_diff_left_eq)

lemma sn_at_dist: "uint b < 4096 \<Longrightarrow> sn_at a (dist a b) = b"
  by (intro word_uint_eqI) (simp add: dist_def mod_add_right_eq mod_pos_pos_trivial)

lemma dist_eq_iff: "uint x < 4096 \<Longrightarrow> uint y < 4096 \<Longrightarrow> dist i x = dist i y \<longleftrightarrow> x = y"
  by (metis sn_at_dist)

lemma and_FFF: "uint ((w :: u16) AND 0xFFF) = uint w mod 4096"
proof -
  have "(0xFFF :: u16) = mask 12" by (simp add: mask_eq_exp_minus_1)
  then have "w AND 0xFFF = take_bit 12 w" by (simp add: take_bit_eq_mask)
  then show ?thesis by (simp add: take_bit_eq_mod uint_mod_distrib)
qed

lemma sn_at_next: "(sn_at a k + 1) AND 0xFFF = sn_at a (k + 1)"
proof (rule word_uint_eqI)
  have "0 \<le> (uint a + k) mod 4096" "(uint a + k) mod 4096 < 4096" by simp_all
  then have "uint (sn_at a k + 1) = (uint a + k) mod 4096 + 1"
    by (simp add: uint_word_ariths)
  then show "uint ((sn_at a k + 1) AND 0xFFF) = uint (sn_at a (k + 1))"
    by (simp add: and_FFF mod_add_left_eq add.assoc)
qed

lemma sn_at_0: "uint a < 4096 \<Longrightarrow> sn_at a 0 = a"
  by (intro word_uint_eqI) (simp add: mod_pos_pos_trivial)

lemma dist_shift: "0 \<le> k \<Longrightarrow> k \<le> dist a b \<Longrightarrow> dist (sn_at a k) b = dist a b - k"
proof -
  assume k: "0 \<le> k" "k \<le> dist a b"
  have "dist (sn_at a k) b = (dist a b - k) mod 4096"
    by (simp add: dist_def mod_diff_right_eq mod_diff_left_eq algebra_simps)
  moreover have "dist a b - k < 4096" using k dist_bounds(2) [of a b] by linarith
  ultimately show ?thesis using k by (simp add: mod_pos_pos_trivial)
qed

section \<open>Lists of frames in window order\<close>

text \<open>Frames in strictly ascending order of their offset from \<open>i\<close>, all offsets in the lower half of the number space.\<close>

definition ordered :: "u16 \<Rightarrow> (nat \<Rightarrow> u16) \<Rightarrow> nat list \<Rightarrow> bool" where
  "ordered i sq l \<longleftrightarrow> sorted_wrt (\<lambda>p q. dist i (sq p) < dist i (sq q)) l
     \<and> (\<forall>q \<in> set l. uint (sq q) < 4096 \<and> dist i (sq q) < 2048)"

lemma ordered_Cons:
  "ordered i sq (q # qs) \<longleftrightarrow> ordered i sq qs \<and> uint (sq q) < 4096 \<and> dist i (sq q) < 2048
     \<and> (\<forall>r \<in> set qs. dist i (sq q) < dist i (sq r))"
  by (auto simp: ordered_def)

lemma ordered_Nil [simp]: "ordered i sq []"
  by (simp add: ordered_def)

lemma enqueue_at_spec:
  assumes "ordered i sq l" and "uint (sq p) < 4096" and "dist i (sq p) < 2048"
  shows "enqueue_at sq p l = (if \<exists>q \<in> set l. sq q = sq p then None
    else Some (takeWhile (\<lambda>q. dist i (sq q) < dist i (sq p)) l @ p # dropWhile (\<lambda>q. dist i (sq q) < dist i (sq p)) l))"
  using assms(1)
proof (induction l)
  case (Cons q qs)
  then have o: "ordered i sq qs" and q: "uint (sq q) < 4096" "dist i (sq q) < 2048" "\<forall>r \<in> set qs. dist i (sq q) < dist i (sq r)"
    by (simp_all add: ordered_Cons)
  have L: "SN_LESS (sq q) (sq p) \<longleftrightarrow> dist i (sq q) < dist i (sq p)"
    by (rule SN_LESS_dist_iff [OF q(2) assms(3)])
  have "\<forall>r \<in> set qs. sq r \<noteq> sq p" if "dist i (sq p) \<le> dist i (sq q)"
    using that q(3) by fastforce
  with Cons.IH [OF o] L dist_eq_iff [OF q(1) assms(2), of i] show ?case
    by (auto simp: SN_EQUAL_def)
qed simp

lemma ordered_insert:
  assumes "ordered i sq l" and "uint (sq p) < 4096" and "dist i (sq p) < 2048" and "\<forall>q \<in> set l. sq q \<noteq> sq p"
  shows "ordered i sq (takeWhile (\<lambda>q. dist i (sq q) < dist i (sq p)) l @ p # dropWhile (\<lambda>q. dist i (sq q) < dist i (sq p)) l)"
  using assms(1,4)
proof (induction l)
  case (Cons q qs)
  have ne: "dist i (sq q) \<noteq> dist i (sq p)"
    using Cons.prems assms(2) dist_eq_iff [of "sq q" "sq p" i] by (simp add: ordered_Cons)
  show ?case
  proof (cases "dist i (sq q) < dist i (sq p)")
    case True
    have "set (takeWhile (\<lambda>q. dist i (sq q) < dist i (sq p)) qs @ p # dropWhile (\<lambda>q. dist i (sq q) < dist i (sq p)) qs)
        = insert p (set qs)"
      by (metis Un_insert_right list.simps(15) set_append takeWhile_dropWhile_id)
    with True Cons show ?thesis by (auto simp: ordered_Cons simp del: set_append)
  next
    case False
    with ne Cons.prems assms(2,3) show ?thesis by (auto simp: ordered_Cons intro: less_trans)
  qed
qed (use assms in \<open>simp add: ordered_Cons\<close>)

text \<open>The end of the run of consecutive offsets that starts at \<open>k\<close>.\<close>

fun run_end :: "int \<Rightarrow> int list \<Rightarrow> int" where
  "run_end k [] = k"
| "run_end k (d # ds) = (if d \<le> k then run_end (if d = k then k + 1 else k) ds else k)"

lemma run_end_ge: "k \<le> run_end k ds"
  by (induction k ds rule: run_end.induct) (auto split: if_splits)

lemma run_end_spec:
  assumes "sorted_wrt (<) ds"
  shows "run_end k ds \<notin> set ds \<and> (\<forall>j. k \<le> j \<and> j < run_end k ds \<longrightarrow> j \<in> set ds)"
  using assms
proof (induction ds arbitrary: k)
  case (Cons d ds)
  show ?case
  proof (cases "d \<le> k")
    case True
    let ?k = "if d = k then k + 1 else k"
    have s: "sorted_wrt (<) ds" "\<forall>e \<in> set ds. d < e" using Cons.prems by auto
    have "d < ?k" using True by auto
    then have "run_end ?k ds \<noteq> d" using run_end_ge [of ?k ds] by linarith
    moreover have "j \<in> set (d # ds)" if "k \<le> j" "j < run_end ?k ds" for j
      using Cons.IH [OF s(1), of ?k] that by (cases "j = d") auto
    ultimately show ?thesis using True Cons.IH [OF s(1), of ?k] by auto
  next
    case False
    with Cons.prems show ?thesis by auto
  qed
qed simp

lemma ordered_sorted: "ordered i sq l \<Longrightarrow> sorted_wrt (<) (map (\<lambda>q. dist i (sq q)) l)"
  by (simp add: ordered_def sorted_wrt_map)

lemma process_scan_spec:
  assumes "ordered i sq l" and "0 \<le> k" and "l \<noteq> [] \<longrightarrow> k < 2048"
  shows "process_scan sq (sn_at i k) l =
    (\<exists>q \<in> set l. run_end k (map (\<lambda>q. dist i (sq q)) l) < dist i (sq q), sn_at i (run_end k (map (\<lambda>q. dist i (sq q)) l)))"
  using assms
proof (induction l arbitrary: k)
  case (Cons q qs)
  then have o: "ordered i sq qs" and q: "uint (sq q) < 4096" "dist i (sq q) < 2048" "\<forall>r \<in> set qs. dist i (sq q) < dist i (sq r)"
    and k: "0 \<le> k" "k < 2048"
    by (simp_all add: ordered_Cons)
  have dk: "dist i (sn_at i k) = k" using k by (simp add: dist_sn_at)
  have L: "SN_LESS (sn_at i k) (sq q) \<longleftrightarrow> k < dist i (sq q)"
    using SN_LESS_dist_iff [of i "sn_at i k" "sq q"] k q(2) dk by simp
  have E: "SN_EQUAL (sn_at i k) (sq q) \<longleftrightarrow> dist i (sq q) = k"
    using dk sn_at_dist [OF q(1), of i] by (auto simp: SN_EQUAL_def)
  show ?case
  proof (cases "dist i (sq q) \<le> k")
    case True
    let ?k = "if dist i (sq q) = k then k + 1 else k"
    have lt: "qs \<noteq> [] \<longrightarrow> ?k < 2048"
      using k q(3) o by (cases qs) (auto simp: ordered_Cons)
    have "process_scan sq (sn_at i k) (q # qs) = process_scan sq (sn_at i ?k) qs"
      using True L E by (auto simp: sn_at_next)
    moreover have "\<not> run_end ?k (map (\<lambda>q. dist i (sq q)) qs) < dist i (sq q)"
      using run_end_ge [of ?k "map (\<lambda>q. dist i (sq q)) qs"] True by (auto split: if_splits)
    ultimately show ?thesis using Cons.IH [OF o _ lt] k True by auto
  next
    case False
    with L show ?thesis by auto
  qed
qed simp

lemma due_split:
  assumes "ordered i sq l" and "0 \<le> e" and "e < 2048" and "e \<notin> (\<lambda>q. dist i (sq q)) ` set l"
  shows "takeWhile (due sq (sn_at i e)) l = filter (\<lambda>q. dist i (sq q) < e) l"
    and "dropWhile (due sq (sn_at i e)) l = filter (\<lambda>q. e < dist i (sq q)) l"
proof -
  have "takeWhile (due sq (sn_at i e)) l = filter (\<lambda>q. dist i (sq q) < e) l
      \<and> dropWhile (due sq (sn_at i e)) l = filter (\<lambda>q. e < dist i (sq q)) l"
    using assms(1,4)
  proof (induction l)
    case (Cons q qs)
    then have o: "ordered i sq qs" and q: "dist i (sq q) < 2048" "\<forall>r \<in> set qs. dist i (sq q) < dist i (sq r)" "dist i (sq q) \<noteq> e"
      by (auto simp: ordered_Cons)
    have L: "due sq (sn_at i e) q \<longleftrightarrow> dist i (sq q) < e"
      using SN_LESS_dist_iff [of i "sn_at i e" "sq q"] assms(2,3) q by (auto simp: due_def dist_sn_at)
    have "filter (\<lambda>q. dist i (sq q) < e) qs = []" "filter (\<lambda>q. e < dist i (sq q)) qs = qs" if "e < dist i (sq q)"
      using that q(2) by (auto simp: filter_empty_conv filter_id_conv)
    with Cons L q(3) o show ?case by auto
  qed simp
  then show "takeWhile (due sq (sn_at i e)) l = filter (\<lambda>q. dist i (sq q) < e) l"
    and "dropWhile (due sq (sn_at i e)) l = filter (\<lambda>q. e < dist i (sq q)) l" by simp_all
qed

section \<open>The controller\<close>

definition window_ok :: "(nat \<Rightarrow> u16) \<Rightarrow> reord_ctrl \<Rightarrow> bool" where
  "window_ok sq c \<longleftrightarrow> wsize_b c = 64 \<and> (ind_sn c = 0xFFFF \<and> reord_list c = []
     \<or> uint (ind_sn c) < 4096 \<and> ordered (ind_sn c) sq (reord_list c)
       \<and> (\<forall>q \<in> set (reord_list c). 1 \<le> dist (ind_sn c) (sq q) \<and> dist (ind_sn c) (sq q) \<le> 63))"

definition window_move :: "int \<Rightarrow> int" where
  "window_move d = (if d = 0 then 1 else if d \<le> 63 then 0 else d - 63)"

lemma need_check_first:
  assumes "ind_sn c = 0xFFFF" and "uint sn < 4096"
  shows "reord_need_check c sn = (0, c\<lparr>ind_sn := sn_at sn 1\<rparr>)"
proof -
  have "\<not> SN_LESS sn sn" by (simp add: SN_LESS_def)
  moreover have "(sn + 1) AND 0xFFF = sn_at sn 1"
    using sn_at_next [of sn 0] sn_at_0 [OF assms(2)] by simp
  ultimately show ?thesis using assms(1) by (simp add: reord_need_check_def Let_def SN_EQUAL_def)
qed

lemma window_jump:
  assumes "uint sn < 4096"
  shows "(if sn \<ge> 63 then sn - 63 else 0xFFF - (64 - (sn + 1)) + 1) = sn_at i (dist i sn - 63)"
proof (rule word_uint_eqI)
  have r: "(uint i + (dist i sn - 63)) mod 4096 = (uint sn - 63) mod 4096"
    using mod_add_left_eq [of "uint sn - uint i" 4096 "uint i - 63"] by (simp add: dist_def algebra_simps)
  have le: "sn \<ge> 63 \<longleftrightarrow> 63 \<le> uint sn" by (simp add: word_le_def)
  show "uint (if sn \<ge> 63 then sn - 63 else 0xFFF - (64 - (sn + 1)) + 1) = uint (sn_at i (dist i sn - 63))"
  proof (cases "63 \<le> uint sn")
    case True
    then have "uint (sn - 63) = uint sn - 63" using le by (simp add: uint_sub_lem [THEN iffD1])
    with True assms le r show ?thesis by (simp add: mod_pos_pos_trivial)
  next
    case False
    have "0xFFF - (64 - (sn + 1)) + 1 = sn + 4033" by (simp add: algebra_simps)
    moreover have "uint (sn + 4033) = uint sn + 4033" using False by (simp add: uint_word_ariths mod_pos_pos_trivial)
    moreover have "(uint sn - 63) mod 4096 = uint sn + 4033"
    proof -
      have "(uint sn - 63) mod 4096 = (uint sn - 63 + 4096) mod 4096" by (rule mod_add_self2 [symmetric])
      also have "\<dots> = uint sn + 4033" using False by (simp add: mod_pos_pos_trivial)
      finally show ?thesis .
    qed
    ultimately show ?thesis using False le r by (simp add: add.commute [of 4033])
  qed
qed

lemma need_check_spec:
  assumes "wsize_b c = 64" and "uint (ind_sn c) < 4096" and "uint sn < 4096"
  defines "d \<equiv> dist (ind_sn c) sn"
  shows "reord_need_check c sn =
    (if 2048 \<le> d then (-1, c) else (0, c\<lparr>ind_sn := sn_at (ind_sn c) (window_move d)\<rparr>))"
proof -
  let ?i = "ind_sn c"
  have ne: "?i \<noteq> 0xFFFF" using assms(2) by (auto simp: word_uint_eq_iff)
  have late: "SN_LESS sn ?i \<longleftrightarrow> 2048 \<le> d" by (simp add: SN_LESS_iff d_def dist_def)
  have eq: "SN_EQUAL sn ?i \<longleftrightarrow> d = 0"
    using dist_eq_iff [OF assms(3,2), of ?i] by (simp add: SN_EQUAL_def d_def) (simp add: dist_def)
  have n1: "(?i + 1) AND 0xFFF = sn_at ?i 1" using sn_at_next [of ?i 0] sn_at_0 [OF assms(2)] by simp
  have wend: "(?i + ucast (wsize_b c) - 1) AND 0xFFF = sn_at ?i 63"
  proof (rule word_uint_eqI)
    have "?i + ucast (wsize_b c) - 1 = ?i + 63" by (simp add: assms(1))
    moreover have "uint (?i + 63) = uint ?i + 63" using assms(2) by (simp add: uint_word_ariths mod_pos_pos_trivial)
    ultimately show "uint ((?i + ucast (wsize_b c) - 1) AND 0xFFF) = uint (sn_at ?i 63)"
      by (simp add: and_FFF add.commute [of 63])
  qed
  have "SN_LESS (sn_at ?i 63) sn \<longleftrightarrow> 63 < d" if "d < 2048"
    using SN_LESS_dist_iff [of ?i "sn_at ?i 63" sn] that by (simp add: dist_sn_at d_def)
  moreover have "63 \<le> sn \<Longrightarrow> sn - 63 = sn_at ?i (d - 63)" "\<not> 63 \<le> sn \<Longrightarrow> 4033 + sn = sn_at ?i (d - 63)"
    using window_jump [OF assms(3), of ?i] by (simp_all add: d_def)
  moreover note late eq n1 wend ne
  ultimately show ?thesis
    using sn_at_0 [OF assms(2)] by (simp add: reord_need_check_def Let_def window_move_def assms(1) d_def)
qed

lemma process_spec:
  assumes "ordered i sq (reord_list c)" and "ind_sn c = sn_at i k" and "0 \<le> k" and "k < 2048"
  shows "reord_rxframes_process sq False c =
    (\<exists>q \<in> set (reord_list c). run_end k (map (\<lambda>q. dist i (sq q)) (reord_list c)) < dist i (sq q),
     c\<lparr>ind_sn := sn_at i (run_end k (map (\<lambda>q. dist i (sq q)) (reord_list c)))\<rparr>)"
proof (cases "reord_list c")
  case Nil
  then show ?thesis using assms(2) by (cases c) (simp add: reord_rxframes_process_def)
next
  case (Cons q qs)
  then show ?thesis
    using process_scan_spec [of i sq "reord_list c" k] assms by (simp add: reord_rxframes_process_def)
qed

text \<open>
  Receiving a frame at the offset \<open>d\<close>, in front of the window and not buffered yet: \<open>l\<close> is the list with the frame,
  \<open>e\<close> the offset of the first missing number.
\<close>

definition with_frame :: "u16 \<Rightarrow> (nat \<Rightarrow> u16) \<Rightarrow> nat \<Rightarrow> nat list \<Rightarrow> nat list" where
  "with_frame i sq p l = takeWhile (\<lambda>q. dist i (sq q) < dist i (sq p)) l @ p # dropWhile (\<lambda>q. dist i (sq q) < dist i (sq p)) l"

lemma set_with_frame [simp]: "set (with_frame i sq p l) = insert p (set l)"
  unfolding with_frame_def by (metis Un_insert_right list.simps(15) set_append takeWhile_dropWhile_id)

definition gap :: "u16 \<Rightarrow> (nat \<Rightarrow> u16) \<Rightarrow> nat \<Rightarrow> nat list \<Rightarrow> int" where
  "gap i sq p l = run_end (window_move (dist i (sq p))) (map (\<lambda>q. dist i (sq q)) (with_frame i sq p l))"

lemma gap_spec:
  assumes "ordered i sq l" and "\<forall>q \<in> set l. 1 \<le> dist i (sq q) \<and> dist i (sq q) \<le> 63"
    and "uint (sq p) < 4096" and "dist i (sq p) < 2048" and "\<forall>q \<in> set l. sq q \<noteq> sq p"
  shows "gap i sq p l \<notin> (\<lambda>q. dist i (sq q)) ` insert p (set l)"
    and "window_move (dist i (sq p)) \<le> gap i sq p l"
    and "\<forall>j. window_move (dist i (sq p)) \<le> j \<and> j < gap i sq p l \<longrightarrow> j \<in> (\<lambda>q. dist i (sq q)) ` insert p (set l)"
    and "gap i sq p l < 2048"
proof -
  let ?d = "dist i (sq p)" and ?D = "\<lambda>q. dist i (sq q)" and ?e = "gap i sq p l"
  have o: "ordered i sq (with_frame i sq p l)"
    unfolding with_frame_def by (rule ordered_insert [OF assms(1,3-5)])
  note R = run_end_spec [OF ordered_sorted [OF o], of "window_move ?d"]
  show 1: "?e \<notin> ?D ` insert p (set l)" and 3: "\<forall>j. window_move ?d \<le> j \<and> j < ?e \<longrightarrow> j \<in> ?D ` insert p (set l)"
    using R by (simp_all add: gap_def)
  show 2: "window_move ?d \<le> ?e" by (simp add: gap_def run_end_ge)
  have m: "window_move ?d \<le> 1984" using assms(4) by (simp add: window_move_def)
  show "?e < 2048"
  proof (rule ccontr)
    assume "\<not> ?e < 2048"
    then have "1990 \<in> ?D ` insert p (set l)" "1991 \<in> ?D ` insert p (set l)"
      using 3 [rule_format, of 1990] 3 [rule_format, of 1991] m by simp_all
    with assms(2) show False by auto
  qed
qed

lemma accept_spec:
  assumes w: "window_ok sq c" and ne: "ind_sn c \<noteq> 0xFFFF" and p: "uint (sq p) < 4096"
    and d: "dist (ind_sn c) (sq p) < 2048" and new: "\<forall>q \<in> set (reord_list c). sq q \<noteq> sq p"
  defines "i \<equiv> ind_sn c" and "l \<equiv> reord_list c"
  defines "c1 \<equiv> snd (reord_need_check c (sq p))"
  defines "c2 \<equiv> c1\<lparr>reord_list := with_frame i sq p l\<rparr>"
  shows "reord_need_check c (sq p) = (0, c1)" and "reord_rxframe_enqueue sq p c1 = (0, c2)"
    and "reord_rxframes_process sq False c2 =
      (\<exists>q \<in> insert p (set l). gap i sq p l < dist i (sq q), c2\<lparr>ind_sn := sn_at i (gap i sq p l)\<rparr>)"
    and "takeWhile (due sq (sn_at i (gap i sq p l))) (with_frame i sq p l) =
      filter (\<lambda>q. dist i (sq q) < gap i sq p l) (with_frame i sq p l)"
    and "dropWhile (due sq (sn_at i (gap i sq p l))) (with_frame i sq p l) =
      filter (\<lambda>q. gap i sq p l < dist i (sq q)) (with_frame i sq p l)"
proof -
  have c: "wsize_b c = 64" "uint i < 4096" "ordered i sq l" "\<forall>q \<in> set l. 1 \<le> dist i (sq q) \<and> dist i (sq q) \<le> 63"
    using w ne by (auto simp: window_ok_def i_def l_def)
  note p' = p d [folded i_def] new [folded l_def]
  have c1: "reord_need_check c (sq p) = (0, c\<lparr>ind_sn := sn_at i (window_move (dist i (sq p)))\<rparr>)"
    using need_check_spec [OF c(1) _ p] c(2) d by (simp add: i_def)
  then show "reord_need_check c (sq p) = (0, c1)" by (simp add: c1_def)
  have f: "reord_list c1 = l" "ind_sn c1 = sn_at i (window_move (dist i (sq p)))"
    using c1 by (simp_all add: c1_def l_def)
  have "enqueue_at sq p l = Some (with_frame i sq p l)"
    using enqueue_at_spec [OF c(3) p'(1,2)] p'(3) by (auto simp: with_frame_def)
  then show "reord_rxframe_enqueue sq p c1 = (0, c2)"
    by (simp add: reord_rxframe_enqueue_def f c2_def)
  have o: "ordered i sq (with_frame i sq p l)"
    unfolding with_frame_def by (rule ordered_insert [OF c(3) p'])
  have k: "0 \<le> window_move (dist i (sq p))" "window_move (dist i (sq p)) < 2048"
    using p'(2) by (simp_all add: window_move_def)
  show "reord_rxframes_process sq False c2 =
      (\<exists>q \<in> insert p (set l). gap i sq p l < dist i (sq q), c2\<lparr>ind_sn := sn_at i (gap i sq p l)\<rparr>)"
    using process_spec [of i sq c2 "window_move (dist i (sq p))"] o k f(2) by (simp add: c2_def gap_def)
  note G = gap_spec [OF c(3,4) p']
  have g: "0 \<le> gap i sq p l" "gap i sq p l \<notin> (\<lambda>q. dist i (sq q)) ` set (with_frame i sq p l)"
    using G(1,2) k(1) by simp_all
  show "takeWhile (due sq (sn_at i (gap i sq p l))) (with_frame i sq p l) =
      filter (\<lambda>q. dist i (sq q) < gap i sq p l) (with_frame i sq p l)"
    and "dropWhile (due sq (sn_at i (gap i sq p l))) (with_frame i sq p l) =
      filter (\<lambda>q. gap i sq p l < dist i (sq q)) (with_frame i sq p l)"
    using due_split [OF o g(1) G(4) g(2)] by simp_all
qed

end
