(* ===== verification/Rx_Run.thy ===== *)
theory Rx_Run
  imports Rx_Order "HOL-Library.Multiset"
begin

text \<open>
  The reorder buffer as a whole: every operation of \<^verbatim>\<open>rwnx_rx.c\<close> on stations, frames and timers keeps the window of every
  controller, keeps a timer or work item pending while frames are buffered, and loses no frame of the pool.
\<close>

section \<open>Effects of handing on a frame\<close>

abbreviation hand_on :: "(sk_buff \<Rightarrow> sk_buff list) \<Rightarrow> nat \<Rightarrow> rx_priv \<Rightarrow> rx_priv" where
  "hand_on amsdu p s \<equiv> snd (reord_single_frame_ind amsdu p s)"

definition deliver_all :: "(sk_buff \<Rightarrow> sk_buff list) \<Rightarrow> nat list \<Rightarrow> rx_priv \<Rightarrow> rx_priv" where
  "deliver_all amsdu ps s = foldl (\<lambda>s p. hand_on amsdu p s) s ps"

lemma deliver_all_simps [simp]:
  "deliver_all amsdu [] s = s" "deliver_all amsdu (p # ps) s = deliver_all amsdu ps (hand_on amsdu p s)"
  by (simp_all add: deliver_all_def)

lemma deliver_skb_sel:
  "recv_frames (foldl deliver_skb s bs) = recv_frames s" "rxframes_freequeue (foldl deliver_skb s bs) = rxframes_freequeue s"
  "stas_reord_list (foldl deliver_skb s bs) = stas_reord_list s" "iftype (foldl deliver_skb s bs) = iftype s"
  "usb_down (foldl deliver_skb s bs) = usb_down s" "bus_down (foldl deliver_skb s bs) = bus_down s"
  by (induction bs arbitrary: s) (simp_all add: deliver_skb_def emit_def)

lemma hand_on_sel [simp]:
  "stas_reord_list (hand_on amsdu p s) = stas_reord_list s" "iftype (hand_on amsdu p s) = iftype s"
  "usb_down (hand_on amsdu p s) = usb_down s" "bus_down (hand_on amsdu p s) = bus_down s"
  "length (recv_frames (hand_on amsdu p s)) = length (recv_frames s)"
  by (auto simp: reord_single_frame_ind_def Let_def release_frame_def reord_rxframe_free_def upd_frame_def emit_def
      deliver_skb_sel split: option.split)

lemma hand_on_frames:
  "recv_frames (hand_on amsdu p s) =
    (if pkt (recv_frames s ! p) = None then recv_frames s else (recv_frames s)[p := (recv_frames s ! p)\<lparr>pkt := None\<rparr>])"
  "rxframes_freequeue (hand_on amsdu p s) =
    (if pkt (recv_frames s ! p) = None then rxframes_freequeue s else p # rxframes_freequeue s)"
  by (auto simp: reord_single_frame_ind_def Let_def release_frame_def reord_rxframe_free_def upd_frame_def emit_def
      deliver_skb_sel split: option.split)

lemma seq_of_hand_on [simp]: "seq_num (recv_frames (hand_on amsdu p s) ! q) = seq_num (recv_frames s ! q)"
  by (simp add: hand_on_frames nth_update_if)

lemma pkt_hand_on: "q \<noteq> p \<Longrightarrow> pkt (recv_frames (hand_on amsdu p s) ! q) = pkt (recv_frames s ! q)"
  by (simp add: hand_on_frames)

lemma ctrl_of_hand_on [simp]: "ctrl_of (hand_on amsdu p s) i t = ctrl_of s i t"
  by (simp add: ctrl_of_def)

definition valid_ctrl :: "rx_priv \<Rightarrow> nat \<Rightarrow> nat \<Rightarrow> bool" where
  "valid_ctrl s i t \<longleftrightarrow> i < length (stas_reord_list s) \<and> t < length (preorder_ctrl (stas_reord_list s ! i))"

lemma set_ctrl_sel [simp]:
  "recv_frames (set_ctrl i t c s) = recv_frames s" "rxframes_freequeue (set_ctrl i t c s) = rxframes_freequeue s"
  "iftype (set_ctrl i t c s) = iftype s" "usb_down (set_ctrl i t c s) = usb_down s" "bus_down (set_ctrl i t c s) = bus_down s"
  "length (stas_reord_list (set_ctrl i t c s)) = length (stas_reord_list s)" "events (set_ctrl i t c s) = events s"
  by (simp_all add: set_ctrl_def Let_def)

lemma ctrl_of_set_ctrl:
  "valid_ctrl s i t \<Longrightarrow> ctrl_of (set_ctrl i t c s) j u = (if j = i \<and> u = t then c else ctrl_of s j u)"
  by (auto simp: ctrl_of_def set_ctrl_def valid_ctrl_def Let_def nth_list_update)

lemma valid_set_ctrl [simp]: "valid_ctrl (set_ctrl i t c s) j u = valid_ctrl s j u"
  by (simp add: valid_ctrl_def set_ctrl_def Let_def nth_update_if)

lemma valid_hand_on [simp]: "valid_ctrl (hand_on amsdu p s) i t = valid_ctrl s i t"
  by (simp add: valid_ctrl_def)

lemma set_ctrl_twice: "set_ctrl i t c (set_ctrl i t c' s) = set_ctrl i t c s"
  by (cases "i < length (stas_reord_list s)") (simp_all add: set_ctrl_def Let_def list_update_beyond)

lemma set_ctrl_same: "valid_ctrl s i t \<Longrightarrow> set_ctrl i t (ctrl_of s i t) s = s"
  by (simp add: set_ctrl_def ctrl_of_def Let_def valid_ctrl_def)

lemma deliver_skb_set_ctrl: "foldl deliver_skb (set_ctrl i t c s) bs = set_ctrl i t c (foldl deliver_skb s bs)"
proof (induction bs arbitrary: s)
  case (Cons b bs)
  have "deliver_skb (set_ctrl i t c s) b = set_ctrl i t c (deliver_skb s b)"
    by (simp add: deliver_skb_def emit_def set_ctrl_def Let_def)
  with Cons show ?case by simp
qed simp

lemma emit_set_ctrl: "emit es (set_ctrl i t c s) = set_ctrl i t c (emit es s)"
  by (simp add: emit_def set_ctrl_def Let_def)

lemma release_set_ctrl: "release_frame p (set_ctrl i t c s) = set_ctrl i t c (release_frame p s)"
  by (simp add: release_frame_def reord_rxframe_free_def upd_frame_def set_ctrl_def Let_def)

lemma hand_on_set_ctrl: "hand_on amsdu p (set_ctrl i t c s) = set_ctrl i t c (hand_on amsdu p s)"
  by (simp add: reord_single_frame_ind_def Let_def emit_set_ctrl release_set_ctrl deliver_skb_set_ctrl split: option.split)

text \<open>The release loop hands on the frames that are due, in list order, and keeps the others.\<close>

lemma rxframes_ind_eq:
  assumes "valid_ctrl s i t" and "reord_list (ctrl_of s i t) = l"
  shows "reord_rxframes_ind amsdu i t l s =
    deliver_all amsdu (takeWhile (due (seq_of s) (ind_sn (ctrl_of s i t))) l)
      (set_ctrl i t ((ctrl_of s i t)\<lparr>reord_list := dropWhile (due (seq_of s) (ind_sn (ctrl_of s i t))) l\<rparr>) s)"
  using assms
proof (induction l arbitrary: s)
  case Nil
  have "(ctrl_of s i t)\<lparr>reord_list := []\<rparr> = ctrl_of s i t" using Nil.prems(2) by simp
  then show ?case using set_ctrl_same [OF Nil.prems(1)] by simp
next
  case (Cons q qs)
  let ?c = "ctrl_of s i t" and ?sq = "seq_of s"
  let ?d = "due ?sq (ind_sn ?c)"
  show ?case
  proof (cases "?d q")
    case True
    let ?s1 = "hand_on amsdu q (set_ctrl i t (?c\<lparr>reord_list := qs\<rparr>) s)"
    have c1: "ctrl_of ?s1 i t = ?c\<lparr>reord_list := qs\<rparr>" "valid_ctrl ?s1 i t"
      using Cons.prems(1) by (simp_all add: ctrl_of_set_ctrl)
    have sq: "seq_of ?s1 = ?sq" by (simp add: fun_eq_iff)
    have "reord_rxframes_ind amsdu i t qs ?s1 =
        deliver_all amsdu (takeWhile ?d qs) (set_ctrl i t (?c\<lparr>reord_list := dropWhile ?d qs\<rparr>) ?s1)"
      using Cons.IH [OF c1(2)] c1(1) sq by simp
    also have "set_ctrl i t (?c\<lparr>reord_list := dropWhile ?d qs\<rparr>) ?s1 =
        hand_on amsdu q (set_ctrl i t (?c\<lparr>reord_list := dropWhile ?d qs\<rparr>) s)"
      by (simp add: hand_on_set_ctrl set_ctrl_twice)
    finally show ?thesis using True by simp
  next
    case False
    have "?c\<lparr>reord_list := q # qs\<rparr> = ?c" using Cons.prems(2) by simp
    with False show ?thesis using set_ctrl_same [OF Cons.prems(1)] by simp
  qed
qed

section \<open>Where the frames are\<close>

definition pending :: "rx_priv \<Rightarrow> nat multiset" where
  "pending s = (\<Sum>r \<in># mset (stas_reord_list s). \<Sum>c \<in># mset (preorder_ctrl r). mset (reord_list c))"

lemma sum_update:
  fixes f :: "'a \<Rightarrow> 'b multiset"
  assumes "i < length xs"
  shows "(\<Sum>x \<in># mset (xs[i := y]). f x) + f (xs ! i) = (\<Sum>x \<in># mset xs. f x) + f y"
proof -
  have "add_mset (xs ! i) (mset (xs[i := y])) = add_mset y (mset xs)"
    using assms by (simp add: mset_update)
  then have "(\<Sum>x \<in># add_mset (xs ! i) (mset (xs[i := y])). f x) = (\<Sum>x \<in># add_mset y (mset xs). f x)"
    by simp
  then show ?thesis by (simp add: add.commute)
qed

lemma pending_set_ctrl:
  assumes "valid_ctrl s i t"
  shows "pending (set_ctrl i t c s) + mset (reord_list (ctrl_of s i t)) = pending s + mset (reord_list c)"
proof -
  let ?r = "stas_reord_list s ! i" and ?g = "\<lambda>c. mset (reord_list c)"
  let ?f = "\<lambda>r. \<Sum>c \<in># mset (preorder_ctrl r). ?g c" and ?r' = "\<lambda>cs. (stas_reord_list s ! i)\<lparr>preorder_ctrl := cs\<rparr>"
  let ?cs = "(preorder_ctrl ?r)[t := c]"
  have 1: "pending (set_ctrl i t c s) + ?f ?r = pending s + (\<Sum>c \<in># mset ?cs. ?g c)"
    using sum_update [of i "stas_reord_list s" ?f "?r' ?cs"] assms
    by (simp add: pending_def set_ctrl_def Let_def valid_ctrl_def)
  have 2: "(\<Sum>c \<in># mset ?cs. ?g c) + ?g (ctrl_of s i t) = ?f ?r + ?g c"
    using sum_update [of t "preorder_ctrl ?r" ?g c] assms by (simp add: valid_ctrl_def ctrl_of_def)
  have "pending (set_ctrl i t c s) + ?g (ctrl_of s i t) + ?f ?r = (pending (set_ctrl i t c s) + ?f ?r) + ?g (ctrl_of s i t)"
    by (simp add: ac_simps)
  also have "\<dots> = pending s + ((\<Sum>c \<in># mset ?cs. ?g c) + ?g (ctrl_of s i t))" unfolding 1 by (simp add: ac_simps)
  also have "\<dots> = (pending s + ?g c) + ?f ?r" unfolding 2 by (simp add: ac_simps)
  finally show ?thesis by (rule add_right_imp_eq)
qed

lemma pending_hand_on [simp]: "pending (hand_on amsdu p s) = pending s"
  by (simp add: pending_def)

lemma pending_mem:
  assumes "valid_ctrl s i t" and "q \<in> set (reord_list (ctrl_of s i t))"
  shows "q \<in># pending s"
proof -
  have "pending (set_ctrl i t ((ctrl_of s i t)\<lparr>reord_list := []\<rparr>) s) + mset (reord_list (ctrl_of s i t)) = pending s"
    using pending_set_ctrl [OF assms(1), of "(ctrl_of s i t)\<lparr>reord_list := []\<rparr>"] by simp
  with assms(2) show ?thesis by (metis set_mset_mset union_iff)
qed

text \<open>
  The state between two steps, with the frames \<open>h\<close> in the hands of the running operation: every frame of the pool is free, buffered in
  one controller, or in hand, exactly once.
\<close>

definition frames_ok :: "nat multiset \<Rightarrow> rx_priv \<Rightarrow> bool" where
  "frames_ok h s \<longleftrightarrow> mset (rxframes_freequeue s) + pending s + h = mset [0..<length (recv_frames s)]"

definition timer_ok :: "reord_ctrl \<Rightarrow> bool" where
  "timer_ok c \<longleftrightarrow> (reord_list c \<noteq> [] \<longrightarrow> reord_timer c \<noteq> None \<or> work_pending c)"

definition ctrl_ok :: "rx_priv \<Rightarrow> reord_ctrl \<Rightarrow> bool" where
  "ctrl_ok s c \<longleftrightarrow> window_ok (seq_of s) c \<and> timer_ok c \<and> (\<forall>q \<in> set (reord_list c). pkt (recv_frames s ! q) \<noteq> None)"

definition ctrls_ok :: "rx_priv \<Rightarrow> bool" where
  "ctrls_ok s \<longleftrightarrow> (\<forall>r \<in> set (stas_reord_list s). length (preorder_ctrl r) = 8)
     \<and> (\<forall>i t. valid_ctrl s i t \<longrightarrow> ctrl_ok s (ctrl_of s i t))"

definition rx_ok :: "nat multiset \<Rightarrow> rx_priv \<Rightarrow> bool" where
  "rx_ok h s \<longleftrightarrow> frames_ok h s \<and> ctrls_ok s"

lemma frames_ok_unique:
  assumes "frames_ok h s" and "valid_ctrl s i t" and "q \<in> set (reord_list (ctrl_of s i t))"
  shows "q \<notin># h" "q \<notin> set (rxframes_freequeue s)" "q < length (recv_frames s)"
proof -
  let ?n = "length (recv_frames s)"
  have q: "q \<in># pending s" using pending_mem [OF assms(2,3)] .
  have c: "count (mset (rxframes_freequeue s)) q + count (pending s) q + count h q = count (mset [0..<?n]) q"
    using assms(1) by (simp only: frames_ok_def flip: count_union)
  have le: "count (mset [0..<?n]) q \<le> 1" by (simp add: count_mset_set')
  have "0 < count (pending s) q" using q by simp
  with c le have z: "count h q = 0" "count (mset (rxframes_freequeue s)) q = 0" "0 < count (mset [0..<?n]) q" by linarith+
  show "q \<notin># h" using z(1) by (simp add: not_in_iff)
  show "q \<notin> set (rxframes_freequeue s)" using z(2) by (metis count_eq_zero_iff set_mset_mset)
  have "q \<in># mset [0..<?n]" using z(3) by (simp only: count_greater_zero_iff)
  then show "q < length (recv_frames s)" by simp
qed

lemma ctrl_ok_cong:
  assumes "\<And>q. q \<in> set (reord_list c) \<Longrightarrow> seq_of s' q = seq_of s q \<and> pkt (recv_frames s' ! q) = pkt (recv_frames s ! q)"
  shows "ctrl_ok s' c = ctrl_ok s c"
proof -
  have "ordered i (seq_of s') (reord_list c) = ordered i (seq_of s) (reord_list c)" for i
  proof -
    have "sorted_wrt (\<lambda>p q. dist i (seq_of s' p) < dist i (seq_of s' q)) (reord_list c)
        = sorted_wrt (\<lambda>p q. dist i (seq_of s p) < dist i (seq_of s q)) (reord_list c)"
      using assms by (auto intro: sorted_wrt_mono_rel [rotated])
    then show ?thesis using assms by (auto simp: ordered_def)
  qed
  then show ?thesis using assms by (auto simp: ctrl_ok_def window_ok_def)
qed

text \<open>Steps of an operation: a new controller value, and a frame that leaves the hand.\<close>

lemma rx_ok_set_ctrl:
  assumes "rx_ok h s" and "valid_ctrl s i t" and "ctrl_ok s c"
    and "mset (reord_list (ctrl_of s i t)) + h = mset (reord_list c) + h'"
  shows "rx_ok h' (set_ctrl i t c s)"
proof -
  note P = pending_set_ctrl [OF assms(2), of c]
  have "mset (rxframes_freequeue s) + pending (set_ctrl i t c s) + h' + mset (reord_list (ctrl_of s i t))
      = mset (rxframes_freequeue s) + (pending (set_ctrl i t c s) + mset (reord_list (ctrl_of s i t))) + h'"
    by (simp add: ac_simps)
  also have "\<dots> = mset (rxframes_freequeue s) + pending s + (mset (reord_list c) + h')"
    unfolding P by (simp add: ac_simps)
  also have "\<dots> = mset (rxframes_freequeue s) + pending s + h + mset (reord_list (ctrl_of s i t))"
    unfolding assms(4) [symmetric] by (simp add: ac_simps)
  finally have "frames_ok h' (set_ctrl i t c s)"
    using assms(1) by (simp add: frames_ok_def rx_ok_def add.assoc)
  moreover have "ctrls_ok (set_ctrl i t c s)"
  proof -
    have "ctrl_ok (set_ctrl i t c s) x = ctrl_ok s x" for x by (simp add: ctrl_ok_def)
    moreover have "\<forall>r \<in> set (stas_reord_list (set_ctrl i t c s)). length (preorder_ctrl r) = 8"
      using assms(1,2) by (auto simp: rx_ok_def ctrls_ok_def set_ctrl_def Let_def valid_ctrl_def dest!: set_update_subset_insert [THEN subsetD])
    ultimately show ?thesis
      using assms(1,3) by (auto simp: rx_ok_def ctrls_ok_def ctrl_of_set_ctrl [OF assms(2)])
  qed
  ultimately show ?thesis by (simp add: rx_ok_def)
qed

lemma rx_ok_other:
  assumes "rx_ok h s" and "p \<in># h" and "stas_reord_list s' = stas_reord_list s"
    and "length (recv_frames s') = length (recv_frames s)" and "\<And>q. q \<noteq> p \<Longrightarrow> recv_frames s' ! q = recv_frames s ! q"
    and "rxframes_freequeue s' = p # rxframes_freequeue s \<and> h' = h - {#p#} \<or> rxframes_freequeue s' = rxframes_freequeue s \<and> h' = h"
  shows "rx_ok h' s'"
proof -
  have pe: "pending s' = pending s" by (simp add: pending_def assms(3))
  obtain h0 where "h = add_mset p h0" using assms(2) by (metis multi_member_split)
  then have "frames_ok h' s'"
    using assms(1,4,6) pe by (auto simp: rx_ok_def frames_ok_def)
  moreover have "ctrl_ok s' (ctrl_of s i t)" if "valid_ctrl s i t" for i t
  proof -
    have "p \<notin> set (reord_list (ctrl_of s i t))"
      using frames_ok_unique(1) [OF _ that] assms(1,2) by (auto simp: rx_ok_def)
    then have "ctrl_ok s' (ctrl_of s i t) = ctrl_ok s (ctrl_of s i t)"
      by (intro ctrl_ok_cong) (metis assms(5))
    with assms(1) that show ?thesis by (simp add: rx_ok_def ctrls_ok_def)
  qed
  then have "ctrls_ok s'"
    using assms(1,3) by (auto simp: rx_ok_def ctrls_ok_def valid_ctrl_def ctrl_of_def)
  ultimately show ?thesis by (simp add: rx_ok_def)
qed

lemma rx_ok_hand_on:
  assumes "rx_ok h s" and "p \<in># h" and "pkt (recv_frames s ! p) \<noteq> None"
  shows "rx_ok (h - {#p#}) (hand_on amsdu p s)"
  using assms by (intro rx_ok_other [OF assms(1,2)]) (auto simp: hand_on_frames)

lemma drop_frame_sel [simp]:
  "stas_reord_list (drop_frame p s) = stas_reord_list s" "rxframes_freequeue (drop_frame p s) = p # rxframes_freequeue s"
  "length (recv_frames (drop_frame p s)) = length (recv_frames s)" "usb_down (drop_frame p s) = usb_down s"
  "iftype (drop_frame p s) = iftype s" "q \<noteq> p \<Longrightarrow> recv_frames (drop_frame p s) ! q = recv_frames s ! q"
  by (auto simp: drop_frame_def reord_rxframe_free_def upd_frame_def emit_def Let_def split: option.split)

lemma rx_ok_drop_frame: "rx_ok h s \<Longrightarrow> p \<in># h \<Longrightarrow> rx_ok (h - {#p#}) (drop_frame p s)"
  by (erule rx_ok_other) auto

lemma rx_ok_deliver_all:
  assumes "rx_ok (mset ps + h) s" and "distinct ps" and "\<forall>q \<in> set ps. pkt (recv_frames s ! q) \<noteq> None"
  shows "rx_ok h (deliver_all amsdu ps s)"
  using assms
proof (induction ps arbitrary: s)
  case (Cons p ps)
  have "rx_ok (mset (p # ps) + h - {#p#}) (hand_on amsdu p s)"
    using Cons.prems by (intro rx_ok_hand_on) auto
  moreover have "\<forall>q \<in> set ps. pkt (recv_frames (hand_on amsdu p s) ! q) \<noteq> None"
    using Cons.prems(2,3) by (metis distinct.simps(2) list.set_intros(2) pkt_hand_on)
  ultimately show ?case using Cons.IH [of "hand_on amsdu p s"] Cons.prems(2) by simp
qed simp

section \<open>Receiving a frame\<close>

text \<open>The number that is due, with the first frame of a controller setting it.\<close>

definition base :: "reord_ctrl \<Rightarrow> u16 \<Rightarrow> reord_ctrl" where
  "base c sn = (if ind_sn c = 0xFFFF then c\<lparr>ind_sn := sn\<rparr> else c)"

lemma base_upd: "(base c sn)\<lparr>ind_sn := y\<rparr> = c\<lparr>ind_sn := y\<rparr>"
  by (simp add: base_def)

lemma sn_not_FFFF: "uint (sn :: u16) < 4096 \<Longrightarrow> sn \<noteq> 0xFFFF"
  by (auto simp: word_uint_eq_iff)

lemma base_ok:
  assumes "window_ok sq c" and "uint sn < 4096"
  shows "window_ok sq (base c sn)" "ind_sn (base c sn) \<noteq> 0xFFFF" "reord_list (base c sn) = reord_list c"
    "uint (ind_sn (base c sn)) < 4096" "wsize_b (base c sn) = 64"
    "reord_need_check (base c sn) sn = reord_need_check c sn"
proof -
  show w: "window_ok sq (base c sn)" "ind_sn (base c sn) \<noteq> 0xFFFF" "reord_list (base c sn) = reord_list c"
    using assms sn_not_FFFF [OF assms(2)] by (auto simp: base_def window_ok_def)
  then show u: "uint (ind_sn (base c sn)) < 4096" and "wsize_b (base c sn) = 64"
    by (auto simp: window_ok_def)
  have "dist sn sn = 0" by (simp add: dist_def)
  then show "reord_need_check (base c sn) sn = reord_need_check c sn"
    using need_check_first [OF _ assms(2), of c] need_check_spec [of "c\<lparr>ind_sn := sn\<rparr>" sn] assms
    by (auto simp: base_def window_ok_def window_move_def)
qed

text \<open>What a controller becomes, and what it releases, when the frame \<open>p\<close> is accepted.\<close>

definition accepted :: "u64 \<Rightarrow> (nat \<Rightarrow> u16) \<Rightarrow> nat \<Rightarrow> reord_ctrl \<Rightarrow> reord_ctrl" where
  "accepted expires sq p c =
    (let i = ind_sn (base c (sq p)); e = gap i sq p (reord_list c);
         rest = filter (\<lambda>q. e < dist i (sq q)) (with_frame i sq p (reord_list c))
     in c\<lparr>ind_sn := sn_at i e, reord_list := rest,
       reord_timer := (if rest = [] then None else if reord_timer c = None then Some expires else reord_timer c)\<rparr>)"

definition released :: "(nat \<Rightarrow> u16) \<Rightarrow> nat \<Rightarrow> reord_ctrl \<Rightarrow> nat list" where
  "released sq p c =
    (let i = ind_sn (base c (sq p)); e = gap i sq p (reord_list c)
     in filter (\<lambda>q. dist i (sq q) < e) (with_frame i sq p (reord_list c)))"

definition accepts :: "(nat \<Rightarrow> u16) \<Rightarrow> nat \<Rightarrow> reord_ctrl \<Rightarrow> bool" where
  "accepts sq p c \<longleftrightarrow> dist (ind_sn (base c (sq p))) (sq p) < 2048 \<and> (\<forall>q \<in> set (reord_list c). sq q \<noteq> sq p)"

lemma buffer_frame_eq:
  assumes v: "valid_ctrl s i t" and w: "window_ok (seq_of s) (ctrl_of s i t)" and p: "uint (seq_of s p) < 4096"
    and a: "accepts (seq_of s) p (ctrl_of s i t)" and en: "r_enable (ctrl_of s i t)"
  shows "reord_ctrl_frame amsdu expires p i t skb s = Some (0,
    deliver_all amsdu (released (seq_of s) p (ctrl_of s i t))
      (set_ctrl i t (accepted expires (seq_of s) p (ctrl_of s i t)) s))"
proof -
  let ?sq = "seq_of s" and ?c = "ctrl_of s i t"
  let ?b = "base ?c (?sq p)"
  note B = base_ok [OF w p]
  let ?i = "ind_sn ?b" and ?l = "reord_list ?c" and ?c1 = "snd (reord_need_check ?b (?sq p))"
  let ?L = "with_frame ?i ?sq p ?l" and ?e = "gap ?i ?sq p ?l"
  have d: "dist ?i (?sq p) < 2048" "\<forall>q \<in> set ?l. ?sq q \<noteq> ?sq p" using a by (simp_all add: accepts_def)
  note A = accept_spec [OF B(1,2) p d(1), unfolded B(3), OF d(2)]
  define e L where "e = ?e" and "L = ?L"
  define c1 where "c1 = ?c1"
  define buf where "buf \<longleftrightarrow> (\<exists>q \<in> insert p (set ?l). e < dist ?i (?sq q))"
  define c3 where "c3 = c1\<lparr>reord_list := L, ind_sn := sn_at ?i e\<rparr>"
  define c4 where "c4 = (if buf then (if reord_timer c3 = None then c3\<lparr>reord_timer := Some expires\<rparr> else c3) else c3\<lparr>reord_timer := None\<rparr>)"
  note A' = A [folded e_def L_def c1_def, folded buf_def c3_def]
  have chk: "reord_need_check ?c (?sq p) = (0, c1)" using A'(1) B(6) by simp
  obtain x where c1: "c1 = ?c\<lparr>ind_sn := x\<rparr>"
    using need_check_spec [OF B(5,4) p] d(1) unfolding c1_def by (simp add: base_upd)
  let ?s1 = "set_ctrl i t c1 s"
  have at1: "ctrl_of ?s1 i t = c1" and at2: "ctrl_of (set_ctrl i t c4 ?s1) i t = c4"
    using v by (simp_all add: ctrl_of_set_ctrl)
  have l4: "reord_list c4 = L" "ind_sn c4 = sn_at ?i e" by (simp_all add: c4_def c3_def)
  have "buffer_frame amsdu expires p i t ?s1 = (0, ind_all amsdu i t (set_ctrl i t c4 ?s1))"
    using A'(2,3) at1 by (simp add: buffer_frame_def c4_def)
  also have "ind_all amsdu i t (set_ctrl i t c4 ?s1) = deliver_all amsdu (takeWhile (due ?sq (sn_at ?i e)) L)
      (set_ctrl i t (c4\<lparr>reord_list := dropWhile (due ?sq (sn_at ?i e)) L\<rparr>) (set_ctrl i t c4 ?s1))"
    using rxframes_ind_eq [of "set_ctrl i t c4 ?s1" i t L amsdu] v at2 l4 by (simp add: ind_all_def)
  also have "c4\<lparr>reord_list := dropWhile (due ?sq (sn_at ?i e)) L\<rparr> = accepted expires ?sq p ?c"
  proof -
    have r: "filter (\<lambda>q. e < dist ?i (?sq q)) L = [] \<longleftrightarrow> \<not> buf"
      by (auto simp: filter_empty_conv buf_def L_def)
    have "accepted expires ?sq p ?c = ?c\<lparr>ind_sn := sn_at ?i e, reord_list := filter (\<lambda>q. e < dist ?i (?sq q)) L,
        reord_timer := (if \<not> buf then None else if reord_timer ?c = None then Some expires else reord_timer ?c)\<rparr>"
      unfolding accepted_def Let_def e_def [symmetric] L_def [symmetric] r by (rule refl)
    then show ?thesis unfolding A'(5) c4_def c3_def c1 by simp
  qed
  finally show ?thesis
    using chk en A'(4) by (simp add: reord_ctrl_frame_def set_ctrl_twice released_def Let_def flip: e_def L_def)
qed

lemma with_frame_mset: "mset (with_frame i sq p l) = add_mset p (mset l)"
proof -
  have "mset (takeWhile P l) + mset (dropWhile P l) = mset l" for P :: "nat \<Rightarrow> bool"
    by (metis mset_append takeWhile_dropWhile_id)
  then show ?thesis by (simp add: with_frame_def)
qed

lemma sorted_key_distinct: "sorted_wrt (\<lambda>q r. f q < f r) xs \<Longrightarrow> distinct xs" for f :: "'a \<Rightarrow> int"
  by (induction xs) auto

lemma mset_filter_split: "\<forall>x \<in> set xs. P x = (\<not> Q x) \<Longrightarrow> mset (filter P xs) + mset (filter Q xs) = mset xs"
  by (induction xs) auto

text \<open>Moving the window by \<open>e\<close> and dropping what lies behind it.\<close>

lemma window_shift:
  assumes "ordered i sq l" and "0 \<le> e" and "\<forall>q \<in> set l. dist i (sq q) \<le> e + 63"
  shows "ordered (sn_at i e) sq (filter (\<lambda>q. e < dist i (sq q)) l)"
    and "\<forall>q \<in> set (filter (\<lambda>q. e < dist i (sq q)) l). 1 \<le> dist (sn_at i e) (sq q) \<and> dist (sn_at i e) (sq q) \<le> 63"
    and "uint (sn_at i e) < 4096"
proof -
  let ?R = "filter (\<lambda>q. e < dist i (sq q)) l"
  have sh: "dist (sn_at i e) (sq q) = dist i (sq q) - e" if "q \<in> set ?R" for q
    using that assms(2) by (intro dist_shift) auto
  have b: "1 \<le> dist (sn_at i e) (sq q) \<and> dist (sn_at i e) (sq q) \<le> 63" if "q \<in> set ?R" for q
    using sh [OF that] that assms(3) by auto
  then show "\<forall>q \<in> set ?R. 1 \<le> dist (sn_at i e) (sq q) \<and> dist (sn_at i e) (sq q) \<le> 63" by blast
  have "sorted_wrt (\<lambda>q r. dist i (sq q) < dist i (sq r)) ?R"
    using assms(1) by (simp add: ordered_def sorted_wrt_filter)
  then have "sorted_wrt (\<lambda>q r. dist (sn_at i e) (sq q) < dist (sn_at i e) (sq r)) ?R"
    by (rule sorted_wrt_mono_rel [rotated]) (simp add: sh)
  moreover have "\<forall>q \<in> set ?R. uint (sq q) < 4096" using assms(1) by (auto simp: ordered_def)
  moreover have "\<forall>q \<in> set ?R. dist (sn_at i e) (sq q) < 2048" using b by fastforce
  ultimately show "ordered (sn_at i e) sq ?R" by (simp add: ordered_def)
  show "uint (sn_at i e) < 4096" by simp
qed

lemma accepted_spec:
  assumes w: "window_ok sq c" and p: "uint (sq p) < 4096" and a: "accepts sq p c"
  shows "window_ok sq (accepted x sq p c)"
    and "mset (released sq p c) + mset (reord_list (accepted x sq p c)) = add_mset p (mset (reord_list c))"
    and "timer_ok (accepted x sq p c)"
    and "sorted_wrt (\<lambda>q r. dist (ind_sn (base c (sq p))) (sq q) < dist (ind_sn (base c (sq p))) (sq r)) (released sq p c)"
    and "\<forall>q \<in> set (released sq p c). dist (ind_sn (base c (sq p))) (sq q) < gap (ind_sn (base c (sq p))) sq p (reord_list c)"
proof -
  let ?i = "ind_sn (base c (sq p))" and ?l = "reord_list c"
  let ?L = "with_frame ?i sq p ?l" and ?e = "gap ?i sq p ?l"
  note B = base_ok [OF w p]
  have l: "ordered ?i sq ?l" "\<forall>q \<in> set ?l. 1 \<le> dist ?i (sq q) \<and> dist ?i (sq q) \<le> 63" "wsize_b c = 64"
    using B(1-5) w by (auto simp: window_ok_def)
  have d: "dist ?i (sq p) < 2048" "\<forall>q \<in> set ?l. sq q \<noteq> sq p" using a by (simp_all add: accepts_def)
  note G = gap_spec [OF l(1,2) p d]
  have o: "ordered ?i sq ?L" unfolding with_frame_def by (rule ordered_insert [OF l(1) p d])
  let ?R = "filter (\<lambda>q. ?e < dist ?i (sq q)) ?L"
  have e0: "0 \<le> ?e" using G(2) by (simp add: window_move_def split: if_splits) 
  have up: "\<forall>q \<in> set ?L. dist ?i (sq q) \<le> ?e + 63"
    using l(2) G(2) e0 by (auto simp: window_move_def split: if_splits)
  show "window_ok sq (accepted x sq p c)"
    using window_shift [OF o e0 up] l(3) unfolding window_ok_def accepted_def Let_def by simp
  have "\<forall>q \<in> set ?L. (dist ?i (sq q) < ?e) = (\<not> ?e < dist ?i (sq q))" using G(1) by fastforce
  then have "mset (filter (\<lambda>q. dist ?i (sq q) < ?e) ?L) + mset ?R = mset ?L" by (rule mset_filter_split)
  then show "mset (released sq p c) + mset (reord_list (accepted x sq p c)) = add_mset p (mset (reord_list c))"
    by (simp add: released_def accepted_def Let_def with_frame_mset)
  show "timer_ok (accepted x sq p c)" by (simp add: timer_ok_def accepted_def Let_def)
  show "sorted_wrt (\<lambda>q r. dist ?i (sq q) < dist ?i (sq r)) (released sq p c)"
    using o by (simp add: ordered_def sorted_wrt_filter released_def Let_def)
  show "\<forall>q \<in> set (released sq p c). dist ?i (sq q) < ?e" by (simp add: released_def Let_def)
qed

text \<open>A frame that is not accepted leaves the controller as it is and is handed on or dropped.\<close>

lemma refused_spec:
  assumes v: "valid_ctrl s i t" and w: "window_ok (seq_of s) (ctrl_of s i t)" and p: "uint (seq_of s p) < 4096"
    and a: "\<not> accepts (seq_of s) p (ctrl_of s i t)" and en: "r_enable (ctrl_of s i t)"
    and r: "reord_ctrl_frame amsdu expires p i t skb s = Some (ret, s')"
  shows "s' = drop_frame p s \<or> s' = hand_on amsdu p s"
proof -
  let ?sq = "seq_of s" and ?c = "ctrl_of s i t" 
  let ?b = "base ?c (?sq p)"
  note B = base_ok [OF w p]
  let ?d = "dist (ind_sn ?b) (?sq p)"
  have f: "ind_sn ?c \<noteq> 0xFFFF"
  proof
    assume x: "ind_sn ?c = 0xFFFF"
    then have "reord_list ?c = []" using w by (auto simp: window_ok_def)
    with x a show False by (simp add: accepts_def base_def dist_def)
  qed
  then have b: "?b = ?c" by (simp add: base_def)
  note N = need_check_spec [OF B(5,4) p, unfolded b]
  show ?thesis
  proof (cases "2048 \<le> ?d")
    case True
    then have "late_frame amsdu p skb (ind_sn ?c) s = Some (ret, s')"
      using r en N b set_ctrl_same [OF v] by (simp add: reord_ctrl_frame_def)
    then show ?thesis by (auto simp: late_frame_def bind_eq_Some_conv split: if_splits)
  next
    case False
    then obtain q where q: "q \<in> set (reord_list ?c)" "?sq q = ?sq p" using a by (auto simp: accepts_def)
    have o: "ordered (ind_sn ?c) ?sq (reord_list ?c)" "1 \<le> dist (ind_sn ?c) (?sq q)" "dist (ind_sn ?c) (?sq q) \<le> 63"
      using w f q(1) by (auto simp: window_ok_def)
    have "window_move ?d = 0" using o(2,3) q(2) b by (simp add: window_move_def)
    then have c: "reord_need_check ?c (?sq p) = (0, ?c)"
      using N False b sn_at_0 [OF B(4)] by simp
    have "enqueue_at ?sq p (reord_list ?c) = None"
      using enqueue_at_spec [OF o(1) p] False q b by (auto simp del: Bex_def)
    then show ?thesis
      using r en c set_ctrl_same [OF v]
      by (auto simp: reord_ctrl_frame_def buffer_frame_def reord_rxframe_enqueue_def)
  qed
qed

lemma rx_ok_ctrl_frame:
  assumes ok: "rx_ok (add_mset p h) s" and v: "valid_ctrl s i t" and en: "r_enable (ctrl_of s i t)"
    and pk: "pkt (recv_frames s ! p) \<noteq> None" and p: "uint (seq_of s p) < 4096"
    and r: "reord_ctrl_frame amsdu expires p i t skb s = Some (ret, s')"
  shows "rx_ok h s'"
proof -
  let ?c = "ctrl_of s i t" and ?sq = "seq_of s"
  have c: "window_ok ?sq ?c" "\<forall>q \<in> set (reord_list ?c). pkt (recv_frames s ! q) \<noteq> None"
    using ok v by (auto simp: rx_ok_def ctrls_ok_def ctrl_ok_def)
  show ?thesis
  proof (cases "accepts ?sq p ?c")
    case False
    from refused_spec [OF v c(1) p this en r] show ?thesis
      using rx_ok_drop_frame [OF ok, of p] rx_ok_hand_on [OF ok _ pk, of amsdu] by auto
  next
    case True
    note A = accepted_spec(1-3) [OF c(1) p True, of expires] accepted_spec(4) [OF c(1) p True]
    let ?R = "released ?sq p ?c" and ?a = "accepted expires ?sq p ?c"
    have s': "s' = deliver_all amsdu ?R (set_ctrl i t ?a s)"
      using buffer_frame_eq [OF v c(1) p True en] r by simp
    have sub: "set ?R \<union> set (reord_list ?a) = insert p (set (reord_list ?c))"
      using arg_cong [OF A(2), of set_mset] by simp
    have "p \<notin> set (reord_list ?c)" using frames_ok_unique(1) [OF _ v, of "add_mset p h" p] ok by (auto simp: rx_ok_def)
    moreover have "distinct ?R"
      using A(4) by (rule sorted_key_distinct)
    ultimately have d: "distinct ?R" by simp
    have "ctrl_ok s ?a"
      using A(1,3) sub c(2) pk by (auto simp: ctrl_ok_def)
    moreover have "mset (reord_list ?c) + add_mset p h = mset (reord_list ?a) + (mset ?R + h)"
    proof -
      have "mset (reord_list ?c) + add_mset p h = add_mset p (mset (reord_list ?c)) + h" by simp
      then show ?thesis unfolding A(2) [symmetric] by (simp add: ac_simps)
    qed
    ultimately have "rx_ok (mset ?R + h) (set_ctrl i t ?a s)" by (rule rx_ok_set_ctrl [OF ok v])
    then show ?thesis unfolding s' using d sub c(2) pk by (intro rx_ok_deliver_all) auto
  qed
qed

lemma find_sta_bounds: "find_sta mac i rs = Some j \<Longrightarrow> i \<le> j \<and> j < i + length rs"
  by (induction mac i rs rule: find_sta.induct) (auto split: if_splits)

lemma enable_ctrl_ok: "ctrl_ok s c \<Longrightarrow> (\<not> r_enable c \<longrightarrow> reord_list c = []) \<Longrightarrow> ctrl_ok s (enable_ctrl c)"
  by (auto simp: ctrl_ok_def enable_ctrl_def window_ok_def timer_ok_def AICWF_REORDER_WINSIZE_def)

text \<open>A disabled controller holds no frames: \<^verbatim>\<open>reord_flush_tid\<close> empties it when it disables it.\<close>

definition disabled_empty :: "rx_priv \<Rightarrow> bool" where
  "disabled_empty s \<longleftrightarrow> (\<forall>i t. valid_ctrl s i t \<longrightarrow> \<not> r_enable (ctrl_of s i t) \<longrightarrow> reord_list (ctrl_of s i t) = [])"

lemma disabled_empty_set_ctrl:
  "disabled_empty s \<Longrightarrow> valid_ctrl s i t \<Longrightarrow> (\<not> r_enable c \<longrightarrow> reord_list c = []) \<Longrightarrow> disabled_empty (set_ctrl i t c s)"
  by (auto simp: disabled_empty_def ctrl_of_set_ctrl)

lemma disabled_empty_cong: "stas_reord_list s' = stas_reord_list s \<Longrightarrow> disabled_empty s' = disabled_empty s"
  by (simp add: disabled_empty_def valid_ctrl_def ctrl_of_def)

lemma deliver_all_sel [simp]:
  "stas_reord_list (deliver_all amsdu ps s) = stas_reord_list s" "usb_down (deliver_all amsdu ps s) = usb_down s"
  "iftype (deliver_all amsdu ps s) = iftype s" "length (recv_frames (deliver_all amsdu ps s)) = length (recv_frames s)"
  by (induction ps arbitrary: s) simp_all

lemma sta_append:
  assumes "rx_ok h s" and "disabled_empty s" and "length (preorder_ctrl r) = 8"
    and "\<forall>c \<in> set (preorder_ctrl r). c = fresh_ctrl"
  defines "s' \<equiv> s\<lparr>stas_reord_list := stas_reord_list s @ [r]\<rparr>"
  shows "rx_ok h s'" "disabled_empty s'" "t < 8 \<Longrightarrow> valid_ctrl s' (length (stas_reord_list s)) t"
    "t < 8 \<Longrightarrow> ctrl_of s' (length (stas_reord_list s)) t = fresh_ctrl"
proof -
  have f: "t < 8 \<Longrightarrow> preorder_ctrl r ! t = fresh_ctrl" for t using assms(3,4) by simp
  have "preorder_ctrl r = replicate 8 fresh_ctrl" using assms(3,4) by (simp add: replicate_eqI)
  then have "(\<Sum>c \<in># mset (preorder_ctrl r). mset (reord_list c)) = {#}"
    by (simp add: fresh_ctrl_def)
  then have "pending s' = pending s" by (simp add: pending_def s'_def)
  then have "frames_ok h s'" using assms(1) by (simp add: rx_ok_def frames_ok_def s'_def)
  moreover have k: "valid_ctrl s' i t \<Longrightarrow> valid_ctrl s i t \<and> ctrl_of s' i t = ctrl_of s i t \<or> ctrl_of s' i t = fresh_ctrl" for i t
    using f assms(3) by (cases "i < length (stas_reord_list s)")
      (auto simp: valid_ctrl_def ctrl_of_def s'_def nth_append not_less less_Suc_eq)
  moreover have "ctrl_ok s' c = ctrl_ok s c" for c by (simp add: ctrl_ok_def s'_def)
  moreover have "ctrl_ok s fresh_ctrl"
    by (simp add: ctrl_ok_def fresh_ctrl_def window_ok_def timer_ok_def AICWF_REORDER_WINSIZE_def)
  ultimately have "valid_ctrl s' i t \<Longrightarrow> ctrl_ok s' (ctrl_of s' i t)" and "frames_ok h s'" for i t
    using assms(1) unfolding rx_ok_def ctrls_ok_def by metis+
  moreover have "\<forall>x \<in> set (stas_reord_list s'). length (preorder_ctrl x) = 8"
    using assms(1,3) by (auto simp: s'_def rx_ok_def ctrls_ok_def)
  ultimately show "rx_ok h s'" by (simp add: rx_ok_def ctrls_ok_def)
  show "disabled_empty s'" using k assms(2) unfolding disabled_empty_def by (metis fresh_ctrl_def reord_ctrl.select_convs(1))
  show "t < 8 \<Longrightarrow> valid_ctrl s' (length (stas_reord_list s)) t" "t < 8 \<Longrightarrow> ctrl_of s' (length (stas_reord_list s)) t = fresh_ctrl"
    using f assms(3) by (simp_all add: valid_ctrl_def ctrl_of_def s'_def)
qed

section \<open>Every operation keeps the invariant\<close>

definition rx_inv :: "nat multiset \<Rightarrow> rx_priv \<Rightarrow> bool" where
  "rx_inv h s \<longleftrightarrow> rx_ok h s \<and> disabled_empty s"

lemma find_ctrl_ok:
  assumes inv: "rx_inv h s" and t: "t < 8" and f: "find_ctrl mem mac t s = Some (i, s')"
  shows "rx_inv h s'" "valid_ctrl s' i t" "r_enable (ctrl_of s' i t)" "recv_frames s' = recv_frames s"
proof -
  have "rx_inv h s' \<and> valid_ctrl s' i t \<and> r_enable (ctrl_of s' i t) \<and> recv_frames s' = recv_frames s"
  proof (cases "find_sta mac 0 (stas_reord_list s)")
    case None
    then obtain r where "reord_init_sta mem mac s = Some r" and i: "i = length (stas_reord_list s)"
      and s': "s' = s\<lparr>stas_reord_list := stas_reord_list s @ [r]\<rparr>"
      using f by (auto simp: find_ctrl_def split: option.splits)
    then have r: "preorder_ctrl r = replicate 8 fresh_ctrl" by (auto simp: reord_init_sta_def split: if_splits)
    show ?thesis
      using sta_append(1,2) [of h s r] sta_append(3,4) [of h s r t] inv t r unfolding s' i by (simp add: rx_inv_def fresh_ctrl_def)
  next
    case (Some j)
    then have j: "j = i" and s': "s' = set_ctrl i t (enable_ctrl (ctrl_of s i t)) s"
      using f by (auto simp: find_ctrl_def)
    have v: "valid_ctrl s i t"
      using find_sta_bounds [OF Some] inv t j by (auto simp: valid_ctrl_def rx_inv_def rx_ok_def ctrls_ok_def)
    have c: "ctrl_ok s (enable_ctrl (ctrl_of s i t))"
      using inv v by (intro enable_ctrl_ok) (auto simp: rx_inv_def rx_ok_def ctrls_ok_def disabled_empty_def)
    have e: "r_enable (enable_ctrl (ctrl_of s i t))" "reord_list (enable_ctrl (ctrl_of s i t)) = reord_list (ctrl_of s i t)"
      by (simp_all add: enable_ctrl_def)
    have "rx_ok h s'" unfolding s'
      using inv e(2) by (intro rx_ok_set_ctrl [OF _ v c]) (auto simp: rx_inv_def)
    moreover have "disabled_empty s'" unfolding s'
      using inv e(1) by (intro disabled_empty_set_ctrl [OF _ v]) (auto simp: rx_inv_def)
    ultimately show ?thesis using v e(1) by (simp add: rx_inv_def s' ctrl_of_set_ctrl)
  qed
  then show "rx_inv h s'" "valid_ctrl s' i t" "r_enable (ctrl_of s' i t)" "recv_frames s' = recv_frames s" by simp_all
qed

lemma ctrl_frame_disabled:
  assumes "disabled_empty s" and "valid_ctrl s i t" and en: "r_enable (ctrl_of s i t)"
    and w: "window_ok (seq_of s) (ctrl_of s i t)" and p: "uint (seq_of s p) < 4096"
    and r: "reord_ctrl_frame amsdu expires p i t skb s = Some (ret, s')"
  shows "disabled_empty s'"
proof (cases "accepts (seq_of s) p (ctrl_of s i t)")
  case True
  have "r_enable (accepted expires (seq_of s) p (ctrl_of s i t))" using en by (simp add: accepted_def Let_def)
  then have "disabled_empty (set_ctrl i t (accepted expires (seq_of s) p (ctrl_of s i t)) s)"
    using assms(1,2) by (intro disabled_empty_set_ctrl) auto
  then show ?thesis
    using buffer_frame_eq [OF assms(2) w p True en] r disabled_empty_cong [OF deliver_all_sel(1)] by auto
next
  case False
  then show ?thesis
    using refused_spec [OF assms(2) w p False en r] assms(1) disabled_empty_cong [of s' s] by auto
qed

lemma rx_inv_other:
  assumes "rx_inv h s" and "p \<in># h" and "stas_reord_list s' = stas_reord_list s"
    and "length (recv_frames s') = length (recv_frames s)" and "\<And>q. q \<noteq> p \<Longrightarrow> recv_frames s' ! q = recv_frames s ! q"
    and "rxframes_freequeue s' = p # rxframes_freequeue s \<and> h' = h - {#p#} \<or> rxframes_freequeue s' = rxframes_freequeue s \<and> h' = h"
  shows "rx_inv h' s'"
  using rx_ok_other [OF _ assms(2-6)] assms(1) disabled_empty_cong [OF assms(3)] by (simp add: rx_inv_def)

text \<open>
  \<^verbatim>\<open>reord_process_unit\<close> gives the frame back, buffers it, or, in a mode that is neither station nor access
  point, keeps it for ever.
\<close>

lemma process_unit_inv:
  assumes inv: "rx_inv (add_mset p h) s" and sn: "uint sn < 4096" and ty: "iftype s \<noteq> OTHER_IFTYPE"
    and p: "p < length (recv_frames s)"
    and r: "reord_process_unit amsdu expires mem p skb sn tid fwd isam s = Some (ret, s')"
  shows "rx_inv h s'"
proof -
  define s1 where "s1 = upd_frame p (\<lambda>f. f\<lparr>seq_num := sn, f_tid := tid, pkt := Some skb, forward := fwd, is_amsdu := isam\<rparr>) s"
  have f1: "stas_reord_list s1 = stas_reord_list s" "rxframes_freequeue s1 = rxframes_freequeue s" "iftype s1 = iftype s"
    "pkt (recv_frames s1 ! p) \<noteq> None" "seq_of s1 p = sn"
    using p by (simp_all add: s1_def upd_frame_def)
  have inv1: "rx_inv (add_mset p h) s1"
    by (rule rx_inv_other [OF inv, of p]) (auto simp: s1_def upd_frame_def)
  have h: "rx_inv h (hand_on amsdu p s1)"
    using rx_ok_hand_on [of "add_mset p h" s1 p amsdu] inv1 f1(4) disabled_empty_cong [of "hand_on amsdu p s1" s1]
    by (simp add: rx_inv_def)
  obtain mac where m: "sta_mac (iftype s1) skb = Some mac" using ty f1(3) by (cases "iftype s") (auto simp: sta_mac_def)
  from r consider "s' = hand_on amsdu p s1"
    | i s2 where "find_ctrl mem mac (unat tid) s1 = Some (i, s2)" "\<not> 8 \<le> tid"
        "reord_ctrl_frame amsdu expires p i (unat tid) skb s2 = Some (ret, s')"
    unfolding reord_process_unit_def s1_def [symmetric] Let_def
    by (auto simp: bind_eq_Some_conv m split: if_splits option.splits)
  then show ?thesis
  proof cases
    case 2
    have t: "unat tid < 8" using 2(2) by (simp add: word_le_nat_alt not_le)
    note F = find_ctrl_ok [OF inv1 t 2(1)]
    have w: "window_ok (seq_of s2) (ctrl_of s2 i (unat tid))"
      using F(1,2) by (auto simp: rx_inv_def rx_ok_def ctrls_ok_def ctrl_ok_def)
    have "rx_ok h s'" "disabled_empty s'"
      using rx_ok_ctrl_frame [OF _ F(2,3) _ _ 2(3), of h] ctrl_frame_disabled [OF _ F(2,3) w _ 2(3)] F(1,4) f1 sn
      by (auto simp: rx_inv_def)
    then show ?thesis by (simp add: rx_inv_def)
  qed (use h in simp)
qed

text \<open>What a timeout does to a controller that holds frames: the gap in front of the first one is given up.\<close>

definition expired_end :: "(nat \<Rightarrow> u16) \<Rightarrow> reord_ctrl \<Rightarrow> int" where
  "expired_end sq c = (case reord_list c of [] \<Rightarrow> 0
     | q # _ \<Rightarrow> run_end (dist (ind_sn c) (sq q)) (map (\<lambda>q. dist (ind_sn c) (sq q)) (reord_list c)))"

definition expired :: "u64 \<Rightarrow> (nat \<Rightarrow> u16) \<Rightarrow> reord_ctrl \<Rightarrow> reord_ctrl" where
  "expired expires sq c =
    (let e = expired_end sq c; rest = filter (\<lambda>q. e < dist (ind_sn c) (sq q)) (reord_list c)
     in c\<lparr>ind_sn := sn_at (ind_sn c) e, reord_list := rest, work_pending := False,
       reord_timer := (if rest = [] then reord_timer c else Some expires)\<rparr>)"

definition expired_frames :: "(nat \<Rightarrow> u16) \<Rightarrow> reord_ctrl \<Rightarrow> nat list" where
  "expired_frames sq c = filter (\<lambda>q. dist (ind_sn c) (sq q) < expired_end sq c) (reord_list c)"

lemma expired_end_spec:
  assumes "window_ok sq c" and "reord_list c = q # qs"
  shows "expired_end sq c \<notin> (\<lambda>q. dist (ind_sn c) (sq q)) ` set (reord_list c)"
    and "dist (ind_sn c) (sq q) < expired_end sq c" and "expired_end sq c \<le> 64"
    and "\<forall>j. dist (ind_sn c) (sq q) \<le> j \<and> j < expired_end sq c \<longrightarrow> j \<in> (\<lambda>q. dist (ind_sn c) (sq q)) ` set (reord_list c)"
proof -
  let ?D = "\<lambda>q. dist (ind_sn c) (sq q)"
  have o: "ordered (ind_sn c) sq (reord_list c)" "\<forall>q \<in> set (reord_list c). ?D q \<le> 63"
    using assms by (auto simp: window_ok_def)
  have e: "expired_end sq c = run_end (?D q) (map ?D (reord_list c))" by (simp add: expired_end_def assms(2))
  note R = run_end_spec [OF ordered_sorted [OF o(1)], of "?D q"]
  show 1: "expired_end sq c \<notin> ?D ` set (reord_list c)"
    and 4: "\<forall>j. ?D q \<le> j \<and> j < expired_end sq c \<longrightarrow> j \<in> ?D ` set (reord_list c)" using R by (simp_all add: e)
  have "?D q \<le> expired_end sq c" by (simp add: e run_end_ge)
  moreover have "?D q \<in> ?D ` set (reord_list c)" using assms(2) by simp
  ultimately show "?D q < expired_end sq c" using 1 by (metis order_le_less)
  show "expired_end sq c \<le> 64"
  proof (rule ccontr)
    assume "\<not> expired_end sq c \<le> 64"
    moreover have "?D q \<le> 63" using o(2) assms(2) by simp
    ultimately have "64 \<in> ?D ` set (reord_list c)" using 4 [rule_format, of 64] by simp
    with o(2) show False by auto
  qed
qed

lemma worker_eq:
  assumes v: "valid_ctrl s i t" and w: "window_ok (seq_of s) (ctrl_of s i t)" and l: "reord_list (ctrl_of s i t) = q # qs"
  shows "reord_timeout_worker amsdu expires i t s =
    deliver_all amsdu (expired_frames (seq_of s) (ctrl_of s i t)) (set_ctrl i t (expired expires (seq_of s) (ctrl_of s i t)) s)"
proof -
  let ?sq = "seq_of s" and ?c = "ctrl_of s i t"
  let ?i = "ind_sn ?c"
  define L e where "L = reord_list ?c" and "e = expired_end ?sq ?c"
  have o: "ordered ?i ?sq L" "uint (?sq q) < 4096" "dist ?i (?sq q) < 2048"
    using w l by (auto simp: window_ok_def ordered_Cons L_def)
  note E = expired_end_spec [OF w l, folded L_def e_def]
  have e: "0 \<le> e" "e < 2048" using E(2,3) dist_bounds(1) [of ?i "?sq q"] by linarith+
  define buf where "buf \<longleftrightarrow> (\<exists>r \<in> set L. e < dist ?i (?sq r))"
  have k: "?sq q = sn_at ?i (dist ?i (?sq q))" using sn_at_dist [OF o(2)] by simp
  have pr: "process_scan ?sq (?sq q) L = (buf, sn_at ?i e)"
    using process_scan_spec [OF o(1), of "dist ?i (?sq q)"] o(3) l k
    by (simp add: buf_def e_def expired_end_def L_def)
  define c1 where "c1 = ?c\<lparr>work_pending := False, ind_sn := sn_at ?i e\<rparr>"
  define c2 where "c2 = (if buf then c1\<lparr>reord_timer := Some expires\<rparr> else c1)"
  have c2: "reord_list c2 = L" "ind_sn c2 = sn_at ?i e" by (simp_all add: c2_def c1_def L_def)
  have "reord_rxframes_process ?sq True (?c\<lparr>work_pending := False\<rparr>) = (buf, c1)"
    using l pr by (simp add: reord_rxframes_process_def c1_def L_def)
  then have "reord_timeout_worker amsdu expires i t s = ind_all amsdu i t (set_ctrl i t c2 s)"
    by (simp add: reord_timeout_worker_def Let_def c2_def)
  also have "\<dots> = deliver_all amsdu (takeWhile (due ?sq (sn_at ?i e)) L)
      (set_ctrl i t (c2\<lparr>reord_list := dropWhile (due ?sq (sn_at ?i e)) L\<rparr>) s)"
    using rxframes_ind_eq [of "set_ctrl i t c2 s" i t L amsdu] v c2
    by (simp add: ind_all_def ctrl_of_set_ctrl set_ctrl_twice)
  finally have eq: "reord_timeout_worker amsdu expires i t s = deliver_all amsdu (expired_frames ?sq ?c)
      (set_ctrl i t (c2\<lparr>reord_list := filter (\<lambda>r. e < dist ?i (?sq r)) L\<rparr>) s)"
    using due_split [OF o(1) e E(1)] by (simp add: expired_frames_def L_def e_def)
  have "filter (\<lambda>r. e < dist ?i (?sq r)) L = [] \<longleftrightarrow> \<not> buf" by (auto simp: filter_empty_conv buf_def)
  then have "c2\<lparr>reord_list := filter (\<lambda>r. e < dist ?i (?sq r)) L\<rparr> = expired expires ?sq ?c"
    unfolding expired_def Let_def e_def [symmetric] L_def [symmetric] by (simp add: c2_def c1_def)
  with eq show ?thesis by simp
qed

lemma expired_spec:
  assumes w: "window_ok sq c" and l: "reord_list c = q # qs"
  shows "window_ok sq (expired x sq c)" "expired_frames sq c @ reord_list (expired x sq c) = reord_list c"
    "\<exists>R. expired_frames sq c = q # R"
proof -
  note E = expired_end_spec [OF w l]
  have o: "ordered (ind_sn c) sq (reord_list c)" "\<forall>q \<in> set (reord_list c). dist (ind_sn c) (sq q) \<le> 63" "wsize_b c = 64"
    using w l by (auto simp: window_ok_def)
  have e: "0 \<le> expired_end sq c" "expired_end sq c < 2048" using E(2,3) dist_bounds(1) [of "ind_sn c" "sq q"] by linarith+
  have "\<forall>r \<in> set (reord_list c). dist (ind_sn c) (sq r) \<le> expired_end sq c + 63"
    using o(2) e(1) by fastforce
  from window_shift [OF o(1) e(1) this] o(3) show "window_ok sq (expired x sq c)"
    unfolding window_ok_def expired_def Let_def by simp
  show "expired_frames sq c @ reord_list (expired x sq c) = reord_list c"
    using due_split [OF o(1) e E(1)] takeWhile_dropWhile_id [of "due sq (sn_at (ind_sn c) (expired_end sq c))" "reord_list c"]
    by (simp add: expired_frames_def expired_def Let_def)
  show "\<exists>R. expired_frames sq c = q # R" using E(2) l by (simp add: expired_frames_def)
qed

lemma ctrl_list_facts:
  assumes inv: "rx_inv h s" and v: "valid_ctrl s i t"
  shows "distinct (reord_list (ctrl_of s i t))" "\<forall>q \<in> set (reord_list (ctrl_of s i t)). pkt (recv_frames s ! q) \<noteq> None"
proof -
  have c: "ctrl_ok s (ctrl_of s i t)" using assms by (auto simp: rx_inv_def rx_ok_def ctrls_ok_def)
  then show "\<forall>q \<in> set (reord_list (ctrl_of s i t)). pkt (recv_frames s ! q) \<noteq> None" by (simp add: ctrl_ok_def)
  show "distinct (reord_list (ctrl_of s i t))"
    using c by (auto simp: ctrl_ok_def window_ok_def ordered_def intro: sorted_key_distinct)
qed

lemma worker_inv:
  assumes inv: "rx_inv h s" and v: "valid_ctrl s i t"
  shows "rx_inv h (reord_timeout_worker amsdu expires i t s)"
proof (cases "reord_list (ctrl_of s i t)")
  case Nil
  let ?c = "(ctrl_of s i t)\<lparr>work_pending := False\<rparr>"
  have c: "ctrl_ok s ?c" using inv v Nil by (auto simp: rx_inv_def rx_ok_def ctrls_ok_def ctrl_ok_def window_ok_def timer_ok_def)
  have "reord_timeout_worker amsdu expires i t s = set_ctrl i t ?c s"
    using Nil v by (simp add: reord_timeout_worker_def reord_rxframes_process_def ind_all_def ctrl_of_set_ctrl)
  moreover have "rx_ok h (set_ctrl i t ?c s)"
    using inv by (intro rx_ok_set_ctrl [OF _ v c]) (simp_all add: rx_inv_def)
  moreover have "disabled_empty (set_ctrl i t ?c s)"
    using inv v Nil by (intro disabled_empty_set_ctrl) (simp_all add: rx_inv_def)
  ultimately show ?thesis by (simp add: rx_inv_def)
next
  case (Cons q qs)
  let ?sq = "seq_of s" and ?c = "ctrl_of s i t"
  have c: "window_ok ?sq ?c" "\<forall>q \<in> set (reord_list ?c). pkt (recv_frames s ! q) \<noteq> None"
    using inv v by (auto simp: rx_inv_def rx_ok_def ctrls_ok_def ctrl_ok_def)
  note E = expired_spec [OF c(1) Cons]
  let ?x = "expired expires ?sq ?c" and ?R = "expired_frames ?sq ?c"
  have "window_ok ?sq ?x" by (rule E(1))
  then have x: "ctrl_ok s ?x" using c(2) by (auto simp: ctrl_ok_def expired_def Let_def timer_ok_def)
  have m: "mset (reord_list ?c) + h = mset (reord_list ?x) + (mset ?R + h)"
    using arg_cong [OF E(2), of mset] by (simp add: ac_simps)
  have "rx_ok (mset ?R + h) (set_ctrl i t ?x s)"
    using inv m by (intro rx_ok_set_ctrl [OF _ v x]) (simp_all add: rx_inv_def)
  moreover have "distinct ?R"
    using ctrl_list_facts(1) [OF inv v] by (simp add: expired_frames_def)
  ultimately have "rx_ok h (deliver_all amsdu ?R (set_ctrl i t ?x s))"
    using c(2) by (intro rx_ok_deliver_all) (auto simp: expired_frames_def)
  moreover have "disabled_empty (set_ctrl i t ?x s)"
  proof (rule disabled_empty_set_ctrl [OF _ v])
    have "r_enable ?c" using inv v Cons by (metis disabled_empty_def list.distinct(1) rx_inv_def)
    then show "\<not> r_enable ?x \<longrightarrow> reord_list ?x = []" by (simp add: expired_def Let_def)
  qed (use inv in \<open>simp add: rx_inv_def\<close>)
  ultimately show ?thesis
    using worker_eq [OF v c(1) Cons] disabled_empty_cong [OF deliver_all_sel(1)] by (simp add: rx_inv_def)
qed

lemma handler_inv:
  assumes inv: "rx_inv h s" and v: "valid_ctrl s i t" and "\<not> usb_down s"
  shows "rx_inv h (reord_timeout_handler i t s)"
proof -
  let ?c = "(ctrl_of s i t)\<lparr>reord_timer := None, work_pending := True\<rparr>"
  have "ctrl_ok s ?c" using inv v by (auto simp: rx_inv_def rx_ok_def ctrls_ok_def ctrl_ok_def window_ok_def timer_ok_def)
  then have "rx_ok h (set_ctrl i t ?c s)"
    using inv by (intro rx_ok_set_ctrl [OF _ v]) (simp_all add: rx_inv_def)
  moreover have "disabled_empty (set_ctrl i t ?c s)"
    using inv v by (intro disabled_empty_set_ctrl) (auto simp: rx_inv_def disabled_empty_def)
  ultimately show ?thesis using assms(3) by (simp add: reord_timeout_handler_def Let_def rx_inv_def)
qed

lemma flush_list_eq: "flush_list amsdu ps s = deliver_all amsdu ps s"
  by (induction ps arbitrary: s) simp_all

lemma deliver_all_set_ctrl: "deliver_all amsdu ps (set_ctrl i t c s) = set_ctrl i t c (deliver_all amsdu ps s)"
  by (induction ps arbitrary: s) (simp_all add: hand_on_set_ctrl)

definition empty_ctrl :: "reord_ctrl \<Rightarrow> reord_ctrl" where
  "empty_ctrl c = c\<lparr>reord_list := [], r_enable := False, reord_timer := None, work_pending := False\<rparr>"

lemma emptied_inv:
  assumes inv: "rx_inv h s" and v: "valid_ctrl s i t" and c: "reord_list c = []" "ind_sn c = ind_sn (ctrl_of s i t)"
    "wsize_b c = wsize_b (ctrl_of s i t)"
  shows "rx_ok (mset (reord_list (ctrl_of s i t)) + h) (set_ctrl i t c s)" "disabled_empty (set_ctrl i t c s)"
proof -
  have w: "window_ok (seq_of s) (ctrl_of s i t)" using inv v by (auto simp: rx_inv_def rx_ok_def ctrls_ok_def ctrl_ok_def)
  have "ctrl_ok s c" using w c by (auto simp: ctrl_ok_def window_ok_def timer_ok_def)
  then show "rx_ok (mset (reord_list (ctrl_of s i t)) + h) (set_ctrl i t c s)"
    using inv c(1) by (intro rx_ok_set_ctrl [OF _ v]) (simp_all add: rx_inv_def)
  show "disabled_empty (set_ctrl i t c s)"
    using inv v c(1) by (intro disabled_empty_set_ctrl) (simp_all add: rx_inv_def)
qed

lemma flush_eq:
  assumes "find_sta mac 0 (stas_reord_list s) = Some i" and "sta_mac (iftype s) skb = Some mac" and "r_enable (ctrl_of s i t)"
  shows "reord_flush_tid amsdu skb t s =
    (0, deliver_all amsdu (reord_list (ctrl_of s i t)) (set_ctrl i t (empty_ctrl (ctrl_of s i t)) s))"
  using assms by (simp add: reord_flush_tid_def Let_def flush_list_eq empty_ctrl_def deliver_all_set_ctrl ctrl_of_def)

lemma flush_inv:
  assumes inv: "rx_inv h s" and t: "t < 8" and ty: "iftype s \<noteq> OTHER_IFTYPE"
  shows "rx_inv h (snd (reord_flush_tid amsdu skb t s))"
proof -
  obtain mac where m: "sta_mac (iftype s) skb = Some mac" using ty by (cases "iftype s") (auto simp: sta_mac_def)
  show ?thesis
  proof (cases "\<exists>i. find_sta mac 0 (stas_reord_list s) = Some i \<and> r_enable (ctrl_of s i t)")
    case False
    then have "snd (reord_flush_tid amsdu skb t s) = s" using m by (auto simp: reord_flush_tid_def split: option.split)
    with inv show ?thesis by simp
  next
    case True
    then obtain i where f: "find_sta mac 0 (stas_reord_list s) = Some i" and e: "r_enable (ctrl_of s i t)" by blast
    have v: "valid_ctrl s i t"
      using find_sta_bounds [OF f] inv t by (auto simp: valid_ctrl_def rx_inv_def rx_ok_def ctrls_ok_def)
    let ?c = "empty_ctrl (ctrl_of s i t)" and ?l = "reord_list (ctrl_of s i t)"
    have "rx_ok (mset ?l + h) (set_ctrl i t ?c s)" "disabled_empty (set_ctrl i t ?c s)"
      using emptied_inv [OF inv v, of ?c] by (simp_all add: empty_ctrl_def)
    moreover note ctrl_list_facts [OF inv v]
    ultimately have "rx_ok h (deliver_all amsdu ?l (set_ctrl i t ?c s))"
      and "disabled_empty (deliver_all amsdu ?l (set_ctrl i t ?c s))"
      by (auto intro: rx_ok_deliver_all simp: disabled_empty_cong [OF deliver_all_sel(1)])
    then show ?thesis using flush_eq [OF f m e] by (simp add: rx_inv_def)
  qed
qed

lemma drop_list_sel [simp]:
  "stas_reord_list (drop_list ps s) = stas_reord_list s" "iftype (drop_list ps s) = iftype s" "usb_down (drop_list ps s) = usb_down s"
  by (induction ps arbitrary: s) simp_all

lemma rx_ok_drop_list: "rx_ok (mset ps + h) s \<Longrightarrow> rx_ok h (drop_list ps s)"
proof (induction ps arbitrary: s)
  case (Cons p ps)
  have "rx_ok (mset ps + h) (drop_frame p s)" using rx_ok_drop_frame [OF Cons.prems, of p] by simp
  with Cons.IH show ?case by simp
qed simp

lemma deinit_ctrl_inv:
  assumes inv: "rx_inv h s" and v: "valid_ctrl s i t"
  shows "rx_inv h (deinit_ctrl i s t)" "valid_ctrl (deinit_ctrl i s t) j u = valid_ctrl s j u"
    "reord_list (ctrl_of (deinit_ctrl i s t) i u) = (if u = t then [] else reord_list (ctrl_of s i u))"
    "length (stas_reord_list (deinit_ctrl i s t)) = length (stas_reord_list s)"
proof -
  define c where "c = (if r_enable (ctrl_of s i t)
    then (ctrl_of s i t)\<lparr>r_enable := False, reord_timer := None, work_pending := False\<rparr> else ctrl_of s i t)\<lparr>reord_list := []\<rparr>"
  have eq: "deinit_ctrl i s t = drop_list (reord_list (ctrl_of s i t)) (set_ctrl i t c s)"
    by (simp add: deinit_ctrl_def Let_def c_def)
  have c: "reord_list c = []" "ind_sn c = ind_sn (ctrl_of s i t)" "wsize_b c = wsize_b (ctrl_of s i t)" by (simp_all add: c_def)
  note E = emptied_inv [OF inv v c]
  show "rx_inv h (deinit_ctrl i s t)"
    using rx_ok_drop_list [OF E(1)] E(2) disabled_empty_cong [OF drop_list_sel(1)] by (simp add: eq rx_inv_def)
  have st: "stas_reord_list (deinit_ctrl i s t) = stas_reord_list (set_ctrl i t c s)" by (simp add: eq)
  then show "valid_ctrl (deinit_ctrl i s t) j u = valid_ctrl s j u"
    by (metis valid_ctrl_def valid_set_ctrl)
  show "length (stas_reord_list (deinit_ctrl i s t)) = length (stas_reord_list s)" using st by simp
  have "ctrl_of (deinit_ctrl i s t) i u = ctrl_of (set_ctrl i t c s) i u" using st by (simp add: ctrl_of_def)
  then show "reord_list (ctrl_of (deinit_ctrl i s t) i u) = (if u = t then [] else reord_list (ctrl_of s i u))"
    using c(1) by (simp add: ctrl_of_set_ctrl [OF v])
qed

lemma deinit_loop:
  assumes "rx_inv h s" and "i < length (stas_reord_list s)" and "\<forall>t \<in> set ts. t < 8"
  shows "rx_inv h (foldl (deinit_ctrl i) s ts) \<and> length (stas_reord_list (foldl (deinit_ctrl i) s ts)) = length (stas_reord_list s)
    \<and> (\<forall>u \<in> set ts. reord_list (ctrl_of (foldl (deinit_ctrl i) s ts) i u) = [])
    \<and> (\<forall>u. reord_list (ctrl_of s i u) = [] \<longrightarrow> reord_list (ctrl_of (foldl (deinit_ctrl i) s ts) i u) = [])"
  using assms
proof (induction ts arbitrary: s)
  case (Cons t ts)
  have v: "valid_ctrl s i t" using Cons.prems by (auto simp: valid_ctrl_def rx_inv_def rx_ok_def ctrls_ok_def)
  note D1 = deinit_ctrl_inv(1,4) [OF Cons.prems(1) v] and D3 = deinit_ctrl_inv(3) [OF Cons.prems(1) v]
  have "rx_inv h (deinit_ctrl i s t)" "i < length (stas_reord_list (deinit_ctrl i s t))" "\<forall>t \<in> set ts. t < 8"
    using D1 Cons.prems(2,3) by auto
  from Cons.IH [OF this] show ?case using D3 D1(2) by auto
qed simp

end
