(* ===== verification/Rx_Props.thy ===== *)
theory Rx_Props
  imports Rx_Run
begin

text \<open>
  Runs of the reorder buffer and the properties of the receive path: frames are released in sequence order, none is
  lost, and none is left without a timer.
\<close>

section \<open>Removing a station\<close>

lemma deinit_inv:
  assumes inv: "rx_inv h s" and i: "i < length (stas_reord_list s)"
  shows "rx_inv h (reord_deinit_sta i s)"
proof -
  define s1 where "s1 = foldl (deinit_ctrl i) s [0..<8]"
  define s2 where "s2 = s1\<lparr>stas_reord_list := take i (stas_reord_list s1) @ drop (Suc i) (stas_reord_list s1)\<rparr>"
  have D: "rx_inv h s1" "length (stas_reord_list s1) = length (stas_reord_list s)" "\<forall>u < 8. reord_list (ctrl_of s1 i u) = []"
    using deinit_loop [OF inv i, of "[0..<8]"] by (auto simp: s1_def)
  have i1: "i < length (stas_reord_list s1)" using i D(2) by simp
  have c8: "length (preorder_ctrl (stas_reord_list s1 ! i)) = 8" using D(1) i1 by (simp add: rx_inv_def rx_ok_def ctrls_ok_def)
  have "(\<Sum>c \<in># mset (preorder_ctrl (stas_reord_list s1 ! i)). mset (reord_list c)) = {#}"
    using D(3) c8 by (auto simp: sum_mset_0_iff ctrl_of_def in_set_conv_nth)
  moreover have "stas_reord_list s1 = take i (stas_reord_list s1) @ stas_reord_list s1 ! i # drop (Suc i) (stas_reord_list s1)"
    using i1 by (rule id_take_nth_drop)
  then have "mset (stas_reord_list s1) = add_mset (stas_reord_list s1 ! i) (mset (stas_reord_list s2))"
    unfolding s2_def by (metis (no_types, lifting) mset.simps(2) mset_append rx_priv.select_convs(3) rx_priv.surjective rx_priv.update_convs(3) union_mset_add_mset_right)
  ultimately have "pending s1 = pending s2" by (simp add: pending_def)
  then have "frames_ok h s2" using D(1) by (simp add: rx_inv_def rx_ok_def frames_ok_def s2_def)
  moreover have sub: "\<exists>j'. valid_ctrl s1 j' t \<and> ctrl_of s1 j' t = ctrl_of s2 j t" if "valid_ctrl s2 j t" for j t
  proof -
    let ?j = "if j < i then j else Suc j"
    have "stas_reord_list s2 ! j = stas_reord_list s1 ! ?j" "?j < length (stas_reord_list s1)"
      using that i1 by (auto simp: s2_def valid_ctrl_def nth_append min_def)
    with that have "valid_ctrl s1 ?j t \<and> ctrl_of s1 ?j t = ctrl_of s2 j t" by (simp add: valid_ctrl_def ctrl_of_def)
    then show ?thesis by blast
  qed
  have "ctrl_ok s2 c = ctrl_ok s1 c" for c by (simp add: ctrl_ok_def s2_def)
  then have "valid_ctrl s2 j t \<Longrightarrow> ctrl_ok s2 (ctrl_of s2 j t)" for j t
    using sub [of j t] D(1) unfolding rx_inv_def rx_ok_def ctrls_ok_def by metis
  moreover have "\<forall>r \<in> set (stas_reord_list s2). length (preorder_ctrl r) = 8"
    using D(1) by (auto simp: s2_def rx_inv_def rx_ok_def ctrls_ok_def dest: in_set_takeD in_set_dropD)
  moreover have "disabled_empty s2" using sub D(1) unfolding disabled_empty_def rx_inv_def by metis
  ultimately have "rx_inv h s2" by (simp add: rx_inv_def rx_ok_def ctrls_ok_def)
  then show ?thesis by (simp add: reord_deinit_sta_def s1_def s2_def Let_def)
qed

section \<open>Runs\<close>

text \<open>
  Steps of the receive path while the bus is up: a frame is taken from the pool and received, a reorder timer expires, its work
  runs, a traffic identifier is flushed, a station is removed.  Sequence numbers have 12 bits.
\<close>

inductive rx_step :: "rx_priv \<Rightarrow> rx_priv \<Rightarrow> bool" where
  receive: "reord_rxframe_alloc s = (Some p, s1) \<Longrightarrow> uint sn < 4096 \<Longrightarrow>
    s2 = upd_frame p (\<lambda>f. f\<lparr>is_ap_reord := ap, ap_fwd_cnt := fc, ap_resend_cnt := rc, fwd_skbs := fs, resend_skbs := rs\<rparr>) s1 \<Longrightarrow>
    reord_process_unit amsdu expires mem p skb sn tid fwd isam s2 = Some (ret, s') \<Longrightarrow> rx_step s s'"
| expire: "valid_ctrl s i t \<Longrightarrow> reord_timer (ctrl_of s i t) \<noteq> None \<Longrightarrow> rx_step s (reord_timeout_handler i t s)"
| work: "valid_ctrl s i t \<Longrightarrow> work_pending (ctrl_of s i t) \<Longrightarrow> rx_step s (reord_timeout_worker amsdu expires i t s)"
| flush: "t < 8 \<Longrightarrow> rx_step s (snd (reord_flush_tid amsdu skb t s))"
| deinit: "i < length (stas_reord_list s) \<Longrightarrow> rx_step s (reord_deinit_sta i s)"

definition rx_start :: "iftype \<Rightarrow> rx_priv" where
  "rx_start ty = \<lparr>recv_frames = replicate MAX_REORD_RXFRAME \<lparr>pkt = None, f_tid = 0, forward = False, seq_num = 0, is_amsdu = False,
       is_ap_reord = False, ap_fwd_cnt = 0, ap_resend_cnt = 0, fwd_skbs = [], resend_skbs = []\<rparr>,
     rxframes_freequeue = [0..<MAX_REORD_RXFRAME], stas_reord_list = [], iftype = ty, bus_down = False, usb_down = False,
     rx_packets = 0, rx_bytes = 0, events = []\<rparr>"

definition rx_good :: "rx_priv \<Rightarrow> bool" where
  "rx_good s \<longleftrightarrow> rx_inv {#} s \<and> iftype s \<noteq> OTHER_IFTYPE \<and> \<not> usb_down s \<and> length (recv_frames s) = MAX_REORD_RXFRAME"

lemma alloc_inv:
  assumes "rx_inv {#} s" and "reord_rxframe_alloc s = (Some p, s1)"
  shows "rx_inv {#p#} s1" "p < length (recv_frames s1)"
proof -
  obtain ps where f: "rxframes_freequeue s = p # ps" and s1: "s1 = s\<lparr>rxframes_freequeue := ps\<rparr>"
    using assms(2) by (auto simp: reord_rxframe_alloc_def split: list.splits)
  have "pending s1 = pending s" by (simp add: pending_def s1)
  then have fo: "frames_ok {#p#} s1" using assms(1) f by (simp add: rx_inv_def rx_ok_def frames_ok_def s1)
  have "ctrl_ok s1 c = ctrl_ok s c" for c by (simp add: ctrl_ok_def s1)
  then have "ctrls_ok s1" using assms(1) by (auto simp: rx_inv_def rx_ok_def ctrls_ok_def valid_ctrl_def ctrl_of_def s1)
  moreover have "disabled_empty s1" using assms(1) by (simp add: rx_inv_def disabled_empty_def valid_ctrl_def ctrl_of_def s1)
  ultimately show "rx_inv {#p#} s1" using fo by (simp add: rx_inv_def rx_ok_def)
  have "p \<in># mset [0..<length (recv_frames s1)]" using fo unfolding frames_ok_def by (metis union_single_eq_member add_mset_add_single union_commute)
  then show "p < length (recv_frames s1)" by simp
qed

definition keeps :: "rx_priv \<Rightarrow> rx_priv \<Rightarrow> bool" where
  "keeps s s' \<longleftrightarrow> iftype s' = iftype s \<and> usb_down s' = usb_down s \<and> length (recv_frames s') = length (recv_frames s)"

lemma keeps_simps [simp]:
  "keeps s s" "keeps s (set_ctrl i t c s') = keeps s s'" "keeps s (hand_on amsdu p s') = keeps s s'"
  "keeps s (drop_frame p s') = keeps s s'" "keeps s (upd_frame p f s') = keeps s s'" "keeps s (emit es s') = keeps s s'"
  "keeps s (drop_list ps s') = keeps s s'" "keeps s (deliver_all amsdu ps s') = keeps s s'"
  "keeps s (s'\<lparr>stas_reord_list := x\<rparr>) = keeps s s'" "keeps s (s'\<lparr>rxframes_freequeue := y\<rparr>) = keeps s s'"
proof -
  have "length (recv_frames (drop_list ps s')) = length (recv_frames s')" by (induction ps arbitrary: s') simp_all
  then show "keeps s (drop_list ps s') = keeps s s'" by (simp add: keeps_def)
qed (simp_all add: keeps_def upd_frame_def emit_def)

lemma keeps_ind: "keeps s (reord_rxframes_ind amsdu i t l s') = keeps s s'"
  by (induction amsdu i t l s' rule: reord_rxframes_ind.induct) simp_all

lemma keeps_ctrl_frame: "reord_ctrl_frame amsdu x p i t skb s = Some (ret, s') \<Longrightarrow> keeps s s'"
  by (auto simp: reord_ctrl_frame_def Let_def late_frame_def bind_eq_Some_conv buffer_frame_def ind_all_def keeps_ind
      split: if_splits prod.splits)

lemma keeps_find_ctrl: "find_ctrl mem mac t s = Some (i, s') \<Longrightarrow> keeps s s'"
  by (auto simp: find_ctrl_def split: option.splits)

lemma keeps_trans: "keeps s s' \<Longrightarrow> keeps s' s'' \<Longrightarrow> keeps s s''"
  by (simp add: keeps_def)

lemma keeps_process_unit:
  assumes "reord_process_unit amsdu x mem p skb sn tid fwd isam s = Some (ret, s')"
  shows "keeps s s'"
proof -
  define s1 where "s1 = upd_frame p (\<lambda>f. f\<lparr>seq_num := sn, f_tid := tid, pkt := Some skb, forward := fwd, is_amsdu := isam\<rparr>) s"
  have k: "keeps s s1" by (simp add: s1_def)
  from assms consider "s' = hand_on amsdu p s1" | "s' = emit [KfreeSkb (skb_id skb)] s1"
    | mac i s2 where "find_ctrl mem mac (unat tid) s1 = Some (i, s2)" "reord_ctrl_frame amsdu x p i (unat tid) skb s2 = Some (ret, s')"
    unfolding reord_process_unit_def s1_def [symmetric] Let_def
    by (auto simp: bind_eq_Some_conv split: if_splits option.splits)
  then show ?thesis using k by cases (auto dest!: keeps_find_ctrl keeps_ctrl_frame intro: keeps_trans)
qed

lemma keeps_deinit: "keeps s (foldl (deinit_ctrl i) s' ts) = keeps s s'"
  by (induction ts arbitrary: s') (simp_all add: deinit_ctrl_def Let_def)

lemma keeps_step: "rx_step s s' \<Longrightarrow> keeps s s'"
proof (induction rule: rx_step.induct)
  case (receive s p s1 sn s2 ap fc rc fs rs amsdu expires mem skb tid fwd isam ret s')
  have "keeps s s2" using receive(1,3) by (auto simp: reord_rxframe_alloc_def split: list.splits)
  then show ?case using keeps_process_unit [OF receive(4)] by (rule keeps_trans)
next
  case (flush t s amsdu skb)
  show ?case by (simp add: reord_flush_tid_def Let_def flush_list_eq split: option.split)
qed (simp_all add: reord_timeout_handler_def reord_timeout_worker_def ind_all_def keeps_ind reord_deinit_sta_def keeps_deinit Let_def
    split: prod.split)

lemma step_good:
  assumes "rx_good s" and "rx_step s s'"
  shows "rx_good s'"
proof -
  have g: "rx_inv {#} s" "iftype s \<noteq> OTHER_IFTYPE" "\<not> usb_down s" using assms(1) by (simp_all add: rx_good_def)
  from assms(2) have "rx_inv {#} s'"
  proof cases
    case (receive p s1 sn s2 ap fc rc fs rs amsdu expires mem skb tid fwd isam ret)
    note A = alloc_inv [OF g(1) receive(1)]
    have "rx_inv {#p#} s2"
      by (rule rx_inv_other [OF A(1), of p]) (auto simp: receive(3) upd_frame_def)
    moreover have "iftype s2 \<noteq> OTHER_IFTYPE" "p < length (recv_frames s2)"
      using g(2) A(2) receive(1,3) by (auto simp: reord_rxframe_alloc_def upd_frame_def split: list.splits)
    ultimately show ?thesis using process_unit_inv [OF _ receive(2) _ _ receive(4), of "{#}"] by simp
  qed (use g in \<open>auto intro: handler_inv worker_inv flush_inv deinit_inv\<close>)
  then show ?thesis using keeps_step [OF assms(2)] assms(1) by (auto simp: rx_good_def keeps_def)
qed

interpretation rx: step_system "\<lambda>s. \<exists>ty. ty \<noteq> OTHER_IFTYPE \<and> s = rx_start ty" rx_step rx_good
proof
  fix s assume "\<exists>ty. ty \<noteq> OTHER_IFTYPE \<and> s = rx_start ty"
  then show "rx_good s"
    by (auto simp: rx_good_def rx_inv_def rx_ok_def frames_ok_def ctrls_ok_def disabled_empty_def valid_ctrl_def rx_start_def pending_def)
qed (rule step_good)

section \<open>Properties\<close>

lemma window_ok_sorted:
  "window_ok sq c \<Longrightarrow> sorted_wrt (\<lambda>p q. dist (ind_sn c) (sq p) < dist (ind_sn c) (sq q)) (reord_list c)
     \<and> (\<forall>q \<in> set (reord_list c). 1 \<le> dist (ind_sn c) (sq q) \<and> dist (ind_sn c) (sq q) \<le> 63)"
  by (auto simp: window_ok_def ordered_def)

text \<open>Frames of 60 bytes from one station, and a run that buffers the frame 7 behind the missing 6.\<close>

definition demo_skb :: "nat \<Rightarrow> sk_buff" where
  "demo_skb n = \<lparr>skb_id = n, skb_len = 60, skb_mem = [2, 0, 0, 0, 0, 1, 4, 0, 0, 0, 0, 9, 8, 0] @ replicate 46 1\<rparr>"

definition demo_recv :: "nat \<Rightarrow> u16 \<Rightarrow> rx_priv \<Rightarrow> rx_priv" where
  "demo_recv n sn s = (case reord_rxframe_alloc s of (None, _) \<Rightarrow> s
     | (Some p, s1) \<Rightarrow> (case reord_process_unit (\<lambda>b. [b]) 99 True p (demo_skb n) sn 0 True False
           (upd_frame p (\<lambda>f. f\<lparr>is_ap_reord := False, ap_fwd_cnt := 0, ap_resend_cnt := 0, fwd_skbs := [], resend_skbs := []\<rparr>) s1)
         of None \<Rightarrow> s | Some (_, s') \<Rightarrow> s'))"

definition rx_demo :: rx_priv where
  "rx_demo = demo_recv 2 7 (demo_recv 1 5 (rx_start STATION))"

lemma demo_recv_steps: "uint sn < 4096 \<Longrightarrow> rx_step\<^sup>*\<^sup>* s (demo_recv n sn s)"
  by (auto simp: demo_recv_def split: prod.splits option.splits intro!: r_into_rtranclp intro: rx_step.receive)

lemma rx_demo_reachable: "rx_step\<^sup>*\<^sup>* (rx_start STATION) rx_demo"
  unfolding rx_demo_def by (rule rtranclp_trans [OF demo_recv_steps demo_recv_steps]) simp_all

lemma rx_demo_values:
  "case stas_reord_list rx_demo of [r] \<Rightarrow> (case preorder_ctrl r of c # cs \<Rightarrow> length cs = 7 \<and> ind_sn c = 6 \<and> reord_list c = [0]
     \<and> reord_timer c = Some 99 \<and> r_enable c | [] \<Rightarrow> False) | _ \<Rightarrow> False"
  "case recv_frames rx_demo of f # _ \<Rightarrow> seq_num f = 7 | [] \<Rightarrow> False"
  by code_simp+

lemma rx_demo_ctrl:
  "valid_ctrl rx_demo 0 0" "ind_sn (ctrl_of rx_demo 0 0) = 6" "reord_list (ctrl_of rx_demo 0 0) = [0]"
  "r_enable (ctrl_of rx_demo 0 0)" "seq_of rx_demo 0 = 7"
  using rx_demo_values by (auto simp: valid_ctrl_def ctrl_of_def split: list.splits)

text \<open>
  C16: in every state the receive path can reach, with any interleaving of arrivals, timeouts, flushes and removals, the
  frames a controller buffers are strictly ascending in sequence order and lie 1 to 63 numbers ahead of the number that is due,
  and the frames of the pool are, each exactly once, free or buffered in one controller.
\<close>

theorem reorder_window_invariant:
  assumes "ty \<noteq> OTHER_IFTYPE" and "rx_step\<^sup>*\<^sup>* (rx_start ty) s"
  shows "mset (rxframes_freequeue s) + pending s = mset [0..<250]
    \<and> (\<forall>i t. valid_ctrl s i t \<longrightarrow>
         (let c = ctrl_of s i t in
          sorted_wrt (\<lambda>p q. dist (ind_sn c) (seq_of s p) < dist (ind_sn c) (seq_of s q)) (reord_list c)
          \<and> (\<forall>q \<in> set (reord_list c). 1 \<le> dist (ind_sn c) (seq_of s q) \<and> dist (ind_sn c) (seq_of s q) \<le> 63)))"
proof -
  have g: "rx_good s" using rx.inv_reachable [OF _ assms(2)] assms(1) by blast
  then have "window_ok (seq_of s) (ctrl_of s i t)" if "valid_ctrl s i t" for i t
    using that by (auto simp: rx_good_def rx_inv_def rx_ok_def ctrls_ok_def ctrl_ok_def)
  moreover have "mset (rxframes_freequeue s) + pending s = mset [0..<250]"
    using g by (simp add: rx_good_def rx_inv_def rx_ok_def frames_ok_def MAX_REORD_RXFRAME_def)
  ultimately show ?thesis unfolding Let_def by (blast dest: window_ok_sorted)
qed

theorem reorder_window_invariant_witness:
  "reord_list (ctrl_of rx_demo 0 0) = [0] \<and> 1 \<le> dist 6 (seq_of rx_demo 0) \<and> dist 6 (seq_of rx_demo 0) \<le> 63
   \<and> mset (rxframes_freequeue rx_demo) + pending rx_demo = mset [0..<250]"
  using reorder_window_invariant [OF _ rx_demo_reachable] rx_demo_ctrl by (auto simp: Let_def dest!: spec [of _ 0])

text \<open>
  C17: no buffered frame is forgotten.  In every reachable state a controller that holds frames has its timer running or its
  timeout work scheduled.
\<close>

theorem buffered_frames_have_timer:
  assumes "ty \<noteq> OTHER_IFTYPE" and "rx_step\<^sup>*\<^sup>* (rx_start ty) s" and "valid_ctrl s i t" and "reord_list (ctrl_of s i t) \<noteq> []"
  shows "reord_timer (ctrl_of s i t) \<noteq> None \<or> work_pending (ctrl_of s i t)"
proof -
  have "rx_good s" using rx.inv_reachable [OF _ assms(2)] assms(1) by blast
  then have "timer_ok (ctrl_of s i t)" using assms(3) by (auto simp: rx_good_def rx_inv_def rx_ok_def ctrls_ok_def ctrl_ok_def)
  then show ?thesis using assms(4) by (simp add: timer_ok_def)
qed

theorem buffered_frames_have_timer_witness:
  "(\<exists>x. reord_timer (ctrl_of rx_demo 0 0) = Some x) \<or> work_pending (ctrl_of rx_demo 0 0)"
  using buffered_frames_have_timer [OF _ rx_demo_reachable rx_demo_ctrl(1)] rx_demo_ctrl(3) by simp

text \<open>
  C18: receiving a frame that is neither late nor a duplicate.  With \<open>b\<close> the number that was due, the controller releases, in
  sequence order, exactly the frames below the offset \<open>e\<close> of the first number that is missing from the run, waits for
  that number next, and keeps every frame beyond it; a frame beyond the window of 64 first moves the window.
\<close>

theorem reorder_releases_in_order:
  assumes "valid_ctrl s i t" and "r_enable (ctrl_of s i t)" and "window_ok (seq_of s) (ctrl_of s i t)"
    and "uint (seq_of s p) < 4096" and "accepts (seq_of s) p (ctrl_of s i t)"
  defines "b \<equiv> ind_sn (base (ctrl_of s i t) (seq_of s p))"
  shows "\<exists>c' R e. reord_ctrl_frame amsdu expires p i t skb s = Some (0, deliver_all amsdu R (set_ctrl i t c' s))
     \<and> mset R + mset (reord_list c') = add_mset p (mset (reord_list (ctrl_of s i t)))
     \<and> sorted_wrt (\<lambda>q r. dist b (seq_of s q) < dist b (seq_of s r)) R
     \<and> (\<forall>q \<in> set R. dist b (seq_of s q) < e) \<and> (\<forall>q \<in> set (reord_list c'). e < dist b (seq_of s q))
     \<and> (\<forall>j. window_move (dist b (seq_of s p)) \<le> j \<and> j < e \<longrightarrow> (\<exists>q \<in> set R. dist b (seq_of s q) = j))
     \<and> ind_sn c' = sn_at b e \<and> window_ok (seq_of s) c'"
proof -
  let ?sq = "seq_of s" and ?c = "ctrl_of s i t"
  let ?e = "gap b ?sq p (reord_list ?c)" and ?a = "accepted expires ?sq p ?c" and ?R = "released ?sq p ?c"
  note A = accepted_spec(1,2) [OF assms(3-5), of expires] accepted_spec(4,5) [OF assms(3-5)]
  note B = base_ok [OF assms(3,4)]
  have l: "ordered b ?sq (reord_list ?c)" "\<forall>q \<in> set (reord_list ?c). 1 \<le> dist b (?sq q) \<and> dist b (?sq q) \<le> 63"
    using B(1-3) by (auto simp: window_ok_def b_def)
  have d: "dist b (?sq p) < 2048" "\<forall>q \<in> set (reord_list ?c). ?sq q \<noteq> ?sq p"
    using assms(5) by (simp_all add: accepts_def b_def)
  note G = gap_spec(3) [OF l assms(4) d]
  have "\<exists>q \<in> set ?R. dist b (?sq q) = j" if "window_move (dist b (?sq p)) \<le> j" "j < ?e" for j
    using G that by (auto simp: released_def Let_def simp flip: b_def)
  moreover have "ind_sn ?a = sn_at b ?e" "\<forall>q \<in> set (reord_list ?a). ?e < dist b (?sq q)"
    by (auto simp: accepted_def Let_def b_def)
  moreover have "reord_ctrl_frame amsdu expires p i t skb s = Some (0, deliver_all amsdu ?R (set_ctrl i t ?a s))"
    by (rule buffer_frame_eq [OF assms(1,3-5,2)])
  ultimately show ?thesis using A unfolding b_def by blast
qed

text \<open>A controller that waits for 6 and holds 7; the frame 6 arrives.\<close>

definition small_demo :: rx_priv where
  "small_demo = (rx_start STATION)\<lparr>
     recv_frames := map (\<lambda>n. \<lparr>pkt = Some (demo_skb 1), f_tid = 0, forward = True, seq_num = n, is_amsdu = False, is_ap_reord = False,
       ap_fwd_cnt = 0, ap_resend_cnt = 0, fwd_skbs = [], resend_skbs = []\<rparr>) [7, 6],
     stas_reord_list := [\<lparr>mac_addr = [], preorder_ctrl = [fresh_ctrl\<lparr>ind_sn := 6, reord_list := [0], reord_timer := Some 9\<rparr>]\<rparr>]\<rparr>"

lemma small_demo_ok:
  "valid_ctrl small_demo 0 0" "r_enable (ctrl_of small_demo 0 0)" "window_ok (seq_of small_demo) (ctrl_of small_demo 0 0)"
  "reord_list (ctrl_of small_demo 0 0) = [0]" "seq_of small_demo 1 = 6" "seq_of small_demo 0 = 7" "ind_sn (ctrl_of small_demo 0 0) = 6"
  by (simp_all add: small_demo_def valid_ctrl_def ctrl_of_def fresh_ctrl_def window_ok_def ordered_def dist_def AICWF_REORDER_WINSIZE_def)

theorem reorder_releases_in_order_witness:
  "\<exists>c' R e. reord_ctrl_frame (\<lambda>b. [b]) 99 1 0 0 (demo_skb 2) small_demo
       = Some (0, deliver_all (\<lambda>b. [b]) R (set_ctrl 0 0 c' small_demo))
     \<and> mset R + mset (reord_list c') = {#1, 0#} \<and> ind_sn c' = sn_at 6 e"
proof -
  have "accepts (seq_of small_demo) 1 (ctrl_of small_demo 0 0)"
    using small_demo_ok by (simp add: accepts_def base_def dist_def)
  with reorder_releases_in_order [OF small_demo_ok(1-3), of 1 "\<lambda>b. [b]" 99 "demo_skb 2"] small_demo_ok(4-7) show ?thesis
    by (auto simp: base_def)
qed

text \<open>
  C19: a timeout makes progress.  The work of an expired timer hands on, in sequence order, at least the first buffered frame,
  together with the run of frames that follows it without a gap.
\<close>

theorem timeout_makes_progress:
  assumes "valid_ctrl s i t" and "window_ok (seq_of s) (ctrl_of s i t)" and "reord_list (ctrl_of s i t) = q # qs"
  shows "\<exists>c' R. reord_timeout_worker amsdu expires i t s = deliver_all amsdu (q # R) (set_ctrl i t c' s)
     \<and> q # qs = (q # R) @ reord_list c' \<and> (reord_list c' \<noteq> [] \<longrightarrow> reord_timer c' = Some expires) \<and> window_ok (seq_of s) c'"
proof -
  note E = expired_spec(1,2) [OF assms(2,3), of expires] expired_spec(3) [OF assms(2,3)]
  then obtain R where R: "expired_frames (seq_of s) (ctrl_of s i t) = q # R" by blast
  moreover have "reord_list (expired expires (seq_of s) (ctrl_of s i t)) \<noteq> [] \<longrightarrow>
      reord_timer (expired expires (seq_of s) (ctrl_of s i t)) = Some expires"
    by (simp add: expired_def Let_def)
  ultimately show ?thesis using worker_eq [OF assms, of amsdu expires] E(1,2) assms(3) by metis
qed

theorem timeout_makes_progress_witness:
  "\<exists>c' R. reord_timeout_worker (\<lambda>b. [b]) 50 0 0 small_demo = deliver_all (\<lambda>b. [b]) (0 # R) (set_ctrl 0 0 c' small_demo)
     \<and> [0] = (0 # R) @ reord_list c'"
  using timeout_makes_progress [OF small_demo_ok(1,3,4), of "\<lambda>b. [b]" 50] by blast

text \<open>
  a frame that is late or a duplicate changes neither the window nor what is buffered: it is dropped, or handed on at once.
\<close>

theorem late_or_duplicate_frame:
  assumes "valid_ctrl s i t" and "r_enable (ctrl_of s i t)" and "window_ok (seq_of s) (ctrl_of s i t)"
    and "uint (seq_of s p) < 4096" and "\<not> accepts (seq_of s) p (ctrl_of s i t)"
    and "reord_ctrl_frame amsdu expires p i t skb s = Some (ret, s')"
  shows "(s' = drop_frame p s \<or> s' = hand_on amsdu p s) \<and> stas_reord_list s' = stas_reord_list s"
  using refused_spec [OF assms(1,3-5,2,6)] by auto

theorem late_or_duplicate_frame_witness:
  "\<exists>s'. reord_ctrl_frame (\<lambda>b. [b]) 99 0 0 0 (demo_skb 2) small_demo = Some (0, s') \<and> stas_reord_list s' = stas_reord_list small_demo"
proof -
  have a: "\<not> accepts (seq_of small_demo) 0 (ctrl_of small_demo 0 0)" "uint (seq_of small_demo 0) < 4096"
    using small_demo_ok by (simp_all add: accepts_def)
  have "map_option fst (reord_ctrl_frame (\<lambda>b. [b]) 99 0 0 0 (demo_skb 2) small_demo) = Some 0" by code_simp
  then obtain s' where "reord_ctrl_frame (\<lambda>b. [b]) 99 0 0 0 (demo_skb 2) small_demo = Some (0, s')" by auto
  with late_or_duplicate_frame [OF small_demo_ok(1-3) a(2,1) this] show ?thesis by blast
qed

text \<open>
  In an interface mode that is neither station nor access point, a unicast data frame is freed but its descriptor is
  returned neither to the free queue nor to a controller: each such frame shrinks the pool by one.
\<close>

theorem other_mode_leaks_descriptor:
  assumes "iftype s = OTHER_IFTYPE" and "rd (skb_mem skb) 0 = Some da" and "da AND 1 = 0"
    and "rd16_be (skb_mem skb) 12 = Some proto" and "proto \<noteq> 0x888E"
  shows "\<exists>s'. reord_process_unit amsdu expires mem p skb sn tid fwd isam s = Some (-1, s')
     \<and> rxframes_freequeue s' = rxframes_freequeue s \<and> stas_reord_list s' = stas_reord_list s
     \<and> events s' = events s @ [KfreeSkb (skb_id skb)]"
  using assms by (simp add: reord_process_unit_def Let_def sta_mac_def emit_def upd_frame_def)

theorem other_mode_leaks_descriptor_witness:
  "\<exists>s'. reord_process_unit (\<lambda>b. [b]) 99 True 0 (demo_skb 1) 5 0 True False (rx_start OTHER_IFTYPE) = Some (-1, s')
     \<and> events s' = [KfreeSkb 1]"
proof -
  have f: "iftype (rx_start OTHER_IFTYPE) = OTHER_IFTYPE" "events (rx_start OTHER_IFTYPE) = []" "skb_id (demo_skb 1) = 1"
    "rd (skb_mem (demo_skb 1)) 0 = Some 2" "rd16_be (skb_mem (demo_skb 1)) 12 = Some 0x0800"
    by (simp_all add: rx_start_def demo_skb_def rd_def rd16_be_def of_le16_def)
  show ?thesis using other_mode_leaks_descriptor [OF f(1,4) _ f(5)] f(2,3) by fastforce
qed

end
