(* ===== verification/Rx_Example.thy ===== *)
theory Rx_Example
  imports Rx_Bridge Rx_Props
begin

text \<open>A small world for the received data path: one interface, one station, transfers as the firmware writes them.\<close>

definition ex_env :: rx_env where
  "ex_env = \<lparr>en_alloc = (\<lambda>_. True), en_room = (\<lambda>n. n), en_freed = (\<lambda>x. x), en_amsdu = (\<lambda>b. [b]), en_expires = 99, en_kmalloc = True\<rparr>"

definition ex_rx_vif :: "nl_iftype \<Rightarrow> rx_vif" where
  "ex_rx_vif ty = \<lparr>vf_up = True, vf_type = ty, vf_index = 0, vf_isolate = False, vf_4addr = False, vf_stas = [0]\<rparr>"

definition ex_mac :: "u8 list" where
  "ex_mac = [2, 0, 0, 0, 0, 7]"

definition ex_world :: "nl_iftype \<Rightarrow> rx_hw" where
  "ex_world ty = \<lparr>rh_vifs = [Some (ex_rx_vif ty)], rh_vlist = [0], rh_stas = [\<lparr>st_valid = True, st_vlan = 0, st_mac = ex_mac\<rparr>],
     rh_defrag = [], rh_reord = rx_start STATION, rh_next = 100, rh_events = []\<rparr>"

text \<open>A hardware header: a CCMP frame to be handed up on interface 0, sender and destination without an entry.\<close>

definition ex_hdr :: "u8 \<Rightarrow> u8 list" where
  "ex_hdr fl = (replicate 60 0)[36 := 12, 48 := fl, 50 := 255, 51 := 255]"

definition ex_hx :: "bool \<Rightarrow> hw_rxhdr" where
  "ex_hx reord = \<lparr>hx_len = 0, hx_decr = 3, hx_ga = False, hx_amsdu = False, hx_mpdu = False, hx_4addr = False, hx_new_peer = False, hx_reord = reord,
     hx_upload = True, hx_monitor = False, hx_vif = 0, hx_sta = 255, hx_dst = 255\<rparr>"

lemma ex_hdr_plain: "read_rxhdr (ex_hdr 64) 0 = Some (ex_hx False)"
  by code_simp

lemma ex_hdr_reord: "read_rxhdr (ex_hdr 96) 0 = Some (ex_hx True)"
  by code_simp

text \<open>A frame from the distribution system with sequence number 5; \<open>a1\<close> is its destination.\<close>

definition ex_wire :: "u8 \<Rightarrow> u8 list \<Rightarrow> u8 \<Rightarrow> u8 \<Rightarrow> u8 list \<Rightarrow> wire_frame" where
  "ex_wire fc0 a1 fc1 fn qc = \<lparr>wf_fc0 = fc0, wf_fc1 = fc1, wf_dur = [0, 0], wf_a1 = a1, wf_a2 = [1, 1, 1, 1, 1, 1], wf_a3 = [4, 4, 4, 4, 4, 4],
     wf_sc0 = 0x50 OR fn, wf_sc1 = 0, wf_qc = qc, wf_htc = [], wf_sec = replicate 8 9\<rparr>"

definition arrive :: "nat \<Rightarrow> u8 list \<Rightarrow> wire_frame \<Rightarrow> u8 list \<Rightarrow> rx_buf" where
  "arrive i hdr w body = \<lparr>rb_id = i, rb_mem = replicate 8 0 @ (hdr @ wf_head w @ body) @ replicate 8 0, rb_data = 8,
     rb_len = length hdr + length (wf_head w) + length body\<rparr>"

lemma arrive_transfer:
  assumes "length hdr = 60" and "read_rxhdr hdr 0 = Some x" and "wf_ok (hx_decr x) w"
  shows "data_transfer (arrive i hdr w body) (replicate 8 0) x w body (replicate 8 0)"
  using assms by (auto simp: data_transfer_def holds_def arrive_def)

lemma arrive_id: "rb_id (arrive i hdr w body) = i"
  by (simp add: arrive_def)

lemma ex_hdr_length: "length (ex_hdr fl) = 60"
  by (simp add: ex_hdr_def)

lemmas ex_transfer = arrive_transfer [OF ex_hdr_length ex_hdr_plain]
lemmas ex_transfer_reord = arrive_transfer [OF ex_hdr_length ex_hdr_reord]

lemma ex_reaches: "reaches (marked (ex_hx r) w) (ex_rx_vif ty) (ex_world ty)"
  by (simp add: reaches_def ex_hx_def rwnx_rx_get_vif_def ex_world_def ex_rx_vif_def sender_vif_def RX_NX_VIRT_DEV_MAX_def RWNX_INVALID_STA_def)

lemma ex_strays: "strays (ex_hx r) v = []"
  by (simp add: strays_def ex_hx_def)

abbreviation "ex_llc \<equiv> [0xAA, 0xAA, 3, 0, 0, 0] :: u8 list"
abbreviation "ex_type \<equiv> [8, 0] :: u8 list"

section \<open>Single frames\<close>

text \<open>A frame without QoS, and the Ethernet frame that reaches the stack.\<close>

theorem station_frame_is_delivered_witness:
  "\<exists>t. rxdata_upload ex_env (arrive 7 (ex_hdr 64) (ex_wire 8 ex_mac 0x42 0 []) (ex_llc @ ex_type @ [10, 11, 12])) (ex_world NL_STATION) = Some t
     \<and> rh_events t = [NetRx 0 7 [2, 0, 0, 0, 0, 7, 4, 4, 4, 4, 4, 4, 8, 0, 10, 11, 12]]"
proof -
  let ?w = "ex_wire 8 ex_mac 0x42 0 []"
  have w: "wf_ok (hx_decr (ex_hx False)) ?w" "\<not> wf_amsdu ?w" "\<not> wf_mf ?w" "wf_fn ?w = 0" "\<not> wf_qos ?w" "wf_tid ?w < 8" by code_simp+
  have f: "wf_da ?w @ wf_sa ?w @ ex_type @ [10, 11, 12] = [2, 0, 0, 0, 0, 7, 4, 4, 4, 4, 4, 4, 8, 0, 10, 11, 12]" by code_simp
  have v: "vf_type (ex_rx_vif NL_STATION) \<in> {NL_STATION, NL_P2P_CLIENT}" "vf_index (ex_rx_vif NL_STATION) = 0" "rh_events (ex_world NL_STATION) = []"
    by (simp_all add: ex_rx_vif_def ex_world_def)
  have "\<not> (wf_qos ?w \<and> hx_reord (ex_hx False))" using w(5) by simp
  from station_frame_is_delivered [OF ex_transfer [OF w(1), of 7] _ _ w(2-4) ex_reaches v(1) this w(6),
      where llc = ex_llc and type = ex_type and payload = "[10, 11, 12]" and e = ex_env]
  show ?thesis unfolding logged_def v(2,3) ex_strays f arrive_id by auto
qed

section \<open>An A-MSDU\<close>

definition ex_sub :: "u8 list \<Rightarrow> u8 list \<Rightarrow> subframe" where
  "ex_sub body pad = \<lparr>sf_addrs = ex_mac @ [4, 4, 4, 4, 4, 4], sf_llc = [0xAA, 0xAA, 3, 0, 0, 0], sf_body = body, sf_pad = pad\<rparr>"

abbreviation "ex_subs \<equiv> [ex_sub [8, 0, 10] [0], ex_sub [8, 6, 11, 12] []]"


definition ex_packet :: "u8 list \<Rightarrow> rx_buf" where
  "ex_packet xs = \<lparr>rb_id = 0, rb_mem = xs, rb_data = 0, rb_len = length xs\<rparr>"

lemma ex_packet_holds: "holds (ex_packet xs) [] xs []"
  by (simp add: holds_def ex_packet_def)

text \<open>A last subframe of 25 bytes with three bytes behind it, and with one.\<close>

theorem amsdu_split_ends_iff_filled_witness:
  "amsdu_loop ex_env 0 (ex_packet (amsdu_wire [ex_sub [8, 0, 10] [0]] @ sf_head (ex_sub [8, 0, 10, 1, 2] []) @ [0, 0, 0])) [] (ex_world NL_STATION) \<noteq> None
   \<and> amsdu_loop ex_env 0 (ex_packet (amsdu_wire [ex_sub [8, 0, 10] [0]] @ sf_head (ex_sub [8, 0, 10, 1, 2] []) @ [0])) [] (ex_world NL_STATION) = None"
proof -
  let ?f = "ex_sub [8, 0, 10, 1, 2] []"
  have f: "all_filled [ex_sub [8, 0, 10] [0]]" "sf_fields ?f"
    by (simp_all add: all_filled_def ex_sub_def sf_fields_def sf_filled_def sf_len_def ex_mac_def)
  have l: "sf_len ?f = 11" by (simp add: ex_sub_def sf_len_def)
  have v: "\<forall>k. en_alloc ex_env k" "rwnx_rx_get_vif 0 (ex_world NL_STATION) \<noteq> None"
    by (simp_all add: ex_env_def rwnx_rx_get_vif_def ex_world_def ex_rx_vif_def RX_NX_VIRT_DEV_MAX_def)
  note ends = amsdu_split_ends_iff_filled [OF ex_packet_holds f _ v]
  have "length ([0, 0, 0] :: u8 list) \<le> 16" "length ([0] :: u8 list) \<le> 16" by simp_all
  from ends [OF this(1)] ends [OF this(2)] show ?thesis unfolding l by simp
qed

section \<open>Fragments\<close>

definition ex_frag :: "nat \<Rightarrow> u8 \<Rightarrow> u8 \<Rightarrow> u8 list \<Rightarrow> fragment" where
  "ex_frag i fc1 fn body = \<lparr>fg_buf = arrive i (ex_hdr 64) (ex_wire 8 ex_mac fc1 fn []) body, fg_pre = replicate 8 0, fg_hdr = ex_hx False,
     fg_frame = ex_wire 8 ex_mac fc1 fn [], fg_body = body, fg_post = replicate 8 0\<rparr>"

lemma ex_frag_sel:
  "fg_buf (ex_frag i fc1 fn body) = arrive i (ex_hdr 64) (ex_wire 8 ex_mac fc1 fn []) body" "fg_body (ex_frag i fc1 fn body) = body"
  "fg_frame (ex_frag i fc1 fn body) = ex_wire 8 ex_mac fc1 fn []" "fg_hdr (ex_frag i fc1 fn body) = ex_hx False"
  by (simp_all add: ex_frag_def)

lemma ex_frag_ok:
  assumes "wf_ok 3 (ex_wire 8 ex_mac fc1 fn [])" and "wf_sn (ex_wire 8 ex_mac fc1 fn []) = 5" and "wf_mf (ex_wire 8 ex_mac fc1 fn []) = mf"
  shows "fragment_ok 5 0 0 mf (ex_frag i fc1 fn body)"
proof -
  have "hx_decr (ex_hx False) = 3" "\<not> hx_reord (ex_hx False)" "hx_dst (ex_hx False) = RWNX_INVALID_STA" by (simp_all add: ex_hx_def RWNX_INVALID_STA_def)
  moreover have "wf_tid (ex_wire 8 ex_mac fc1 fn []) = 0" "\<not> wf_amsdu (ex_wire 8 ex_mac fc1 fn [])"
    by (simp_all add: wf_tid_def wf_amsdu_def wf_qos_def ex_wire_def)
  moreover have "data_transfer (fg_buf (ex_frag i fc1 fn body)) (fg_pre (ex_frag i fc1 fn body)) (fg_hdr (ex_frag i fc1 fn body))
      (fg_frame (ex_frag i fc1 fn body)) (fg_body (ex_frag i fc1 fn body)) (fg_post (ex_frag i fc1 fn body))"
    using ex_transfer [of "ex_wire 8 ex_mac fc1 fn []" i body] assms(1) calculation(1) by (simp add: ex_frag_def)
  ultimately show ?thesis using assms by (simp add: fragment_ok_def ex_frag_sel)
qed


theorem oversized_frame_is_fatal_witness:
  "uploads ex_env [fg_buf (ex_frag 7 0x46 0 (ex_llc @ ex_type @ [10, 11])), fg_buf (ex_frag 8 0x46 1 (replicate 1985 12))] (ex_world NL_STATION) = None"
proof -
  let ?f = "ex_frag 7 0x46 0 (ex_llc @ ex_type @ [10, 11])" and ?g = "ex_frag 8 0x46 1 (replicate 1985 12)"
  have "wf_ok 3 (ex_wire 8 ex_mac 0x46 0 []) \<and> wf_sn (ex_wire 8 ex_mac 0x46 0 []) = 5 \<and> wf_mf (ex_wire 8 ex_mac 0x46 0 [])"
    "wf_ok 3 (ex_wire 8 ex_mac 0x46 1 []) \<and> wf_sn (ex_wire 8 ex_mac 0x46 1 []) = 5 \<and> wf_mf (ex_wire 8 ex_mac 0x46 1 [])" by code_simp+
  then have ok: "fragment_ok 5 0 0 True ?f" "\<forall>g \<in> set [?g]. fragment_ok 5 0 0 True g" using ex_frag_ok by simp_all
  have "wf_fn (ex_wire 8 ex_mac 0x46 1 []) = 1" by code_simp
  then have n: "map (\<lambda>g. wf_fn (fg_frame g)) [?g] = map word_of_nat [1 ..< length [?g] + 1]" by (simp add: ex_frag_sel)
  have r: "14 + length ([10, 11] :: u8 list) \<le> en_room ex_env 2000" "en_room ex_env 2000 < 65536"
      "en_room ex_env 2000 < 14 + length ([10, 11] :: u8 list) + length (concat (map fg_body [?g]))"
    by (simp_all add: ex_frag_sel ex_env_def)
  have v: "find_defrag 5 0 0 0 (rh_defrag (ex_world NL_STATION)) = None" "\<And>k. en_alloc ex_env k" by (simp_all add: ex_world_def ex_env_def)
  have b: "fg_body ?f = ex_llc @ ex_type @ [10, 11]" by (simp add: ex_frag_sel)
  from oversized_frame_is_fatal [OF ok(1) b _ _ ok(2) n r(1,3,2) v(1,2,2)] show ?thesis by simp
qed

section \<open>An access point\<close>

theorem access_point_bridges_witness:
  "(\<exists>t. rxdata_upload ex_env (arrive 7 (ex_hdr 64) (ex_wire 8 ex_mac 0x42 0 []) (ex_llc @ ex_type @ [10])) (ex_world NL_AP) = Some t
     \<and> rh_events t = [AirTx 0 (ex_mac @ [4, 4, 4, 4, 4, 4, 8, 0, 10]), KFree 7]) \<and>
   (\<exists>t. rxdata_upload ex_env (arrive 7 (ex_hdr 64) (ex_wire 8 (replicate 6 255) 0x42 0 []) (ex_llc @ ex_type @ [10])) (ex_world NL_AP) = Some t
     \<and> rh_events t = [AirTx 0 (replicate 6 255 @ [4, 4, 4, 4, 4, 4, 8, 0, 10]), NetRx 0 7 (replicate 6 255 @ [4, 4, 4, 4, 4, 4, 8, 0, 10])])"
proof -
  let ?w = "\<lambda>a1. ex_wire 8 a1 0x42 0 []"
  have w: "wf_ok (hx_decr (ex_hx False)) (?w ex_mac)" "wf_ok (hx_decr (ex_hx False)) (?w (replicate 6 255))" by code_simp+
  have c: "\<not> wf_amsdu (?w a1)" "\<not> wf_mf (?w a1)" "wf_fn (?w a1) = 0" "\<not> (wf_qos (?w a1) \<and> hx_reord (ex_hx False))" "wf_tid (?w a1) < 8" for a1
    by (simp_all add: wf_amsdu_def wf_mf_def wf_fn_def wf_qos_def wf_tid_def ex_wire_def)
  have v: "vf_type (ex_rx_vif NL_AP) \<in> {NL_AP, NL_P2P_GO}" "vf_index (ex_rx_vif NL_AP) = 0" "rh_events (ex_world NL_AP) = []"
      "stations_known (ex_rx_vif NL_AP) (ex_hx False) (rh_stas (ex_world NL_AP))" "\<forall>k. en_alloc ex_env k"
    by (simp_all add: ex_rx_vif_def ex_world_def ex_hx_def ex_env_def stations_known_def RWNX_INVALID_STA_def)
  note ap = access_point_bridges [OF ex_transfer [of _ 7] _ _ c(1-3) ex_reaches v(1) c(4,5) v(4,5), where llc = ex_llc and type = ex_type and payload = "[10]"]
  let ?x = "\<lambda>a1. marked (ex_hx False) (?w a1)"
  have e: "wf_da (?w ex_mac) @ wf_sa (?w ex_mac) @ ex_type @ [10] = ex_mac @ [4, 4, 4, 4, 4, 4, 8, 0, 10]"
      "wf_da (?w (replicate 6 255)) @ wf_sa (?w (replicate 6 255)) @ ex_type @ [10] = replicate 6 255 @ [4, 4, 4, 4, 4, 4, 8, 0, 10]" by code_simp+
  have l: "local_frame (ex_rx_vif NL_AP) (?x ex_mac) (rh_stas (ex_world NL_AP)) (ex_mac @ [4, 4, 4, 4, 4, 4, 8, 0, 10])"
      "\<not> group_frame (ex_mac @ [4, 4, 4, 4, 4, 4, 8, 0, 10])" "group_frame (replicate 6 255 @ [4, 4, 4, 4, 4, 4, 8, 0, 10])"
    by (simp_all add: local_frame_def group_frame_def ex_world_def ex_rx_vif_def ex_mac_def ex_hx_def RWNX_INVALID_STA_def numeral_eq_Suc)
  show ?thesis
    using ap [OF w(1)] ap [OF w(2)] l unfolding e logged_def v(2,3) ex_strays arrive_id by auto
qed

end
