(* ===== verification/Radar.thy ===== *)
theory Radar
  imports Aic_Prelude
begin

text \<open>
  Radar detection (\<^verbatim>\<open>rwnx_radar.c\<close>): pulses reported by the firmware are matched against the patterns of the regulatory domain.  Per pattern and
  frequency a detector keeps the time stamps of recent pulses and the sequences that could be a burst of the pattern; a sequence with enough pulses
  is a radar.  Numbers are \<open>int\<close> with the width of the code's type written out (\<open>w8\<close> to \<open>w64\<close>).  Pulse elements carry a time stamp only, so the
  pool of free ones is a number; free sequence elements keep their old content.
\<close>

definition w8 :: "int \<Rightarrow> int" where "w8 x = x mod 2 ^ 8"
definition w16 :: "int \<Rightarrow> int" where "w16 x = x mod 2 ^ 16"
definition w32 :: "int \<Rightarrow> int" where "w32 x = x mod 2 ^ 32"
definition w64 :: "int \<Rightarrow> int" where "w64 x = x mod 2 ^ 64"

section \<open>Patterns\<close>

datatype radar_waveform = WAVE_SHORT | WAVE_WEATHER | WAVE_INTERLEAVED | WAVE_LONG

record radar_specs =
  rs_type_id :: int
  rs_width_min :: int
  rs_width_max :: int
  rs_pri_min :: int
  rs_pri_max :: int
  rs_num_pri :: int
  rs_ppb :: int
  rs_ppb_thresh :: int
  rs_tol :: int                       \<comment> \<open>\<^verbatim>\<open>max_pri_tolerance\<close>\<close>
  rs_type :: radar_waveform

definition PRI_TOLERANCE :: int where "PRI_TOLERANCE = 16"

definition PPB_THRESH :: "int \<Rightarrow> int" where
  "PPB_THRESH p = (p * 50 + 50) div 100"

definition PRF2PRI :: "int \<Rightarrow> int" where
  "PRF2PRI f = (1000000 + f div 2) div f"

definition ETSI_PATTERN_SHORT :: "int \<Rightarrow> int \<Rightarrow> int \<Rightarrow> int \<Rightarrow> int \<Rightarrow> int \<Rightarrow> radar_specs" where
  "ETSI_PATTERN_SHORT i wmin wmax pmin pmax ppb = \<lparr>rs_type_id = i, rs_width_min = wmin, rs_width_max = wmax,
     rs_pri_min = PRF2PRI pmax - PRI_TOLERANCE, rs_pri_max = PRF2PRI pmin + PRI_TOLERANCE, rs_num_pri = 1, rs_ppb = ppb,
     rs_ppb_thresh = PPB_THRESH ppb, rs_tol = PRI_TOLERANCE, rs_type = WAVE_SHORT\<rparr>"

definition ETSI_PATTERN_INTERLEAVED :: "int \<Rightarrow> int \<Rightarrow> int \<Rightarrow> int \<Rightarrow> int \<Rightarrow> int \<Rightarrow> int \<Rightarrow> int \<Rightarrow> radar_specs" where
  "ETSI_PATTERN_INTERLEAVED i wmin wmax pmin pmax prfmin prfmax ppb = \<lparr>rs_type_id = i, rs_width_min = wmin, rs_width_max = wmax,
     rs_pri_min = PRF2PRI pmax * prfmin - PRI_TOLERANCE, rs_pri_max = PRF2PRI pmin * prfmax + PRI_TOLERANCE, rs_num_pri = prfmax,
     rs_ppb = ppb * prfmax, rs_ppb_thresh = PPB_THRESH ppb, rs_tol = PRI_TOLERANCE, rs_type = WAVE_INTERLEAVED\<rparr>"

definition FCC_PATTERN :: "int \<Rightarrow> int \<Rightarrow> int \<Rightarrow> int \<Rightarrow> int \<Rightarrow> int \<Rightarrow> int \<Rightarrow> radar_waveform \<Rightarrow> radar_specs" where
  "FCC_PATTERN i wmin wmax pmin pmax prf ppb ty = \<lparr>rs_type_id = i, rs_width_min = wmin, rs_width_max = wmax,
     rs_pri_min = pmin - PRI_TOLERANCE, rs_pri_max = pmax * prf + PRI_TOLERANCE, rs_num_pri = prf, rs_ppb = ppb * prf,
     rs_ppb_thresh = PPB_THRESH ppb, rs_tol = PRI_TOLERANCE, rs_type = ty\<rparr>"

definition etsi_riu :: "radar_specs list" where
  "etsi_riu = [ETSI_PATTERN_SHORT 0 0 8 700 700 18, ETSI_PATTERN_SHORT 1 0 10 200 1000 10, ETSI_PATTERN_SHORT 2 0 22 200 1600 15,
     ETSI_PATTERN_SHORT 3 0 22 2300 4000 25, ETSI_PATTERN_SHORT 4 20 38 2000 4000 20,
     ETSI_PATTERN_INTERLEAVED 5 0 8 300 400 2 3 10, ETSI_PATTERN_INTERLEAVED 6 0 8 400 1200 2 3 15]"

definition etsi_fcu :: "radar_specs list" where
  "etsi_fcu = [ETSI_PATTERN_SHORT 0 0 8 700 700 18, ETSI_PATTERN_SHORT 1 0 8 200 1000 10, ETSI_PATTERN_SHORT 2 0 16 200 1600 15,
     ETSI_PATTERN_SHORT 3 0 16 2300 4000 25, ETSI_PATTERN_SHORT 4 20 34 2000 4000 20,
     ETSI_PATTERN_INTERLEAVED 5 0 8 300 400 2 3 10, ETSI_PATTERN_INTERLEAVED 6 0 8 400 1200 2 3 15]"

definition fcc_riu :: "radar_specs list" where
  "fcc_riu = [FCC_PATTERN 0 0 8 1428 1428 1 18 WAVE_SHORT, FCC_PATTERN 1 0 8 518 3066 1 102 WAVE_WEATHER, FCC_PATTERN 2 0 8 150 230 1 23 WAVE_SHORT,
     FCC_PATTERN 3 6 20 200 500 1 16 WAVE_SHORT, FCC_PATTERN 4 10 28 200 500 1 12 WAVE_SHORT, FCC_PATTERN 5 50 110 1000 2000 1 8 WAVE_LONG,
     FCC_PATTERN 6 0 8 333 333 1 9 WAVE_SHORT]"

definition fcc_fcu :: "radar_specs list" where
  "fcc_fcu = [FCC_PATTERN 0 0 8 1428 1428 1 18 WAVE_SHORT, FCC_PATTERN 1 0 8 518 3066 1 102 WAVE_WEATHER, FCC_PATTERN 2 0 8 150 230 1 23 WAVE_SHORT,
     FCC_PATTERN 3 6 12 200 500 1 16 WAVE_SHORT, FCC_PATTERN 4 10 22 200 500 1 12 WAVE_SHORT, FCC_PATTERN 5 50 104 1000 2000 1 8 WAVE_LONG,
     FCC_PATTERN 6 0 8 333 333 1 9 WAVE_SHORT]"

definition jp_riu :: "radar_specs list" where
  "jp_riu = [FCC_PATTERN 0 0 8 1428 1428 1 18 WAVE_SHORT, FCC_PATTERN 1 2 8 3846 3846 1 18 WAVE_SHORT, FCC_PATTERN 2 0 8 1388 1388 1 18 WAVE_SHORT,
     FCC_PATTERN 3 0 8 4000 4000 1 18 WAVE_SHORT, FCC_PATTERN 4 0 8 150 230 1 23 WAVE_SHORT, FCC_PATTERN 5 6 20 200 500 1 16 WAVE_SHORT,
     FCC_PATTERN 6 10 28 200 500 1 12 WAVE_SHORT, FCC_PATTERN 7 50 110 1000 2000 1 8 WAVE_LONG, FCC_PATTERN 8 0 8 333 333 1 9 WAVE_SHORT]"

definition jp_fcu :: "radar_specs list" where
  "jp_fcu = [FCC_PATTERN 0 0 8 1428 1428 1 18 WAVE_SHORT, FCC_PATTERN 1 2 6 3846 3846 1 18 WAVE_SHORT, FCC_PATTERN 2 0 8 1388 1388 1 18 WAVE_SHORT,
     FCC_PATTERN 3 2 2 4000 4000 1 18 WAVE_SHORT, FCC_PATTERN 4 0 8 150 230 1 23 WAVE_SHORT, FCC_PATTERN 5 6 12 200 500 1 16 WAVE_SHORT,
     FCC_PATTERN 6 10 22 200 500 1 12 WAVE_SHORT, FCC_PATTERN 7 50 104 1000 2000 1 8 WAVE_LONG, FCC_PATTERN 8 0 8 333 333 1 9 WAVE_SHORT]"

datatype dfs_region = DFS_UNSET | DFS_FCC | DFS_ETSI | DFS_JP

definition get_dfs_domain_radar_types :: "dfs_region \<Rightarrow> (radar_specs list \<times> radar_specs list) option" where
  "get_dfs_domain_radar_types r = (case r of DFS_ETSI \<Rightarrow> Some (etsi_riu, etsi_fcu) | DFS_FCC \<Rightarrow> Some (fcc_riu, fcc_fcu) | DFS_JP \<Rightarrow> Some (jp_riu, jp_fcu)
     | DFS_UNSET \<Rightarrow> None)"

definition get_dfs_max_radar_types :: nat where
  "get_dfs_max_radar_types = Max (set (map length [etsi_riu, fcc_riu, jp_riu]))"

section \<open>Detectors and pools\<close>

record pri_sequence =
  sq_pri :: int
  sq_dur :: int
  sq_count :: int
  sq_falses :: int
  sq_first :: int
  sq_last :: int
  sq_deadline :: int
  sq_thresh :: int

record pri_detector =
  pd_rs :: radar_specs
  pd_last_ts :: int
  pd_sequences :: "pri_sequence list"
  pd_pulses :: "int list"             \<comment> \<open>time stamps, newest first\<close>
  pd_count :: int
  pd_max_count :: int
  pd_window :: int
  pd_freq :: int

text \<open>The pools of free elements, the number of detectors that use them, and the elements that are allocated and not yet freed.\<close>

record radar_pools =
  po_pulses :: nat
  po_seqs :: "pri_sequence list"
  po_refs :: nat
  po_tries :: nat
  po_live_pulses :: nat
  po_live_seqs :: nat

text \<open>
  The environment: whether the \<open>k\<close>-th allocation succeeds, the content of a fresh sequence element, microseconds of a number of jiffies, whether a
  message can be allocated, and whether the kernel is 6.12 or newer.
\<close>

record radar_env =
  ra_alloc :: "nat \<Rightarrow> bool"
  ra_junk :: pri_sequence
  ra_usecs :: "int \<Rightarrow> int"
  ra_msg :: bool
  ra_new_kernel :: bool

definition radar_kmalloc :: "radar_env \<Rightarrow> radar_pools \<Rightarrow> bool \<times> radar_pools" where
  "radar_kmalloc e po = (ra_alloc e (po_tries po), po\<lparr>po_tries := po_tries po + 1\<rparr>)"

definition pool_register_ref :: "radar_pools \<Rightarrow> radar_pools" where
  "pool_register_ref po = po\<lparr>po_refs := po_refs po + 1\<rparr>"

definition pool_deregister_ref :: "radar_pools \<Rightarrow> radar_pools" where
  "pool_deregister_ref po =
    (let p1 = po\<lparr>po_refs := po_refs po - 1\<rparr>
     in if po_refs p1 = 0
        then p1\<lparr>po_live_pulses := po_live_pulses p1 - po_pulses p1, po_live_seqs := po_live_seqs p1 - length (po_seqs p1), po_pulses := 0, po_seqs := []\<rparr>
        else p1)"

definition pool_put_pulse_elem :: "radar_pools \<Rightarrow> radar_pools" where
  "pool_put_pulse_elem po = po\<lparr>po_pulses := po_pulses po + 1\<rparr>"

definition pool_put_pseq_elem :: "pri_sequence \<Rightarrow> radar_pools \<Rightarrow> radar_pools" where
  "pool_put_pseq_elem q po = po\<lparr>po_seqs := q # po_seqs po\<rparr>"

definition pool_get_pseq_elem :: "radar_env \<Rightarrow> radar_pools \<Rightarrow> pri_sequence option \<times> radar_pools" where
  "pool_get_pseq_elem e po =
    (case po_seqs po of
       q # qs \<Rightarrow> (Some q, po\<lparr>po_seqs := qs\<rparr>)
     | [] \<Rightarrow> (case radar_kmalloc e po of (ok, p1) \<Rightarrow> if ok then (Some (ra_junk e), p1\<lparr>po_live_seqs := po_live_seqs p1 + 1\<rparr>) else (None, p1)))"

definition pool_get_pulse_elem :: "radar_pools \<Rightarrow> bool \<times> radar_pools" where
  "pool_get_pulse_elem po = (if po_pulses po = 0 then (False, po) else (True, po\<lparr>po_pulses := po_pulses po - 1\<rparr>))"

section \<open>The queue of pulses\<close>

definition pulse_queue_get_tail :: "pri_detector \<Rightarrow> int option" where
  "pulse_queue_get_tail d = (if pd_pulses d = [] then None else Some (last (pd_pulses d)))"

definition pulse_queue_dequeue :: "pri_detector \<Rightarrow> radar_pools \<Rightarrow> bool \<times> pri_detector \<times> radar_pools" where
  "pulse_queue_dequeue d po =
    (case pulse_queue_get_tail d of
       None \<Rightarrow> (pd_count d > 0, d, po)
     | Some _ \<Rightarrow> (let d1 = d\<lparr>pd_pulses := butlast (pd_pulses d), pd_count := w32 (pd_count d - 1)\<rparr>
                 in (pd_count d1 > 0, d1, pool_put_pulse_elem po)))"

function dequeue_older :: "int \<Rightarrow> pri_detector \<Rightarrow> radar_pools \<Rightarrow> pri_detector \<times> radar_pools" where
  "dequeue_older m d po =
    (case pulse_queue_get_tail d of
       None \<Rightarrow> (d, po)
     | Some t \<Rightarrow> if t \<ge> m then (d, po) else (case pulse_queue_dequeue d po of (_, d1, p1) \<Rightarrow> dequeue_older m d1 p1))"
  by pat_completeness auto
termination
  by (relation "measure (\<lambda>(_, d, _). length (pd_pulses d))")
    (auto simp: pulse_queue_get_tail_def pulse_queue_dequeue_def Let_def split: if_splits)

declare dequeue_older.simps [simp del]

definition pulse_queue_check_window :: "pri_detector \<Rightarrow> radar_pools \<Rightarrow> pri_detector \<times> radar_pools" where
  "pulse_queue_check_window d po =
    (if pd_count d < 2 \<or> pd_last_ts d \<le> pd_window d then (d, po) else dequeue_older (pd_last_ts d - pd_window d) d po)"

definition pulse_queue_enqueue :: "radar_env \<Rightarrow> pri_detector \<Rightarrow> int \<Rightarrow> radar_pools \<Rightarrow> bool \<times> pri_detector \<times> radar_pools" where
  "pulse_queue_enqueue e d ts po =
    (case (case pool_get_pulse_elem po of
         (True, p1) \<Rightarrow> (True, p1)
       | (False, p1) \<Rightarrow> (case radar_kmalloc e p1 of (ok, p2) \<Rightarrow> (ok, if ok then p2\<lparr>po_live_pulses := po_live_pulses p2 + 1\<rparr> else p2))) of
       (False, p1) \<Rightarrow> (False, d, p1)
     | (True, p1) \<Rightarrow>
         (case pulse_queue_check_window (d\<lparr>pd_pulses := ts # pd_pulses d, pd_count := w32 (pd_count d + 1), pd_last_ts := ts\<rparr>) p1 of
            (d2, p2) \<Rightarrow> (if pd_count d2 \<ge> pd_max_count d2 then (case pulse_queue_dequeue d2 p2 of (_, d3, p3) \<Rightarrow> (True, d3, p3)) else (True, d2, p2))))"

section \<open>Short waveforms\<close>

definition pde_get_multiple :: "int \<Rightarrow> int \<Rightarrow> int \<Rightarrow> int" where
  "pde_get_multiple val fraction tolerance =
    (if fraction = 0 then 0
     else if (if val < fraction then fraction - val else val - fraction) \<le> tolerance then 1
     else if val mod fraction > tolerance then (if fraction - val mod fraction \<le> tolerance then val div fraction + 1 else 0)
     else val div fraction)"

text \<open>The older pulses that fit a new sequence; \<open>tmp\<close> counts those that did not fit since the last one that did.\<close>

fun match_past :: "int \<Rightarrow> int \<Rightarrow> int list \<Rightarrow> int \<Rightarrow> pri_sequence \<Rightarrow> pri_sequence" where
  "match_past tol min_ts [] tmp q = q"
| "match_past tol min_ts (t # ts) tmp q =
    (if t < min_ts then q
     else if pde_get_multiple (w32 (sq_last q - t)) (sq_pri q) tol > 0
     then match_past tol min_ts ts 0 (q\<lparr>sq_count := w32 (sq_count q + 1), sq_first := t, sq_falses := w32 (sq_falses q + tmp)\<rparr>)
     else match_past tol min_ts ts (w32 (tmp + 1)) q)"

definition new_sequence :: "radar_specs \<Rightarrow> int \<Rightarrow> int \<Rightarrow> int \<Rightarrow> int list \<Rightarrow> pri_sequence" where
  "new_sequence rs ts p idx older =
    (let pri = w32 (ts - p);
         dur = w32 (pri * (rs_ppb rs - 1) + 2 * rs_tol rs);
         q = match_past (rs_tol rs) (if dur > ts then 0 else ts - dur) older 0
               \<lparr>sq_pri = pri, sq_dur = dur, sq_count = 2, sq_falses = w32 (idx - 1), sq_first = p, sq_last = ts, sq_deadline = 0, sq_thresh = 0\<rparr>
     in q\<lparr>sq_deadline := w64 (sq_first q + dur),
          sq_thresh := (if rs_type rs = WAVE_WEATHER then w8 (PPB_THRESH (w8 (19000000 div w32 (360 * pri)))) else rs_ppb_thresh rs)\<rparr>)"

fun create_sequences :: "radar_env \<Rightarrow> radar_specs \<Rightarrow> int \<Rightarrow> int \<Rightarrow> int \<Rightarrow> int list \<Rightarrow> pri_sequence list \<Rightarrow> radar_pools
    \<Rightarrow> bool \<times> pri_sequence list \<times> radar_pools" where
  "create_sequences e rs ts min_count idx [] sqs po = (True, sqs, po)"
| "create_sequences e rs ts min_count idx (p # ps) sqs po =
    (let i = w16 (idx + 1)
     in if w32 (ts - p) < rs_pri_min rs then create_sequences e rs ts min_count i ps sqs po
        else if w32 (ts - p) > rs_pri_max rs then (True, sqs, po)
        else (let q = new_sequence rs ts p i ps
              in if sq_count q \<le> min_count then create_sequences e rs ts min_count i ps sqs po
                 else (case pool_get_pseq_elem e po of
                     (None, p1) \<Rightarrow> (False, sqs, p1)
                   | (Some _, p1) \<Rightarrow> create_sequences e rs ts min_count i ps (q # sqs) p1)))"

definition pde_short_create_sequences :: "radar_env \<Rightarrow> pri_detector \<Rightarrow> int \<Rightarrow> int \<Rightarrow> radar_pools \<Rightarrow> bool \<times> pri_detector \<times> radar_pools" where
  "pde_short_create_sequences e d ts min_count po =
    (case create_sequences e (pd_rs d) ts min_count 0 (pd_pulses d) (pd_sequences d) po of (ok, sqs, p1) \<Rightarrow> (ok, d\<lparr>pd_sequences := sqs\<rparr>, p1))"

fun add_to_seqs :: "int \<Rightarrow> int \<Rightarrow> pri_sequence list \<Rightarrow> int \<Rightarrow> radar_pools \<Rightarrow> int \<times> pri_sequence list \<times> radar_pools" where
  "add_to_seqs tol ts [] m po = (m, [], po)"
| "add_to_seqs tol ts (q # qs) m po =
    (if ts > sq_deadline q then add_to_seqs tol ts qs m (pool_put_pseq_elem q po)
     else (let fits = pde_get_multiple (w32 (ts - sq_last q)) (sq_pri q) tol > 0;
               q1 = (if fits then q\<lparr>sq_last := ts, sq_count := w32 (sq_count q + 1)\<rparr> else q\<lparr>sq_falses := w32 (sq_falses q + 1)\<rparr>)
           in (case add_to_seqs tol ts qs (if fits \<and> m < sq_count q1 then sq_count q1 else m) po of (m1, rest, p1) \<Rightarrow> (m1, q1 # rest, p1))))"

definition pde_short_add_to_existing_seqs :: "pri_detector \<Rightarrow> int \<Rightarrow> radar_pools \<Rightarrow> int \<times> pri_detector \<times> radar_pools" where
  "pde_short_add_to_existing_seqs d ts po =
    (case add_to_seqs (rs_tol (pd_rs d)) ts (pd_sequences d) 0 po of (m, sqs, p1) \<Rightarrow> (m, d\<lparr>pd_sequences := sqs\<rparr>, p1))"

definition complete_sequence :: "radar_specs \<Rightarrow> pri_sequence \<Rightarrow> bool" where
  "complete_sequence rs q \<longleftrightarrow> sq_count q \<ge> sq_thresh q \<and> w32 (sq_count q * rs_num_pri rs) > sq_falses q"

definition pde_short_check_detection :: "pri_detector \<Rightarrow> pri_sequence option" where
  "pde_short_check_detection d = List.find (complete_sequence (pd_rs d)) (pd_sequences d)"

definition pri_detector_reset :: "pri_detector \<Rightarrow> int \<Rightarrow> radar_pools \<Rightarrow> pri_detector \<times> radar_pools" where
  "pri_detector_reset d ts po =
    (d\<lparr>pd_sequences := [], pd_pulses := [], pd_count := 0, pd_last_ts := ts\<rparr>,
     po\<lparr>po_seqs := rev (pd_sequences d) @ po_seqs po, po_pulses := po_pulses po + length (pd_pulses d)\<rparr>)"

definition pde_short_add_pulse :: "radar_env \<Rightarrow> pri_detector \<Rightarrow> int \<Rightarrow> radar_pools \<Rightarrow> pri_sequence option \<times> pri_detector \<times> radar_pools" where
  "pde_short_add_pulse e d ts po =
    (if pd_count d = 0 then (case pulse_queue_enqueue e d ts po of (_, d1, p1) \<Rightarrow> (None, d1, p1))
     else if w64 (ts - pd_last_ts d) < rs_tol (pd_rs d) then (None, d, po)
     else (case pde_short_add_to_existing_seqs d ts po of (m, d1, p1) \<Rightarrow>
       (case pde_short_create_sequences e d1 ts m p1 of
          (False, d2, p2) \<Rightarrow> (case pri_detector_reset d2 ts p2 of (d3, p3) \<Rightarrow> (None, d3, p3))
        | (True, d2, p2) \<Rightarrow>
            (case pde_short_check_detection d2 of
               Some q \<Rightarrow> (Some q, d2, p2)
             | None \<Rightarrow> (case pulse_queue_enqueue e d2 ts p2 of (_, d3, p3) \<Rightarrow> (None, d3, p3))))))"

definition pde_short_init :: "pri_detector \<Rightarrow> pri_detector" where
  "pde_short_init d = d\<lparr>pd_window := w32 (rs_pri_max (pd_rs d) * rs_ppb (pd_rs d) * rs_num_pri (pd_rs d)), pd_max_count := rs_ppb (pd_rs d) * 2\<rparr>"

section \<open>Long waveforms\<close>

definition LONG_RADAR_DURATION :: int where "LONG_RADAR_DURATION = 12000000"
definition LONG_RADAR_BURST_MIN_DURATION :: int where "LONG_RADAR_BURST_MIN_DURATION = 12000000 div 20"
definition LONG_RADAR_MAX_BURST :: int where "LONG_RADAR_MAX_BURST = 20"

definition pde_long_init :: "pri_detector \<Rightarrow> pri_detector" where
  "pde_long_init d = d\<lparr>pd_window := LONG_RADAR_DURATION, pd_max_count := LONG_RADAR_MAX_BURST\<rparr>"

datatype radar_status = RADAR_IDLE | CAC_BUSY | CAC_DONE | INSERVICE_BUSY | INSERVICE_DONE

function long_restart :: "int \<Rightarrow> pri_sequence \<Rightarrow> pri_detector \<Rightarrow> radar_pools \<Rightarrow> pri_sequence \<times> pri_detector \<times> radar_pools" where
  "long_restart m q d po =
    (case pulse_queue_get_tail d of
       None \<Rightarrow> (q, d, po)
     | Some t \<Rightarrow> if t \<ge> m then (q\<lparr>sq_first := t, sq_deadline := w64 (t + pd_window d)\<rparr>, d, po)
         else (case pulse_queue_dequeue d po of (_, d1, p1) \<Rightarrow> long_restart m (q\<lparr>sq_count := w32 (sq_count q - 1)\<rparr>) d1 p1))"
  by pat_completeness auto
termination
  by (relation "measure (\<lambda>(_, _, d, _). length (pd_pulses d))")
    (auto simp: pulse_queue_get_tail_def pulse_queue_dequeue_def Let_def split: if_splits)

declare long_restart.simps [simp del]

text \<open>A pulse behind a pause: a new burst.\<close>

definition long_new_burst :: "radar_env \<Rightarrow> pri_sequence \<Rightarrow> pri_sequence list \<Rightarrow> int \<Rightarrow> int \<Rightarrow> pri_detector \<Rightarrow> radar_pools
    \<Rightarrow> pri_sequence option \<times> pri_detector \<times> radar_pools" where
  "long_new_burst e q qs delta ts d po =
    (let q1 = q\<lparr>sq_count := w32 (sq_count q + 1), sq_falses := 1\<rparr>
     in case (if ts > sq_deadline q1 then long_restart (w64 (ts - pd_window d)) q1 d po else (q1, d, po)) of (q2, d2, p2) \<Rightarrow>
          if sq_count q2 > rs_ppb_thresh (pd_rs d) \<and> w64 (ts - sq_first q2) > pd_window d div 2
          then (Some q2, d2\<lparr>pd_sequences := q2 # qs\<rparr>, p2)
          else (case pulse_queue_enqueue e d2 ts p2 of (_, d3, p3) \<Rightarrow> (None, d3\<lparr>pd_sequences := q2\<lparr>sq_dur := delta\<rparr> # qs\<rparr>, p3)))"

definition pde_long_add_pulse :: "radar_env \<Rightarrow> radar_status \<Rightarrow> pri_detector \<Rightarrow> int \<Rightarrow> radar_pools \<Rightarrow> pri_sequence option \<times> pri_detector \<times> radar_pools" where
  "pde_long_add_pulse e st d ts po =
    (if st \<noteq> CAC_BUSY then (None, d, po)
     else (case pd_sequences d of
         [] \<Rightarrow> (case pool_get_pseq_elem e po of
             (None, p1) \<Rightarrow> (None, d, p1)
           | (Some q, p1) \<Rightarrow>
               (case pulse_queue_enqueue e (d\<lparr>pd_sequences := [q\<lparr>sq_count := 1, sq_falses := 1, sq_first := ts, sq_last := ts,
                     sq_deadline := w64 (ts + pd_window d), sq_pri := 0\<rparr>]\<rparr>) ts p1 of (_, d1, p2) \<Rightarrow> (None, d1, p2)))
       | q # qs \<Rightarrow>
           (let delta = w32 (ts - sq_last q); q1 = q\<lparr>sq_last := ts\<rparr>
            in if delta < rs_pri_max (pd_rs d) then (None, d\<lparr>pd_sequences := q1 # qs\<rparr>, po)
               else if delta \<ge> rs_pri_min (pd_rs d) \<and> delta \<le> rs_pri_max (pd_rs d)
               then (None, d\<lparr>pd_sequences := q1\<lparr>sq_falses := w32 (sq_falses q1 + 1)\<rparr> # qs\<rparr>, po)
               else if sq_count q1 > 2 \<and> w32 (sq_dur q1 + delta) < LONG_RADAR_BURST_MIN_DURATION then (None, d\<lparr>pd_sequences := q1 # qs\<rparr>, po)
               else long_new_burst e q1 qs delta ts d po)))"

definition add_pulse_op :: "radar_env \<Rightarrow> radar_status \<Rightarrow> pri_detector \<Rightarrow> int \<Rightarrow> radar_pools \<Rightarrow> pri_sequence option \<times> pri_detector \<times> radar_pools" where
  "add_pulse_op e st d ts po = (if rs_type (pd_rs d) = WAVE_LONG then pde_long_add_pulse e st d ts po else pde_short_add_pulse e d ts po)"

end
