(* ===== verification/Radar_Dfs.thy ===== *)
theory Radar_Dfs
  imports Radar
begin

text \<open>
  The pattern detector of one chain (\<^verbatim>\<open>rwnx_radar.c\<close>, \<open>dfs_pattern_detector\<close>): for each pattern of the domain a list of detectors, one per
  frequency, found or created when a pulse arrives; the time stamp of a pulse is the sum of the intervals the firmware reports.  A detector that
  cannot be allocated is dereferenced (\<open>None\<close>).
\<close>

datatype radar_detect = DETECT_DISABLE | DETECT_ENABLE | DETECT_REPORT

datatype radar_chain = RADAR_RIU | RADAR_FCU

record dfs_detector =
  dp_enabled :: radar_detect
  dp_region :: dfs_region
  dp_num :: nat
  dp_last_ts :: int
  dp_prev_jiffies :: int
  dp_specs :: "radar_specs list"
  dp_lists :: "pri_detector list list"

section \<open>The detectors of a pattern\<close>

definition pri_detector_init :: "radar_env \<Rightarrow> dfs_detector \<Rightarrow> nat \<Rightarrow> int \<Rightarrow> radar_pools \<Rightarrow> nat option \<times> dfs_detector \<times> radar_pools" where
  "pri_detector_init e dp i freq po =
    (case radar_kmalloc e po of (ok, p1) \<Rightarrow>
       if \<not> ok then (None, dp, p1)
       else (let d = \<lparr>pd_rs = dp_specs dp ! i, pd_last_ts = 0, pd_sequences = [], pd_pulses = [], pd_count = 0, pd_max_count = 0, pd_window = 0, pd_freq = freq\<rparr>;
                 d1 = (if rs_type (pd_rs d) = WAVE_LONG then pde_long_init d else pde_short_init d)
             in (Some 0, dp\<lparr>dp_lists := (dp_lists dp)[i := d1 # dp_lists dp ! i]\<rparr>, pool_register_ref p1)))"

definition pri_detector_exit :: "pri_detector \<Rightarrow> radar_pools \<Rightarrow> radar_pools" where
  "pri_detector_exit d po = (case pri_detector_reset d 0 po of (_, p1) \<Rightarrow> pool_deregister_ref p1)"

text \<open>The position of the detector of a frequency; \<open>cur\<close> is an idle one seen before.\<close>

fun find_detector :: "int \<Rightarrow> nat \<Rightarrow> nat option \<Rightarrow> pri_detector list \<Rightarrow> nat option" where
  "find_detector freq k cur [] = cur"
| "find_detector freq k cur (d # ds) =
    (if pd_freq d = freq then (if pd_count d \<noteq> 0 then Some k else find_detector freq (k + 1) (Some k) ds)
     else if pd_freq d - 2 = freq \<and> pd_count d \<noteq> 0 then Some k
     else if pd_freq d + 2 = freq \<and> pd_count d \<noteq> 0 then Some k
     else find_detector freq (k + 1) cur ds)"

definition pri_detector_get :: "radar_env \<Rightarrow> dfs_detector \<Rightarrow> int \<Rightarrow> nat \<Rightarrow> radar_pools \<Rightarrow> nat option \<times> dfs_detector \<times> radar_pools" where
  "pri_detector_get e dp freq i po =
    (case find_detector freq 0 None (dp_lists dp ! i) of Some k \<Rightarrow> (Some k, dp, po) | None \<Rightarrow> pri_detector_init e dp i freq po)"

section \<open>All detectors\<close>

fun reset_list :: "(pri_detector \<Rightarrow> bool) \<Rightarrow> int \<Rightarrow> pri_detector list \<Rightarrow> radar_pools \<Rightarrow> pri_detector list \<times> radar_pools" where
  "reset_list P ts [] po = ([], po)"
| "reset_list P ts (d # ds) po =
    (case (if P d then pri_detector_reset d ts po else (d, po)) of (d1, p1) \<Rightarrow> (case reset_list P ts ds p1 of (r, p2) \<Rightarrow> (d1 # r, p2)))"

fun reset_lists :: "(pri_detector \<Rightarrow> bool) \<Rightarrow> int \<Rightarrow> pri_detector list list \<Rightarrow> radar_pools \<Rightarrow> pri_detector list list \<times> radar_pools" where
  "reset_lists P ts [] po = ([], po)"
| "reset_lists P ts (l # ls) po = (case reset_list P ts l po of (l1, p1) \<Rightarrow> (case reset_lists P ts ls p1 of (r, p2) \<Rightarrow> (l1 # r, p2)))"

definition reset_detectors :: "(pri_detector \<Rightarrow> bool) \<Rightarrow> dfs_detector \<Rightarrow> radar_pools \<Rightarrow> dfs_detector \<times> radar_pools" where
  "reset_detectors P dp po =
    (case reset_lists P (dp_last_ts dp) (take (dp_num dp) (dp_lists dp)) po of
       (ls, p1) \<Rightarrow> (dp\<lparr>dp_lists := ls @ drop (dp_num dp) (dp_lists dp)\<rparr>, p1))"

text \<open>\<open>j\<close> is the clock (\<^verbatim>\<open>jiffies\<close>) when it is read.\<close>

definition dfs_pattern_detector_reset :: "int \<Rightarrow> dfs_detector \<Rightarrow> radar_pools \<Rightarrow> dfs_detector \<times> radar_pools" where
  "dfs_pattern_detector_reset j dp po =
    (case reset_detectors (\<lambda>_. True) dp po of (dp1, p1) \<Rightarrow> (dp1\<lparr>dp_last_ts := 0, dp_prev_jiffies := w32 j\<rparr>, p1))"

definition dfs_pattern_detector_pri_overflow :: "dfs_detector \<Rightarrow> radar_pools \<Rightarrow> dfs_detector \<times> radar_pools" where
  "dfs_pattern_detector_pri_overflow dp po = reset_detectors (\<lambda>d. rs_type (pd_rs d) \<noteq> WAVE_LONG) dp po"

definition exit_detectors :: "dfs_detector \<Rightarrow> radar_pools \<Rightarrow> radar_pools" where
  "exit_detectors dp po = fold pri_detector_exit (concat (take (dp_num dp) (dp_lists dp))) po"

definition dfs_pattern_detector_exit :: "dfs_detector \<Rightarrow> radar_pools \<Rightarrow> radar_pools" where
  "dfs_pattern_detector_exit dp po = exit_detectors dp po"

section \<open>A pulse\<close>

definition pulse_time :: "radar_env \<Rightarrow> dfs_detector \<Rightarrow> int \<Rightarrow> int \<Rightarrow> radar_pools \<Rightarrow> dfs_detector \<times> radar_pools" where
  "pulse_time e dp pri now po =
    (if pri = 0
     then (let delta = w32 (if now < dp_prev_jiffies dp then 4294967295 - dp_prev_jiffies dp + now else now - dp_prev_jiffies dp)
           in dfs_pattern_detector_pri_overflow (dp\<lparr>dp_last_ts := w64 (dp_last_ts dp + w32 (ra_usecs e delta)), dp_prev_jiffies := now\<rparr>) po)
     else (dp\<lparr>dp_last_ts := w64 (dp_last_ts dp + pri)\<rparr>, po))"

text \<open>One pattern: the detector of the frequency is found or created and takes the pulse.\<close>

definition pattern_pulse :: "radar_env \<Rightarrow> radar_status \<Rightarrow> dfs_detector \<Rightarrow> int \<Rightarrow> nat \<Rightarrow> radar_pools
    \<Rightarrow> (pri_sequence option \<times> dfs_detector \<times> radar_pools) option" where
  "pattern_pulse e st dp freq i po =
    (case pri_detector_get e dp freq i po of
       (None, _, _) \<Rightarrow> None
     | (Some k, dp1, p1) \<Rightarrow>
         (case add_pulse_op e st (dp_lists dp1 ! i ! k) (dp_last_ts dp1) p1 of
            (r, d, p2) \<Rightarrow> Some (r, dp1\<lparr>dp_lists := (dp_lists dp1)[i := (dp_lists dp1 ! i)[k := d]]\<rparr>, p2)))"

fun try_patterns :: "radar_env \<Rightarrow> radar_status \<Rightarrow> int \<Rightarrow> dfs_detector \<Rightarrow> int \<Rightarrow> int \<Rightarrow> nat list \<Rightarrow> radar_pools
    \<Rightarrow> (bool \<times> dfs_detector \<times> radar_pools) option" where
  "try_patterns e st j dp freq len [] po = Some (False, dp, po)"
| "try_patterns e st j dp freq len (i # is) po =
    (if rs_width_min (dp_specs dp ! i) > len \<or> rs_width_max (dp_specs dp ! i) < len then try_patterns e st j dp freq len is po
     else (case pattern_pulse e st dp freq i po of
         None \<Rightarrow> None
       | Some (None, dp1, p1) \<Rightarrow> try_patterns e st j dp1 freq len is p1
       | Some (Some _, dp1, p1) \<Rightarrow> (case dfs_pattern_detector_reset j dp1 p1 of (dp2, p2) \<Rightarrow> Some (True, dp2, p2))))"

definition dfs_pattern_detector_add_pulse :: "radar_env \<Rightarrow> radar_status \<Rightarrow> dfs_detector \<Rightarrow> int \<Rightarrow> int \<Rightarrow> int \<Rightarrow> int \<Rightarrow> int \<Rightarrow> radar_pools
    \<Rightarrow> (bool \<times> dfs_detector \<times> radar_pools) option" where
  "dfs_pattern_detector_add_pulse e st dp freq pri len now j po =
    (if dp_region dp = DFS_UNSET then Some (True, dp, po)
     else (case pulse_time e dp pri now po of (dp1, p1) \<Rightarrow> try_patterns e st j dp1 freq len [0..<dp_num dp1] p1))"

section \<open>The regulatory domain\<close>

definition dfs_pattern_detector_set_domain :: "dfs_detector \<Rightarrow> dfs_region \<Rightarrow> radar_chain \<Rightarrow> radar_pools \<Rightarrow> bool \<times> dfs_detector \<times> radar_pools" where
  "dfs_pattern_detector_set_domain dp region chain po =
    (if dp_region dp = region then (True, dp, po)
     else (let dp1 = dp\<lparr>dp_region := DFS_UNSET\<rparr>
           in (case get_dfs_domain_radar_types region of
                 None \<Rightarrow> (False, dp1, po)
               | Some (riu, fcu) \<Rightarrow>
                   (True, dp1\<lparr>dp_lists := replicate (dp_num dp1) [] @ drop (dp_num dp1) (dp_lists dp1),
                      dp_specs := (if chain = RADAR_RIU then riu else fcu), dp_num := length riu, dp_region := region\<rparr>,
                    exit_detectors dp1 po))))"

definition dfs_pattern_detector_init :: "radar_env \<Rightarrow> int \<Rightarrow> dfs_region \<Rightarrow> radar_chain \<Rightarrow> radar_pools \<Rightarrow> dfs_detector option \<times> radar_pools" where
  "dfs_pattern_detector_init e j region chain po =
    (case radar_kmalloc e po of (ok, p1) \<Rightarrow>
       if \<not> ok then (None, p1)
       else (case dfs_pattern_detector_set_domain \<lparr>dp_enabled = DETECT_DISABLE, dp_region = DFS_UNSET, dp_num = 0, dp_last_ts = 0,
               dp_prev_jiffies = w32 j, dp_specs = [], dp_lists = replicate get_dfs_max_radar_types []\<rparr> region chain p1 of
             (ok1, dp, p2) \<Rightarrow> (if ok1 then Some dp else None, p2)))"

end
