(* ===== verification/Radar_Burst.thy ===== *)
theory Radar_Burst
  imports Radar
begin

text \<open>
  One detector of a short pattern: the queue of pulses stays bounded, and a burst whose intervals agree within the tolerance is reported with the
  pulse that reaches the threshold, independently of the pools.
\<close>

named_theorems width_simps \<open>values that fit their width\<close>

lemma w32_id [width_simps]: "0 \<le> x \<Longrightarrow> x < 4294967296 \<Longrightarrow> w32 x = x"
  by (simp add: w32_def)

lemma w64_id [width_simps]: "0 \<le> x \<Longrightarrow> x < 18446744073709551616 \<Longrightarrow> w64 x = x"
  by (simp add: w64_def)

lemma w8_id [width_simps]: "0 \<le> x \<Longrightarrow> x < 256 \<Longrightarrow> w8 x = x"
  by (simp add: w8_def)

lemma w16_id [width_simps]: "0 \<le> x \<Longrightarrow> x < 65536 \<Longrightarrow> w16 x = x"
  by (simp add: w16_def)

lemma w32_le: "0 \<le> x \<Longrightarrow> w32 x \<le> x"
  by (simp add: w32_def zmod_le_nonneg_dividend)

lemma w32_nonneg [simp]: "0 \<le> w32 x"
  by (simp add: w32_def)

section \<open>The queue\<close>

definition pulses_ok :: "pri_detector \<Rightarrow> bool" where
  "pulses_ok d \<longleftrightarrow> pd_count d = int (length (pd_pulses d)) \<and> pd_count d < pd_max_count d \<and> 2 \<le> pd_max_count d \<and> pd_max_count d < 4294967296
     \<and> 0 \<le> pd_window d"

definition radar_mem :: "radar_env \<Rightarrow> bool" where
  "radar_mem e \<longleftrightarrow> (\<forall>k. ra_alloc e k)"

text \<open>What the queue operations leave alone.\<close>

definition same_detector :: "pri_detector \<Rightarrow> pri_detector \<Rightarrow> bool" where
  "same_detector d d' \<longleftrightarrow> pd_rs d' = pd_rs d \<and> pd_sequences d' = pd_sequences d \<and> pd_max_count d' = pd_max_count d \<and> pd_window d' = pd_window d
     \<and> pd_freq d' = pd_freq d"

lemma same_detector_trans: "same_detector a b \<Longrightarrow> same_detector b c \<Longrightarrow> same_detector a c"
  by (simp add: same_detector_def)

lemma dequeue_keeps:
  assumes "pulse_queue_dequeue d po = (b, d', po')"
  shows "same_detector d d' \<and> pd_last_ts d' = pd_last_ts d \<and> pd_pulses d' = butlast (pd_pulses d)
     \<and> (pd_count d = int (length (pd_pulses d)) \<and> pd_count d < 4294967296 \<longrightarrow> pd_count d' = int (length (pd_pulses d')))"
  using assms by (cases "pd_pulses d")
    (auto simp: pulse_queue_dequeue_def pulse_queue_get_tail_def same_detector_def Let_def width_simps of_nat_diff split: if_splits)

lemma dequeue_older_keeps:
  "dequeue_older m d po = (d', po') \<Longrightarrow> same_detector d d' \<and> pd_last_ts d' = pd_last_ts d \<and> (\<exists>n. pd_pulses d' = take n (pd_pulses d))
     \<and> (pd_count d = int (length (pd_pulses d)) \<and> pd_count d < 4294967296 \<longrightarrow> pd_count d' = int (length (pd_pulses d')))
     \<and> (pd_pulses d \<noteq> [] \<and> m \<le> hd (pd_pulses d) \<longrightarrow> pd_pulses d' \<noteq> [])"
proof (induction m d po arbitrary: d' po' rule: dequeue_older.induct)
  case (1 m d po)
  show ?case
  proof (cases "pulse_queue_get_tail d = None \<or> m \<le> the (pulse_queue_get_tail d)")
    case True
    then have "d' = d" using "1.prems" by (subst (asm) dequeue_older.simps) (auto split: option.splits if_splits)
    then show ?thesis by (auto simp: same_detector_def intro: exI [of _ "length (pd_pulses d)"])
  next
    case False
    then obtain t where t: "pulse_queue_get_tail d = Some t" "\<not> m \<le> t" by auto
    obtain b d1 p1 where q: "pulse_queue_dequeue d po = (b, d1, p1)" by (cases "pulse_queue_dequeue d po") auto
    have step: "dequeue_older m d1 p1 = (d', po')"
      using "1.prems" t q by (subst (asm) dequeue_older.simps) simp
    note IH = "1.IH" [OF t(1) t(2) q [symmetric] refl step]
    note k = dequeue_keeps [OF q]
    have last: "pd_pulses d \<noteq> []" "last (pd_pulses d) = t" using t(1) by (auto simp: pulse_queue_get_tail_def split: if_splits)
    have tk: "butlast (pd_pulses d) = take (length (pd_pulses d) - 1) (pd_pulses d)" by (simp add: butlast_conv_take)
    have ne: "butlast (pd_pulses d) \<noteq> [] \<and> hd (butlast (pd_pulses d)) = hd (pd_pulses d)" if "m \<le> hd (pd_pulses d)"
    proof -
      have "length (pd_pulses d) \<noteq> 1"
        using last that t(2) by (auto simp: length_Suc_conv)
      then show ?thesis using last(1) by (cases "pd_pulses d"; cases "tl (pd_pulses d)") auto
    qed
    show ?thesis
      using IH k ne same_detector_trans
      by (auto simp: tk take_take min_def of_nat_diff dest: same_detector_trans)
  qed
qed

lemma check_window_keeps:
  assumes "pulse_queue_check_window d po = (d', po')" "pd_count d = int (length (pd_pulses d))" "pd_count d < 4294967296"
    "pd_pulses d = pd_last_ts d # ps" "0 \<le> pd_window d"
  shows "same_detector d d' \<and> pd_last_ts d' = pd_last_ts d \<and> (\<exists>n. pd_pulses d' = take n (pd_pulses d)) \<and> pd_count d' = int (length (pd_pulses d'))
     \<and> pd_pulses d' \<noteq> []"
proof (cases "pd_count d < 2 \<or> pd_last_ts d \<le> pd_window d")
  case True
  then show ?thesis
    using assms by (auto simp: pulse_queue_check_window_def same_detector_def split: if_splits intro: exI [of _ "length (pd_pulses d)"])
next
  case False
  then have "dequeue_older (pd_last_ts d - pd_window d) d po = (d', po')"
    using assms(1) by (auto simp: pulse_queue_check_window_def)
  from dequeue_older_keeps [OF this] show ?thesis
    using assms(2-) by auto
qed

lemma radar_enqueue_ok:
  assumes "radar_mem e" "pulses_ok d"
  shows "\<exists>d' po'. pulse_queue_enqueue e d ts po = (True, d', po') \<and> same_detector d d' \<and> pulses_ok d' \<and> pd_last_ts d' = ts \<and> pd_pulses d' \<noteq> []
     \<and> length (pd_pulses d') \<le> length (pd_pulses d) + 1 \<and> (\<exists>n. pd_pulses d' = take n (ts # pd_pulses d))"
proof -
  obtain p1 where get: "(case pool_get_pulse_elem po of
         (True, p1) \<Rightarrow> (True, p1)
       | (False, p1) \<Rightarrow> (case radar_kmalloc e p1 of (ok, p2) \<Rightarrow> (ok, if ok then p2\<lparr>po_live_pulses := po_live_pulses p2 + 1\<rparr> else p2))) = (True, p1)"
    using assms(1) by (cases "po_pulses po = 0") (auto simp: pool_get_pulse_elem_def radar_kmalloc_def radar_mem_def)
  define d1 where "d1 = d\<lparr>pd_pulses := ts # pd_pulses d, pd_count := w32 (pd_count d + 1), pd_last_ts := ts\<rparr>"
  obtain d2 p2 where cw: "pulse_queue_check_window d1 p1 = (d2, p2)" by (cases "pulse_queue_check_window d1 p1")
  have c1: "pd_count d1 = int (length (pd_pulses d1))" "pd_count d1 < 4294967296" "pd_pulses d1 = pd_last_ts d1 # pd_pulses d" "0 \<le> pd_window d1"
    "pd_count d1 \<le> pd_max_count d1" "length (pd_pulses d1) = length (pd_pulses d) + 1" "2 \<le> pd_max_count d1" "pd_max_count d1 < 4294967296"
    using assms(2) by (simp_all add: d1_def pulses_ok_def width_simps)
  note k = check_window_keeps [OF cw c1(1-4)]
  have le: "length (pd_pulses d2) \<le> length (pd_pulses d1)" using k by auto
  have s1: "same_detector d d2" using k by (simp add: same_detector_def d1_def)
  have l1: "pd_last_ts d2 = ts" using k by (simp add: d1_def)
  obtain n where n: "pd_pulses d2 = take n (ts # pd_pulses d)" using k by (auto simp: d1_def)
  show ?thesis
  proof (cases "pd_count d2 \<ge> pd_max_count d2")
    case True
    obtain b d3 p3 where q: "pulse_queue_dequeue d2 p2 = (b, d3, p3)" by (cases "pulse_queue_dequeue d2 p2") auto
    note dk = dequeue_keeps [OF q]
    have m: "pd_max_count d2 = pd_max_count d1" using k by (simp add: same_detector_def)
    have len: "length (pd_pulses d2) \<ge> 2" using True m c1(7) k by linarith
    have c2: "pd_count d2 < 4294967296" "pd_count d2 \<le> pd_max_count d1" using k le c1 by linarith+
    have c3: "pd_count d3 = int (length (pd_pulses d3))" "length (pd_pulses d3) = length (pd_pulses d2) - 1" using dk k c2 by auto
    have "pulses_ok d3"
      using c3 c2 len k dk m c1 by (auto simp: pulses_ok_def same_detector_def)
    moreover have "pd_pulses d3 \<noteq> []" using c3(2) len by auto
    moreover have "length (pd_pulses d3) \<le> length (pd_pulses d) + 1" using c3(2) le c1(6) by linarith
    moreover have "same_detector d d3" using s1 dk same_detector_trans by blast
    moreover have "pulse_queue_enqueue e d ts po = (True, d3, p3)"
      using True q by (simp add: pulse_queue_enqueue_def get cw flip: d1_def)
    moreover have "\<exists>n. pd_pulses d3 = take n (ts # pd_pulses d)" using dk n by (auto simp: butlast_conv_take take_take)
    ultimately show ?thesis using dk l1 by auto
  next
    case False
    then have "pulse_queue_enqueue e d ts po = (True, d2, p2)"
      by (simp add: pulse_queue_enqueue_def get cw flip: d1_def)
    moreover have "pulses_ok d2"
      using False k c1 by (auto simp: pulses_ok_def same_detector_def)
    ultimately show ?thesis using k s1 l1 le c1(6) n by auto
  qed
qed

section \<open>Sequences\<close>

lemma match_past_count:
  "0 \<le> sq_count q \<Longrightarrow> sq_count (match_past tol m ts tmp q) \<le> sq_count q + int (length ts) \<and> 0 \<le> sq_count (match_past tol m ts tmp q)"
proof (induction tol m ts tmp q rule: match_past.induct)
  case (2 tol min_ts t ts tmp q)
  have "w32 (sq_count q + 1) \<le> sq_count q + 1" using "2.prems" by (simp add: w32_le)
  then show ?case using "2.prems" "2.IH" by (fastforce simp: Let_def)
qed simp

lemma new_sequence_count: "sq_count (new_sequence rs ts p i older) \<le> 2 + int (length older)"
proof -
  have "sq_count q = 2 \<Longrightarrow> sq_count (match_past tol m older tmp q) \<le> 2 + int (length older)" for q tol m tmp
    using match_past_count [of q tol m older tmp] by simp
  then show ?thesis by (simp add: new_sequence_def Let_def)
qed

lemma no_longer_sequence:
  "int (length ps) + 1 \<le> m \<Longrightarrow> create_sequences e rs ts m i ps sqs po = (True, sqs, po)"
proof (induction ps arbitrary: i)
  case (Cons p ps)
  have "sq_count (new_sequence rs ts p (w16 (i + 1)) ps) \<le> m"
    using new_sequence_count [of rs ts p _ ps] Cons.prems by (fastforce intro: order_trans)
  with Cons show ?case by (simp add: Let_def)
qed simp

text \<open>A detector that follows a burst from its first pulse: one sequence, no pulse that does not fit.\<close>

definition burst_dur :: "radar_specs \<Rightarrow> int \<Rightarrow> int" where
  "burst_dur rs g = g * (rs_ppb rs - 1) + 2 * rs_tol rs"

definition burst_thresh :: "radar_specs \<Rightarrow> int \<Rightarrow> int" where
  "burst_thresh rs g = (if rs_type rs = WAVE_WEATHER then PPB_THRESH (19000000 div (360 * g)) else rs_ppb_thresh rs)"

definition follows :: "pri_detector \<Rightarrow> int \<Rightarrow> int \<Rightarrow> nat \<Rightarrow> int \<Rightarrow> bool" where
  "follows d t0 g k t \<longleftrightarrow> pulses_ok d \<and> pd_pulses d \<noteq> [] \<and> length (pd_pulses d) \<le> k \<and> pd_last_ts d = t
     \<and> pd_sequences d = [\<lparr>sq_pri = g, sq_dur = burst_dur (pd_rs d) g, sq_count = int k, sq_falses = 0, sq_first = t0, sq_last = t,
          sq_deadline = t0 + burst_dur (pd_rs d) g, sq_thresh = burst_thresh (pd_rs d) g\<rparr>]"

text \<open>A pattern and the interval of a burst it is made for.\<close>

definition pattern_fits :: "radar_specs \<Rightarrow> int \<Rightarrow> bool" where
  "pattern_fits rs g \<longleftrightarrow> 1 \<le> rs_tol rs \<and> 2 * rs_tol rs \<le> rs_pri_min rs \<and> rs_pri_min rs \<le> g \<and> g \<le> rs_pri_max rs \<and> rs_pri_max rs < 65536
     \<and> 1 \<le> rs_num_pri rs \<and> rs_num_pri rs \<le> 3 \<and> rs_ppb rs < 255 \<and> 3 \<le> burst_thresh rs g \<and> 2 * burst_thresh rs g \<le> rs_ppb rs + 1
     \<and> rs_tol rs \<le> 255 \<and> rs_type rs \<noteq> WAVE_LONG"

lemma burst_dur_bounds:
  assumes "pattern_fits rs g"
  shows "0 \<le> burst_dur rs g" "burst_dur rs g < 4294967296"
proof -
  have g: "0 \<le> g" "g \<le> 65535" "0 \<le> rs_ppb rs - 1" "rs_ppb rs - 1 \<le> 255" "1 \<le> rs_tol rs" "rs_tol rs \<le> 255"
    using assms by (auto simp: pattern_fits_def)
  have "0 \<le> g * (rs_ppb rs - 1)" "g * (rs_ppb rs - 1) \<le> 65535 * 255"
    using g mult_mono [of g 65535 "rs_ppb rs - 1" 255] by auto
  then show "0 \<le> burst_dur rs g" "burst_dur rs g < 4294967296"
    using g by (auto simp: burst_dur_def)
qed

lemma sum_of_gaps:
  assumes "pattern_fits rs g" "int k \<le> burst_thresh rs g"
  shows "(int k - 1) * (g + rs_tol rs) \<le> burst_dur rs g"
proof -
  have f: "rs_tol rs \<le> g" "1 \<le> rs_tol rs" "2 * int k \<le> rs_ppb rs + 1" using assms by (auto simp: pattern_fits_def)
  show ?thesis
  proof (cases "k = 0")
    case True
    then show ?thesis using f burst_dur_bounds(1) [OF assms(1)] by simp
  next
    case False
    have "(int k - 1) * rs_tol rs \<le> (int k - 1) * g" using f False by (intro mult_left_mono) auto
    moreover have "(int k - 1) * g \<le> (rs_ppb rs - int k) * g" using f by (intro mult_right_mono) auto
    ultimately show ?thesis using f by (simp add: burst_dur_def algebra_simps)
  qed
qed

lemma gap_fits: "\<bar>x - g\<bar> \<le> tol \<Longrightarrow> 0 < g \<Longrightarrow> pde_get_multiple x g tol = 1"
  by (auto simp: pde_get_multiple_def)

lemma burst_step:
  assumes fit: "pattern_fits (pd_rs d) g" and mem: "radar_mem e" and f: "follows d t0 g k t" and k: "2 \<le> k" "int k < burst_thresh (pd_rs d) g"
    and gap: "\<bar>t' - t - g\<bar> \<le> rs_tol (pd_rs d)" and t: "0 \<le> t0" "t0 \<le> t" "t' < 2 ^ 63" "t - t0 \<le> (int k - 1) * (g + rs_tol (pd_rs d))"
  shows "\<exists>r d' po'. pde_short_add_pulse e d t' po = (r, d', po')
     \<and> (if int k + 1 < burst_thresh (pd_rs d) g then r = None \<and> follows d' t0 g (k + 1) t' \<and> pd_rs d' = pd_rs d \<and> pd_freq d' = pd_freq d
        else \<exists>q. r = Some q \<and> sq_count q = int k + 1 \<and> sq_pri q = g \<and> sq_first q = t0 \<and> sq_last q = t' \<and> sq_falses q = 0)"
proof -
  define rs where "rs = pd_rs d"
  note spec = fit [unfolded pattern_fits_def, folded rs_def]
  note [simp] = rs_def [symmetric]
  have g0: "0 < g" using spec by auto
  have qok: "pulses_ok d" "pd_count d \<noteq> 0" "length (pd_pulses d) \<le> k" "pd_last_ts d = t" using f by (auto simp: follows_def pulses_ok_def)
  have late: "rs_tol rs \<le> t' - t" "t' - t < 4294967296" using gap spec by auto
  have dl: "t' \<le> t0 + burst_dur rs g"
  proof -
    have "t' - t0 \<le> (int k - 1) * (g + rs_tol rs) + (g + rs_tol rs)" using t(4) gap by auto
    also have "\<dots> = (int (k + 1) - 1) * (g + rs_tol rs)" by (simp add: algebra_simps)
    also have "\<dots> \<le> burst_dur rs g" using sum_of_gaps [of rs g "k + 1"] fit k(2) by simp
    finally show ?thesis by simp
  qed
  have kb: "int k < 4294967295" using spec k(2) by auto
  define q where "q = \<lparr>sq_pri = g, sq_dur = burst_dur rs g, sq_count = int k + 1, sq_falses = 0, sq_first = t0, sq_last = t',
          sq_deadline = t0 + burst_dur rs g, sq_thresh = burst_thresh rs g\<rparr>"
  have add: "pde_short_add_to_existing_seqs d t' po = (int k + 1, d\<lparr>pd_sequences := [q]\<rparr>, po)"
    using f dl late gap g0 kb
    by (simp add: pde_short_add_to_existing_seqs_def follows_def width_simps gap_fits q_def Let_def)
  have create: "pde_short_create_sequences e (d\<lparr>pd_sequences := [q]\<rparr>) t' (int k + 1) po = (True, d\<lparr>pd_sequences := [q]\<rparr>, po)"
    using qok(3) by (simp add: pde_short_create_sequences_def no_longer_sequence)
  have nz: "0 < w32 ((int k + 1) * rs_num_pri rs)"
  proof -
    have "1 * 1 \<le> (int k + 1) * rs_num_pri rs" using spec by (intro mult_mono) auto
    moreover have "(int k + 1) * rs_num_pri rs \<le> 256 * 3" using spec k(2) by (intro mult_mono) auto
    ultimately show ?thesis by (simp add: width_simps)
  qed
  have det: "pde_short_check_detection (d\<lparr>pd_sequences := [q]\<rparr>) = (if int k + 1 \<ge> burst_thresh rs g then Some q else None)"
    using nz by (simp add: pde_short_check_detection_def complete_sequence_def q_def)
  have first: "pde_short_add_pulse e d t' po =
      (case pde_short_check_detection (d\<lparr>pd_sequences := [q]\<rparr>) of
               Some q \<Rightarrow> (Some q, d\<lparr>pd_sequences := [q]\<rparr>, po)
             | None \<Rightarrow> (case pulse_queue_enqueue e (d\<lparr>pd_sequences := [q]\<rparr>) t' po of (_, d3, p3) \<Rightarrow> (None, d3, p3)))"
    using qok late t spec
    by (simp add: pde_short_add_pulse_def add create w64_id det)
  show ?thesis
  proof (cases "int k + 1 < burst_thresh rs g")
    case True
    have "pulses_ok (d\<lparr>pd_sequences := [q]\<rparr>)" using qok(1) by (simp add: pulses_ok_def)
    from radar_enqueue_ok [OF mem this, of t' po] obtain d3 p3 where
      e3: "pulse_queue_enqueue e (d\<lparr>pd_sequences := [q]\<rparr>) t' po = (True, d3, p3)" "same_detector (d\<lparr>pd_sequences := [q]\<rparr>) d3" "pulses_ok d3"
        "pd_last_ts d3 = t'" "pd_pulses d3 \<noteq> []" "length (pd_pulses d3) \<le> length (pd_pulses d) + 1" by auto
    have s3: "pd_rs d3 = rs" "pd_sequences d3 = [q]" "pd_freq d3 = pd_freq d" using e3(2) by (auto simp: same_detector_def)
    have "follows d3 t0 g (k + 1) t'"
      using e3 qok(3) s3 by (simp add: follows_def q_def)
    then show ?thesis using True s3 by (simp add: first det e3(1))
  next
    case False
    then show ?thesis by (simp add: first det) (simp add: q_def)
  qed
qed

text \<open>The first two pulses.\<close>

definition idle :: "pri_detector \<Rightarrow> bool" where
  "idle d \<longleftrightarrow> pulses_ok d \<and> pd_pulses d = [] \<and> pd_sequences d = []"

definition tracks :: "pri_detector \<Rightarrow> int \<Rightarrow> int \<Rightarrow> nat \<Rightarrow> int \<Rightarrow> bool" where
  "tracks d t0 g k t \<longleftrightarrow>
    (if k = 1 then t = t0 \<and> pulses_ok d \<and> pd_pulses d = [t0] \<and> pd_sequences d = [] \<and> pd_last_ts d = t0 else 2 \<le> k \<and> follows d t0 g k t)"

lemma burst_first:
  assumes "radar_mem e" "idle d"
  shows "\<exists>d' po'. pde_short_add_pulse e d t po = (None, d', po') \<and> tracks d' t g 1 t \<and> pd_rs d' = pd_rs d \<and> pd_freq d' = pd_freq d"
proof -
  have "pulses_ok d" "pd_count d = 0" "pd_pulses d = []" "pd_sequences d = []" using assms(2) by (auto simp: idle_def pulses_ok_def)
  moreover obtain d' po' n where "pulse_queue_enqueue e d t po = (True, d', po')" "same_detector d d'" "pulses_ok d'" "pd_last_ts d' = t" "pd_pulses d' \<noteq> []"
      "pd_pulses d' = take n [t]"
    using radar_enqueue_ok [OF assms(1) \<open>pulses_ok d\<close>, of t po] \<open>pd_pulses d = []\<close> by auto
  ultimately show ?thesis
    by (cases n) (auto simp: pde_short_add_pulse_def tracks_def same_detector_def)
qed

lemma new_sequence_fits:
  assumes "pattern_fits rs g" "0 \<le> t" "t + g < 2 ^ 63"
  shows "new_sequence rs (t + g) t 1 [] = \<lparr>sq_pri = g, sq_dur = burst_dur rs g, sq_count = 2, sq_falses = 0, sq_first = t, sq_last = t + g,
     sq_deadline = t + burst_dur rs g, sq_thresh = burst_thresh rs g\<rparr>"
proof -
  note spec = assms(1) [unfolded pattern_fits_def]
  note dur = burst_dur_bounds [OF assms(1)]
  have "rs_type rs = WAVE_WEATHER \<Longrightarrow> 19000000 div (360 * g) < 256 \<and> 0 \<le> 19000000 div (360 * g) \<and> PPB_THRESH (19000000 div (360 * g)) < 256"
  proof -
    assume w: "rs_type rs = WAVE_WEATHER"
    define x :: int where "x = 19000000 div (360 * g)"
    have "2 * PPB_THRESH x \<le> 255" using spec w by (auto simp: burst_thresh_def x_def)
    then have "x < 256" using zdiv_mono1 [of 12850 "x * 50 + 50" 100] by (cases "x < 256") (auto simp: PPB_THRESH_def)
    moreover have "0 \<le> x" using spec unfolding x_def by (intro pos_imp_zdiv_nonneg_iff [THEN iffD2]) auto
    ultimately have "x < 256 \<and> 0 \<le> x \<and> PPB_THRESH x < 256" using zdiv_mono1 [of "x * 50 + 50" 12850 100] by (auto simp: PPB_THRESH_def)
    then show ?thesis by (simp only: x_def)
  qed
  moreover have "rs_type rs = WAVE_WEATHER \<Longrightarrow> 0 \<le> PPB_THRESH (19000000 div (360 * g))" using spec by (auto simp: burst_thresh_def)
  ultimately show ?thesis
    using spec assms(2,3) dur
    by (auto simp: new_sequence_def Let_def width_simps burst_thresh_def simp flip: burst_dur_def)
qed

lemma burst_second:
  assumes fit: "pattern_fits (pd_rs d) g" and mem: "radar_mem e" and d: "tracks d t g 1 t" and t: "0 \<le> t" "t + g < 2 ^ 63"
  shows "\<exists>d' po'. pde_short_add_pulse e d (t + g) po = (None, d', po') \<and> tracks d' t g 2 (t + g) \<and> pd_rs d' = pd_rs d \<and> pd_freq d' = pd_freq d"
proof -
  define rs where "rs = pd_rs d"
  note [simp] = rs_def [symmetric]
  note spec = fit [unfolded pattern_fits_def, folded rs_def]
  define q where "q = new_sequence rs (t + g) t 1 []"
  note q = new_sequence_fits [of rs g t, folded q_def]
  have dd: "pulses_ok d" "pd_pulses d = [t]" "pd_sequences d = []" "pd_last_ts d = t" "pd_count d \<noteq> 0"
    using d by (auto simp: tracks_def pulses_ok_def)
  have add: "pde_short_add_to_existing_seqs d (t + g) po = (0, d, po)"
    using dd by (simp add: pde_short_add_to_existing_seqs_def)
  obtain x p1 where x: "pool_get_pseq_elem e po = (Some x, p1)"
    using mem by (cases "po_seqs po") (auto simp: pool_get_pseq_elem_def radar_kmalloc_def radar_mem_def)
  have create: "pde_short_create_sequences e d (t + g) 0 po = (True, d\<lparr>pd_sequences := [q]\<rparr>, p1)"
    using dd spec x q fit t by (simp add: pde_short_create_sequences_def width_simps w16_id flip: q_def)
  have th: "3 \<le> burst_thresh rs g" using spec by simp
  have det: "pde_short_check_detection (d\<lparr>pd_sequences := [q]\<rparr>) = None"
    using q fit t th by (simp add: pde_short_check_detection_def complete_sequence_def)
  have ok: "pulses_ok (d\<lparr>pd_sequences := [q]\<rparr>)" using dd by (simp add: pulses_ok_def)
  from radar_enqueue_ok [OF mem ok, of "t + g" p1] obtain d3 p3 where
      e3: "pulse_queue_enqueue e (d\<lparr>pd_sequences := [q]\<rparr>) (t + g) p1 = (True, d3, p3)" "same_detector (d\<lparr>pd_sequences := [q]\<rparr>) d3" "pulses_ok d3"
        "pd_last_ts d3 = t + g" "pd_pulses d3 \<noteq> []" "length (pd_pulses d3) \<le> length (pd_pulses d) + 1" by auto
  have s3: "pd_rs d3 = rs" "pd_sequences d3 = [q]" "pd_freq d3 = pd_freq d" using e3(2) by (auto simp: same_detector_def)
  have "tracks d3 t g 2 (t + g)"
    using e3 dd s3 q fit t by (simp add: tracks_def follows_def)
  moreover have "\<not> w64 (t + g - pd_last_ts d) < rs_tol rs"
    using dd spec t by (simp add: width_simps)
  ultimately show ?thesis
    using dd s3 by (simp add: pde_short_add_pulse_def add create det e3(1))
qed

text \<open>Any pulse of a burst behind the first.\<close>

lemma burst_next:
  assumes fit: "pattern_fits (pd_rs d) g" and mem: "radar_mem e" and d: "tracks d t0 g k t" and k: "int k < burst_thresh (pd_rs d) g"
    and gap: "if k = 1 then t' = t + g else \<bar>t' - t - g\<bar> \<le> rs_tol (pd_rs d)"
    and t: "0 \<le> t0" "t0 \<le> t" "t' < 2 ^ 63" "t - t0 \<le> (int k - 1) * (g + rs_tol (pd_rs d))"
  shows "\<exists>r d' po'. pde_short_add_pulse e d t' po = (r, d', po')
     \<and> (if int k + 1 < burst_thresh (pd_rs d) g then r = None \<and> tracks d' t0 g (k + 1) t' \<and> pd_rs d' = pd_rs d \<and> pd_freq d' = pd_freq d
        else \<exists>q. r = Some q \<and> sq_count q = int k + 1 \<and> sq_pri q = g \<and> sq_first q = t0 \<and> sq_last q = t' \<and> sq_falses q = 0)"
proof (cases "k = 1")
  case True
  have th: "3 \<le> burst_thresh (pd_rs d) g" using fit by (simp add: pattern_fits_def)
  have "t = t0" using d True by (simp add: tracks_def)
  with burst_second [OF fit mem, of t po] d t gap True th show ?thesis by (fastforce simp: numeral_2_eq_2)
next
  case False
  then have k2: "2 \<le> k" "follows d t0 g k t" using d by (auto simp: tracks_def)
  have gap': "\<bar>t' - t - g\<bar> \<le> rs_tol (pd_rs d)" using gap False by simp
  have tr: "tracks d' t0 g (k + 1) t' = follows d' t0 g (k + 1) t'" for d' using k2(1) by (simp add: tracks_def)
  show ?thesis using burst_step [OF fit mem k2(2,1) k gap' t, of po] by (simp only: tr)
qed

end
