(* ===== verification/Radar_Detect.thy ===== *)
theory Radar_Detect
  imports Radar_Dfs Radar_Burst
begin

text \<open>
  The pattern detector as a whole: while memory lasts, a burst that fits a short pattern of the domain is reported at the latest with the pulse that
  reaches the threshold of the pattern, whatever the other patterns make of the pulses.
\<close>

section \<open>Finding the detector\<close>

lemma find_detector_busy:
  assumes "n < length l" "pd_freq (l ! n) = f" "pd_count (l ! n) \<noteq> 0" "\<And>m. m < length l \<Longrightarrow> m \<noteq> n \<Longrightarrow> pd_count (l ! m) = 0"
  shows "find_detector f b cur l = Some (b + n)"
  using assms
proof (induction l arbitrary: n b cur)
  case (Cons d ds)
  show ?case
  proof (cases n)
    case (Suc n')
    have c: "pd_count d = 0" using Cons.prems(4) [of 0] Suc by simp
    have rest: "pd_count (ds ! m) = 0" if "m < length ds" "m \<noteq> n'" for m using Cons.prems(4) [of "Suc m"] that Suc by simp
    have "find_detector f (b + 1) cur' ds = Some (b + 1 + n')" for cur'
      using Cons.prems Suc by (intro Cons.IH rest) auto
    then show ?thesis using c Suc by simp
  qed (use Cons.prems in simp)
qed simp

lemma find_detector_idle:
  assumes "\<forall>d \<in> set l. pd_count d = 0" "find_detector f b cur l = Some k"
  shows "cur = Some k \<or> b \<le> k \<and> k < b + length l \<and> pd_freq (l ! (k - b)) = f"
  using assms
proof (induction l arbitrary: b cur)
  case (Cons d ds)
  show ?case
  proof (cases "pd_freq d = f")
    case True
    then have "find_detector f (b + 1) (Some b) ds = Some k" using Cons.prems by simp
    from Cons.IH [OF _ this] have "Some b = Some k \<or> b + 1 \<le> k \<and> k < b + 1 + length ds \<and> pd_freq (ds ! (k - (b + 1))) = f" using Cons.prems by simp
    then show ?thesis using True by (auto simp: nth_Cons')
  next
    case False
    then have "find_detector f (b + 1) cur ds = Some k" using Cons.prems by simp
    from Cons.IH [OF _ this] have "cur = Some k \<or> b + 1 \<le> k \<and> k < b + 1 + length ds \<and> pd_freq (ds ! (k - (b + 1))) = f" using Cons.prems by simp
    then show ?thesis by (auto simp: nth_Cons')
  qed
qed simp

section \<open>Resets\<close>

lemma reset_list_map:
  "fst (reset_list P ts l po) = map (\<lambda>d. if P d then d\<lparr>pd_sequences := [], pd_pulses := [], pd_count := 0, pd_last_ts := ts\<rparr> else d) l"
  by (induction l arbitrary: po) (simp_all add: pri_detector_reset_def prod.case_eq_if)

lemma reset_lists_map:
  "fst (reset_lists P ts ls po) = map (map (\<lambda>d. if P d then d\<lparr>pd_sequences := [], pd_pulses := [], pd_count := 0, pd_last_ts := ts\<rparr> else d)) ls"
  by (induction ls arbitrary: po) (simp_all add: reset_list_map prod.case_eq_if)

text \<open>What a pulse leaves of a pattern detector whatever happens.\<close>

definition same_dfs :: "dfs_detector \<Rightarrow> dfs_detector \<Rightarrow> bool" where
  "same_dfs dp dp' \<longleftrightarrow> dp_region dp' = dp_region dp \<and> dp_num dp' = dp_num dp \<and> dp_specs dp' = dp_specs dp
     \<and> length (dp_lists dp') = length (dp_lists dp) \<and> dp_enabled dp' = dp_enabled dp"

definition wf_dfs :: "dfs_detector \<Rightarrow> bool" where
  "wf_dfs dp \<longleftrightarrow> dp_num dp = length (dp_specs dp) \<and> dp_num dp \<le> length (dp_lists dp)"

lemma wf_same_dfs: "same_dfs dp dp' \<Longrightarrow> wf_dfs dp' \<longleftrightarrow> wf_dfs dp"
  by (simp add: wf_dfs_def same_dfs_def)

section \<open>One pattern\<close>

lemma find_detector_range:
  "find_detector f b cur l = Some k \<Longrightarrow> cur = Some k \<or> b \<le> k \<and> k < b + length l"
  by (induction f b cur l rule: find_detector.induct) (auto split: if_splits)

lemma pattern_pulse_total:
  assumes "radar_mem e" "i < length (dp_lists dp)"
  shows "\<exists>r dp' po'. pattern_pulse e st dp f i po = Some (r, dp', po') \<and> same_dfs dp dp' \<and> dp_last_ts dp' = dp_last_ts dp
     \<and> (\<forall>m. m \<noteq> i \<longrightarrow> dp_lists dp' ! m = dp_lists dp ! m)"
proof (cases "find_detector f 0 None (dp_lists dp ! i)")
  case None
  from assms(1) have "ra_alloc e k" for k by (simp add: radar_mem_def)
  with None assms(2) show ?thesis
    by (simp add: pattern_pulse_def pri_detector_get_def pri_detector_init_def radar_kmalloc_def same_dfs_def Let_def prod.case_eq_if)
next
  case (Some k)
  with assms show ?thesis
    by (simp add: pattern_pulse_def pri_detector_get_def same_dfs_def prod.case_eq_if)
qed

lemma try_patterns_others:
  assumes "radar_mem e" "set is \<subseteq> {..<length (dp_lists dp)}" "i \<notin> set is"
  shows "\<exists>hit dp' po'. try_patterns e st j dp f len is po = Some (hit, dp', po')
     \<and> (\<not> hit \<longrightarrow> same_dfs dp dp' \<and> dp_last_ts dp' = dp_last_ts dp \<and> dp_lists dp' ! i = dp_lists dp ! i)"
  using assms
proof (induction "is" arbitrary: dp po)
  case Nil
  then show ?case by (auto simp: same_dfs_def)
next
  case (Cons m ms)
  show ?case
  proof (cases "rs_width_min (dp_specs dp ! m) > len \<or> rs_width_max (dp_specs dp ! m) < len")
    case True
    then show ?thesis using Cons by auto
  next
    case False
    obtain r dp1 p1 where pp: "pattern_pulse e st dp f m po = Some (r, dp1, p1)" "same_dfs dp dp1" "dp_last_ts dp1 = dp_last_ts dp"
      "\<forall>k. k \<noteq> m \<longrightarrow> dp_lists dp1 ! k = dp_lists dp ! k"
      using pattern_pulse_total [OF Cons.prems(1), of m dp st f po] Cons.prems(2) by auto
    show ?thesis
    proof (cases r)
      case None
      have len: "length (dp_lists dp1) = length (dp_lists dp)" using pp(2) by (simp add: same_dfs_def)
      from Cons.IH [of dp1 p1] Cons.prems len obtain hit dp' po' where
        "try_patterns e st j dp1 f len ms p1 = Some (hit, dp', po')"
        "\<not> hit \<longrightarrow> same_dfs dp1 dp' \<and> dp_last_ts dp' = dp_last_ts dp1 \<and> dp_lists dp' ! i = dp_lists dp1 ! i" by auto
      then show ?thesis using False None pp Cons.prems(3) by (auto simp: same_dfs_def)
    next
      case (Some q)
      obtain dp2 p2 where "dfs_pattern_detector_reset j dp1 p1 = (dp2, p2)" by (cases "dfs_pattern_detector_reset j dp1 p1")
      then show ?thesis using False Some pp by auto
    qed
  qed
qed

lemma try_patterns_at:
  assumes "radar_mem e" "set is \<subseteq> {..<length (dp_lists dp)}" "i \<in> set is" "distinct is"
    and width: "rs_width_min (dp_specs dp ! i) \<le> len" "len \<le> rs_width_max (dp_specs dp ! i)"
    and P: "\<And>dp1 p1. same_dfs dp dp1 \<Longrightarrow> dp_last_ts dp1 = dp_last_ts dp \<Longrightarrow> dp_lists dp1 ! i = dp_lists dp ! i \<Longrightarrow>
      \<exists>r dp2 p2. pattern_pulse e st dp1 f i p1 = Some (r, dp2, p2) \<and> Q r (dp_lists dp2 ! i)"
  shows "\<exists>hit dp' po'. try_patterns e st j dp f len is po = Some (hit, dp', po')
     \<and> (\<not> hit \<longrightarrow> same_dfs dp dp' \<and> dp_last_ts dp' = dp_last_ts dp \<and> Q None (dp_lists dp' ! i))"
  using assms
proof (induction "is" arbitrary: dp po)
  case (Cons m ms)
  show ?case
  proof (cases "m = i")
    case True
    obtain r dp1 p1 where pp: "pattern_pulse e st dp f m po = Some (r, dp1, p1)" "Q r (dp_lists dp1 ! i)"
      using Cons.prems(7) [of dp po] True by (auto simp: same_dfs_def)
    have pt: "same_dfs dp dp1" "dp_last_ts dp1 = dp_last_ts dp"
      using pattern_pulse_total [OF Cons.prems(1), of m dp st f po] Cons.prems(2) pp(1) by auto
    have w: "\<not> (rs_width_min (dp_specs dp ! m) > len \<or> rs_width_max (dp_specs dp ! m) < len)" using Cons.prems(5,6) True by auto
    show ?thesis
    proof (cases r)
      case None
      have len: "length (dp_lists dp1) = length (dp_lists dp)" using pt by (simp add: same_dfs_def)
      obtain hit dp' po' where
        "try_patterns e st j dp1 f len ms p1 = Some (hit, dp', po')"
        "\<not> hit \<longrightarrow> same_dfs dp1 dp' \<and> dp_last_ts dp' = dp_last_ts dp1 \<and> dp_lists dp' ! i = dp_lists dp1 ! i"
        using try_patterns_others [of e ms dp1 i st j f len p1] Cons.prems True len by auto
      then show ?thesis using w None pp pt by (auto simp: same_dfs_def)
    next
      case (Some q)
      obtain dp2 p2 where "dfs_pattern_detector_reset j dp1 p1 = (dp2, p2)" by (cases "dfs_pattern_detector_reset j dp1 p1")
      then show ?thesis using w Some pp by auto
    qed
  next
    case False
    have IH: "\<exists>hit dp' po'. try_patterns e st j dp1 f len ms p1 = Some (hit, dp', po')
       \<and> (\<not> hit \<longrightarrow> same_dfs dp1 dp' \<and> dp_last_ts dp' = dp_last_ts dp1 \<and> Q None (dp_lists dp' ! i))"
      if "same_dfs dp dp1" "dp_last_ts dp1 = dp_last_ts dp" "dp_lists dp1 ! i = dp_lists dp ! i" for dp1 p1
      using that Cons.prems(2-4) False
      by (intro Cons.IH Cons.prems) (auto simp: same_dfs_def intro!: Cons.prems(5-7))
    show ?thesis
    proof (cases "rs_width_min (dp_specs dp ! m) > len \<or> rs_width_max (dp_specs dp ! m) < len")
      case True
      then show ?thesis using IH [of dp po] by (auto simp: same_dfs_def)
    next
      case w: False
      obtain r dp1 p1 where pp: "pattern_pulse e st dp f m po = Some (r, dp1, p1)" "same_dfs dp dp1" "dp_last_ts dp1 = dp_last_ts dp"
        "\<forall>k. k \<noteq> m \<longrightarrow> dp_lists dp1 ! k = dp_lists dp ! k"
        using pattern_pulse_total [OF Cons.prems(1), of m dp st f po] Cons.prems(2) by auto
      show ?thesis
      proof (cases r)
        case None
        then show ?thesis using IH [of dp1 p1] pp w False by (auto simp: same_dfs_def)
      next
        case (Some q)
        obtain dp2 p2 where "dfs_pattern_detector_reset j dp1 p1 = (dp2, p2)" by (cases "dfs_pattern_detector_reset j dp1 p1")
        then show ?thesis using w Some pp by auto
      qed
    qed
  qed
qed simp

lemma try_all:
  assumes mem: "radar_mem e" and dp: "wf_dfs dp" "i < dp_num dp"
    and width: "rs_width_min (dp_specs dp ! i) \<le> len" "len \<le> rs_width_max (dp_specs dp ! i)"
    and P: "\<And>dp1 p1. same_dfs dp dp1 \<Longrightarrow> dp_last_ts dp1 = dp_last_ts dp \<Longrightarrow> dp_lists dp1 ! i = dp_lists dp ! i \<Longrightarrow>
      \<exists>r dp2 p2. pattern_pulse e st dp1 f i p1 = Some (r, dp2, p2) \<and> Q r (dp_lists dp2 ! i)"
  shows "\<exists>hit dp' po'. try_patterns e st j dp f len [0..<dp_num dp] po = Some (hit, dp', po')
     \<and> (\<not> hit \<longrightarrow> same_dfs dp dp' \<and> dp_last_ts dp' = dp_last_ts dp \<and> Q None (dp_lists dp' ! i))"
proof (rule try_patterns_at [OF mem _ _ _ width P])
  show "set [0..<dp_num dp] \<subseteq> {..<length (dp_lists dp)}" using dp(1) by (auto simp: wf_dfs_def)
qed (use dp in simp_all)

section \<open>A burst\<close>

text \<open>
  \<open>pattern_idle\<close>: the detectors of a pattern are idle, as after a reset, or there are none; \<open>following\<close>: one of them follows a burst and the others
  hold no pulse.
\<close>

definition pattern_idle :: "radar_specs \<Rightarrow> pri_detector list \<Rightarrow> bool" where
  "pattern_idle rs l \<longleftrightarrow> (\<forall>d \<in> set l. idle d \<and> pd_rs d = rs)"

definition following :: "radar_specs \<Rightarrow> int \<Rightarrow> int \<Rightarrow> int \<Rightarrow> nat \<Rightarrow> int \<Rightarrow> pri_detector list \<Rightarrow> bool" where
  "following rs f t0 g k t l \<longleftrightarrow> (\<exists>n < length l. tracks (l ! n) t0 g k t \<and> pd_rs (l ! n) = rs \<and> pd_freq (l ! n) = f
     \<and> (\<forall>m < length l. m \<noteq> n \<longrightarrow> pd_count (l ! m) = 0))"

lemma idle_count: "idle d \<Longrightarrow> pd_count d = 0"
  by (simp add: idle_def pulses_ok_def)

lemma tracks_count: "tracks d t0 g k t \<Longrightarrow> pd_count d \<noteq> 0"
  by (auto simp: tracks_def follows_def pulses_ok_def split: if_splits)

lemma first_pulse:
  assumes mem: "radar_mem e" and q: "pattern_idle rs (dp_lists dp ! i)" and i: "i < length (dp_lists dp)" and rs: "dp_specs dp ! i = rs" "pattern_fits rs g"
  shows "\<exists>dp' po'. pattern_pulse e st dp f i po = Some (None, dp', po') \<and> following rs f (dp_last_ts dp) g 1 (dp_last_ts dp) (dp_lists dp' ! i)"
proof (cases "find_detector f 0 None (dp_lists dp ! i)")
  case (Some k)
  define d where "d = dp_lists dp ! i ! k"
  have cnt: "\<forall>d \<in> set (dp_lists dp ! i). pd_count d = 0" using q by (auto simp: pattern_idle_def idle_count)
  from find_detector_idle [OF cnt Some] have k: "k < length (dp_lists dp ! i)" "pd_freq d = f" by (auto simp: d_def)
  have d: "idle d" "pd_rs d = rs" using q k(1) by (auto simp: pattern_idle_def d_def)
  obtain d' po' where a: "pde_short_add_pulse e d (dp_last_ts dp) po = (None, d', po')" "tracks d' (dp_last_ts dp) g 1 (dp_last_ts dp)" "pd_rs d' = pd_rs d"
    "pd_freq d' = pd_freq d"
    using burst_first [OF mem d(1), of "dp_last_ts dp" po g] by auto
  have "rs_type (pd_rs d) \<noteq> WAVE_LONG" using rs(2) d(2) by (simp add: pattern_fits_def)
  with a k i cnt d Some show ?thesis
    by (auto simp: pattern_pulse_def pri_detector_get_def add_pulse_op_def following_def nth_list_update simp flip: d_def intro!: exI [of _ k])
next
  case None
  have al: "ra_alloc e k" for k using mem by (simp add: radar_mem_def)
  define d where "d = pde_short_init \<lparr>pd_rs = rs, pd_last_ts = 0, pd_sequences = [], pd_pulses = [], pd_count = 0, pd_max_count = 0, pd_window = 0, pd_freq = f\<rparr>"
  have long: "rs_type rs \<noteq> WAVE_LONG" using rs(2) by (simp add: pattern_fits_def)
  have d: "idle d" "pd_rs d = rs" "pd_freq d = f"
    using rs(2) by (auto simp: d_def pde_short_init_def idle_def pulses_ok_def pattern_fits_def)
  define p1 where "p1 = pool_register_ref (po\<lparr>po_tries := po_tries po + 1\<rparr>)"
  obtain d' po' where a: "pde_short_add_pulse e d (dp_last_ts dp) p1 = (None, d', po')" "tracks d' (dp_last_ts dp) g 1 (dp_last_ts dp)" "pd_rs d' = pd_rs d"
    "pd_freq d' = pd_freq d"
    using burst_first [OF mem d(1), of "dp_last_ts dp" p1 g] by auto
  have get: "pri_detector_get e dp f i po = (Some 0, dp\<lparr>dp_lists := (dp_lists dp)[i := d # dp_lists dp ! i]\<rparr>, p1)"
    using None al rs(1) long by (simp add: pri_detector_get_def pri_detector_init_def radar_kmalloc_def Let_def d_def p1_def)
  have "following rs f (dp_last_ts dp) g 1 (dp_last_ts dp) (d' # dp_lists dp ! i)"
    using a d q by (auto simp: following_def pattern_idle_def idle_count nth_Cons' intro!: exI [of _ 0])
  moreover have "rs_type (pd_rs d) \<noteq> WAVE_LONG" using long d by simp
  ultimately show ?thesis
    using a i by (simp add: pattern_pulse_def get add_pulse_op_def)
qed

lemma next_pulse:
  assumes mem: "radar_mem e" and fl: "following rs f t0 g k t (dp_lists dp ! i)" and i: "i < length (dp_lists dp)" and rs: "pattern_fits rs g"
    and k: "int k < burst_thresh rs g" and gap: "if k = 1 then dp_last_ts dp = t + g else \<bar>dp_last_ts dp - t - g\<bar> \<le> rs_tol rs"
    and t: "0 \<le> t0" "t0 \<le> t" "dp_last_ts dp < 2 ^ 63" "t - t0 \<le> (int k - 1) * (g + rs_tol rs)"
  shows "\<exists>r dp' po'. pattern_pulse e st dp f i po = Some (r, dp', po')
     \<and> (if int k + 1 < burst_thresh rs g then r = None \<and> following rs f t0 g (k + 1) (dp_last_ts dp) (dp_lists dp' ! i) else r \<noteq> None)"
proof -
  from fl obtain n where n: "n < length (dp_lists dp ! i)" "tracks (dp_lists dp ! i ! n) t0 g k t" "pd_rs (dp_lists dp ! i ! n) = rs"
    "pd_freq (dp_lists dp ! i ! n) = f" "\<forall>m < length (dp_lists dp ! i). m \<noteq> n \<longrightarrow> pd_count (dp_lists dp ! i ! m) = 0"
    by (auto simp: following_def)
  define d where "d = dp_lists dp ! i ! n"
  note n = n [folded d_def]
  have find: "find_detector f 0 None (dp_lists dp ! i) = Some n"
    using find_detector_busy [of n "dp_lists dp ! i" f 0 None] n tracks_count [OF n(2)] by (simp add: d_def)
  have hyp: "pattern_fits (pd_rs d) g" "int k < burst_thresh (pd_rs d) g" "if k = 1 then dp_last_ts dp = t + g else \<bar>dp_last_ts dp - t - g\<bar> \<le> rs_tol (pd_rs d)"
    "t - t0 \<le> (int k - 1) * (g + rs_tol (pd_rs d))" using rs k gap t n(3) by auto
  obtain r d' po' where a: "pde_short_add_pulse e d (dp_last_ts dp) po = (r, d', po')"
     "if int k + 1 < burst_thresh rs g then r = None \<and> tracks d' t0 g (k + 1) (dp_last_ts dp) \<and> pd_rs d' = pd_rs d \<and> pd_freq d' = pd_freq d
        else \<exists>q. r = Some q"
    using burst_next [OF hyp(1) mem n(2) hyp(2,3) t(1,2,3) hyp(4), of po] n(3) by (auto split: if_splits)
  have "rs_type (pd_rs d) \<noteq> WAVE_LONG" using rs n(3) by (simp add: pattern_fits_def)
  then have pp: "pattern_pulse e st dp f i po = Some (r, dp\<lparr>dp_lists := (dp_lists dp)[i := (dp_lists dp ! i)[n := d']]\<rparr>, po')"
    using a by (simp add: pattern_pulse_def pri_detector_get_def find add_pulse_op_def flip: d_def)
  have "following rs f t0 g (k + 1) (dp_last_ts dp) ((dp_lists dp ! i)[n := d'])" if "int k + 1 < burst_thresh rs g"
    using a that n by (auto simp: following_def nth_list_update intro!: exI [of _ n])
  then show ?thesis using pp a i by auto
qed

section \<open>A run of reports\<close>

text \<open>A report: interval, width, and the clock when it is processed and when a detection resets the detector.\<close>

type_synonym radar_report = "int \<times> int \<times> int \<times> int"

fun dfs_run :: "radar_env \<Rightarrow> radar_status \<Rightarrow> int \<Rightarrow> radar_report list \<Rightarrow> dfs_detector \<Rightarrow> radar_pools \<Rightarrow> (bool \<times> dfs_detector \<times> radar_pools) option" where
  "dfs_run e st f [] dp po = Some (False, dp, po)"
| "dfs_run e st f ((pri, len, now, j) # rs) dp po =
    (case dfs_pattern_detector_add_pulse e st dp f pri len now j po of
       None \<Rightarrow> None
     | Some (hit, dp1, p1) \<Rightarrow> if hit then Some (True, dp1, p1) else dfs_run e st f rs dp1 p1)"

definition fits_width :: "radar_specs \<Rightarrow> radar_report \<Rightarrow> bool" where
  "fits_width rs r \<longleftrightarrow> rs_width_min rs \<le> fst (snd r) \<and> fst (snd r) \<le> rs_width_max rs"

text \<open>The reports of a burst behind its first pulse: the first interval is \<open>g\<close>, the others agree with it within the tolerance.\<close>

definition burst_of :: "radar_specs \<Rightarrow> int \<Rightarrow> radar_report list \<Rightarrow> bool" where
  "burst_of rs g l \<longleftrightarrow> (case l of [] \<Rightarrow> False | r # l' \<Rightarrow> fst r = g \<and> (\<forall>r \<in> set l. fits_width rs r \<and> \<bar>fst r - g\<bar> \<le> rs_tol rs))"

lemma later_pulse:
  assumes mem: "radar_mem e" and wf: "wf_dfs dp" "dp_region dp \<noteq> DFS_UNSET" and i: "i < dp_num dp" "dp_specs dp ! i = rs" "pattern_fits rs g"
    and fl: "following rs f t0 g k (dp_last_ts dp) (dp_lists dp ! i)" and k: "int k < burst_thresh rs g"
    and p: "if k = 1 then p = g else \<bar>p - g\<bar> \<le> rs_tol rs" and w: "rs_width_min rs \<le> len" "len \<le> rs_width_max rs"
    and t: "0 \<le> t0" "t0 \<le> dp_last_ts dp" "dp_last_ts dp + p < 2 ^ 63" "dp_last_ts dp - t0 \<le> (int k - 1) * (g + rs_tol rs)"
  shows "\<exists>hit dp' po'. dfs_pattern_detector_add_pulse e st dp f p len now j po = Some (hit, dp', po')
     \<and> (\<not> hit \<longrightarrow> int k + 1 < burst_thresh rs g \<and> same_dfs dp dp' \<and> dp_last_ts dp' = dp_last_ts dp + p
            \<and> following rs f t0 g (k + 1) (dp_last_ts dp + p) (dp_lists dp' ! i))"
proof -
  note spec = i(3) [unfolded pattern_fits_def]
  have p0: "0 < p" using p spec by (auto split: if_splits)
  define dp1 where "dp1 = dp\<lparr>dp_last_ts := dp_last_ts dp + p\<rparr>"
  have time: "pulse_time e dp p now po = (dp1, po)"
    using p0 t by (simp add: pulse_time_def dp1_def width_simps)
  define Q where "Q = (\<lambda>(r :: pri_sequence option) l. if int k + 1 < burst_thresh rs g
     then r = None \<and> following rs f t0 g (k + 1) (dp_last_ts dp + p) l else r \<noteq> None)"
  have at: "\<exists>r dp3 p3. pattern_pulse e st dp2 f i p2 = Some (r, dp3, p3) \<and> Q r (dp_lists dp3 ! i)"
    if "same_dfs dp1 dp2" "dp_last_ts dp2 = dp_last_ts dp1" "dp_lists dp2 ! i = dp_lists dp1 ! i" for dp2 p2
  proof -
    have eq: "dp_lists dp2 ! i = dp_lists dp ! i" "dp_last_ts dp2 = dp_last_ts dp + p" "i < length (dp_lists dp2)"
      using that i wf by (auto simp: dp1_def same_dfs_def wf_dfs_def)
    have h: "following rs f t0 g k (dp_last_ts dp) (dp_lists dp2 ! i)" "dp_last_ts dp2 < 2 ^ 63"
      "if k = 1 then dp_last_ts dp2 = dp_last_ts dp + g else \<bar>dp_last_ts dp2 - dp_last_ts dp - g\<bar> \<le> rs_tol rs"
      using fl p t eq by (auto split: if_splits)
    show ?thesis unfolding Q_def eq(2) [symmetric]
      using next_pulse [OF mem h(1) eq(3) i(3) k h(3) t(1,2) h(2) t(4), of st p2] by blast
  qed
  obtain hit dp' po' where tp: "try_patterns e st j dp1 f len [0..<dp_num dp] po = Some (hit, dp', po')"
     "\<not> hit \<longrightarrow> same_dfs dp1 dp' \<and> dp_last_ts dp' = dp_last_ts dp1 \<and> Q None (dp_lists dp' ! i)"
  proof -
    have "wf_dfs dp1" "i < dp_num dp1" "rs_width_min (dp_specs dp1 ! i) \<le> len" "len \<le> rs_width_max (dp_specs dp1 ! i)"
      using wf i w by (auto simp: dp1_def wf_dfs_def)
    from try_all [OF mem this at, of j po] that show ?thesis by (simp add: dp1_def) blast
  qed
  then show ?thesis
    using wf(2) by (auto simp: dfs_pattern_detector_add_pulse_def time dp1_def Q_def same_dfs_def split: if_splits)
qed

lemma burst_tail:
  assumes "radar_mem e" "wf_dfs dp" "dp_region dp \<noteq> DFS_UNSET" "i < dp_num dp" "dp_specs dp ! i = rs" "pattern_fits rs g"
    "following rs f t0 g k (dp_last_ts dp) (dp_lists dp ! i)" "int k + int (length l) = burst_thresh rs g" "l \<noteq> []" "1 \<le> k"
    "if k = 1 then burst_of rs g l else (\<forall>r \<in> set l. fits_width rs r \<and> \<bar>fst r - g\<bar> \<le> rs_tol rs)"
    "0 \<le> t0" "t0 \<le> dp_last_ts dp" "dp_last_ts dp - t0 \<le> (int k - 1) * (g + rs_tol rs)" "t0 + burst_thresh rs g * (g + rs_tol rs) < 2 ^ 63"
  shows "\<exists>dp' po'. dfs_run e st f l dp po = Some (True, dp', po')"
  using assms
proof (induction l arbitrary: dp k po)
  case (Cons r l)
  obtain p len now j where r: "r = (p, len, now, j)" by (cases r)
  have all: "\<forall>r \<in> set (r # l). fits_width rs r \<and> \<bar>fst r - g\<bar> \<le> rs_tol rs"
    using Cons.prems(11) by (auto simp: burst_of_def split: if_splits)
  have p: "if k = 1 then p = g else \<bar>p - g\<bar> \<le> rs_tol rs" using Cons.prems(11) r by (auto simp: burst_of_def split: if_splits)
  have w: "rs_width_min rs \<le> len" "len \<le> rs_width_max rs" and pt: "\<bar>p - g\<bar> \<le> rs_tol rs" using all r by (auto simp: fits_width_def)
  have g: "0 \<le> g + rs_tol rs" "rs_tol rs \<le> g" using Cons.prems(6) by (auto simp: pattern_fits_def)
  have lt: "int k < burst_thresh rs g" using Cons.prems(8) by simp
  have gap: "dp_last_ts dp + p - t0 \<le> (int (k + 1) - 1) * (g + rs_tol rs)"
    using Cons.prems(14) pt by (auto simp: algebra_simps)
  also have "\<dots> \<le> burst_thresh rs g * (g + rs_tol rs)" using lt g by (intro mult_right_mono) auto
  finally have fin: "dp_last_ts dp + p < 2 ^ 63" using Cons.prems(15) by simp
  obtain hit dp1 p1 where ap: "dfs_pattern_detector_add_pulse e st dp f p len now j po = Some (hit, dp1, p1)"
    "\<not> hit \<longrightarrow> int k + 1 < burst_thresh rs g \<and> same_dfs dp dp1 \<and> dp_last_ts dp1 = dp_last_ts dp + p
            \<and> following rs f t0 g (k + 1) (dp_last_ts dp + p) (dp_lists dp1 ! i)"
    using later_pulse [OF Cons.prems(1-7) lt p w Cons.prems(12,13) fin Cons.prems(14), of st now j po] by auto
  show ?case
  proof (cases hit)
    case True
    then show ?thesis using ap r by simp
  next
    case False
    note h = ap(2) [rule_format, OF False]
    have "l \<noteq> []" using h Cons.prems(8) by auto
    moreover have "wf_dfs dp1" "dp_region dp1 \<noteq> DFS_UNSET" "i < dp_num dp1" "dp_specs dp1 ! i = rs"
      using h Cons.prems by (auto simp: same_dfs_def wf_dfs_def)
    moreover have "t0 \<le> dp_last_ts dp1" using h Cons.prems(13) pt g by auto
    moreover have "dp_last_ts dp1 - t0 \<le> (int (k + 1) - 1) * (g + rs_tol rs)" using h gap by simp
    ultimately have "\<exists>dp' po'. dfs_run e st f l dp1 p1 = Some (True, dp', po')"
      using h Cons.prems(1,6,8,10,12,15) all by (intro Cons.IH [of dp1 "k + 1" p1]) auto
    then show ?thesis using ap r False by simp
  qed
qed simp

lemma quiet_after_time:
  assumes "pulse_time e dp p now po = (dp1, po1)" "pattern_idle rs (dp_lists dp ! i)" "i < dp_num dp" "wf_dfs dp"
  shows "pattern_idle rs (dp_lists dp1 ! i) \<and> same_dfs dp dp1"
proof (cases "p = 0")
  case False
  then show ?thesis using assms(1,2) by (auto simp: pulse_time_def same_dfs_def)
next
  case True
  define dp2 where "dp2 = dp\<lparr>dp_last_ts := w64 (dp_last_ts dp + w32 (ra_usecs e (w32 (if now < dp_prev_jiffies dp
     then 4294967295 - dp_prev_jiffies dp + now else now - dp_prev_jiffies dp)))), dp_prev_jiffies := now\<rparr>"
  have r: "dp1 = fst (dfs_pattern_detector_pri_overflow dp2 po)"
    using assms(1) True by (simp add: pulse_time_def Let_def dp2_def)
  have len: "i < length (dp_lists dp)" using assms(3,4) by (simp add: wf_dfs_def)
  have "dp_lists dp1 ! i = map (\<lambda>d. if rs_type (pd_rs d) \<noteq> WAVE_LONG
       then d\<lparr>pd_sequences := [], pd_pulses := [], pd_count := 0, pd_last_ts := dp_last_ts dp2\<rparr> else d) (dp_lists dp ! i)"
    using assms(3,4) len
    by (simp add: r dfs_pattern_detector_pri_overflow_def reset_detectors_def prod.case_eq_if reset_lists_map nth_append dp2_def wf_dfs_def)
  moreover have "same_dfs dp dp1"
    using assms(4) by (simp add: r dfs_pattern_detector_pri_overflow_def reset_detectors_def prod.case_eq_if reset_lists_map same_dfs_def dp2_def wf_dfs_def)
  ultimately show ?thesis
    using assms(2) by (auto simp: pattern_idle_def idle_def pulses_ok_def)
qed

lemma dfs_burst:
  assumes mem: "radar_mem e" and wf: "wf_dfs dp" "dp_region dp \<noteq> DFS_UNSET" and i: "i < dp_num dp" "dp_specs dp ! i = rs" "pattern_fits rs g"
    and q: "pattern_idle rs (dp_lists dp ! i)" and first: "fits_width rs (p, len, now, j)" and l: "burst_of rs g l" "int (length l) + 1 = burst_thresh rs g"
    and t: "dp_last_ts (fst (pulse_time e dp p now po)) = t0" "0 \<le> t0" "t0 + burst_thresh rs g * (g + rs_tol rs) < 2 ^ 63"
  shows "\<exists>dp' po'. dfs_run e st f ((p, len, now, j) # l) dp po = Some (True, dp', po')"
proof -
  obtain dp1 po1 where time: "pulse_time e dp p now po = (dp1, po1)" by (cases "pulse_time e dp p now po")
  note qt = quiet_after_time [OF time q i(1) wf(1)]
  have dp1: "wf_dfs dp1" "dp_region dp1 \<noteq> DFS_UNSET" "i < dp_num dp1" "dp_specs dp1 ! i = rs" "dp_last_ts dp1 = t0" "dp_num dp1 = dp_num dp"
    using qt wf i t(1) time by (auto simp: same_dfs_def wf_dfs_def)
  define Q where "Q = (\<lambda>(r :: pri_sequence option) l. r = None \<and> following rs f t0 g 1 t0 l)"
  have at: "\<exists>r dp3 p3. pattern_pulse e st dp2 f i p2 = Some (r, dp3, p3) \<and> Q r (dp_lists dp3 ! i)"
    if "same_dfs dp1 dp2" "dp_last_ts dp2 = dp_last_ts dp1" "dp_lists dp2 ! i = dp_lists dp1 ! i" for dp2 p2
  proof -
    have "pattern_idle rs (dp_lists dp2 ! i)" "i < length (dp_lists dp2)" "dp_specs dp2 ! i = rs" "dp_last_ts dp2 = t0"
      using that qt dp1 by (auto simp: same_dfs_def wf_dfs_def)
    from first_pulse [OF mem this(1,2,3) i(3), of st f p2] show ?thesis
      using that(2) dp1(5) by (auto simp: Q_def)
  qed
  obtain hit dp' po' where tp: "try_patterns e st j dp1 f len [0..<dp_num dp1] po1 = Some (hit, dp', po')"
     "\<not> hit \<longrightarrow> same_dfs dp1 dp' \<and> dp_last_ts dp' = dp_last_ts dp1 \<and> Q None (dp_lists dp' ! i)"
  proof -
    have "rs_width_min (dp_specs dp1 ! i) \<le> len" "len \<le> rs_width_max (dp_specs dp1 ! i)"
      using dp1 first by (auto simp: fits_width_def)
    from try_all [OF mem dp1(1,3) this at, of j po1] that show ?thesis by blast
  qed
  have ap: "dfs_pattern_detector_add_pulse e st dp f p len now j po = Some (hit, dp', po')"
    using wf(2) tp(1) by (simp add: dfs_pattern_detector_add_pulse_def time)
  show ?thesis
  proof (cases hit)
    case True
    then show ?thesis using ap by simp
  next
    case False
    note h = tp(2) [rule_format, OF False, unfolded Q_def]
    have ne: "l \<noteq> []" using l(1) by (auto simp: burst_of_def)
    have d: "wf_dfs dp'" "dp_region dp' \<noteq> DFS_UNSET" "i < dp_num dp'" "dp_specs dp' ! i = rs" "following rs f t0 g 1 (dp_last_ts dp') (dp_lists dp' ! i)"
      "int 1 + int (length l) = burst_thresh rs g" "if (1 :: nat) = 1 then burst_of rs g l else (\<forall>r \<in> set l. fits_width rs r \<and> \<bar>fst r - g\<bar> \<le> rs_tol rs)"
      "t0 \<le> dp_last_ts dp'" "dp_last_ts dp' - t0 \<le> (int 1 - 1) * (g + rs_tol rs)"
      using h dp1 l by (auto simp: same_dfs_def wf_dfs_def)
    have "\<exists>dp'' po''. dfs_run e st f l dp' po' = Some (True, dp'', po'')"
      by (rule burst_tail [OF mem d(1-4) i(3) d(5,6) ne _ d(7) t(2) d(8,9) t(3)]) simp
    then show ?thesis using ap False by simp
  qed
qed

end
