(* ===== verification/Radar_Driver.thy ===== *)
theory Radar_Driver
  imports Radar_Dfs
begin

text \<open>
  The driver's side of radar detection: the ring of reported pulses (\<^verbatim>\<open>rwnx_msg_rx.c\<close>), the work that processes them, the channel availability check
  (\<^verbatim>\<open>rwnx_radar.c\<close>, \<^verbatim>\<open>rwnx_msg_tx.c\<close>) and the channel contexts (\<^verbatim>\<open>rwnx_main.c\<close>).  \<open>None\<close> is a dereferenced null pointer or an index outside an array.
  \<open>ir\<close> is \<^verbatim>\<open>CONFIG_RADAR_OR_IR_DETECT\<close>, which the Makefile sets to \<open>n\<close>.
\<close>

section \<open>State\<close>

record chan_def =
  cd_freq1 :: int
  cd_radar :: bool                    \<comment> \<open>\<^verbatim>\<open>IEEE80211_CHAN_RADAR\<close>\<close>

text \<open>A channel context: \<open>cx_chan\<close> says whether \<^verbatim>\<open>chan_def.chan\<close> is set.\<close>

record chanctx =
  cx_chan :: bool
  cx_def :: chan_def
  cx_count :: int

record pulse_ring =
  pr_index :: nat
  pr_count :: nat
  pr_buffer :: "int list"

record radar_detected_tab =
  dt_index :: nat
  dt_count :: int
  dt_time :: "int list"
  dt_freq :: "int list"

record radar_dump =
  du_cnt :: int
  du_idx :: nat
  du_ps :: "int list"
  du_tm :: "int list"
  du_ts :: "int list"

datatype radar_event = CAC_FINISHED | CAC_ABORTED

datatype radar_out = OutCac nat chan_def radar_event | OutRadar chan_def | OutStartCac nat | OutStopCac nat

record radar_hw =
  rr_pulses :: "pulse_ring list"
  rr_dpd :: "dfs_detector option list"
  rr_detected :: "radar_detected_tab list"
  rr_rmem :: "radar_dump option"
  rr_status :: radar_status
  rr_sta_num :: int
  rr_work :: bool                     \<comment> \<open>\<^verbatim>\<open>detection_work\<close> is pending\<close>
  rr_cac_work :: bool                 \<comment> \<open>\<^verbatim>\<open>cac_work\<close> is pending\<close>
  rr_cac_vif :: "nat option"
  rr_ctxs :: "chanctx list"
  rr_cur :: nat
  rr_vifs :: "nat list"               \<comment> \<open>\<^verbatim>\<open>ch_index\<close> of each interface\<close>
  rr_sec_freq :: int
  rr_pools :: radar_pools
  rr_out :: "radar_out list"

definition RWNX_RADAR_PULSE_MAX :: nat where "RWNX_RADAR_PULSE_MAX = 32"
definition RADAR_PULSE_MAX :: nat where "RADAR_PULSE_MAX = 4"
definition NX_NB_RADAR_DETECTED :: nat where "NX_NB_RADAR_DETECTED = 4"
definition RWNX_RADARR_DUMP_NB :: nat where "RWNX_RADARR_DUMP_NB = 32"
definition NX_CHAN_CTXT_CNT :: nat where "NX_CHAN_CTXT_CNT = 3"
definition RWNX_CH_NOT_SET :: nat where "RWNX_CH_NOT_SET = 255"

definition chain_no :: "radar_chain \<Rightarrow> nat" where
  "chain_no c = (case c of RADAR_RIU \<Rightarrow> 0 | RADAR_FCU \<Rightarrow> 1)"

definition s16 :: "int \<Rightarrow> int" where
  "s16 x = (if x mod 2 ^ 16 < 2 ^ 15 then x mod 2 ^ 16 else x mod 2 ^ 16 - 2 ^ 16)"

text \<open>The bit fields of \<open>struct radar_pulse\<close>.\<close>

definition pulse_freq :: "int \<Rightarrow> int" where
  "pulse_freq p = (if p mod 64 < 32 then p mod 64 else p mod 64 - 64)"

definition pulse_len :: "int \<Rightarrow> int" where "pulse_len p = p div 1024 mod 64"
definition pulse_rep :: "int \<Rightarrow> int" where "pulse_rep p = p div 65536 mod 65536"

section \<open>Channel contexts\<close>

definition rwnx_radar_detection_enable :: "radar_detect \<Rightarrow> radar_chain \<Rightarrow> radar_hw \<Rightarrow> radar_hw option" where
  "rwnx_radar_detection_enable en c hw =
    (case rr_dpd hw ! chain_no c of None \<Rightarrow> None | Some dp \<Rightarrow> Some (hw\<lparr>rr_dpd := (rr_dpd hw)[chain_no c := Some (dp\<lparr>dp_enabled := en\<rparr>)]\<rparr>))"

definition rwnx_radar_detection_is_enable :: "nat \<Rightarrow> radar_hw \<Rightarrow> bool option" where
  "rwnx_radar_detection_is_enable idx hw =
    (if idx \<ge> length (rr_dpd hw) then None else (case rr_dpd hw ! idx of None \<Rightarrow> None | Some dp \<Rightarrow> Some (dp_enabled dp \<noteq> DETECT_DISABLE)))"

definition rwnx_chanctx_link :: "nat \<Rightarrow> nat \<Rightarrow> chan_def option \<Rightarrow> radar_hw \<Rightarrow> radar_hw" where
  "rwnx_chanctx_link v ch cd hw =
    (if ch \<ge> NX_CHAN_CTXT_CNT then hw
     else (let cx = (rr_ctxs hw ! ch)\<lparr>cx_count := w8 (cx_count (rr_ctxs hw ! ch) + 1)\<rparr>;
               cx1 = (case cd of Some d \<Rightarrow> if \<not> cx_chan cx then cx\<lparr>cx_chan := True, cx_def := d\<rparr> else cx | None \<Rightarrow> cx)
           in hw\<lparr>rr_vifs := (rr_vifs hw)[v := ch], rr_ctxs := (rr_ctxs hw)[ch := cx1]\<rparr>))"

definition rwnx_chanctx_unlink :: "nat \<Rightarrow> radar_hw \<Rightarrow> radar_hw option" where
  "rwnx_chanctx_unlink v hw =
    (let ch = rr_vifs hw ! v
     in if ch = RWNX_CH_NOT_SET then Some hw
        else if ch \<ge> length (rr_ctxs hw) then None
        else (let cx = rr_ctxs hw ! ch;
                  cx1 = (if cx_count cx = 0 then cx else cx\<lparr>cx_count := cx_count cx - 1\<rparr>);
                  hw1 = hw\<lparr>rr_ctxs := (rr_ctxs hw)[ch := cx1]\<rparr>
              in do {
                hw2 \<leftarrow> (if cx_count cx1 = 0
                        then do {
                          h \<leftarrow> (if ch = rr_cur hw1 then rwnx_radar_detection_enable DETECT_DISABLE RADAR_RIU hw1 else Some hw1);
                          Some (h\<lparr>rr_ctxs := (rr_ctxs h)[ch := cx1\<lparr>cx_chan := False\<rparr>]\<rparr>) }
                        else Some hw1);
                Some (hw2\<lparr>rr_vifs := (rr_vifs hw2)[v := RWNX_CH_NOT_SET]\<rparr>) }))"

definition rwnx_chanctx_valid :: "radar_hw \<Rightarrow> nat \<Rightarrow> bool" where
  "rwnx_chanctx_valid hw ch \<longleftrightarrow> \<not> (ch \<ge> NX_CHAN_CTXT_CNT \<or> \<not> cx_chan (rr_ctxs hw ! ch))"

definition rwnx_radar_detection_enable_on_cur_channel :: "radar_hw \<Rightarrow> radar_hw option" where
  "rwnx_radar_detection_enable_on_cur_channel hw =
    (if \<not> rwnx_chanctx_valid hw (rr_cur hw) then Some hw
     else rwnx_radar_detection_enable (if cd_radar (cx_def (rr_ctxs hw ! rr_cur hw)) then DETECT_REPORT else DETECT_DISABLE) RADAR_RIU hw)"

section \<open>The channel availability check\<close>

definition radar_emit :: "radar_out \<Rightarrow> radar_hw \<Rightarrow> radar_hw" where
  "radar_emit o1 hw = hw\<lparr>rr_out := rr_out hw @ [o1]\<rparr>"

definition rwnx_send_apm_start_cac_req :: "radar_env \<Rightarrow> bool \<Rightarrow> nat \<Rightarrow> radar_hw \<Rightarrow> radar_hw" where
  "rwnx_send_apm_start_cac_req e ir v hw =
    (if \<not> ra_msg e then hw else radar_emit (OutStartCac v) (if ir then hw\<lparr>rr_status := CAC_BUSY\<rparr> else hw))"

definition rwnx_send_apm_stop_cac_req :: "radar_env \<Rightarrow> bool \<Rightarrow> nat \<Rightarrow> radar_hw \<Rightarrow> radar_hw" where
  "rwnx_send_apm_stop_cac_req e ir v hw =
    (if \<not> ra_msg e then hw else radar_emit (OutStopCac v) (if ir then hw\<lparr>rr_status := CAC_DONE\<rparr> else hw))"

definition rwnx_radar_start_cac :: "nat \<Rightarrow> radar_hw \<Rightarrow> radar_hw" where
  "rwnx_radar_start_cac v hw = hw\<lparr>rr_cac_vif := Some v, rr_cac_work := True\<rparr>"

definition rwnx_radar_cancel_cac :: "radar_env \<Rightarrow> bool \<Rightarrow> radar_hw \<Rightarrow> radar_hw option" where
  "rwnx_radar_cancel_cac e ir hw =
    (case rr_cac_vif hw of
       None \<Rightarrow> Some hw
     | Some v \<Rightarrow> do {
         hw1 \<leftarrow> (if rr_cac_work hw
                 then if rr_vifs hw ! v \<ge> length (rr_ctxs hw) then None
                      else rwnx_chanctx_unlink v
                             (radar_emit (OutCac v (cx_def (rr_ctxs hw ! (rr_vifs hw ! v))) (if ra_new_kernel e then CAC_FINISHED else CAC_ABORTED))
                               (rwnx_send_apm_stop_cac_req e ir v (hw\<lparr>rr_cac_work := False\<rparr>)))
                 else Some hw);
         Some (hw1\<lparr>rr_cac_vif := None\<rparr>) })"

text \<open>The delayed work, when its time has come.\<close>

definition rwnx_radar_cac_work :: "radar_env \<Rightarrow> bool \<Rightarrow> radar_hw \<Rightarrow> radar_hw option" where
  "rwnx_radar_cac_work e ir hw0 =
    (let hw = hw0\<lparr>rr_cac_work := False\<rparr>
     in case rr_cac_vif hw of
       None \<Rightarrow> Some hw
     | Some v \<Rightarrow>
         if rr_vifs hw ! v \<ge> length (rr_ctxs hw) then None
         else do {
           hw1 \<leftarrow> rwnx_chanctx_unlink v
                    (rwnx_send_apm_stop_cac_req e ir v (radar_emit (OutCac v (cx_def (rr_ctxs hw ! (rr_vifs hw ! v))) CAC_FINISHED) hw));
           Some (hw1\<lparr>rr_cac_vif := None\<rparr>) })"

text \<open>\<open>cfm\<close> is what \<^verbatim>\<open>struct apm_start_cac_cfm\<close> holds after the request: whether its status is \<^verbatim>\<open>CO_OK\<close>, and the channel context.\<close>

definition rwnx_cfg80211_start_radar_detection :: "radar_env \<Rightarrow> bool \<Rightarrow> nat \<Rightarrow> chan_def \<Rightarrow> bool \<times> nat \<Rightarrow> radar_hw \<Rightarrow> (bool \<times> radar_hw) option" where
  "rwnx_cfg80211_start_radar_detection e ir v cd cfm hw =
    (let hw1 = rwnx_send_apm_start_cac_req e ir v (rwnx_radar_start_cac v hw)
     in if \<not> fst cfm then Some (False, hw1)
        else (let hw2 = rwnx_chanctx_link v (snd cfm) (Some cd) hw1
              in if rr_cur hw2 = rr_vifs hw2 ! v
                 then do { hw3 \<leftarrow> rwnx_radar_detection_enable DETECT_REPORT RADAR_RIU hw2; Some (True, hw3) }
                 else Some (True, hw2)))"

text \<open>The parts of \<^verbatim>\<open>rwnx_send_me_sta_add\<close> and \<^verbatim>\<open>rwnx_send_me_sta_del\<close> that follow the stations of an access point.\<close>

definition radar_sta_add :: "bool \<Rightarrow> radar_hw \<Rightarrow> radar_hw" where
  "radar_sta_add ir hw =
    (if \<not> ir then hw
     else hw\<lparr>rr_status := (if rr_sta_num hw = 0 \<and> rr_status hw \<noteq> INSERVICE_BUSY then INSERVICE_BUSY else rr_status hw),
             rr_sta_num := (if rr_sta_num hw < 0x0FFF then rr_sta_num hw + 1 else rr_sta_num hw)\<rparr>)"

definition radar_sta_del :: "bool \<Rightarrow> radar_hw \<Rightarrow> radar_hw" where
  "radar_sta_del ir hw =
    (if \<not> ir then hw
     else hw\<lparr>rr_status := (if rr_sta_num hw = 1 \<and> rr_status hw = INSERVICE_BUSY then INSERVICE_DONE else rr_status hw),
             rr_sta_num := (if rr_sta_num hw > 0 then rr_sta_num hw - 1 else rr_sta_num hw)\<rparr>)"

section \<open>Pulses\<close>

definition ring_put :: "int \<Rightarrow> pulse_ring \<Rightarrow> pulse_ring" where
  "ring_put p r = r\<lparr>pr_buffer := (pr_buffer r)[pr_index r := p], pr_index := (pr_index r + 1) mod RWNX_RADAR_PULSE_MAX,
     pr_count := (if pr_count r < RWNX_RADAR_PULSE_MAX then pr_count r + 1 else pr_count r)\<rparr>"

definition rwnx_radar_detect_ind :: "nat \<Rightarrow> int list \<Rightarrow> nat \<Rightarrow> radar_hw \<Rightarrow> radar_hw option" where
  "rwnx_radar_detect_ind cnt pulse idx hw =
    (if cnt = 0 then Some hw
     else do {
       en \<leftarrow> rwnx_radar_detection_is_enable idx hw;
       if \<not> en then Some hw
       else if cnt > RADAR_PULSE_MAX then None
       else Some (hw\<lparr>rr_pulses := (rr_pulses hw)[idx := fold ring_put (take cnt pulse) (rr_pulses hw ! idx)], rr_work := True\<rparr>) })"

text \<open>The copy of a ring that the work takes.\<close>

definition ring_copy :: "pulse_ring \<Rightarrow> int list" where
  "ring_copy r =
    (let count = pr_count r;
         start = (if pr_index r < count then pr_index r + RWNX_RADAR_PULSE_MAX - count else pr_index r - count)
     in if count = 0 then []
        else if start + count > RWNX_RADAR_PULSE_MAX
        then (let count1 = RWNX_RADAR_PULSE_MAX - start in take count1 (drop start (pr_buffer r)) @ take (count - count1) (pr_buffer r))
        else take count (drop start (pr_buffer r)))"

definition rwnx_radar_get_center_freq :: "radar_hw \<Rightarrow> radar_chain \<Rightarrow> int" where
  "rwnx_radar_get_center_freq hw c =
    (case c of RADAR_FCU \<Rightarrow> rr_sec_freq hw
     | RADAR_RIU \<Rightarrow> if rwnx_chanctx_valid hw (rr_cur hw) then cd_freq1 (cx_def (rr_ctxs hw ! rr_cur hw)) else 0)"

definition rwnx_radar_detected :: "radar_env \<Rightarrow> bool \<Rightarrow> radar_hw \<Rightarrow> radar_hw option" where
  "rwnx_radar_detected e ir hw =
    (if \<not> rwnx_chanctx_valid hw (rr_cur hw) then Some hw
     else do { hw1 \<leftarrow> rwnx_radar_cancel_cac e ir hw; Some (radar_emit (OutRadar (cx_def (rr_ctxs hw ! rr_cur hw))) hw1) })"

text \<open>The trace of the pulses of the operating chain (\<^verbatim>\<open>RWNX_RADAR_DUMP_EN\<close>).\<close>

definition dump_pulse :: "radar_env \<Rightarrow> radar_chain \<Rightarrow> int \<Rightarrow> int \<Rightarrow> radar_hw \<Rightarrow> radar_hw option" where
  "dump_pulse e c now p hw =
    (if c \<noteq> RADAR_RIU then Some hw
     else do {
       rm \<leftarrow> rr_rmem hw;
       dp \<leftarrow> rr_dpd hw ! chain_no c;
       let ts = (if pulse_rep p = 0
                 then w64 (dp_last_ts dp + w32 (ra_usecs e (w32 (if now < dp_prev_jiffies dp then 4294967295 - dp_prev_jiffies dp + now
                                                              else now - dp_prev_jiffies dp))))
                 else w64 (dp_last_ts dp + pulse_rep p));
       Some (hw\<lparr>rr_rmem := Some \<lparr>du_cnt = w32 (du_cnt rm + 1), du_idx = (du_idx rm + 1) mod RWNX_RADARR_DUMP_NB, du_ps = (du_ps rm)[du_idx rm := p],
                 du_tm = (du_tm rm)[du_idx rm := now], du_ts = (du_ts rm)[du_idx rm := ts]\<rparr>\<rparr>) })"

definition note_radar :: "int \<Rightarrow> int \<Rightarrow> radar_detected_tab \<Rightarrow> radar_detected_tab" where
  "note_radar t f d = d\<lparr>dt_freq := (dt_freq d)[dt_index d := s16 f], dt_time := (dt_time d)[dt_index d := t],
     dt_index := (dt_index d + 1) mod NX_NB_RADAR_DETECTED, dt_count := w16 (dt_count d + 1)\<rparr>"

text \<open>A pulse that completes a pattern.\<close>

definition pattern_found :: "radar_env \<Rightarrow> bool \<Rightarrow> radar_chain \<Rightarrow> int \<Rightarrow> int \<Rightarrow> radar_hw \<Rightarrow> radar_hw option" where
  "pattern_found e ir c t f hw =
    do {
      hw1 \<leftarrow> (if c = RADAR_RIU \<and> map_option dp_enabled (rr_dpd hw ! 0) = Some DETECT_REPORT
              then do {
                h \<leftarrow> rwnx_radar_detected e ir hw;
                h1 \<leftarrow> rwnx_radar_detection_enable DETECT_DISABLE c h;
                Some (h1\<lparr>rr_pulses := (rr_pulses h1)[0 := (rr_pulses h1 ! 0)\<lparr>pr_count := 0\<rparr>]\<rparr>) }
              else Some hw);
      Some (hw1\<lparr>rr_detected := (rr_detected hw1)[chain_no c := note_radar t f (rr_detected hw1 ! chain_no c)]\<rparr>) }"

fun process_pulses :: "radar_env \<Rightarrow> bool \<Rightarrow> radar_chain \<Rightarrow> int \<Rightarrow> int \<Rightarrow> int \<Rightarrow> int \<Rightarrow> int list \<Rightarrow> radar_hw \<Rightarrow> radar_hw option" where
  "process_pulses e ir c freq now j t [] hw = Some hw"
| "process_pulses e ir c freq now j t (p # ps) hw =
    do {
      hw1 \<leftarrow> dump_pulse e c now p hw;
      if rr_status hw1 \<noteq> CAC_BUSY \<and> rr_status hw1 \<noteq> INSERVICE_BUSY then Some hw1
      else do {
        dp \<leftarrow> rr_dpd hw1 ! chain_no c;
        (hit, dp1, po) \<leftarrow> dfs_pattern_detector_add_pulse e (rr_status hw1) dp (w16 (s16 freq + 2 * pulse_freq p)) (pulse_rep p) (pulse_len p * 2)
                           now j (rr_pools hw1);
        let hw2 = hw1\<lparr>rr_dpd := (rr_dpd hw1)[chain_no c := Some dp1], rr_pools := po\<rparr>;
        if hit then pattern_found e ir c t (s16 freq + 2 * pulse_freq p) hw2 else process_pulses e ir c freq now j t ps hw2 } }"

definition process_chain :: "radar_env \<Rightarrow> bool \<Rightarrow> int \<Rightarrow> int \<Rightarrow> int \<Rightarrow> radar_chain \<Rightarrow> int list \<Rightarrow> radar_hw \<Rightarrow> radar_hw option" where
  "process_chain e ir now j t c ps hw = (if ps = [] then Some hw else process_pulses e ir c (rwnx_radar_get_center_freq hw c) now j t ps hw)"

definition rwnx_radar_process_pulse :: "radar_env \<Rightarrow> bool \<Rightarrow> int \<Rightarrow> int \<Rightarrow> int \<Rightarrow> radar_hw \<Rightarrow> radar_hw option" where
  "rwnx_radar_process_pulse e ir now j t hw =
    do {
      hw1 \<leftarrow> process_chain e ir (w32 now) j t RADAR_RIU (ring_copy (rr_pulses hw ! 0))
               (hw\<lparr>rr_pulses := map (\<lambda>r. r\<lparr>pr_count := 0\<rparr>) (rr_pulses hw), rr_work := False\<rparr>);
      process_chain e ir (w32 now) j t RADAR_FCU (ring_copy (rr_pulses hw ! 1)) hw1 }"

section \<open>Start and stop\<close>

definition rwnx_radar_init_rmem :: "radar_env \<Rightarrow> radar_hw \<Rightarrow> radar_hw" where
  "rwnx_radar_init_rmem e hw =
    (let zero = \<lparr>du_cnt = 0, du_idx = 0, du_ps = replicate RWNX_RADARR_DUMP_NB 0, du_tm = replicate RWNX_RADARR_DUMP_NB 0,
                 du_ts = replicate RWNX_RADARR_DUMP_NB 0\<rparr>
     in case rr_rmem hw of
       Some _ \<Rightarrow> hw\<lparr>rr_rmem := Some zero\<rparr>
     | None \<Rightarrow> (case radar_kmalloc e (rr_pools hw) of (ok, po) \<Rightarrow> hw\<lparr>rr_rmem := (if ok then Some zero else None), rr_pools := po\<rparr>))"

definition exit_chain :: "radar_chain \<Rightarrow> radar_hw \<Rightarrow> radar_hw" where
  "exit_chain c hw =
    (case rr_dpd hw ! chain_no c of
       None \<Rightarrow> hw
     | Some dp \<Rightarrow> hw\<lparr>rr_dpd := (rr_dpd hw)[chain_no c := None], rr_pools := dfs_pattern_detector_exit dp (rr_pools hw)\<rparr>)"

definition rwnx_radar_detection_deinit :: "radar_hw \<Rightarrow> radar_hw" where
  "rwnx_radar_detection_deinit hw = (exit_chain RADAR_FCU (exit_chain RADAR_RIU hw))\<lparr>rr_rmem := None\<rparr>"

definition rwnx_radar_detection_init :: "radar_env \<Rightarrow> int \<Rightarrow> radar_hw \<Rightarrow> bool \<times> radar_hw" where
  "rwnx_radar_detection_init e j hw =
    (case dfs_pattern_detector_init e j DFS_UNSET RADAR_RIU (rr_pools hw) of (d0, p0) \<Rightarrow>
       (let hw0 = hw\<lparr>rr_dpd := (rr_dpd hw)[0 := d0], rr_pools := p0\<rparr>
        in if d0 = None then (False, hw0)
           else (case dfs_pattern_detector_init e j DFS_UNSET RADAR_FCU (rr_pools hw0) of (d1, p1) \<Rightarrow>
             (let hw1 = (rwnx_radar_init_rmem e (hw0\<lparr>rr_dpd := (rr_dpd hw0)[1 := d1], rr_pools := p1\<rparr>))\<lparr>rr_status := RADAR_IDLE\<rparr>
              in if d1 = None then (False, rwnx_radar_detection_deinit hw1) else (True, hw1\<lparr>rr_cac_vif := None\<rparr>)))))"

definition set_chain_domain :: "dfs_region \<Rightarrow> radar_chain \<Rightarrow> radar_hw \<Rightarrow> (bool \<times> radar_hw) option" where
  "set_chain_domain region c hw =
    (case rr_dpd hw ! chain_no c of
       None \<Rightarrow> None
     | Some dp \<Rightarrow> (case dfs_pattern_detector_set_domain dp region c (rr_pools hw) of
         (ok, dp1, po) \<Rightarrow> Some (ok, hw\<lparr>rr_dpd := (rr_dpd hw)[chain_no c := Some dp1], rr_pools := po\<rparr>)))"

definition rwnx_radar_set_domain :: "dfs_region \<Rightarrow> radar_hw \<Rightarrow> (bool \<times> radar_hw) option" where
  "rwnx_radar_set_domain region hw =
    (if rr_dpd hw ! 0 = None then Some (False, hw)
     else do {
       (ok, hw1) \<leftarrow> set_chain_domain region RADAR_RIU hw;
       if \<not> ok then Some (False, hw1) else set_chain_domain region RADAR_FCU hw1 })"

end
