(* ===== verification/Radar_Mem.thy ===== *)
theory Radar_Mem
  imports Radar_Detect Radar_Driver
begin

text \<open>
  Where the elements of the pools are: every pulse and sequence that was allocated is in its pool or in exactly one detector, and the pools count
  the detectors.
\<close>

named_theorems account_intros \<open>operations keep the accounts\<close>

definition accounts :: "radar_pools \<Rightarrow> nat \<Rightarrow> nat \<Rightarrow> nat \<Rightarrow> bool" where
  "accounts po np ns nd \<longleftrightarrow> po_live_pulses po = po_pulses po + np \<and> po_live_seqs po = length (po_seqs po) + ns \<and> po_refs po = nd
     \<and> (nd = 0 \<longrightarrow> po_pulses po = 0 \<and> po_seqs po = [])"

text \<open>One detector beside others that hold \<open>a\<close> pulses and \<open>b\<close> sequences.\<close>

definition acc :: "pri_detector \<Rightarrow> radar_pools \<Rightarrow> nat \<Rightarrow> nat \<Rightarrow> nat \<Rightarrow> bool" where
  "acc d po a b c \<longleftrightarrow> 0 < c \<and> accounts po (a + length (pd_pulses d)) (b + length (pd_sequences d)) c"

lemma acc_dequeue: "pulse_queue_dequeue d po = (r, d', po') \<Longrightarrow> acc d po a b c \<Longrightarrow> acc d' po' a b c"
  by (cases "pd_pulses d" rule: rev_cases)
    (auto simp: pulse_queue_dequeue_def pulse_queue_get_tail_def acc_def accounts_def pool_put_pulse_elem_def Let_def)

lemma acc_dequeue_older: "dequeue_older m d po = (d', po') \<Longrightarrow> acc d po a b c \<Longrightarrow> acc d' po' a b c"
proof (induction m d po arbitrary: d' po' rule: dequeue_older.induct)
  case (1 m d po)
  then show ?case
    by (subst (asm) (2) dequeue_older.simps) (auto split: option.splits if_splits prod.splits dest: acc_dequeue)
qed

lemma acc_check_window: "pulse_queue_check_window d po = (d', po') \<Longrightarrow> acc d po a b c \<Longrightarrow> acc d' po' a b c"
  by (auto simp: pulse_queue_check_window_def split: if_splits dest: acc_dequeue_older)

lemma acc_enqueue:
  assumes "pulse_queue_enqueue e d ts po = (r, d', po')" "acc d po a b c"
  shows "acc d' po' a b c"
proof -
  obtain ok p1 where get: "(case pool_get_pulse_elem po of
         (True, p1) \<Rightarrow> (True, p1)
       | (False, p1) \<Rightarrow> (case radar_kmalloc e p1 of (ok, p2) \<Rightarrow> (ok, if ok then p2\<lparr>po_live_pulses := po_live_pulses p2 + 1\<rparr> else p2))) = (ok, p1)"
    by (cases "(case pool_get_pulse_elem po of
         (True, p1) \<Rightarrow> (True, p1)
       | (False, p1) \<Rightarrow> (case radar_kmalloc e p1 of (ok, p2) \<Rightarrow> (ok, if ok then p2\<lparr>po_live_pulses := po_live_pulses p2 + 1\<rparr> else p2)))")
  show ?thesis
  proof (cases ok)
    case False
    then show ?thesis using assms get
      by (cases "po_pulses po = 0") (auto simp: pulse_queue_enqueue_def pool_get_pulse_elem_def radar_kmalloc_def acc_def accounts_def)
  next
    case True
    define d1 where "d1 = d\<lparr>pd_pulses := ts # pd_pulses d, pd_count := w32 (pd_count d + 1), pd_last_ts := ts\<rparr>"
    have a1: "acc d1 p1 a b c"
      using assms(2) get True by (cases "po_pulses po = 0") (auto simp: pool_get_pulse_elem_def radar_kmalloc_def acc_def accounts_def d1_def)
    obtain d2 p2 where cw: "pulse_queue_check_window d1 p1 = (d2, p2)" by (cases "pulse_queue_check_window d1 p1")
    have a2: "acc d2 p2 a b c" by (rule acc_check_window [OF cw a1])
    show ?thesis
      using assms(1) get True a2
      by (auto simp: pulse_queue_enqueue_def cw simp flip: d1_def split: if_splits prod.splits dest: acc_dequeue)
  qed
qed

lemma acc_get_seq: "pool_get_pseq_elem e po = (r, po') \<Longrightarrow> 0 < nd \<Longrightarrow> accounts po np ns nd \<Longrightarrow> accounts po' np (if r = None then ns else ns + 1) nd"
  by (auto simp: pool_get_pseq_elem_def radar_kmalloc_def accounts_def split: list.splits if_splits)

lemma acc_create:
  "create_sequences e rs ts m i l sqs po = (ok, sqs', po') \<Longrightarrow> 0 < nd \<Longrightarrow> accounts po np (b + length sqs) nd \<Longrightarrow> accounts po' np (b + length sqs') nd"
proof (induction e rs ts m i l sqs po rule: create_sequences.induct)
  case (2 e rs ts min_count idx p ps sqs po)
  define q where "q = new_sequence rs ts p (w16 (idx + 1)) ps"
  show ?case
  proof (cases "w32 (ts - p) < rs_pri_min rs \<or> w32 (ts - p) > rs_pri_max rs \<or> sq_count q \<le> min_count")
    case True
    then show ?thesis using 2 by (auto simp: Let_def q_def split: if_splits)
  next
    case False
    obtain x p1 where g: "pool_get_pseq_elem e po = (x, p1)" by (cases "pool_get_pseq_elem e po")
    note a = acc_get_seq [OF g "2.prems"(2,3)]
    show ?thesis
    proof (cases x)
      case None
      then show ?thesis using "2.prems"(1) False g a by (auto simp: Let_def simp flip: q_def split: if_splits)
    next
      case (Some y)
      then have "create_sequences e rs ts min_count (w16 (idx + 1)) ps (q # sqs) p1 = (ok, sqs', po')"
        using "2.prems"(1) False g by (auto simp: Let_def simp flip: q_def split: if_splits)
      moreover have "accounts p1 np (b + length (q # sqs)) nd" using a Some by simp
      ultimately show ?thesis
        using "2.IH"(3) [OF refl _ _ q_def _ g [unfolded Some, symmetric] refl] False "2.prems"(2) by (auto simp: Let_def)
    qed
  qed
qed simp

lemma acc_add_to_seqs:
  "add_to_seqs tol ts sqs m po = (m', sqs', po') \<Longrightarrow> 0 < nd \<Longrightarrow> accounts po np (b + length sqs) nd \<Longrightarrow> accounts po' np (b + length sqs') nd"
proof (induction sqs arbitrary: m m' sqs' po po' b)
  case (Cons q qs)
  show ?case
  proof (cases "ts > sq_deadline q")
    case True
    then have "add_to_seqs tol ts qs m (pool_put_pseq_elem q po) = (m', sqs', po')" using Cons.prems(1) by simp
    then show ?thesis
      by (rule Cons.IH) (use Cons.prems(2,3) in \<open>simp_all add: accounts_def pool_put_pseq_elem_def\<close>)
  next
    case False
    obtain m1 m2 rest where r: "add_to_seqs tol ts qs m1 po = (m2, rest, po')" "length sqs' = Suc (length rest)"
      using Cons.prems(1) False by (auto simp: Let_def split: prod.splits if_splits)
    have "accounts po' np (Suc b + length rest) nd" by (rule Cons.IH [OF r(1)]) (use Cons.prems(2,3) in simp_all)
    then show ?thesis using r(2) by simp
  qed
qed simp

lemma acc_reset: "pri_detector_reset d ts po = (d', po') \<Longrightarrow> acc d po a b c \<Longrightarrow> acc d' po' a b c \<and> pd_pulses d' = [] \<and> pd_sequences d' = []"
  by (auto simp: pri_detector_reset_def acc_def accounts_def)

lemma acc_short:
  assumes "pde_short_add_pulse e d ts po = (r, d', po')" "acc d po a b c"
  shows "acc d' po' a b c"
proof -
  consider "pd_count d = 0" | "pd_count d \<noteq> 0" "w64 (ts - pd_last_ts d) < rs_tol (pd_rs d)" | "pd_count d \<noteq> 0" "\<not> w64 (ts - pd_last_ts d) < rs_tol (pd_rs d)"
    by blast
  then show ?thesis
  proof cases
    case 1
    then show ?thesis using assms by (auto simp: pde_short_add_pulse_def split: prod.splits dest: acc_enqueue)
  next
    case 2
    then show ?thesis using assms by (auto simp: pde_short_add_pulse_def)
  next
    case 3
    obtain m d1 p1 where a1: "pde_short_add_to_existing_seqs d ts po = (m, d1, p1)" by (cases "pde_short_add_to_existing_seqs d ts po") auto
    obtain ok d2 p2 where c1: "pde_short_create_sequences e d1 ts m p1 = (ok, d2, p2)" by (cases "pde_short_create_sequences e d1 ts m p1") auto
    have "acc d1 p1 a b c"
      using a1 assms(2) by (auto simp: pde_short_add_to_existing_seqs_def acc_def split: prod.splits intro: acc_add_to_seqs)
    then have a2: "acc d2 p2 a b c"
      using c1 by (auto simp: pde_short_create_sequences_def acc_def split: prod.splits intro: acc_create)
    show ?thesis
      using assms(1) 3 a1 c1 a2
      by (auto simp: pde_short_add_pulse_def split: bool.splits option.splits prod.splits dest: acc_enqueue acc_reset)
  qed
qed

lemma acc_long_restart: "long_restart m q d po = (q', d', po') \<Longrightarrow> acc d po a b c \<Longrightarrow> acc d' po' a b c"
proof (induction m q d po arbitrary: q' d' po' rule: long_restart.induct)
  case (1 m q d po)
  then show ?case
    by (subst (asm) (2) long_restart.simps) (auto split: option.splits if_splits prod.splits dest: acc_dequeue)
qed

lemma same_seqs_enqueue: "pulse_queue_enqueue e d ts po = (r, d', po') \<Longrightarrow> pd_sequences d' = pd_sequences d"
proof -
  have dq: "pd_sequences d' = pd_sequences d" if "pulse_queue_dequeue d po = (x, d', po')" for d po x d' po'
    using dequeue_keeps [OF that] by (simp add: same_detector_def)
  have "pd_sequences d' = pd_sequences d" if "pulse_queue_check_window d po = (d', po')" for d po d' po'
    using that dequeue_older_keeps by (fastforce simp: pulse_queue_check_window_def same_detector_def split: if_splits)
  then show "pulse_queue_enqueue e d ts po = (r, d', po') \<Longrightarrow> pd_sequences d' = pd_sequences d"
    by (auto simp: pulse_queue_enqueue_def split: prod.splits bool.splits if_splits) (metis dq pri_detector.select_convs(3) pri_detector.surjective pri_detector.update_convs)+
qed

lemma long_restart_seqs: "long_restart m q d po = (q', d', po') \<Longrightarrow> pd_sequences d' = pd_sequences d"
proof (induction m q d po arbitrary: q' d' po' rule: long_restart.induct)
  case (1 m q d po)
  have dq: "pd_sequences d' = pd_sequences d" if "pulse_queue_dequeue d po = (x, d', po')" for x d' po'
    using dequeue_keeps [OF that] by (simp add: same_detector_def)
  from 1 show ?case
    by (subst (asm) (2) long_restart.simps) (auto split: option.splits if_splits prod.splits dest: dq)
qed

lemma acc_set_seqs: "acc d po a b c \<Longrightarrow> length sqs = length (pd_sequences d) \<Longrightarrow> acc (d\<lparr>pd_sequences := sqs\<rparr>) po a b c"
  by (simp add: acc_def)

lemma acc_new_burst:
  assumes "long_new_burst e q qs delta ts d po = (r, d', po')" "acc d po a b c" "length (pd_sequences d) = Suc (length qs)"
  shows "acc d' po' a b c"
proof -
  define q1 where "q1 = q\<lparr>sq_count := w32 (sq_count q + 1), sq_falses := 1\<rparr>"
  obtain q2 d2 p2 where b: "(if ts > sq_deadline q1 then long_restart (w64 (ts - pd_window d)) q1 d po else (q1, d, po)) = (q2, d2, p2)"
    by (cases "if ts > sq_deadline q1 then long_restart (w64 (ts - pd_window d)) q1 d po else (q1, d, po)")
  have a2: "acc d2 p2 a b c" "length (pd_sequences d2) = Suc (length qs)"
    using b assms(2,3) by (auto split: if_splits dest: acc_long_restart long_restart_seqs)
  obtain x d3 p3 where en: "pulse_queue_enqueue e d2 ts p2 = (x, d3, p3)" by (cases "pulse_queue_enqueue e d2 ts p2") auto
  have a3: "acc d3 p3 a b c" "length (pd_sequences d3) = Suc (length qs)"
    using acc_enqueue [OF en a2(1)] same_seqs_enqueue [OF en] a2(2) by auto
  show ?thesis
    using assms(1) a2 a3 by (auto simp: long_new_burst_def b en Let_def simp flip: q1_def split: if_splits intro!: acc_set_seqs)
qed

lemma acc_long:
  assumes "pde_long_add_pulse e st d ts po = (r, d', po')" "acc d po a b c"
  shows "acc d' po' a b c"
proof (cases "st \<noteq> CAC_BUSY")
  case True
  then show ?thesis using assms by (simp add: pde_long_add_pulse_def)
next
  case False
  show ?thesis
  proof (cases "pd_sequences d")
    case Nil
    obtain x p1 where g: "pool_get_pseq_elem e po = (x, p1)" by (cases "pool_get_pseq_elem e po")
    show ?thesis
    proof (cases x)
      case None
      then show ?thesis using assms False Nil g acc_get_seq [OF g] by (auto simp: pde_long_add_pulse_def acc_def)
    next
      case (Some q)
      define d1 where "d1 = d\<lparr>pd_sequences := [q\<lparr>sq_count := 1, sq_falses := 1, sq_first := ts, sq_last := ts,
                     sq_deadline := w64 (ts + pd_window d), sq_pri := 0\<rparr>]\<rparr>"
      have "acc d1 p1 a b c" using assms(2) Some Nil acc_get_seq [OF g] by (auto simp: acc_def d1_def)
      then show ?thesis
        using assms(1) False Nil g Some by (auto simp: pde_long_add_pulse_def simp flip: d1_def split: prod.splits dest: acc_enqueue)
    qed
  next
    case (Cons q qs)
    then show ?thesis
      using assms False by (auto simp: pde_long_add_pulse_def Let_def split: if_splits dest: acc_new_burst intro!: acc_set_seqs)
  qed
qed

lemma acc_add_pulse: "add_pulse_op e st d ts po = (r, d', po') \<Longrightarrow> acc d po a b c \<Longrightarrow> acc d' po' a b c"
  by (auto simp: add_pulse_op_def split: if_splits dest: acc_short acc_long)

section \<open>All detectors of a chain\<close>

definition tot :: "('a \<Rightarrow> nat) \<Rightarrow> 'a list list \<Rightarrow> nat" where
  "tot f ls = sum_list (map (\<lambda>l. sum_list (map f l)) ls)"

lemma tot_simps [simp]: "tot f [] = 0" "tot f (l # ls) = sum_list (map f l) + tot f ls" "tot f (xs @ ys) = tot f xs + tot f ys"
  by (simp_all add: tot_def)

lemma tot_split: "i < length ls \<Longrightarrow> tot f (ls[i := l]) + sum_list (map f (ls ! i)) = tot f ls + sum_list (map f l)"
  by (induction ls arbitrary: i) (auto split: nat.splits)

lemma sum_list_put: "k < length l \<Longrightarrow> sum_list (map f (l[k := d])) + f (l ! k) = sum_list (map f l) + (f d :: nat)"
  by (induction l arbitrary: k) (auto split: nat.splits)

text \<open>The accounts of the detectors \<open>ls\<close> beside what others hold.\<close>

definition accs :: "pri_detector list list \<Rightarrow> radar_pools \<Rightarrow> nat \<Rightarrow> nat \<Rightarrow> nat \<Rightarrow> bool" where
  "accs ls po a b c \<longleftrightarrow> accounts po (a + tot (\<lambda>d. length (pd_pulses d)) ls) (b + tot (\<lambda>d. length (pd_sequences d)) ls) (c + tot (\<lambda>_. 1) ls)"

lemma accs_one:
  assumes i: "i < length ls" "k < length (ls ! i)" and a: "accs ls po a b c"
    and op: "\<And>a b c. acc (ls ! i ! k) po a b c \<Longrightarrow> acc d' po' a b c"
  shows "accs (ls[i := (ls ! i)[k := d']]) po' a b c"
proof -
  have s: "tot f (ls[i := (ls ! i)[k := d']]) + f (ls ! i ! k) = tot f ls + f d'" for f
    using tot_split [OF i(1), of f "(ls ! i)[k := d']"] sum_list_put [OF i(2), of f d'] by linarith
  note s1 = s [of "\<lambda>d. length (pd_pulses d)"] and s2 = s [of "\<lambda>d. length (pd_sequences d)"] and s3 = s [of "\<lambda>_. 1"]
  have le: "f (ls ! i ! k) \<le> tot f ls" for f
  proof -
    have "tot f (ls[i := (ls ! i)[k := d']]) = tot f ls + f d' - f (ls ! i ! k)" using s [of f] by linarith
    have "f (ls ! i ! k) \<le> sum_list (map f (ls ! i))" using i(2) by (intro member_le_sum_list) auto
    also have "\<dots> \<le> tot f ls" using i(1) unfolding tot_def by (intro member_le_sum_list) auto
    finally show ?thesis .
  qed
  note l1 = le [of "\<lambda>d. length (pd_pulses d)"] and l2 = le [of "\<lambda>d. length (pd_sequences d)"]
  obtain np where np: "a + tot (\<lambda>d. length (pd_pulses d)) ls = np + length (pd_pulses (ls ! i ! k))"
    using l1 by (metis le_add2 le_Suc_ex add.commute le_trans)
  obtain ns where ns: "b + tot (\<lambda>d. length (pd_sequences d)) ls = ns + length (pd_sequences (ls ! i ! k))"
    using l2 by (metis le_add2 le_Suc_ex add.commute le_trans)
  have "acc (ls ! i ! k) po np ns (c + tot (\<lambda>_. 1) ls)"
    using a np ns le [of "\<lambda>_. 1"] by (simp add: acc_def accs_def)
  from op [OF this] have "accounts po' (np + length (pd_pulses d')) (ns + length (pd_sequences d')) (c + tot (\<lambda>_. 1) ls)"
    by (simp add: acc_def)
  moreover have "np + length (pd_pulses d') = a + tot (\<lambda>d. length (pd_pulses d)) (ls[i := (ls ! i)[k := d']])" using s1 np by linarith
  moreover have "ns + length (pd_sequences d') = b + tot (\<lambda>d. length (pd_sequences d)) (ls[i := (ls ! i)[k := d']])" using s2 ns by linarith
  moreover have "tot (\<lambda>_. 1) (ls[i := (ls ! i)[k := d']]) = tot (\<lambda>_. 1) ls" using s3 by simp
  ultimately show ?thesis by (simp only: accs_def)
qed

lemma accs_get:
  assumes "pri_detector_get e dp f i po = (r, dp', po')" "i < length (dp_lists dp)" "accs (dp_lists dp) po a b c"
  shows "accs (dp_lists dp') po' a b c \<and> same_dfs dp dp' \<and> dp_last_ts dp' = dp_last_ts dp \<and> (\<forall>m. m \<noteq> i \<longrightarrow> dp_lists dp' ! m = dp_lists dp ! m)
     \<and> (case r of None \<Rightarrow> True | Some k \<Rightarrow> k < length (dp_lists dp' ! i))"
proof (cases "find_detector f 0 None (dp_lists dp ! i)")
  case (Some k)
  then show ?thesis
    using assms find_detector_range [OF Some] by (auto simp: pri_detector_get_def same_dfs_def split: option.splits)
next
  case None
  have init: "pri_detector_init e dp i f po = (r, dp', po')" using None assms(1) by (simp add: pri_detector_get_def)
  show ?thesis
  proof (cases "ra_alloc e (po_tries po)")
    case False
    then show ?thesis using init assms by (auto simp: pri_detector_init_def radar_kmalloc_def same_dfs_def accs_def accounts_def)
  next
    case True
    define d where "d = \<lparr>pd_rs = dp_specs dp ! i, pd_last_ts = 0, pd_sequences = [], pd_pulses = [], pd_count = 0, pd_max_count = 0, pd_window = 0, pd_freq = f\<rparr>"
    define d1 where "d1 = (if rs_type (pd_rs d) = WAVE_LONG then pde_long_init d else pde_short_init d)"
    have d1: "pd_pulses d1 = []" "pd_sequences d1 = []" by (simp_all add: d1_def d_def pde_long_init_def pde_short_init_def)
    have eq: "r = Some 0" "dp' = dp\<lparr>dp_lists := (dp_lists dp)[i := d1 # dp_lists dp ! i]\<rparr>"
      "po' = pool_register_ref (po\<lparr>po_tries := po_tries po + 1\<rparr>)"
      using init True by (auto simp: pri_detector_init_def radar_kmalloc_def Let_def d1_def d_def)
    have "tot g ((dp_lists dp)[i := d1 # dp_lists dp ! i]) = tot g (dp_lists dp) + g d1" for g
      using tot_split [OF assms(2), of g "d1 # dp_lists dp ! i"] by simp
    then show ?thesis
      using assms(2,3) d1 by (auto simp: eq accs_def accounts_def pool_register_ref_def same_dfs_def)
  qed
qed

lemma accs_pattern_pulse:
  assumes "pattern_pulse e st dp f i po = Some (r, dp', po')" "i < length (dp_lists dp)" "accs (dp_lists dp) po a b c"
  shows "accs (dp_lists dp') po' a b c \<and> same_dfs dp dp' \<and> dp_last_ts dp' = dp_last_ts dp \<and> (\<forall>m. m \<noteq> i \<longrightarrow> dp_lists dp' ! m = dp_lists dp ! m)"
proof -
  obtain x dp1 p1 where g: "pri_detector_get e dp f i po = (x, dp1, p1)" by (cases "pri_detector_get e dp f i po") auto
  note gk = accs_get [OF g assms(2,3)]
  obtain k where x: "x = Some k" using assms(1) g by (auto simp: pattern_pulse_def split: option.splits)
  obtain d p2 where a: "add_pulse_op e st (dp_lists dp1 ! i ! k) (dp_last_ts dp1) p1 = (r, d, p2)"
    "dp' = dp1\<lparr>dp_lists := (dp_lists dp1)[i := (dp_lists dp1 ! i)[k := d]]\<rparr>" "po' = p2"
    using assms(1) g x by (auto simp: pattern_pulse_def split: prod.splits)
  have "i < length (dp_lists dp1)" "k < length (dp_lists dp1 ! i)" using gk assms(2) x by (auto simp: same_dfs_def)
  then have "accs ((dp_lists dp1)[i := (dp_lists dp1 ! i)[k := d]]) p2 a b c"
    by (rule accs_one) (use gk acc_add_pulse [OF a(1)] in blast)+
  then have "accs (dp_lists dp') po' a b c" using a by simp
  then show ?thesis using gk a by (auto simp: same_dfs_def)
qed

end
