(* ===== verification/Radar_Run.thy ===== *)
theory Radar_Run
  imports Radar_Mem
begin

text \<open>
  Everything that happens to radar detection as steps of the driver state, with the invariant of every reachable state: the memory of the detectors is
  accounted for, and the lists behind the patterns of the domain are empty.
\<close>

section \<open>The accounts of a chain\<close>

lemma accs_reset_list:
  "reset_list P ts l po = (l', po') \<Longrightarrow> length l \<le> c \<Longrightarrow> accounts po (a + sum_list (map (\<lambda>d. length (pd_pulses d)) l)) (b + sum_list (map (\<lambda>d. length (pd_sequences d)) l)) c
   \<Longrightarrow> accounts po' (a + sum_list (map (\<lambda>d. length (pd_pulses d)) l')) (b + sum_list (map (\<lambda>d. length (pd_sequences d)) l')) c \<and> length l' = length l"
proof (induction l arbitrary: po l' po' a b)
  case (Cons d ds)
  obtain d1 p1 where h: "(if P d then pri_detector_reset d ts po else (d, po)) = (d1, p1)" by (cases "if P d then pri_detector_reset d ts po else (d, po)")
  obtain r where r: "reset_list P ts ds p1 = (r, po')" "l' = d1 # r" using Cons.prems(1) h by (auto split: prod.splits)
  have "acc d po (a + sum_list (map (\<lambda>d. length (pd_pulses d)) ds)) (b + sum_list (map (\<lambda>d. length (pd_sequences d)) ds)) c"
    using Cons.prems by (simp add: acc_def algebra_simps)
  then have "acc d1 p1 (a + sum_list (map (\<lambda>d. length (pd_pulses d)) ds)) (b + sum_list (map (\<lambda>d. length (pd_sequences d)) ds)) c"
    using h acc_reset [of d ts po d1 p1] by (auto split: if_splits)
  then have "accounts p1 ((a + length (pd_pulses d1)) + sum_list (map (\<lambda>d. length (pd_pulses d)) ds))
     ((b + length (pd_sequences d1)) + sum_list (map (\<lambda>d. length (pd_sequences d)) ds)) c"
    by (simp add: acc_def algebra_simps)
  from Cons.IH [OF r(1) _ this] Cons.prems(2) show ?case by (simp add: r(2) algebra_simps)
qed simp

lemma sum_ones: "sum_list (map (\<lambda>_. Suc 0) l) = length l"
  by (induction l) auto

lemma accs_reset_lists:
  "reset_lists P ts ls po = (ls', po') \<Longrightarrow> accs ls po a b c \<Longrightarrow> accs ls' po' a b c \<and> length ls' = length ls"
proof (induction ls arbitrary: po ls' po' a b c)
  case (Cons l ls)
  obtain l1 p1 where h: "reset_list P ts l po = (l1, p1)" by (cases "reset_list P ts l po")
  obtain r where r: "reset_lists P ts ls p1 = (r, po')" "ls' = l1 # r" using Cons.prems(1) h by (auto split: prod.splits)
  have "accounts po ((a + tot (\<lambda>d. length (pd_pulses d)) ls) + sum_list (map (\<lambda>d. length (pd_pulses d)) l))
     ((b + tot (\<lambda>d. length (pd_sequences d)) ls) + sum_list (map (\<lambda>d. length (pd_sequences d)) l)) (c + tot (\<lambda>_. 1) (l # ls))"
    using Cons.prems(2) by (simp add: accs_def algebra_simps)
  note l1 = accs_reset_list [OF h _ this]
  have "accs ls p1 (a + sum_list (map (\<lambda>d. length (pd_pulses d)) l1)) (b + sum_list (map (\<lambda>d. length (pd_sequences d)) l1)) (c + length l1)"
    using l1 by (simp add: accs_def algebra_simps sum_ones)
  from Cons.IH [OF r(1) this] show ?case by (simp add: r(2) accs_def algebra_simps sum_ones)
qed simp

lemma tot_cong_take: "tot f ls = tot f (take n ls) + tot f (drop n ls)"
  using tot_simps(3) [of f "take n ls" "drop n ls"] by simp

lemma accs_append: "accs (xs @ ys) po a b c \<longleftrightarrow> accs xs po (a + tot (\<lambda>d. length (pd_pulses d)) ys) (b + tot (\<lambda>d. length (pd_sequences d)) ys) (c + tot (\<lambda>_. 1) ys)"
  by (simp add: accs_def ac_simps)

lemma accs_append2: "accs (xs @ ys) po a b c \<longleftrightarrow> accs ys po (a + tot (\<lambda>d. length (pd_pulses d)) xs) (b + tot (\<lambda>d. length (pd_sequences d)) xs) (c + tot (\<lambda>_. 1) xs)"
  by (simp add: accs_def ac_simps)

text \<open>The lists behind the patterns of the domain are empty.\<close>

definition dfs_wf :: "dfs_detector \<Rightarrow> bool" where
  "dfs_wf dp \<longleftrightarrow> wf_dfs dp \<and> length (dp_lists dp) = get_dfs_max_radar_types \<and> (\<forall>l \<in> set (drop (dp_num dp) (dp_lists dp)). l = [])"

lemma accs_reset_detectors:
  assumes "reset_detectors P dp po = (dp', po')" "accs (dp_lists dp) po a b c" "dfs_wf dp"
  shows "accs (dp_lists dp') po' a b c \<and> dfs_wf dp'"
proof -
  obtain ls where r: "reset_lists P (dp_last_ts dp) (take (dp_num dp) (dp_lists dp)) po = (ls, po')" "dp' = dp\<lparr>dp_lists := ls @ drop (dp_num dp) (dp_lists dp)\<rparr>"
    using assms(1) by (auto simp: reset_detectors_def split: prod.splits)
  have "accs (take (dp_num dp) (dp_lists dp) @ drop (dp_num dp) (dp_lists dp)) po a b c" using assms(2) by simp
  then have "accs (take (dp_num dp) (dp_lists dp)) po (a + tot (\<lambda>d. length (pd_pulses d)) (drop (dp_num dp) (dp_lists dp)))
     (b + tot (\<lambda>d. length (pd_sequences d)) (drop (dp_num dp) (dp_lists dp))) (c + tot (\<lambda>_. 1) (drop (dp_num dp) (dp_lists dp)))"
    by (simp only: accs_append)
  from accs_reset_lists [OF r(1) this] have "accs (ls @ drop (dp_num dp) (dp_lists dp)) po' a b c \<and> length ls = dp_num dp"
    using assms(3) by (simp only: accs_append) (simp add: dfs_wf_def wf_dfs_def)
  then show ?thesis using assms(3) by (simp add: r(2) dfs_wf_def wf_dfs_def)
qed

lemma accs_reset:
  assumes "dfs_pattern_detector_reset j dp po = (dp', po')" "accs (dp_lists dp) po a b c" "dfs_wf dp"
  shows "accs (dp_lists dp') po' a b c \<and> dfs_wf dp'"
  using assms accs_reset_detectors [of "\<lambda>_. True" dp po]
  by (auto simp: dfs_pattern_detector_reset_def dfs_wf_def wf_dfs_def split: prod.splits) metis+

lemma accs_time:
  assumes "pulse_time e dp pri now po = (dp', po')" "accs (dp_lists dp) po a b c" "dfs_wf dp"
  shows "accs (dp_lists dp') po' a b c \<and> dfs_wf dp'"
proof (cases "pri = 0")
  case False
  then show ?thesis using assms by (auto simp: pulse_time_def dfs_wf_def wf_dfs_def)
next
  case True
  define dp2 where "dp2 = dp\<lparr>dp_last_ts := w64 (dp_last_ts dp + w32 (ra_usecs e (w32 (if now < dp_prev_jiffies dp
     then 4294967295 - dp_prev_jiffies dp + now else now - dp_prev_jiffies dp)))), dp_prev_jiffies := now\<rparr>"
  have "reset_detectors (\<lambda>d. rs_type (pd_rs d) \<noteq> WAVE_LONG) dp2 po = (dp', po')"
    using assms(1) True by (simp add: pulse_time_def Let_def dp2_def dfs_pattern_detector_pri_overflow_def)
  moreover have "accs (dp_lists dp2) po a b c" "dfs_wf dp2" using assms(2,3) by (simp_all add: dp2_def dfs_wf_def wf_dfs_def)
  ultimately show ?thesis by (rule accs_reset_detectors)
qed

lemma dfs_wf_same:
  assumes "dfs_wf dp" "same_dfs dp dp'" "\<forall>m. m \<noteq> i \<longrightarrow> dp_lists dp' ! m = dp_lists dp ! m" "i < dp_num dp"
  shows "dfs_wf dp'"
proof -
  have "drop (dp_num dp) (dp_lists dp') = drop (dp_num dp) (dp_lists dp)"
    using assms by (intro nth_equalityI) (auto simp: same_dfs_def)
  then show ?thesis using assms by (simp add: dfs_wf_def wf_dfs_def same_dfs_def)
qed

lemma accs_try_patterns:
  assumes "try_patterns e st j dp f len is po = Some (hit, dp', po')" "set is \<subseteq> {..<dp_num dp}" "accs (dp_lists dp) po a b c" "dfs_wf dp"
  shows "accs (dp_lists dp') po' a b c \<and> dfs_wf dp'"
  using assms
proof (induction "is" arbitrary: dp po)
  case (Cons i "is")
  show ?case
  proof (cases "rs_width_min (dp_specs dp ! i) > len \<or> rs_width_max (dp_specs dp ! i) < len")
    case True
    then have "try_patterns e st j dp f len is po = Some (hit, dp', po')" using Cons.prems(1) by auto
    then show ?thesis using Cons.prems(2-4) by (intro Cons.IH [of dp po]) auto
  next
    case False
    obtain r dp1 p1 where pp: "pattern_pulse e st dp f i po = Some (r, dp1, p1)"
      using Cons.prems(1) False by (auto split: option.splits)
    have i: "i < dp_num dp" "i < length (dp_lists dp)" using Cons.prems(2,4) by (auto simp: dfs_wf_def wf_dfs_def)
    note a1 = accs_pattern_pulse [OF pp i(2) Cons.prems(3)]
    have wf1: "dfs_wf dp1" using dfs_wf_same [OF Cons.prems(4) _ _ i(1), of dp1] a1 by blast
    show ?thesis
    proof (cases r)
      case None
      then have "try_patterns e st j dp1 f len is p1 = Some (hit, dp', po')" using Cons.prems(1) False pp by auto
      moreover have "set is \<subseteq> {..<dp_num dp1}" using Cons.prems(2) a1 by (simp add: same_dfs_def)
      ultimately show ?thesis using a1 wf1 by (intro Cons.IH [of dp1 p1]) auto
    next
      case (Some q)
      then have "dfs_pattern_detector_reset j dp1 p1 = (dp', po')" using Cons.prems(1) False pp by (auto split: prod.splits)
      then show ?thesis using a1 wf1 by (intro accs_reset) auto
    qed
  qed
qed auto

lemma accs_dfs_pulse:
  assumes "dfs_pattern_detector_add_pulse e st dp f pri len now j po = Some (hit, dp', po')" "accs (dp_lists dp) po a b c" "dfs_wf dp"
  shows "accs (dp_lists dp') po' a b c \<and> dfs_wf dp'"
proof (cases "dp_region dp = DFS_UNSET")
  case True
  then show ?thesis using assms by (simp add: dfs_pattern_detector_add_pulse_def)
next
  case False
  obtain dp1 p1 where t: "pulse_time e dp pri now po = (dp1, p1)" by (cases "pulse_time e dp pri now po")
  then have "try_patterns e st j dp1 f len [0..<dp_num dp1] p1 = Some (hit, dp', po')"
    using assms(1) False by (simp add: dfs_pattern_detector_add_pulse_def)
  then show ?thesis using accs_time [OF t assms(2,3)] by (intro accs_try_patterns) auto
qed

lemma accounts_deregister:
  assumes "accounts po np ns (Suc nd)"
  shows "accounts (pool_deregister_ref po) np ns nd"
  using assms by (auto simp: accounts_def pool_deregister_ref_def Let_def)

lemma accounts_exit:
  "accounts po (a + sum_list (map (\<lambda>d. length (pd_pulses d)) l)) (b + sum_list (map (\<lambda>d. length (pd_sequences d)) l)) (c + length l)
   \<Longrightarrow> accounts (fold pri_detector_exit l po) a b c"
proof (induction l arbitrary: po)
  case (Cons d ds)
  obtain d1 p1 where r: "pri_detector_reset d 0 po = (d1, p1)" by (cases "pri_detector_reset d 0 po")
  have "acc d po (a + sum_list (map (\<lambda>d. length (pd_pulses d)) ds)) (b + sum_list (map (\<lambda>d. length (pd_sequences d)) ds)) (Suc (c + length ds))"
    using Cons.prems by (simp add: acc_def algebra_simps)
  from acc_reset [OF r this] have "accounts p1 (a + sum_list (map (\<lambda>d. length (pd_pulses d)) ds))
     (b + sum_list (map (\<lambda>d. length (pd_sequences d)) ds)) (Suc (c + length ds))"
    by (auto simp: acc_def)
  then have "accounts (pri_detector_exit d po) (a + sum_list (map (\<lambda>d. length (pd_pulses d)) ds))
     (b + sum_list (map (\<lambda>d. length (pd_sequences d)) ds)) (c + length ds)"
    by (simp add: pri_detector_exit_def r accounts_deregister)
  then show ?case using Cons.IH by simp
qed simp

lemma tot_concat: "tot f ls = sum_list (map f (concat ls))"
  by (induction ls) simp_all

lemma accounts_exit_detectors:
  assumes "accs (take (dp_num dp) (dp_lists dp)) po a b c"
  shows "accounts (exit_detectors dp po) a b c"
  using assms accounts_exit [where l = "concat (take (dp_num dp) (dp_lists dp))" and po = po and a = a and b = b and c = c]
  by (simp add: accs_def exit_detectors_def tot_concat sum_ones)

lemma accs_exit:
  assumes "accs (dp_lists dp) po a b c"
  shows "accs (drop (dp_num dp) (dp_lists dp)) (exit_detectors dp po) a b c"
proof -
  have "accs (take (dp_num dp) (dp_lists dp) @ drop (dp_num dp) (dp_lists dp)) po a b c" using assms by simp
  then show ?thesis by (simp only: accs_append) (simp only: accs_def accounts_exit_detectors)
qed

lemma tot_empty: "(\<forall>l \<in> set ls. l = []) \<Longrightarrow> tot f ls = 0"
  by (induction ls) simp_all

lemma accs_exit_all:
  assumes "accs (dp_lists dp) po a b c" "dfs_wf dp"
  shows "accounts (dfs_pattern_detector_exit dp po) a b c"
  using accs_exit [OF assms(1)] assms(2) by (simp add: accs_def tot_empty dfs_wf_def dfs_pattern_detector_exit_def)

lemma domain_sizes:
  assumes "get_dfs_domain_radar_types r = Some (riu, fcu)"
  shows "length fcu = length riu \<and> length riu \<le> get_dfs_max_radar_types"
  using assms by (cases r) (auto simp: get_dfs_domain_radar_types_def get_dfs_max_radar_types_def etsi_riu_def etsi_fcu_def fcc_riu_def fcc_fcu_def jp_riu_def jp_fcu_def)

lemma accs_set_domain:
  assumes "dfs_pattern_detector_set_domain dp r ch po = (ok, dp', po')" "accs (dp_lists dp) po a b c" "dfs_wf dp"
  shows "accs (dp_lists dp') po' a b c \<and> dfs_wf dp'"
proof (cases "dp_region dp = r")
  case True
  then show ?thesis using assms by (simp add: dfs_pattern_detector_set_domain_def)
next
  case ne: False
  show ?thesis
  proof (cases "get_dfs_domain_radar_types r")
    case None
    then show ?thesis using assms ne by (auto simp: dfs_pattern_detector_set_domain_def dfs_wf_def wf_dfs_def Let_def)
  next
    case (Some p)
    obtain riu fcu where p: "p = (riu, fcu)" by (cases p)
    note sz = domain_sizes [OF Some [unfolded p]]
    define ls where "ls = replicate (dp_num dp) [] @ drop (dp_num dp) (dp_lists dp)"
    have dp': "dp' = dp\<lparr>dp_region := r, dp_lists := ls, dp_specs := (if ch = RADAR_RIU then riu else fcu), dp_num := length riu\<rparr>"
      "po' = exit_detectors (dp\<lparr>dp_region := DFS_UNSET\<rparr>) po"
      using assms(1) ne Some p by (auto simp: dfs_pattern_detector_set_domain_def Let_def ls_def)
    have "accs (drop (dp_num dp) (dp_lists dp)) po' a b c"
      using accs_exit [of "dp\<lparr>dp_region := DFS_UNSET\<rparr>" po a b c] assms(2) by (simp add: dp'(2))
    then have "accs ls po' a b c" by (simp add: ls_def accs_append2 tot_empty)
    moreover have "\<forall>l \<in> set ls. l = []" using assms(3) by (auto simp: ls_def dfs_wf_def)
    moreover have "length ls = get_dfs_max_radar_types" using assms(3) by (simp add: ls_def dfs_wf_def wf_dfs_def)
    ultimately show ?thesis
      using sz by (auto simp: dp'(1) dfs_wf_def wf_dfs_def dest: in_set_dropD)
  qed
qed

lemma accs_init:
  assumes "dfs_pattern_detector_init e j r ch po = (d, po')" "accounts po a b c"
  shows "accs (case d of None \<Rightarrow> [] | Some dp \<Rightarrow> dp_lists dp) po' a b c \<and> (\<forall>dp. d = Some dp \<longrightarrow> dfs_wf dp)"
proof -
  define dp0 where "dp0 = \<lparr>dp_enabled = DETECT_DISABLE, dp_region = DFS_UNSET, dp_num = 0, dp_last_ts = 0,
               dp_prev_jiffies = w32 j, dp_specs = [], dp_lists = replicate get_dfs_max_radar_types []\<rparr>"
  define p1 where "p1 = po\<lparr>po_tries := po_tries po + 1\<rparr>"
  have a1: "accounts p1 a b c" using assms(2) by (simp add: accounts_def p1_def)
  have a0: "accs (dp_lists dp0) p1 a b c" "dfs_wf dp0"
    using a1 by (auto simp: dp0_def accs_def tot_empty dfs_wf_def wf_dfs_def)
  obtain ok dp2 p2 where s: "dfs_pattern_detector_set_domain dp0 r ch p1 = (ok, dp2, p2)" by (cases "dfs_pattern_detector_set_domain dp0 r ch p1") auto
  note a2 = accs_set_domain [OF s a0]
  have e: "\<not> ok \<Longrightarrow> dp_lists dp2 = replicate get_dfs_max_radar_types []"
    using s by (auto simp: dfs_pattern_detector_set_domain_def dp0_def Let_def split: if_splits option.splits prod.splits)
  have init: "dfs_pattern_detector_init e j r ch po = (if ra_alloc e (po_tries po) then (if ok then Some dp2 else None, p2) else (None, p1))"
    using s by (simp add: dfs_pattern_detector_init_def radar_kmalloc_def p1_def dp0_def)
  have none: "accs [] p2 a b c" if "\<not> ok" using a2 e [OF that] by (simp add: accs_def tot_empty)
  show ?thesis
    using assms(1) a1 a2 none by (auto simp: init accs_def split: if_splits)
qed

section \<open>Steps\<close>

datatype radar_ev =
    EvInd nat "int list" nat           \<comment> \<open>pulses reported by the firmware\<close>
  | EvWork int int int                 \<comment> \<open>the detection work, with the clock before and after, and the time of day\<close>
  | EvCacWork
  | EvCancel
  | EvStart nat chan_def "bool \<times> nat"
  | EvStaAdd
  | EvStaDel
  | EvDomain dfs_region
  | EvEnable radar_detect radar_chain
  | EvLink nat nat "chan_def option"
  | EvUnlink nat
  | EvSwitch nat                       \<comment> \<open>the firmware is on another channel context\<close>

fun radar_do :: "radar_env \<Rightarrow> bool \<Rightarrow> radar_ev \<Rightarrow> radar_hw \<Rightarrow> radar_hw option" where
  "radar_do e ir (EvInd cnt ps idx) hw = rwnx_radar_detect_ind cnt ps idx hw"
| "radar_do e ir (EvWork now j t) hw = (if rr_work hw then rwnx_radar_process_pulse e ir now j t hw else Some hw)"
| "radar_do e ir EvCacWork hw = (if rr_cac_work hw then rwnx_radar_cac_work e ir hw else Some hw)"
| "radar_do e ir EvCancel hw = rwnx_radar_cancel_cac e ir hw"
| "radar_do e ir (EvStart v cd cfm) hw = map_option snd (rwnx_cfg80211_start_radar_detection e ir v cd cfm hw)"
| "radar_do e ir EvStaAdd hw = Some (radar_sta_add ir hw)"
| "radar_do e ir EvStaDel hw = Some (radar_sta_del ir hw)"
| "radar_do e ir (EvDomain r) hw = map_option snd (rwnx_radar_set_domain r hw)"
| "radar_do e ir (EvEnable en c) hw = rwnx_radar_detection_enable en c hw"
| "radar_do e ir (EvLink v ch cd) hw = Some (rwnx_chanctx_link v ch cd hw)"
| "radar_do e ir (EvUnlink v) hw = rwnx_chanctx_unlink v hw"
| "radar_do e ir (EvSwitch ch) hw = rwnx_radar_detection_enable_on_cur_channel (hw\<lparr>rr_cur := ch\<rparr>)"

text \<open>The zeroed device structure, and the state after a successful initialisation.\<close>

definition radar_zero :: "nat \<Rightarrow> radar_hw" where
  "radar_zero n = \<lparr>rr_pulses = replicate 2 \<lparr>pr_index = 0, pr_count = 0, pr_buffer = replicate RWNX_RADAR_PULSE_MAX 0\<rparr>, rr_dpd = [None, None],
     rr_detected = replicate 2 \<lparr>dt_index = 0, dt_count = 0, dt_time = replicate NX_NB_RADAR_DETECTED 0, dt_freq = replicate NX_NB_RADAR_DETECTED 0\<rparr>,
     rr_rmem = None, rr_status = RADAR_IDLE, rr_sta_num = 0, rr_work = False, rr_cac_work = False, rr_cac_vif = None,
     rr_ctxs = replicate NX_CHAN_CTXT_CNT \<lparr>cx_chan = False, cx_def = \<lparr>cd_freq1 = 0, cd_radar = False\<rparr>, cx_count = 0\<rparr>, rr_cur = 0,
     rr_vifs = replicate n RWNX_CH_NOT_SET, rr_sec_freq = 0,
     rr_pools = \<lparr>po_pulses = 0, po_seqs = [], po_refs = 0, po_tries = 0, po_live_pulses = 0, po_live_seqs = 0\<rparr>, rr_out = []\<rparr>"

definition radar_start :: "radar_env \<Rightarrow> radar_hw \<Rightarrow> bool" where
  "radar_start e s \<longleftrightarrow> (\<exists>n j. rwnx_radar_detection_init e j (radar_zero n) = (True, s))"

definition radar_step :: "radar_env \<Rightarrow> bool \<Rightarrow> radar_hw \<Rightarrow> radar_hw \<Rightarrow> bool" where
  "radar_step e ir s t \<longleftrightarrow> (\<exists>ev. radar_do e ir ev s = Some t)"

section \<open>The memory of both chains\<close>

definition chain_lists :: "dfs_detector option \<Rightarrow> pri_detector list list" where
  "chain_lists d = (case d of None \<Rightarrow> [] | Some dp \<Rightarrow> dp_lists dp)"

definition hw_acc :: "radar_hw \<Rightarrow> bool" where
  "hw_acc hw \<longleftrightarrow> length (rr_dpd hw) = 2 \<and> (\<forall>dp. Some dp \<in> set (rr_dpd hw) \<longrightarrow> dfs_wf dp)
     \<and> accs (concat (map chain_lists (rr_dpd hw))) (rr_pools hw) 0 0 0"

lemma hw_acc_cong: "rr_dpd hw' = rr_dpd hw \<Longrightarrow> rr_pools hw' = rr_pools hw \<Longrightarrow> hw_acc hw' = hw_acc hw"
  by (simp add: hw_acc_def)

lemma two_chains: "length xs = 2 \<Longrightarrow> \<exists>x y. xs = [x, y]"
  by (auto simp: length_Suc_conv numeral_2_eq_2)

lemma hw_acc_chain:
  assumes "hw_acc hw" "rr_dpd hw ! chain_no c = d"
    and a: "\<And>a b n. accs (chain_lists d) (rr_pools hw) a b n \<Longrightarrow> accs (chain_lists d') po' a b n"
    and w: "\<And>dp. d' = Some dp \<Longrightarrow> (\<forall>dp. d = Some dp \<longrightarrow> dfs_wf dp) \<Longrightarrow> dfs_wf dp"
  shows "hw_acc (hw\<lparr>rr_dpd := (rr_dpd hw)[chain_no c := d'], rr_pools := po'\<rparr>)"
proof -
  have "length (rr_dpd hw) = 2" using assms(1) by (simp add: hw_acc_def)
  from two_chains [OF this] obtain x y where xy: "rr_dpd hw = [x, y]" by blast
  show ?thesis
  proof (cases c)
    case RADAR_RIU
    then show ?thesis using assms xy by (auto simp: hw_acc_def chain_no_def accs_append)
  next
    case RADAR_FCU
    then show ?thesis using assms xy by (auto simp: hw_acc_def chain_no_def accs_append2)
  qed
qed

lemma hw_acc_dp:
  assumes "hw_acc hw" "rr_dpd hw ! chain_no c = Some dp"
  shows "dfs_wf dp \<and> (\<exists>a b n. accs (dp_lists dp) (rr_pools hw) a b n)"
proof -
  have "length (rr_dpd hw) = 2" using assms(1) by (simp add: hw_acc_def)
  from two_chains [OF this] obtain x y where xy: "rr_dpd hw = [x, y]" by blast
  show ?thesis
  proof (cases c)
    case RADAR_RIU
    then have "dfs_wf dp" "accs (dp_lists dp @ chain_lists y) (rr_pools hw) 0 0 0" using assms xy by (auto simp: hw_acc_def chain_no_def chain_lists_def)
    then show ?thesis unfolding accs_append by blast
  next
    case RADAR_FCU
    then have "dfs_wf dp" "accs (chain_lists x @ dp_lists dp) (rr_pools hw) 0 0 0" using assms xy by (auto simp: hw_acc_def chain_no_def chain_lists_def)
    then show ?thesis unfolding accs_append2 by blast
  qed
qed

lemma hw_acc_update:
  assumes "hw_acc hw" "rr_dpd hw ! chain_no c = Some dp"
    and op: "\<And>a b n. accs (dp_lists dp) (rr_pools hw) a b n \<Longrightarrow> dfs_wf dp \<Longrightarrow> accs (dp_lists dp') po' a b n \<and> dfs_wf dp'"
  shows "hw_acc (hw\<lparr>rr_dpd := (rr_dpd hw)[chain_no c := Some dp'], rr_pools := po'\<rparr>)"
  using assms(1,2)
proof (rule hw_acc_chain)
  from hw_acc_dp [OF assms(1,2)] obtain a0 b0 n0 where d: "dfs_wf dp" "accs (dp_lists dp) (rr_pools hw) a0 b0 n0" by blast
  show "accs (chain_lists (Some dp')) po' a b n" if "accs (chain_lists (Some dp)) (rr_pools hw) a b n" for a b n
    using op d(1) that by (simp add: chain_lists_def)
  show "dfs_wf dpa" if "Some dp' = Some dpa" for dpa using op [OF d(2,1)] that by simp
qed

text \<open>What a step other than the detection work leaves alone.\<close>

definition no_radar :: "bool \<Rightarrow> radar_hw \<Rightarrow> radar_hw \<Rightarrow> bool" where
  "no_radar ir s t \<longleftrightarrow> (hw_acc s \<longrightarrow> hw_acc t) \<and> (\<not> ir \<longrightarrow> rr_status t = rr_status s) \<and> rr_detected t = rr_detected s
     \<and> (\<forall>cd. OutRadar cd \<in> set (rr_out t) \<longrightarrow> OutRadar cd \<in> set (rr_out s))"

named_theorems quiet_intros \<open>steps that report no radar\<close>

lemma no_radar_refl [simp]: "no_radar ir s s"
  by (simp add: no_radar_def)

lemma no_radar_trans: "no_radar ir s t \<Longrightarrow> no_radar ir t u \<Longrightarrow> no_radar ir s u"
  by (auto simp: no_radar_def)

lemma no_radar_same:
  "rr_dpd t = rr_dpd s \<Longrightarrow> rr_pools t = rr_pools s \<Longrightarrow> rr_status t = rr_status s \<Longrightarrow> rr_detected t = rr_detected s \<Longrightarrow> rr_out t = rr_out s \<Longrightarrow> no_radar ir s t"
  by (simp add: no_radar_def hw_acc_def)

lemma quiet_enable: "rwnx_radar_detection_enable en c s = Some t \<Longrightarrow> no_radar ir s t"
proof -
  assume h: "rwnx_radar_detection_enable en c s = Some t"
  then obtain dp where d: "rr_dpd s ! chain_no c = Some dp" "t = s\<lparr>rr_dpd := (rr_dpd s)[chain_no c := Some (dp\<lparr>dp_enabled := en\<rparr>)]\<rparr>"
    by (auto simp: rwnx_radar_detection_enable_def split: option.splits)
  have "hw_acc (s\<lparr>rr_dpd := (rr_dpd s)[chain_no c := Some (dp\<lparr>dp_enabled := en\<rparr>)], rr_pools := rr_pools s\<rparr>)" if "hw_acc s"
    using that d(1) by (rule hw_acc_chain) (auto simp: chain_lists_def dfs_wf_def wf_dfs_def)
  then have "hw_acc s \<Longrightarrow> hw_acc t" by (simp add: d(2) hw_acc_def)
  then show ?thesis by (simp add: d(2) no_radar_def)
qed

lemma quiet_link: "no_radar ir s (rwnx_chanctx_link v ch cd s)"
  by (auto simp: rwnx_chanctx_link_def Let_def intro!: no_radar_same split: option.splits)

lemma quiet_unlink:
  assumes "rwnx_chanctx_unlink v s = Some t"
  shows "no_radar ir s t"
proof (cases "rr_vifs s ! v = RWNX_CH_NOT_SET")
  case True
  then show ?thesis using assms by (simp add: rwnx_chanctx_unlink_def)
next
  case False
  define ch where "ch = rr_vifs s ! v"
  define cx where "cx = (if cx_count (rr_ctxs s ! ch) = 0 then rr_ctxs s ! ch else (rr_ctxs s ! ch)\<lparr>cx_count := cx_count (rr_ctxs s ! ch) - 1\<rparr>)"
  define s1 where "s1 = s\<lparr>rr_ctxs := (rr_ctxs s)[ch := cx]\<rparr>"
  have q1: "no_radar ir s s1" by (rule no_radar_same) (simp_all add: s1_def)
  define m where "m = (if cx_count cx = 0
     then (do {
       h \<leftarrow> (if ch = rr_cur s1 then rwnx_radar_detection_enable DETECT_DISABLE RADAR_RIU s1 else Some s1);
       Some (h\<lparr>rr_ctxs := (rr_ctxs h)[ch := cx\<lparr>cx_chan := False\<rparr>]\<rparr>) })
     else Some s1)"
  have "rwnx_chanctx_unlink v s = (if ch \<ge> length (rr_ctxs s) then None else do { h \<leftarrow> m; Some (h\<lparr>rr_vifs := (rr_vifs h)[v := RWNX_CH_NOT_SET]\<rparr>) })"
    using False by (simp only: rwnx_chanctx_unlink_def Let_def m_def s1_def cx_def ch_def if_False)
  with assms have "do { h \<leftarrow> m; Some (h\<lparr>rr_vifs := (rr_vifs h)[v := RWNX_CH_NOT_SET]\<rparr>) } = Some t"
    by (cases "ch \<ge> length (rr_ctxs s)") simp_all
  then obtain h where h: "m = Some h" "t = h\<lparr>rr_vifs := (rr_vifs h)[v := RWNX_CH_NOT_SET]\<rparr>" by (auto simp: bind_eq_Some_conv)
  have "no_radar ir s1 h"
  proof (cases "cx_count cx = 0")
    case True
    obtain h' where h': "(if ch = rr_cur s1 then rwnx_radar_detection_enable DETECT_DISABLE RADAR_RIU s1 else Some s1) = Some h'"
      "h = h'\<lparr>rr_ctxs := (rr_ctxs h')[ch := cx\<lparr>cx_chan := False\<rparr>]\<rparr>"
      using h(1) True by (auto simp: m_def bind_eq_Some_conv simp del: if_split)
    have "no_radar ir s1 h'" using h'(1) quiet_enable by (auto split: if_splits)
    moreover have "no_radar ir h' h" using h'(2) by (auto intro!: no_radar_same)
    ultimately show ?thesis by (rule no_radar_trans)
  next
    case False
    then show ?thesis using h(1) by (simp add: m_def)
  qed
  moreover have "no_radar ir h t" using h(2) by (auto intro!: no_radar_same)
  ultimately show ?thesis using q1 no_radar_trans by blast
qed

lemma quiet_emit: "(\<And>cd. o1 \<noteq> OutRadar cd) \<Longrightarrow> no_radar ir s (radar_emit o1 s)"
  by (auto simp: no_radar_def radar_emit_def hw_acc_def)

lemma quiet_status: "ir \<Longrightarrow> no_radar ir s (s\<lparr>rr_status := x\<rparr>)"
  by (simp add: no_radar_def hw_acc_def)

lemma quiet_stop: "no_radar ir s (rwnx_send_apm_stop_cac_req e ir v s)"
  using quiet_status [of ir s CAC_DONE]
  by (auto simp: rwnx_send_apm_stop_cac_req_def intro: no_radar_trans quiet_emit)

lemma quiet_start: "no_radar ir s (rwnx_send_apm_start_cac_req e ir v s)"
  using quiet_status [of ir s CAC_BUSY]
  by (auto simp: rwnx_send_apm_start_cac_req_def intro: no_radar_trans quiet_emit)

lemma quiet_cancel:
  assumes "rwnx_radar_cancel_cac e ir s = Some t"
  shows "no_radar ir s t"
proof (cases "rr_cac_vif s")
  case None
  then show ?thesis using assms by (simp add: rwnx_radar_cancel_cac_def)
next
  case (Some v)
  define cd where "cd = cx_def (rr_ctxs s ! (rr_vifs s ! v))"
  define s1 where "s1 = rwnx_send_apm_stop_cac_req e ir v (s\<lparr>rr_cac_work := False\<rparr>)"
  define s2 where "s2 = radar_emit (OutCac v cd (if ra_new_kernel e then CAC_FINISHED else CAC_ABORTED)) s1"
  have q0: "no_radar ir s (s\<lparr>rr_cac_work := False\<rparr>)" by (rule no_radar_same) simp_all
  have q2: "no_radar ir s s2"
    unfolding s2_def s1_def by (rule no_radar_trans [OF no_radar_trans [OF q0 quiet_stop] quiet_emit]) simp
  obtain h where h: "h = s \<or> rwnx_chanctx_unlink v s2 = Some h" "t = h\<lparr>rr_cac_vif := None\<rparr>"
    using assms Some by (auto simp: rwnx_radar_cancel_cac_def bind_eq_Some_conv s2_def s1_def cd_def split: if_splits)
  have "no_radar ir s h" using h(1) q2 quiet_unlink no_radar_trans by (auto)
  moreover have "no_radar ir h t" using h(2) by (auto intro!: no_radar_same)
  ultimately show ?thesis by (rule no_radar_trans)
qed

lemma quiet_cac_work:
  assumes "rwnx_radar_cac_work e ir s = Some t"
  shows "no_radar ir s t"
proof -
  define s0 where "s0 = s\<lparr>rr_cac_work := False\<rparr>"
  have q0: "no_radar ir s s0" unfolding s0_def by (rule no_radar_same) simp_all
  show ?thesis
  proof (cases "rr_cac_vif s")
    case None
    then show ?thesis using assms q0 by (simp add: rwnx_radar_cac_work_def s0_def)
  next
    case (Some v)
    define cd where "cd = cx_def (rr_ctxs s0 ! (rr_vifs s0 ! v))"
    define s2 where "s2 = rwnx_send_apm_stop_cac_req e ir v (radar_emit (OutCac v cd CAC_FINISHED) s0)"
    have q2: "no_radar ir s s2"
      unfolding s2_def by (rule no_radar_trans [OF no_radar_trans [OF q0 quiet_emit] quiet_stop]) simp
    obtain h where h: "rwnx_chanctx_unlink v s2 = Some h" "t = h\<lparr>rr_cac_vif := None\<rparr>"
      using assms Some by (auto simp: rwnx_radar_cac_work_def bind_eq_Some_conv Let_def s2_def cd_def s0_def split: if_splits)
    have "no_radar ir h t" using h(2) by (auto intro!: no_radar_same)
    then show ?thesis using q2 quiet_unlink [OF h(1)] no_radar_trans by blast
  qed
qed

lemma quiet_ind: "rwnx_radar_detect_ind cnt ps idx s = Some t \<Longrightarrow> no_radar ir s t"
  by (auto simp: rwnx_radar_detect_ind_def bind_eq_Some_conv split: if_splits intro!: no_radar_same)

lemma quiet_start_detection:
  assumes "rwnx_cfg80211_start_radar_detection e ir v cd cfm s = Some (ok, t)"
  shows "no_radar ir s t"
proof -
  define s1 where "s1 = rwnx_send_apm_start_cac_req e ir v (rwnx_radar_start_cac v s)"
  have "no_radar ir s (rwnx_radar_start_cac v s)" by (rule no_radar_same) (simp_all add: rwnx_radar_start_cac_def)
  then have q1: "no_radar ir s s1" unfolding s1_def using quiet_start no_radar_trans by blast
  define s2 where "s2 = rwnx_chanctx_link v (snd cfm) (Some cd) s1"
  have q2: "no_radar ir s s2" using no_radar_trans [OF q1 quiet_link] by (simp add: s2_def)
  have "rwnx_cfg80211_start_radar_detection e ir v cd cfm s = (if \<not> fst cfm then Some (False, s1)
     else if rr_cur s2 = rr_vifs s2 ! v then do { s3 \<leftarrow> rwnx_radar_detection_enable DETECT_REPORT RADAR_RIU s2; Some (True, s3) } else Some (True, s2))"
    by (simp only: rwnx_cfg80211_start_radar_detection_def Let_def s1_def s2_def)
  then have "t = s1 \<or> t = s2 \<or> rwnx_radar_detection_enable DETECT_REPORT RADAR_RIU s2 = Some t"
    using assms by (cases "rwnx_radar_detection_enable DETECT_REPORT RADAR_RIU s2") (auto split: if_splits)
  then show ?thesis using q1 q2 no_radar_trans [OF q2 quiet_enable] by blast
qed

lemma quiet_chain_domain:
  assumes "set_chain_domain r c s = Some (ok, t)"
  shows "no_radar ir s t"
proof -
  obtain dp dp1 po where d: "rr_dpd s ! chain_no c = Some dp" "dfs_pattern_detector_set_domain dp r c (rr_pools s) = (ok, dp1, po)"
    "t = s\<lparr>rr_dpd := (rr_dpd s)[chain_no c := Some dp1], rr_pools := po\<rparr>"
    using assms by (auto simp: set_chain_domain_def split: option.splits prod.splits)
  have "hw_acc t" if "hw_acc s"
    unfolding d(3) using that d(1) by (rule hw_acc_update) (rule accs_set_domain [OF d(2)])
  then show ?thesis by (simp add: no_radar_def d(3))
qed

lemma quiet_domain:
  assumes "rwnx_radar_set_domain r s = Some (ok, t)"
  shows "no_radar ir s t"
proof (cases "rr_dpd s ! 0 = None")
  case True
  then show ?thesis using assms by (simp add: rwnx_radar_set_domain_def)
next
  case False
  then obtain ok1 s1 where "set_chain_domain r RADAR_RIU s = Some (ok1, s1)" "if ok1 then set_chain_domain r RADAR_FCU s1 = Some (ok, t) else t = s1"
    using assms by (auto simp: rwnx_radar_set_domain_def bind_eq_Some_conv split: if_splits)
  then show ?thesis using quiet_chain_domain [of r RADAR_RIU s ok1 s1 ir] quiet_chain_domain [of r RADAR_FCU s1 ok t ir] no_radar_trans [of ir s s1 t]
    by (cases ok1) auto
qed

lemma quiet_switch: "rwnx_radar_detection_enable_on_cur_channel (s\<lparr>rr_cur := ch\<rparr>) = Some t \<Longrightarrow> no_radar ir s t"
  using no_radar_trans [OF no_radar_same quiet_enable, of "s\<lparr>rr_cur := ch\<rparr>" s]
  by (auto simp: rwnx_radar_detection_enable_on_cur_channel_def split: if_splits intro!: no_radar_same)

lemma quiet_dump: "dump_pulse e c now p s = Some t \<Longrightarrow> no_radar ir s t \<and> rr_status t = rr_status s"
  by (auto simp: dump_pulse_def bind_eq_Some_conv Let_def split: if_splits intro!: no_radar_same)

section \<open>The detection work\<close>

lemma acc_found:
  assumes "pattern_found e ir c t f s = Some u" "hw_acc s"
  shows "hw_acc u"
proof -
  have det: "hw_acc h'" if "rwnx_radar_detected e ir h = Some h'" "hw_acc h" for h h'
    using that quiet_cancel [of e ir h]
    by (auto simp: rwnx_radar_detected_def bind_eq_Some_conv radar_emit_def hw_acc_def no_radar_def split: if_splits)
  have en: "hw_acc h'" if "rwnx_radar_detection_enable x y h = Some h'" "hw_acc h" for x y h h'
    using that quiet_enable [of x y h h' ir] by (simp add: no_radar_def)
  show ?thesis
    using assms by (auto simp: pattern_found_def bind_eq_Some_conv hw_acc_def split: if_splits dest!: det [unfolded hw_acc_def] en [unfolded hw_acc_def])
qed

lemma acc_pulses: "process_pulses e ir c freq now j t ps s = Some u \<Longrightarrow> hw_acc s \<Longrightarrow> hw_acc u"
proof (induction ps arbitrary: s)
  case (Cons p ps)
  obtain s1 where d: "dump_pulse e c now p s = Some s1" using Cons.prems(1) by (auto simp: bind_eq_Some_conv)
  have a1: "hw_acc s1" using quiet_dump [OF d, of ir] Cons.prems(2) by (simp add: no_radar_def)
  show ?case
  proof (cases "rr_status s1 \<noteq> CAC_BUSY \<and> rr_status s1 \<noteq> INSERVICE_BUSY")
    case True
    then show ?thesis using Cons.prems(1) d a1 by simp
  next
    case False
    obtain dp hit dp1 po where ap: "rr_dpd s1 ! chain_no c = Some dp"
      "dfs_pattern_detector_add_pulse e (rr_status s1) dp (w16 (s16 freq + 2 * pulse_freq p)) (pulse_rep p) (pulse_len p * 2) now j (rr_pools s1) = Some (hit, dp1, po)"
      "(if hit then pattern_found e ir c t (s16 freq + 2 * pulse_freq p) (s1\<lparr>rr_dpd := (rr_dpd s1)[chain_no c := Some dp1], rr_pools := po\<rparr>)
        else process_pulses e ir c freq now j t ps (s1\<lparr>rr_dpd := (rr_dpd s1)[chain_no c := Some dp1], rr_pools := po\<rparr>)) = Some u"
      using Cons.prems(1) d False by (auto simp: bind_eq_Some_conv Let_def split: if_splits prod.splits)
    have "hw_acc (s1\<lparr>rr_dpd := (rr_dpd s1)[chain_no c := Some dp1], rr_pools := po\<rparr>)"
      using a1 ap(1) by (rule hw_acc_update) (rule accs_dfs_pulse [OF ap(2)])
    then show ?thesis using ap(3) acc_found Cons.IH by (cases hit) auto
  qed
qed simp

lemma idle_pulses:
  assumes "process_pulses e ir c freq now j t ps s = Some u" "rr_status s \<noteq> CAC_BUSY" "rr_status s \<noteq> INSERVICE_BUSY"
  shows "no_radar ir s u \<and> rr_status u = rr_status s"
  using assms quiet_dump by (cases ps) (auto simp: bind_eq_Some_conv split: if_splits)

lemma acc_process:
  assumes "rwnx_radar_process_pulse e ir now j t s = Some u" "hw_acc s"
  shows "hw_acc u"
proof -
  define s0 where "s0 = s\<lparr>rr_pulses := map (\<lambda>r. r\<lparr>pr_count := 0\<rparr>) (rr_pulses s), rr_work := False\<rparr>"
  have one: "hw_acc b" if "process_chain e ir (w32 now) j t c ps a = Some b" "hw_acc a" for c ps a b
    using that acc_pulses by (auto simp: process_chain_def split: if_splits)
  obtain s1 where "process_chain e ir (w32 now) j t RADAR_RIU (ring_copy (rr_pulses s ! 0)) s0 = Some s1"
    "process_chain e ir (w32 now) j t RADAR_FCU (ring_copy (rr_pulses s ! 1)) s1 = Some u"
    using assms(1) by (auto simp: rwnx_radar_process_pulse_def bind_eq_Some_conv s0_def)
  moreover have "hw_acc s0" using assms(2) by (simp add: s0_def hw_acc_def)
  ultimately show ?thesis using one by blast
qed

lemma idle_process:
  assumes "rwnx_radar_process_pulse e ir now j t s = Some u" "rr_status s \<noteq> CAC_BUSY" "rr_status s \<noteq> INSERVICE_BUSY"
  shows "no_radar ir s u"
proof -
  define s0 where "s0 = s\<lparr>rr_pulses := map (\<lambda>r. r\<lparr>pr_count := 0\<rparr>) (rr_pulses s), rr_work := False\<rparr>"
  have q0: "no_radar ir s s0" "rr_status s0 = rr_status s" by (auto simp: s0_def intro!: no_radar_same)
  have one: "no_radar ir a b \<and> rr_status b = rr_status a"
    if "process_chain e ir (w32 now) j t c ps a = Some b" "rr_status a = rr_status s" for c ps a b
    using that assms(2,3) idle_pulses by (auto simp: process_chain_def split: if_splits)
  obtain s1 where p: "process_chain e ir (w32 now) j t RADAR_RIU (ring_copy (rr_pulses s ! 0)) s0 = Some s1"
    "process_chain e ir (w32 now) j t RADAR_FCU (ring_copy (rr_pulses s ! 1)) s1 = Some u"
    using assms(1) by (auto simp: rwnx_radar_process_pulse_def bind_eq_Some_conv s0_def)
  have "no_radar ir s0 s1 \<and> rr_status s1 = rr_status s" using one [OF p(1)] q0(2) by simp
  moreover from this have "no_radar ir s1 u" using one [OF p(2)] by simp
  ultimately show ?thesis using q0(1) no_radar_trans by blast
qed

section \<open>Every reachable state\<close>

lemma step_no_radar:
  assumes "radar_do e ir ev s = Some t" "\<And>now j u. ev \<noteq> EvWork now j u"
  shows "no_radar ir s t"
proof (cases ev)
  case EvStaAdd
  then show ?thesis using assms(1) by (cases ir) (auto simp: radar_sta_add_def no_radar_def hw_acc_def)
next
  case EvStaDel
  then show ?thesis using assms(1) by (cases ir) (auto simp: radar_sta_del_def no_radar_def hw_acc_def)
qed (use assms quiet_ind quiet_cac_work quiet_cancel quiet_start_detection quiet_domain quiet_enable quiet_link quiet_unlink quiet_switch
     in \<open>auto split: if_splits\<close>)

lemma acc_step:
  assumes "hw_acc s" "radar_step e ir s t"
  shows "hw_acc t"
proof -
  obtain ev where ev: "radar_do e ir ev s = Some t" using assms(2) by (auto simp: radar_step_def)
  show ?thesis
  proof (cases "\<exists>now j u. ev = EvWork now j u")
    case True
    then show ?thesis using ev acc_process assms(1) by (auto split: if_splits)
  next
    case False
    then show ?thesis using step_no_radar [OF ev] assms(1) by (auto simp: no_radar_def)
  qed
qed

text \<open>Without \<^verbatim>\<open>CONFIG_RADAR_OR_IR_DETECT\<close> nobody sets the status.\<close>

definition deaf :: "radar_hw \<Rightarrow> bool" where
  "deaf s \<longleftrightarrow> rr_status s = RADAR_IDLE \<and> (\<forall>cd. OutRadar cd \<notin> set (rr_out s)) \<and> (\<forall>d \<in> set (rr_detected s). dt_count d = 0)"

lemma deaf_step:
  assumes "deaf s" "radar_step e False s t"
  shows "deaf t"
proof -
  obtain ev where ev: "radar_do e False ev s = Some t" using assms(2) by (auto simp: radar_step_def)
  have "no_radar False s t"
  proof (cases "\<exists>now j u. ev = EvWork now j u")
    case True
    then show ?thesis using ev idle_process assms(1) by (auto simp: deaf_def split: if_splits)
  next
    case False
    then show ?thesis using step_no_radar [OF ev] by auto
  qed
  then show ?thesis using assms(1) by (auto simp: no_radar_def deaf_def)
qed

lemma init_memory:
  assumes "rwnx_radar_detection_init e j (radar_zero n) = (True, s)"
  shows "hw_acc s \<and> deaf s"
proof -
  define z where "z = radar_zero n"
  obtain d0 p0 where i0: "dfs_pattern_detector_init e j DFS_UNSET RADAR_RIU (rr_pools z) = (d0, p0)"
    by (cases "dfs_pattern_detector_init e j DFS_UNSET RADAR_RIU (rr_pools z)")
  obtain d1 p1 where i1: "dfs_pattern_detector_init e j DFS_UNSET RADAR_FCU p0 = (d1, p1)"
    by (cases "dfs_pattern_detector_init e j DFS_UNSET RADAR_FCU p0")
  have z0: "accounts (rr_pools z) 0 0 0" by (simp add: z_def radar_zero_def accounts_def)
  note a0 = accs_init [OF i0 z0]
  have "accounts p0 (tot (\<lambda>d. length (pd_pulses d)) (chain_lists d0)) (tot (\<lambda>d. length (pd_sequences d)) (chain_lists d0)) (tot (\<lambda>_. 1) (chain_lists d0))"
    using a0 by (simp add: accs_def chain_lists_def split: option.splits)
  note a1 = accs_init [OF i1 this]
  define h where "h = z\<lparr>rr_dpd := [d0, d1], rr_pools := p1\<rparr>"
  have h: "hw_acc h" using a0 a1 by (auto simp: hw_acc_def h_def chain_lists_def accs_append2)
  have s: "s = (rwnx_radar_init_rmem e h)\<lparr>rr_status := RADAR_IDLE, rr_cac_vif := None\<rparr>"
    using assms i0 i1 by (auto simp: rwnx_radar_detection_init_def Let_def h_def radar_zero_def z_def split: if_splits)
  have "hw_acc (rwnx_radar_init_rmem e h)"
    using h by (auto simp: rwnx_radar_init_rmem_def Let_def radar_kmalloc_def hw_acc_def accs_def accounts_def split: option.splits)
  then have "hw_acc s" by (simp add: s hw_acc_def)
  moreover have "deaf s"
    by (auto simp: s deaf_def rwnx_radar_init_rmem_def Let_def radar_kmalloc_def h_def z_def radar_zero_def split: option.splits)
  ultimately show ?thesis by simp
qed

interpretation radar: step_system "radar_start e" "radar_step e ir" hw_acc for e ir
  by unfold_locales (auto simp: radar_start_def dest: init_memory acc_step)

interpretation shipped: step_system "radar_start e" "radar_step e False" deaf for e
  by unfold_locales (auto simp: radar_start_def dest: init_memory deaf_step)

end
