(* ===== verification/Radar_Sound.thy ===== *)
theory Radar_Sound
  imports Radar_Mem "HOL-Library.Sublist"
begin

text \<open>
  No alarm out of nothing: a sequence that a short detector reports consists of as many different pulses as it counts, at least the threshold, and
  their distances are multiples of one interval of the pattern, within the tolerance.
\<close>

text \<open>\<open>a\<close> is a multiple of the interval later than \<open>b\<close>.\<close>

definition fits :: "int \<Rightarrow> int \<Rightarrow> int \<Rightarrow> int \<Rightarrow> bool" where
  "fits tol pri a b \<longleftrightarrow> pde_get_multiple (w32 (a - b)) pri tol > 0"

text \<open>
  The shape of a sequence, newest pulse first: the pulses behind \<open>c\<close> were there when \<open>c\<close> founded it and are multiples of the interval away from \<open>c\<close>;
  those ahead of \<open>c\<close> joined one by one, each a multiple away from the one before.
\<close>

definition burst_shape :: "int \<Rightarrow> int \<Rightarrow> int list \<Rightarrow> bool" where
  "burst_shape tol pri S \<longleftrightarrow> (\<exists>ys c zs. S = ys @ c # zs \<and> successively (fits tol pri) (ys @ [c]) \<and> (\<forall>z \<in> set zs. fits tol pri c z))"

definition seq_thresh :: "radar_specs \<Rightarrow> int \<Rightarrow> int" where
  "seq_thresh rs pri = (if rs_type rs = WAVE_WEATHER then w8 (PPB_THRESH (w8 (19000000 div w32 (360 * pri)))) else rs_ppb_thresh rs)"

definition backed :: "radar_specs \<Rightarrow> int list \<Rightarrow> pri_sequence \<Rightarrow> bool" where
  "backed rs H q \<longleftrightarrow> (\<exists>S. S \<noteq> [] \<and> subseq S H \<and> sq_count q = int (length S) \<and> hd S = sq_last q \<and> last S = sq_first q \<and> burst_shape (rs_tol rs) (sq_pri q) S)
     \<and> sq_thresh q = seq_thresh rs (sq_pri q) \<and> rs_pri_min rs \<le> sq_pri q \<and> sq_pri q \<le> rs_pri_max rs"

lemma match_past_backed:
  assumes "0 \<le> sq_count q" "sq_count q + int (length ts) < 4294967296"
  shows "\<exists>zs. subseq zs ts \<and> sq_count (match_past tol m ts tmp q) = sq_count q + int (length zs) \<and> (\<forall>z \<in> set zs. fits tol (sq_pri q) (sq_last q) z)
     \<and> sq_first (match_past tol m ts tmp q) = (if zs = [] then sq_first q else last zs) \<and> sq_pri (match_past tol m ts tmp q) = sq_pri q
     \<and> sq_last (match_past tol m ts tmp q) = sq_last q"
  using assms
proof (induction tol m ts tmp q rule: match_past.induct)
  case (1 tol m tmp q)
  show ?case by (intro exI [of _ "[]"]) simp
next
  case (2 tol m t ts tmp q)
  consider "t < m" | "\<not> t < m" "fits tol (sq_pri q) (sq_last q) t" | "\<not> t < m" "\<not> fits tol (sq_pri q) (sq_last q) t" by blast
  then show ?case
  proof cases
    case 1
    then show ?thesis by (intro exI [of _ "[]"]) simp
  next
    case 2
    define q1 where "q1 = q\<lparr>sq_count := w32 (sq_count q + 1), sq_first := t, sq_falses := w32 (sq_falses q + tmp)\<rparr>"
    have c1: "sq_count q1 = sq_count q + 1" using "2.prems" by (simp add: q1_def w32_id)
    have f: "0 < pde_get_multiple (w32 (sq_last q - t)) (sq_pri q) tol" using 2(2) by (simp add: fits_def)
    have pre: "0 \<le> sq_count q1" "sq_count q1 + int (length ts) < 4294967296" using "2.prems" c1 by simp_all
    obtain zs where zs: "subseq zs ts" "sq_count (match_past tol m ts 0 q1) = sq_count q1 + int (length zs)"
      "\<forall>z \<in> set zs. fits tol (sq_pri q1) (sq_last q1) z" "sq_first (match_past tol m ts 0 q1) = (if zs = [] then sq_first q1 else last zs)"
      "sq_pri (match_past tol m ts 0 q1) = sq_pri q1" "sq_last (match_past tol m ts 0 q1) = sq_last q1"
      using "2.IH"(1) [OF 2(1) f, folded q1_def, OF pre] by blast
    have "match_past tol m (t # ts) tmp q = match_past tol m ts 0 q1" using 2 by (simp add: fits_def q1_def)
    then show ?thesis
      using zs c1 2(2) by (intro exI [of _ "t # zs"]) (auto simp: q1_def)
  next
    case 3
    then obtain zs where "subseq zs ts" "sq_count (match_past tol m ts (w32 (tmp + 1)) q) = sq_count q + int (length zs)"
      "\<forall>z \<in> set zs. fits tol (sq_pri q) (sq_last q) z" "sq_first (match_past tol m ts (w32 (tmp + 1)) q) = (if zs = [] then sq_first q else last zs)"
      "sq_pri (match_past tol m ts (w32 (tmp + 1)) q) = sq_pri q" "sq_last (match_past tol m ts (w32 (tmp + 1)) q) = sq_last q"
      using "2.IH"(2) [OF 3(1)] "2.prems" by (auto simp: fits_def)
    then show ?thesis using 3 by (intro exI [of _ zs]) (auto simp: fits_def)
  qed
qed

lemma new_sequence_backed:
  assumes "rs_pri_min rs \<le> w32 (ts - p)" "w32 (ts - p) \<le> rs_pri_max rs" "0 < rs_pri_min rs" "0 \<le> rs_tol rs"
    and "int (length older) < 4294967294" "subseq (p # older) H"
  shows "backed rs (ts # H) (new_sequence rs ts p i older)"
proof -
  define pri where "pri = w32 (ts - p)"
  define dur where "dur = w32 (pri * (rs_ppb rs - 1) + 2 * rs_tol rs)"
  define q0 where "q0 = \<lparr>sq_pri = pri, sq_dur = dur, sq_count = 2, sq_falses = w32 (i - 1), sq_first = p, sq_last = ts, sq_deadline = 0, sq_thresh = 0\<rparr>"
  define q1 where "q1 = match_past (rs_tol rs) (if dur > ts then 0 else ts - dur) older 0 q0"
  obtain zs where zs: "subseq zs older" "sq_count q1 = 2 + int (length zs)" "\<forall>z \<in> set zs. fits (rs_tol rs) pri ts z"
    "sq_first q1 = (if zs = [] then p else last zs)" "sq_pri q1 = pri" "sq_last q1 = ts"
    using match_past_backed [of q0 older "rs_tol rs" "if dur > ts then 0 else ts - dur" 0] assms(5) by (auto simp: q0_def q1_def)
  have p: "fits (rs_tol rs) pri ts p" using assms by (simp add: fits_def pde_get_multiple_def pri_def)
  have "subseq (p # zs) H" using zs(1) assms(6) subseq_order.trans by (metis subseq_Cons2)
  then have "subseq (ts # p # zs) (ts # H)" by simp
  moreover have "burst_shape (rs_tol rs) pri (ts # p # zs)"
    unfolding burst_shape_def using p zs(3) by (intro exI [of _ "[]"] exI [of _ ts] exI [of _ "p # zs"]) auto
  moreover have "new_sequence rs ts p i older = q1\<lparr>sq_deadline := w64 (sq_first q1 + dur), sq_thresh := seq_thresh rs pri\<rparr>"
    unfolding new_sequence_def Let_def seq_thresh_def q1_def q0_def dur_def pri_def by (rule refl)
  ultimately show ?thesis
    using zs assms unfolding backed_def by (intro conjI exI [of _ "ts # p # zs"]) (auto simp: pri_def)
qed

lemma create_backed:
  assumes "create_sequences e rs ts m i l sqs po = (ok, sqs', po')" "0 < rs_pri_min rs" "0 \<le> rs_tol rs" "int (length l) < 4294967295" "subseq l H"
    "\<forall>q \<in> set sqs. backed rs (ts # H) q"
  shows "\<forall>q \<in> set sqs'. backed rs (ts # H) q"
  using assms
proof (induction e rs ts m i l sqs po rule: create_sequences.induct)
  case (2 e rs ts min_count idx p ps sqs po)
  define i1 where "i1 = w16 (idx + 1)"
  define q where "q = new_sequence rs ts p i1 ps"
  have sub: "subseq ps H" using "2.prems"(5) by (meson subseq_Cons')
  consider "w32 (ts - p) < rs_pri_min rs" | "\<not> w32 (ts - p) < rs_pri_min rs" "w32 (ts - p) > rs_pri_max rs"
    | "\<not> w32 (ts - p) < rs_pri_min rs" "\<not> w32 (ts - p) > rs_pri_max rs" by blast
  then show ?case
  proof cases
    case 1
    then show ?thesis using "2.IH"(1) [OF refl 1] "2.prems" sub by (simp add: Let_def)
  next
    case 2
    then show ?thesis using "2.prems" by (simp add: Let_def)
  next
    case 3
    have b: "backed rs (ts # H) q"
      unfolding q_def by (rule new_sequence_backed) (use 3 "2.prems" in auto)
    show ?thesis
    proof (cases "sq_count q \<le> min_count")
      case True
      then show ?thesis using "2.IH"(2) [OF i1_def 3 q_def True] "2.prems" 3 sub by (simp add: Let_def flip: i1_def q_def)
    next
      case False
      obtain x p1 where g: "pool_get_pseq_elem e po = (x, p1)" by (cases "pool_get_pseq_elem e po")
      show ?thesis
      proof (cases x)
        case None
        then show ?thesis using "2.prems" 3 False g by (simp add: Let_def flip: i1_def q_def)
      next
        case (Some y)
        then show ?thesis
          using "2.IH"(3) [OF i1_def 3 q_def False g [unfolded Some, symmetric] refl] "2.prems" 3 False g sub b by (simp add: Let_def flip: i1_def q_def)
      qed
    qed
  qed
qed simp

lemma backed_more: "backed rs H q \<Longrightarrow> backed rs (t # H) (q\<lparr>sq_falses := x\<rparr>)"
  unfolding backed_def by (auto intro: subseq_order.trans)

lemma backed_joins:
  assumes "backed rs H q" "fits (rs_tol rs) (sq_pri q) t (sq_last q)" "int (length H) < 4294967295"
  shows "backed rs (t # H) (q\<lparr>sq_last := t, sq_count := w32 (sq_count q + 1)\<rparr>)"
proof -
  obtain S where S: "S \<noteq> []" "subseq S H" "sq_count q = int (length S)" "hd S = sq_last q" "last S = sq_first q" "burst_shape (rs_tol rs) (sq_pri q) S"
    using assms(1) by (auto simp: backed_def)
  have len: "length S \<le> length H" using S(2) by (rule list_emb_length)
  obtain ys c zs where ycz: "S = ys @ c # zs" "successively (fits (rs_tol rs) (sq_pri q)) (ys @ [c])" "\<forall>z \<in> set zs. fits (rs_tol rs) (sq_pri q) c z"
    using S(6) by (auto simp: burst_shape_def)
  have "burst_shape (rs_tol rs) (sq_pri q) (t # S)"
    unfolding burst_shape_def using ycz assms(2) S(4)
    by (intro exI [of _ "t # ys"] exI [of _ c] exI [of _ zs]) (cases ys; auto simp: successively_Cons)
  moreover have "w32 (sq_count q + 1) = int (length (t # S))" using S(3) len assms(3) by (simp add: w32_id)
  ultimately show ?thesis
    using assms(1) S unfolding backed_def by (auto intro!: exI [of _ "t # S"])
qed

lemma add_backed:
  "add_to_seqs tol ts sqs m po = (m', sqs', po') \<Longrightarrow> tol = rs_tol rs \<Longrightarrow> int (length H) < 4294967295 \<Longrightarrow> \<forall>q \<in> set sqs. backed rs H q
   \<Longrightarrow> \<forall>q \<in> set sqs'. backed rs (ts # H) q"
proof (induction sqs arbitrary: m m' sqs' po po')
  case (Cons q qs)
  show ?case
  proof (cases "ts > sq_deadline q")
    case True
    then show ?thesis using Cons by (auto simp del: ball_simps)
  next
    case False
    define f where "f \<longleftrightarrow> fits tol (sq_pri q) ts (sq_last q)"
    define q1 where "q1 = (if f then q\<lparr>sq_last := ts, sq_count := w32 (sq_count q + 1)\<rparr> else q\<lparr>sq_falses := w32 (sq_falses q + 1)\<rparr>)"
    obtain m1 m2 rest where r: "add_to_seqs tol ts qs m1 po = (m2, rest, po')" "sqs' = q1 # rest"
      using Cons.prems(1) False by (auto simp: Let_def fits_def f_def q1_def split: prod.splits if_splits)
    have "backed rs (ts # H) q1"
      using Cons.prems(2-4) backed_more [of rs H q] backed_joins [of rs H q ts] by (auto simp: q1_def f_def)
    then show ?thesis using r Cons.IH [OF r(1)] Cons.prems(2-4) by auto
  qed
qed simp

section \<open>A run of a detector\<close>

definition from_history :: "pri_detector \<Rightarrow> int list \<Rightarrow> bool" where
  "from_history d H \<longleftrightarrow> subseq (pd_pulses d) H \<and> (\<forall>q \<in> set (pd_sequences d). backed (pd_rs d) H q)"

lemma enqueue_history:
  assumes "pulse_queue_enqueue e d ts po = (r, d', po')"
  shows "(\<exists>n. pd_pulses d' = take n (ts # pd_pulses d) \<or> pd_pulses d' = pd_pulses d) \<and> pd_rs d' = pd_rs d"
proof -
  have dq: "(\<exists>n. pd_pulses d' = take n (pd_pulses d)) \<and> pd_rs d' = pd_rs d" if "pulse_queue_dequeue d po = (x, d', po')" for d po x d' po'
    using dequeue_keeps [OF that] by (auto simp: same_detector_def butlast_conv_take)
  have cw: "(\<exists>n. pd_pulses d' = take n (pd_pulses d)) \<and> pd_rs d' = pd_rs d" if "pulse_queue_check_window d po = (d', po')" for d po d' po'
    using that dequeue_older_keeps [of _ d po d' po']
    by (auto simp: pulse_queue_check_window_def same_detector_def split: if_splits intro: exI [of _ "length (pd_pulses d)"])
  obtain ok p1 where get: "(case pool_get_pulse_elem po of
         (True, p1) \<Rightarrow> (True, p1)
       | (False, p1) \<Rightarrow> (case radar_kmalloc e p1 of (ok, p2) \<Rightarrow> (ok, if ok then p2\<lparr>po_live_pulses := po_live_pulses p2 + 1\<rparr> else p2))) = (ok, p1)"
    by (cases "(case pool_get_pulse_elem po of
         (True, p1) \<Rightarrow> (True, p1)
       | (False, p1) \<Rightarrow> (case radar_kmalloc e p1 of (ok, p2) \<Rightarrow> (ok, if ok then p2\<lparr>po_live_pulses := po_live_pulses p2 + 1\<rparr> else p2)))")
  show ?thesis
  proof (cases ok)
    case False
    then show ?thesis using assms by (simp add: pulse_queue_enqueue_def get)
  next
    case True
    define d1 where "d1 = d\<lparr>pd_pulses := ts # pd_pulses d, pd_count := w32 (pd_count d + 1), pd_last_ts := ts\<rparr>"
    obtain d2 p2 where c: "pulse_queue_check_window d1 p1 = (d2, p2)" by (cases "pulse_queue_check_window d1 p1")
    obtain n where n: "pd_pulses d2 = take n (ts # pd_pulses d)" "pd_rs d2 = pd_rs d" using cw [OF c] by (auto simp: d1_def)
    have "d' = d2 \<or> (\<exists>x p. pulse_queue_dequeue d2 p2 = (x, d', p))"
      using assms True by (auto simp: pulse_queue_enqueue_def get c simp flip: d1_def split: if_splits prod.splits)
    then show ?thesis
    proof
      assume "\<exists>x p. pulse_queue_dequeue d2 p2 = (x, d', p)"
      then obtain m where "pd_pulses d' = take m (pd_pulses d2)" "pd_rs d' = pd_rs d2" using dq by blast
      then show ?thesis using n by (auto simp: take_take)
    qed (use n in auto)
  qed
qed

lemma history_enqueue:
  assumes "pulse_queue_enqueue e d ts po = (r, d', po')" "subseq (pd_pulses d) H" "\<forall>q \<in> set (pd_sequences d). backed (pd_rs d) (ts # H) q"
  shows "from_history d' (ts # H) \<and> pd_rs d' = pd_rs d"
proof -
  have tk: "subseq (take n (ts # pd_pulses d)) (ts # H)" for n
    using assms(2) prefix_imp_subseq [OF take_is_prefix, of n "ts # pd_pulses d"] subseq_order.trans by fastforce
  have "subseq (pd_pulses d) (ts # H)" using assms(2) by (rule list_emb_Cons)
  then show ?thesis
    using enqueue_history [OF assms(1)] tk same_seqs_enqueue [OF assms(1)] assms(3) by (auto simp: from_history_def)
qed

lemma short_pulse_backed:
  assumes "pde_short_add_pulse e d ts po = (r, d', po')" "from_history d H" "0 < rs_pri_min (pd_rs d)" "0 \<le> rs_tol (pd_rs d)" "int (length H) < 4294967295"
  shows "case r of None \<Rightarrow> from_history d' (ts # H) \<and> pd_rs d' = pd_rs d
     | Some q \<Rightarrow> backed (pd_rs d) (ts # H) q \<and> complete_sequence (pd_rs d) q"
proof -
  have sub: "subseq (pd_pulses d) H" and bk: "\<forall>q \<in> set (pd_sequences d). backed (pd_rs d) H q" using assms(2) by (auto simp: from_history_def)
  have more: "backed rs (t # H) q" if "backed rs H q" for rs t q using backed_more [OF that, of t "sq_falses q"] by simp
  have len: "int (length (pd_pulses d)) < 4294967295" using list_emb_length [OF sub] assms(5) by linarith
  consider "pd_count d = 0" | "pd_count d \<noteq> 0" "w64 (ts - pd_last_ts d) < rs_tol (pd_rs d)" | "pd_count d \<noteq> 0" "\<not> w64 (ts - pd_last_ts d) < rs_tol (pd_rs d)"
    by blast
  then show ?thesis
  proof cases
    case 1
    then show ?thesis using assms(1) bk more history_enqueue [OF _ sub] by (auto simp: pde_short_add_pulse_def split: prod.splits)
  next
    case 2
    then have "r = None" "d' = d" using assms(1) by (auto simp: pde_short_add_pulse_def)
    then show ?thesis using sub bk more by (auto simp: from_history_def)
  next
    case 3
    obtain m d1 p1 where a1: "pde_short_add_to_existing_seqs d ts po = (m, d1, p1)" by (cases "pde_short_add_to_existing_seqs d ts po") auto
    obtain ok d2 p2 where c1: "pde_short_create_sequences e d1 ts m p1 = (ok, d2, p2)" by (cases "pde_short_create_sequences e d1 ts m p1") auto
    obtain sqs where s1: "add_to_seqs (rs_tol (pd_rs d)) ts (pd_sequences d) 0 po = (m, sqs, p1)" "d1 = d\<lparr>pd_sequences := sqs\<rparr>"
      using a1 by (auto simp: pde_short_add_to_existing_seqs_def split: prod.splits)
    have b1: "\<forall>q \<in> set sqs. backed (pd_rs d) (ts # H) q" by (rule add_backed [OF s1(1) refl assms(5) bk])
    obtain sqs2 where s2: "create_sequences e (pd_rs d) ts m 0 (pd_pulses d) sqs p1 = (ok, sqs2, p2)" "d2 = d\<lparr>pd_sequences := sqs2\<rparr>"
      using c1 s1(2) by (auto simp: pde_short_create_sequences_def split: prod.splits)
    have b2: "\<forall>q \<in> set sqs2. backed (pd_rs d) (ts # H) q" by (rule create_backed [OF s2(1) assms(3,4) len sub b1])
    show ?thesis
    proof (cases ok)
      case False
      then show ?thesis
        using assms(1) 3 by (auto simp: pde_short_add_pulse_def a1 c1 s2(2) pri_detector_reset_def from_history_def)
    next
      case True
      show ?thesis
      proof (cases "pde_short_check_detection d2")
        case None
        obtain x d3 p3 where en: "pulse_queue_enqueue e d2 ts p2 = (x, d3, p3)" by (cases "pulse_queue_enqueue e d2 ts p2") auto
        have eq: "r = None" "d' = d3" using assms(1) 3 True None by (auto simp: pde_short_add_pulse_def a1 c1 en)
        have d2: "pd_pulses d2 = pd_pulses d" "pd_sequences d2 = sqs2" "pd_rs d2 = pd_rs d" using s2(2) by simp_all
        have "from_history d3 (ts # H) \<and> pd_rs d3 = pd_rs d2" by (rule history_enqueue [OF en]) (use d2 sub b2 in simp_all)
        then show ?thesis using eq d2 by simp
      next
        case (Some q)
        then have "q \<in> set sqs2" "complete_sequence (pd_rs d) q"
          by (auto simp: pde_short_check_detection_def s2(2) find_Some_iff)
        moreover have "r = Some q" using assms(1) 3 True Some by (simp add: pde_short_add_pulse_def a1 c1)
        ultimately show ?thesis using b2 by simp
      qed
    qed
  qed
qed

fun short_run :: "radar_env \<Rightarrow> int list \<Rightarrow> pri_detector \<Rightarrow> radar_pools \<Rightarrow> pri_sequence option" where
  "short_run e [] d po = None"
| "short_run e (t # ts) d po = (case pde_short_add_pulse e d t po of (Some q, _, _) \<Rightarrow> Some q | (None, d1, p1) \<Rightarrow> short_run e ts d1 p1)"

lemma run_backed:
  assumes "short_run e ts d po = Some q" "from_history d H" "0 < rs_pri_min (pd_rs d)" "0 \<le> rs_tol (pd_rs d)" "int (length H + length ts) < 4294967296"
  shows "backed (pd_rs d) (rev ts @ H) q \<and> complete_sequence (pd_rs d) q"
  using assms
proof (induction ts arbitrary: d po H)
  case (Cons t ts)
  obtain r d1 p1 where a: "pde_short_add_pulse e d t po = (r, d1, p1)" by (cases "pde_short_add_pulse e d t po") auto
  have h: "case r of None \<Rightarrow> from_history d1 (t # H) \<and> pd_rs d1 = pd_rs d
     | Some q \<Rightarrow> backed (pd_rs d) (t # H) q \<and> complete_sequence (pd_rs d) q"
    by (rule short_pulse_backed [OF a Cons.prems(2-4)]) (use Cons.prems(5) in simp)
  show ?case
  proof (cases r)
    case None
    then show ?thesis using Cons.IH [of d1 p1 "t # H"] Cons.prems a h by simp
  next
    case (Some q')
    then have "q' = q" using Cons.prems(1) a by simp
    moreover have "subseq (t # H) (rev ts @ t # H)" by (rule suffix_imp_subseq) (simp add: suffix_def)
    ultimately show ?thesis using h Some subseq_order.trans by (fastforce simp: backed_def)
  qed
qed simp

end
