(* ===== verification/Radar_Props.thy ===== *)
theory Radar_Props
  imports Radar_Run Radar_Sound
begin

text \<open>The properties of radar detection, and their instances.\<close>

section \<open>The ring of pulses\<close>

definition ring_ok :: "pulse_ring \<Rightarrow> bool" where
  "ring_ok r \<longleftrightarrow> pr_index r < 32 \<and> pr_count r \<le> 32 \<and> length (pr_buffer r) = 32"

lemma ring_copy_nth:
  assumes "ring_ok r"
  shows "length (ring_copy r) = pr_count r \<and> (\<forall>k < pr_count r. ring_copy r ! k = pr_buffer r ! ((pr_index r + 32 - pr_count r + k) mod 32))"
proof -
  have r: "pr_index r < 32" "pr_count r \<le> 32" "length (pr_buffer r) = 32" using assms by (auto simp: ring_ok_def)
  define start where "start = (if pr_index r < pr_count r then pr_index r + 32 - pr_count r else pr_index r - pr_count r)"
  have s: "start < 32 \<or> pr_count r = 0 \<or> pr_index r = pr_count r" using r by (auto simp: start_def)
  have pos: "(pr_index r + 32 - pr_count r + k) mod 32 = (if start + k < 32 then start + k else start + k - 32)" if "k < pr_count r" for k
    using r that by (auto simp: start_def mod_if)
  show ?thesis
    using r pos by (auto simp: ring_copy_def Let_def RWNX_RADAR_PULSE_MAX_def nth_append start_def min_def add.commute)
qed

lemma ring_copy_put:
  assumes "ring_ok r"
  shows "ring_ok (ring_put p r) \<and> ring_copy (ring_put p r) = (if pr_count r < 32 then ring_copy r else tl (ring_copy r)) @ [p]"
proof -
  have r: "pr_index r < 32" "pr_count r \<le> 32" "length (pr_buffer r) = 32" using assms by (auto simp: ring_ok_def)
  have ok: "ring_ok (ring_put p r)" using r by (simp add: ring_ok_def ring_put_def RWNX_RADAR_PULSE_MAX_def)
  note c = ring_copy_nth [OF assms] and c' = ring_copy_nth [OF ok]
  have "ring_copy (ring_put p r) = (if pr_count r < 32 then ring_copy r else tl (ring_copy r)) @ [p]"
  proof (rule nth_equalityI)
    show "length (ring_copy (ring_put p r)) = length ((if pr_count r < 32 then ring_copy r else tl (ring_copy r)) @ [p])"
      using c c' r by (auto simp: ring_put_def RWNX_RADAR_PULSE_MAX_def)
  next
    fix k assume k: "k < length (ring_copy (ring_put p r))"
    then have k': "k < pr_count (ring_put p r)" using c' by simp
    define i where "i = pr_index r"
    define c where "c = pr_count r"
    have i: "i < 32" "c \<le> 32" using r by (simp_all add: i_def c_def)
    define c1 where "c1 = (if c < 32 then c + 1 else c)"
    have kc: "k < c1" using k' by (auto simp: ring_put_def RWNX_RADAR_PULSE_MAX_def c1_def c_def split: if_splits)
    have at: "ring_copy (ring_put p r) ! k = (pr_buffer r)[i := p] ! (((i + 1) mod 32 + 32 - c1 + k) mod 32)"
      using c' k' by (simp add: ring_put_def RWNX_RADAR_PULSE_MAX_def i_def c1_def c_def)
    have old: "ring_copy r ! m = pr_buffer r ! ((i + 32 - c + m) mod 32)" if "m < c" for m
      using ring_copy_nth [OF assms] that by (simp add: i_def c_def)
    have len: "length (ring_copy r) = c" using ring_copy_nth [OF assms] by (simp add: c_def)
    have rot: "((i + 1) mod 32 + 32 - c1 + k) mod 32 = (i + 1 + 32 - c1 + k) mod 32" using i kc by (auto simp: mod_if c1_def)
    show "ring_copy (ring_put p r) ! k = ((if pr_count r < 32 then ring_copy r else tl (ring_copy r)) @ [p]) ! k"
    proof (cases "k = c1 - 1")
      case True
      have "(i + 1 + 32 - c1 + k) mod 32 = i" using i kc True by (simp add: c1_def)
      moreover have "length (if pr_count r < 32 then ring_copy r else tl (ring_copy r)) = k" using len True i by (auto simp: c1_def c_def)
      ultimately show ?thesis using at rot r by (simp add: nth_append i_def)
    next
      case False
      then have ne: "(i + 1 + 32 - c1 + k) mod 32 \<noteq> i" using i kc by (auto simp: mod_if c1_def)
      show ?thesis
      proof (cases "c < 32")
        case True
        then show ?thesis using at rot ne old [of k] len kc False by (simp add: nth_append c1_def ac_simps flip: c_def)
      next
        case full: False
        then show ?thesis using at rot ne old [of "k + 1"] len kc False i by (simp add: nth_append nth_tl c1_def ac_simps flip: c_def)
      qed
    qed
  qed
  with ok show ?thesis by simp
qed

lemma ring_copy_puts:
  assumes "ring_ok r"
  shows "ring_ok (fold ring_put ps r) \<and> ring_copy (fold ring_put ps r) = drop (length (ring_copy r @ ps) - 32) (ring_copy r @ ps)"
  using assms
proof (induction ps arbitrary: r)
  case Nil
  then show ?case using ring_copy_nth [OF Nil] by (simp add: ring_ok_def)
next
  case (Cons p ps)
  note c = ring_copy_nth [OF Cons.prems] and pt = ring_copy_put [OF Cons.prems, of p]
  have le: "pr_count r \<le> 32" using Cons.prems by (simp add: ring_ok_def)
  show ?case
  proof (cases "pr_count r < 32")
    case True
    then show ?thesis using Cons.IH [of "ring_put p r"] pt by simp
  next
    case False
    then have "length (ring_copy r) = 32" using c le by simp
    then show ?thesis using Cons.IH [of "ring_put p r"] pt False
      by (cases "ring_copy r") auto
  qed
qed

text \<open>Reports wait in order; of more than 32 the newest are kept.\<close>

lemma reports_wait_in_order:
  assumes "rwnx_radar_detection_is_enable idx hw = Some True" "ring_ok (rr_pulses hw ! idx)" "idx < length (rr_pulses hw)" "0 < cnt" "cnt \<le> RADAR_PULSE_MAX"
  shows "\<exists>hw'. rwnx_radar_detect_ind cnt pulse idx hw = Some hw' \<and> rr_work hw' \<and> ring_ok (rr_pulses hw' ! idx)
     \<and> ring_copy (rr_pulses hw' ! idx) = (let l = ring_copy (rr_pulses hw ! idx) @ take cnt pulse in drop (length l - 32) l)"
  using assms ring_copy_puts [OF assms(2), of "take cnt pulse"] by (simp add: rwnx_radar_detect_ind_def Let_def)

section \<open>Bursts\<close>

lemma weather_thresh:
  assumes "518 \<le> g" "g \<le> 3082"
  shows "3 \<le> PPB_THRESH (19000000 div (360 * g)) \<and> 2 * PPB_THRESH (19000000 div (360 * g)) \<le> 103"
proof -
  define x :: int where "x = 19000000 div (360 * g)"
  have "19000000 div (360 * 3082) \<le> x" unfolding x_def using assms by (intro zdiv_mono2) auto
  moreover have "x \<le> 19000000 div (360 * 518)" unfolding x_def using assms by (intro zdiv_mono2) auto
  ultimately have "17 \<le> x" "x \<le> 101" by simp_all
  then show ?thesis
    unfolding PPB_THRESH_def x_def [symmetric] using zdiv_mono1 [of 900 "x * 50 + 50" 100] zdiv_mono1 [of "x * 50 + 50" 5100 100] by simp
qed

lemmas table_defs = etsi_riu_def etsi_fcu_def fcc_riu_def fcc_fcu_def jp_riu_def jp_fcu_def ETSI_PATTERN_SHORT_def ETSI_PATTERN_INTERLEAVED_def
  FCC_PATTERN_def PRF2PRI_def PRI_TOLERANCE_def

lemma table_patterns_fit:
  assumes "get_dfs_domain_radar_types r = Some (riu, fcu)" "rs \<in> set riu \<union> set fcu" "rs_type rs \<noteq> WAVE_LONG"
    and g: "rs_pri_min rs \<le> g" "g \<le> rs_pri_max rs" "rs_type rs = WAVE_WEATHER \<longrightarrow> 518 \<le> g"
  shows "pattern_fits rs g"
proof -
  have "rs \<in> set etsi_riu \<union> set etsi_fcu \<union> set fcc_riu \<union> set fcc_fcu \<union> set jp_riu \<union> set jp_fcu"
    using assms(1,2) by (cases r) (auto simp: get_dfs_domain_radar_types_def)
  then have "(rs_type rs = WAVE_WEATHER \<longrightarrow> rs_pri_max rs = 3082 \<and> rs_ppb rs = 102)
     \<and> 1 \<le> rs_tol rs \<and> 2 * rs_tol rs \<le> rs_pri_min rs \<and> rs_pri_max rs < 65536 \<and> 1 \<le> rs_num_pri rs \<and> rs_num_pri rs \<le> 3 \<and> rs_ppb rs < 255 \<and> rs_tol rs \<le> 255
     \<and> (rs_type rs \<noteq> WAVE_WEATHER \<and> rs_type rs \<noteq> WAVE_LONG \<longrightarrow> 3 \<le> rs_ppb_thresh rs \<and> 2 * rs_ppb_thresh rs \<le> rs_ppb rs + 1)"
    by (auto simp: table_defs PPB_THRESH_def)
  then show ?thesis
    using assms(3) g weather_thresh [of g] by (auto simp: pattern_fits_def burst_thresh_def)
qed


text \<open>A detector after the domain was set.\<close>

definition ex_radar_env :: radar_env where
  "ex_radar_env = \<lparr>ra_alloc = (\<lambda>_. True), ra_junk = \<lparr>sq_pri = 0, sq_dur = 0, sq_count = 0, sq_falses = 0, sq_first = 0, sq_last = 0, sq_deadline = 0, sq_thresh = 0\<rparr>,
     ra_usecs = (\<lambda>x. 4000 * x), ra_msg = True, ra_new_kernel = True\<rparr>"

definition ex_pools :: radar_pools where
  "ex_pools = \<lparr>po_pulses = 0, po_seqs = [], po_refs = 0, po_tries = 0, po_live_pulses = 0, po_live_seqs = 0\<rparr>"

definition ex_dfs :: dfs_detector where
  "ex_dfs = (case dfs_pattern_detector_init ex_radar_env 7 DFS_FCC RADAR_RIU ex_pools of (Some dp, _) \<Rightarrow> dp\<lparr>dp_enabled := DETECT_REPORT\<rparr>)"

lemma ex_dfs_eq: "ex_dfs = \<lparr>dp_enabled = DETECT_REPORT, dp_region = DFS_FCC, dp_num = 7, dp_last_ts = 0, dp_prev_jiffies = 7, dp_specs = fcc_riu,
    dp_lists = replicate get_dfs_max_radar_types []\<rparr>"
  by (simp add: ex_dfs_def dfs_pattern_detector_init_def radar_kmalloc_def ex_radar_env_def ex_pools_def dfs_pattern_detector_set_domain_def
      get_dfs_domain_radar_types_def Let_def fcc_riu_def w32_def)

lemma ex_max: "get_dfs_max_radar_types = 9"
  by (simp add: get_dfs_max_radar_types_def etsi_riu_def fcc_riu_def jp_riu_def)

lemma ex_mem: "radar_mem ex_radar_env"
  by (simp add: radar_mem_def ex_radar_env_def)



definition ex_det :: pri_detector where
  "ex_det = pde_short_init \<lparr>pd_rs = fcc_riu ! 0, pd_last_ts = 0, pd_sequences = [], pd_pulses = [], pd_count = 0, pd_max_count = 0, pd_window = 0, pd_freq = 5500\<rparr>"


section \<open>The detection work\<close>

lemma enabled_reset: "dp_enabled (fst (dfs_pattern_detector_reset j dp po)) = dp_enabled dp"
  by (simp add: dfs_pattern_detector_reset_def reset_detectors_def prod.case_eq_if)

lemma enabled_pattern: "pattern_pulse e st dp f i po = Some (r, dp', po') \<Longrightarrow> dp_enabled dp' = dp_enabled dp"
  by (auto simp: pattern_pulse_def pri_detector_get_def pri_detector_init_def Let_def split: option.splits prod.splits if_splits)

lemma enabled_try: "try_patterns e st j dp f len is po = Some (hit, dp', po') \<Longrightarrow> dp_enabled dp' = dp_enabled dp"
proof (induction "is" arbitrary: dp po)
  case (Cons i "is")
  show ?case
  proof (cases "rs_width_min (dp_specs dp ! i) > len \<or> rs_width_max (dp_specs dp ! i) < len")
    case True
    then show ?thesis using Cons by auto
  next
    case False
    obtain r dp1 p1 where pp: "pattern_pulse e st dp f i po = Some (r, dp1, p1)"
      using Cons.prems False by (auto split: option.splits)
    show ?thesis
    proof (cases r)
      case None
      then show ?thesis using Cons.IH [of dp1 p1] Cons.prems False pp enabled_pattern [OF pp] by simp
    next
      case (Some q)
      then show ?thesis using Cons.prems False pp enabled_pattern [OF pp] enabled_reset [of j dp1 p1] by (auto split: prod.splits)
    qed
  qed
qed simp

lemma enabled_pulse:
  assumes "dfs_pattern_detector_add_pulse e st dp f pri len now j po = Some (hit, dp', po')"
  shows "dp_enabled dp' = dp_enabled dp"
proof -
  have t: "dp_enabled (fst (pulse_time e dp pri now po)) = dp_enabled dp"
    by (simp add: pulse_time_def Let_def dfs_pattern_detector_pri_overflow_def reset_detectors_def prod.case_eq_if)
  show ?thesis
    using assms t enabled_try by (cases "dp_region dp = DFS_UNSET") (fastforce simp: dfs_pattern_detector_add_pulse_def split: prod.splits)+
qed

text \<open>The pulses that the work reads from the ring, as the pattern detector sees them.\<close>

definition reports_of :: "int \<Rightarrow> int \<Rightarrow> int list \<Rightarrow> radar_report list" where
  "reports_of now j ps = map (\<lambda>p. (pulse_rep p, pulse_len p * 2, w32 now, j)) ps"

lemma work_runs_detector:
  assumes "dfs_run e st (w16 (s16 freq + 2 * pf)) (reports_of now j ps) dp po = Some (True, dp', po')" "\<forall>p \<in> set ps. pulse_freq p = pf"
    and "rr_dpd hw = [Some dp, y]" "rr_pools hw = po" "rr_rmem hw \<noteq> None" "rr_status hw = st" "st = CAC_BUSY \<or> st = INSERVICE_BUSY"
  shows "\<exists>rm. process_pulses e ir RADAR_RIU freq (w32 now) j t ps hw
       = pattern_found e ir RADAR_RIU t (s16 freq + 2 * pf) (hw\<lparr>rr_dpd := [Some dp', y], rr_pools := po', rr_rmem := rm\<rparr>)
     \<and> dp_enabled dp' = dp_enabled dp"
  using assms
proof (induction ps arbitrary: hw dp po)
  case Nil
  then show ?case by (simp add: reports_of_def)
next
  case (Cons p ps)
  obtain rm where dump: "dump_pulse e RADAR_RIU (w32 now) p hw = Some (hw\<lparr>rr_rmem := Some rm\<rparr>)"
    using Cons.prems(3,5) by (auto simp: dump_pulse_def chain_no_def Let_def)
  obtain hit dp1 p1 where ap: "dfs_pattern_detector_add_pulse e st dp (w16 (s16 freq + 2 * pf)) (pulse_rep p) (pulse_len p * 2) (w32 now) j po = Some (hit, dp1, p1)"
    using Cons.prems(1) by (auto simp: reports_of_def split: option.splits)
  note en = enabled_pulse [OF ap]
  have busy: "\<not> (rr_status (hw\<lparr>rr_rmem := Some rm\<rparr>) \<noteq> CAC_BUSY \<and> rr_status (hw\<lparr>rr_rmem := Some rm\<rparr>) \<noteq> INSERVICE_BUSY)" using Cons.prems(6,7) by auto
  have pf: "pulse_freq p = pf" using Cons.prems(2) by simp
  define hw2 where "hw2 = hw\<lparr>rr_dpd := [Some dp1, y], rr_pools := p1, rr_rmem := Some rm\<rparr>"
  have pp: "process_pulses e ir RADAR_RIU freq (w32 now) j t (p # ps) hw
      = (if hit then pattern_found e ir RADAR_RIU t (s16 freq + 2 * pf) hw2 else process_pulses e ir RADAR_RIU freq (w32 now) j t ps hw2)"
  proof -
    have eq: "hw\<lparr>rr_rmem := Some rm, rr_dpd := [Some dp1, y], rr_pools := p1\<rparr> = hw2" unfolding hw2_def by (rule radar_hw.equality) simp_all
    have "process_pulses e ir RADAR_RIU freq (w32 now) j t (p # ps) hw
      = (let hw2 = hw\<lparr>rr_rmem := Some rm, rr_dpd := [Some dp1, y], rr_pools := p1\<rparr>
         in if hit then pattern_found e ir RADAR_RIU t (s16 freq + 2 * pf) hw2 else process_pulses e ir RADAR_RIU freq (w32 now) j t ps hw2)"
      using dump busy Cons.prems(3,4,6) ap pf by (auto simp: chain_no_def)
    then show ?thesis by (simp add: eq)
  qed
  show ?case
  proof (cases hit)
    case True
    then have "dp' = dp1" "po' = p1" using Cons.prems(1) ap by (simp_all add: reports_of_def)
    then show ?thesis using True pp en by (auto simp: hw2_def)
  next
    case False
    then have run: "dfs_run e st (w16 (s16 freq + 2 * pf)) (reports_of now j ps) dp1 p1 = Some (True, dp', po')"
      using Cons.prems(1) ap by (simp add: reports_of_def)
    obtain rm2 where "process_pulses e ir RADAR_RIU freq (w32 now) j t ps hw2
       = pattern_found e ir RADAR_RIU t (s16 freq + 2 * pf) (hw2\<lparr>rr_dpd := [Some dp', y], rr_pools := po', rr_rmem := rm2\<rparr>)" "dp_enabled dp' = dp_enabled dp1"
      using Cons.IH [OF run, of hw2] Cons.prems(2,6,7) by (auto simp: hw2_def)
    then show ?thesis using pp False en by (auto simp: hw2_def)
  qed
qed


text \<open>The burst of nine pulses in the ring.\<close>

definition ex_hw :: radar_hw where
  "ex_hw = (radar_zero 1)\<lparr>rr_pulses := [\<lparr>pr_index = 9, pr_count = 9, pr_buffer = map (\<lambda>rep. rep * 65536 + 1024) [100, 1428, 1438, 1420, 1420, 1420, 1420, 1420, 1420] @ replicate 23 0\<rparr>,
       \<lparr>pr_index = 0, pr_count = 0, pr_buffer = replicate 32 0\<rparr>],
     rr_dpd := [Some ex_dfs, None], rr_status := INSERVICE_BUSY, rr_pools := ex_pools,
     rr_rmem := Some \<lparr>du_cnt = 0, du_idx = 0, du_ps = replicate 32 0, du_tm = replicate 32 0, du_ts = replicate 32 0\<rparr>,
     rr_ctxs := replicate 3 \<lparr>cx_chan = True, cx_def = \<lparr>cd_freq1 = 5500, cd_radar = True\<rparr>, cx_count = 1\<rparr>\<rparr>"

lemma ex_ring: "ring_copy (rr_pulses ex_hw ! 0) = map (\<lambda>rep. rep * 65536 + 1024) [100, 1428, 1438, 1420, 1420, 1420, 1420, 1420, 1420]"
  by (simp add: ex_hw_def ring_copy_def Let_def RWNX_RADAR_PULSE_MAX_def)

lemma ex_run: "\<exists>dp' po'. dfs_run ex_radar_env INSERVICE_BUSY (w16 (s16 5500 + 2 * 0)) (reports_of 7 7 (ring_copy (rr_pulses ex_hw ! 0))) ex_dfs (rr_pools ex_hw) = Some (True, dp', po')"
proof -
  define rs where "rs = fcc_riu ! 0"
  have rs: "rs = \<lparr>rs_type_id = 0, rs_width_min = 0, rs_width_max = 8, rs_pri_min = 1412, rs_pri_max = 1444, rs_num_pri = 1, rs_ppb = 18, rs_ppb_thresh = 9,
      rs_tol = 16, rs_type = WAVE_SHORT\<rparr>"
    by (simp add: rs_def fcc_riu_def FCC_PATTERN_def PRI_TOLERANCE_def PPB_THRESH_def)
  have l: "reports_of 7 7 (ring_copy (rr_pulses ex_hw ! 0)) = (100, 2, 7, 7) # (1428, 2, 7, 7) # (1438, 2, 7, 7) # replicate 6 (1420, 2, 7, 7)"
    by (simp add: ex_ring reports_of_def pulse_rep_def pulse_len_def w32_def eval_nat_numeral)
  have t: "dp_last_ts (fst (pulse_time ex_radar_env ex_dfs 100 7 (rr_pools ex_hw))) = 100" by (simp add: ex_dfs_eq pulse_time_def w64_def)
  show ?thesis
    unfolding l
    by (rule dfs_burst [where i = 0 and rs = rs and g = 1428, OF ex_mem _ _ _ _ _ _ _ _ _ t])
      (simp_all add: ex_dfs_eq ex_max wf_dfs_def fcc_riu_def pattern_idle_def rs pulse_time_def w64_def fits_width_def pattern_fits_def
        burst_of_def burst_thresh_def FCC_PATTERN_def PRI_TOLERANCE_def PPB_THRESH_def)
qed


section \<open>Every reachable state\<close>

text \<open>
  C25: The shipped driver hears no radar.  With \<^verbatim>\<open>CONFIG_RADAR_OR_IR_DETECT\<close> off, as the Makefile sets it, in every reachable state the
  status is idle, no radar was ever reported and the tables of detected radars are empty, whatever pulses the firmware reports.
\<close>

lemma shipped_driver_hears_no_radar:
  assumes "radar_start e s" "(radar_step e False)\<^sup>*\<^sup>* s t"
  shows "rr_status t = RADAR_IDLE \<and> (\<forall>cd. OutRadar cd \<notin> set (rr_out t)) \<and> (\<forall>d \<in> set (rr_detected t). dt_count d = 0)"
  using shipped.inv_reachable [OF assms] by (simp add: deaf_def)

text \<open>Two pulses in the shipped configuration.\<close>

definition ex_start :: radar_hw where
  "ex_start = snd (rwnx_radar_detection_init ex_radar_env 7 (radar_zero 1))"

lemma ex_started: "radar_start ex_radar_env ex_start"
proof -
  have "fst (rwnx_radar_detection_init ex_radar_env 7 (radar_zero 1))"
    by (simp add: rwnx_radar_detection_init_def dfs_pattern_detector_init_def dfs_pattern_detector_set_domain_def radar_kmalloc_def ex_radar_env_def Let_def
        radar_zero_def)
  then have "rwnx_radar_detection_init ex_radar_env 7 (radar_zero 1) = (True, ex_start)"
    by (cases "rwnx_radar_detection_init ex_radar_env 7 (radar_zero 1)") (simp add: ex_start_def)
  then show ?thesis unfolding radar_start_def by blast
qed

fun radar_acts :: "radar_env \<Rightarrow> bool \<Rightarrow> radar_ev list \<Rightarrow> radar_hw \<Rightarrow> radar_hw option" where
  "radar_acts e ir [] s = Some s"
| "radar_acts e ir (ev # evs) s = (case radar_do e ir ev s of None \<Rightarrow> None | Some t \<Rightarrow> radar_acts e ir evs t)"

lemma radar_acts_steps: "radar_acts e ir evs s = Some t \<Longrightarrow> (radar_step e ir)\<^sup>*\<^sup>* s t"
proof (induction evs arbitrary: s)
  case (Cons ev evs)
  then obtain u where "radar_do e ir ev s = Some u" "radar_acts e ir evs u = Some t" by (auto split: option.splits)
  moreover from this have "radar_step e ir s u" by (auto simp: radar_step_def)
  ultimately have "radar_step e ir s u" "(radar_step e ir)\<^sup>*\<^sup>* u t" using Cons.IH by auto
  then show ?case by (rule converse_rtranclp_into_rtranclp)
qed simp

definition ex_heard :: "radar_hw option" where
  "ex_heard = radar_acts ex_radar_env False [EvEnable DETECT_REPORT RADAR_RIU, EvInd 2 [6554624, 93586432, 0, 0] 0, EvWork 7 7 0] ex_start"

lemma ex_heard_run: "\<exists>t. ex_heard = Some t \<and> (radar_step ex_radar_env False)\<^sup>*\<^sup>* ex_start t"
proof -
  have "ex_heard \<noteq> None" by code_simp
  then obtain t where t: "ex_heard = Some t" by blast
  then show ?thesis using radar_acts_steps by (auto simp: ex_heard_def simp del: radar_acts.simps)
qed

lemma shipped_driver_hears_no_radar_witness:
  "\<exists>t. ex_heard = Some t \<and> rr_status t = RADAR_IDLE \<and> (\<forall>cd. OutRadar cd \<notin> set (rr_out t)) \<and> (\<forall>d \<in> set (rr_detected t). dt_count d = 0)"
proof -
  obtain t where t: "ex_heard = Some t" "(radar_step ex_radar_env False)\<^sup>*\<^sup>* ex_start t" using ex_heard_run by blast
  from shipped_driver_hears_no_radar [OF ex_started t(2)] t(1) show ?thesis by blast
qed

text \<open>The detectors of both chains.\<close>

definition all_detectors :: "radar_hw \<Rightarrow> pri_detector list" where
  "all_detectors hw = concat (concat (map chain_lists (rr_dpd hw)))"

lemma acc_exit_chain:
  assumes "hw_acc hw"
  shows "hw_acc (exit_chain c hw) \<and> rr_dpd (exit_chain c hw) ! chain_no c = None \<and> (\<forall>c'. c' \<noteq> c \<longrightarrow> rr_dpd (exit_chain c hw) ! chain_no c' = rr_dpd hw ! chain_no c')"
proof (cases "rr_dpd hw ! chain_no c")
  case None
  then show ?thesis using assms by (simp add: exit_chain_def)
next
  case (Some dp)
  have wf: "dfs_wf dp" using hw_acc_dp [OF assms Some] by blast
  have eq: "exit_chain c hw = hw\<lparr>rr_dpd := (rr_dpd hw)[chain_no c := None], rr_pools := dfs_pattern_detector_exit dp (rr_pools hw)\<rparr>"
    using Some by (simp add: exit_chain_def)
  have "hw_acc (exit_chain c hw)"
    unfolding eq using assms Some by (rule hw_acc_chain) (use accs_exit_all [OF _ wf] in \<open>auto simp: chain_lists_def accs_def\<close>)
  moreover have "length (rr_dpd hw) = 2" using assms by (simp add: hw_acc_def)
  ultimately show ?thesis by (auto simp: eq chain_no_def nth_list_update split: radar_chain.splits)
qed

text \<open>
  C35: The memory of radar detection is conserved.  In every reachable state, whatever allocations failed, each pulse and each sequence that was
  allocated is free in its pool or held by exactly one detector, the pools count the detectors, and switching radar detection off gives
  everything back.
\<close>

lemma radar_memory_is_conserved:
  assumes "radar_start e s" "(radar_step e ir)\<^sup>*\<^sup>* s t"
  shows "po_live_pulses (rr_pools t) = po_pulses (rr_pools t) + sum_list (map (\<lambda>d. length (pd_pulses d)) (all_detectors t))
     \<and> po_live_seqs (rr_pools t) = length (po_seqs (rr_pools t)) + sum_list (map (\<lambda>d. length (pd_sequences d)) (all_detectors t))
     \<and> po_refs (rr_pools t) = length (all_detectors t)
     \<and> po_live_pulses (rr_pools (rwnx_radar_detection_deinit t)) = 0 \<and> po_live_seqs (rr_pools (rwnx_radar_detection_deinit t)) = 0"
proof -
  have acc: "hw_acc t" by (rule radar.inv_reachable [OF assms])
  then have a: "accs (concat (map chain_lists (rr_dpd t))) (rr_pools t) 0 0 0" by (simp add: hw_acc_def)
  define u where "u = exit_chain RADAR_FCU (exit_chain RADAR_RIU t)"
  have u: "hw_acc u" "rr_dpd u ! 0 = None" "rr_dpd u ! 1 = None"
    using acc_exit_chain [of t RADAR_RIU] acc_exit_chain [of "exit_chain RADAR_RIU t" RADAR_FCU] acc by (auto simp: u_def chain_no_def)
  then have "length (rr_dpd u) = 2" by (simp add: hw_acc_def)
  from two_chains [OF this] u(2,3) have "rr_dpd u = [None, None]" by auto
  then have "accounts (rr_pools u) 0 0 0" using u(1) by (simp add: hw_acc_def chain_lists_def accs_def)
  then have "po_live_pulses (rr_pools u) = 0" "po_live_seqs (rr_pools u) = 0" by (simp_all add: accounts_def)
  moreover have "rr_pools (rwnx_radar_detection_deinit t) = rr_pools u" by (simp add: rwnx_radar_detection_deinit_def u_def)
  ultimately show ?thesis
    using a by (simp add: accs_def accounts_def tot_concat all_detectors_def sum_ones)
qed

text \<open>Two pulses for an access point with a station, in the configuration that detects: four patterns follow them.\<close>

definition ex_followed :: "radar_hw option" where
  "ex_followed = radar_acts ex_radar_env True [EvDomain DFS_FCC, EvStaAdd, EvEnable DETECT_REPORT RADAR_RIU, EvInd 2 [6554624, 93586432, 0, 0] 0, EvWork 7 7 0] ex_start"

lemma radar_memory_is_conserved_witness:
  "\<exists>t. ex_followed = Some t \<and> length (all_detectors t) = 4 \<and> po_refs (rr_pools t) = 4 \<and> po_live_pulses (rr_pools (rwnx_radar_detection_deinit t)) = 0"
proof -
  have "map_option (\<lambda>t. length (all_detectors t)) ex_followed = Some 4" by code_simp
  then obtain t where t: "ex_followed = Some t" "length (all_detectors t) = 4" by auto
  then have "(radar_step ex_radar_env True)\<^sup>*\<^sup>* ex_start t" using radar_acts_steps by (auto simp: ex_followed_def simp del: radar_acts.simps)
  from radar_memory_is_conserved [OF ex_started this] t show ?thesis by (intro exI [of _ t]) simp
qed

section \<open>Faults\<close>

text \<open>
  A refused availability check leaves its work scheduled with an interface that has no channel context: when the time has come, or when the check is
  cancelled, the table of contexts is read behind its end.
\<close>

lemma refused_check_leaves_work:
  assumes "rr_vifs hw ! v = RWNX_CH_NOT_SET" "length (rr_ctxs hw) = NX_CHAN_CTXT_CNT"
  shows "\<exists>hw'. rwnx_cfg80211_start_radar_detection e ir v cd (False, x) hw = Some (False, hw') \<and> rr_cac_work hw'
     \<and> rwnx_radar_cac_work e ir hw' = None \<and> rwnx_radar_cancel_cac e ir hw' = None"
  using assms
  by (simp add: rwnx_cfg80211_start_radar_detection_def rwnx_send_apm_start_cac_req_def rwnx_radar_start_cac_def radar_emit_def rwnx_radar_cac_work_def
      rwnx_radar_cancel_cac_def RWNX_CH_NOT_SET_def NX_CHAN_CTXT_CNT_def Let_def)

text \<open>A detector that cannot be allocated is used.\<close>

lemma missing_detector_is_used:
  assumes "find_detector freq 0 None (dp_lists dp ! i) = None" "\<not> ra_alloc e (po_tries po)"
  shows "pattern_pulse e st dp freq i po = None"
  using assms by (simp add: pattern_pulse_def pri_detector_get_def pri_detector_init_def radar_kmalloc_def)

text \<open>On kernels from 6.12 on, a cancelled check is announced as finished: the channel counts as available.\<close>

lemma cancelled_check_counts_as_finished:
  assumes "ra_new_kernel e" "rr_cac_vif hw = Some v" "rr_cac_work hw" "rwnx_radar_cancel_cac e ir hw = Some hw'"
  shows "\<exists>cd. OutCac v cd CAC_FINISHED \<in> set (rr_out hw')"
proof -
  define h where "h = radar_emit (OutCac v (cx_def (rr_ctxs hw ! (rr_vifs hw ! v))) CAC_FINISHED) (rwnx_send_apm_stop_cac_req e ir v (hw\<lparr>rr_cac_work := False\<rparr>))"
  obtain h' where h': "rwnx_chanctx_unlink v h = Some h'" "hw' = h'\<lparr>rr_cac_vif := None\<rparr>"
    using assms by (auto simp: rwnx_radar_cancel_cac_def bind_eq_Some_conv h_def split: if_splits)
  have en: "rr_out y = rr_out z" if "rwnx_radar_detection_enable a c z = Some y" for a c y z
    using that by (auto simp: rwnx_radar_detection_enable_def split: option.splits)
  have "rr_out h' = rr_out h"
    using h'(1) by (auto simp: rwnx_chanctx_unlink_def Let_def bind_eq_Some_conv split: if_splits dest!: en)
  then show ?thesis by (auto simp: h'(2) h_def radar_emit_def)
qed

end
