(* ===== verification/Cmd_Mgr.thy ===== *)
theory Cmd_Mgr
  imports Aic_Prelude
begin

text \<open>
  The command manager (\<^verbatim>\<open>rwnx_cmds.c\<close>, \<^verbatim>\<open>rwnx_cmds.h\<close>) and the senders that use it
  (\<^verbatim>\<open>rwnx_send_msg\<close>, \<^verbatim>\<open>rwnx_send_msg1\<close> and the command pool of \<^verbatim>\<open>rwnx_msg_tx.c\<close>).

  A command is a slot of the static pool \<^verbatim>\<open>cmd_array\<close>; a \<^verbatim>\<open>struct rwnx_cmd *\<close> is the index of its
  slot, so that two references to one slot alias as they do in C.  The linked list
  \<^verbatim>\<open>cmd_mgr->cmds\<close> is the list of the indices in list order.  Every operation is a function from the
  driver state to an optional result: \<open>None\<close> is a kernel fault (unlocking a free spinlock,
  taking a held one, a \<^verbatim>\<open>list_del\<close> of an unlinked entry, a NULL dereference, a copy past the
  end of a buffer).  Calls that block are cut at the wait; the second half takes the
  outcome of the wait.  Calls outside the component (bus transmission, \<^verbatim>\<open>kfree\<close>, wake lock, work queue)
  are recorded in order in the field \<open>log\<close>.
\<close>

section \<open>Data\<close>

subsection \<open>Constants of \<^verbatim>\<open>rwnx_cmds.h\<close>\<close>

definition RWNX_CMD_FLAG_NONBLOCK :: u16 where "RWNX_CMD_FLAG_NONBLOCK = 1"
definition RWNX_CMD_FLAG_REQ_CFM :: u16 where "RWNX_CMD_FLAG_REQ_CFM = 2"
definition RWNX_CMD_FLAG_WAIT_PUSH :: u16 where "RWNX_CMD_FLAG_WAIT_PUSH = 4"
definition RWNX_CMD_FLAG_WAIT_ACK :: u16 where "RWNX_CMD_FLAG_WAIT_ACK = 8"
definition RWNX_CMD_FLAG_WAIT_CFM :: u16 where "RWNX_CMD_FLAG_WAIT_CFM = 16"
definition RWNX_CMD_FLAG_DONE :: u16 where "RWNX_CMD_FLAG_DONE = 32"

lemmas cmd_flag_defs = RWNX_CMD_FLAG_NONBLOCK_def RWNX_CMD_FLAG_REQ_CFM_def
  RWNX_CMD_FLAG_WAIT_PUSH_def RWNX_CMD_FLAG_WAIT_ACK_def RWNX_CMD_FLAG_WAIT_CFM_def
  RWNX_CMD_FLAG_DONE_def

definition RWNX_CMD_WAIT_COMPLETE :: "u16 \<Rightarrow> bool" where
  "RWNX_CMD_WAIT_COMPLETE f \<longleftrightarrow> \<not> flag_set f (RWNX_CMD_FLAG_WAIT_ACK OR RWNX_CMD_FLAG_WAIT_CFM)"

definition RWNX_CMD_MAX_QUEUED :: u32 where "RWNX_CMD_MAX_QUEUED = 16"
definition RWNX_CMD_E2AMSG_LEN_MAX :: u16 where "RWNX_CMD_E2AMSG_LEN_MAX = 1024"
definition RWNX_CMD_ARRAY_SIZE :: nat where "RWNX_CMD_ARRAY_SIZE = 40"
definition CMD_BUF_MAX :: nat where "CMD_BUF_MAX = 1536"

definition ME_TRAFFIC_IND_REQ :: u16 where "ME_TRAFFIC_IND_REQ = 5132"
definition MM_SET_ARPOFFLOAD_REQ :: u16 where "MM_SET_ARPOFFLOAD_REQ = 97"

text \<open>Error numbers, as the C code returns them; \<^verbatim>\<open>cmd->result\<close> is a \<^verbatim>\<open>u32\<close>.\<close>

definition EINTR :: int where "EINTR = 4"
definition EIO :: int where "EIO = 5"
definition ENOMEM :: int where "ENOMEM = 12"
definition EPIPE :: int where "EPIPE = 32"
definition ETIMEDOUT :: int where "ETIMEDOUT = 110"

datatype rwnx_cmd_mgr_state = RWNX_CMD_MGR_STATE_DEINIT | RWNX_CMD_MGR_STATE_INITED
  | RWNX_CMD_MGR_STATE_CRASHED

datatype aicwf_usb_state = USB_DOWN_ST | USB_UP_ST | USB_SLEEP_ST

subsection \<open>Messages and commands\<close>

record lmac_msg =
  m_id :: u16
  m_dest_id :: u16
  m_src_id :: u16
  m_param_len :: u16
  m_param :: "u8 list"

record ipc_e2a_msg =
  e_id :: u16
  e_param_len :: u16
  e_param :: "u8 list"

record rwnx_cmd =
  c_id :: u16
  c_reqid :: u16
  c_a2e_msg :: lmac_msg
  c_e2a_msg :: "u8 list option"
  c_tkn :: u32
  c_flags :: u16
  c_complete :: nat
  c_result :: u32
  c_used :: bool
  c_array_id :: nat

record rwnx_cmd_mgr =
  state :: rwnx_cmd_mgr_state
  next_tkn :: u32
  queue_sz :: u32
  max_queue_sz :: u32
  cmds :: "nat list"

datatype event = WakeupLock | WakeupUnlock | QueueWork | BusTx "u8 list" | KfreeMsg lmac_msg
  | Callback "nat option" ipc_e2a_msg

record driver =
  mgr :: rwnx_cmd_mgr
  locked :: bool
  cmd_array :: "rwnx_cmd list"
  usb_state :: aicwf_usb_state
  log :: "event list"

abbreviation cmd_at :: "driver \<Rightarrow> nat \<Rightarrow> rwnx_cmd" where
  "cmd_at s p \<equiv> cmd_array s ! p"

abbreviation flags_of :: "driver \<Rightarrow> nat \<Rightarrow> u16" where
  "flags_of s p \<equiv> c_flags (cmd_at s p)"

definition upd_cmd :: "nat \<Rightarrow> (rwnx_cmd \<Rightarrow> rwnx_cmd) \<Rightarrow> driver \<Rightarrow> driver" where
  "upd_cmd p f s = s\<lparr>cmd_array := (cmd_array s)[p := f (cmd_at s p)]\<rparr>"

definition upd_mgr :: "(rwnx_cmd_mgr \<Rightarrow> rwnx_cmd_mgr) \<Rightarrow> driver \<Rightarrow> driver" where
  "upd_mgr f s = s\<lparr>mgr := f (mgr s)\<rparr>"

definition add_log :: "event \<Rightarrow> driver \<Rightarrow> driver" where
  "add_log e s = s\<lparr>log := log s @ [e]\<rparr>"

definition spin_lock_bh :: "driver \<Rightarrow> driver option" where
  "spin_lock_bh s = (if locked s then None else Some (s\<lparr>locked := True\<rparr>))"

definition spin_unlock_bh :: "driver \<Rightarrow> driver option" where
  "spin_unlock_bh s = (if locked s then Some (s\<lparr>locked := False\<rparr>) else None)"

text \<open>\<^verbatim>\<open>list_del\<close> of an entry that is not linked writes through the list poison.\<close>

definition list_del :: "nat \<Rightarrow> driver \<Rightarrow> driver option" where
  "list_del p s = (if p \<in> set (cmds (mgr s))
     then Some (upd_mgr (\<lambda>m. m\<lparr>cmds := remove1 p (cmds m)\<rparr>) s) else None)"

section \<open>The command pool (\<^verbatim>\<open>rwnx_msg_tx.c\<close>)\<close>

definition blank_cmd :: "nat \<Rightarrow> rwnx_cmd" where
  "blank_cmd i = \<lparr>c_id = 0, c_reqid = 0,
     c_a2e_msg = \<lparr>m_id = 0, m_dest_id = 0, m_src_id = 0, m_param_len = 0, m_param = []\<rparr>,
     c_e2a_msg = None, c_tkn = 0, c_flags = 0, c_complete = 0, c_result = 0, c_used = False,
     c_array_id = i\<rparr>"

definition rwnx_init_cmd_array :: "driver \<Rightarrow> driver" where
  "rwnx_init_cmd_array s = s\<lparr>cmd_array :=
     map (\<lambda>i. (cmd_at s i)\<lparr>c_used := False, c_array_id := i\<rparr>) [0..<RWNX_CMD_ARRAY_SIZE]\<rparr>"

definition rwnx_free_cmd_array :: "driver \<Rightarrow> driver" where
  "rwnx_free_cmd_array s = s\<lparr>cmd_array := map (\<lambda>c. c\<lparr>c_used := False\<rparr>) (cmd_array s)\<rparr>"

fun first_unused :: "nat \<Rightarrow> rwnx_cmd list \<Rightarrow> nat option" where
  "first_unused i [] = None"
| "first_unused i (c # cs) = (if \<not> c_used c then Some i else first_unused (Suc i) cs)"

definition rwnx_cmd_malloc :: "driver \<Rightarrow> nat option \<times> driver" where
  "rwnx_cmd_malloc s = (case first_unused 0 (cmd_array s) of
      None \<Rightarrow> (None, s)
    | Some p \<Rightarrow> (Some p, upd_cmd p (\<lambda>c. c\<lparr>c_used := True\<rparr>) s))"

definition rwnx_cmd_free :: "nat \<Rightarrow> driver \<Rightarrow> driver" where
  "rwnx_cmd_free p s = upd_cmd p (\<lambda>c. c\<lparr>c_used := False\<rparr>) s"

section \<open>Operations of \<^verbatim>\<open>rwnx_cmds.c\<close>\<close>

definition complete :: "nat \<Rightarrow> driver \<Rightarrow> driver" where
  "complete p s = upd_cmd p (\<lambda>c. c\<lparr>c_complete := Suc (c_complete c)\<rparr>) s"

definition init_completion :: "nat \<Rightarrow> driver \<Rightarrow> driver" where
  "init_completion p s = upd_cmd p (\<lambda>c. c\<lparr>c_complete := 0\<rparr>) s"

definition cmd_complete :: "nat \<Rightarrow> driver \<Rightarrow> driver" where
  "cmd_complete p s =
    (let s1 = upd_cmd p (\<lambda>c. c\<lparr>c_flags := flag_add (c_flags c) RWNX_CMD_FLAG_DONE\<rparr>) s;
         s2 = (if flag_set (flags_of s1 p) RWNX_CMD_FLAG_NONBLOCK then rwnx_cmd_free p s1
               else if RWNX_CMD_WAIT_COMPLETE (flags_of s1 p)
               then complete p (upd_cmd p (\<lambda>c. c\<lparr>c_result := 0\<rparr>) s1)
               else s1)
     in if queue_sz (mgr s2) = 0 then add_log WakeupUnlock s2 else s2)"

subsection \<open>Transmission of one message\<close>

text \<open>
  \<^verbatim>\<open>aicwf_set_cmd_tx\<close> lays the message out in the command buffer of the bus.  \<open>txres\<close> is what the first
  \<^verbatim>\<open>aicwf_bus_txmsg\<close> returns; on \<^verbatim>\<open>-EIO\<close> the same buffer is sent once more.  \<open>len\<close> is the size of the
  message, header included, and is a 32-bit unsigned value.
\<close>

definition cmd_frame :: "lmac_msg \<Rightarrow> u32 \<Rightarrow> u8 list" where
  "cmd_frame msg len =
     [ucast (len + 4), ucast (drop_bit 8 (len + 4)) AND 15, 17, 0] @ [0, 0, 0, 0]
     @ le16 (m_id msg) @ le16 (m_dest_id msg) @ le16 (m_src_id msg) @ le16 (m_param_len msg)
     @ take (unat (m_param_len msg)) (m_param msg)"

definition aicwf_set_cmd_tx :: "int \<Rightarrow> lmac_msg \<Rightarrow> u32 \<Rightarrow> driver \<Rightarrow> driver option" where
  "aicwf_set_cmd_tx txres msg len s =
    (if usb_state s = USB_DOWN_ST then Some s
     else if CMD_BUF_MAX < 16 + unat (m_param_len msg) then None
     else let buffer = cmd_frame msg len @ replicate (CMD_BUF_MAX - length (cmd_frame msg len)) 0;
              out = BusTx (take (unat (len + 8)) buffer);
              s1 = add_log out s
          in Some (if txres = - EIO then add_log out s1 else s1))"

definition msg_len :: "lmac_msg \<Rightarrow> u32" where
  "msg_len msg = 8 + ucast (m_param_len msg)"

subsection \<open>\<^verbatim>\<open>cmd_mgr_queue\<close>\<close>

datatype wait_outcome = Completed | Killed | TimedOut

datatype queue_outcome = QRetry | QReturn int | QWait

definition list_add_tail :: "nat \<Rightarrow> driver \<Rightarrow> driver" where
  "list_add_tail p s = upd_mgr (\<lambda>m. m\<lparr>cmds := cmds m @ [p]\<rparr>) s"

text \<open>Lines that \<^verbatim>\<open>cmd_mgr_queue\<close> and \<^verbatim>\<open>cmd_mgr_queue_force_defer\<close> share: token, link, size.\<close>

definition queue_link :: "nat \<Rightarrow> driver \<Rightarrow> driver" where
  "queue_link p s0 =
    (let s1 = (if flag_set (flags_of s0 p) RWNX_CMD_FLAG_REQ_CFM
               then upd_cmd p (\<lambda>c. c\<lparr>c_flags := flag_add (c_flags c) RWNX_CMD_FLAG_WAIT_CFM\<rparr>) s0 else s0);
         s2 = upd_cmd p (\<lambda>c. c\<lparr>c_tkn := next_tkn (mgr s1), c_result := word_of_int (- EINTR)\<rparr>) s1;
         s3 = upd_mgr (\<lambda>m. m\<lparr>next_tkn := next_tkn m + 1\<rparr>) s2;
         s4 = (if \<not> flag_set (flags_of s3 p) RWNX_CMD_FLAG_NONBLOCK then init_completion p s3 else s3);
         s5 = list_add_tail p s4;
         s6 = (if queue_sz (mgr s5) = 0 then add_log WakeupLock s5 else s5)
     in upd_mgr (\<lambda>m. m\<lparr>queue_sz := queue_sz m + 1\<rparr>) s6)"

definition set_wait_push :: "nat \<Rightarrow> driver \<Rightarrow> driver" where
  "set_wait_push p s = upd_cmd p (\<lambda>c. c\<lparr>c_flags := flag_add (c_flags c) RWNX_CMD_FLAG_WAIT_PUSH\<rparr>) s"

definition cmd_mgr_queue_force_defer :: "nat \<Rightarrow> driver \<Rightarrow> (int \<times> driver) option" where
  "cmd_mgr_queue_force_defer p s0 = do {
     s \<leftarrow> spin_lock_bh s0;
     if state (mgr s) = RWNX_CMD_MGR_STATE_CRASHED then do {
       s' \<leftarrow> spin_unlock_bh (upd_cmd p (\<lambda>c. c\<lparr>c_result := word_of_int (- EPIPE)\<rparr>) s);
       Some (- EPIPE, s') }
     else if cmds (mgr s) \<noteq> [] \<and> queue_sz (mgr s) = max_queue_sz (mgr s) then do {
       s' \<leftarrow> spin_unlock_bh (upd_cmd p (\<lambda>c. c\<lparr>c_result := word_of_int (- ENOMEM)\<rparr>) s);
       Some (- ENOMEM, s') }
     else do {
       s' \<leftarrow> spin_unlock_bh (queue_link p (set_wait_push p s));
       Some (0, add_log QueueWork s') } }"

text \<open>
  The polling loop at the top of \<^verbatim>\<open>cmd_mgr_queue\<close>, one round: \<open>None\<close> means sleep and poll again.  In the
  crashed state the loop is left without the lock.
\<close>

definition cmd_mgr_queue_poll :: "nat \<Rightarrow> driver \<Rightarrow> driver option option" where
  "cmd_mgr_queue_poll p s =
    (if c_e2a_msg (cmd_at s p) \<noteq> None then
       if state (mgr s) = RWNX_CMD_MGR_STATE_CRASHED then Some (Some s)
       else do {
         s1 \<leftarrow> spin_lock_bh s;
         if cmds (mgr s1) = [] then Some (Some s1)
         else do { _ \<leftarrow> spin_unlock_bh s1; Some None } }
     else do { s1 \<leftarrow> spin_lock_bh s; Some (Some s1) })"

definition last_busy :: "driver \<Rightarrow> bool" where
  "last_busy s \<longleftrightarrow> flag_set (flags_of s (last (cmds (mgr s))))
     (RWNX_CMD_FLAG_WAIT_ACK OR RWNX_CMD_FLAG_WAIT_PUSH OR RWNX_CMD_FLAG_WAIT_CFM)"

definition deferred_id :: "u16 \<Rightarrow> bool" where
  "deferred_id i \<longleftrightarrow> i = ME_TRAFFIC_IND_REQ \<or> i = MM_SET_ARPOFFLOAD_REQ"

text \<open>Under the lock: decide whether the push is deferred, then link the command.\<close>

definition queue_prepare :: "nat \<Rightarrow> driver \<Rightarrow> bool \<times> driver" where
  "queue_prepare p s =
    (let defer1 = (cmds (mgr s) \<noteq> [] \<and> last_busy s);
         s1 = queue_link p (if defer1 then set_wait_push p s else s);
         defer2 = deferred_id (m_id (c_a2e_msg (cmd_at s1 p)))
     in (defer1 \<or> defer2, if defer2 then set_wait_push p s1 else s1))"

text \<open>After the lock is released: hand the command to the worker, or transmit it and wait.\<close>

definition queue_push :: "int \<Rightarrow> nat \<Rightarrow> bool \<Rightarrow> driver \<Rightarrow> (queue_outcome \<times> driver) option" where
  "queue_push txres p defer_push s =
    (if defer_push then
       Some (QReturn 0, if queue_sz (mgr s) \<le> 1 then add_log QueueWork s else s)
     else do {
       s4 \<leftarrow> aicwf_set_cmd_tx txres (c_a2e_msg (cmd_at s p)) (msg_len (c_a2e_msg (cmd_at s p))) s;
       let s5 = add_log (KfreeMsg (c_a2e_msg (cmd_at s4 p))) s4;
       if \<not> flag_set (flags_of s5 p) RWNX_CMD_FLAG_NONBLOCK then Some (QWait, s5)
       else Some (QReturn 0, upd_cmd p (\<lambda>c. c\<lparr>c_result := 0\<rparr>) s5) })"

definition cmd_mgr_queue_body :: "int \<Rightarrow> nat \<Rightarrow> driver \<Rightarrow> (queue_outcome \<times> driver) option" where
  "cmd_mgr_queue_body txres p s =
    (if state (mgr s) = RWNX_CMD_MGR_STATE_CRASHED then do {
       s' \<leftarrow> spin_unlock_bh (upd_cmd p (\<lambda>c. c\<lparr>c_result := word_of_int (- EPIPE)\<rparr>) s);
       Some (QReturn (- EPIPE), s') }
     else if cmds (mgr s) \<noteq> [] \<and> queue_sz (mgr s) = max_queue_sz (mgr s) then do {
       s' \<leftarrow> spin_unlock_bh (upd_cmd p (\<lambda>c. c\<lparr>c_result := word_of_int (- ENOMEM)\<rparr>) s);
       Some (QReturn (- ENOMEM), s') }
     else (case queue_prepare p s of (defer_push, s2) \<Rightarrow> do {
       s3 \<leftarrow> spin_unlock_bh s2;
       queue_push txres p defer_push s3 }))"

definition cmd_mgr_queue :: "int \<Rightarrow> nat \<Rightarrow> driver \<Rightarrow> (queue_outcome \<times> driver) option" where
  "cmd_mgr_queue txres p s = do {
     r \<leftarrow> cmd_mgr_queue_poll p s;
     (case r of None \<Rightarrow> Some (QRetry, s) | Some s1 \<Rightarrow> cmd_mgr_queue_body txres p s1) }"

text \<open>
  After the wait.  A wait that a signal kills returns a nonzero value too and takes the same branch as a
  completed one.
\<close>

definition timeout_branch :: "nat \<Rightarrow> driver \<Rightarrow> driver option" where
  "timeout_branch p s = do {
     s1 \<leftarrow> spin_lock_bh s;
     let s2 = upd_mgr (\<lambda>m. m\<lparr>state := RWNX_CMD_MGR_STATE_CRASHED\<rparr>) s1;
     spin_unlock_bh (if \<not> flag_set (flags_of s2 p) RWNX_CMD_FLAG_DONE
       then cmd_complete p (upd_cmd p (\<lambda>c. c\<lparr>c_result := word_of_int (- ETIMEDOUT)\<rparr>) s2) else s2) }"

definition unlink_branch :: "nat \<Rightarrow> driver \<Rightarrow> driver option" where
  "unlink_branch p s = do {
     s1 \<leftarrow> spin_lock_bh s;
     s2 \<leftarrow> list_del p s1;
     let s3 = upd_mgr (\<lambda>m. m\<lparr>queue_sz := queue_sz m - 1\<rparr>) s2;
     s4 \<leftarrow> spin_unlock_bh (if queue_sz (mgr s3) = 0 then add_log WakeupUnlock s3 else s3);
     Some (rwnx_cmd_free p s4) }"

definition cmd_mgr_queue_wake :: "wait_outcome \<Rightarrow> nat \<Rightarrow> driver \<Rightarrow> (int \<times> driver) option" where
  "cmd_mgr_queue_wake w p s =
    (if w = TimedOut then do { s' \<leftarrow> timeout_branch p s; Some (- ETIMEDOUT, s') }
     else do {
       s' \<leftarrow> unlink_branch p s;
       Some (0, if cmds (mgr s') \<noteq> [] \<and> usb_state s' = USB_UP_ST then add_log QueueWork s' else s') })"

subsection \<open>\<^verbatim>\<open>cmd_mgr_llind\<close>, \<^verbatim>\<open>cmd_mgr_task_process\<close>, \<^verbatim>\<open>cmd_mgr_msgind\<close>, \<^verbatim>\<open>cmd_mgr_drain\<close>\<close>

text \<open>The search for the next command to push has no effect in \<^verbatim>\<open>cmd_mgr_llind\<close>: its use is compiled out.\<close>

definition cmd_mgr_llind :: "nat \<Rightarrow> driver \<Rightarrow> (int \<times> driver) option" where
  "cmd_mgr_llind p s0 = do {
     s \<leftarrow> spin_lock_bh s0;
     let acked = find (\<lambda>q. c_tkn (cmd_at s q) = c_tkn (cmd_at s p)) (cmds (mgr s));
     let s1 = (case acked of None \<Rightarrow> s
        | Some _ \<Rightarrow>
           (let s' = upd_cmd p (\<lambda>c. c\<lparr>c_flags := flag_clear (c_flags c) RWNX_CMD_FLAG_WAIT_ACK\<rparr>) s
            in if RWNX_CMD_WAIT_COMPLETE (flags_of s' p) then cmd_complete p s' else s'));
     s2 \<leftarrow> spin_unlock_bh s1;
     Some (0, s2) }"

text \<open>One round of the worker loop up to its wait (\<open>Some p\<close>), or the end of the loop (\<open>None\<close>).\<close>

definition task_next :: "driver \<Rightarrow> nat option" where
  "task_next s = (case cmds (mgr s) of [] \<Rightarrow> None
     | p # _ \<Rightarrow> if flag_set (flags_of s p) RWNX_CMD_FLAG_WAIT_PUSH then Some p else None)"

definition cmd_mgr_task_round :: "int \<Rightarrow> driver \<Rightarrow> (nat option \<times> driver) option" where
  "cmd_mgr_task_round txres s0 = do {
     s1 \<leftarrow> spin_lock_bh s0;
     let next = task_next s1;
     s \<leftarrow> spin_unlock_bh s1;
     (case next of None \<Rightarrow> Some (None, s)
      | Some p \<Rightarrow> do {
          let s2 = upd_cmd p (\<lambda>c. c\<lparr>c_flags := flag_clear (c_flags c) RWNX_CMD_FLAG_WAIT_PUSH\<rparr>) s;
          s3 \<leftarrow> aicwf_set_cmd_tx txres (c_a2e_msg (cmd_at s2 p)) (msg_len (c_a2e_msg (cmd_at s2 p))) s2;
          Some (Some p, add_log (KfreeMsg (c_a2e_msg (cmd_at s3 p))) s3) }) }"

definition cmd_mgr_task_wake :: "wait_outcome \<Rightarrow> nat \<Rightarrow> driver \<Rightarrow> driver option" where
  "cmd_mgr_task_wake w p s = (if w = TimedOut then timeout_branch p s else unlink_branch p s)"

text \<open>The whole loop, given the outcome of each wait; running out of outcomes stops in the wait.\<close>

fun cmd_mgr_task_process :: "int \<Rightarrow> wait_outcome list \<Rightarrow> driver \<Rightarrow> driver option" where
  "cmd_mgr_task_process txres ws s = (case cmd_mgr_task_round txres s of
      None \<Rightarrow> None
    | Some (None, s1) \<Rightarrow> Some s1
    | Some (Some p, s1) \<Rightarrow>
        (case ws of [] \<Rightarrow> Some s1
         | w # ws' \<Rightarrow> (case cmd_mgr_task_wake w p s1 of None \<Rightarrow> None
            | Some s2 \<Rightarrow> cmd_mgr_task_process txres ws' s2)))"

declare cmd_mgr_task_process.simps [simp del]

text \<open>
  \<open>cb\<close> is the handler \<^verbatim>\<open>rwnx_rx_handle_msg\<close> finds for the message (\<open>None\<close> where the table has none), given the
  command it is run for; it returns nonzero when the message does not belong to that command.
\<close>

definition cmd_mgr_run_callback ::
  "(nat option \<Rightarrow> ipc_e2a_msg \<Rightarrow> int) option \<Rightarrow> nat option \<Rightarrow> ipc_e2a_msg \<Rightarrow> driver \<Rightarrow> int \<times> driver" where
  "cmd_mgr_run_callback cb c msg s =
    (case cb of None \<Rightarrow> (0, s) | Some f \<Rightarrow> (f c msg, add_log (Callback c msg) s))"

text \<open>\<^verbatim>\<open>memcpy\<close> into the caller's confirmation structure; past its end it is a fault.\<close>

definition memcpy_to :: "u8 list \<Rightarrow> u8 list \<Rightarrow> u8 list option" where
  "memcpy_to dst src = (if length src \<le> length dst then Some (src @ drop (length src) dst) else None)"

definition e2a_copy_len :: "ipc_e2a_msg \<Rightarrow> nat" where
  "e2a_copy_len msg = unat (if RWNX_CMD_E2AMSG_LEN_MAX < e_param_len msg then RWNX_CMD_E2AMSG_LEN_MAX
     else e_param_len msg)"

definition msgind_copy :: "ipc_e2a_msg \<Rightarrow> nat \<Rightarrow> driver \<Rightarrow> driver option" where
  "msgind_copy msg p s = (case c_e2a_msg (cmd_at s p) of None \<Rightarrow> Some s
     | Some dst \<Rightarrow> if e2a_copy_len msg \<noteq> 0
         then do { dst' \<leftarrow> memcpy_to dst (take (e2a_copy_len msg) (e_param msg));
                   Some (upd_cmd p (\<lambda>c. c\<lparr>c_e2a_msg := Some dst'\<rparr>) s) }
         else Some s)"

definition msgind_hit :: "ipc_e2a_msg \<Rightarrow> nat \<Rightarrow> driver \<Rightarrow> driver option" where
  "msgind_hit msg p s = do {
     s2 \<leftarrow> msgind_copy msg p
       (upd_cmd p (\<lambda>c. c\<lparr>c_flags := flag_clear (c_flags c) RWNX_CMD_FLAG_WAIT_CFM\<rparr>) s);
     Some (if RWNX_CMD_WAIT_COMPLETE (flags_of s2 p) then cmd_complete p s2 else s2) }"

fun msgind_scan :: "(nat option \<Rightarrow> ipc_e2a_msg \<Rightarrow> int) option \<Rightarrow> ipc_e2a_msg \<Rightarrow> nat list \<Rightarrow> driver
    \<Rightarrow> (bool \<times> driver) option" where
  "msgind_scan cb msg [] s = Some (False, s)"
| "msgind_scan cb msg (p # ps) s =
    (if c_reqid (cmd_at s p) = e_id msg \<and> flag_set (flags_of s p) RWNX_CMD_FLAG_WAIT_CFM then
       (case cmd_mgr_run_callback cb (Some p) msg s of (res, s1) \<Rightarrow>
          if res = 0 then map_option (Pair True) (msgind_hit msg p s1) else msgind_scan cb msg ps s1)
     else msgind_scan cb msg ps s)"

definition cmd_mgr_msgind :: "(nat option \<Rightarrow> ipc_e2a_msg \<Rightarrow> int) option \<Rightarrow> ipc_e2a_msg \<Rightarrow> driver
    \<Rightarrow> driver option" where
  "cmd_mgr_msgind cb msg s0 = do {
     s \<leftarrow> spin_lock_bh s0;
     (found, s1) \<leftarrow> msgind_scan cb msg (cmds (mgr s)) s;
     s2 \<leftarrow> spin_unlock_bh s1;
     Some (if found then s2 else snd (cmd_mgr_run_callback cb None msg s2)) }"

fun drain_loop :: "nat list \<Rightarrow> driver \<Rightarrow> driver option" where
  "drain_loop [] s = Some s"
| "drain_loop (p # ps) s = do {
     s1 \<leftarrow> list_del p s;
     drain_loop ps (if \<not> flag_set (flags_of s1 p) RWNX_CMD_FLAG_NONBLOCK then complete p s1 else s1) }"

definition cmd_mgr_drain :: "driver \<Rightarrow> driver option" where
  "cmd_mgr_drain s0 = do {
     s \<leftarrow> spin_lock_bh s0;
     s1 \<leftarrow> drain_loop (cmds (mgr s)) s;
     spin_unlock_bh s1 }"

text \<open>\<^verbatim>\<open>next_tkn\<close> and \<^verbatim>\<open>queue_sz\<close> are not written by \<^verbatim>\<open>rwnx_cmd_mgr_init\<close>.\<close>

definition rwnx_cmd_mgr_init :: "driver \<Rightarrow> driver" where
  "rwnx_cmd_mgr_init s = (upd_mgr (\<lambda>m. m\<lparr>cmds := [], state := RWNX_CMD_MGR_STATE_INITED,
     max_queue_sz := RWNX_CMD_MAX_QUEUED\<rparr>) s)\<lparr>locked := False\<rparr>"

text \<open>
  \<^verbatim>\<open>rwnx_cmd_mgr_deinit\<close> tests the function pointers that \<^verbatim>\<open>rwnx_cmd_mgr_init\<close> sets together with the state and
  that the final \<^verbatim>\<open>memset\<close> clears together with it: the test is that of the state.
\<close>

definition rwnx_cmd_mgr_deinit :: "driver \<Rightarrow> driver option" where
  "rwnx_cmd_mgr_deinit s =
    (if state (mgr s) = RWNX_CMD_MGR_STATE_DEINIT then Some s
     else do {
       s1 \<leftarrow> cmd_mgr_drain s;
       Some (s1\<lparr>mgr := \<lparr>state = RWNX_CMD_MGR_STATE_DEINIT, next_tkn = 0, queue_sz = 0,
         max_queue_sz = 0, cmds = []\<rparr>, locked := False\<rparr>) })"

section \<open>Senders (\<^verbatim>\<open>rwnx_msg_tx.c\<close>)\<close>

text \<open>
  \<^verbatim>\<open>nonblock\<close> is the constant 0 in both senders, so the flags of a reused slot are kept and only
  \<^verbatim>\<open>RWNX_CMD_FLAG_REQ_CFM\<close> is or-ed in.
\<close>

definition fill_cmd :: "bool \<Rightarrow> u16 \<Rightarrow> u8 list option \<Rightarrow> lmac_msg \<Rightarrow> rwnx_cmd \<Rightarrow> rwnx_cmd" where
  "fill_cmd reqcfm reqid cfm msg c = c\<lparr>c_result := word_of_int (- EINTR), c_id := m_id msg,
     c_reqid := reqid, c_a2e_msg := msg, c_e2a_msg := cfm,
     c_flags := (if reqcfm
       then flag_clear (flag_add (c_flags c) RWNX_CMD_FLAG_REQ_CFM) RWNX_CMD_FLAG_WAIT_ACK
       else c_flags c)\<rparr>"

datatype send_outcome = Sent int | Polling nat | Waiting nat

definition after_queue :: "nat \<Rightarrow> queue_outcome \<times> driver \<Rightarrow> send_outcome \<times> driver" where
  "after_queue p r = (case r of
      (QRetry, s) \<Rightarrow> (Polling p, s)
    | (QWait, s) \<Rightarrow> (Waiting p, s)
    | (QReturn ret, s) \<Rightarrow> (Sent ret, if ret \<noteq> 0 then rwnx_cmd_free p s else s))"

definition rwnx_send_msg :: "int \<Rightarrow> bool \<Rightarrow> u16 \<Rightarrow> u8 list option \<Rightarrow> lmac_msg \<Rightarrow> driver
    \<Rightarrow> (send_outcome \<times> driver) option" where
  "rwnx_send_msg txres reqcfm reqid cfm msg s =
    (if usb_state s = USB_DOWN_ST then Some (Sent 0, add_log (KfreeMsg msg) s)
     else (case rwnx_cmd_malloc s of (None, _) \<Rightarrow> None
       | (Some p, s0) \<Rightarrow>
          (let s1 = upd_cmd p (fill_cmd reqcfm reqid cfm msg) s0 in
           if reqcfm then map_option (after_queue p) (cmd_mgr_queue txres p s1)
           else do {
             s2 \<leftarrow> aicwf_set_cmd_tx txres msg (msg_len msg) s1;
             Some (Sent 0, rwnx_cmd_free p s2) })))"

text \<open>\<^verbatim>\<open>rwnx_send_msg1\<close> computes \<^verbatim>\<open>ret\<close> and then returns 0.\<close>

fun ret_zero :: "send_outcome \<Rightarrow> send_outcome" where
  "ret_zero (Sent r) = Sent 0"
| "ret_zero out = out"

definition rwnx_send_msg1 :: "int \<Rightarrow> bool \<Rightarrow> u16 \<Rightarrow> u8 list option \<Rightarrow> bool \<Rightarrow> lmac_msg \<Rightarrow> driver
    \<Rightarrow> (send_outcome \<times> driver) option" where
  "rwnx_send_msg1 txres reqcfm reqid cfm defer msg s =
    (if usb_state s = USB_DOWN_ST then Some (Sent 0, add_log (KfreeMsg msg) s)
     else (case rwnx_cmd_malloc s of (None, _) \<Rightarrow> None
       | (Some p, s0) \<Rightarrow>
          (let s1 = upd_cmd p (fill_cmd reqcfm reqid cfm msg) s0 in
           if \<not> reqcfm then Some (Sent 0, rwnx_cmd_free p s1)
           else if defer then do {
             (ret, s2) \<leftarrow> cmd_mgr_queue_force_defer p s1;
             Some (Sent 0, if ret \<noteq> 0 then rwnx_cmd_free p s2 else s2) }
           else map_option (apfst ret_zero \<circ> after_queue p) (cmd_mgr_queue txres p s1))))"

definition rwnx_send_msg_wake :: "wait_outcome \<Rightarrow> nat \<Rightarrow> driver \<Rightarrow> (int \<times> driver) option" where
  "rwnx_send_msg_wake w p s = do {
     (ret, s1) \<leftarrow> cmd_mgr_queue_wake w p s;
     Some (ret, if ret \<noteq> 0 then rwnx_cmd_free p s1 else s1) }"

end
