(* ===== verification/Cmd_Proto.thy ===== *)
theory Cmd_Proto
  imports Cmd_Mgr
begin

text \<open>
  The command manager as a system of concurrent threads: the callers of \<^verbatim>\<open>rwnx_send_msg\<close> and
  \<^verbatim>\<open>rwnx_send_msg1\<close>, each polling for an empty queue or waiting for a confirmation, the single worker that runs
  \<^verbatim>\<open>cmd_mgr_task_process\<close>, and the receive path that calls \<^verbatim>\<open>cmd_mgr_msgind\<close>.  A step is one critical section.  The
  invariant says that at most one command is with the firmware at any time, that the queue is bounded and
  that no thread touches a command that another one has unlinked.
\<close>

section \<open>Threads and steps\<close>

record world =
  drv :: driver
  callers :: "nat list"
  pollers :: "nat list"
  worker :: "nat option"

fun note_send :: "send_outcome \<Rightarrow> driver \<Rightarrow> world \<Rightarrow> world" where
  "note_send (Sent r) d w = w\<lparr>drv := d\<rparr>"
| "note_send (Polling p) d w = w\<lparr>drv := d, pollers := p # pollers w\<rparr>"
| "note_send (Waiting p) d w = w\<lparr>drv := d, callers := p # callers w\<rparr>"

inductive cmd_step :: "world \<Rightarrow> world \<Rightarrow> bool" where
  send: "rwnx_send_msg txres reqcfm reqid cfm msg (drv w) = Some (out, d) \<Longrightarrow>
    cmd_step w (note_send out d w)"
| send1: "rwnx_send_msg1 txres reqcfm reqid cfm defer msg (drv w) = Some (out, d) \<Longrightarrow>
    cmd_step w (note_send out d w)"
| poll: "p \<in> set (pollers w) \<Longrightarrow>
    map_option (after_queue p) (cmd_mgr_queue txres p (drv w)) = Some (out, d) \<Longrightarrow>
    cmd_step w (note_send out d (w\<lparr>pollers := remove1 p (pollers w)\<rparr>))"
| wake: "p \<in> set (callers w) \<Longrightarrow> (oc = Completed \<longrightarrow> 0 < c_complete (cmd_at (drv w) p)) \<Longrightarrow>
    rwnx_send_msg_wake oc p (drv w) = Some (ret, d) \<Longrightarrow>
    cmd_step w (w\<lparr>callers := remove1 p (callers w), drv := d\<rparr>)"
| work: "worker w = None \<Longrightarrow> cmd_mgr_task_round txres (drv w) = Some (nxt, d) \<Longrightarrow>
    cmd_step w (w\<lparr>drv := d, worker := nxt\<rparr>)"
| worker_wake: "worker w = Some p \<Longrightarrow> (oc = Completed \<longrightarrow> 0 < c_complete (cmd_at (drv w) p)) \<Longrightarrow>
    cmd_mgr_task_wake oc p (drv w) = Some d \<Longrightarrow>
    cmd_step w (w\<lparr>worker := None, drv := d\<rparr>)"
| msgind: "cmd_mgr_msgind cb msg (drv w) = Some d \<Longrightarrow> cmd_step w (w\<lparr>drv := d\<rparr>)"
| usb: "cmd_step w (w\<lparr>drv := (drv w)\<lparr>usb_state := u\<rparr>\<rparr>)"

text \<open>The driver after the pool and the manager were initialised from zeroed memory.\<close>

definition zero_driver :: driver where
  "zero_driver = \<lparr>mgr = \<lparr>state = RWNX_CMD_MGR_STATE_DEINIT, next_tkn = 0, queue_sz = 0, max_queue_sz = 0,
      cmds = []\<rparr>, locked = False, cmd_array = map blank_cmd [0..<RWNX_CMD_ARRAY_SIZE],
      usb_state = USB_UP_ST, log = []\<rparr>"

definition init_world :: world where
  "init_world = \<lparr>drv = rwnx_cmd_mgr_init (rwnx_init_cmd_array zero_driver), callers = [], pollers = [],
     worker = None\<rparr>"

section \<open>Observations of a command\<close>

text \<open>
  The phase of a queued command: 2 while it waits to be pushed, 1 while it is with the firmware, 0 once its
  confirmation arrived.
\<close>

definition phase :: "u16 \<Rightarrow> nat" where
  "phase f = (if flag_set f RWNX_CMD_FLAG_WAIT_PUSH then 2
     else if flag_set f RWNX_CMD_FLAG_WAIT_CFM then 1 else 0)"

abbreviation in_flight :: "driver \<Rightarrow> nat \<Rightarrow> bool" where
  "in_flight d p \<equiv> phase (flags_of d p) = 1"

definition pool_ok :: "driver \<Rightarrow> bool" where
  "pool_ok d \<longleftrightarrow> length (cmd_array d) = RWNX_CMD_ARRAY_SIZE \<and> \<not> locked d
     \<and> (\<forall>p < RWNX_CMD_ARRAY_SIZE. \<not> flag_set (flags_of d p) RWNX_CMD_FLAG_NONBLOCK
          \<and> (flag_set (flags_of d p) RWNX_CMD_FLAG_WAIT_PUSH \<longrightarrow> p \<in> set (cmds (mgr d))))"

definition queue_ok :: "driver \<Rightarrow> bool" where
  "queue_ok d \<longleftrightarrow> distinct (cmds (mgr d)) \<and> set (cmds (mgr d)) \<subseteq> {..<RWNX_CMD_ARRAY_SIZE}
     \<and> max_queue_sz (mgr d) = RWNX_CMD_MAX_QUEUED \<and> length (cmds (mgr d)) \<le> 16
     \<and> queue_sz (mgr d) = of_nat (length (cmds (mgr d)))"

definition phase_list :: "driver \<Rightarrow> nat list \<Rightarrow> nat list" where
  "phase_list d ps = map (\<lambda>p. phase (flags_of d p)) ps"

definition phase_seq :: "nat list \<Rightarrow> bool" where
  "phase_seq xs \<longleftrightarrow> sorted xs \<and> count_list xs 1 \<le> 1"

definition phases_ok :: "driver \<Rightarrow> bool" where
  "phases_ok d \<longleftrightarrow> phase_seq (phase_list d (cmds (mgr d)))"

definition used_ok :: "driver \<Rightarrow> bool" where
  "used_ok d \<longleftrightarrow> (\<forall>p \<in> set (cmds (mgr d)). state (mgr d) \<noteq> RWNX_CMD_MGR_STATE_CRASHED
     \<or> flag_set (flags_of d p) RWNX_CMD_FLAG_WAIT_PUSH \<longrightarrow> c_used (cmd_at d p))"

definition abandoned :: "driver \<Rightarrow> nat \<Rightarrow> bool" where
  "abandoned d p \<longleftrightarrow> state (mgr d) = RWNX_CMD_MGR_STATE_CRASHED
     \<and> \<not> flag_set (flags_of d p) RWNX_CMD_FLAG_WAIT_PUSH"

definition threads_ok :: "world \<Rightarrow> bool" where
  "threads_ok w \<longleftrightarrow> distinct (callers w) \<and> distinct (pollers w)
     \<and> (\<forall>p \<in> set (callers w). p \<in> set (cmds (mgr (drv w))) \<and> c_used (cmd_at (drv w) p)
          \<and> phase (flags_of (drv w) p) \<noteq> 2)
     \<and> (\<forall>p \<in> set (pollers w). p < RWNX_CMD_ARRAY_SIZE \<and> p \<notin> set (cmds (mgr (drv w)))
          \<and> c_used (cmd_at (drv w) p)
          \<and> flag_set (flags_of (drv w) p) RWNX_CMD_FLAG_REQ_CFM)
     \<and> (\<forall>p. worker w = Some p \<longrightarrow> p \<in> set (cmds (mgr (drv w))) \<and> p \<notin> set (callers w)
          \<and> c_used (cmd_at (drv w) p) \<and> phase (flags_of (drv w) p) \<noteq> 2)"

definition cmd_inv :: "world \<Rightarrow> bool" where
  "cmd_inv w \<longleftrightarrow> pool_ok (drv w) \<and> queue_ok (drv w) \<and> phases_ok (drv w) \<and> used_ok (drv w) \<and> threads_ok w"

section \<open>What an operation on one slot can change\<close>

lemma upd_cmd_sel [simp]:
  "mgr (upd_cmd p f s) = mgr s" "locked (upd_cmd p f s) = locked s"
  "usb_state (upd_cmd p f s) = usb_state s" "log (upd_cmd p f s) = log s"
  "length (cmd_array (upd_cmd p f s)) = length (cmd_array s)"
  by (simp_all add: upd_cmd_def)

lemma cmd_at_upd_cmd:
  "cmd_at (upd_cmd p f s) q = (if q = p \<and> p < length (cmd_array s) then f (cmd_at s p) else cmd_at s q)"
  by (auto simp: upd_cmd_def nth_list_update list_update_beyond)

lemma upd_mgr_sel [simp]:
  "mgr (upd_mgr f s) = f (mgr s)" "locked (upd_mgr f s) = locked s" "cmd_array (upd_mgr f s) = cmd_array s"
  "usb_state (upd_mgr f s) = usb_state s" "log (upd_mgr f s) = log s"
  by (simp_all add: upd_mgr_def)

lemma add_log_sel [simp]:
  "mgr (add_log e s) = mgr s" "locked (add_log e s) = locked s" "cmd_array (add_log e s) = cmd_array s"
  "usb_state (add_log e s) = usb_state s" "log (add_log e s) = log s @ [e]"
  by (simp_all add: add_log_def)

definition touch :: "nat \<Rightarrow> driver \<Rightarrow> driver \<Rightarrow> bool" where
  "touch p d d' \<longleftrightarrow> length (cmd_array d') = length (cmd_array d)
     \<and> (\<forall>q. q \<noteq> p \<longrightarrow> cmd_at d' q = cmd_at d q)"

lemma touch_refl [simp]: "touch p d d"
  by (simp add: touch_def)

lemma touch_trans: "touch p d e \<Longrightarrow> touch p e f \<Longrightarrow> touch p d f"
  by (simp add: touch_def)

lemma touch_upd [simp]: "touch p d (upd_cmd p f e) = touch p d e"
  by (auto simp: touch_def cmd_at_upd_cmd)

lemma touch_same [simp]:
  "touch p d (upd_mgr g e) = touch p d e" "touch p d (add_log ev e) = touch p d e"
  "touch p d (e\<lparr>locked := b\<rparr>) = touch p d e" "touch p (d\<lparr>locked := b\<rparr>) e = touch p d e"
  by (simp_all add: touch_def)

lemma touch_ops [simp]:
  "touch p d (set_wait_push p e) = touch p d e" "touch p d (queue_link p e) = touch p d e"
  "touch p d (rwnx_cmd_free p e) = touch p d e" "touch p d (complete p e) = touch p d e"
  "touch p d (cmd_complete p e) = touch p d e"
  by (simp_all add: set_wait_push_def queue_link_def Let_def list_add_tail_def init_completion_def
      rwnx_cmd_free_def complete_def cmd_complete_def)

lemma flag_ne [simp]:
  "flag_set RWNX_CMD_FLAG_DONE RWNX_CMD_FLAG_WAIT_PUSH = False"
  "flag_set RWNX_CMD_FLAG_DONE RWNX_CMD_FLAG_WAIT_CFM = False"
  "flag_set RWNX_CMD_FLAG_DONE RWNX_CMD_FLAG_NONBLOCK = False"
  "flag_set RWNX_CMD_FLAG_DONE RWNX_CMD_FLAG_REQ_CFM = False"
  "flag_set RWNX_CMD_FLAG_REQ_CFM RWNX_CMD_FLAG_WAIT_PUSH = False"
  "flag_set RWNX_CMD_FLAG_REQ_CFM RWNX_CMD_FLAG_WAIT_CFM = False"
  "flag_set RWNX_CMD_FLAG_REQ_CFM RWNX_CMD_FLAG_NONBLOCK = False"
  "flag_set RWNX_CMD_FLAG_REQ_CFM RWNX_CMD_FLAG_REQ_CFM"
  "flag_set RWNX_CMD_FLAG_WAIT_CFM RWNX_CMD_FLAG_WAIT_PUSH = False"
  "flag_set RWNX_CMD_FLAG_WAIT_CFM RWNX_CMD_FLAG_NONBLOCK = False"
  "flag_set RWNX_CMD_FLAG_WAIT_CFM RWNX_CMD_FLAG_WAIT_CFM"
  "flag_set RWNX_CMD_FLAG_WAIT_CFM RWNX_CMD_FLAG_REQ_CFM = False"
  "flag_set RWNX_CMD_FLAG_WAIT_PUSH RWNX_CMD_FLAG_NONBLOCK = False"
  "flag_set RWNX_CMD_FLAG_WAIT_PUSH RWNX_CMD_FLAG_WAIT_PUSH"
  "flag_set RWNX_CMD_FLAG_WAIT_PUSH RWNX_CMD_FLAG_WAIT_CFM = False"
  "flag_set RWNX_CMD_FLAG_WAIT_PUSH RWNX_CMD_FLAG_REQ_CFM = False"
  by (simp_all add: flag_set_def cmd_flag_defs)

lemma mask_disjoint [simp]:
  "RWNX_CMD_FLAG_WAIT_ACK AND RWNX_CMD_FLAG_WAIT_PUSH = 0"
  "RWNX_CMD_FLAG_WAIT_ACK AND RWNX_CMD_FLAG_WAIT_CFM = 0"
  "RWNX_CMD_FLAG_WAIT_ACK AND RWNX_CMD_FLAG_NONBLOCK = 0"
  "RWNX_CMD_FLAG_WAIT_ACK AND RWNX_CMD_FLAG_REQ_CFM = 0"
  "RWNX_CMD_FLAG_WAIT_PUSH AND RWNX_CMD_FLAG_WAIT_CFM = 0"
  "RWNX_CMD_FLAG_WAIT_PUSH AND RWNX_CMD_FLAG_NONBLOCK = 0"
  "RWNX_CMD_FLAG_WAIT_PUSH AND RWNX_CMD_FLAG_REQ_CFM = 0"
  "RWNX_CMD_FLAG_WAIT_CFM AND RWNX_CMD_FLAG_WAIT_PUSH = 0"
  "RWNX_CMD_FLAG_WAIT_CFM AND RWNX_CMD_FLAG_NONBLOCK = 0"
  "RWNX_CMD_FLAG_WAIT_CFM AND RWNX_CMD_FLAG_REQ_CFM = 0"
  by (simp_all add: cmd_flag_defs)

lemma phase_simps [simp]:
  "phase f = 2 \<longleftrightarrow> flag_set f RWNX_CMD_FLAG_WAIT_PUSH"
  "phase f = Suc 0 \<longleftrightarrow> \<not> flag_set f RWNX_CMD_FLAG_WAIT_PUSH \<and> flag_set f RWNX_CMD_FLAG_WAIT_CFM"
  "phase f = 0 \<longleftrightarrow> \<not> flag_set f RWNX_CMD_FLAG_WAIT_PUSH \<and> \<not> flag_set f RWNX_CMD_FLAG_WAIT_CFM"
  "phase f \<le> 2"
  by (simp_all add: phase_def)

text \<open>The flags of a command that the invariant reads.\<close>

definition view :: "rwnx_cmd \<Rightarrow> bool \<times> bool \<times> bool" where
  "view c = (flag_set (c_flags c) RWNX_CMD_FLAG_WAIT_PUSH, flag_set (c_flags c) RWNX_CMD_FLAG_WAIT_CFM,
     flag_set (c_flags c) RWNX_CMD_FLAG_NONBLOCK)"

lemma view_phase: "view c = view c' \<Longrightarrow> phase (c_flags c) = phase (c_flags c')"
  by (simp add: view_def phase_def)

definition idle_slot :: "world \<Rightarrow> nat \<Rightarrow> bool" where
  "idle_slot w p \<longleftrightarrow> p \<notin> set (callers w) \<and> p \<notin> set (pollers w) \<and> worker w \<noteq> Some p"

lemma phase_list_cong:
  "(\<And>q. q \<in> set ps \<Longrightarrow> view (cmd_at d' q) = view (cmd_at d q)) \<Longrightarrow> phase_list d' ps = phase_list d ps"
  by (auto simp: phase_list_def intro: view_phase)

lemma phase_list_touch:
  assumes "touch p d d'" and "p \<notin> set ps"
  shows "phase_list d' ps = phase_list d ps"
proof (rule phase_list_cong)
  fix q assume "q \<in> set ps"
  with assms(2) have "q \<noteq> p" by blast
  with assms(1) show "view (cmd_at d' q) = view (cmd_at d q)" by (simp add: touch_def)
qed

lemma phase_list_simps [simp]:
  "phase_list d [] = []" "phase_list d (p # ps) = phase (flags_of d p) # phase_list d ps"
  "phase_list d (ps @ qs) = phase_list d ps @ phase_list d qs"
  by (simp_all add: phase_list_def)

lemma phase_list_locked [simp]: "phase_list (d\<lparr>locked := b\<rparr>) ps = phase_list d ps"
  by (simp add: phase_list_def)

lemma phase_list_le: "x \<in> set (phase_list d ps) \<Longrightarrow> x \<le> 2"
  by (auto simp: phase_list_def)

lemma phase_seq_snoc:
  assumes "phase_seq xs" and "\<forall>y \<in> set xs. y \<le> 2" and "x = 2 \<or> (\<forall>y \<in> set xs. y = 0)"
  shows "phase_seq (xs @ [x])"
  using assms(3)
proof
  assume "x = 2"
  with assms show ?thesis by (simp add: phase_seq_def sorted_append)
next
  assume "\<forall>y \<in> set xs. y = 0"
  then have "count_list xs 1 = 0" and "sorted (xs @ [x])"
    using assms(1) by (auto simp: phase_seq_def sorted_append count_list_0_iff)
  then show ?thesis by (simp add: phase_seq_def)
qed

lemma phase_seq_remove1: "phase_seq (phase_list d ps) \<Longrightarrow> phase_seq (phase_list d (remove1 p ps))"
proof -
  have s: "set (phase_list d (remove1 p ps)) \<subseteq> set (phase_list d ps)" for ps
    using set_remove1_subset [of p ps] by (auto simp: phase_list_def)
  then have "sorted (phase_list d ps) \<Longrightarrow> sorted (phase_list d (remove1 p ps))"
    by (induction ps) auto
  moreover have "count_list (phase_list d (remove1 p ps)) 1 \<le> count_list (phase_list d ps) 1"
    by (induction ps) auto
  ultimately show "phase_seq (phase_list d ps) \<Longrightarrow> ?thesis"
    by (simp add: phase_seq_def)
qed

text \<open>An operation that changes one slot no thread refers to, and neither its phase nor the manager.\<close>

lemma inv_touch_idle:
  assumes inv: "cmd_inv w" and t: "touch p (drv w) d" and l: "locked d = locked (drv w)"
    and m: "mgr d = (mgr (drv w))\<lparr>state := st\<rparr>"
      "st = state (mgr (drv w)) \<or> st = RWNX_CMD_MGR_STATE_CRASHED"
    and v: "view (cmd_at d p) = view (cmd_at (drv w) p)" and i: "idle_slot w p"
    and u: "p \<in> set (cmds (mgr d)) \<Longrightarrow> \<not> abandoned d p \<Longrightarrow> c_used (cmd_at d p)"
  shows "cmd_inv (w\<lparr>drv := d\<rparr>)"
proof -
  have other: "q \<noteq> p \<Longrightarrow> cmd_at d q = cmd_at (drv w) q" for q
    using t by (simp add: touch_def)
  have vq: "view (cmd_at d q) = view (cmd_at (drv w) q)" for q
    using other v by (cases "q = p") auto
  have "pool_ok d" "queue_ok d"
    using inv t m l vq by (auto simp: cmd_inv_def pool_ok_def queue_ok_def touch_def view_def)
  moreover have "phases_ok d"
    using inv phase_list_cong [of _ d "drv w"] vq m by (simp add: cmd_inv_def phases_ok_def)
  moreover have "used_ok d"
    using inv m u other unfolding cmd_inv_def used_ok_def abandoned_def by simp metis
  moreover have "threads_ok (w\<lparr>drv := d\<rparr>)"
  proof -
    have "q \<in> set (callers w) \<union> set (pollers w) \<or> worker w = Some q \<Longrightarrow> cmd_at d q = cmd_at (drv w) q" for q
      using i other [of q] by (auto simp: idle_slot_def)
    with inv m show ?thesis
      by (auto simp: cmd_inv_def threads_ok_def)
  qed
  ultimately show ?thesis
    by (simp add: cmd_inv_def)
qed

text \<open>An operation that appends an idle slot to the queue.\<close>

lemma queue_sz_suc:
  assumes "queue_ok d" and "length (cmds (mgr d)) < 16"
  shows "queue_sz (mgr d) + 1 = of_nat (length (cmds (mgr d) @ [p]))"
  using assms by (simp add: queue_ok_def)

lemma phases_link:
  assumes "phases_ok d" and "touch p d d'" and "cmds (mgr d') = cmds (mgr d) @ [p]" and "p \<notin> set (cmds (mgr d))"
    and "flag_set (flags_of d' p) RWNX_CMD_FLAG_WAIT_PUSH \<or> (\<forall>x \<in> set (phase_list d (cmds (mgr d))). x = 0)"
  shows "phases_ok d'"
  using phase_seq_snoc [of "phase_list d (cmds (mgr d))" "phase (flags_of d' p)"] assms
    phase_list_touch [OF assms(2,4)] phase_list_le
  by (auto simp: phases_ok_def)

lemma inv_link:
  assumes inv: "cmd_inv w" and t: "touch p (drv w) d" and p: "p < RWNX_CMD_ARRAY_SIZE" "p \<notin> set (cmds (mgr (drv w)))"
    and m: "mgr d = (mgr (drv w))\<lparr>next_tkn := x, cmds := cmds (mgr (drv w)) @ [p], queue_sz := queue_sz (mgr (drv w)) + 1\<rparr>"
    and l: "\<not> locked d" "length (cmds (mgr (drv w))) < 16"
    and c: "\<not> flag_set (flags_of d p) RWNX_CMD_FLAG_NONBLOCK" "c_used (cmd_at d p)"
    and ph: "flag_set (flags_of d p) RWNX_CMD_FLAG_WAIT_PUSH
       \<or> (\<forall>x \<in> set (phase_list (drv w) (cmds (mgr (drv w)))). x = 0)"
    and i: "idle_slot w p"
  shows "cmd_inv (w\<lparr>drv := d\<rparr>)"
    and "\<not> flag_set (flags_of d p) RWNX_CMD_FLAG_WAIT_PUSH \<Longrightarrow> cmd_inv (w\<lparr>drv := d, callers := p # callers w\<rparr>)"
proof -
  have other: "q \<noteq> p \<Longrightarrow> cmd_at d q = cmd_at (drv w) q" for q
    using t by (simp add: touch_def)
  have pq: "pool_ok d" "queue_ok d"
    using inv t m l c p other queue_sz_suc [of "drv w" p]
    by (auto simp: cmd_inv_def pool_ok_def queue_ok_def touch_def, (metis c(1) other)+)
  have ph: "phases_ok d"
    using inv phases_link [OF _ t _ p(2) ph] m by (simp add: cmd_inv_def)
  have us: "used_ok d"
    unfolding used_ok_def
  proof (intro ballI impI)
    fix q assume q: "q \<in> set (cmds (mgr d))"
      "state (mgr d) \<noteq> RWNX_CMD_MGR_STATE_CRASHED \<or> flag_set (flags_of d q) RWNX_CMD_FLAG_WAIT_PUSH"
    then show "c_used (cmd_at d q)"
      using inv m c other [of q] by (cases "q = p") (auto simp: cmd_inv_def used_ok_def)
  qed
  have ref: "q \<in> set (callers w) \<union> set (pollers w) \<or> worker w = Some q \<Longrightarrow> cmd_at d q = cmd_at (drv w) q \<and> q \<noteq> p" for q
    using i other [of q] by (auto simp: idle_slot_def)
  have "threads_ok (w\<lparr>drv := d\<rparr>)"
    using inv m ref by (auto simp: cmd_inv_def threads_ok_def)
  then show "cmd_inv (w\<lparr>drv := d\<rparr>)"
    using pq ph us by (simp add: cmd_inv_def)
  assume "\<not> flag_set (flags_of d p) RWNX_CMD_FLAG_WAIT_PUSH"
  then have "threads_ok (w\<lparr>drv := d, callers := p # callers w\<rparr>)"
    using inv m ref i c by (auto simp: cmd_inv_def threads_ok_def idle_slot_def)
  then show "cmd_inv (w\<lparr>drv := d, callers := p # callers w\<rparr>)"
    using pq ph us by (simp add: cmd_inv_def)
qed

text \<open>An operation that unlinks a slot and frees it.\<close>

lemma phases_unlink:
  assumes "phases_ok d" and "touch p d d'" and "cmds (mgr d') = remove1 p (cmds (mgr d))" and "distinct (cmds (mgr d))"
  shows "phases_ok d'"
  using phase_seq_remove1 [of d "cmds (mgr d)" p] assms phase_list_touch [OF assms(2), of "remove1 p (cmds (mgr d))"]
  by (simp add: phases_ok_def)

lemma inv_unlink:
  assumes inv: "cmd_inv w" and t: "touch p (drv w) d" and p: "p \<in> set (cmds (mgr (drv w)))"
    and m: "mgr d = (mgr (drv w))\<lparr>cmds := remove1 p (cmds (mgr (drv w))), queue_sz := queue_sz (mgr (drv w)) - 1\<rparr>"
    and l: "\<not> locked d" and c: "view (cmd_at d p) = view (cmd_at (drv w) p)"
      "\<not> flag_set (flags_of (drv w) p) RWNX_CMD_FLAG_WAIT_PUSH"
    and i: "idle_slot w p"
  shows "cmd_inv (w\<lparr>drv := d\<rparr>)"
proof -
  have other: "q \<noteq> p \<Longrightarrow> cmd_at d q = cmd_at (drv w) q" for q
    using t by (simp add: touch_def)
  have dist: "distinct (cmds (mgr (drv w)))"
    using inv by (simp add: cmd_inv_def queue_ok_def)
  have vq: "view (cmd_at d q) = view (cmd_at (drv w) q)" for q
    using other c by (cases "q = p") auto
  have "pool_ok d"
    using inv t l c vq m dist by (auto simp: cmd_inv_def pool_ok_def touch_def view_def)
  moreover have "queue_ok d"
  proof -
    have "length (cmds (mgr (drv w))) = Suc (length (remove1 p (cmds (mgr (drv w)))))"
      using p by (simp add: length_remove1) (metis Suc_pred length_pos_if_in_set)
    then show ?thesis
      using inv m dist set_remove1_subset [of p "cmds (mgr (drv w))"] by (auto simp: cmd_inv_def queue_ok_def)
  qed
  moreover have "phases_ok d"
    using inv phases_unlink [OF _ t _ dist] m by (simp add: cmd_inv_def)
  moreover have "used_ok d"
    using inv m other dist by (auto simp: cmd_inv_def used_ok_def)
  moreover have "threads_ok (w\<lparr>drv := d\<rparr>)"
  proof -
    have "q \<in> set (callers w) \<union> set (pollers w) \<or> worker w = Some q \<Longrightarrow> cmd_at d q = cmd_at (drv w) q \<and> q \<noteq> p" for q
      using i other [of q] by (auto simp: idle_slot_def)
    with inv m dist show ?thesis
      by (auto simp: cmd_inv_def threads_ok_def)
  qed
  ultimately show ?thesis
    by (simp add: cmd_inv_def)
qed

section \<open>Effects of the operations\<close>

lemma spin_iff [simp]:
  "spin_lock_bh s = Some s' \<longleftrightarrow> \<not> locked s \<and> s' = s\<lparr>locked := True\<rparr>"
  "spin_unlock_bh s = Some s' \<longleftrightarrow> locked s \<and> s' = s\<lparr>locked := False\<rparr>"
  by (auto simp: spin_lock_bh_def spin_unlock_bh_def)

lemma aicwf_set_cmd_tx_frame:
  assumes "aicwf_set_cmd_tx txres msg len s = Some s'"
  shows "mgr s' = mgr s" "locked s' = locked s" "cmd_array s' = cmd_array s"
  using assms by (auto simp: aicwf_set_cmd_tx_def Let_def split: if_splits)

lemma first_unused_Some:
  "first_unused i cs = Some p \<Longrightarrow> i \<le> p \<and> p < i + length cs \<and> \<not> c_used (cs ! (p - i))"
proof (induction cs arbitrary: i)
  case (Cons c cs)
  then show ?case
    using Cons.IH [of "Suc i"] by (fastforce simp: nth_Cons' split: if_splits)
qed simp

lemma rwnx_cmd_malloc_Some:
  assumes "rwnx_cmd_malloc s = (Some p, s')"
  shows "p < length (cmd_array s)" "\<not> c_used (cmd_at s p)" "s' = upd_cmd p (\<lambda>c. c\<lparr>c_used := True\<rparr>) s"
  using assms first_unused_Some [of 0 "cmd_array s" p]
  by (auto simp: rwnx_cmd_malloc_def split: option.splits)

lemma queue_link_effect:
  assumes "p < length (cmd_array s)"
  shows "mgr (queue_link p s) = (mgr s)\<lparr>next_tkn := next_tkn (mgr s) + 1, cmds := cmds (mgr s) @ [p],
      queue_sz := queue_sz (mgr s) + 1\<rparr>"
    and "locked (queue_link p s) = locked s" and "length (cmd_array (queue_link p s)) = length (cmd_array s)"
    and "flags_of (queue_link p s) p = (if flag_set (flags_of s p) RWNX_CMD_FLAG_REQ_CFM
      then flag_add (flags_of s p) RWNX_CMD_FLAG_WAIT_CFM else flags_of s p)"
    and "c_used (cmd_at (queue_link p s) p) = c_used (cmd_at s p)"
    and "c_a2e_msg (cmd_at (queue_link p s) p) = c_a2e_msg (cmd_at s p)"
  using assms
  by (simp_all add: queue_link_def Let_def list_add_tail_def init_completion_def cmd_at_upd_cmd)

lemma set_wait_push_effect:
  assumes "p < length (cmd_array s)"
  shows "mgr (set_wait_push p s) = mgr s" "locked (set_wait_push p s) = locked s"
    "cmd_at (set_wait_push p s) p = (cmd_at s p)\<lparr>c_flags := flag_add (flags_of s p) RWNX_CMD_FLAG_WAIT_PUSH\<rparr>"
    "length (cmd_array (set_wait_push p s)) = length (cmd_array s)"
  using assms by (simp_all add: set_wait_push_def cmd_at_upd_cmd)

definition linked :: "nat \<Rightarrow> driver \<Rightarrow> driver \<Rightarrow> bool" where
  "linked p s s' \<longleftrightarrow> touch p s s' \<and> mgr s' = (mgr s)\<lparr>next_tkn := next_tkn (mgr s) + 1,
      cmds := cmds (mgr s) @ [p], queue_sz := queue_sz (mgr s) + 1\<rparr>
    \<and> \<not> locked s' \<and> c_used (cmd_at s' p) = c_used (cmd_at s p)
    \<and> \<not> flag_set (flags_of s' p) RWNX_CMD_FLAG_NONBLOCK
    \<and> state (mgr s) \<noteq> RWNX_CMD_MGR_STATE_CRASHED
    \<and> (cmds (mgr s) = [] \<or> queue_sz (mgr s) \<noteq> max_queue_sz (mgr s))"

definition untouched :: "nat \<Rightarrow> driver \<Rightarrow> driver \<Rightarrow> bool" where
  "untouched p s s' \<longleftrightarrow> touch p s s' \<and> mgr s' = mgr s \<and> locked s' = locked s
    \<and> c_flags (cmd_at s' p) = c_flags (cmd_at s p) \<and> c_used (cmd_at s' p) = c_used (cmd_at s p)"

lemma force_defer_effect:
  assumes "cmd_mgr_queue_force_defer p s = Some (r, s')" and "p < length (cmd_array s)"
    and "\<not> flag_set (flags_of s p) RWNX_CMD_FLAG_NONBLOCK"
  shows "(r \<noteq> 0 \<and> untouched p s s')
       \<or> (r = 0 \<and> linked p s s' \<and> flag_set (flags_of s' p) RWNX_CMD_FLAG_WAIT_PUSH)"
proof -
  note [simp] = set_wait_push_effect queue_link_effect
  from assms show ?thesis
    by (auto simp: cmd_mgr_queue_force_defer_def untouched_def linked_def cmd_at_upd_cmd EPIPE_def ENOMEM_def
        flag_simps split: if_splits bind_splits)
qed

definition quiet :: "driver \<Rightarrow> bool" where
  "quiet s \<longleftrightarrow> cmds (mgr s) = [] \<or> last (phase_list s (cmds (mgr s))) = 0"

lemma last_not_busy: "\<not> last_busy s \<Longrightarrow> quiet s"
  by (cases "cmds (mgr s) = []") (simp_all add: quiet_def last_busy_def flag_simps phase_list_def last_map)

lemma queue_body_effect:
  assumes "cmd_mgr_queue_body txres p s = Some (out, s')" and "p < length (cmd_array s)"
    and "\<not> flag_set (flags_of s p) RWNX_CMD_FLAG_NONBLOCK" and "flag_set (flags_of s p) RWNX_CMD_FLAG_REQ_CFM"
    and "\<not> flag_set (flags_of s p) RWNX_CMD_FLAG_WAIT_PUSH \<or> state (mgr s) = RWNX_CMD_MGR_STATE_CRASHED"
  shows "(\<exists>r. out = QReturn r \<and> r \<noteq> 0 \<and> untouched p (s\<lparr>locked := False\<rparr>) s')
       \<or> (out = QReturn 0 \<and> linked p s s' \<and> flag_set (flags_of s' p) RWNX_CMD_FLAG_WAIT_PUSH)
       \<or> (out = QWait \<and> linked p s s' \<and> \<not> flag_set (flags_of s' p) RWNX_CMD_FLAG_WAIT_PUSH
           \<and> quiet s)"
proof (cases "state (mgr s) = RWNX_CMD_MGR_STATE_CRASHED
    \<or> cmds (mgr s) \<noteq> [] \<and> queue_sz (mgr s) = max_queue_sz (mgr s)")
  case True
  then obtain r where "r \<noteq> 0" "out = QReturn r"
    "s' = (upd_cmd p (\<lambda>c. c\<lparr>c_result := word_of_int r\<rparr>) s)\<lparr>locked := False\<rparr>"
    using assms(1) unfolding cmd_mgr_queue_body_def
    by (cases "state (mgr s) = RWNX_CMD_MGR_STATE_CRASHED")
      (auto simp: EPIPE_def ENOMEM_def bind_eq_Some_conv simp del: Let_def)
  then show ?thesis
    using assms(2) by (simp add: untouched_def cmd_at_upd_cmd)
next
  case False
  note [simp] = set_wait_push_effect queue_link_effect
  obtain d s2 where prep: "queue_prepare p s = (d, s2)" by fastforce
  have link: "linked p s (s2\<lparr>locked := False\<rparr>)" and wp: "flag_set (flags_of s2 p) RWNX_CMD_FLAG_WAIT_PUSH \<longleftrightarrow> d"
    and nb: "\<not> flag_set (flags_of s2 p) RWNX_CMD_FLAG_NONBLOCK"
    using assms(2-5) False prep
    by (auto simp: linked_def queue_prepare_def Let_def flag_simps split: if_splits)
  have d: "\<not> d \<Longrightarrow> quiet s"
    using prep last_not_busy [of s] by (auto simp: queue_prepare_def Let_def quiet_def)
  have run: "queue_push txres p d (s2\<lparr>locked := False\<rparr>) = Some (out, s')"
    using assms(1) False prep by (simp add: cmd_mgr_queue_body_def bind_eq_Some_conv del: de_Morgan_conj)
  show ?thesis
  proof (cases d)
    case True
    then have "out = QReturn 0"
      "s' = (if queue_sz (mgr (s2\<lparr>locked := False\<rparr>)) \<le> 1 then add_log QueueWork (s2\<lparr>locked := False\<rparr>) else s2\<lparr>locked := False\<rparr>)"
      using run by (simp_all add: queue_push_def)
    then show ?thesis using link wp True by (simp add: linked_def)
  next
    case nodefer: False
    let ?s2 = "s2\<lparr>locked := False\<rparr>"
    obtain s4 where tx: "aicwf_set_cmd_tx txres (c_a2e_msg (cmd_at ?s2 p)) (msg_len (c_a2e_msg (cmd_at ?s2 p))) ?s2 = Some s4"
      and r: "(if \<not> flag_set (flags_of s4 p) RWNX_CMD_FLAG_NONBLOCK
          then Some (QWait, add_log (KfreeMsg (c_a2e_msg (cmd_at s4 p))) s4)
          else Some (QReturn 0, upd_cmd p (\<lambda>c. c\<lparr>c_result := 0\<rparr>) (add_log (KfreeMsg (c_a2e_msg (cmd_at s4 p))) s4)))
          = Some (out, s')"
      using run nodefer by (simp add: queue_push_def bind_eq_Some_conv Let_def) blast
    note fr = aicwf_set_cmd_tx_frame [OF tx]
    have "out = QWait" "s' = add_log (KfreeMsg (c_a2e_msg (cmd_at s4 p))) s4"
      using r nb fr by simp_all
    then show ?thesis
      using link wp nodefer d fr by (simp add: linked_def touch_def)
  qed
qed

lemma unlocked_id: "\<not> locked s \<Longrightarrow> s\<lparr>locked := False\<rparr> = s"
  by simp

lemma locked_log: "(add_log e s)\<lparr>locked := b\<rparr> = add_log e (s\<lparr>locked := b\<rparr>)"
  by (simp add: add_log_def)

lemma queue_effect:
  assumes q: "cmd_mgr_queue txres p s = Some (out, s')" and "p < length (cmd_array s)" and u: "\<not> locked s"
    and "\<not> flag_set (flags_of s p) RWNX_CMD_FLAG_NONBLOCK" and "flag_set (flags_of s p) RWNX_CMD_FLAG_REQ_CFM"
    and "\<not> flag_set (flags_of s p) RWNX_CMD_FLAG_WAIT_PUSH \<or> state (mgr s) = RWNX_CMD_MGR_STATE_CRASHED"
  shows "(out = QRetry \<and> s' = s \<and> state (mgr s) \<noteq> RWNX_CMD_MGR_STATE_CRASHED)
       \<or> (\<exists>r. out = QReturn r \<and> r \<noteq> 0 \<and> untouched p s s')
       \<or> (out = QReturn 0 \<and> linked p s s' \<and> flag_set (flags_of s' p) RWNX_CMD_FLAG_WAIT_PUSH)
       \<or> (out = QWait \<and> linked p s s' \<and> \<not> flag_set (flags_of s' p) RWNX_CMD_FLAG_WAIT_PUSH
           \<and> quiet s)"
proof (cases "cmd_mgr_queue_poll p s")
  case None
  with q show ?thesis by (simp add: cmd_mgr_queue_def)
next
  case (Some r)
  show ?thesis
  proof (cases r)
    case None
    with q Some show ?thesis
      by (auto simp: cmd_mgr_queue_def cmd_mgr_queue_poll_def bind_eq_Some_conv split: if_splits)
  next
    case (Some s1)
    with q \<open>cmd_mgr_queue_poll p s = Some r\<close> have b: "cmd_mgr_queue_body txres p s1 = Some (out, s')"
      by (simp add: cmd_mgr_queue_def)
    have "s1 = s \<and> state (mgr s) = RWNX_CMD_MGR_STATE_CRASHED \<or> s1 = s\<lparr>locked := True\<rparr>"
      using \<open>cmd_mgr_queue_poll p s = Some r\<close> Some
      by (auto simp: cmd_mgr_queue_poll_def bind_eq_Some_conv split: if_splits)
    moreover have "\<not> (s1 = s \<and> state (mgr s) = RWNX_CMD_MGR_STATE_CRASHED)"
      using b u by (auto simp: cmd_mgr_queue_body_def bind_eq_Some_conv)
    ultimately have s1: "s1 = s\<lparr>locked := True\<rparr>" by blast
    have "phase_list s1 = phase_list s"
      by (simp add: s1 phase_list_def fun_eq_iff)
    then show ?thesis
      using queue_body_effect [OF b] assms(2-) s1
      by (auto simp: untouched_def linked_def quiet_def)
  qed
qed

lemma idle_unused:
  assumes "cmd_inv w" and "\<not> c_used (cmd_at (drv w) p)"
  shows "idle_slot w p" and "p \<in> set (cmds (mgr (drv w))) \<Longrightarrow> abandoned (drv w) p"
  using assms by (auto simp: cmd_inv_def threads_ok_def idle_slot_def used_ok_def abandoned_def)

text \<open>Queueing an idle, allocated slot keeps the invariant, whichever way the call ends.\<close>

lemma phase_zero_if_last_zero:
  assumes "phases_ok d" and "quiet d"
  shows "\<forall>x \<in> set (phase_list d (cmds (mgr d))). x = 0"
proof (cases "cmds (mgr d) = []")
  case False
  then have "phase_list d (cmds (mgr d)) \<noteq> []" by (simp add: phase_list_def)
  with False assms show ?thesis
    using sorted_append_last by (auto simp: phases_ok_def phase_seq_def quiet_def)
qed simp

lemma queue_inv:
  assumes inv: "cmd_inv w" and i: "idle_slot w p" and p: "p < RWNX_CMD_ARRAY_SIZE" "c_used (cmd_at (drv w) p)"
    and rq: "flag_set (flags_of (drv w) p) RWNX_CMD_FLAG_REQ_CFM"
    and fresh: "p \<in> set (cmds (mgr (drv w))) \<Longrightarrow> abandoned (drv w) p"
    and q: "map_option (after_queue p) (cmd_mgr_queue txres p (drv w)) = Some (out, d)"
  shows "cmd_inv (note_send out d w)"
proof -
  let ?s = "drv w"
  from q obtain o' s' where q': "cmd_mgr_queue txres p ?s = Some (o', s')" and aq: "after_queue p (o', s') = (out, d)"
    by auto
  have pool: "p < length (cmd_array ?s)" "\<not> locked ?s" "\<not> flag_set (flags_of ?s p) RWNX_CMD_FLAG_NONBLOCK"
    "\<not> flag_set (flags_of ?s p) RWNX_CMD_FLAG_WAIT_PUSH \<or> state (mgr ?s) = RWNX_CMD_MGR_STATE_CRASHED"
    using inv p fresh by (auto simp: cmd_inv_def pool_ok_def abandoned_def)
  have room: "linked p ?s s' \<Longrightarrow> length (cmds (mgr ?s)) < 16"
  proof -
    assume "linked p ?s s'"
    then have "cmds (mgr ?s) = [] \<or> queue_sz (mgr ?s) \<noteq> max_queue_sz (mgr ?s)"
      by (simp add: linked_def)
    then have "length (cmds (mgr ?s)) \<noteq> 16" and "length (cmds (mgr ?s)) \<le> 16"
      using inv unfolding cmd_inv_def queue_ok_def RWNX_CMD_MAX_QUEUED_def by auto
    then show "length (cmds (mgr ?s)) < 16" by simp
  qed
  have linkedD: "linked p ?s s' \<Longrightarrow> touch p ?s s' \<and> p \<notin> set (cmds (mgr ?s)) \<and> mgr s' = (mgr ?s)\<lparr>next_tkn := next_tkn (mgr ?s) + 1,
      cmds := cmds (mgr ?s) @ [p], queue_sz := queue_sz (mgr ?s) + 1\<rparr> \<and> \<not> locked s'
      \<and> \<not> flag_set (flags_of s' p) RWNX_CMD_FLAG_NONBLOCK \<and> c_used (cmd_at s' p)"
    using fresh p by (auto simp: linked_def abandoned_def)
  from queue_effect [OF q' pool(1,2,3) rq pool(4)] show ?thesis
  proof (elim disjE exE conjE)
    assume "o' = QRetry" "s' = ?s" "state (mgr ?s) \<noteq> RWNX_CMD_MGR_STATE_CRASHED"
    then have "note_send out d w = w\<lparr>pollers := p # pollers w\<rparr>" "p \<notin> set (cmds (mgr ?s))"
      using aq fresh by (auto simp: after_queue_def abandoned_def)
    then show ?thesis
      using inv i p rq by (auto simp: cmd_inv_def threads_ok_def idle_slot_def)
  next
    fix r assume "o' = QReturn r" "r \<noteq> 0" and un: "untouched p ?s s'"
    then have "note_send out d w = w\<lparr>drv := rwnx_cmd_free p s'\<rparr>"
      using aq by (auto simp: after_queue_def)
    moreover have "cmd_inv (w\<lparr>drv := rwnx_cmd_free p s'\<rparr>)"
      using un fresh by (intro inv_touch_idle [OF inv _ _ _ _ _ i, where st = "state (mgr ?s)"])
        (auto simp: untouched_def rwnx_cmd_free_def view_def cmd_at_upd_cmd abandoned_def)
    ultimately show ?thesis by simp
  next
    assume o: "o' = QReturn 0" and l: "linked p ?s s'" and wp: "flag_set (flags_of s' p) RWNX_CMD_FLAG_WAIT_PUSH"
    then have "note_send out d w = w\<lparr>drv := s'\<rparr>"
      using aq by (auto simp: after_queue_def)
    moreover have "cmd_inv (w\<lparr>drv := s'\<rparr>)"
      using linkedD [OF l] wp room [OF l] p(1) i by (intro inv_link(1) [OF inv]) auto
    ultimately show ?thesis by simp
  next
    assume o: "o' = QWait" and l: "linked p ?s s'" and wp: "\<not> flag_set (flags_of s' p) RWNX_CMD_FLAG_WAIT_PUSH"
      and z: "quiet ?s"
    then have "note_send out d w = w\<lparr>drv := s', callers := p # callers w\<rparr>"
      using aq by (auto simp: after_queue_def)
    moreover have "cmd_inv (w\<lparr>drv := s', callers := p # callers w\<rparr>)"
      using linkedD [OF l] wp room [OF l] p(1) i phase_zero_if_last_zero [OF _ z] inv
      by (intro inv_link(2) [OF inv]) (auto simp: cmd_inv_def)
    ultimately show ?thesis by simp
  qed
qed

section \<open>Every step keeps the invariant\<close>

subsection \<open>Senders\<close>

lemma fill_cmd_effect [simp]:
  "view (fill_cmd rq i cfm msg c) = view c" "c_used (fill_cmd rq i cfm msg c) = c_used c"
  "rq \<Longrightarrow> flag_set (c_flags (fill_cmd rq i cfm msg c)) RWNX_CMD_FLAG_REQ_CFM"
  by (auto simp: fill_cmd_def view_def flag_simps)

definition allocated :: "bool \<Rightarrow> u16 \<Rightarrow> u8 list option \<Rightarrow> lmac_msg \<Rightarrow> nat \<Rightarrow> driver \<Rightarrow> driver" where
  "allocated rq i cfm msg p s = upd_cmd p (fill_cmd rq i cfm msg) (upd_cmd p (\<lambda>c. c\<lparr>c_used := True\<rparr>) s)"

lemma allocated_effect:
  assumes inv: "cmd_inv w" and m: "rwnx_cmd_malloc (drv w) = (Some p, s0)"
    and s1_def: "s1 = allocated rq i cfm msg p (drv w)"
  shows "upd_cmd p (fill_cmd rq i cfm msg) s0 = s1" and "cmd_inv (w\<lparr>drv := s1\<rparr>)" and "idle_slot (w\<lparr>drv := s1\<rparr>) p"
    and "p < RWNX_CMD_ARRAY_SIZE" and "c_used (cmd_at s1 p)" and "touch p (drv w) s1" and "mgr s1 = mgr (drv w)"
    and "rq \<Longrightarrow> flag_set (flags_of s1 p) RWNX_CMD_FLAG_REQ_CFM"
    and "p \<in> set (cmds (mgr s1)) \<Longrightarrow> abandoned s1 p"
proof -
  note M = rwnx_cmd_malloc_Some [OF m]
  show s1: "upd_cmd p (fill_cmd rq i cfm msg) s0 = s1"
    using M(3) by (simp add: s1_def allocated_def)
  have at: "cmd_at s1 p = fill_cmd rq i cfm msg ((cmd_at (drv w) p)\<lparr>c_used := True\<rparr>)"
    using M(1) by (simp add: s1_def allocated_def cmd_at_upd_cmd)
  have v: "view ((cmd_at (drv w) p)\<lparr>c_used := True\<rparr>) = view (cmd_at (drv w) p)"
    by (simp add: view_def)
  show t: "touch p (drv w) s1" and m1: "mgr s1 = mgr (drv w)"
    by (simp_all add: s1_def allocated_def)
  show "p < RWNX_CMD_ARRAY_SIZE"
    using inv M(1) by (simp add: cmd_inv_def pool_ok_def)
  show u: "c_used (cmd_at s1 p)" and "rq \<Longrightarrow> flag_set (flags_of s1 p) RWNX_CMD_FLAG_REQ_CFM"
    by (simp_all add: at)
  show "p \<in> set (cmds (mgr s1)) \<Longrightarrow> abandoned s1 p"
    using idle_unused(2) [OF inv M(2)] m1 at v by (auto simp: abandoned_def view_def fill_cmd_def flag_simps)
  show "cmd_inv (w\<lparr>drv := s1\<rparr>)"
  proof (rule inv_touch_idle [OF inv t])
    show "locked s1 = locked (drv w)" by (simp add: s1_def allocated_def)
    show "mgr s1 = (mgr (drv w))\<lparr>state := state (mgr (drv w))\<rparr>" using m1 by simp
    show "view (cmd_at s1 p) = view (cmd_at (drv w) p)" using v by (simp add: at)
  qed (use u idle_unused(1) [OF inv M(2)] in simp_all)
  show "idle_slot (w\<lparr>drv := s1\<rparr>) p"
    using idle_unused(1) [OF inv M(2)] by (simp add: idle_slot_def)
qed

lemma note_send_drv: "note_send out d (w\<lparr>drv := s\<rparr>) = note_send out d w"
  by (cases out) simp_all

text \<open>A sender that gives its slot back without queueing it leaves the queue as it was.\<close>

lemma freed_inv:
  assumes inv: "cmd_inv w" and i: "idle_slot w p" and t: "touch p (drv w) d" and m: "mgr d = mgr (drv w)"
    and l: "locked d = locked (drv w)" and v: "view (cmd_at d p) = view (cmd_at (drv w) p)"
    and f: "p \<in> set (cmds (mgr (drv w))) \<Longrightarrow> abandoned (drv w) p"
  shows "cmd_inv (w\<lparr>drv := rwnx_cmd_free p d\<rparr>)"
  using t m l v f
  by (intro inv_touch_idle [OF inv _ _ _ _ _ i, where st = "state (mgr (drv w))"])
    (auto simp: rwnx_cmd_free_def view_def cmd_at_upd_cmd abandoned_def)

lemma inv_log: "cmd_inv (w\<lparr>drv := add_log e (drv w)\<rparr>) = cmd_inv w"
  by (simp add: cmd_inv_def pool_ok_def queue_ok_def phases_ok_def phase_list_def used_ok_def threads_ok_def)

lemma send_inv:
  assumes inv: "cmd_inv w" and s: "rwnx_send_msg txres rq i cfm msg (drv w) = Some (out, d)"
  shows "cmd_inv (note_send out d w)"
proof (cases "usb_state (drv w) = USB_DOWN_ST")
  case True
  with s inv show ?thesis by (auto simp: rwnx_send_msg_def inv_log)
next
  case False
  from s False obtain p s0 where m: "rwnx_cmd_malloc (drv w) = (Some p, s0)"
    by (auto simp: rwnx_send_msg_def split: prod.splits option.splits)
  define s1 where "s1 = allocated rq i cfm msg p (drv w)"
  note A = allocated_effect [OF inv m s1_def]
  show ?thesis
  proof (cases rq)
    case True
    with s False m have "map_option (after_queue p) (cmd_mgr_queue txres p (drv (w\<lparr>drv := s1\<rparr>))) = Some (out, d)"
      using A(1) by (simp add: rwnx_send_msg_def)
    with A True have "cmd_inv (note_send out d (w\<lparr>drv := s1\<rparr>))"
      by (intro queue_inv [of _ p]) simp_all
    then show ?thesis by (simp add: note_send_drv)
  next
    case nrq: False
    with s False m obtain s2 where tx: "aicwf_set_cmd_tx txres msg (msg_len msg) s1 = Some s2"
      and o: "out = Sent 0" "d = rwnx_cmd_free p s2"
      using A(1) by (auto simp: rwnx_send_msg_def bind_eq_Some_conv)
    note fr = aicwf_set_cmd_tx_frame [OF tx]
    have "cmd_inv ((w\<lparr>drv := s1\<rparr>)\<lparr>drv := rwnx_cmd_free p s2\<rparr>)"
      using fr A by (intro freed_inv [OF A(2,3)]) (simp_all add: touch_def)
    with o show ?thesis by simp
  qed
qed

lemma send1_inv:
  assumes inv: "cmd_inv w" and s: "rwnx_send_msg1 txres rq i cfm df msg (drv w) = Some (out, d)"
  shows "cmd_inv (note_send out d w)"
proof (cases "usb_state (drv w) = USB_DOWN_ST")
  case True
  with s inv show ?thesis by (auto simp: rwnx_send_msg1_def inv_log)
next
  case False
  from s False obtain p s0 where m: "rwnx_cmd_malloc (drv w) = (Some p, s0)"
    by (auto simp: rwnx_send_msg1_def split: prod.splits option.splits)
  define s1 where "s1 = allocated rq i cfm msg p (drv w)"
  note A = allocated_effect [OF inv m s1_def]
  have nb: "\<not> flag_set (flags_of s1 p) RWNX_CMD_FLAG_NONBLOCK" "p < length (cmd_array s1)"
    using A(2,4) by (simp_all add: cmd_inv_def pool_ok_def)
  consider "\<not> rq" | "rq" "df" | "rq" "\<not> df" by blast
  then show ?thesis
  proof cases
    case 1
    with s False m have "out = Sent 0" "d = rwnx_cmd_free p s1"
      using A(1) by (simp_all add: rwnx_send_msg1_def)
    moreover have "cmd_inv ((w\<lparr>drv := s1\<rparr>)\<lparr>drv := rwnx_cmd_free p s1\<rparr>)"
      using A by (intro freed_inv [OF A(2,3)]) simp_all
    ultimately show ?thesis by simp
  next
    case 2
    with s False m obtain r s2 where fd: "cmd_mgr_queue_force_defer p s1 = Some (r, s2)"
      and o: "out = Sent 0" "d = (if r \<noteq> 0 then rwnx_cmd_free p s2 else s2)"
      using A(1) by (auto simp: rwnx_send_msg1_def bind_eq_Some_conv split: prod.splits)
    have "cmd_inv ((w\<lparr>drv := s1\<rparr>)\<lparr>drv := d\<rparr>)"
      using force_defer_effect [OF fd nb(2,1)]
    proof (elim disjE conjE)
      assume "r \<noteq> 0" "untouched p s1 s2"
      then show ?thesis
        using o A by (simp, intro freed_inv [OF A(2,3), simplified]) (simp_all add: untouched_def view_def)
    next
      assume "r = 0" and l: "linked p s1 s2" and wp: "flag_set (flags_of s2 p) RWNX_CMD_FLAG_WAIT_PUSH"
      have "length (cmds (mgr s1)) < 16"
      proof -
        have "cmds (mgr s1) = [] \<or> queue_sz (mgr s1) \<noteq> max_queue_sz (mgr s1)"
          using l by (simp add: linked_def)
        then have "length (cmds (mgr s1)) \<noteq> 16" and "length (cmds (mgr s1)) \<le> 16"
          using A(2) unfolding cmd_inv_def queue_ok_def RWNX_CMD_MAX_QUEUED_def by auto
        then show ?thesis by simp
      qed
      moreover have "p \<notin> set (cmds (mgr s1))"
        using l A(9) by (auto simp: linked_def abandoned_def)
      ultimately show ?thesis
        using l wp A o \<open>r = 0\<close> by (intro inv_link(1) [OF A(2)]) (auto simp: linked_def)
    qed
    with o show ?thesis by simp
  next
    case 3
    with s False m obtain r where r: "cmd_mgr_queue txres p s1 = Some r" "apfst ret_zero (after_queue p r) = (out, d)"
      using A(1) by (auto simp: rwnx_send_msg1_def)
    then obtain out' where q: "map_option (after_queue p) (cmd_mgr_queue txres p (drv (w\<lparr>drv := s1\<rparr>))) = Some (out', d)"
      and o: "out = ret_zero out'"
      by (cases "after_queue p r") auto
    have "cmd_inv (note_send out' d (w\<lparr>drv := s1\<rparr>))"
      using A 3 q by (intro queue_inv [of _ p]) simp_all
    then show ?thesis using o by (cases out') (simp_all add: note_send_drv)
  qed
qed

subsection \<open>Waiters\<close>

lemma cmd_complete_effect:
  assumes "p < length (cmd_array s)" and "\<not> flag_set (flags_of s p) RWNX_CMD_FLAG_NONBLOCK"
  shows "mgr (cmd_complete p s) = mgr s" "locked (cmd_complete p s) = locked s"
    "view (cmd_at (cmd_complete p s) p) = view (cmd_at s p)" "c_used (cmd_at (cmd_complete p s) p) = c_used (cmd_at s p)"
    "length (cmd_array (cmd_complete p s)) = length (cmd_array s)"
    "flag_set (flags_of (cmd_complete p s) p) RWNX_CMD_FLAG_REQ_CFM = flag_set (flags_of s p) RWNX_CMD_FLAG_REQ_CFM"
  using assms
  by (auto simp: cmd_complete_def Let_def cmd_at_upd_cmd flag_simps complete_def rwnx_cmd_free_def view_def)

lemma timeout_effect:
  assumes "timeout_branch p s = Some s'" and "p < length (cmd_array s)"
    and "\<not> flag_set (flags_of s p) RWNX_CMD_FLAG_NONBLOCK"
  shows "touch p s s'" "mgr s' = (mgr s)\<lparr>state := RWNX_CMD_MGR_STATE_CRASHED\<rparr>" "\<not> locked s'" "\<not> locked s"
    "view (cmd_at s' p) = view (cmd_at s p)" "c_used (cmd_at s' p) = c_used (cmd_at s p)"
proof -
  define s2 where "s2 = upd_mgr (\<lambda>m. m\<lparr>state := RWNX_CMD_MGR_STATE_CRASHED\<rparr>) (s\<lparr>locked := True\<rparr>)"
  define s3 where "s3 = upd_cmd p (\<lambda>c. c\<lparr>c_result := word_of_int (- ETIMEDOUT)\<rparr>) s2"
  have u: "\<not> locked s"
    and s': "s' = (if \<not> flag_set (flags_of s2 p) RWNX_CMD_FLAG_DONE then cmd_complete p s3 else s2)\<lparr>locked := False\<rparr>"
    using assms(1) by (auto simp: timeout_branch_def bind_eq_Some_conv s2_def s3_def Let_def)
  have at: "cmd_at s3 p = (cmd_at s p)\<lparr>c_result := word_of_int (- ETIMEDOUT)\<rparr>" "cmd_at s2 p = cmd_at s p"
    using assms(2) by (simp_all add: s2_def s3_def cmd_at_upd_cmd)
  have C: "p < length (cmd_array s3)" "\<not> flag_set (flags_of s3 p) RWNX_CMD_FLAG_NONBLOCK"
    using assms(2,3) at by (simp_all add: s2_def s3_def)
  note E = cmd_complete_effect [OF C]
  show "touch p s s'" "mgr s' = (mgr s)\<lparr>state := RWNX_CMD_MGR_STATE_CRASHED\<rparr>" "\<not> locked s'"
    using E by (auto simp: s' s3_def s2_def)
  show "\<not> locked s" by (rule u)
  show "view (cmd_at s' p) = view (cmd_at s p)" "c_used (cmd_at s' p) = c_used (cmd_at s p)"
    using E at by (auto simp: s' view_def)
qed

lemma unlink_effect:
  assumes "unlink_branch p s = Some s'" and "p < length (cmd_array s)"
  shows "touch p s s'" "p \<in> set (cmds (mgr s))" "\<not> locked s'"
    "mgr s' = (mgr s)\<lparr>cmds := remove1 p (cmds (mgr s)), queue_sz := queue_sz (mgr s) - 1\<rparr>"
    "view (cmd_at s' p) = view (cmd_at s p)"
  using assms
  by (auto simp: unlink_branch_def bind_eq_Some_conv list_del_def Let_def rwnx_cmd_free_def view_def
      cmd_at_upd_cmd split: if_splits)

text \<open>Both waiters, the caller and the worker: the slot is no longer referenced once the wait is over.\<close>

lemma wait_over_inv:
  assumes inv: "cmd_inv w" and i: "idle_slot w p" and p: "p \<in> set (cmds (mgr (drv w)))"
    and np: "\<not> flag_set (flags_of (drv w) p) RWNX_CMD_FLAG_WAIT_PUSH"
  shows "timeout_branch p (drv w) = Some d \<Longrightarrow> cmd_inv (w\<lparr>drv := d\<rparr>)"
    and "timeout_branch p (drv w) = Some d \<Longrightarrow> cmd_inv (w\<lparr>drv := rwnx_cmd_free p d\<rparr>)"
    and "unlink_branch p (drv w) = Some d \<Longrightarrow> cmd_inv (w\<lparr>drv := d\<rparr>)"
proof -
  have pl: "p < length (cmd_array (drv w))" "\<not> flag_set (flags_of (drv w) p) RWNX_CMD_FLAG_NONBLOCK"
    using inv p by (auto simp: cmd_inv_def pool_ok_def queue_ok_def)
  {
    assume "timeout_branch p (drv w) = Some d"
    note T = timeout_effect [OF this pl]
    show *: "cmd_inv (w\<lparr>drv := d\<rparr>)"
      using T i np by (intro inv_touch_idle [OF inv, of p d RWNX_CMD_MGR_STATE_CRASHED]) (simp_all add: abandoned_def view_def)
    have "cmd_inv ((w\<lparr>drv := d\<rparr>)\<lparr>drv := rwnx_cmd_free p d\<rparr>)"
      using T i np by (intro freed_inv [OF *]) (simp_all add: idle_slot_def abandoned_def view_def)
    then show "cmd_inv (w\<lparr>drv := rwnx_cmd_free p d\<rparr>)" by simp
  }
  assume "unlink_branch p (drv w) = Some d"
  note U = unlink_effect [OF this pl(1)]
  show "cmd_inv (w\<lparr>drv := d\<rparr>)"
    using U np i by (intro inv_unlink [OF inv]) simp_all
qed

lemma caller_idle:
  assumes "cmd_inv w" and "p \<in> set (callers w)"
  shows "cmd_inv (w\<lparr>callers := remove1 p (callers w)\<rparr>)" "idle_slot (w\<lparr>callers := remove1 p (callers w)\<rparr>) p"
    "p \<in> set (cmds (mgr (drv w)))" "\<not> flag_set (flags_of (drv w) p) RWNX_CMD_FLAG_WAIT_PUSH"
  using assms by (auto simp: cmd_inv_def threads_ok_def idle_slot_def)

lemma worker_idle:
  assumes "cmd_inv w" and "worker w = Some p"
  shows "cmd_inv (w\<lparr>worker := None\<rparr>)" "idle_slot (w\<lparr>worker := None\<rparr>) p"
    "p \<in> set (cmds (mgr (drv w)))" "\<not> flag_set (flags_of (drv w) p) RWNX_CMD_FLAG_WAIT_PUSH"
  using assms by (auto simp: cmd_inv_def threads_ok_def idle_slot_def)

lemma wake_inv:
  assumes inv: "cmd_inv w" and p: "p \<in> set (callers w)" and wk: "rwnx_send_msg_wake oc p (drv w) = Some (ret, d)"
  shows "cmd_inv (w\<lparr>callers := remove1 p (callers w), drv := d\<rparr>)"
proof -
  note C = caller_idle [OF inv p]
  let ?w = "w\<lparr>callers := remove1 p (callers w)\<rparr>"
  have nz: "ETIMEDOUT \<noteq> 0" by (simp add: ETIMEDOUT_def)
  have "cmd_inv (?w\<lparr>drv := d\<rparr>)"
  proof (cases "oc = TimedOut")
    case True
    with wk nz obtain e where "timeout_branch p (drv ?w) = Some e" "d = rwnx_cmd_free p e"
      by (auto simp: rwnx_send_msg_wake_def cmd_mgr_queue_wake_def bind_eq_Some_conv split: prod.splits)
    then show ?thesis using wait_over_inv(2) [OF C(1,2)] C(3,4) by simp
  next
    case False
    with wk obtain e where "unlink_branch p (drv ?w) = Some e" and d: "d = e \<or> d = add_log QueueWork e"
      by (auto simp: rwnx_send_msg_wake_def cmd_mgr_queue_wake_def bind_eq_Some_conv split: prod.splits if_splits)
    then have "cmd_inv (?w\<lparr>drv := e\<rparr>)" using wait_over_inv(3) [OF C(1,2)] C(3,4) by simp
    then show ?thesis using d inv_log [of QueueWork "?w\<lparr>drv := e\<rparr>"] by auto
  qed
  then show ?thesis by simp
qed

lemma worker_wake_inv:
  assumes inv: "cmd_inv w" and p: "worker w = Some p" and wk: "cmd_mgr_task_wake oc p (drv w) = Some d"
  shows "cmd_inv (w\<lparr>worker := None, drv := d\<rparr>)"
  using wait_over_inv(1,3) [OF worker_idle(1,2) [OF inv p], of d] worker_idle(3,4) [OF inv p] wk
  by (cases "oc = TimedOut") (auto simp: cmd_mgr_task_wake_def)

subsection \<open>The worker and the receive path\<close>

lemma task_round_inv:
  assumes inv: "cmd_inv w" and n: "worker w = None" and r: "cmd_mgr_task_round txres (drv w) = Some (nxt, d)"
  shows "cmd_inv (w\<lparr>drv := d, worker := nxt\<rparr>)"
proof -
  let ?s = "drv w"
  have tn: "task_next (?s\<lparr>locked := True\<rparr>) = task_next ?s"
    unfolding task_next_def by (simp split: list.split)
  have u: "\<not> locked ?s" using inv by (simp add: cmd_inv_def pool_ok_def)
  show ?thesis
  proof (cases "task_next ?s")
    case None
    with r tn u have "nxt = None" "d = ?s"
      by (auto simp: cmd_mgr_task_round_def bind_eq_Some_conv)
    with n inv show ?thesis by (simp add: cmd_inv_def threads_ok_def)
  next
    case (Some p)
    define s2 where "s2 = upd_cmd p (\<lambda>c. c\<lparr>c_flags := flag_clear (c_flags c) RWNX_CMD_FLAG_WAIT_PUSH\<rparr>) ?s"
    from Some r tn u obtain s3 where tx: "aicwf_set_cmd_tx txres (c_a2e_msg (cmd_at s2 p)) (msg_len (c_a2e_msg (cmd_at s2 p))) s2 = Some s3"
      and d: "nxt = Some p" "d = add_log (KfreeMsg (c_a2e_msg (cmd_at s3 p))) s3"
      by (auto simp: cmd_mgr_task_round_def bind_eq_Some_conv s2_def Let_def unlocked_id)
    note fr = aicwf_set_cmd_tx_frame [OF tx]
    from Some obtain ps where ps: "cmds (mgr ?s) = p # ps" and wp: "flag_set (flags_of ?s p) RWNX_CMD_FLAG_WAIT_PUSH"
      by (auto simp: task_next_def split: list.splits if_splits)
    have pl: "p < length (cmd_array ?s)" and dist: "p \<notin> set ps" and pn: "p < RWNX_CMD_ARRAY_SIZE"
      using inv ps by (auto simp: cmd_inv_def pool_ok_def queue_ok_def)
    have at: "cmd_at d p = (cmd_at ?s p)\<lparr>c_flags := flag_clear (flags_of ?s p) RWNX_CMD_FLAG_WAIT_PUSH\<rparr>"
      and t: "touch p ?s d" and m: "mgr d = mgr ?s" "locked d = locked ?s"
      using pl fr by (simp_all add: d s2_def cmd_at_upd_cmd touch_def)
    have other: "q \<noteq> p \<Longrightarrow> cmd_at d q = cmd_at ?s q" for q
      using t by (simp add: touch_def)
    have same: "flag_set (flags_of d q) RWNX_CMD_FLAG_NONBLOCK = flag_set (flags_of ?s q) RWNX_CMD_FLAG_NONBLOCK
        \<and> (flag_set (flags_of d q) RWNX_CMD_FLAG_WAIT_PUSH \<longrightarrow> flag_set (flags_of ?s q) RWNX_CMD_FLAG_WAIT_PUSH)
        \<and> c_used (cmd_at d q) = c_used (cmd_at ?s q)" for q
      using at other [of q] by (cases "q = p") (simp_all add: flag_simps)
    have "pool_ok d" "queue_ok d" "used_ok d"
      using inv t m same by (auto simp: cmd_inv_def pool_ok_def queue_ok_def used_ok_def touch_def)
    moreover have "phases_ok d"
    proof -
      have "phase_seq (2 # phase_list ?s ps)"
        using inv ps wp by (simp add: cmd_inv_def phases_ok_def) (metis phase_simps(1))
      then have "\<forall>x \<in> set (phase_list ?s ps). x = 2" and "sorted (phase_list ?s ps)"
        using phase_list_le by (force simp: phase_seq_def)+
      moreover from this have "count_list (phase_list ?s ps) 1 = 0"
        by (auto simp: count_list_0_iff)
      ultimately have "phase_seq (phase (flags_of d p) # phase_list ?s ps)"
        by (auto simp: phase_seq_def)
      then show ?thesis
        using phase_list_touch [OF t dist] m ps by (simp add: phases_ok_def)
    qed
    moreover have "threads_ok (w\<lparr>drv := d, worker := nxt\<rparr>)"
    proof -
      have "p \<notin> set (callers w)" "p \<notin> set (pollers w)" "c_used (cmd_at ?s p)"
        using inv ps wp by (auto simp: cmd_inv_def threads_ok_def used_ok_def)
      moreover from this have "q \<in> set (callers w) \<union> set (pollers w) \<Longrightarrow> cmd_at d q = cmd_at ?s q" for q
        using other [of q] by auto
      ultimately show ?thesis
        using inv m at ps d(1) by (auto simp: cmd_inv_def threads_ok_def flag_simps)
    qed
    ultimately show ?thesis by (simp add: cmd_inv_def)
  qed
qed

lemma phase_seq_confirm:
  assumes "phase_seq (xs @ 1 # ys)"
  shows "phase_seq (xs @ 0 # ys)"
proof -
  from assms have "\<forall>x \<in> set xs. x \<le> 1" "count_list xs 1 = 0"
    by (auto simp: phase_seq_def sorted_append)
  then have "\<forall>x \<in> set xs. x = 0"
    by (auto simp: count_list_0_iff) (metis One_nat_def le_Suc_eq le_zero_eq)
  with assms show ?thesis
    by (auto simp: phase_seq_def sorted_append)
qed

lemma msgind_hit_effect:
  assumes "msgind_hit msg p s = Some s'" and "p < length (cmd_array s)"
    and "\<not> flag_set (flags_of s p) RWNX_CMD_FLAG_NONBLOCK"
  shows "touch p s s'" "mgr s' = mgr s" "locked s' = locked s" "c_used (cmd_at s' p) = c_used (cmd_at s p)"
    "flag_set (flags_of s' p) RWNX_CMD_FLAG_WAIT_PUSH = flag_set (flags_of s p) RWNX_CMD_FLAG_WAIT_PUSH"
    "\<not> flag_set (flags_of s' p) RWNX_CMD_FLAG_WAIT_CFM" "\<not> flag_set (flags_of s' p) RWNX_CMD_FLAG_NONBLOCK"
    "flag_set (flags_of s' p) RWNX_CMD_FLAG_REQ_CFM = flag_set (flags_of s p) RWNX_CMD_FLAG_REQ_CFM"
proof -
  define s1 where "s1 = upd_cmd p (\<lambda>c. c\<lparr>c_flags := flag_clear (c_flags c) RWNX_CMD_FLAG_WAIT_CFM\<rparr>) s"
  obtain s2 where cp: "msgind_copy msg p s1 = Some s2"
    and s': "s' = (if RWNX_CMD_WAIT_COMPLETE (flags_of s2 p) then cmd_complete p s2 else s2)"
    using assms(1) unfolding msgind_hit_def s1_def [symmetric] by (auto simp: bind_eq_Some_conv simp del: if_split)
  have s2: "s2 = s1 \<or> (\<exists>b. s2 = upd_cmd p (\<lambda>c. c\<lparr>c_e2a_msg := Some b\<rparr>) s1)"
    using cp by (auto simp: msgind_copy_def bind_eq_Some_conv split: option.splits if_splits)
  have at: "flags_of s2 p = flag_clear (flags_of s p) RWNX_CMD_FLAG_WAIT_CFM" "c_used (cmd_at s2 p) = c_used (cmd_at s p)"
    "touch p s s2" "mgr s2 = mgr s" "locked s2 = locked s" "length (cmd_array s2) = length (cmd_array s)"
    using s2 assms(2) by (auto simp: s1_def cmd_at_upd_cmd)
  have C: "p < length (cmd_array s2)" "\<not> flag_set (flags_of s2 p) RWNX_CMD_FLAG_NONBLOCK"
    using assms(2,3) at by (simp_all add: flag_simps)
  note E = cmd_complete_effect [OF C]
  show "touch p s s'" "mgr s' = mgr s" "locked s' = locked s" "c_used (cmd_at s' p) = c_used (cmd_at s p)"
    using E at by (simp_all add: s')
  have "view (cmd_at s' p) = view (cmd_at s2 p)"
    "flag_set (flags_of s' p) RWNX_CMD_FLAG_REQ_CFM = flag_set (flags_of s2 p) RWNX_CMD_FLAG_REQ_CFM"
    using E by (simp_all add: s')
  then show "flag_set (flags_of s' p) RWNX_CMD_FLAG_WAIT_PUSH = flag_set (flags_of s p) RWNX_CMD_FLAG_WAIT_PUSH"
    "\<not> flag_set (flags_of s' p) RWNX_CMD_FLAG_WAIT_CFM" "\<not> flag_set (flags_of s' p) RWNX_CMD_FLAG_NONBLOCK"
    "flag_set (flags_of s' p) RWNX_CMD_FLAG_REQ_CFM = flag_set (flags_of s p) RWNX_CMD_FLAG_REQ_CFM"
    using at assms(3) by (simp_all add: view_def flag_simps)
qed

lemma msgind_hit_inv:
  assumes inv: "cmd_inv (w\<lparr>drv := (drv w)\<lparr>locked := False\<rparr>\<rparr>)" and p: "p \<in> set (cmds (mgr (drv w)))"
    and c: "flag_set (flags_of (drv w) p) RWNX_CMD_FLAG_WAIT_CFM" and h: "msgind_hit msg p (drv w) = Some d"
  shows "cmd_inv (w\<lparr>drv := d\<lparr>locked := False\<rparr>\<rparr>)"
proof -
  let ?s = "drv w" and ?d = "d\<lparr>locked := False\<rparr>"
  have pl: "p < length (cmd_array ?s)" "\<not> flag_set (flags_of ?s p) RWNX_CMD_FLAG_NONBLOCK"
    using inv p by (auto simp: cmd_inv_def pool_ok_def queue_ok_def)
  note H = msgind_hit_effect [OF h pl]
  have other: "q \<noteq> p \<Longrightarrow> cmd_at d q = cmd_at ?s q" for q
    using H(1) by (simp add: touch_def)
  have same: "flag_set (flags_of d q) RWNX_CMD_FLAG_WAIT_PUSH = flag_set (flags_of ?s q) RWNX_CMD_FLAG_WAIT_PUSH
      \<and> flag_set (flags_of d q) RWNX_CMD_FLAG_NONBLOCK = flag_set (flags_of ?s q) RWNX_CMD_FLAG_NONBLOCK
      \<and> flag_set (flags_of d q) RWNX_CMD_FLAG_REQ_CFM = flag_set (flags_of ?s q) RWNX_CMD_FLAG_REQ_CFM
      \<and> c_used (cmd_at d q) = c_used (cmd_at ?s q)" for q
    using H other [of q] pl(2) by (cases "q = p") auto
  have "pool_ok ?d" "queue_ok ?d" "used_ok ?d"
    using inv H same by (auto simp: cmd_inv_def pool_ok_def queue_ok_def used_ok_def touch_def)
  moreover have "threads_ok (w\<lparr>drv := ?d\<rparr>)"
    using inv H same by (auto simp: cmd_inv_def threads_ok_def)
  moreover have "phases_ok ?d"
  proof -
    obtain ps qs where ps: "cmds (mgr ?s) = ps @ p # qs"
      using p split_list by fast
    then have n: "p \<notin> set ps" "p \<notin> set qs"
      using inv by (auto simp: cmd_inv_def queue_ok_def)
    have s: "phase_seq (phase_list ?s ps @ phase (flags_of ?s p) # phase_list ?s qs)"
      using inv ps by (simp add: cmd_inv_def phases_ok_def)
    have "phase_seq (phase_list ?s ps @ phase (flags_of d p) # phase_list ?s qs)"
    proof (cases "flag_set (flags_of ?s p) RWNX_CMD_FLAG_WAIT_PUSH")
      case True
      then have "phase (flags_of d p) = phase (flags_of ?s p)"
        using H by (simp add: phase_def)
      with s show ?thesis by simp
    next
      case False
      then have e1: "phase (flags_of ?s p) = 1" and e0: "phase (flags_of d p) = 0"
        using c H by (simp_all add: phase_def)
      show ?thesis unfolding e0 using s unfolding e1 by (rule phase_seq_confirm)
    qed
    then show ?thesis
      using phase_list_touch [OF H(1) n(1)] phase_list_touch [OF H(1) n(2)] H(2) ps
      by (simp add: phases_ok_def)
  qed
  ultimately show ?thesis by (simp add: cmd_inv_def)
qed

lemma msgind_scan_inv:
  assumes "cmd_inv (w\<lparr>drv := (drv w)\<lparr>locked := False\<rparr>\<rparr>)" and "set ps \<subseteq> set (cmds (mgr (drv w)))"
    and "msgind_scan cb msg ps (drv w) = Some (f, d)"
  shows "cmd_inv (w\<lparr>drv := d\<lparr>locked := False\<rparr>\<rparr>)"
  using assms
proof (induction ps arbitrary: w)
  case (Cons p ps)
  show ?case
  proof (cases "c_reqid (cmd_at (drv w) p) = e_id msg \<and> flag_set (flags_of (drv w) p) RWNX_CMD_FLAG_WAIT_CFM")
    case hit: True
    obtain res s1 where cb: "cmd_mgr_run_callback cb (Some p) msg (drv w) = (res, s1)" by fastforce
    define w1 where "w1 = w\<lparr>drv := s1\<rparr>"
    have "s1 = drv w \<or> (\<exists>e. s1 = add_log e (drv w))"
      using cb by (auto simp: cmd_mgr_run_callback_def split: option.splits)
    then have i: "cmd_inv (w1\<lparr>drv := (drv w1)\<lparr>locked := False\<rparr>\<rparr>)" and m: "mgr s1 = mgr (drv w)"
      and f: "flags_of s1 p = flags_of (drv w) p"
      using Cons.prems(1) inv_log [of _ "w\<lparr>drv := (drv w)\<lparr>locked := False\<rparr>\<rparr>"]
      by (auto simp: w1_def locked_log)
    show ?thesis
    proof (cases "res = 0")
      case True
      with hit cb Cons.prems(3) have "msgind_hit msg p (drv w1) = Some d" by (simp add: w1_def)
      then have "cmd_inv (w1\<lparr>drv := d\<lparr>locked := False\<rparr>\<rparr>)"
        using hit Cons.prems(2) m f by (intro msgind_hit_inv [OF i]) (simp_all add: w1_def)
      then show ?thesis by (simp add: w1_def)
    next
      case False
      with hit cb Cons.prems(3) have "msgind_scan cb msg ps (drv w1) = Some (f, d)" by (simp add: w1_def)
      then have "cmd_inv (w1\<lparr>drv := d\<lparr>locked := False\<rparr>\<rparr>)"
        using Cons.prems(2) m by (intro Cons.IH [OF i]) (simp_all add: w1_def)
      then show ?thesis by (simp add: w1_def)
    qed
  next
    case False
    with Cons.prems show ?thesis by (intro Cons.IH) auto
  qed
qed simp

lemma msgind_inv:
  assumes inv: "cmd_inv w" and m: "cmd_mgr_msgind cb msg (drv w) = Some d"
  shows "cmd_inv (w\<lparr>drv := d\<rparr>)"
proof -
  let ?w = "w\<lparr>drv := (drv w)\<lparr>locked := True\<rparr>\<rparr>"
  have "\<not> locked (drv w)" using inv by (simp add: cmd_inv_def pool_ok_def)
  then have i: "cmd_inv (?w\<lparr>drv := (drv ?w)\<lparr>locked := False\<rparr>\<rparr>)" using inv by (simp add: unlocked_id)
  from m obtain f s1 where sc: "msgind_scan cb msg (cmds (mgr (drv ?w))) (drv ?w) = Some (f, s1)"
    and d: "d = (if f then s1\<lparr>locked := False\<rparr> else snd (cmd_mgr_run_callback cb None msg (s1\<lparr>locked := False\<rparr>)))"
    by (auto simp: cmd_mgr_msgind_def bind_eq_Some_conv split: prod.splits)
  have s: "cmd_inv (?w\<lparr>drv := s1\<lparr>locked := False\<rparr>\<rparr>)"
    using msgind_scan_inv [OF i _ sc] by simp
  moreover have "d = s1\<lparr>locked := False\<rparr> \<or> (\<exists>e. d = add_log e (s1\<lparr>locked := False\<rparr>))"
    using d by (auto simp: cmd_mgr_run_callback_def split: option.splits)
  ultimately show ?thesis
    using inv_log [of _ "?w\<lparr>drv := s1\<lparr>locked := False\<rparr>\<rparr>"] by auto
qed

lemma poller_idle:
  assumes "cmd_inv w" and "p \<in> set (pollers w)"
  shows "cmd_inv (w\<lparr>pollers := remove1 p (pollers w)\<rparr>)" "idle_slot (w\<lparr>pollers := remove1 p (pollers w)\<rparr>) p"
  using assms by (auto simp: cmd_inv_def threads_ok_def idle_slot_def)

lemma poll_inv:
  assumes inv: "cmd_inv w" and p: "p \<in> set (pollers w)"
    and q: "map_option (after_queue p) (cmd_mgr_queue txres p (drv w)) = Some (out, d)"
  shows "cmd_inv (note_send out d (w\<lparr>pollers := remove1 p (pollers w)\<rparr>))"
  using inv p q by (intro queue_inv [OF poller_idle [OF inv p]]) (auto simp: cmd_inv_def threads_ok_def)

lemma init_inv: "cmd_inv init_world"
  by (auto simp: cmd_inv_def init_world_def rwnx_cmd_mgr_init_def rwnx_init_cmd_array_def zero_driver_def pool_ok_def
      queue_ok_def phases_ok_def phase_seq_def used_ok_def threads_ok_def flag_set_def blank_cmd_def
      nth_append)

interpretation cmds: step_system "\<lambda>w. w = init_world" cmd_step cmd_inv
proof unfold_locales
  show "\<And>w. w = init_world \<Longrightarrow> cmd_inv w" by (simp add: init_inv)
  fix w w' assume "cmd_inv w" "cmd_step w w'"
  from this(2,1) show "cmd_inv w'"
  proof (induction rule: cmd_step.induct)
    case (usb w u)
    then show ?case
      by (simp add: cmd_inv_def pool_ok_def queue_ok_def phases_ok_def phase_list_def used_ok_def threads_ok_def)
  qed (blast intro: send_inv send1_inv poll_inv wake_inv task_round_inv worker_wake_inv msgind_inv)+
qed

section \<open>Properties\<close>

text \<open>A run used by the witnesses: one command sent, a second one queued behind it.\<close>

definition demo_msg :: "u16 \<Rightarrow> lmac_msg" where
  "demo_msg i = \<lparr>m_id = i, m_dest_id = 0, m_src_id = 100, m_param_len = 3, m_param = [7, 8, 9]\<rparr>"

definition after_send :: "u16 \<Rightarrow> u16 \<Rightarrow> world \<Rightarrow> world" where
  "after_send i r w = (case rwnx_send_msg 0 True r None (demo_msg i) (drv w) of
      Some (out, d) \<Rightarrow> note_send out d w | None \<Rightarrow> w)"

definition demo_world :: world where
  "demo_world = after_send 8 9 (after_send 4 5 init_world)"

lemma after_send_steps: "cmd_step\<^sup>*\<^sup>* w (after_send i r w)"
  by (auto simp: after_send_def split: option.splits intro: cmd_step.send)

lemma demo_reachable: "cmd_step\<^sup>*\<^sup>* init_world demo_world"
  unfolding demo_world_def by (rule rtranclp_trans [OF after_send_steps after_send_steps])

lemma demo_values:
  "cmds (mgr (drv demo_world)) = [0, 1]" "callers demo_world = [0]"
  "phase_list (drv demo_world) [0, 1] = [1, 2]" "state (mgr (drv demo_world)) = RWNX_CMD_MGR_STATE_INITED"
  by code_simp+

lemma count_in_flight:
  "count_list (phase_list d ps) 1 = length (filter (\<lambda>p. flag_set (flags_of d p) RWNX_CMD_FLAG_WAIT_CFM
     \<and> \<not> flag_set (flags_of d p) RWNX_CMD_FLAG_WAIT_PUSH) ps)"
  by (induction ps) auto

text \<open>
  C1: in every state the driver can reach, with any number of senders, confirmations, timeouts, killed waits
  and worker rounds, at most one command that was transmitted still awaits its confirmation, and the queue
  holds at most 16 distinct commands, as \<^verbatim>\<open>queue_sz\<close> counts them.
\<close>

theorem one_command_with_firmware:
  assumes "cmd_step\<^sup>*\<^sup>* init_world w"
  shows "length (filter (\<lambda>p. flag_set (flags_of (drv w) p) RWNX_CMD_FLAG_WAIT_CFM
           \<and> \<not> flag_set (flags_of (drv w) p) RWNX_CMD_FLAG_WAIT_PUSH) (cmds (mgr (drv w)))) \<le> 1
       \<and> length (cmds (mgr (drv w))) \<le> 16 \<and> distinct (cmds (mgr (drv w)))
       \<and> unat (queue_sz (mgr (drv w))) = length (cmds (mgr (drv w)))"
proof -
  have "cmd_inv w" by (rule cmds.inv_reachable [OF _ assms]) simp
  then have "count_list (phase_list (drv w) (cmds (mgr (drv w)))) 1 \<le> 1" and "queue_ok (drv w)"
    by (simp_all add: cmd_inv_def phases_ok_def phase_seq_def)
  then show ?thesis
    by (simp only: count_in_flight) (auto simp: queue_ok_def unat_of_nat)
qed

theorem one_command_with_firmware_witness:
  "cmds (mgr (drv demo_world)) = [0, 1]
   \<and> length (filter (\<lambda>p. flag_set (flags_of (drv demo_world) p) RWNX_CMD_FLAG_WAIT_CFM
           \<and> \<not> flag_set (flags_of (drv demo_world) p) RWNX_CMD_FLAG_WAIT_PUSH) (cmds (mgr (drv demo_world)))) \<le> 1
   \<and> unat (queue_sz (mgr (drv demo_world))) = 2"
  using one_command_with_firmware [OF demo_reachable] demo_values(1) by simp

text \<open>
  C2: the deferred commands form a tail of the queue and everything before the command that is with the
  firmware is confirmed: commands reach the firmware in the order in which they were queued.
\<close>

theorem queue_phases_in_order:
  assumes "cmd_step\<^sup>*\<^sup>* init_world w" and "cmds (mgr (drv w)) = ps @ p # qs"
    and "\<not> flag_set (flags_of (drv w) p) RWNX_CMD_FLAG_WAIT_PUSH"
    and "flag_set (flags_of (drv w) p) RWNX_CMD_FLAG_WAIT_CFM"
  shows "(\<forall>q \<in> set ps. \<not> flag_set (flags_of (drv w) q) (RWNX_CMD_FLAG_WAIT_PUSH OR RWNX_CMD_FLAG_WAIT_CFM))
       \<and> (\<forall>q \<in> set qs. flag_set (flags_of (drv w) q) RWNX_CMD_FLAG_WAIT_PUSH)"
proof -
  let ?f = "\<lambda>q. phase (flags_of (drv w) q)"
  have "cmd_inv w" by (rule cmds.inv_reachable [OF _ assms(1)]) simp
  then have s: "phase_seq (phase_list (drv w) ps @ ?f p # phase_list (drv w) qs)"
    using assms(2) by (simp add: cmd_inv_def phases_ok_def)
  have p1: "?f p = 1" using assms(3,4) by simp
  have "phase_seq (phase_list (drv w) ps @ 0 # phase_list (drv w) qs)"
    using s unfolding p1 by (rule phase_seq_confirm)
  then have before: "\<forall>x \<in> set (phase_list (drv w) ps). x = 0"
    by (auto simp: phase_seq_def sorted_append)
  have "count_list (phase_list (drv w) qs) 1 = 0" and "\<forall>x \<in> set (phase_list (drv w) qs). 1 \<le> x"
    using s unfolding p1 by (auto simp: phase_seq_def sorted_append)
  then have after: "\<forall>x \<in> set (phase_list (drv w) qs). x = 2"
    using phase_list_le [of _ "drv w" qs] by (auto simp: count_list_0_iff) (metis One_nat_def le_antisym not_less_eq_eq numeral_2_eq_2)
  from before after show ?thesis
    by (auto simp: phase_list_def flag_simps)
qed

theorem queue_phases_in_order_witness:
  "cmds (mgr (drv demo_world)) = [] @ 0 # [1] \<and> flag_set (flags_of (drv demo_world) 1) RWNX_CMD_FLAG_WAIT_PUSH"
  using queue_phases_in_order [OF demo_reachable, of "[]" 0 "[1]"] demo_values by simp



end
