(* ===== verification/Cmd_Props.thy ===== *)
theory Cmd_Props
  imports Cmd_Proto
begin

text \<open>
  Functional behaviour of single operations of the command manager: the layout of a command frame and its
  inverse, the delivery of a confirmation, the order in which the worker transmits, and the error paths of a crashed or
  drained manager.
\<close>

section \<open>Frames\<close>

text \<open>What a receiver reads back from a frame: the length field of 12 bits, the type byte and the message.\<close>

definition parse_frame :: "u8 list \<Rightarrow> lmac_msg option" where
  "parse_frame f = (if length f < 16 \<or> f ! 2 \<noteq> 17
        \<or> unat (of_le16 (f ! 0) (f ! 1 AND 15)) + 4 \<noteq> length f
        \<or> unat (of_le16 (f ! 14) (f ! 15)) + 16 \<noteq> length f then None
     else Some \<lparr>m_id = of_le16 (f ! 8) (f ! 9), m_dest_id = of_le16 (f ! 10) (f ! 11),
       m_src_id = of_le16 (f ! 12) (f ! 13), m_param_len = of_le16 (f ! 14) (f ! 15), m_param = drop 16 f\<rparr>)"

definition msg_ok :: "lmac_msg \<Rightarrow> bool" where
  "msg_ok msg \<longleftrightarrow> length (m_param msg) = unat (m_param_len msg) \<and> 16 + unat (m_param_len msg) \<le> CMD_BUF_MAX"

lemma unat_msg_len: "unat (msg_len msg) = 8 + unat (m_param_len msg)"
proof -
  show ?thesis
    using unat_u16_less [of "m_param_len msg"] by (simp add: msg_len_def unat_word_ariths)
qed

lemma unat_msg_len_add: "k \<le> 8 \<Longrightarrow> unat (msg_len msg + of_nat k) = 8 + unat (m_param_len msg) + k"
proof -
  assume k: "k \<le> 8"
  with k show ?thesis
    using unat_u16_less [of "m_param_len msg"] by (simp add: unat_word_ariths unat_msg_len unat_of_nat)
qed

lemma length_cmd_frame: "msg_ok msg \<Longrightarrow> length (cmd_frame msg len) = 16 + unat (m_param_len msg)"
  by (simp add: cmd_frame_def msg_ok_def)

text \<open>Twelve bits hold every length that fits the command buffer.\<close>

lemma len_field:
  fixes w :: u32
  assumes "unat w < 4096"
  shows "unat (of_le16 (ucast w) ((ucast (drop_bit 8 w) AND 15) AND 15)) = unat w"
proof -
  have m: "(15 :: u8) = mask 4" by (simp add: mask_eq_exp_minus_1)
  have "drop_bit 12 w = 0"
    using assms by (simp add: word_unat_eq_iff drop_bit_eq_div unat_div)
  then have hi: "\<not> bit w (12 + n)" for n
    by (metis bit_drop_bit_eq bit_0_eq bot_apply bot_bool_def comp_apply)
  have lo: "\<not> bit w n" if "12 \<le> n" for n
    using hi [of "n - 12"] that by simp
  have "bit (of_le16 (ucast w) ((ucast (drop_bit 8 w) AND 15) AND 15)) n = bit (ucast w :: u16) n"
    if "n < 16" for n
    using lo [of n] that unfolding of_le16_def m
    by (cases "n < 8"; cases "n < 12") (auto simp: bit_simps)
  then have "of_le16 (ucast w) ((ucast (drop_bit 8 w) AND 15) AND 15) = ucast w"
    by (intro bit_word_eqI) simp
  moreover have "unat (ucast w :: u16) = unat w"
    using assms by (simp add: unat_ucast_small)
  ultimately show ?thesis by simp
qed

lemma set_cmd_tx_frame:
  assumes "usb_state s \<noteq> USB_DOWN_ST" and "msg_ok msg"
  shows "aicwf_set_cmd_tx txres msg (msg_len msg) s =
    Some (if txres = - EIO then add_log (BusTx (cmd_frame msg (msg_len msg))) (add_log (BusTx (cmd_frame msg (msg_len msg))) s)
          else add_log (BusTx (cmd_frame msg (msg_len msg))) s)"
  using assms unat_msg_len_add [of 8 msg]
  by (simp add: aicwf_set_cmd_tx_def length_cmd_frame Let_def) (simp add: msg_ok_def)

lemma parse_cmd_frame: 
  assumes "msg_ok msg"
  shows "parse_frame (cmd_frame msg (msg_len msg)) = Some msg"
proof -
  have l: "unat (msg_len msg + 4) = 12 + unat (m_param_len msg)"
    using unat_msg_len_add [of 4 msg] by simp
  with assms have "unat (msg_len msg + 4) < 4096"
    by (simp add: msg_ok_def CMD_BUF_MAX_def)
  note len_field [OF this]
  with assms l show ?thesis
    by (simp add: parse_frame_def length_cmd_frame) (simp add: cmd_frame_def le16_def msg_ok_def)
qed

text \<open>
  C4: a message that fits the command buffer is put on the bus as one frame, twice when the first transfer fails
  with \<^verbatim>\<open>-EIO\<close>, and reading the frame back gives the message: header, length fields, ids and parameters.
\<close>

theorem command_frame_roundtrip:
  assumes "usb_state s \<noteq> USB_DOWN_ST" and "length (m_param msg) = unat (m_param_len msg)"
    and "16 + unat (m_param_len msg) \<le> CMD_BUF_MAX"
  shows "\<exists>s' f. aicwf_set_cmd_tx txres msg (msg_len msg) s = Some s'
     \<and> log s' = log s @ (if txres = - EIO then [BusTx f, BusTx f] else [BusTx f])
     \<and> parse_frame f = Some msg \<and> length f = 16 + unat (m_param_len msg)"
proof -
  have "msg_ok msg" using assms by (simp add: msg_ok_def)
  with assms(1) parse_cmd_frame [of msg] length_cmd_frame [of msg "msg_len msg"] show ?thesis
    by (auto simp: set_cmd_tx_frame)
qed

theorem command_frame_roundtrip_witness:
  "\<exists>s' f. aicwf_set_cmd_tx (- 5) \<lparr>m_id = 5132, m_dest_id = 5, m_src_id = 100, m_param_len = 3, m_param = [1, 2, 255]\<rparr>
       (msg_len \<lparr>m_id = 5132, m_dest_id = 5, m_src_id = 100, m_param_len = 3, m_param = [1, 2, 255]\<rparr>) zero_driver = Some s'
     \<and> log s' = [BusTx f, BusTx f]
     \<and> parse_frame f = Some \<lparr>m_id = 5132, m_dest_id = 5, m_src_id = 100, m_param_len = 3, m_param = [1, 2, 255]\<rparr>
     \<and> length f = 19"
  using command_frame_roundtrip [of zero_driver "\<lparr>m_id = 5132, m_dest_id = 5, m_src_id = 100, m_param_len = 3, m_param = [1, 2, 255]\<rparr>" "- 5"]
  by (simp add: zero_driver_def CMD_BUF_MAX_def EIO_def)

section \<open>The worker\<close>

fun bus_frames :: "event list \<Rightarrow> u8 list list" where
  "bus_frames [] = []"
| "bus_frames (BusTx f # es) = f # bus_frames es"
| "bus_frames (_ # es) = bus_frames es"

lemma bus_frames_append [simp]: "bus_frames (es @ es') = bus_frames es @ bus_frames es'"
  by (induction es rule: bus_frames.induct) simp_all

abbreviation frame_of :: "driver \<Rightarrow> nat \<Rightarrow> u8 list" where
  "frame_of s p \<equiv> cmd_frame (c_a2e_msg (cmd_at s p)) (msg_len (c_a2e_msg (cmd_at s p)))"

definition deferred :: "driver \<Rightarrow> nat \<Rightarrow> bool" where
  "deferred s p \<longleftrightarrow> p < length (cmd_array s) \<and> flag_set (flags_of s p) RWNX_CMD_FLAG_WAIT_PUSH
     \<and> msg_ok (c_a2e_msg (cmd_at s p))"

lemma unlink_branch_run:
  assumes "\<not> locked s" and "cmds (mgr s) = p # ps" and "p \<notin> set ps"
  shows "\<exists>s'. unlink_branch p s = Some s' \<and> cmds (mgr s') = ps \<and> touch p s s' \<and> \<not> locked s'
     \<and> bus_frames (log s') = bus_frames (log s) \<and> usb_state s' = usb_state s"
  using assms by (auto simp: unlink_branch_def spin_lock_bh_def spin_unlock_bh_def list_del_def Let_def rwnx_cmd_free_def)

lemma task_round_run:
  assumes "\<not> locked s" and "cmds (mgr s) = p # ps" and "deferred s p" and "usb_state s \<noteq> USB_DOWN_ST"
    and "txres \<noteq> - EIO"
  shows "\<exists>s'. cmd_mgr_task_round txres s = Some (Some p, s') \<and> cmds (mgr s') = p # ps \<and> touch p s s' \<and> \<not> locked s'
     \<and> bus_frames (log s') = bus_frames (log s) @ [frame_of s p] \<and> usb_state s' = usb_state s"
  using assms
  by (simp add: cmd_mgr_task_round_def spin_lock_bh_def spin_unlock_bh_def task_next_def deferred_def Let_def
      set_cmd_tx_frame cmd_at_upd_cmd)


text \<open>Three commands that were queued behind each other with a forced deferral.\<close>

definition defer_send :: "u16 \<Rightarrow> driver \<Rightarrow> driver" where
  "defer_send i d = (case rwnx_send_msg1 0 True (i + 1) None True (demo_msg i) d of Some (_, d') \<Rightarrow> d' | None \<Rightarrow> d)"

definition defer_demo :: driver where
  "defer_demo = defer_send 12 (defer_send 8 (defer_send 4 (drv init_world)))"

lemma defer_demo_values:
  "cmds (mgr defer_demo) = [0, 1, 2]" "\<not> locked defer_demo" "usb_state defer_demo = USB_UP_ST"
  "length (cmd_array defer_demo) = 40" "map (c_a2e_msg \<circ> cmd_at defer_demo) [0, 1, 2] = map demo_msg [4, 8, 12]"
  "phase_list defer_demo [0, 1, 2] = [2, 2, 2]"
  by code_simp+


section \<open>Confirmations\<close>

definition matches :: "driver \<Rightarrow> ipc_e2a_msg \<Rightarrow> nat \<Rightarrow> bool" where
  "matches s msg p \<longleftrightarrow> c_reqid (cmd_at s p) = e_id msg \<and> flag_set (flags_of s p) RWNX_CMD_FLAG_WAIT_CFM"

lemma msgind_scan_skip:
  "\<forall>q \<in> set ps. \<not> matches s msg q \<Longrightarrow> msgind_scan cb msg (ps @ qs) s = msgind_scan cb msg qs s"
  by (induction ps) (auto simp: matches_def)

lemma msgind_hit_run:
  assumes "p < length (cmd_array s)" and "c_e2a_msg (cmd_at s p) = Some dst"
    and "e2a_copy_len msg \<le> length dst" and "e2a_copy_len msg \<le> length (e_param msg)"
    and "\<not> flag_set (flags_of s p) RWNX_CMD_FLAG_NONBLOCK" and "\<not> flag_set (flags_of s p) RWNX_CMD_FLAG_WAIT_ACK"
  shows "\<exists>s'. msgind_hit msg p s = Some s' \<and> touch p s s' \<and> mgr s' = mgr s \<and> locked s' = locked s
     \<and> c_e2a_msg (cmd_at s' p) = Some (take (e2a_copy_len msg) (e_param msg) @ drop (e2a_copy_len msg) dst)
     \<and> c_complete (cmd_at s' p) = Suc (c_complete (cmd_at s p)) \<and> c_result (cmd_at s' p) = 0
     \<and> \<not> flag_set (flags_of s' p) RWNX_CMD_FLAG_WAIT_CFM"
proof -
  define s1 where "s1 = upd_cmd p (\<lambda>c. c\<lparr>c_flags := flag_clear (c_flags c) RWNX_CMD_FLAG_WAIT_CFM\<rparr>) s"
  let ?new = "take (e2a_copy_len msg) (e_param msg) @ drop (e2a_copy_len msg) dst"
  have "\<exists>s2. msgind_copy msg p s1 = Some s2 \<and> touch p s s2 \<and> mgr s2 = mgr s \<and> locked s2 = locked s
      \<and> cmd_at s2 p = (cmd_at s1 p)\<lparr>c_e2a_msg := Some ?new\<rparr>"
    using assms(1-4) by (auto simp: s1_def msgind_copy_def memcpy_to_def cmd_at_upd_cmd)
  then obtain s2 where s2: "msgind_copy msg p s1 = Some s2" "touch p s s2" "mgr s2 = mgr s" "locked s2 = locked s"
      "cmd_at s2 p = (cmd_at s1 p)\<lparr>c_e2a_msg := Some ?new\<rparr>" by blast
  have at: "cmd_at s1 p = (cmd_at s p)\<lparr>c_flags := flag_clear (flags_of s p) RWNX_CMD_FLAG_WAIT_CFM\<rparr>"
    "p < length (cmd_array s2)"
    using assms(1) s2(2) by (simp_all add: s1_def cmd_at_upd_cmd touch_def)
  have "RWNX_CMD_FLAG_WAIT_CFM AND RWNX_CMD_FLAG_WAIT_ACK = 0" by (simp add: cmd_flag_defs)
  then have w: "RWNX_CMD_WAIT_COMPLETE (flags_of s2 p)"
    using assms(6) s2(5) at by (simp add: RWNX_CMD_WAIT_COMPLETE_def flag_simps)
  have "RWNX_CMD_WAIT_COMPLETE (flag_add (flags_of s2 p) RWNX_CMD_FLAG_DONE)"
    using w by (simp add: RWNX_CMD_WAIT_COMPLETE_def flag_simps) (simp add: cmd_flag_defs flag_set_def)
  then show ?thesis
    using w s2 at assms(5) unfolding msgind_hit_def s1_def [symmetric]
    by (simp add: cmd_complete_def Let_def cmd_at_upd_cmd complete_def flag_simps)
qed

lemma msgind_first_match:
  assumes "\<not> locked s" and "cmds (mgr s) = ps @ p # qs" and "\<forall>q \<in> set ps. \<not> matches s msg q" and "matches s msg p"
    and "p < length (cmd_array s)" and "c_e2a_msg (cmd_at s p) = Some dst"
    and "e2a_copy_len msg \<le> length dst" and "e2a_copy_len msg \<le> length (e_param msg)"
    and "\<not> flag_set (flags_of s p) RWNX_CMD_FLAG_NONBLOCK" and "\<not> flag_set (flags_of s p) RWNX_CMD_FLAG_WAIT_ACK"
    and "\<forall>f. cb = Some f \<longrightarrow> f (Some p) msg = 0"
  shows "\<exists>s'. cmd_mgr_msgind cb msg s = Some s' \<and> (\<forall>q. q \<noteq> p \<longrightarrow> cmd_at s' q = cmd_at s q) \<and> mgr s' = mgr s
     \<and> \<not> locked s'
     \<and> c_e2a_msg (cmd_at s' p) = Some (take (e2a_copy_len msg) (e_param msg) @ drop (e2a_copy_len msg) dst)
     \<and> c_complete (cmd_at s' p) = Suc (c_complete (cmd_at s p)) \<and> c_result (cmd_at s' p) = 0
     \<and> \<not> flag_set (flags_of s' p) RWNX_CMD_FLAG_WAIT_CFM"
proof -
  let ?l = "s\<lparr>locked := True\<rparr>"
  define s1 where "s1 = snd (cmd_mgr_run_callback cb (Some p) msg ?l)"
  have s1: "cmd_array s1 = cmd_array s" "mgr s1 = mgr s" "locked s1"
    by (simp_all add: s1_def cmd_mgr_run_callback_def split: option.split)
  obtain s2 where s2: "msgind_hit msg p s1 = Some s2" "touch p s1 s2" "mgr s2 = mgr s1" "locked s2 = locked s1"
    "c_e2a_msg (cmd_at s2 p) = Some (take (e2a_copy_len msg) (e_param msg) @ drop (e2a_copy_len msg) dst)"
    "c_complete (cmd_at s2 p) = Suc (c_complete (cmd_at s1 p))" "c_result (cmd_at s2 p) = 0"
    "\<not> flag_set (flags_of s2 p) RWNX_CMD_FLAG_WAIT_CFM"
    using msgind_hit_run [of p s1 dst msg] assms(5-10) s1 by auto
  have "cmd_mgr_run_callback cb (Some p) msg ?l = (0, s1)"
    using assms(11) by (auto simp: s1_def cmd_mgr_run_callback_def split: option.splits)
  then have "msgind_scan cb msg (p # qs) ?l = Some (True, s2)"
    using assms(4) s2(1) by (simp add: matches_def)
  moreover have "msgind_scan cb msg (ps @ p # qs) ?l = msgind_scan cb msg (p # qs) ?l"
    using assms(3) by (intro msgind_scan_skip) (simp add: matches_def)
  ultimately show ?thesis
    using assms(1,2) s1 s2 by (auto simp: cmd_mgr_msgind_def spin_lock_bh_def spin_unlock_bh_def touch_def)
qed

text \<open>
  C6: a confirmation goes to the first queued command that waits for it, in queue order.  Its payload, cut to 1024 bytes, is
  copied to the caller's structure, the wait for it is cleared, the result is 0 and the caller is woken once; no other
  command and nothing of the queue changes.
\<close>

theorem confirmation_reaches_first_match:
  assumes "\<not> locked s" and "cmds (mgr s) = ps @ p # qs" and "\<forall>q \<in> set ps. \<not> matches s msg q" and "matches s msg p"
    and "p < length (cmd_array s)" and "c_e2a_msg (cmd_at s p) = Some dst"
    and "e2a_copy_len msg \<le> length dst" and "e2a_copy_len msg \<le> length (e_param msg)"
    and "\<not> flag_set (flags_of s p) RWNX_CMD_FLAG_NONBLOCK" and "\<not> flag_set (flags_of s p) RWNX_CMD_FLAG_WAIT_ACK"
    and "\<forall>f. cb = Some f \<longrightarrow> f (Some p) msg = 0"
  shows "\<exists>s'. cmd_mgr_msgind cb msg s = Some s' \<and> (\<forall>q. q \<noteq> p \<longrightarrow> cmd_at s' q = cmd_at s q) \<and> mgr s' = mgr s
     \<and> \<not> locked s'
     \<and> c_e2a_msg (cmd_at s' p) = Some (take (e2a_copy_len msg) (e_param msg) @ drop (e2a_copy_len msg) dst)
     \<and> c_complete (cmd_at s' p) = Suc (c_complete (cmd_at s p)) \<and> c_result (cmd_at s' p) = 0
     \<and> \<not> flag_set (flags_of s' p) RWNX_CMD_FLAG_WAIT_CFM"
  by (rule msgind_first_match [OF assms])

text \<open>A command waits for its confirmation 5 with a structure of four bytes.\<close>

definition cfm_demo :: driver where
  "cfm_demo = (case rwnx_send_msg 0 True 5 (Some [0, 0, 0, 0]) (demo_msg 4) (drv init_world) of
     Some (_, d) \<Rightarrow> d | None \<Rightarrow> drv init_world)"

lemma cfm_demo_values:
  "cmds (mgr cfm_demo) = [0]" "\<not> locked cfm_demo" "length (cmd_array cfm_demo) = 40"
  "c_e2a_msg (cmd_at cfm_demo 0) = Some [0, 0, 0, 0]" "flags_of cfm_demo 0 = 18" "c_reqid (cmd_at cfm_demo 0) = 5"
  "c_complete (cmd_at cfm_demo 0) = 0"
  by code_simp+

theorem confirmation_reaches_first_match_witness:
  "\<exists>s'. cmd_mgr_msgind None \<lparr>e_id = 5, e_param_len = 2, e_param = [6, 7, 8]\<rparr> cfm_demo = Some s'
     \<and> c_e2a_msg (cmd_at s' 0) = Some [6, 7, 0, 0] \<and> c_complete (cmd_at s' 0) = 1"
proof -
  let ?m = "\<lparr>e_id = 5, e_param_len = 2, e_param = [6, 7, 8]\<rparr>"
  have "matches cfm_demo ?m 0" "e2a_copy_len ?m = 2"
    "\<not> flag_set (flags_of cfm_demo 0) RWNX_CMD_FLAG_NONBLOCK" "\<not> flag_set (flags_of cfm_demo 0) RWNX_CMD_FLAG_WAIT_ACK"
    by (simp_all add: matches_def cfm_demo_values flag_set_def cmd_flag_defs e2a_copy_len_def RWNX_CMD_E2AMSG_LEN_MAX_def)
  with confirmation_reaches_first_match [of cfm_demo "[]" 0 "[]" ?m "[0, 0, 0, 0]" None] show ?thesis
    by (auto simp: cfm_demo_values)
qed

section \<open>A crashed or drained manager\<close>

lemma send_is_queue:
  assumes "rwnx_cmd_malloc s = (Some p, s0)" and "usb_state s \<noteq> USB_DOWN_ST"
  obtains t where "rwnx_send_msg txres True reqid cfm msg s = map_option (after_queue p) (cmd_mgr_queue txres p t)"
    and "mgr t = mgr s" and "log t = log s" and "locked t = locked s" and "touch p s t"
    and "c_e2a_msg (cmd_at t p) = cfm" and "p < length (cmd_array t)"
proof -
  have p: "p < length (cmd_array s)" and s0: "s0 = upd_cmd p (\<lambda>c. c\<lparr>c_used := True\<rparr>) s"
    using assms first_unused_Some [of 0 "cmd_array s" p] by (auto simp: rwnx_cmd_malloc_def split: option.splits)
  show ?thesis
    by (rule that [of "upd_cmd p (fill_cmd True reqid cfm msg) s0"])
       (use assms p s0 in \<open>simp_all add: rwnx_send_msg_def cmd_at_upd_cmd fill_cmd_def\<close>)
qed

text \<open>
  Once a command has timed out the manager refuses every later one: a message without confirmation structure returns \<^verbatim>\<open>-EPIPE\<close>,
  nothing is transmitted, the queue is unchanged and the slot taken for the command is free again.
\<close>

theorem crashed_manager_refuses:
  assumes "state (mgr s) = RWNX_CMD_MGR_STATE_CRASHED" and "\<not> locked s" and "usb_state s \<noteq> USB_DOWN_ST"
    and "rwnx_cmd_malloc s = (Some p, s0)"
  shows "\<exists>s'. rwnx_send_msg txres True reqid None msg s = Some (Sent (- EPIPE), s') \<and> mgr s' = mgr s
     \<and> log s' = log s \<and> \<not> locked s' \<and> \<not> c_used (cmd_at s' p) \<and> (\<forall>q. q \<noteq> p \<longrightarrow> cmd_at s' q = cmd_at s q)"
proof -
  obtain t where t: "rwnx_send_msg txres True reqid None msg s = map_option (after_queue p) (cmd_mgr_queue txres p t)"
    "mgr t = mgr s" "log t = log s" "locked t = locked s" "touch p s t" "c_e2a_msg (cmd_at t p) = None"
    "p < length (cmd_array t)"
    by (rule send_is_queue [OF assms(4,3)])
  then show ?thesis
    using assms by (simp add: cmd_mgr_queue_def cmd_mgr_queue_poll_def cmd_mgr_queue_body_def spin_lock_bh_def
        spin_unlock_bh_def after_queue_def rwnx_cmd_free_def EPIPE_def cmd_at_upd_cmd touch_def)
qed

text \<open>
  A message with a confirmation structure that is sent to a crashed manager leaves the polling loop without the lock
  and releases it: a fault.
\<close>

theorem crashed_send_with_cfm_faults:
  assumes "state (mgr s) = RWNX_CMD_MGR_STATE_CRASHED" and "\<not> locked s" and "usb_state s \<noteq> USB_DOWN_ST"
    and "rwnx_cmd_malloc s = (Some p, s0)"
  shows "rwnx_send_msg txres True reqid (Some cfm) msg s = None"
proof -
  obtain t where t: "rwnx_send_msg txres True reqid (Some cfm) msg s = map_option (after_queue p) (cmd_mgr_queue txres p t)"
    "mgr t = mgr s" "log t = log s" "locked t = locked s" "touch p s t" "c_e2a_msg (cmd_at t p) = Some cfm"
    "p < length (cmd_array t)"
    by (rule send_is_queue [OF assms(4,3)])
  then show ?thesis
    using assms by (simp add: cmd_mgr_queue_def cmd_mgr_queue_poll_def cmd_mgr_queue_body_def spin_unlock_bh_def)
qed

lemma drain_loop_run:
  "distinct ps \<Longrightarrow> cmds (mgr s) = ps \<Longrightarrow>
    \<exists>s'. drain_loop ps s = Some s' \<and> cmds (mgr s') = [] \<and> locked s' = locked s \<and> queue_sz (mgr s') = queue_sz (mgr s)"
proof (induction ps arbitrary: s)
  case (Cons p ps)
  let ?s1 = "upd_mgr (\<lambda>m. m\<lparr>cmds := ps\<rparr>) s"
  have d: "list_del p s = Some ?s1"
    using Cons.prems by (simp add: list_del_def upd_mgr_def)
  let ?s2 = "if \<not> flag_set (flags_of ?s1 p) RWNX_CMD_FLAG_NONBLOCK then complete p ?s1 else ?s1"
  have "cmds (mgr ?s2) = ps" "locked ?s2 = locked s" "queue_sz (mgr ?s2) = queue_sz (mgr s)"
    by (simp_all add: complete_def)
  then show ?case
    using Cons.IH [of ?s2] Cons.prems d by simp
qed simp

text \<open>
  \<^verbatim>\<open>cmd_mgr_drain\<close> unlinks every command and wakes its caller, which then unlinks the command a second time: a
  fault.  It leaves \<^verbatim>\<open>queue_sz\<close> at its old value.
\<close>

theorem drained_waiter_faults:
  assumes "\<not> locked s" and "distinct (cmds (mgr s))"
  shows "\<exists>s'. cmd_mgr_drain s = Some s' \<and> queue_sz (mgr s') = queue_sz (mgr s) \<and> cmds (mgr s') = []
     \<and> cmd_mgr_queue_wake Completed p s' = None"
proof -
  obtain s1 where "drain_loop (cmds (mgr s)) (s\<lparr>locked := True\<rparr>) = Some s1" "cmds (mgr s1) = []" "locked s1"
      "queue_sz (mgr s1) = queue_sz (mgr s)"
    using drain_loop_run [of "cmds (mgr s)" "s\<lparr>locked := True\<rparr>"] assms(2) by auto
  then show ?thesis
    using assms(1) by (simp add: cmd_mgr_drain_def spin_lock_bh_def spin_unlock_bh_def cmd_mgr_queue_wake_def
        unlink_branch_def list_del_def)
qed

definition crash_demo :: driver where
  "crash_demo = (case cmd_mgr_queue_wake TimedOut 0 cfm_demo of Some (_, d) \<Rightarrow> d | None \<Rightarrow> cfm_demo)"

lemma crash_demo_values:
  "state (mgr crash_demo) = RWNX_CMD_MGR_STATE_CRASHED" "\<not> locked crash_demo" "usb_state crash_demo = USB_UP_ST"
  "fst (rwnx_cmd_malloc crash_demo) = Some 1"
  by code_simp+

lemma crash_demo_malloc: "rwnx_cmd_malloc crash_demo = (Some 1, snd (rwnx_cmd_malloc crash_demo))"
  using crash_demo_values(4) by (metis prod.collapse)

theorem crashed_manager_refuses_witness:
  "\<exists>s'. rwnx_send_msg 0 True 9 None (demo_msg 8) crash_demo = Some (Sent (- 32), s') \<and> log s' = log crash_demo"
  using crashed_manager_refuses [OF crash_demo_values(1,2) _ crash_demo_malloc, of 0 9 "demo_msg 8"] crash_demo_values(3)
  by (auto simp: EPIPE_def)

theorem crashed_send_with_cfm_faults_witness:
  "rwnx_send_msg 0 True 9 (Some [0]) (demo_msg 8) crash_demo = None"
  using crashed_send_with_cfm_faults [OF crash_demo_values(1,2) _ crash_demo_malloc, of 0 9 "[0]" "demo_msg 8"]
    crash_demo_values(3) by simp

theorem drained_waiter_faults_witness:
  "\<exists>s'. cmd_mgr_drain cfm_demo = Some s' \<and> cmd_mgr_queue_wake Completed 0 s' = None"
  using drained_waiter_faults [of cfm_demo 0] cfm_demo_values by auto

end
