(* ===== verification/Tcp_Ack.thy ===== *)
theory Tcp_Ack
  imports Aic_Prelude "HOL-Library.Multiset"
begin

text \<open>
  The TCP acknowledgement filter (\<^verbatim>\<open>aicwf_tcp_ack.c\<close>, \<^verbatim>\<open>aicwf_tcp_ack.h\<close>).  For each of up to 32 TCP
  connections the filter keeps back pure acknowledgements: a newer one replaces the one that is held, and the held one is
  transmitted by a timer or when enough of them were replaced.

  A message buffer is a number.  The buffers that the filter frees and those that its timer hands to \<^verbatim>\<open>intf_tx\<close>
  are recorded in \<open>dropped\<close> and \<open>sent\<close>.  Packets are byte lists; a read past the end of the packet is \<open>None\<close>.
  \<^verbatim>\<open>jiffies\<close> is the argument \<open>now\<close>; \<open>m2j\<close> is the kernel's \<^verbatim>\<open>msecs_to_jiffies\<close>.  The sequence locks and the spin lock
  enclose each access, and an operation is one atomic step.
\<close>

section \<open>Data (\<^verbatim>\<open>aicwf_tcp_ack.h\<close>)\<close>

definition TCP_ACK_NUM :: nat where "TCP_ACK_NUM = 32"
definition TCP_ACK_DROP_CNT :: int where "TCP_ACK_DROP_CNT = 10"
definition ACK_OLD_TIME :: nat where "ACK_OLD_TIME = 4000"
definition MAX_TCP_ACK :: u32 where "MAX_TCP_ACK = 200"
definition MIN_WIN :: u32 where "MIN_WIN = 256"
definition SIZE_KB :: u32 where "SIZE_KB = 1024"

definition U32_BEFORE :: "u32 \<Rightarrow> u32 \<Rightarrow> bool" where
  "U32_BEFORE a b \<longleftrightarrow> sint (a - b) \<le> 0"

definition time_after :: "u64 \<Rightarrow> u64 \<Rightarrow> bool" where
  "time_after a b \<longleftrightarrow> sint (b - a) < 0"

record tcp_ack_msg =
  source :: u16
  dest :: u16
  saddr :: u32
  daddr :: u32
  seq :: u32
  win :: u16

record tcp_ack_info =
  ack_info_num :: nat
  busy :: bool
  drop_cnt :: int
  psh_flag :: bool
  psh_seq :: u32
  win_scale :: u16
  last_time :: u64
  timeout :: u64
  timer :: "u64 option"
  msgbuf :: "nat option"
  in_send_msg :: "nat option"
  ack_msg :: tcp_ack_msg

record tcp_ack_manage =
  enable :: bool
  max_num :: int
  free_index :: int
  m_last_time :: u64
  m_timeout :: u64
  max_drop_cnt :: int
  ack_info :: "tcp_ack_info list"
  ack_winsize :: u32
  dropped :: "nat list"
  sent :: "nat list"

definition upd_info :: "nat \<Rightarrow> (tcp_ack_info \<Rightarrow> tcp_ack_info) \<Rightarrow> tcp_ack_manage \<Rightarrow> tcp_ack_manage" where
  "upd_info i f m = m\<lparr>ack_info := (ack_info m)[i := f (ack_info m ! i)]\<rparr>"

section \<open>Timer, initialisation and release\<close>

definition intf_tcp_drop_msg :: "nat \<Rightarrow> tcp_ack_manage \<Rightarrow> tcp_ack_manage" where
  "intf_tcp_drop_msg b m = m\<lparr>dropped := dropped m @ [b]\<rparr>"

definition drop_opt :: "nat option \<Rightarrow> tcp_ack_manage \<Rightarrow> tcp_ack_manage" where
  "drop_opt b m = (case b of None \<Rightarrow> m | Some b \<Rightarrow> intf_tcp_drop_msg b m)"

text \<open>The timer of entry \<open>i\<close> runs; it is no longer pending then.\<close>

definition tcp_ack_timeout :: "nat \<Rightarrow> tcp_ack_manage \<Rightarrow> tcp_ack_manage" where
  "tcp_ack_timeout i m0 =
    (let m = upd_info i (\<lambda>a. a\<lparr>timer := None\<rparr>) m0; a = ack_info m ! i in
     case msgbuf a of None \<Rightarrow> m
     | Some msg \<Rightarrow>
        if busy a \<and> in_send_msg a = None
        then (upd_info i (\<lambda>a. a\<lparr>msgbuf := None, drop_cnt := 0, in_send_msg := Some msg\<rparr>) m)\<lparr>sent := sent m @ [msg]\<rparr>
        else m)"

definition tcp_ack_init :: "(nat \<Rightarrow> u64) \<Rightarrow> u64 \<Rightarrow> tcp_ack_manage" where
  "tcp_ack_init m2j now = \<lparr>enable = True, max_num = 0, free_index = 0, m_last_time = now,
     m_timeout = m2j ACK_OLD_TIME, max_drop_cnt = TCP_ACK_DROP_CNT,
     ack_info = map (\<lambda>i. \<lparr>ack_info_num = i, busy = False, drop_cnt = 0, psh_flag = False, psh_seq = 0,
         win_scale = 0, last_time = now, timeout = m2j ACK_OLD_TIME, timer = None, msgbuf = None,
         in_send_msg = None,
         ack_msg = \<lparr>source = 0, dest = 0, saddr = 0, daddr = 0, seq = 0, win = 0\<rparr>\<rparr>) [0..<TCP_ACK_NUM],
     ack_winsize = MIN_WIN, dropped = [], sent = []\<rparr>"

definition deinit_entry :: "tcp_ack_manage \<Rightarrow> nat \<Rightarrow> tcp_ack_manage" where
  "deinit_entry m i = drop_opt (msgbuf (ack_info m ! i)) (upd_info i (\<lambda>a. a\<lparr>timer := None, msgbuf := None\<rparr>) m)"

definition tcp_ack_deinit :: "tcp_ack_manage \<Rightarrow> tcp_ack_manage" where
  "tcp_ack_deinit m = foldl deinit_entry (m\<lparr>enable := False\<rparr>) [0..<TCP_ACK_NUM]"

section \<open>Packet inspection\<close>

text \<open>Ethernet header of 14 bytes, IP header behind it: \<open>Some None\<close> is the early return for other traffic.\<close>

definition tcp_offset :: "u8 list \<Rightarrow> nat option option" where
  "tcp_offset buf = do {
     proto \<leftarrow> rd16_be buf 12;
     if proto \<noteq> 0x0800 then Some None else do {
       vihl \<leftarrow> rd buf 14;
       if drop_bit 4 vihl \<noteq> 4 then Some None else do {
         p \<leftarrow> rd buf 23;
         if p \<noteq> 6 then Some None else do {
           let off = 14 + 4 * unat (vihl AND 15);
           flags \<leftarrow> rd buf (off + 13);
           Some (if flags AND 0x10 = 0 then None else Some off) } } } }"

definition tcp_check_quick_ack :: "u8 list \<Rightarrow> tcp_ack_msg option option" where
  "tcp_check_quick_ack buf = do {
     r \<leftarrow> tcp_offset buf;
     (case r of None \<Rightarrow> Some None
      | Some off \<Rightarrow> do {
          flags \<leftarrow> rd buf (off + 13);
          if flags AND 0x8 = 0 then Some None else do {
            da \<leftarrow> rd32 buf 30; sa \<leftarrow> rd32 buf 26;
            de \<leftarrow> rd16 buf (off + 2); so \<leftarrow> rd16 buf off;
            sq \<leftarrow> rd32_be buf (off + 4);
            Some (Some \<lparr>source = de, dest = so, saddr = da, daddr = sa, seq = sq, win = 0\<rparr>) } }) }"

definition TCPOPT_EOL :: u8 where "TCPOPT_EOL = 0"
definition TCPOPT_NOP :: u8 where "TCPOPT_NOP = 1"
definition TCPOPT_WINDOW :: u8 where "TCPOPT_WINDOW = 3"
definition TCPOPT_TIMESTAMP :: u8 where "TCPOPT_TIMESTAMP = 8"

text \<open>
  The option loop.  \<open>ptr\<close> is the memory from the pointer to the end of the packet.  The \<^verbatim>\<open>break\<close> for an end-of-list
  option, a size below 2 or a size beyond \<open>len\<close> leaves the \<^verbatim>\<open>switch\<close> and not the loop: \<open>len\<close> stays and the
  loop goes on with the next byte.
\<close>

function opt_loop :: "u8 list \<Rightarrow> int \<Rightarrow> int \<Rightarrow> u16 \<Rightarrow> (int \<times> u16) option" where
  "opt_loop ptr len dv ws =
    (if \<not> (len > 0 \<and> dv \<noteq> 0) then Some (dv, ws)
     else (case ptr of [] \<Rightarrow> None
       | opcode # ptr1 \<Rightarrow>
          if opcode = TCPOPT_EOL then opt_loop ptr1 len dv ws
          else if opcode = TCPOPT_NOP then opt_loop ptr1 (len - 1) dv ws
          else (case ptr1 of [] \<Rightarrow> None
            | opsize # ptr2 \<Rightarrow>
               if uint opsize < 2 \<or> uint opsize > len then opt_loop ptr2 len dv ws
               else if opcode = TCPOPT_TIMESTAMP
               then opt_loop (drop (unat opsize - 2) ptr2) (len - uint opsize) dv ws
               else if opcode = TCPOPT_WINDOW
               then (case ptr2 of [] \<Rightarrow> None
                 | x # _ \<Rightarrow> opt_loop (drop (unat opsize - 2) ptr2) (len - uint opsize) dv
                     (if x < 15 then push_bit (unat x) 1 else ws))
               else opt_loop (drop (unat opsize - 2) ptr2) (len - uint opsize) 2 ws)))"
  by pat_completeness auto
termination by (relation "measure (length \<circ> fst)") auto

declare opt_loop.simps [simp del]

definition is_drop_tcp_ack :: "u8 list \<Rightarrow> int \<Rightarrow> u16 \<Rightarrow> (int \<times> u16) option" where
  "is_drop_tcp_ack tcphdr tcp_tot_len ws = do {
     d \<leftarrow> rd tcphdr 12;
     let len = 4 * uint (drop_bit 4 d);
     if tcp_tot_len > len then Some (0, ws)
     else opt_loop (drop 20 tcphdr) (len - 20) 1 ws }"

definition tcp_check_ack :: "u8 list \<Rightarrow> u16 \<Rightarrow> (int \<times> tcp_ack_msg option \<times> u16) option" where
  "tcp_check_ack buf ws0 = do {
     r \<leftarrow> tcp_offset buf;
     (case r of None \<Rightarrow> Some (0, None, ws0)
      | Some off \<Rightarrow> do {
          tot \<leftarrow> rd16_be buf 16;
          (ret, ws) \<leftarrow> is_drop_tcp_ack (drop off buf) (uint tot - (int off - 14)) ws0;
          if ret > 0 then do {
            sa \<leftarrow> rd32 buf 26; da \<leftarrow> rd32 buf 30;
            so \<leftarrow> rd16 buf off; de \<leftarrow> rd16 buf (off + 2);
            sq \<leftarrow> rd32_be buf (off + 8); w \<leftarrow> rd16_be buf (off + 14);
            Some (ret, Some \<lparr>source = so, dest = de, saddr = sa, daddr = da, seq = sq, win = w\<rparr>, ws) }
          else Some (ret, None, ws) }) }"

section \<open>The connection table\<close>

definition same_flow :: "tcp_ack_msg \<Rightarrow> tcp_ack_info \<Rightarrow> bool" where
  "same_flow k a \<longleftrightarrow> busy a \<and> dest (ack_msg a) = dest k \<and> source (ack_msg a) = source k
     \<and> saddr (ack_msg a) = saddr k \<and> daddr (ack_msg a) = daddr k"

fun first_index :: "('a \<Rightarrow> bool) \<Rightarrow> nat \<Rightarrow> 'a list \<Rightarrow> int" where
  "first_index P i [] = -1"
| "first_index P i (x # xs) = (if P x then int i else first_index P (Suc i) xs)"

definition tcp_ack_match :: "tcp_ack_manage \<Rightarrow> tcp_ack_msg \<Rightarrow> int" where
  "tcp_ack_match m k = first_index (same_flow k) 0 (ack_info m)"

definition update_entry :: "u64 \<Rightarrow> tcp_ack_manage \<Rightarrow> nat \<Rightarrow> tcp_ack_manage" where
  "update_entry now m i =
    (let a = ack_info m ! i in
     if busy a \<and> time_after now (last_time a + timeout a)
     then (upd_info i (\<lambda>a. a\<lparr>busy := False\<rparr>) m)\<lparr>free_index := int i, max_num := max_num m - 1\<rparr>
     else m)"

definition tcp_ack_update :: "u64 \<Rightarrow> tcp_ack_manage \<Rightarrow> tcp_ack_manage" where
  "tcp_ack_update now m =
    (if time_after now (m_last_time m + m_timeout m)
     then foldl (update_entry now) (m\<lparr>m_last_time := now\<rparr>) (rev [0..<TCP_ACK_NUM])
     else m)"

definition tcp_ack_alloc_index :: "tcp_ack_manage \<Rightarrow> int \<times> tcp_ack_manage" where
  "tcp_ack_alloc_index m =
    (if max_num m = int TCP_ACK_NUM then (-1, m)
     else if free_index m \<ge> 0 then (free_index m, m\<lparr>free_index := -1, max_num := max_num m + 1\<rparr>)
     else (let i = first_index (\<lambda>a. \<not> busy a) 0 (ack_info m) in
       if i \<ge> 0 then (i, m\<lparr>free_index := -1, max_num := max_num m + 1\<rparr>) else (-1, m)))"

section \<open>Handling one acknowledgement\<close>

text \<open>
  \<^verbatim>\<open>tcp_ack_handle_new\<close>: the lines inside the lock, as a function on the entry; the result is the return value, the
  buffer to drop and the new entry.  The argument \<^verbatim>\<open>type\<close> is not used.
\<close>

definition handle_push :: "(nat \<Rightarrow> u64) \<Rightarrow> u64 \<Rightarrow> int \<Rightarrow> nat \<Rightarrow> bool \<Rightarrow> tcp_ack_info \<Rightarrow> int \<times> tcp_ack_info" where
  "handle_push m2j now maxd new quick a =
    (if quick \<or> (in_send_msg a = None \<and> drop_cnt a \<ge> maxd)
     then (0, a\<lparr>drop_cnt := 0, in_send_msg := Some new, timer := None\<rparr>)
     else (1, a\<lparr>msgbuf := Some new, timer := (if timer a = None then Some (now + m2j 5) else timer a)\<rparr>))"

definition psh_due :: "tcp_ack_info \<Rightarrow> u32 \<Rightarrow> bool" where
  "psh_due a s \<longleftrightarrow> psh_flag a \<and> \<not> U32_BEFORE s (psh_seq a)"

definition set_seq :: "u32 \<Rightarrow> tcp_ack_info \<Rightarrow> tcp_ack_info" where
  "set_seq s a = a\<lparr>ack_msg := (ack_msg a)\<lparr>seq := s\<rparr>\<rparr>"

definition handle_entry :: "(nat \<Rightarrow> u64) \<Rightarrow> u64 \<Rightarrow> int \<Rightarrow> nat \<Rightarrow> tcp_ack_msg \<Rightarrow> tcp_ack_info
    \<Rightarrow> int \<times> nat option \<times> tcp_ack_info" where
  "handle_entry m2j now maxd new k a0 =
    (let a = a0\<lparr>last_time := now\<rparr> in
     if U32_BEFORE (seq (ack_msg a)) (seq k) then
       (let quick = psh_due a (seq k);
            a1 = a\<lparr>msgbuf := None\<rparr>;
            a2 = (if quick then a1\<lparr>psh_flag := False\<rparr> else a1\<lparr>drop_cnt := drop_cnt a1 + 1\<rparr>);
            (ret, a3) = handle_push m2j now maxd new quick (set_seq (seq k) a2)
        in (ret, msgbuf a, a3))
     else (1, Some new, a))"

definition tcp_ack_handle_new :: "(nat \<Rightarrow> u64) \<Rightarrow> u64 \<Rightarrow> nat \<Rightarrow> nat \<Rightarrow> tcp_ack_msg \<Rightarrow> tcp_ack_manage
    \<Rightarrow> int \<times> tcp_ack_manage" where
  "tcp_ack_handle_new m2j now new i k m =
    (case handle_entry m2j now (max_drop_cnt m) new k (ack_info m ! i) of
       (ret, dm, a) \<Rightarrow> (ret, drop_opt dm (upd_info i (\<lambda>_. a) m)))"

text \<open>\<^verbatim>\<open>tcp_ack_handle\<close>, the older variant that honours \<^verbatim>\<open>type\<close>; nothing calls it.\<close>

definition handle_other :: "int \<Rightarrow> nat \<Rightarrow> tcp_ack_msg \<Rightarrow> tcp_ack_info \<Rightarrow> int \<times> nat option \<times> tcp_ack_info" where
  "handle_other maxd new k a =
    (if U32_BEFORE (seq (ack_msg a)) (seq k) then
       (let a1 = set_seq (seq k) a;
            a2 = (if psh_due a1 (seq k) then a1\<lparr>psh_flag := False\<rparr> else a1);
            a3 = (if msgbuf a2 \<noteq> None then a2\<lparr>msgbuf := None, timer := None\<rparr> else a2)
        in (0, msgbuf a, a3\<lparr>in_send_msg := None, drop_cnt := maxd\<rparr>))
     else (1, Some new, a))"

definition tcp_ack_handle :: "(nat \<Rightarrow> u64) \<Rightarrow> u64 \<Rightarrow> nat \<Rightarrow> nat \<Rightarrow> tcp_ack_msg \<Rightarrow> int \<Rightarrow> tcp_ack_manage
    \<Rightarrow> int \<times> tcp_ack_manage" where
  "tcp_ack_handle m2j now new i k type m =
    (case (if type = 2 then handle_other (max_drop_cnt m) new k ((ack_info m ! i)\<lparr>last_time := now\<rparr>)
           else handle_entry m2j now (max_drop_cnt m) new k (ack_info m ! i)) of
       (ret, dm, a) \<Rightarrow> (ret, drop_opt dm (upd_info i (\<lambda>_. a) m)))"

definition filter_rx_tcp_ack :: "u8 list \<Rightarrow> u32 \<Rightarrow> tcp_ack_manage \<Rightarrow> tcp_ack_manage option" where
  "filter_rx_tcp_ack buf plen m =
    (if \<not> enable m \<or> plen > MAX_TCP_ACK then Some m
     else do {
       r \<leftarrow> tcp_check_quick_ack buf;
       Some (case r of None \<Rightarrow> m
         | Some k \<Rightarrow> (let index = tcp_ack_match m k in
             if index \<ge> 0 then upd_info (nat index) (\<lambda>a. a\<lparr>psh_flag := True, psh_seq := seq k\<rparr>) m else m)) })"

definition new_entry :: "u64 \<Rightarrow> int \<Rightarrow> u16 \<Rightarrow> tcp_ack_msg \<Rightarrow> tcp_ack_info \<Rightarrow> tcp_ack_info" where
  "new_entry now maxd ws k a = a\<lparr>busy := True, psh_flag := False, last_time := now, drop_cnt := maxd,
     win_scale := (if ws \<noteq> 0 then ws else 1),
     ack_msg := (ack_msg a)\<lparr>dest := dest k, source := source k, saddr := saddr k, daddr := daddr k, seq := seq k\<rparr>\<rparr>"

text \<open>
  The window test of \<^verbatim>\<open>filter_send_tcp_ack\<close> only changes the \<^verbatim>\<open>type\<close> argument, which \<^verbatim>\<open>tcp_ack_handle_new\<close> ignores: the
  test computes \<^verbatim>\<open>win\<close> and has no other effect.  A packet for which \<^verbatim>\<open>tcp_check_ack\<close> returns 0 leaves the window
  scale 0, so the guard of the early return is that no message was filled in.
\<close>

definition filter_match :: "(nat \<Rightarrow> u64) \<Rightarrow> u64 \<Rightarrow> nat \<Rightarrow> nat \<Rightarrow> int \<Rightarrow> tcp_ack_msg \<Rightarrow> u16 \<Rightarrow> tcp_ack_manage
    \<Rightarrow> int \<times> tcp_ack_manage" where
  "filter_match m2j now new i dv k ws m =
    (let m1 = (if ws \<noteq> 0 \<and> win_scale (ack_info m ! i) \<noteq> ws then upd_info i (\<lambda>a. a\<lparr>win_scale := ws\<rparr>) m else m)
     in if dv > 0 \<and> enable m1 then tcp_ack_handle_new m2j now new i k m1 else (0, m1))"

definition filter_alloc :: "u64 \<Rightarrow> tcp_ack_msg \<Rightarrow> u16 \<Rightarrow> tcp_ack_manage \<Rightarrow> tcp_ack_manage" where
  "filter_alloc now k ws m =
    (case tcp_ack_alloc_index m of (index, m1) \<Rightarrow>
       if index \<ge> 0 then upd_info (nat index) (new_entry now (max_drop_cnt m1) ws k) m1 else m1)"

definition filter_send_tcp_ack :: "(nat \<Rightarrow> u64) \<Rightarrow> u64 \<Rightarrow> nat \<Rightarrow> u8 list \<Rightarrow> tcp_ack_manage
    \<Rightarrow> (int \<times> tcp_ack_manage) option" where
  "filter_send_tcp_ack m2j now new buf m0 =
    (let m = tcp_ack_update now m0 in do {
       (dv, msg, ws) \<leftarrow> tcp_check_ack buf 0;
       (case msg of None \<Rightarrow> Some (0, m)
        | Some k \<Rightarrow>
           (let index = tcp_ack_match m k in
            Some (if index \<ge> 0 then filter_match m2j now new (nat index) dv k ws m
                  else (0, filter_alloc now k ws m)))) })"

definition move_entry :: "nat \<Rightarrow> tcp_ack_info \<Rightarrow> tcp_ack_info" where
  "move_entry msg a = (if busy a \<and> in_send_msg a = Some msg then a\<lparr>in_send_msg := None\<rparr> else a)"

definition move_tcpack_msg :: "nat \<Rightarrow> tcp_ack_manage \<Rightarrow> tcp_ack_manage" where
  "move_tcpack_msg msg m = (if \<not> enable m then m else m\<lparr>ack_info := map (move_entry msg) (ack_info m)\<rparr>)"

section \<open>Proofs: entries and the table\<close>

lemma upd_info_sel [simp]:
  "enable (upd_info i f m) = enable m" "max_num (upd_info i f m) = max_num m" "free_index (upd_info i f m) = free_index m"
  "max_drop_cnt (upd_info i f m) = max_drop_cnt m" "dropped (upd_info i f m) = dropped m" "sent (upd_info i f m) = sent m"
  "length (ack_info (upd_info i f m)) = length (ack_info m)"
  "ack_info (upd_info i f m) = (ack_info m)[i := f (ack_info m ! i)]"
  by (simp_all add: upd_info_def)

lemma drop_opt_sel [simp]:
  "enable (drop_opt b m) = enable m" "max_num (drop_opt b m) = max_num m" "free_index (drop_opt b m) = free_index m"
  "max_drop_cnt (drop_opt b m) = max_drop_cnt m" "sent (drop_opt b m) = sent m" "ack_info (drop_opt b m) = ack_info m"
  "dropped (drop_opt b m) = dropped m @ (case b of None \<Rightarrow> [] | Some x \<Rightarrow> [x])"
  by (simp_all add: drop_opt_def intf_tcp_drop_msg_def split: option.split)

lemma first_index_cases:
  "(first_index P i xs = -1 \<and> (\<forall>x \<in> set xs. \<not> P x))
   \<or> (\<exists>j < length xs. first_index P i xs = int (i + j) \<and> P (xs ! j) \<and> (\<forall>k < j. \<not> P (xs ! k)))"
proof (induction xs arbitrary: i)
  case (Cons x xs)
  show ?case
  proof (cases "P x")
    case False
    from Cons [of "Suc i"] show ?thesis
    proof
      assume "\<exists>j < length xs. first_index P (Suc i) xs = int (Suc i + j) \<and> P (xs ! j) \<and> (\<forall>k < j. \<not> P (xs ! k))"
      then obtain j where "j < length xs" "first_index P (Suc i) xs = int (Suc i + j)" "P (xs ! j)" "\<forall>k < j. \<not> P (xs ! k)"
        by blast
      with False show ?thesis
        by (intro disjI2 exI [of _ "Suc j"]) (auto simp: less_Suc_eq_0_disj nth_Cons')
    qed (use False in simp)
  qed auto
qed simp

text \<open>The number of busy entries and the list of held buffers, under an update of one entry.\<close>

definition busy_count :: "tcp_ack_info list \<Rightarrow> int" where
  "busy_count as = int (length (filter busy as))"

definition held :: "tcp_ack_info list \<Rightarrow> nat multiset" where
  "held as = (\<Sum>a \<in># mset as. case msgbuf a of None \<Rightarrow> {#} | Some b \<Rightarrow> {#b#})"

definition opt_mset :: "'a option \<Rightarrow> 'a multiset" where
  "opt_mset b = (case b of None \<Rightarrow> {#} | Some x \<Rightarrow> {#x#})"

lemma opt_mset_simps [simp]: "opt_mset None = {#}" "opt_mset (Some x) = {#x#}"
  by (simp_all add: opt_mset_def)

lemma busy_count_simps [simp]:
  "busy_count [] = 0" "busy_count (a # as) = of_bool (busy a) + busy_count as"
  by (simp_all add: busy_count_def)

lemma busy_count_update:
  "i < length as \<Longrightarrow> busy_count (as[i := a]) = busy_count as - of_bool (busy (as ! i)) + of_bool (busy a)"
  by (induction as arbitrary: i) (auto split: nat.split)

lemma held_update:
  "i < length as \<Longrightarrow> held (as[i := a]) + opt_mset (msgbuf (as ! i)) = held as + opt_mset (msgbuf a)"
proof (induction as arbitrary: i)
  case (Cons b as)
  show ?case
  proof (cases i)
    case 0
    then show ?thesis by (simp add: held_def opt_mset_def ac_simps)
  next
    case (Suc j)
    with Cons.prems Cons.IH [of j] show ?thesis
      by (simp add: held_def ac_simps)
  qed
qed simp

lemma busy_count_le: "busy_count as \<le> int (length as)"
  by (simp add: busy_count_def)

lemma busy_count_full: "busy_count as = int (length as) \<longleftrightarrow> (\<forall>a \<in> set as. busy a)"
proof (induction as)
  case (Cons a as)
  then show ?case using busy_count_le [of as] by (cases "busy a") auto
qed simp

lemma busy_count_move [simp]: "busy_count (map (move_entry msg) as) = busy_count as"
  by (induction as) (simp_all add: move_entry_def)

lemma held_move [simp]: "held (map (move_entry msg) as) = held as"
  by (induction as) (simp_all add: held_def move_entry_def)

section \<open>Invariant of the table\<close>

definition tcp_inv :: "tcp_ack_manage \<Rightarrow> bool" where
  "tcp_inv m \<longleftrightarrow> length (ack_info m) = TCP_ACK_NUM \<and> max_num m = busy_count (ack_info m)
     \<and> -1 \<le> free_index m \<and> free_index m < int TCP_ACK_NUM
     \<and> (0 \<le> free_index m \<longrightarrow> \<not> busy (ack_info m ! nat (free_index m)))"

text \<open>The buffers that the filter answers for: held, freed, or handed to the transmit path by the timer.\<close>

definition owned :: "tcp_ack_manage \<Rightarrow> nat multiset" where
  "owned m = held (ack_info m) + mset (dropped m) + mset (sent m)"

lemma tcp_inv_upd:
  assumes "tcp_inv m" and "i < TCP_ACK_NUM" and "busy (f (ack_info m ! i)) = busy (ack_info m ! i)"
  shows "tcp_inv (upd_info i f m)"
  using assms by (auto simp: tcp_inv_def busy_count_update nth_list_update)

lemma tcp_inv_drop [simp]: "tcp_inv (drop_opt b m) = tcp_inv m"
  by (simp add: tcp_inv_def)

lemma owned_upd:
  assumes "i < length (ack_info m)"
  shows "owned (upd_info i f m) + opt_mset (msgbuf (ack_info m ! i)) = owned m + opt_mset (msgbuf (f (ack_info m ! i)))"
  using held_update [OF assms, of "f (ack_info m ! i)"] by (simp add: owned_def ac_simps)

lemma owned_upd_same:
  assumes "i < length (ack_info m)" and "msgbuf (f (ack_info m ! i)) = msgbuf (ack_info m ! i)"
  shows "owned (upd_info i f m) = owned m"
  using owned_upd [OF assms(1), of f] assms(2) by simp

lemma owned_drop [simp]: "owned (drop_opt b m) = owned m + opt_mset b"
  by (cases b) (simp_all add: owned_def)

lemma owned_cong: "ack_info m' = ack_info m \<Longrightarrow> dropped m' = dropped m \<Longrightarrow> sent m' = sent m \<Longrightarrow> owned m' = owned m"
  by (simp add: owned_def)

lemma match_bounds:
  "length (ack_info m) = TCP_ACK_NUM \<Longrightarrow> 0 \<le> tcp_ack_match m k \<Longrightarrow> nat (tcp_ack_match m k) < TCP_ACK_NUM
     \<and> same_flow k (ack_info m ! nat (tcp_ack_match m k))"
  using first_index_cases [of "same_flow k" 0 "ack_info m"] by (auto simp: tcp_ack_match_def)

lemma timeout_ok:
  assumes "tcp_inv m" and "i < TCP_ACK_NUM"
  shows "tcp_inv (tcp_ack_timeout i m)" "owned (tcp_ack_timeout i m) = owned m"
proof -
  let ?m = "upd_info i (\<lambda>a. a\<lparr>timer := None\<rparr>) m"
  have i: "i < length (ack_info m)" using assms by (simp add: tcp_inv_def)
  have m: "tcp_inv ?m" "owned ?m = owned m" using tcp_inv_upd [OF assms] owned_upd_same [OF i] by simp_all
  have "tcp_inv (upd_info i (\<lambda>a. a\<lparr>msgbuf := None, drop_cnt := 0, in_send_msg := Some b\<rparr>) ?m)" for b
    using tcp_inv_upd [OF m(1) assms(2)] by simp
  then show "tcp_inv (tcp_ack_timeout i m)"
    using m(1) by (auto simp: tcp_ack_timeout_def Let_def tcp_inv_def split: option.split)
  have "msgbuf (ack_info ?m ! i) = Some b \<Longrightarrow>
      owned (upd_info i (\<lambda>a. a\<lparr>msgbuf := None, drop_cnt := 0, in_send_msg := Some b\<rparr>) ?m) + {#b#} = owned m" for b
    using owned_upd [of i ?m "\<lambda>a. a\<lparr>msgbuf := None, drop_cnt := 0, in_send_msg := Some b\<rparr>"] i m(2) by simp
  moreover have "sent x = l \<Longrightarrow> owned (x\<lparr>sent := l @ [b]\<rparr>) = owned x + {#b#}" for x l b
    by (simp add: owned_def)
  ultimately show "owned (tcp_ack_timeout i m) = owned m"
    using m(2) by (auto simp: tcp_ack_timeout_def Let_def split: option.split)
qed

lemma update_entry_ok:
  assumes "tcp_inv m" and "i < TCP_ACK_NUM"
  shows "tcp_inv (update_entry now m i) \<and> owned (update_entry now m i) = owned m"
proof -
  have i: "i < length (ack_info m)" using assms by (simp add: tcp_inv_def)
  have "owned (upd_info i (\<lambda>a. a\<lparr>busy := False\<rparr>) m) = owned m"
    by (rule owned_upd_same [OF i]) simp
  then show ?thesis
    using assms i by (auto simp: update_entry_def Let_def tcp_inv_def busy_count_update owned_def)
qed

lemma update_ok:
  assumes "tcp_inv m"
  shows "tcp_inv (tcp_ack_update now m) \<and> owned (tcp_ack_update now m) = owned m"
proof -
  have "\<forall>i \<in> set is. i < TCP_ACK_NUM \<Longrightarrow> tcp_inv m \<Longrightarrow>
      tcp_inv (foldl (update_entry now) m is) \<and> owned (foldl (update_entry now) m is) = owned m" for "is" m
  proof (induction "is" arbitrary: m)
    case (Cons i "is")
    then show ?case using update_entry_ok [of m i now] by simp
  qed simp
  from this [of "rev [0..<TCP_ACK_NUM]" "m\<lparr>m_last_time := now\<rparr>"] assms show ?thesis
    by (auto simp: tcp_ack_update_def tcp_inv_def owned_def)
qed

lemma handle_entry_ok:
  assumes "handle_entry m2j now maxd new k a = (ret, dm, a')"
  shows "busy a' = busy a" "opt_mset (msgbuf a') + opt_mset dm + (if ret = 0 then {#new#} else {#}) = opt_mset (msgbuf a) + {#new#}"
    "ret \<in> {0, 1}"
  using assms by (auto simp: handle_entry_def handle_push_def set_seq_def Let_def split: prod.splits if_splits)

lemma handle_new_ok:
  assumes "tcp_inv m" and "i < TCP_ACK_NUM" and "tcp_ack_handle_new m2j now new i k m = (ret, m')"
  shows "tcp_inv m'" "owned m' + (if ret = 0 then {#new#} else {#}) = owned m + {#new#}"
proof -
  obtain dm a where h: "handle_entry m2j now (max_drop_cnt m) new k (ack_info m ! i) = (ret, dm, a)"
    and m': "m' = drop_opt dm (upd_info i (\<lambda>_. a) m)"
    using assms(3) by (auto simp: tcp_ack_handle_new_def split: prod.splits)
  note H = handle_entry_ok [OF h]
  show "tcp_inv m'" using tcp_inv_upd [OF assms(1,2), of "\<lambda>_. a"] H(1) by (simp add: m')
  have "owned (upd_info i (\<lambda>_. a) m) + opt_mset (msgbuf (ack_info m ! i)) = owned m + opt_mset (msgbuf a)"
    using owned_upd [of i m "\<lambda>_. a"] assms(1,2) by (simp add: tcp_inv_def)
  then have "owned m' + (if ret = 0 then {#new#} else {#}) + opt_mset (msgbuf (ack_info m ! i))
      = owned m + (opt_mset (msgbuf a) + opt_mset dm + (if ret = 0 then {#new#} else {#}))"
    by (simp add: m' ac_simps)
  then show "owned m' + (if ret = 0 then {#new#} else {#}) = owned m + {#new#}"
    unfolding H(2) by (simp add: ac_simps)
qed

lemma alloc_index_spec:
  assumes "tcp_inv m" and "tcp_ack_alloc_index m = (index, m')"
  shows "if \<forall>a \<in> set (ack_info m). busy a then index = -1 \<and> m' = m
     else 0 \<le> index \<and> index < int TCP_ACK_NUM \<and> \<not> busy (ack_info m ! nat index)
       \<and> m' = m\<lparr>free_index := -1, max_num := max_num m + 1\<rparr>"
proof (cases "\<forall>a \<in> set (ack_info m). busy a")
  case True
  then have "max_num m = int TCP_ACK_NUM" using assms(1) busy_count_full [of "ack_info m"] by (simp add: tcp_inv_def)
  with True assms(2) show ?thesis by (simp add: tcp_ack_alloc_index_def)
next
  case False
  then have "max_num m \<noteq> int TCP_ACK_NUM"
    using assms(1) busy_count_full [of "ack_info m"] by (auto simp: tcp_inv_def)
  with False assms first_index_cases [of "\<lambda>a. \<not> busy a" 0 "ack_info m"] show ?thesis
    by (auto simp: tcp_ack_alloc_index_def tcp_inv_def Let_def split: if_splits)
qed

lemma filter_alloc_ok:
  assumes "tcp_inv m"
  shows "tcp_inv (filter_alloc now k ws m)" "owned (filter_alloc now k ws m) = owned m"
proof -
  obtain index m' where a: "tcp_ack_alloc_index m = (index, m')" by fastforce
  note S = alloc_index_spec [OF assms a]
  have o: "owned m' = owned m" using S by (auto simp: owned_def split: if_splits)
  have "owned (upd_info (nat index) (new_entry now d ws k) m') = owned m'" if "0 \<le> index" for d
    using S that assms by (intro owned_upd_same) (auto simp: tcp_inv_def new_entry_def split: if_splits)
  with a o show "owned (filter_alloc now k ws m) = owned m" by (simp add: filter_alloc_def)
  show "tcp_inv (filter_alloc now k ws m)"
    using S a assms by (auto simp: filter_alloc_def tcp_inv_def busy_count_update new_entry_def split: if_splits)
qed

lemma filter_match_ok:
  assumes "tcp_inv m" and "i < TCP_ACK_NUM" and "filter_match m2j now new i dv k ws m = (ret, m')"
  shows "tcp_inv m'" "owned m' + (if ret = 0 then {#new#} else {#}) = owned m + {#new#}"
proof -
  define m1 where "m1 = (if ws \<noteq> 0 \<and> win_scale (ack_info m ! i) \<noteq> ws then upd_info i (\<lambda>a. a\<lparr>win_scale := ws\<rparr>) m else m)"
  have i: "i < length (ack_info m)" using assms by (simp add: tcp_inv_def)
  have m1: "tcp_inv m1" "owned m1 = owned m"
    using tcp_inv_upd [OF assms(1,2)] owned_upd_same [OF i] assms(1) by (simp_all add: m1_def)
  have r: "(if dv > 0 \<and> enable m1 then tcp_ack_handle_new m2j now new i k m1 else (0, m1)) = (ret, m')"
    using assms(3) by (simp add: filter_match_def Let_def flip: m1_def)
  show "tcp_inv m'" "owned m' + (if ret = 0 then {#new#} else {#}) = owned m + {#new#}"
    using r m1 handle_new_ok [OF m1(1) assms(2), of m2j now new k ret m'] by (auto split: if_splits)
qed

lemma filter_send_ok:
  assumes "tcp_inv m" and "filter_send_tcp_ack m2j now new buf m = Some (ret, m')"
  shows "tcp_inv m'" "owned m' + (if ret = 0 then {#new#} else {#}) = owned m + {#new#}"
proof -
  let ?u = "tcp_ack_update now m"
  have u: "tcp_inv ?u" "owned ?u = owned m" using update_ok [OF assms(1)] by simp_all
  consider "ret = 0" "m' = ?u" | k ws where "ret = 0" "m' = filter_alloc now k ws ?u"
    | dv k ws where "filter_match m2j now new (nat (tcp_ack_match ?u k)) dv k ws ?u = (ret, m')" "0 \<le> tcp_ack_match ?u k"
    using assms(2) by (auto simp: filter_send_tcp_ack_def Let_def bind_eq_Some_conv split: option.splits if_splits)
  then have "tcp_inv m' \<and> owned m' + (if ret = 0 then {#new#} else {#}) = owned m + {#new#}"
  proof cases
    case (3 dv k ws)
    have i: "nat (tcp_ack_match ?u k) < TCP_ACK_NUM"
      using match_bounds [OF _ 3(2)] u(1) by (simp add: tcp_inv_def)
    show ?thesis using filter_match_ok [OF u(1) i 3(1)] u(2) by simp
  qed (use u filter_alloc_ok in simp_all)
  then show "tcp_inv m'" "owned m' + (if ret = 0 then {#new#} else {#}) = owned m + {#new#}" by simp_all
qed

lemma filter_rx_ok:
  assumes "tcp_inv m" and "filter_rx_tcp_ack buf plen m = Some m'"
  shows "tcp_inv m'" "owned m' = owned m"
proof -
  have l: "length (ack_info m) = TCP_ACK_NUM" using assms(1) by (simp add: tcp_inv_def)
  have "0 \<le> tcp_ack_match m k \<Longrightarrow> tcp_inv (upd_info (nat (tcp_ack_match m k)) (\<lambda>a. a\<lparr>psh_flag := True, psh_seq := seq k\<rparr>) m)
      \<and> owned (upd_info (nat (tcp_ack_match m k)) (\<lambda>a. a\<lparr>psh_flag := True, psh_seq := seq k\<rparr>) m) = owned m" for k
    using match_bounds [OF l, of k] l by (auto intro!: tcp_inv_upd [OF assms(1)] owned_upd_same)
  then show "tcp_inv m'" "owned m' = owned m"
    using assms by (auto simp: filter_rx_tcp_ack_def bind_eq_Some_conv Let_def split: if_splits option.splits)
qed

lemma move_ok:
  assumes "tcp_inv m"
  shows "tcp_inv (move_tcpack_msg msg m)" "owned (move_tcpack_msg msg m) = owned m"
  using assms by (auto simp: move_tcpack_msg_def tcp_inv_def owned_def move_entry_def)

lemma init_tcp_inv: "tcp_inv (tcp_ack_init m2j now)"
  by (simp add: tcp_inv_def tcp_ack_init_def busy_count_def TCP_ACK_NUM_def)

section \<open>Runs of the filter\<close>

text \<open>The filter with the buffers it was given and those that it passed on with the return value 0.\<close>

record ack_world =
  tcp :: tcp_ack_manage
  given :: "nat list"
  passed :: "nat list"

inductive ack_step :: "ack_world \<Rightarrow> ack_world \<Rightarrow> bool" where
  send: "filter_send_tcp_ack m2j now new buf (tcp w) = Some (ret, m') \<Longrightarrow>
    ack_step w (w\<lparr>tcp := m', given := new # given w, passed := (if ret = 0 then new # passed w else passed w)\<rparr>)"
| rx: "filter_rx_tcp_ack buf plen (tcp w) = Some m' \<Longrightarrow> ack_step w (w\<lparr>tcp := m'\<rparr>)"
| fire: "i < TCP_ACK_NUM \<Longrightarrow> timer (ack_info (tcp w) ! i) \<noteq> None \<Longrightarrow> ack_step w (w\<lparr>tcp := tcp_ack_timeout i (tcp w)\<rparr>)"
| done_tx: "ack_step w (w\<lparr>tcp := move_tcpack_msg msg (tcp w)\<rparr>)"

definition ack_start :: "ack_world \<Rightarrow> bool" where
  "ack_start w \<longleftrightarrow> given w = [] \<and> passed w = [] \<and> (\<exists>m2j now. tcp w = tcp_ack_init m2j now)"

definition ack_inv :: "ack_world \<Rightarrow> bool" where
  "ack_inv w \<longleftrightarrow> tcp_inv (tcp w) \<and> owned (tcp w) + mset (passed w) = mset (given w)"

lemma ack_inv_step:
  assumes "ack_inv w" and "ack_step w w'"
  shows "ack_inv w'"
  using assms(2)
proof cases
  case (send m2j now new buf ret m')
  have inv: "tcp_inv (tcp w)" using assms(1) by (simp add: ack_inv_def)
  note F = filter_send_ok [OF inv send(2)]
  have "owned m' + (if ret = 0 then {#new#} else {#}) + mset (passed w) = mset (given w) + {#new#}"
    unfolding F(2) using assms(1) by (simp add: ack_inv_def)
  then show ?thesis using send(1) F(1) by (auto simp: ack_inv_def)
qed (use assms(1) filter_rx_ok timeout_ok move_ok in \<open>auto simp: ack_inv_def\<close>)

interpretation acks: step_system ack_start ack_step ack_inv
proof
  show "ack_inv w" if "ack_start w" for w
  proof -
    from that obtain m2j now where w: "tcp w = tcp_ack_init m2j now" "given w = []" "passed w = []"
      by (auto simp: ack_start_def)
    have "owned (tcp_ack_init m2j now) = {#}"
      by (auto simp: owned_def held_def tcp_ack_init_def)
    with w init_tcp_inv show ?thesis by (simp add: ack_inv_def)
  qed
qed (rule ack_inv_step)

section \<open>Properties\<close>

text \<open>
  A pure acknowledgement of the connection \<open>k\<close> on the wire: Ethernet and IP header without options, TCP header with the
  options \<open>opts\<close>.
\<close>

definition be16 :: "u16 \<Rightarrow> u8 list" where
  "be16 w = [ucast (drop_bit 8 w), ucast w]"

definition le32 :: "u32 \<Rightarrow> u8 list" where
  "le32 w = le16 (ucast w) @ le16 (ucast (drop_bit 16 w))"

definition be32 :: "u32 \<Rightarrow> u8 list" where
  "be32 w = be16 (ucast (drop_bit 16 w)) @ be16 (ucast w)"

definition ack_packet :: "tcp_ack_msg \<Rightarrow> u8 list \<Rightarrow> u8 list" where
  "ack_packet k opts = [2, 2, 2, 2, 2, 2, 3, 3, 3, 3, 3, 3] @ [8, 0] @ [0x45, 0] @ be16 (40 + of_nat (length opts)) @ [0, 0, 0, 0, 64, 6, 0, 0]
     @ le32 (saddr k) @ le32 (daddr k)
     @ le16 (source k) @ le16 (dest k) @ [0, 0, 0, 0] @ be32 (seq k)
     @ [push_bit 4 (5 + of_nat (length opts div 4)), 0x10] @ be16 (win k) @ [0, 0, 0, 0] @ opts"

lemma u32_halves [simp]:
  "ucast (ucast w :: u16) OR push_bit 16 (ucast (ucast (drop_bit 16 w) :: u16)) = (w :: u32)"
  by (rule bit_word_eqI) (auto simp: bit_simps)

lemma packet_offset: "tcp_offset (ack_packet k opts) = Some (Some 34)"
  by (simp add: tcp_offset_def rd16_be_def rd_def ack_packet_def be16_def be32_def le16_def le32_def of_le16_def Let_def)

lemma packet_fields:
  "rd32 (ack_packet k opts) 26 = Some (saddr k)" "rd32 (ack_packet k opts) 30 = Some (daddr k)"
  "rd16 (ack_packet k opts) 34 = Some (source k)" "rd16 (ack_packet k opts) 36 = Some (dest k)"
  "rd32_be (ack_packet k opts) 42 = Some (seq k)" "rd16_be (ack_packet k opts) 48 = Some (win k)"
  "rd16_be (ack_packet k opts) 16 = Some (40 + of_nat (length opts))"
  "rd (drop 34 (ack_packet k opts)) 12 = Some (push_bit 4 (5 + of_nat (length opts div 4)))"
  "drop 54 (ack_packet k opts) = opts"
  by (simp_all add: rd16_def rd32_def rd32_be_def rd16_be_def rd_def ack_packet_def be16_def be32_def le16_def le32_def)

text \<open>Options as a receiver defines them, and what the loop makes of a well-formed list of them.\<close>

datatype tcp_opt = Nop | Opt u8 "u8 list"

fun enc_opt :: "tcp_opt \<Rightarrow> u8 list" where
  "enc_opt Nop = [TCPOPT_NOP]"
| "enc_opt (Opt c bs) = c # of_nat (2 + length bs) # bs"

fun opt_ok :: "tcp_opt \<Rightarrow> bool" where
  "opt_ok Nop = True"
| "opt_ok (Opt c bs) \<longleftrightarrow> c \<noteq> TCPOPT_EOL \<and> c \<noteq> TCPOPT_NOP \<and> length bs \<le> 38 \<and> (c = TCPOPT_WINDOW \<longrightarrow> bs \<noteq> [])"

fun opts_meaning :: "tcp_opt list \<Rightarrow> int \<Rightarrow> u16 \<Rightarrow> int \<times> u16" where
  "opts_meaning [] dv ws = (dv, ws)"
| "opts_meaning (Nop # os) dv ws = opts_meaning os dv ws"
| "opts_meaning (Opt c bs # os) dv ws =
    (if c = TCPOPT_TIMESTAMP then opts_meaning os dv ws
     else if c = TCPOPT_WINDOW then opts_meaning os dv (if hd bs < 15 then push_bit (unat (hd bs)) 1 else ws)
     else opts_meaning os 2 ws)"

lemma opt_loop_opt:
  assumes "opt_ok (Opt c bs)" and "0 \<le> n" and "dv \<noteq> 0"
  shows "opt_loop (enc_opt (Opt c bs) @ rest) (2 + int (length bs) + n) dv ws =
    (if c = TCPOPT_TIMESTAMP then opt_loop rest n dv ws
     else if c = TCPOPT_WINDOW then opt_loop rest n dv (if hd bs < 15 then push_bit (unat (hd bs)) 1 else ws)
     else opt_loop rest n 2 ws)"
proof -
  define sz :: u8 where "sz = word_of_nat (2 + length bs)"
  have u: "unat sz = 2 + length bs"
    using assms(1) by (simp add: sz_def unat_of_nat unat_word_ariths)
  then have v: "uint sz = 2 + int (length bs)"
    by (metis of_nat_add of_nat_numeral uint_nat)
  have e: "opt_loop (c # sz # bs @ rest) (2 + int (length bs) + n) dv ws =
    (if c = TCPOPT_TIMESTAMP then opt_loop (drop (length bs) (bs @ rest)) n dv ws
     else if c = TCPOPT_WINDOW
     then (case bs @ rest of [] \<Rightarrow> None
        | x # _ \<Rightarrow> opt_loop (drop (length bs) (bs @ rest)) n dv (if x < 15 then push_bit (unat x) 1 else ws))
     else opt_loop (drop (length bs) (bs @ rest)) n 2 ws)"
    using assms by (subst opt_loop.simps) (simp add: u v split: list.split)
  have "enc_opt (Opt c bs) @ rest = c # sz # bs @ rest" by (simp add: sz_def)
  then show ?thesis
    using assms(1) e by (cases bs) simp_all
qed

lemma opt_loop_nop: "0 \<le> n \<Longrightarrow> dv \<noteq> 0 \<Longrightarrow> opt_loop (TCPOPT_NOP # rest) (1 + n) dv ws = opt_loop rest n dv ws"
  by (subst opt_loop.simps) (simp add: TCPOPT_EOL_def TCPOPT_NOP_def)

lemma opt_loop_wf:
  "list_all opt_ok os \<Longrightarrow> dv \<noteq> 0 \<Longrightarrow>
    opt_loop (concat (map enc_opt os) @ rest) (int (length (concat (map enc_opt os)))) dv ws = Some (opts_meaning os dv ws)"
proof (induction os dv ws rule: opts_meaning.induct)
  case (1 dv ws)
  then show ?case by (simp add: opt_loop.simps)
next
  case (2 os dv ws)
  then show ?case
    using opt_loop_nop [of "int (length (concat (map enc_opt os)))" dv "concat (map enc_opt os) @ rest" ws] by simp
next
  case (3 c bs os dv ws)
  then show ?case
    using opt_loop_opt [of c bs "int (length (concat (map enc_opt os)))" dv "concat (map enc_opt os) @ rest" ws]
    by (simp add: add.assoc)
qed

lemma opts_meaning_pos: "0 < dv \<Longrightarrow> 0 < fst (opts_meaning os dv ws)"
  by (induction os dv ws rule: opts_meaning.induct) auto

lemma upto_10:
  assumes "n \<le> 10"
  obtains "n = 0" | "n = 1" | "n = 2" | "n = 3" | "n = 4" | "n = 5" | "n = 6" | "n = 7" | "n = 8" | "n = 9" | "n = (10 :: nat)"
  using assms by atomize_elim arith

lemma doff_field: "n \<le> 10 \<Longrightarrow> uint (drop_bit 4 (push_bit 4 (5 + word_of_nat n) :: u8)) = 5 + int n"
  by (erule upto_10) simp_all

lemma tot_len_field: "n \<le> 10 \<Longrightarrow> uint (40 + word_of_nat (4 * n) :: u16) = 40 + 4 * int n"
  by (erule upto_10) simp_all

lemma check_packet:
  assumes "list_all opt_ok os" and "length (concat (map enc_opt os)) = 4 * n" and "n \<le> 10"
  shows "tcp_check_ack (ack_packet k (concat (map enc_opt os))) 0 =
    Some (fst (opts_meaning os 1 0), Some k, snd (opts_meaning os 1 0))"
proof -
  let ?o = "concat (map enc_opt os)" and ?r = "opts_meaning os 1 0"
  have loop: "opt_loop ?o (4 * int n) 1 0 = Some ?r"
    using opt_loop_wf [OF assms(1), of 1 "[]" 0] assms(2) by simp
  note tot = tot_len_field [OF assms(3)]
  have d: "is_drop_tcp_ack (drop 34 (ack_packet k ?o)) (uint (40 + word_of_nat (4 * n) :: u16) - 20) 0 = Some ?r"
    using loop by (simp add: is_drop_tcp_ack_def packet_fields assms(2) doff_field [OF assms(3)] tot del: of_nat_mult)
  have "0 < fst ?r" by (rule opts_meaning_pos) simp
  with d show ?thesis
    by (cases ?r) (simp add: tcp_check_ack_def packet_offset packet_fields assms(2) del: of_nat_mult)
qed

lemma check_plain: "tcp_check_ack (ack_packet k []) 0 = Some (1, Some k, 0)"
  using check_packet [of "[]" 0 k] by simp

definition filter_known :: "(nat \<Rightarrow> u64) \<Rightarrow> u64 \<Rightarrow> nat \<Rightarrow> tcp_ack_msg \<Rightarrow> tcp_ack_manage \<Rightarrow> int \<times> tcp_ack_manage" where
  "filter_known m2j now new k m0 =
    (let m = tcp_ack_update now m0; index = tcp_ack_match m k in
     if index \<ge> 0 then filter_match m2j now new (nat index) 1 k 0 m else (0, filter_alloc now k 0 m))"

lemma filter_send_packet:
  "filter_send_tcp_ack m2j now new (ack_packet k []) m = Some (filter_known m2j now new k m)"
  by (simp add: filter_send_tcp_ack_def check_plain filter_known_def Let_def)

text \<open>
  C10: no buffer is lost, freed twice or sent twice.  In every run of the filter, the buffers it was given are, each exactly
  once, the ones that it holds, has freed, has handed over from its timer, or has passed on to its caller.
\<close>

theorem ack_filter_conserves_buffers:
  assumes "ack_start w0" and "ack_step\<^sup>*\<^sup>* w0 w"
  shows "held (ack_info (tcp w)) + mset (dropped (tcp w)) + mset (sent (tcp w)) + mset (passed w) = mset (given w)"
  using acks.inv_reachable [OF assms] by (simp add: ack_inv_def owned_def)

text \<open>A run: a connection is opened, its first acknowledgement passes, the second one is held.\<close>

definition demo_key :: "u32 \<Rightarrow> tcp_ack_msg" where
  "demo_key s = \<lparr>source = 80, dest = 99, saddr = 7, daddr = 8, seq = s, win = 500\<rparr>"

definition demo_send :: "nat \<Rightarrow> u32 \<Rightarrow> ack_world \<Rightarrow> ack_world" where
  "demo_send b s w = (case filter_send_tcp_ack (\<lambda>_. 1000) 1 b (ack_packet (demo_key s) []) (tcp w) of
     Some (ret, m) \<Rightarrow> w\<lparr>tcp := m, given := b # given w, passed := (if ret = 0 then b # passed w else passed w)\<rparr>
   | None \<Rightarrow> w)"

definition ack_init_world :: ack_world where
  "ack_init_world = \<lparr>tcp = tcp_ack_init (\<lambda>_. 1000) 0, given = [], passed = []\<rparr>"

definition ack_demo :: ack_world where
  "ack_demo = demo_send 3 120 (demo_send 2 110 (demo_send 1 100 ack_init_world))"

lemma demo_send_steps: "ack_step\<^sup>*\<^sup>* w (demo_send b s w)"
proof (cases "filter_send_tcp_ack (\<lambda>_. 1000) 1 b (ack_packet (demo_key s) []) (tcp w)")
  case (Some r)
  then obtain ret m' where "filter_send_tcp_ack (\<lambda>_. 1000) 1 b (ack_packet (demo_key s) []) (tcp w) = Some (ret, m')"
    by (cases r) simp
  from ack_step.send [OF this] this show ?thesis by (simp add: demo_send_def r_into_rtranclp)
qed (simp add: demo_send_def)

lemma ack_demo_reachable: "ack_step\<^sup>*\<^sup>* ack_init_world ack_demo"
  unfolding ack_demo_def by (meson demo_send_steps rtranclp_trans)

lemma ack_start_init: "ack_start ack_init_world"
  by (auto simp: ack_start_def ack_init_world_def)

lemma demo_send_known:
  "demo_send b s w = (case filter_known (\<lambda>_. 1000) 1 b (demo_key s) (tcp w) of (ret, m) \<Rightarrow>
     w\<lparr>tcp := m, given := b # given w, passed := (if ret = 0 then b # passed w else passed w)\<rparr>)"
  by (simp add: demo_send_def filter_send_packet)

lemma ack_demo_values:
  "given ack_demo = [3, 2, 1]" "passed ack_demo = [2, 1]" "msgbuf (ack_info (tcp ack_demo) ! 0) = Some 3"
  "timer (ack_info (tcp ack_demo) ! 0) = Some 1001" "in_send_msg (ack_info (tcp ack_demo) ! 0) = Some 2"
  "fst (tcp_ack_alloc_index (tcp ack_demo)) = 1" "busy (ack_info (tcp ack_demo) ! 0)" "enable (tcp ack_demo)"
  "length (ack_info (tcp ack_demo)) = 32"
  unfolding ack_demo_def demo_send_known by code_simp+

theorem ack_filter_conserves_buffers_witness:
  "held (ack_info (tcp ack_demo)) + mset (dropped (tcp ack_demo)) + mset (sent (tcp ack_demo)) + {#2, 1#} = {#3, 2, 1#}"
  using ack_filter_conserves_buffers [OF ack_start_init ack_demo_reachable] by (simp add: ack_demo_values)

text \<open>
  in every state the filter can reach, an index for a new connection is found whenever one of the 32 entries is free, and
  it is the index of a free entry; -1 is returned exactly when all of them are busy.
\<close>

theorem alloc_index_finds_free:
  assumes "ack_start w0" and "ack_step\<^sup>*\<^sup>* w0 w"
  shows "let index = fst (tcp_ack_alloc_index (tcp w)) in
     (index = -1 \<longleftrightarrow> (\<forall>a \<in> set (ack_info (tcp w)). busy a))
     \<and> (index \<noteq> -1 \<longrightarrow> 0 \<le> index \<and> index < 32 \<and> \<not> busy (ack_info (tcp w) ! nat index))"
proof -
  have "tcp_inv (tcp w)" using acks.inv_reachable [OF assms] by (simp add: ack_inv_def)
  from alloc_index_spec [OF this prod.collapse [symmetric]] show ?thesis
    by (auto simp: TCP_ACK_NUM_def Let_def split: if_splits)
qed

theorem alloc_index_finds_free_witness:
  "fst (tcp_ack_alloc_index (tcp ack_demo)) = 1 \<and> \<not> busy (ack_info (tcp ack_demo) ! 1)"
proof -
  note ack_demo_values(6)
  with alloc_index_finds_free [OF ack_start_init ack_demo_reachable] show ?thesis by (simp add: Let_def)
qed

text \<open>
  the classification of a pure acknowledgement.  For every connection and every well-formed list of TCP options
  the packet is recognised, its connection, acknowledgement number and window are read back, and the option loop computes
  the meaning of the options: droppable (1) when only NOP, timestamp and window scale occur, else 2.
\<close>

theorem tcp_check_ack_classifies:
  assumes "list_all opt_ok os" and "length (concat (map enc_opt os)) = 4 * n" and "n \<le> 10"
  shows "tcp_check_ack (ack_packet k (concat (map enc_opt os))) 0 =
    Some (fst (opts_meaning os 1 0), Some k, snd (opts_meaning os 1 0))"
  by (rule check_packet [OF assms])

theorem tcp_check_ack_classifies_witness:
  "tcp_check_ack (ack_packet (demo_key 100) (concat (map enc_opt [Nop, Nop, Opt 8 [1, 2, 3, 4, 5, 6, 7, 8]]))) 0
     = Some (1, Some (demo_key 100), 0)
   \<and> tcp_check_ack (ack_packet (demo_key 100) (concat (map enc_opt [Nop, Opt 3 [7]]))) 0 = Some (1, Some (demo_key 100), 128)"
  using tcp_check_ack_classifies [of "[Nop, Nop, Opt 8 [1, 2, 3, 4, 5, 6, 7, 8]]" 3 "demo_key 100"]
    tcp_check_ack_classifies [of "[Nop, Opt 3 [7]]" 1 "demo_key 100"]
  by (simp add: TCPOPT_EOL_def TCPOPT_NOP_def TCPOPT_WINDOW_def TCPOPT_TIMESTAMP_def)

lemma opt_loop_eol: "0 < len \<Longrightarrow> dv \<noteq> 0 \<Longrightarrow> opt_loop (replicate n 0) len dv ws = None"
  by (induction n) (subst opt_loop.simps, simp add: TCPOPT_EOL_def)+

text \<open>
  An end-of-list option does not end the scan.  Whatever the number of bytes from the options to the end of the packet,
  if they are zero the loop reads past the packet.
\<close>

theorem eol_option_overreads:
  assumes "1 \<le> m" and "m \<le> 10"
  shows "is_drop_tcp_ack (replicate 12 0 @ [push_bit 4 (5 + word_of_nat m)] @ replicate (7 + n) 0) 20 ws = None"
proof -
  have "opt_loop (replicate n 0) (4 * int m) 1 ws = None"
    using assms(1) by (intro opt_loop_eol) simp_all
  then show ?thesis
    using doff_field [OF assms(2)] by (simp add: is_drop_tcp_ack_def rd_def nth_append algebra_simps)
qed

theorem eol_option_overreads_witness:
  "is_drop_tcp_ack (replicate 12 0 @ [push_bit 4 (5 + word_of_nat 1)] @ replicate (7 + 4) 0) 20 0 = None"
  by (rule eol_option_overreads) simp_all

text \<open>The return values of \<^verbatim>\<open>tcp_ack_handle_new\<close> for a sequence of acknowledgements of one connection.\<close>

fun handle_run :: "(nat \<Rightarrow> u64) \<Rightarrow> u64 \<Rightarrow> int \<Rightarrow> (nat \<times> tcp_ack_msg) list \<Rightarrow> tcp_ack_info \<Rightarrow> int list \<times> tcp_ack_info" where
  "handle_run m2j now maxd [] a = ([], a)"
| "handle_run m2j now maxd ((new, k) # ks) a =
    (case handle_entry m2j now maxd new k a of (ret, _, a') \<Rightarrow>
      (case handle_run m2j now maxd ks a' of (rets, a'') \<Rightarrow> (ret # rets, a'')))"

fun ascending :: "u32 \<Rightarrow> (nat \<times> tcp_ack_msg) list \<Rightarrow> bool" where
  "ascending s [] = True"
| "ascending s ((new, k) # ks) \<longleftrightarrow> U32_BEFORE s (seq k) \<and> ascending (seq k) ks"


definition tenth_demo :: "(nat \<times> tcp_ack_msg) list" where
  "tenth_demo = map (\<lambda>(i, s). (i, demo_key s)) [(1, 0), (2, 10), (3, 20), (4, 30), (5, 40), (6, 50), (7, 60), (8, 70), (9, 80), (10, 90)]"


text \<open>
  A held acknowledgement can be stranded.  When the timer fires while an earlier acknowledgement of the connection is still
  marked as in transmission, the held one stays, and neither the timer nor the end of that transmission sends it.
\<close>

theorem held_ack_stranded:
  assumes "i < length (ack_info m)" and "busy (ack_info m ! i)" and "enable m"
    and "msgbuf (ack_info m ! i) = Some b" and "in_send_msg (ack_info m ! i) = Some c"
  shows "let m' = move_tcpack_msg c (tcp_ack_timeout i m); a = ack_info m' ! i in
     msgbuf a = Some b \<and> in_send_msg a = None \<and> timer a = None \<and> sent m' = sent m \<and> dropped m' = dropped m"
  using assms by (simp add: tcp_ack_timeout_def move_tcpack_msg_def move_entry_def Let_def)

theorem held_ack_stranded_witness:
  "let m' = move_tcpack_msg 2 (tcp_ack_timeout 0 (tcp ack_demo)) in
     msgbuf (ack_info m' ! 0) = Some 3 \<and> timer (ack_info m' ! 0) = None \<and> sent m' = sent (tcp ack_demo)"
  using held_ack_stranded [of 0 "tcp ack_demo" 3 2] ack_demo_values by (simp add: Let_def)

end
