(* ===== verification/Md5.thy ===== *)
theory Md5
  imports Aic_Prelude
begin

text \<open>
  The MD5 digest with which the driver and the firmware loader report the firmware images they read (\<^verbatim>\<open>md5.c\<close>, \<^verbatim>\<open>md5.h\<close>; the
  copies in \<^verbatim>\<open>aic8800_fdrv\<close> and \<^verbatim>\<open>aic_load_fw\<close> are identical).  The context is a record, \<^verbatim>\<open>memcpy\<close> into the block buffer writes a
  slice.  \<^verbatim>\<open>inputlen\<close> is the length of the input as a 32-bit number; positions in the input are natural numbers, which is what the
  32-bit counter of the source holds for inputs shorter than \<open>2^32 - 64\<close>.
\<close>

section \<open>The compression function\<close>

definition F :: "u32 \<Rightarrow> u32 \<Rightarrow> u32 \<Rightarrow> u32" where "F x y z = (x AND y) OR (NOT x AND z)"
definition G :: "u32 \<Rightarrow> u32 \<Rightarrow> u32 \<Rightarrow> u32" where "G x y z = (x AND z) OR (y AND NOT z)"
definition H :: "u32 \<Rightarrow> u32 \<Rightarrow> u32 \<Rightarrow> u32" where "H x y z = x XOR y XOR z"
definition I :: "u32 \<Rightarrow> u32 \<Rightarrow> u32 \<Rightarrow> u32" where "I x y z = y XOR (x OR NOT z)"

definition ROTATE_LEFT :: "u32 \<Rightarrow> nat \<Rightarrow> u32" where
  "ROTATE_LEFT x n = push_bit n x OR drop_bit (32 - n) x"

datatype md5_op = FF | GG | HH | II

fun op_fun :: "md5_op \<Rightarrow> u32 \<Rightarrow> u32 \<Rightarrow> u32 \<Rightarrow> u32" where
  "op_fun FF = F" | "op_fun GG = G" | "op_fun HH = H" | "op_fun II = I"

type_synonym md5_state = "u32 \<times> u32 \<times> u32 \<times> u32"

text \<open>
  One macro call.  The source names the four variables in rotated order from call to call; here the tuple is rotated instead,
  so that its first component is always the variable the call updates.
\<close>

fun md5_call :: "u32 list \<Rightarrow> md5_state \<Rightarrow> md5_op \<times> nat \<times> nat \<times> u32 \<Rightarrow> md5_state" where
  "md5_call x (a, b, c, d) (opn, k, s, ac) =
     (d, ROTATE_LEFT (a + (op_fun opn b c d + x ! k + ac)) s + b, b, c)"

text \<open>The 64 calls in the order of the source: macro, message word, rotation, constant.\<close>

definition md5_calls :: "(md5_op \<times> nat \<times> nat \<times> u32) list" where
  "md5_calls = [
    (FF, 0, 7, 0xd76aa478), (FF, 1, 12, 0xe8c7b756), (FF, 2, 17, 0x242070db), (FF, 3, 22, 0xc1bdceee),
    (FF, 4, 7, 0xf57c0faf), (FF, 5, 12, 0x4787c62a), (FF, 6, 17, 0xa8304613), (FF, 7, 22, 0xfd469501),
    (FF, 8, 7, 0x698098d8), (FF, 9, 12, 0x8b44f7af), (FF, 10, 17, 0xffff5bb1), (FF, 11, 22, 0x895cd7be),
    (FF, 12, 7, 0x6b901122), (FF, 13, 12, 0xfd987193), (FF, 14, 17, 0xa679438e), (FF, 15, 22, 0x49b40821),
    (GG, 1, 5, 0xf61e2562), (GG, 6, 9, 0xc040b340), (GG, 11, 14, 0x265e5a51), (GG, 0, 20, 0xe9b6c7aa),
    (GG, 5, 5, 0xd62f105d), (GG, 10, 9, 0x2441453), (GG, 15, 14, 0xd8a1e681), (GG, 4, 20, 0xe7d3fbc8),
    (GG, 9, 5, 0x21e1cde6), (GG, 14, 9, 0xc33707d6), (GG, 3, 14, 0xf4d50d87), (GG, 8, 20, 0x455a14ed),
    (GG, 13, 5, 0xa9e3e905), (GG, 2, 9, 0xfcefa3f8), (GG, 7, 14, 0x676f02d9), (GG, 12, 20, 0x8d2a4c8a),
    (HH, 5, 4, 0xfffa3942), (HH, 8, 11, 0x8771f681), (HH, 11, 16, 0x6d9d6122), (HH, 14, 23, 0xfde5380c),
    (HH, 1, 4, 0xa4beea44), (HH, 4, 11, 0x4bdecfa9), (HH, 7, 16, 0xf6bb4b60), (HH, 10, 23, 0xbebfbc70),
    (HH, 13, 4, 0x289b7ec6), (HH, 0, 11, 0xeaa127fa), (HH, 3, 16, 0xd4ef3085), (HH, 6, 23, 0x4881d05),
    (HH, 9, 4, 0xd9d4d039), (HH, 12, 11, 0xe6db99e5), (HH, 15, 16, 0x1fa27cf8), (HH, 2, 23, 0xc4ac5665),
    (II, 0, 6, 0xf4292244), (II, 7, 10, 0x432aff97), (II, 14, 15, 0xab9423a7), (II, 5, 21, 0xfc93a039),
    (II, 12, 6, 0x655b59c3), (II, 3, 10, 0x8f0ccc92), (II, 10, 15, 0xffeff47d), (II, 1, 21, 0x85845dd1),
    (II, 8, 6, 0x6fa87e4f), (II, 15, 10, 0xfe2ce6e0), (II, 6, 15, 0xa3014314), (II, 13, 21, 0x4e0811a1),
    (II, 4, 6, 0xf7537e82), (II, 11, 10, 0xbd3af235), (II, 2, 15, 0x2ad7d2bb), (II, 9, 21, 0xeb86d391)]"

fun MD5Decode :: "u8 list \<Rightarrow> u32 list" where
  "MD5Decode (a # b # c # d # r) =
     (ucast a OR push_bit 8 (ucast b) OR push_bit 16 (ucast c) OR push_bit 24 (ucast d)) # MD5Decode r"
| "MD5Decode _ = []"

fun MD5Encode :: "u32 list \<Rightarrow> u8 list" where
  "MD5Encode [] = []"
| "MD5Encode (w # ws) = ucast w # ucast (drop_bit 8 w) # ucast (drop_bit 16 w) # ucast (drop_bit 24 w) # MD5Encode ws"

definition MD5Transform :: "md5_state \<Rightarrow> u8 list \<Rightarrow> md5_state" where
  "MD5Transform st block =
    (case (st, foldl (md5_call (MD5Decode block)) st md5_calls) of
      ((s0, s1, s2, s3), (a, b, c, d)) \<Rightarrow> (s0 + a, s1 + b, s2 + c, s3 + d))"

section \<open>The streaming interface\<close>

record MD5_CTX =
  count0 :: u32
  count1 :: u32
  md_state :: md5_state
  buffer :: "u8 list"

definition PADDING :: "u8 list" where "PADDING = 0x80 # replicate 63 0"

definition md5_iv :: md5_state where
  "md5_iv = (0x67452301, 0xEFCDAB89, 0x98BADCFE, 0x10325476)"

text \<open>\<open>buf\<close> is what the buffer of the caller's context holds before.\<close>

definition MD5Init :: "u8 list \<Rightarrow> MD5_CTX" where
  "MD5Init buf = \<lparr>count0 = 0, count1 = 0, md_state = md5_iv, buffer = buf\<rparr>"

definition write_at :: "u8 list \<Rightarrow> nat \<Rightarrow> u8 list \<Rightarrow> u8 list" where
  "write_at buf i bs = take i buf @ bs @ drop (i + length bs) buf"

function update_loop :: "u8 list \<Rightarrow> nat \<Rightarrow> md5_state \<Rightarrow> nat \<times> md5_state" where
  "update_loop input i st =
    (if i + 64 \<le> length input then update_loop input (i + 64) (MD5Transform st (take 64 (drop i input))) else (i, st))"
  by pat_completeness auto
termination by (relation "measure (\<lambda>(input, i, _). length input - i)") auto

declare update_loop.simps [simp del]

definition ctx_index :: "MD5_CTX \<Rightarrow> nat" where
  "ctx_index ctx = unat (drop_bit 3 (count0 ctx) AND 0x3F)"

definition MD5Update :: "MD5_CTX \<Rightarrow> u8 list \<Rightarrow> MD5_CTX" where
  "MD5Update ctx input =
    (let inputlen = word_of_nat (length input) :: u32;
         index = ctx_index ctx;
         partlen = 64 - index;
         c0 = count0 ctx + push_bit 3 inputlen;
         c1 = (if c0 < push_bit 3 inputlen then count1 ctx + 1 else count1 ctx) + drop_bit 29 inputlen;
         ctx1 = ctx\<lparr>count0 := c0, count1 := c1\<rparr>
     in if partlen \<le> length input then
          (let buf = write_at (buffer ctx) index (take partlen input);
               (i, st) = update_loop input partlen (MD5Transform (md_state ctx) buf)
           in ctx1\<lparr>md_state := st, buffer := write_at buf 0 (drop i input)\<rparr>)
        else ctx1\<lparr>buffer := write_at (buffer ctx) index input\<rparr>)"

fun state_words :: "md5_state \<Rightarrow> u32 list" where
  "state_words (a, b, c, d) = [a, b, c, d]"

definition MD5Final :: "MD5_CTX \<Rightarrow> u8 list" where
  "MD5Final ctx =
    (let index = ctx_index ctx;
         padlen = (if index < 56 then 56 - index else 120 - index);
         bits = MD5Encode [count0 ctx, count1 ctx];
         ctx1 = MD5Update ctx (take padlen PADDING);
         ctx2 = MD5Update ctx1 bits
     in MD5Encode (state_words (md_state ctx2)))"

section \<open>The reference: RFC 1321 on a whole message\<close>

fun absorb :: "md5_state \<Rightarrow> u8 list \<Rightarrow> md5_state" where
  "absorb st bs = (if length bs < 64 then st else absorb (MD5Transform st (take 64 bs)) (drop 64 bs))"

declare absorb.simps [simp del]

text \<open>One bit, zeros up to a length of 56 modulo 64, and the number of bits modulo \<open>2^64\<close>, low word first.\<close>

definition md5_pad :: "nat \<Rightarrow> u8 list" where
  "md5_pad n = 0x80 # replicate ((119 - n mod 64) mod 64) 0 @ MD5Encode [word_of_nat (8 * n), word_of_nat (8 * n div 2 ^ 32)]"

definition md5_digest :: "u8 list \<Rightarrow> u8 list" where
  "md5_digest msg = MD5Encode (state_words (absorb md5_iv (msg @ md5_pad (length msg))))"

section \<open>Digests computed piece by piece\<close>

locale stream_digest =
  fixes init :: 'c
    and upd :: "'c \<Rightarrow> 'a list \<Rightarrow> 'c"
    and fin :: "'c \<Rightarrow> 'd"
    and rep :: "'c \<Rightarrow> 'a list \<Rightarrow> bool"
    and small :: "'a list \<Rightarrow> bool"
    and digest :: "'a list \<Rightarrow> 'd"
  assumes rep_init: "rep init []"
    and rep_upd: "rep c m \<Longrightarrow> small xs \<Longrightarrow> rep (upd c xs) (m @ xs)"
    and fin_rep: "rep c m \<Longrightarrow> fin c = digest m"
begin

lemma rep_chunks: "rep c m \<Longrightarrow> list_all small cs \<Longrightarrow> rep (foldl upd c cs) (m @ concat cs)"
proof (induction cs arbitrary: c m)
  case (Cons x cs)
  then have "rep (upd c x) (m @ x)" by (simp add: rep_upd)
  with Cons show ?case by fastforce
qed simp

lemma fin_chunks: "list_all small cs \<Longrightarrow> fin (foldl upd init cs) = digest (concat cs)"
  using rep_chunks [OF rep_init] by (simp add: fin_rep)

end

section \<open>The streaming interface computes the reference\<close>

definition whole :: "'a list \<Rightarrow> 'a list" where "whole bs = take (64 * (length bs div 64)) bs"
definition rest :: "'a list \<Rightarrow> 'a list" where "rest bs = drop (64 * (length bs div 64)) bs"

definition absorbed :: "MD5_CTX \<Rightarrow> u8 list \<Rightarrow> bool" where
  "absorbed ctx msg \<longleftrightarrow> length (buffer ctx) = 64
     \<and> count0 ctx = word_of_nat (8 * length msg) \<and> count1 ctx = word_of_nat (8 * length msg div 2 ^ 32)
     \<and> take (length msg mod 64) (buffer ctx) = rest msg \<and> md_state ctx = absorb md5_iv msg"

lemma length_rest [simp]: "length (rest bs) = length bs mod 64"
  by (simp add: rest_def minus_mult_div_eq_mod)

lemma length_whole: "length (whole bs) = 64 * (length bs div 64)"
  by (simp add: whole_def)

lemma whole_rest: "whole bs @ rest bs = bs"
  by (simp add: whole_def rest_def)

lemma rest_append_dvd:
  assumes "64 dvd length xs"
  shows "rest (xs @ ys) = rest ys"
proof -
  from assms obtain k where "length xs = 64 * k" by blast
  then show ?thesis by (simp add: rest_def)
qed

lemma rest_append: "rest (msg @ xs) = rest (rest msg @ xs)"
  using rest_append_dvd [of "whole msg" "rest msg @ xs"] whole_rest [of msg]
  by (metis append.assoc dvd_triv_left length_whole)

lemma absorb_append:
  assumes "length xs = 64 * k"
  shows "absorb st (xs @ ys) = absorb (absorb st xs) ys"
  using assms
proof (induction k arbitrary: st xs)
  case 0
  then show ?case by (simp add: absorb.simps [of st "[]"])
next
  case (Suc k)
  have "absorb st (xs @ ys) = absorb (MD5Transform st (take 64 xs)) (drop 64 xs @ ys)"
    using Suc.prems by (subst absorb.simps) simp
  also have "\<dots> = absorb (absorb (MD5Transform st (take 64 xs)) (drop 64 xs)) ys"
    by (rule Suc.IH) (simp add: Suc.prems)
  also have "absorb (MD5Transform st (take 64 xs)) (drop 64 xs) = absorb st xs"
    using Suc.prems by (subst (2) absorb.simps) simp
  finally show ?case .
qed

lemma absorb_short: "length bs < 64 \<Longrightarrow> absorb st bs = st"
  by (simp add: absorb.simps)

lemma absorb_whole: "absorb st (whole bs) = absorb st bs"
  using absorb_append [of "whole bs" "length bs div 64" st "rest bs"]
  by (simp add: length_whole whole_rest absorb_short)

lemma absorb_rest: "absorb st (msg @ xs) = absorb (absorb st msg) (rest msg @ xs)"
  using absorb_append [of "whole msg" "length msg div 64" st "rest msg @ xs"]
  by (metis append.assoc absorb_whole length_whole whole_rest)

lemma update_loop_spec:
  "i \<le> length input \<Longrightarrow>
   update_loop input i st = (i + 64 * ((length input - i) div 64), absorb st (drop i input))"
proof (induction input i st rule: update_loop.induct)
  case (1 input i st)
  show ?case
  proof (cases "i + 64 \<le> length input")
    case True
    then have "(length input - i) div 64 = Suc ((length input - (i + 64)) div 64)"
      using le_div_geq [of 64 "length input - i"] by simp
    moreover have "absorb st (drop i input) = absorb (MD5Transform st (take 64 (drop i input))) (drop (i + 64) input)"
      using True by (subst absorb.simps) (auto simp: add.commute)
    ultimately show ?thesis
      using 1 True by (subst update_loop.simps) simp
  next
    case False
    with 1 show ?thesis by (subst update_loop.simps) (simp add: absorb_short)
  qed
qed

lemma count_carry:
  fixes l n :: nat
  assumes "n < 2 ^ 32"
  defines "c0 \<equiv> word_of_nat (8 * l) + push_bit 3 (word_of_nat n) :: u32"
  shows "c0 = word_of_nat (8 * (l + n))"
    and "(if c0 < push_bit 3 (word_of_nat n) then word_of_nat (8 * l div 2 ^ 32) + 1 else word_of_nat (8 * l div 2 ^ 32))
           + drop_bit 29 (word_of_nat n) = (word_of_nat (8 * (l + n) div 2 ^ 32) :: u32)"
proof -
  have p: "push_bit 3 (word_of_nat n) = (word_of_nat (8 * n) :: u32)"
    by (simp add: push_bit_eq_mult)
  show c0: "c0 = word_of_nat (8 * (l + n))"
    by (simp add: c0_def p distrib_left)
  define r s where "r = 8 * n mod 2 ^ 32" and "s = 8 * l mod 2 ^ 32"
  have "unat c0 = (s + r) mod 2 ^ 32" "unat (push_bit 3 (word_of_nat n) :: u32) = r"
    unfolding c0 p r_def s_def unat_of_nat distrib_left by (simp_all only: len_num0 len_num1 len_bit0 len_bit1 mod_add_eq) simp_all
  moreover have "r < 2 ^ 32" "s < 2 ^ 32" by (simp_all add: r_def s_def)
  ultimately have less: "c0 < push_bit 3 (word_of_nat n) \<longleftrightarrow> 2 ^ 32 \<le> s + r"
    by (auto simp: word_less_nat_alt mod_if le_mod_geq)
  have d: "drop_bit 29 (word_of_nat n) = (word_of_nat (8 * n div 2 ^ 32) :: u32)"
  proof (rule word_unat_eq_iff [THEN iffD2])
    have "unat (word_of_nat n :: u32) = n" "unat (word_of_nat (8 * n div 2 ^ 32) :: u32) = 8 * n div 2 ^ 32"
      using assms(1) by (simp_all only: unat_of_nat) simp_all
    then show "unat (drop_bit 29 (word_of_nat n) :: u32) = unat (word_of_nat (8 * n div 2 ^ 32) :: u32)"
      using assms(1) unfolding unsigned_drop_bit_eq by (simp add: drop_bit_eq_div take_bit_eq_mod)
  qed
  have "8 * (l + n) div 2 ^ 32 = 8 * l div 2 ^ 32 + 8 * n div 2 ^ 32 + (s + r) div 2 ^ 32"
    unfolding r_def s_def distrib_left by (rule div_add1_eq)
  moreover have "(s + r) div 2 ^ 32 = (if 2 ^ 32 \<le> s + r then 1 else 0)"
    using \<open>r < 2 ^ 32\<close> \<open>s < 2 ^ 32\<close> by (auto simp: div_if)
  ultimately show "(if c0 < push_bit 3 (word_of_nat n) then word_of_nat (8 * l div 2 ^ 32) + 1 else word_of_nat (8 * l div 2 ^ 32))
           + drop_bit 29 (word_of_nat n) = (word_of_nat (8 * (l + n) div 2 ^ 32) :: u32)"
    unfolding less d by (simp add: add_ac)
qed

lemma absorbedD:
  assumes "absorbed ctx msg"
  shows "length (buffer ctx) = 64" "count0 ctx = word_of_nat (8 * length msg)" "count1 ctx = word_of_nat (8 * length msg div 2 ^ 32)"
    "take (length msg mod 64) (buffer ctx) = rest msg" "md_state ctx = absorb md5_iv msg"
  using assms unfolding absorbed_def by blast+

lemma update_counts:
  "count0 (MD5Update ctx input) = count0 ctx + push_bit 3 (word_of_nat (length input))"
  "count1 (MD5Update ctx input) =
     (if count0 ctx + push_bit 3 (word_of_nat (length input)) < push_bit 3 (word_of_nat (length input)) then count1 ctx + 1 else count1 ctx)
       + drop_bit 29 (word_of_nat (length input))"
  by (simp_all add: MD5Update_def Let_def split: prod.split)

lemma ctx_index_absorbed:
  assumes "absorbed ctx msg"
  shows "ctx_index ctx = length msg mod 64"
proof -
  have "unat (drop_bit 3 (count0 ctx) AND 0x3F) = unat (take_bit 6 (drop_bit 3 (count0 ctx)))"
    by (simp add: take_bit_eq_mask mask_eq_exp_minus_1)
  also have "\<dots> = (8 * length msg mod 2 ^ 32) div 8 mod 64"
    unfolding absorbedD(2) [OF assms] unsigned_take_bit_eq unsigned_drop_bit_eq unat_of_nat by (simp add: take_bit_eq_mod drop_bit_eq_div)
  also have "\<dots> = length msg mod 64"
    using mod_mult_mult1 [of 8 "length msg" "2 ^ 29"] by (simp add: mod_mod_cancel)
  finally show ?thesis by (simp add: ctx_index_def)
qed

lemma update_absorbed:
  assumes "absorbed ctx msg" and small: "length input < 2 ^ 32"
  shows "absorbed (MD5Update ctx input) (msg @ input)"
proof -
  define k where "k = length msg mod 64"
  have k: "k < 64" "ctx_index ctx = k" "length (rest msg) = k"
    using ctx_index_absorbed [OF assms(1)] by (simp_all add: k_def)
  have b: "length (buffer ctx) = 64" "take k (buffer ctx) = rest msg" and st: "md_state ctx = absorb md5_iv msg"
    using assms(1) by (simp_all add: absorbed_def k_def)
  have c: "count0 (MD5Update ctx input) = word_of_nat (8 * length (msg @ input))"
    "count1 (MD5Update ctx input) = word_of_nat (8 * length (msg @ input) div 2 ^ 32)"
    unfolding update_counts absorbedD(2,3) [OF assms(1)] length_append by (rule count_carry [OF small])+
  have m: "length (msg @ input) mod 64 = (k + length input) mod 64"
    by (simp add: k_def mod_simps)
  show ?thesis
  proof (cases "64 - k \<le> length input")
    case True
    define n where "n = length input - (64 - k)"
    define i where "i = 64 - k + 64 * (n div 64)"
    define buf where "buf = rest msg @ take (64 - k) input"
    have buf: "write_at (buffer ctx) k (take (64 - k) input) = buf" "length buf = 64"
      using True k b by (simp_all add: write_at_def buf_def)
    have split: "rest msg @ input = buf @ drop (64 - k) input"
      by (simp add: buf_def)
    have rest: "rest (msg @ input) = drop i input"
      unfolding rest_append [of msg] split rest_append_dvd [of buf, unfolded buf(2), OF dvd_refl]
      using True by (simp add: rest_def i_def n_def add.commute)
    have "absorb md5_iv (msg @ input) = absorb (MD5Transform (md_state ctx) buf) (drop (64 - k) input)"
      unfolding absorb_rest [of _ msg] split st [symmetric]
      by (subst absorb.simps) (simp add: buf)
    then have upd: "md_state (MD5Update ctx input) = absorb md5_iv (msg @ input)"
      "buffer (MD5Update ctx input) = write_at buf 0 (drop i input)"
      using True k buf update_loop_spec [OF True]
      by (simp_all add: MD5Update_def Let_def i_def n_def)
    have "length (drop i input) = length (msg @ input) mod 64"
      unfolding rest [symmetric] by simp
    then show ?thesis
      using c upd rest buf by (simp add: absorbed_def write_at_def)
  next
    case False
    then have upd: "md_state (MD5Update ctx input) = md_state ctx"
      "buffer (MD5Update ctx input) = write_at (buffer ctx) k input"
      using k by (simp_all add: MD5Update_def Let_def)
    have "rest (msg @ input) = rest msg @ input" "absorb md5_iv (msg @ input) = absorb md5_iv msg"
      using False k by (simp_all add: rest_append [of msg] absorb_rest [of _ msg] rest_def [of "rest msg @ input"] absorb_short)
    then show ?thesis
      using c upd st b k False m by (simp add: absorbed_def write_at_def)
  qed
qed

lemma length_encode [simp]: "length (MD5Encode ws) = 4 * length ws"
  by (induction ws rule: MD5Encode.induct) simp_all

lemma final_digest:
  assumes "absorbed ctx msg"
  shows "MD5Final ctx = md5_digest msg"
proof -
  define k where "k = length msg mod 64"
  define pl where "pl = (if k < 56 then 56 - k else 120 - k)"
  have k: "k < 64" "ctx_index ctx = k"
    using ctx_index_absorbed [OF assms] by (simp_all add: k_def)
  have bits: "MD5Encode [count0 ctx, count1 ctx] = MD5Encode [word_of_nat (8 * length msg), word_of_nat (8 * length msg div 2 ^ 32)]"
    unfolding absorbedD(2,3) [OF assms] ..
  have "pl = Suc ((119 - k) mod 64)"
    using k by (auto simp: pl_def mod_if)
  moreover have "pl \<le> 64" using k by (auto simp: pl_def)
  ultimately have pad: "take pl PADDING @ MD5Encode [count0 ctx, count1 ctx] = md5_pad (length msg)"
    unfolding bits md5_pad_def k_def [symmetric] PADDING_def by (simp add: min_def)
  have "absorbed (MD5Update (MD5Update ctx (take pl PADDING)) (MD5Encode [count0 ctx, count1 ctx]))
          ((msg @ take pl PADDING) @ MD5Encode [count0 ctx, count1 ctx])"
    using \<open>pl \<le> 64\<close> by (intro update_absorbed assms) (simp_all add: PADDING_def)
  then have "md_state (MD5Update (MD5Update ctx (take pl PADDING)) (MD5Encode [count0 ctx, count1 ctx]))
      = absorb md5_iv (msg @ md5_pad (length msg))"
    by (simp add: absorbed_def flip: pad)
  then show ?thesis
    using k by (simp add: MD5Final_def Let_def md5_digest_def flip: pl_def)
qed

lemma init_absorbed: "length buf = 64 \<Longrightarrow> absorbed (MD5Init buf) []"
  by (simp add: absorbed_def MD5Init_def rest_def absorb_short)

interpretation md5: stream_digest "MD5Init (replicate 64 0)" MD5Update MD5Final absorbed "\<lambda>xs. length xs < 2 ^ 32" md5_digest
  by unfold_locales (simp_all only: init_absorbed update_absorbed final_digest length_replicate)



end
