(* ===== verification/Frame_Queue.thy ===== *)
theory Frame_Queue
  imports Aic_Prelude "HOL-Library.Multiset"
begin

text \<open>
  The packet queues between the USB completion handlers and the receive threads (\<^verbatim>\<open>aicwf_txrxif.c\<close>, \<^verbatim>\<open>aicwf_txrxif.h\<close>): the
  queue with up to eight priorities behind \<^verbatim>\<open>rxq\<close> and \<^verbatim>\<open>msg_rxq\<close>, and the plain queue of preallocated buffers.  A socket buffer is
  any value of type \<open>'a\<close>; a \<^verbatim>\<open>sk_buff_head\<close> is a list, its \<^verbatim>\<open>qlen\<close> the length of the list.  Operations that free buffers also
  return the buffers they freed.
\<close>

section \<open>The queue with priorities\<close>

record 'a frame_queue =
  num_prio :: u16
  hi_prio :: u16
  qmax :: u16
  qcnt :: u16
  queuelist :: "'a list list"

definition aicwf_frame_queue_penq :: "'a frame_queue \<Rightarrow> nat \<Rightarrow> 'a \<Rightarrow> 'a frame_queue option" where
  "aicwf_frame_queue_penq pq prio p =
    (if unat (qmax pq) \<le> length (queuelist pq ! prio) then None
     else Some (pq\<lparr>queuelist := (queuelist pq)[prio := queuelist pq ! prio @ [p]], qcnt := qcnt pq + 1,
                  hi_prio := if unat (hi_prio pq) < prio then word_of_nat prio else hi_prio pq\<rparr>))"

text \<open>\<^verbatim>\<open>skb_queue_walk_safe\<close>: the walk always unlinks the first packet that is left.\<close>

fun flush_walk :: "nat \<Rightarrow> 'a list \<Rightarrow> 'a frame_queue \<times> 'a list \<Rightarrow> 'a frame_queue \<times> 'a list" where
  "flush_walk prio [] acc = acc"
| "flush_walk prio (p # ps) (pq, freed) =
     flush_walk prio ps (pq\<lparr>queuelist := (queuelist pq)[prio := tl (queuelist pq ! prio)], qcnt := qcnt pq - 1\<rparr>, freed @ [p])"

definition aicwf_frame_queue_flush :: "'a frame_queue \<Rightarrow> 'a frame_queue \<times> 'a list" where
  "aicwf_frame_queue_flush pq =
     fold (\<lambda>prio acc. flush_walk prio (queuelist (fst acc) ! prio) acc) [0..<unat (num_prio pq)] (pq, [])"

text \<open>\<open>pq\<close> is the memory that is initialised: lists beyond \<open>n\<close> stay as they are.\<close>

definition aicwf_frame_queue_init :: "'a frame_queue \<Rightarrow> nat \<Rightarrow> nat \<Rightarrow> 'a frame_queue" where
  "aicwf_frame_queue_init pq n max_len =
     \<lparr>num_prio = word_of_nat n, hi_prio = 0, qmax = word_of_nat max_len, qcnt = 0,
      queuelist = replicate n [] @ drop n (queuelist pq)\<rparr>"

function peek_prio :: "'a list list \<Rightarrow> nat \<Rightarrow> nat \<Rightarrow> nat" where
  "peek_prio ls hi prio = (if prio < hi \<and> ls ! prio = [] then peek_prio ls hi (prio + 1) else prio)"
  by pat_completeness auto
termination by (relation "measure (\<lambda>(ls, hi, prio). hi - prio)") auto

declare peek_prio.simps [simp del]

definition skb_peek_tail :: "'a list \<Rightarrow> 'a option" where
  "skb_peek_tail q = (if q = [] then None else Some (last q))"

text \<open>The second component is \<^verbatim>\<open>*prio_out\<close>, \<open>None\<close> where the source leaves it alone.\<close>

definition aicwf_frame_queue_peek_tail :: "'a frame_queue \<Rightarrow> 'a option \<times> nat option" where
  "aicwf_frame_queue_peek_tail pq =
    (if qcnt pq = 0 then (None, None)
     else let prio = peek_prio (queuelist pq) (unat (hi_prio pq)) 0
          in (skb_peek_tail (queuelist pq ! prio), Some prio))"

definition aicwf_is_framequeue_empty :: "'a frame_queue \<Rightarrow> bool" where
  "aicwf_is_framequeue_empty pq \<longleftrightarrow> sum_list (map (\<lambda>prio. length (queuelist pq ! prio)) [0..<unat (hi_prio pq) + 1]) = 0"

function lower_prio :: "'a list list \<Rightarrow> nat \<Rightarrow> nat" where
  "lower_prio ls hi = (if 0 < hi \<and> ls ! hi = [] then lower_prio ls (hi - 1) else hi)"
  by pat_completeness auto
termination by (relation "measure snd") auto

declare lower_prio.simps [simp del]

definition aicwf_frame_dequeue :: "'a frame_queue \<Rightarrow> 'a option \<times> 'a frame_queue" where
  "aicwf_frame_dequeue pq =
    (if qcnt pq = 0 then (None, pq)
     else let prio = lower_prio (queuelist pq) (unat (hi_prio pq));
              pq1 = pq\<lparr>hi_prio := word_of_nat prio\<rparr>
          in case queuelist pq ! prio of
               [] \<Rightarrow> (None, pq1)
             | p # q \<Rightarrow> (Some p, pq1\<lparr>queuelist := (queuelist pq)[prio := q], qcnt := qcnt pq - 1\<rparr>))"

definition aicwf_skb_dequeue_tail :: "'a frame_queue \<Rightarrow> nat \<Rightarrow> 'a option \<times> 'a frame_queue" where
  "aicwf_skb_dequeue_tail pq prio =
    (if queuelist pq ! prio = [] then (None, pq)
     else (Some (last (queuelist pq ! prio)),
           pq\<lparr>queuelist := (queuelist pq)[prio := butlast (queuelist pq ! prio)], qcnt := qcnt pq - 1\<rparr>))"

text \<open>Returned are the value of the function, the queue and the packets that were freed.\<close>

definition enq_replace :: "'a frame_queue \<Rightarrow> 'a \<Rightarrow> nat \<Rightarrow> bool \<times> 'a frame_queue \<times> 'a list" where
  "enq_replace q pkt prio_modified =
    (let (p, q1) = aicwf_skb_dequeue_tail q prio_modified;
         freed = (case p of None \<Rightarrow> [] | Some x \<Rightarrow> [x])
     in case aicwf_frame_queue_penq q1 prio_modified pkt of
          None \<Rightarrow> (False, q1, freed)
        | Some q2 \<Rightarrow> (True, q2, freed))"

definition aicwf_frame_enq :: "'a frame_queue \<Rightarrow> 'a \<Rightarrow> nat \<Rightarrow> bool \<times> 'a frame_queue \<times> 'a list" where
  "aicwf_frame_enq q pkt prio =
    (if length (queuelist q ! prio) < unat (qmax q) \<and> qcnt q < qmax q then
       (case aicwf_frame_queue_penq q prio pkt of None \<Rightarrow> (True, q, []) | Some q1 \<Rightarrow> (True, q1, []))
     else if unat (qmax q) \<le> length (queuelist q ! prio) then (False, q, [])
     else if qmax q \<le> qcnt q then
       (case aicwf_frame_queue_peek_tail q of
          (p, None) \<Rightarrow> (p \<noteq> None, q, [])
        | (p, Some prio_modified) \<Rightarrow>
            if prio \<le> prio_modified then (False, q, []) else enq_replace q pkt prio_modified)
     else (False, q, []))"

definition aicwf_rxframe_enqueue :: "'a frame_queue \<Rightarrow> 'a \<Rightarrow> bool \<times> 'a frame_queue \<times> 'a list" where
  "aicwf_rxframe_enqueue q pkt = aicwf_frame_enq q pkt 0"

section \<open>The queue of preallocated buffers\<close>

record 'a rx_frame_queue =
  rx_qmax :: u16
  rx_qcnt :: u16
  rx_queuelist :: "'a list"

definition aicwf_rxframe_queue_init_2 :: "nat \<Rightarrow> 'a rx_frame_queue" where
  "aicwf_rxframe_queue_init_2 max_len = \<lparr>rx_qmax = word_of_nat max_len, rx_qcnt = 0, rx_queuelist = []\<rparr>"

fun rxbuff_flush_walk :: "'a list \<Rightarrow> 'a rx_frame_queue \<times> 'a list \<Rightarrow> 'a rx_frame_queue \<times> 'a list" where
  "rxbuff_flush_walk [] acc = acc"
| "rxbuff_flush_walk (p # ps) (pq, freed) =
     rxbuff_flush_walk ps (pq\<lparr>rx_queuelist := tl (rx_queuelist pq), rx_qcnt := rx_qcnt pq - 1\<rparr>, freed @ [p])"

definition rxbuff_queue_flush :: "'a rx_frame_queue \<Rightarrow> 'a rx_frame_queue \<times> 'a list" where
  "rxbuff_queue_flush pq = rxbuff_flush_walk (rx_queuelist pq) (pq, [])"

definition rxbuff_queue_penq :: "'a rx_frame_queue \<Rightarrow> 'a \<Rightarrow> 'a rx_frame_queue option" where
  "rxbuff_queue_penq pq p =
    (if rx_qmax pq \<le> rx_qcnt pq then None
     else Some (pq\<lparr>rx_queuelist := rx_queuelist pq @ [p], rx_qcnt := rx_qcnt pq + 1\<rparr>))"

definition rxbuff_dequeue :: "'a rx_frame_queue \<Rightarrow> 'a option \<times> 'a rx_frame_queue" where
  "rxbuff_dequeue pq =
    (if rx_qcnt pq = 0 then (None, pq)
     else case rx_queuelist pq of
            [] \<Rightarrow> (None, pq)
          | p # q \<Rightarrow> (Some p, pq\<lparr>rx_queuelist := q, rx_qcnt := rx_qcnt pq - 1\<rparr>))"

text \<open>\<open>None\<close> is the null pointer, for the queue or for the buffer.\<close>

definition aicwf_rxbuff_enqueue :: "'a rx_frame_queue option \<Rightarrow> 'a option \<Rightarrow> bool \<times> 'a rx_frame_queue option" where
  "aicwf_rxbuff_enqueue rxq pkt =
    (case (rxq, pkt) of
       (Some q, Some p) \<Rightarrow>
         if rx_qcnt q < rx_qmax q then
           (case rxbuff_queue_penq q p of None \<Rightarrow> (False, Some q) | Some q1 \<Rightarrow> (True, Some q1))
         else (False, Some q)
     | _ \<Rightarrow> (False, rxq))"

section \<open>Bounded first-in first-out queues\<close>

datatype 'a fifo_op = Put 'a | Get

text \<open>Run a sequence of operations; collect what was accepted and what was delivered.\<close>

fun fifo_run :: "('q \<Rightarrow> 'a \<Rightarrow> bool \<times> 'q) \<Rightarrow> ('q \<Rightarrow> 'a option \<times> 'q) \<Rightarrow> 'a fifo_op list \<Rightarrow> 'q \<Rightarrow> 'a list \<times> 'a list \<times> 'q" where
  "fifo_run enq deq [] q = ([], [], q)"
| "fifo_run enq deq (Put x # ops) q =
     (case enq q x of (ok, q1) \<Rightarrow>
       case fifo_run enq deq ops q1 of (a, d, q2) \<Rightarrow> (if ok then x # a else a, d, q2))"
| "fifo_run enq deq (Get # ops) q =
     (case deq q of (r, q1) \<Rightarrow>
       case fifo_run enq deq ops q1 of (a, d, q2) \<Rightarrow> (a, case r of None \<Rightarrow> d | Some x \<Rightarrow> x # d, q2))"

locale bounded_fifo =
  fixes enq :: "'q \<Rightarrow> 'a \<Rightarrow> bool \<times> 'q"
    and deq :: "'q \<Rightarrow> 'a option \<times> 'q"
    and items :: "'q \<Rightarrow> 'a list"
    and cap :: "'q \<Rightarrow> nat"
    and good :: "'q \<Rightarrow> bool"
  assumes bounded: "good q \<Longrightarrow> length (items q) \<le> cap q"
    and enq_room: "good q \<Longrightarrow> length (items q) < cap q \<Longrightarrow>
          \<exists>q'. enq q x = (True, q') \<and> good q' \<and> items q' = items q @ [x] \<and> cap q' = cap q"
    and enq_full: "good q \<Longrightarrow> length (items q) = cap q \<Longrightarrow> enq q x = (False, q)"
    and deq_empty: "good q \<Longrightarrow> items q = [] \<Longrightarrow> deq q = (None, q)"
    and deq_first: "good q \<Longrightarrow> items q = x # xs \<Longrightarrow>
          \<exists>q'. deq q = (Some x, q') \<and> good q' \<and> items q' = xs \<and> cap q' = cap q"
begin

lemma fifo_order:
  "fifo_run enq deq ops q = (a, d, q') \<Longrightarrow> good q \<Longrightarrow>
   good q' \<and> cap q' = cap q \<and> items q @ a = d @ items q'"
proof (induction ops arbitrary: q a d)
  case (Cons oper ops)
  show ?case
  proof (cases oper)
    case (Put x)
    show ?thesis
    proof (cases "length (items q) < cap q")
      case True
      then obtain q1 where q1: "enq q x = (True, q1)" "good q1" "items q1 = items q @ [x]" "cap q1 = cap q"
        using enq_room Cons.prems(2) by blast
      then obtain a1 where "fifo_run enq deq ops q1 = (a1, d, q')" "a = x # a1"
        using Cons.prems(1) Put by (auto split: prod.splits)
      with Cons.IH [of q1 a1 d] q1 show ?thesis by simp
    next
      case False
      then have "enq q x = (False, q)"
        using enq_full bounded [OF Cons.prems(2)] Cons.prems(2) by simp
      then have "fifo_run enq deq ops q = (a, d, q')"
        using Cons.prems(1) Put by (auto split: prod.splits)
      with Cons.IH Cons.prems(2) show ?thesis by blast
    qed
  next
    case Get
    show ?thesis
    proof (cases "items q")
      case Nil
      then have "fifo_run enq deq ops q = (a, d, q')"
        using Cons.prems Get deq_empty by (auto split: prod.splits)
      with Cons.IH Cons.prems(2) show ?thesis by blast
    next
      case (Cons x xs)
      then obtain q1 where q1: "deq q = (Some x, q1)" "good q1" "items q1 = xs" "cap q1 = cap q"
        using deq_first Cons.prems(2) by blast
      then obtain d1 where "fifo_run enq deq ops q1 = (a, d1, q')" "d = x # d1"
        using Cons.prems(1) Get by (auto split: prod.splits)
      with Cons.IH [of q1 a d1] q1 \<open>items q = x # xs\<close> show ?thesis by simp
    qed
  qed
qed simp

end

section \<open>The invariant of the queue with priorities\<close>

definition queued :: "'a frame_queue \<Rightarrow> 'a list" where
  "queued pq = concat (take (unat (num_prio pq)) (queuelist pq))"

definition fq_ok :: "'a frame_queue \<Rightarrow> bool" where
  "fq_ok pq \<longleftrightarrow> length (queuelist pq) = 8 \<and> unat (num_prio pq) \<le> 8 \<and> unat (hi_prio pq) < unat (num_prio pq)
     \<and> unat (qcnt pq) = length (queued pq) \<and> unat (qcnt pq) \<le> unat (qmax pq)
     \<and> (\<forall>i. unat (hi_prio pq) < i \<and> i < unat (num_prio pq) \<longrightarrow> queuelist pq ! i = [])"

lemma mset_concat_update:
  "i < length ls \<Longrightarrow> mset (concat (ls[i := x])) + mset (ls ! i) = mset (concat ls) + mset x"
proof (induction ls arbitrary: i)
  case (Cons l ls)
  then show ?case by (cases i) (auto simp: ac_simps)
qed simp

lemma queued_update:
  assumes "i < unat (num_prio pq)" "i < length (queuelist pq)"
  shows "mset (queued (pq\<lparr>queuelist := (queuelist pq)[i := x]\<rparr>)) + mset (queuelist pq ! i) = mset (queued pq) + mset x"
  using mset_concat_update [of i "take (unat (num_prio pq)) (queuelist pq)" x] assms
  by (simp add: queued_def take_update_swap)

lemma length_queued_update:
  assumes "i < unat (num_prio pq)" "i < length (queuelist pq)"
  shows "length (queued (pq\<lparr>queuelist := (queuelist pq)[i := x]\<rparr>)) + length (queuelist pq ! i) = length (queued pq) + length x"
  using arg_cong [OF queued_update [OF assms, of x], of size] by simp

lemma queued_cong [simp]:
  "queued (pq\<lparr>qcnt := c\<rparr>) = queued pq" "queued (pq\<lparr>hi_prio := h\<rparr>) = queued pq"
  "queued (pq\<lparr>hi_prio := h, queuelist := l\<rparr>) = queued (pq\<lparr>queuelist := l\<rparr>)"
  by (simp_all add: queued_def)

lemma queue_in_queued:
  assumes "i < unat (num_prio pq)" "i < length (queuelist pq)"
  shows "length (queuelist pq ! i) \<le> length (queued pq)"
proof -
  have "queuelist pq ! i \<in> set (take (unat (num_prio pq)) (queuelist pq))"
    using assms by (auto simp: in_set_conv_nth intro!: exI [of _ i])
  then show ?thesis
    by (auto simp: queued_def length_concat dest!: split_list)
qed

lemma queue_le_queued: "fq_ok pq \<Longrightarrow> i < unat (num_prio pq) \<Longrightarrow> length (queuelist pq ! i) \<le> length (queued pq)"
  by (rule queue_in_queued) (auto simp: fq_ok_def)

lemma nonempty_below_hi:
  assumes "fq_ok pq" "qcnt pq \<noteq> 0"
  obtains i where "i \<le> unat (hi_prio pq)" "queuelist pq ! i \<noteq> []"
proof -
  have "queued pq \<noteq> []" using assms by (auto simp: fq_ok_def unat_eq_0)
  then obtain i where "i < unat (num_prio pq)" "queuelist pq ! i \<noteq> []"
    by (auto simp: queued_def in_set_conv_nth)
  moreover have "i \<le> unat (hi_prio pq)"
    using calculation assms(1) unfolding fq_ok_def by (metis not_le)
  ultimately show ?thesis using that by blast
qed

lemma peek_prio_spec:
  "prio \<le> hi \<Longrightarrow> (let k = peek_prio ls hi prio in prio \<le> k \<and> k \<le> hi \<and> (\<forall>j. prio \<le> j \<and> j < k \<longrightarrow> ls ! j = []) \<and> (k = hi \<or> ls ! k \<noteq> []))"
proof (induction ls hi prio rule: peek_prio.induct)
  case (1 ls hi prio)
  show ?case
  proof (cases "prio < hi \<and> ls ! prio = []")
    case True
    with 1 have I: "let k = peek_prio ls hi (prio + 1) in prio + 1 \<le> k \<and> k \<le> hi \<and> (\<forall>j. prio + 1 \<le> j \<and> j < k \<longrightarrow> ls ! j = []) \<and> (k = hi \<or> ls ! k \<noteq> [])"
      by simp
    have "ls ! j = []" if "prio \<le> j" "j < peek_prio ls hi (prio + 1)" for j
      using I True that by (cases "j = prio") (auto simp: Let_def)
    with I True show ?thesis by (subst peek_prio.simps) (auto simp: Let_def)
  next
    case False
    with 1 show ?thesis by (subst peek_prio.simps) (auto simp: Let_def)
  qed
qed

lemma lower_prio_spec:
  "let k = lower_prio ls hi in k \<le> hi \<and> (\<forall>j. k < j \<and> j \<le> hi \<longrightarrow> ls ! j = []) \<and> (k = 0 \<or> ls ! k \<noteq> [])"
proof (induction ls hi rule: lower_prio.induct)
  case (1 ls hi)
  show ?case
  proof (cases "0 < hi \<and> ls ! hi = []")
    case True
    with 1 have I: "let k = lower_prio ls (hi - 1) in k \<le> hi - 1 \<and> (\<forall>j. k < j \<and> j \<le> hi - 1 \<longrightarrow> ls ! j = []) \<and> (k = 0 \<or> ls ! k \<noteq> [])"
      by simp
    have "ls ! j = []" if "lower_prio ls (hi - 1) < j" "j \<le> hi" for j
      using I True that by (cases "j = hi") (auto simp: Let_def)
    with I True show ?thesis by (subst lower_prio.simps) (auto simp: Let_def)
  next
    case False
    then show ?thesis by (subst lower_prio.simps) (auto simp: Let_def)
  qed
qed

text \<open>The lowest priority that has packets, and the highest.\<close>

lemma peek_finds_lowest:
  assumes "fq_ok pq" "qcnt pq \<noteq> 0"
  defines "k \<equiv> peek_prio (queuelist pq) (unat (hi_prio pq)) 0"
  shows "queuelist pq ! k \<noteq> []" "k \<le> unat (hi_prio pq)" "j < k \<Longrightarrow> queuelist pq ! j = []"
proof -
  have P: "k \<le> unat (hi_prio pq)" "\<And>j. j < k \<Longrightarrow> queuelist pq ! j = []" "k = unat (hi_prio pq) \<or> queuelist pq ! k \<noteq> []"
    using peek_prio_spec [of 0 "unat (hi_prio pq)" "queuelist pq"] by (auto simp: k_def Let_def)
  obtain i where "i \<le> unat (hi_prio pq)" "queuelist pq ! i \<noteq> []"
    using nonempty_below_hi [OF assms(1,2)] .
  with P show "queuelist pq ! k \<noteq> []" by (metis le_neq_implies_less)
  show "k \<le> unat (hi_prio pq)" by (rule P(1))
  show "j < k \<Longrightarrow> queuelist pq ! j = []" by (rule P(2))
qed

lemma lower_finds_highest:
  assumes "fq_ok pq" "qcnt pq \<noteq> 0"
  defines "k \<equiv> lower_prio (queuelist pq) (unat (hi_prio pq))"
  shows "queuelist pq ! k \<noteq> []" "k \<le> unat (hi_prio pq)" "k < j \<Longrightarrow> j < unat (num_prio pq) \<Longrightarrow> queuelist pq ! j = []"
proof -
  have P: "k \<le> unat (hi_prio pq)" "\<And>j. k < j \<Longrightarrow> j \<le> unat (hi_prio pq) \<Longrightarrow> queuelist pq ! j = []" "k = 0 \<or> queuelist pq ! k \<noteq> []"
    using lower_prio_spec [of "queuelist pq" "unat (hi_prio pq)"] by (auto simp: k_def Let_def)
  obtain i where "i \<le> unat (hi_prio pq)" "queuelist pq ! i \<noteq> []"
    using nonempty_below_hi [OF assms(1,2)] .
  with P show "queuelist pq ! k \<noteq> []" by (metis le_neq_implies_less le0 not_le)
  show "k \<le> unat (hi_prio pq)" by (rule P(1))
  show "k < j \<Longrightarrow> j < unat (num_prio pq) \<Longrightarrow> queuelist pq ! j = []"
    using P(2) assms(1) unfolding fq_ok_def by (metis not_le)
qed

section \<open>What each operation does under the invariant\<close>

lemma unat_dec: "(w :: u16) \<noteq> 0 \<Longrightarrow> unat (w - 1) = unat w - 1"
  by (simp add: unat_minus_one)

lemma unat_inc: "unat (w :: u16) < unat (v :: u16) \<Longrightarrow> unat (w + 1) = unat w + 1"
proof -
  assume "unat w < unat v"
  with unat_u16_less [of v] have "unat w + unat (1 :: u16) < 2 ^ LENGTH(16)" by simp
  then show ?thesis by (simp add: unat_word_ariths(1))
qed

lemma penq_ok:
  assumes "fq_ok pq" "prio < unat (num_prio pq)" "qcnt pq < qmax pq"
  shows "\<exists>q'. aicwf_frame_queue_penq pq prio x = Some q' \<and> fq_ok q' \<and> mset (queued q') = add_mset x (mset (queued pq))
     \<and> queuelist q' = (queuelist pq)[prio := queuelist pq ! prio @ [x]] \<and> num_prio q' = num_prio pq \<and> qmax q' = qmax pq"
proof -
  define q' where "q' = pq\<lparr>queuelist := (queuelist pq)[prio := queuelist pq ! prio @ [x]], qcnt := qcnt pq + 1,
                  hi_prio := if unat (hi_prio pq) < prio then word_of_nat prio else hi_prio pq\<rparr>"
  have b: "prio < length (queuelist pq)" "prio < 8" "unat (qcnt pq) = length (queued pq)" "unat (qcnt pq) < unat (qmax pq)"
    using assms by (auto simp: fq_ok_def word_less_nat_alt)
  have "aicwf_frame_queue_penq pq prio x = Some q'"
    using queue_le_queued [OF assms(1,2)] b by (simp add: aicwf_frame_queue_penq_def q'_def)
  moreover have m: "mset (queued q') = add_mset x (mset (queued pq))"
    using queued_update [OF assms(2) b(1), of "queuelist pq ! prio @ [x]"] by (simp add: q'_def)
  moreover have "length (queued q') = Suc (length (queued pq))"
    using arg_cong [OF m, of size] by simp
  moreover have hi: "unat (word_of_nat prio :: u16) = prio"
    using b(2) by (simp add: unat_of_nat)
  moreover have "unat (qcnt pq + 1) = unat (qcnt pq) + 1"
    using b(4) by (rule unat_inc)
  ultimately have "fq_ok q'"
    using assms b by (auto simp: fq_ok_def q'_def nth_list_update)
  with m show ?thesis
    using \<open>aicwf_frame_queue_penq pq prio x = Some q'\<close> by (auto simp: q'_def)
qed

lemma dequeue_tail_ok:
  assumes "fq_ok pq" "prio < unat (num_prio pq)" "queuelist pq ! prio \<noteq> []"
  shows "\<exists>q'. aicwf_skb_dequeue_tail pq prio = (Some (last (queuelist pq ! prio)), q') \<and> fq_ok q'
     \<and> add_mset (last (queuelist pq ! prio)) (mset (queued q')) = mset (queued pq) \<and> qcnt q' = qcnt pq - 1 \<and> qcnt pq \<noteq> 0
     \<and> queuelist q' = (queuelist pq)[prio := butlast (queuelist pq ! prio)] \<and> num_prio q' = num_prio pq \<and> qmax q' = qmax pq"
proof -
  define q' where "q' = pq\<lparr>queuelist := (queuelist pq)[prio := butlast (queuelist pq ! prio)], qcnt := qcnt pq - 1\<rparr>"
  have b: "prio < length (queuelist pq)" "unat (qcnt pq) = length (queued pq)"
    using assms by (auto simp: fq_ok_def)
  have "mset (queuelist pq ! prio) = add_mset (last (queuelist pq ! prio)) (mset (butlast (queuelist pq ! prio)))"
    using assms(3) by (metis append_butlast_last_id mset.simps(1,2) mset_append add_mset_add_single)
  with queued_update [OF assms(2) b(1), of "butlast (queuelist pq ! prio)"]
  have m: "add_mset (last (queuelist pq ! prio)) (mset (queued q')) = mset (queued pq)"
    by (simp add: q'_def)
  have n: "qcnt pq \<noteq> 0" using queue_le_queued [OF assms(1,2)] assms(3) b(2) by auto
  moreover have "length (queued pq) = Suc (length (queued q'))"
    using arg_cong [OF m, of size] by simp
  ultimately have "fq_ok q'"
    using assms(1) b unat_dec [OF n] by (auto simp: fq_ok_def q'_def nth_list_update)
  with m n show ?thesis using assms(3) by (auto simp: aicwf_skb_dequeue_tail_def q'_def)
qed

lemma dequeue_ok:
  assumes "fq_ok pq" "qcnt pq \<noteq> 0"
  shows "\<exists>k x xs q'. aicwf_frame_dequeue pq = (Some x, q') \<and> fq_ok q' \<and> queuelist pq ! k = x # xs \<and> k < unat (num_prio pq)
     \<and> (\<forall>j. k < j \<and> j < unat (num_prio pq) \<longrightarrow> queuelist pq ! j = [])
     \<and> queuelist q' = (queuelist pq)[k := xs] \<and> add_mset x (mset (queued q')) = mset (queued pq)
     \<and> num_prio q' = num_prio pq \<and> qmax q' = qmax pq"
proof -
  define k where "k = lower_prio (queuelist pq) (unat (hi_prio pq))"
  note L = lower_finds_highest [OF assms, folded k_def]
  then obtain x xs where xs: "queuelist pq ! k = x # xs" by (auto simp: neq_Nil_conv)
  define q' where "q' = pq\<lparr>hi_prio := word_of_nat k, queuelist := (queuelist pq)[k := xs], qcnt := qcnt pq - 1\<rparr>"
  have b: "k < unat (num_prio pq)" "k < length (queuelist pq)" "k < 8" "unat (qcnt pq) = length (queued pq)"
    using assms(1) L(2) by (auto simp: fq_ok_def)
  have m: "add_mset x (mset (queued q')) = mset (queued pq)"
    using queued_update [OF b(1,2), of xs] xs by (simp add: q'_def)
  moreover have "length (queued pq) = Suc (length (queued q'))"
    using arg_cong [OF m, of size] by simp
  moreover have "unat (word_of_nat k :: u16) = k" using b(3) by (simp add: unat_of_nat)
  ultimately have "fq_ok q'"
    using assms b L(3) unat_dec [OF assms(2)] by (auto simp: fq_ok_def q'_def nth_list_update)
  with m b L(3) xs show ?thesis using assms(2)
    by (intro exI [of _ k] exI [of _ x] exI [of _ xs] exI [of _ q'])
      (auto simp: aicwf_frame_dequeue_def q'_def Let_def simp flip: k_def)
qed

lemma dequeue_empty: "qcnt pq = 0 \<Longrightarrow> aicwf_frame_dequeue pq = (None, pq)"
  by (simp add: aicwf_frame_dequeue_def)

lemma enq_room_ok:
  assumes "fq_ok pq" "prio < unat (num_prio pq)" "qcnt pq < qmax pq"
  shows "\<exists>q'. aicwf_frame_enq pq x prio = (True, q', []) \<and> fq_ok q' \<and> mset (queued q') = add_mset x (mset (queued pq))
     \<and> queuelist q' = (queuelist pq)[prio := queuelist pq ! prio @ [x]] \<and> num_prio q' = num_prio pq \<and> qmax q' = qmax pq"
proof -
  have "length (queuelist pq ! prio) < unat (qmax pq)"
    using queue_le_queued [OF assms(1,2)] assms by (auto simp: fq_ok_def word_less_nat_alt)
  with penq_ok [OF assms, of x] assms(3) show ?thesis by (auto simp: aicwf_frame_enq_def)
qed

lemma enq_full_refuse:
  assumes "fq_ok pq" "prio < unat (num_prio pq)" "qmax pq \<le> qcnt pq"
    and low: "\<forall>j < prio. queuelist pq ! j = []"
  shows "aicwf_frame_enq pq x prio = (False, pq, [])"
proof (cases "unat (qmax pq) \<le> length (queuelist pq ! prio)")
  case True
  with assms show ?thesis by (simp add: aicwf_frame_enq_def)
next
  case False
  have n: "qcnt pq \<noteq> 0" using False assms(1,3) by (auto simp: fq_ok_def word_le_nat_alt)
  have "prio \<le> peek_prio (queuelist pq) (unat (hi_prio pq)) 0"
    using low peek_finds_lowest(1) [OF assms(1) n] by (meson not_le)
  with False n assms(3) show ?thesis by (simp add: aicwf_frame_enq_def aicwf_frame_queue_peek_tail_def Let_def not_less [symmetric])
qed

lemma enq_full_displace:
  assumes "fq_ok pq" "prio < unat (num_prio pq)" "qmax pq \<le> qcnt pq"
    and k: "k < prio" "queuelist pq ! k \<noteq> []" "\<forall>j < k. queuelist pq ! j = []"
  shows "\<exists>q'. aicwf_frame_enq pq x prio = (True, q', [last (queuelist pq ! k)]) \<and> fq_ok q'
     \<and> add_mset (last (queuelist pq ! k)) (mset (queued q')) = add_mset x (mset (queued pq))
     \<and> queuelist q' = (queuelist pq)[k := butlast (queuelist pq ! k) @ [x]] \<and> num_prio q' = num_prio pq \<and> qmax q' = qmax pq"
proof -
  have kn: "k < unat (num_prio pq)" "k < length (queuelist pq)" using assms by (auto simp: fq_ok_def)
  obtain q1 where q1: "aicwf_skb_dequeue_tail pq k = (Some (last (queuelist pq ! k)), q1)" "fq_ok q1"
    "add_mset (last (queuelist pq ! k)) (mset (queued q1)) = mset (queued pq)" "qcnt q1 = qcnt pq - 1" "qcnt pq \<noteq> 0"
    "queuelist q1 = (queuelist pq)[k := butlast (queuelist pq ! k)]" "num_prio q1 = num_prio pq" "qmax q1 = qmax pq"
    using dequeue_tail_ok [OF assms(1) kn(1) k(2)] by blast
  have peek: "peek_prio (queuelist pq) (unat (hi_prio pq)) 0 = k"
    using peek_finds_lowest [OF assms(1) q1(5)] k(2,3) by (metis linorder_neqE_nat)
  have "unat (qcnt pq) \<le> unat (qmax pq)" using assms(1) by (simp add: fq_ok_def)
  with q1(4,5,8) have "qcnt q1 < qmax q1"
    using unat_dec [OF q1(5)] unat_eq_0 [of "qcnt pq"] by (simp add: word_less_nat_alt)
  then obtain q' where q': "aicwf_frame_queue_penq q1 k x = Some q'" "fq_ok q'"
    "mset (queued q') = add_mset x (mset (queued q1))" "queuelist q' = (queuelist q1)[k := queuelist q1 ! k @ [x]]"
    "num_prio q' = num_prio pq" "qmax q' = qmax pq"
    using penq_ok [OF q1(2), of k x] q1(7,8) kn(1) by auto
  have room: "length (queuelist pq ! prio) < unat (qmax pq)"
  proof -
    let ?q = "pq\<lparr>queuelist := (queuelist pq)[prio := []]\<rparr>"
    have p: "prio < length (queuelist pq)" using assms(1,2) by (simp add: fq_ok_def)
    have "length (queuelist pq ! k) \<le> length (queued ?q)"
      using queue_in_queued [of k ?q] kn k(1) by simp
    with k(2) have "0 < length (queued ?q)" by (metis le_zero_eq length_0_conv not_gr_zero)
    moreover have "length (queued ?q) + length (queuelist pq ! prio) = length (queued pq)"
      using length_queued_update [OF assms(2) p, of "[]"] by simp
    moreover have "length (queued pq) \<le> unat (qmax pq)" using assms(1) by (simp add: fq_ok_def)
    ultimately show ?thesis by linarith
  qed
  show ?thesis
    using room assms(3) q1(1,3,5,6) q' peek k(1) kn
    by (auto simp: aicwf_frame_enq_def aicwf_frame_queue_peek_tail_def enq_replace_def Let_def)
qed

lemma flush_walk_spec:
  "queuelist pq ! prio = ps \<Longrightarrow> prio < length (queuelist pq) \<Longrightarrow>
   flush_walk prio ps (pq, fr) = (pq\<lparr>queuelist := (queuelist pq)[prio := []], qcnt := qcnt pq - word_of_nat (length ps)\<rparr>, fr @ ps)"
proof (induction ps arbitrary: pq fr)
  case Nil
  then have "(queuelist pq)[prio := []] = queuelist pq" by (metis list_update_id)
  then show ?case by simp
next
  case (Cons p ps)
  let ?q = "pq\<lparr>queuelist := (queuelist pq)[prio := tl (queuelist pq ! prio)], qcnt := qcnt pq - 1\<rparr>"
  have "queuelist ?q ! prio = ps" "prio < length (queuelist ?q)" using Cons.prems by simp_all
  from Cons.IH [OF this, of "fr @ [p]"] show ?case by (simp add: algebra_simps)
qed

lemma flush_spec:
  assumes "n \<le> length (queuelist pq)"
  shows "fold (\<lambda>prio acc. flush_walk prio (queuelist (fst acc) ! prio) acc) [0..<n] (pq, []) =
     (pq\<lparr>queuelist := replicate n [] @ drop n (queuelist pq), qcnt := qcnt pq - word_of_nat (length (concat (take n (queuelist pq))))\<rparr>,
      concat (take n (queuelist pq)))"
  using assms
proof (induction n)
  case (Suc n)
  let ?q = "pq\<lparr>queuelist := replicate n [] @ drop n (queuelist pq), qcnt := qcnt pq - word_of_nat (length (concat (take n (queuelist pq))))\<rparr>"
  have "queuelist ?q ! n = queuelist pq ! n" "n < length (queuelist ?q)" using Suc.prems by (simp_all add: nth_append)
  moreover have "(replicate n [] @ drop n (queuelist pq))[n := []] = replicate (Suc n) [] @ drop (Suc n) (queuelist pq)"
    using Suc.prems by (simp add: list_update_append replicate_append_same Cons_nth_drop_Suc [symmetric] flip: replicate_append_same)
  ultimately show ?case
    using Suc by (simp add: flush_walk_spec take_Suc_conv_app_nth algebra_simps)
qed simp

lemma flush_ok:
  assumes "fq_ok pq"
  shows "\<exists>q'. aicwf_frame_queue_flush pq = (q', queued pq) \<and> fq_ok q' \<and> queued q' = [] \<and> num_prio q' = num_prio pq \<and> qmax q' = qmax pq"
proof -
  let ?n = "unat (num_prio pq)"
  define q' where "q' = pq\<lparr>queuelist := replicate ?n [] @ drop ?n (queuelist pq), qcnt := 0\<rparr>"
  have "qcnt pq = word_of_nat (length (queued pq))"
  proof -
    have "word_of_nat (unat (qcnt pq)) = qcnt pq" by simp
    then show ?thesis using assms by (simp only: fq_ok_def)
  qed
  then have "aicwf_frame_queue_flush pq = (q', queued pq)"
    using assms flush_spec [of ?n pq] by (simp add: aicwf_frame_queue_flush_def fq_ok_def q'_def queued_def)
  moreover have "queued q' = []" by (simp add: queued_def q'_def)
  moreover have "fq_ok q'"
    using assms \<open>queued q' = []\<close> by (auto simp: fq_ok_def q'_def nth_append)
  ultimately show ?thesis by (auto simp: q'_def)
qed

lemma empty_iff:
  assumes "fq_ok pq"
  shows "aicwf_is_framequeue_empty pq \<longleftrightarrow> queued pq = []"
proof -
  have "aicwf_is_framequeue_empty pq \<longleftrightarrow> (\<forall>j \<le> unat (hi_prio pq). queuelist pq ! j = [])"
    by (auto simp: aicwf_is_framequeue_empty_def le_eq_less_or_eq)
  also have "\<dots> \<longleftrightarrow> (\<forall>j < unat (num_prio pq). queuelist pq ! j = [])"
    using assms unfolding fq_ok_def by (meson le_less_trans not_le)
  also have "\<dots> \<longleftrightarrow> queued pq = []"
    using assms by (simp add: queued_def fq_ok_def all_set_conv_all_nth)
  finally show ?thesis .
qed

section \<open>All runs of a queue\<close>

text \<open>A run of the queue with its history: the packets accepted, delivered and freed so far.\<close>

record 'a fq_run =
  run_queue :: "'a frame_queue"
  accepted :: "'a multiset"
  delivered :: "'a multiset"
  freed :: "'a multiset"

inductive fq_step :: "'a fq_run \<Rightarrow> 'a fq_run \<Rightarrow> bool" where
  fq_enq: "prio < unat (num_prio (run_queue s)) \<Longrightarrow> aicwf_frame_enq (run_queue s) x prio = (ok, q, fr) \<Longrightarrow>
    fq_step s (s\<lparr>run_queue := q, accepted := (if ok then add_mset x (accepted s) else accepted s), freed := freed s + mset fr\<rparr>)"
| fq_deq: "aicwf_frame_dequeue (run_queue s) = (r, q) \<Longrightarrow>
    fq_step s (s\<lparr>run_queue := q, delivered := (case r of None \<Rightarrow> delivered s | Some x \<Rightarrow> add_mset x (delivered s))\<rparr>)"
| fq_flush: "aicwf_frame_queue_flush (run_queue s) = (q, fr) \<Longrightarrow> fq_step s (s\<lparr>run_queue := q, freed := freed s + mset fr\<rparr>)"

inductive_cases fq_stepE: "fq_step s t"

definition fq_start :: "'a fq_run \<Rightarrow> bool" where
  "fq_start s \<longleftrightarrow> (\<exists>old n m. length (queuelist old) = 8 \<and> 0 < n \<and> n \<le> 8 \<and>
     s = \<lparr>run_queue = aicwf_frame_queue_init old n m, accepted = {#}, delivered = {#}, freed = {#}\<rparr>)"

definition fq_inv :: "'a fq_run \<Rightarrow> bool" where
  "fq_inv s \<longleftrightarrow> fq_ok (run_queue s) \<and> accepted s = mset (queued (run_queue s)) + delivered s + freed s"

lemma init_fq_ok:
  assumes "length (queuelist old) = 8" "0 < n" "n \<le> 8"
  shows "fq_ok (aicwf_frame_queue_init old n m)" "queued (aicwf_frame_queue_init old n m) = []"
proof -
  have n: "unat (word_of_nat n :: u16) = n" using assms(3) by (simp add: unat_of_nat)
  then show "queued (aicwf_frame_queue_init old n m) = []"
    by (simp add: queued_def aicwf_frame_queue_init_def)
  with n show "fq_ok (aicwf_frame_queue_init old n m)"
    using assms by (auto simp: fq_ok_def aicwf_frame_queue_init_def nth_append)
qed

text \<open>Enqueueing keeps the invariant and the account of the packets, on every branch.\<close>

lemma enq_account:
  assumes "fq_ok pq" "prio < unat (num_prio pq)" "aicwf_frame_enq pq x prio = (ok, q, fr)"
  shows "fq_ok q" "mset (queued q) + mset fr = (if ok then add_mset x (mset (queued pq)) else mset (queued pq))"
proof -
  consider "qcnt pq < qmax pq" | "qmax pq \<le> qcnt pq" "\<forall>j < prio. queuelist pq ! j = []"
    | k where "qmax pq \<le> qcnt pq" "k < prio" "queuelist pq ! k \<noteq> []" "\<forall>j < k. queuelist pq ! j = []"
  proof (cases "\<exists>k. k < prio \<and> queuelist pq ! k \<noteq> []")
    case True
    then obtain k where "k < prio" "queuelist pq ! k \<noteq> []" "\<forall>j < k. \<not> (j < prio \<and> queuelist pq ! j \<noteq> [])"
      unfolding exists_least_iff [of "\<lambda>k. k < prio \<and> queuelist pq ! k \<noteq> []"] by blast
    then show ?thesis using that(1,3) by (meson less_trans not_le)
  next
    case False
    then show ?thesis using that(1,2) by (meson not_le)
  qed
  then have "fq_ok q \<and> mset (queued q) + mset fr = (if ok then add_mset x (mset (queued pq)) else mset (queued pq))"
  proof cases
    case 1
    with enq_room_ok [OF assms(1,2), of x] assms(3) show ?thesis by auto
  next
    case 2
    with enq_full_refuse [OF assms(1,2), of x] assms(1,3) show ?thesis by auto
  next
    case 3
    with enq_full_displace [OF assms(1,2), of k x] assms(3) show ?thesis by auto
  qed
  then show "fq_ok q" "mset (queued q) + mset fr = (if ok then add_mset x (mset (queued pq)) else mset (queued pq))" by blast+
qed

lemma deq_account:
  assumes "fq_ok pq" "aicwf_frame_dequeue pq = (r, q)"
  shows "fq_ok q" "mset (queued pq) = mset (queued q) + (case r of None \<Rightarrow> {#} | Some x \<Rightarrow> {#x#})"
  using dequeue_ok [OF assms(1)] dequeue_empty [of pq] assms by (cases "qcnt pq = 0"; auto)+

lemma fq_inv_step:
  assumes "fq_inv s" "fq_step s t"
  shows "fq_inv t"
  using assms(2)
proof cases
  case (fq_enq prio x ok q fr)
  have "fq_ok (run_queue s)" using assms(1) by (simp add: fq_inv_def)
  note E = enq_account [OF this fq_enq(2,3)]
  show ?thesis
  proof (cases ok)
    case True
    with E assms(1) fq_enq(1) show ?thesis by (simp add: fq_inv_def)
  next
    case False
    with E assms(1) fq_enq(1) show ?thesis by (simp add: fq_inv_def ac_simps)
  qed
next
  case (fq_deq r q)
  then show ?thesis using deq_account [of "run_queue s" r q] assms(1) by (cases r) (auto simp: fq_inv_def)
next
  case (fq_flush q fr)
  have "fq_ok (run_queue s)" using assms(1) by (simp add: fq_inv_def)
  from flush_ok [OF this] fq_flush(2) have "fq_ok q" "queued q = []" "fr = queued (run_queue s)" by auto
  with fq_flush(1) assms(1) show ?thesis by (simp add: fq_inv_def)
qed

interpretation fq: step_system fq_start fq_step fq_inv
proof
  show "fq_inv s" if "fq_start s" for s :: "'a fq_run"
    using that by (auto simp: fq_start_def fq_inv_def init_fq_ok)
qed (rule fq_inv_step)

section \<open>First in, first out\<close>

text \<open>The receive queues have one priority.\<close>

definition rxq_enq :: "'a frame_queue \<Rightarrow> 'a \<Rightarrow> bool \<times> 'a frame_queue" where
  "rxq_enq q x = (case aicwf_rxframe_enqueue q x of (ok, q', _) \<Rightarrow> (ok, q'))"

definition rxq_ok :: "'a frame_queue \<Rightarrow> bool" where
  "rxq_ok q \<longleftrightarrow> fq_ok q \<and> num_prio q = 1"

lemma rxq_items:
  assumes "rxq_ok q"
  shows "queued q = queuelist q ! 0" "0 < unat (num_prio q)"
  using assms by (cases "queuelist q"; simp add: rxq_ok_def fq_ok_def queued_def)+

interpretation rxq: bounded_fifo rxq_enq aicwf_frame_dequeue queued "\<lambda>q. unat (qmax q)" rxq_ok
proof (unfold_locales, goal_cases)
  case (1 q)
  then show ?case by (simp add: rxq_ok_def fq_ok_def)
next
  case (2 q x)
  then have "qcnt q < qmax q" by (simp add: rxq_ok_def fq_ok_def word_less_nat_alt)
  with enq_room_ok [of q 0 x] 2 rxq_items [OF 2(1)] show ?case
    by (auto simp: rxq_ok_def rxq_enq_def aicwf_rxframe_enqueue_def queued_def fq_ok_def take_Suc_conv_app_nth)
next
  case (3 q x)
  then have "qmax q \<le> qcnt q" by (simp add: rxq_ok_def fq_ok_def word_le_nat_alt)
  with enq_full_refuse [of q 0 x] 3 rxq_items [OF 3(1)] show ?case
    by (auto simp: rxq_ok_def rxq_enq_def aicwf_rxframe_enqueue_def)
next
  case (4 q)
  then show ?case by (simp add: dequeue_empty rxq_ok_def fq_ok_def unat_eq_0)
next
  case (5 q x xs)
  then have "qcnt q \<noteq> 0" by (auto simp: rxq_ok_def fq_ok_def)
  with dequeue_ok [of q] 5 rxq_items [OF 5(1)] show ?case
    by (auto simp: rxq_ok_def queued_def fq_ok_def take_Suc_conv_app_nth)
qed

definition rxbuff_ok :: "'a rx_frame_queue \<Rightarrow> bool" where
  "rxbuff_ok q \<longleftrightarrow> unat (rx_qcnt q) = length (rx_queuelist q) \<and> rx_qcnt q \<le> rx_qmax q"

definition rxbuff_enq :: "'a rx_frame_queue \<Rightarrow> 'a \<Rightarrow> bool \<times> 'a rx_frame_queue" where
  "rxbuff_enq q x = (case aicwf_rxbuff_enqueue (Some q) (Some x) of (ok, q') \<Rightarrow> (ok, the q'))"

interpretation rxbuff: bounded_fifo rxbuff_enq rxbuff_dequeue rx_queuelist "\<lambda>q. unat (rx_qmax q)" rxbuff_ok
proof (unfold_locales, goal_cases)
  case (1 q)
  then show ?case by (simp add: rxbuff_ok_def word_le_nat_alt)
next
  case (2 q x)
  then have "rx_qcnt q < rx_qmax q" "unat (rx_qcnt q + 1) = unat (rx_qcnt q) + 1"
    by (simp_all add: rxbuff_ok_def word_less_nat_alt unat_inc)
  with 2 show ?case
    by (auto simp: rxbuff_enq_def aicwf_rxbuff_enqueue_def rxbuff_queue_penq_def rxbuff_ok_def word_le_nat_alt word_less_nat_alt)
next
  case (3 q x)
  then show ?case by (auto simp: rxbuff_enq_def aicwf_rxbuff_enqueue_def rxbuff_ok_def word_less_nat_alt)
next
  case (4 q)
  then show ?case by (simp add: rxbuff_dequeue_def)
next
  case (5 q x xs)
  then have "rx_qcnt q \<noteq> 0" by (auto simp: rxbuff_ok_def)
  with 5 unat_dec [of "rx_qcnt q"] show ?case by (auto simp: rxbuff_dequeue_def rxbuff_ok_def word_le_nat_alt)
qed

section \<open>Properties\<close>

text \<open>
  C24: over every sequence of enqueues, dequeues and flushes, \<^verbatim>\<open>qcnt\<close> counts the packets in the queue and never exceeds \<^verbatim>\<open>qmax\<close>,
  \<^verbatim>\<open>aicwf_is_framequeue_empty\<close> tells whether there is one, and every packet for which \<^verbatim>\<open>aicwf_frame_enq\<close> returned true is exactly
  once in the queue, delivered or freed.
\<close>

theorem frame_queue_accounts_for_packets:
  assumes "fq_start s" and "fq_step\<^sup>*\<^sup>* s t"
  defines "q \<equiv> run_queue t"
  shows "unat (qcnt q) = length (queued q) \<and> unat (qcnt q) \<le> unat (qmax q)
     \<and> (aicwf_is_framequeue_empty q \<longleftrightarrow> queued q = [])
     \<and> accepted t = mset (queued q) + delivered t + freed t"
proof -
  have "fq_inv t" by (rule fq.inv_reachable [OF assms(1,2)])
  then show ?thesis by (auto simp: fq_inv_def fq_ok_def q_def empty_iff)
qed

definition fq_demo_start :: "nat fq_run" where
  "fq_demo_start = \<lparr>run_queue = aicwf_frame_queue_init \<lparr>num_prio = 0, hi_prio = 0, qmax = 0, qcnt = 0, queuelist = replicate 8 []\<rparr> 8 1,
     accepted = {#}, delivered = {#}, freed = {#}\<rparr>"

definition fq_demo_queue :: "nat \<Rightarrow> nat frame_queue" where
  "fq_demo_queue x = \<lparr>num_prio = 8, hi_prio = 0, qmax = 1, qcnt = 1, queuelist = [x] # replicate 7 []\<rparr>"

lemma fq_demo_runs:
  "aicwf_frame_enq (run_queue fq_demo_start) 7 0 = (True, fq_demo_queue 7, [])"
  "aicwf_frame_enq (fq_demo_queue 7) 9 5 = (True, fq_demo_queue 9, [7])"
  by code_simp+

lemma fq_demo_steps:
  "fq_start fq_demo_start"
  "fq_step\<^sup>*\<^sup>* fq_demo_start \<lparr>run_queue = fq_demo_queue 9, accepted = {#7, 9#}, delivered = {#}, freed = {#7#}\<rparr>"
proof -
  show "fq_start fq_demo_start"
    unfolding fq_start_def fq_demo_start_def
    by (rule exI [of _ "\<lparr>num_prio = 0, hi_prio = 0, qmax = 0, qcnt = 0, queuelist = replicate 8 []\<rparr>"], rule exI [of _ 8]) auto
  have n: "unat (num_prio (run_queue fq_demo_start)) = 8" "unat (num_prio (fq_demo_queue 7)) = 8"
    by (simp_all add: fq_demo_start_def aicwf_frame_queue_init_def fq_demo_queue_def)
  have "fq_step fq_demo_start \<lparr>run_queue = fq_demo_queue 7, accepted = {#7#}, delivered = {#}, freed = {#}\<rparr>"
    using fq_enq [OF _ fq_demo_runs(1)] n by (simp add: fq_demo_start_def)
  moreover have "fq_step \<lparr>run_queue = fq_demo_queue 7, accepted = {#7#}, delivered = {#}, freed = {#}\<rparr>
      \<lparr>run_queue = fq_demo_queue 9, accepted = {#7, 9#}, delivered = {#}, freed = {#7#}\<rparr>"
    using fq_enq [of 5 "\<lparr>run_queue = fq_demo_queue 7, accepted = {#7#}, delivered = {#}, freed = {#}\<rparr>" 9 True "fq_demo_queue 9" "[7]"]
      fq_demo_runs(2) n by (simp add: add_mset_commute)
  ultimately show "fq_step\<^sup>*\<^sup>* fq_demo_start \<lparr>run_queue = fq_demo_queue 9, accepted = {#7, 9#}, delivered = {#}, freed = {#7#}\<rparr>"
    by (meson r_into_rtranclp rtranclp.rtrancl_into_rtrancl)
qed

theorem frame_queue_accounts_for_packets_witness:
  "unat (qcnt (fq_demo_queue 9)) = length (queued (fq_demo_queue 9)) \<and> {#7, 9#} = mset (queued (fq_demo_queue 9)) + {#} + {#7#}"
  using frame_queue_accounts_for_packets [OF fq_demo_steps] by simp

text \<open>
  a dequeue takes the packet that has waited longest among those of the highest priority present, and leaves every other
  packet where it was; it finds a packet whenever there is one.
\<close>

theorem dequeue_serves_highest_priority:
  assumes "fq_ok pq" and "queued pq \<noteq> []"
  shows "\<exists>k x xs q'. aicwf_frame_dequeue pq = (Some x, q') \<and> queuelist pq ! k = x # xs
     \<and> (\<forall>j. k < j \<and> j < unat (num_prio pq) \<longrightarrow> queuelist pq ! j = [])
     \<and> queuelist q' = (queuelist pq)[k := xs] \<and> unat (qcnt q') + 1 = unat (qcnt pq) \<and> fq_ok q'"
proof -
  have "qcnt pq \<noteq> 0" using assms by (auto simp: fq_ok_def)
  then obtain k x xs q' where D: "aicwf_frame_dequeue pq = (Some x, q')" "fq_ok q'" "queuelist pq ! k = x # xs"
    "\<forall>j. k < j \<and> j < unat (num_prio pq) \<longrightarrow> queuelist pq ! j = []" "queuelist q' = (queuelist pq)[k := xs]"
    "add_mset x (mset (queued q')) = mset (queued pq)"
    using dequeue_ok [OF assms(1)] by blast
  have "unat (qcnt q') + 1 = unat (qcnt pq)"
    using D(2) assms(1) arg_cong [OF D(6), of size] by (simp add: fq_ok_def)
  with D show ?thesis by blast
qed

definition two_prio_demo :: "nat frame_queue" where
  "two_prio_demo = \<lparr>num_prio = 8, hi_prio = 6, qmax = 9, qcnt = 3, queuelist = [[1], [], [2, 3], [], [], [], [], []]\<rparr>"

lemma two_prio_demo_ok: "fq_ok two_prio_demo" "queued two_prio_demo = [1, 2, 3]"
  by (auto simp: two_prio_demo_def fq_ok_def queued_def nth_Cons' split: if_splits)

theorem dequeue_serves_highest_priority_witness:
  "\<exists>k x xs q'. aicwf_frame_dequeue two_prio_demo = (Some x, q') \<and> queuelist two_prio_demo ! k = x # xs
     \<and> queuelist q' = (queuelist two_prio_demo)[k := xs] \<and> unat (qcnt q') + 1 = 3"
proof -
  have "unat (qcnt two_prio_demo) = 3" by (simp add: two_prio_demo_def)
  with dequeue_serves_highest_priority [OF two_prio_demo_ok(1)] two_prio_demo_ok(2) show ?thesis by auto
qed

text \<open>
  A full queue accepts a packet of priority \<open>prio\<close> exactly when packets of a lower priority are queued; it then frees the
  packet that came last at the lowest such priority \<open>k\<close> and puts the new one in its place, at priority \<open>k\<close> and not at the
  priority it was sent with.
\<close>

theorem full_queue_displaces_at_lowest_priority:
  assumes "fq_ok pq" and "prio < unat (num_prio pq)" and "qmax pq \<le> qcnt pq"
  shows "((\<forall>j < prio. queuelist pq ! j = []) \<longrightarrow> aicwf_frame_enq pq x prio = (False, pq, []))
    \<and> (k < prio \<and> queuelist pq ! k \<noteq> [] \<and> (\<forall>j < k. queuelist pq ! j = []) \<longrightarrow>
      (\<exists>q'. aicwf_frame_enq pq x prio = (True, q', [last (queuelist pq ! k)])
        \<and> queuelist q' = (queuelist pq)[k := butlast (queuelist pq ! k) @ [x]] \<and> fq_ok q'))"
  using enq_full_refuse [OF assms, of x] enq_full_displace [OF assms, of k x] by blast

theorem full_queue_displaces_at_lowest_priority_witness:
  "aicwf_frame_enq (fq_demo_queue 7) 9 0 = (False, fq_demo_queue 7, [])
   \<and> (\<exists>q'. aicwf_frame_enq (fq_demo_queue 7) 9 5 = (True, q', [7]) \<and> queuelist q' = [9] # replicate 7 [] \<and> fq_ok q')"
proof -
  have q: "fq_ok (fq_demo_queue 7)" "qmax (fq_demo_queue 7) \<le> qcnt (fq_demo_queue 7)" "unat (num_prio (fq_demo_queue 7)) = 8"
    "queuelist (fq_demo_queue 7) ! 0 = [7]" "queuelist (fq_demo_queue 7) = [7] # replicate 7 []"
    by (auto simp: fq_demo_queue_def fq_ok_def queued_def nth_Cons')
  show ?thesis
    using full_queue_displaces_at_lowest_priority [OF q(1) _ q(2), of 0 9]
      full_queue_displaces_at_lowest_priority [OF q(1) _ q(2), of 5 9 0] q by simp
qed

text \<open>
  C27: the receive queues are first in, first out.  For any interleaving of enqueues and dequeues on a queue with one priority, and
  on the queue of preallocated buffers, what was delivered followed by what is still queued is what was queued before followed by
  what was accepted.
\<close>

theorem receive_queues_are_fifo:
  "(rxq_ok q \<and> fifo_run rxq_enq aicwf_frame_dequeue ops q = (a, d, q') \<longrightarrow> queued q @ a = d @ queued q' \<and> rxq_ok q')
   \<and> (rxbuff_ok b \<and> fifo_run rxbuff_enq rxbuff_dequeue ops b = (a, d, b') \<longrightarrow>
      rx_queuelist b @ a = d @ rx_queuelist b' \<and> rxbuff_ok b')"
  using rxq.fifo_order [of ops q a d q'] rxbuff.fifo_order [of ops b a d b'] by blast

definition fifo_demo :: "nat frame_queue" where
  "fifo_demo = aicwf_frame_queue_init \<lparr>num_prio = 0, hi_prio = 0, qmax = 0, qcnt = 0, queuelist = replicate 8 []\<rparr> 1 2"

theorem receive_queues_are_fifo_witness:
  "(\<exists>q'. fifo_run rxq_enq aicwf_frame_dequeue [Put 4, Put 5, Put 6, Get, Put 8] fifo_demo = ([4, 5, 8], [4], q') \<and> queued q' = [5, 8])
   \<and> (\<exists>b'. fifo_run rxbuff_enq rxbuff_dequeue [Put (4 :: nat), Put 5, Put 6, Get, Put 8] (aicwf_rxframe_queue_init_2 2) = ([4, 5, 8], [4], b')
       \<and> rx_queuelist b' = [5, 8])"
proof -
  have ok: "rxq_ok fifo_demo" "queued fifo_demo = []"
    using init_fq_ok [of "\<lparr>num_prio = 0, hi_prio = 0, qmax = 0, qcnt = 0, queuelist = replicate 8 []\<rparr>" 1 2]
    by (auto simp: rxq_ok_def fifo_demo_def aicwf_frame_queue_init_def)
  have init: "rxbuff_ok (aicwf_rxframe_queue_init_2 2 :: nat rx_frame_queue)" "rx_queuelist (aicwf_rxframe_queue_init_2 2 :: nat rx_frame_queue) = []"
    by (simp_all add: rxbuff_ok_def aicwf_rxframe_queue_init_2_def)
  have run: "map_prod id fst (fifo_run rxq_enq aicwf_frame_dequeue [Put 4, Put 5, Put 6, Get, Put 8] fifo_demo) = ([4, 5, 8], [4])"
    "map_prod id fst (fifo_run rxbuff_enq rxbuff_dequeue [Put (4 :: nat), Put 5, Put 6, Get, Put 8] (aicwf_rxframe_queue_init_2 2)) = ([4, 5, 8], [4])"
    by code_simp+
  obtain q' b' where r: "fifo_run rxq_enq aicwf_frame_dequeue [Put 4, Put 5, Put 6, Get, Put 8] fifo_demo = ([4, 5, 8], [4], q')"
    "fifo_run rxbuff_enq rxbuff_dequeue [Put (4 :: nat), Put 5, Put 6, Get, Put 8] (aicwf_rxframe_queue_init_2 2) = ([4, 5, 8], [4], b')"
    using run by (auto simp: map_prod_def split: prod.splits)
  moreover have "queued q' = [5, 8]"
    using receive_queues_are_fifo [of fifo_demo "[Put 4, Put 5, Put 6, Get, Put 8]" "[4, 5, 8]" "[4]" q'] ok r(1)
    by (metis append_Nil append_Cons list.inject)
  moreover have "rx_queuelist b' = [5, 8]"
    using receive_queues_are_fifo [of _ "[Put 4, Put 5, Put 6, Get, Put 8]" "[4, 5, 8]" "[4]" _ "aicwf_rxframe_queue_init_2 2" b'] r(2) init
    by (metis append_Nil append_Cons list.inject)
  ultimately show ?thesis by blast
qed

end
