(* ===== verification/Rx_Demux.thy ===== *)
theory Rx_Demux
  imports Frame_Queue
begin

text \<open>
  The receive threads' work (\<^verbatim>\<open>aicwf_txrxif.c\<close>): \<^verbatim>\<open>aicwf_process_rxframes\<close> takes the transfers that the bulk-in endpoint delivered
  off \<^verbatim>\<open>rxq\<close>, in the aggregated mode splits each into its packets, and hands data packets to \<^verbatim>\<open>rwnx_rxdataind_aicwf\<close> and
  configuration packets to the handlers for responses, transmit confirmations and prints.  \<^verbatim>\<open>aicwf_process_msg_rxframes\<close> does the same
  for the message endpoint.  The configuration is the one of the Makefile: USB, no preallocated buffers, no reassembly.

  A socket buffer is the memory from its \<^verbatim>\<open>data\<close> pointer to the end of the allocation and its \<^verbatim>\<open>len\<close>; a read beyond the memory is the
  outcome \<open>Oob\<close>.  \<open>alloc n\<close> tells whether the allocation number \<open>n\<close> succeeds.
\<close>

section \<open>State\<close>

record rx_skb =
  skb_id :: nat
  skb_mem :: "u8 list"
  skb_len :: nat

datatype rx_event =
    DataInd "u8 list"      \<comment> \<open>\<^verbatim>\<open>rwnx_rxdataind_aicwf\<close> with the contents of the buffer\<close>
  | CmdRsp "u8 list"       \<comment> \<open>\<^verbatim>\<open>rwnx_rx_handle_msg\<close>\<close>
  | DataCfm "u8 list"      \<comment> \<open>\<^verbatim>\<open>aicwf_usb_host_tx_cfm_handler\<close>\<close>
  | FwPrint "u8 list" u16  \<comment> \<open>\<^verbatim>\<open>rwnx_rx_handle_print\<close>\<close>
  | FreeSkb nat

record rx_thread =
  rxq :: "rx_skb frame_queue"
  rx_cnt :: int
  rx_events :: "rx_event list"
  allocs :: nat

definition add_events :: "rx_event list \<Rightarrow> rx_thread \<Rightarrow> rx_thread" where
  "add_events es s = s\<lparr>rx_events := rx_events s @ es\<rparr>"

definition USB_TYPE_CFG :: u8 where "USB_TYPE_CFG = 0x10"
definition USB_TYPE_CFG_CMD_RSP :: u8 where "USB_TYPE_CFG_CMD_RSP = 0x11"
definition USB_TYPE_CFG_DATA_CFM :: u8 where "USB_TYPE_CFG_DATA_CFM = 0x12"
definition USB_TYPE_CFG_PRINT :: u8 where "USB_TYPE_CFG_PRINT = 0x13"
definition RX_HWHRD_LEN :: u16 where "RX_HWHRD_LEN = 60"
definition RX_ALIGNMENT :: nat where "RX_ALIGNMENT = 4"
definition EBADE :: int where "EBADE = 52"

section \<open>Socket buffers\<close>

text \<open>\<^verbatim>\<open>skb_pull\<close> of the kernel does nothing when the buffer holds fewer bytes than it should drop.\<close>

definition skb_pull :: "rx_skb \<Rightarrow> nat \<Rightarrow> rx_skb" where
  "skb_pull skb n = (if skb_len skb < n then skb else skb\<lparr>skb_mem := drop n (skb_mem skb), skb_len := skb_len skb - n\<rparr>)"

definition pkt_len_of :: "rx_skb \<Rightarrow> u16 option" where
  "pkt_len_of skb = rd16 (skb_mem skb) 0"

definition aicwf_another_ptk :: "rx_skb \<Rightarrow> bool option" where
  "aicwf_another_ptk skb = (if skb_len skb < 2 then Some False else map_option (\<lambda>aggr_len. aggr_len \<noteq> 0) (pkt_len_of skb))"

text \<open>The length of a configuration packet rounded up to a word, in the 16 bits of \<^verbatim>\<open>adjust_len\<close>.\<close>

definition adjust_cfg :: "u16 \<Rightarrow> u16" where
  "adjust_cfg aggr_len =
    (if unat aggr_len mod RX_ALIGNMENT \<noteq> 0 then word_of_nat ((unat aggr_len + (RX_ALIGNMENT - 1)) div RX_ALIGNMENT * RX_ALIGNMENT)
     else aggr_len)"

text \<open>The copy of \<open>n\<close> bytes from the packet: \<open>None\<close> when it would read past the memory of the buffer.\<close>

definition memcpy_from :: "rx_skb \<Rightarrow> nat \<Rightarrow> u8 list option" where
  "memcpy_from skb n = (if n \<le> length (skb_mem skb) then Some (take n (skb_mem skb)) else None)"

text \<open>The handlers for a configuration packet; \<open>down\<close> is \<^verbatim>\<open>bus_if->state == USB_DOWN_ST\<close>.\<close>

definition cfg_events :: "bool \<Rightarrow> u8 list \<Rightarrow> u16 \<Rightarrow> rx_event list" where
  "cfg_events down msg aggr_len =
    (let ty = msg ! 2 AND 0x7f
     in (if ty = USB_TYPE_CFG_CMD_RSP \<and> \<not> down then [CmdRsp (drop 4 msg)] else [])
        @ (if ty = USB_TYPE_CFG_DATA_CFM then [DataCfm (drop 4 msg)] else [])
        @ (if ty = USB_TYPE_CFG_PRINT then [FwPrint (drop 4 msg) aggr_len] else []))"

section \<open>The aggregated mode\<close>

datatype pkt_result =
    Next rx_skb rx_thread    \<comment> \<open>round of the loop over the packets\<close>
  | Done rx_thread           \<comment> \<open>the loop ends\<close>
  | Abort rx_thread          \<comment> \<open>the function returns \<^verbatim>\<open>-EBADE\<close>\<close>
  | Oob                      \<comment> \<open>read outside the buffer\<close>

definition aggr_data :: "(nat \<Rightarrow> bool) \<Rightarrow> u16 \<Rightarrow> rx_skb \<Rightarrow> rx_thread \<Rightarrow> pkt_result" where
  "aggr_data alloc pkt_len skb s =
    (let aggr_len = pkt_len + RX_HWHRD_LEN;
         adjust_len = aggr_len;
         s1 = s\<lparr>allocs := allocs s + 1\<rparr>
     in if \<not> alloc (allocs s) then Next (skb_pull skb (unat adjust_len)) s1
        else case memcpy_from skb (unat aggr_len) of
               None \<Rightarrow> Oob
             | Some bytes \<Rightarrow> Next (skb_pull skb (unat adjust_len)) (add_events [DataInd bytes] s1))"

definition aggr_cfg :: "(nat \<Rightarrow> bool) \<Rightarrow> bool \<Rightarrow> u16 \<Rightarrow> rx_skb \<Rightarrow> rx_thread \<Rightarrow> pkt_result" where
  "aggr_cfg alloc down pkt_len skb s =
    (let aggr_len = pkt_len;
         adjust_len = adjust_cfg aggr_len;
         s1 = s\<lparr>allocs := allocs s + 1\<rparr>
     in if \<not> alloc (allocs s) then Abort (add_events [FreeSkb (skb_id skb)] s1)
        else case memcpy_from skb (unat aggr_len + 4) of
               None \<Rightarrow> Oob
             | Some msg \<Rightarrow> Next (skb_pull skb (unat adjust_len + 4)) (add_events (cfg_events down msg aggr_len) s1))"

definition aggr_round :: "(nat \<Rightarrow> bool) \<Rightarrow> bool \<Rightarrow> rx_skb \<Rightarrow> rx_thread \<Rightarrow> pkt_result" where
  "aggr_round alloc down skb s =
    (case aicwf_another_ptk skb of
       None \<Rightarrow> Oob
     | Some False \<Rightarrow> Done s
     | Some True \<Rightarrow>
         (case pkt_len_of skb of
            None \<Rightarrow> Oob
          | Some pkt_len \<Rightarrow>
              if skb_len skb < unat pkt_len then Done s
              else (case rd (skb_mem skb) 2 of
                      None \<Rightarrow> Oob
                    | Some ty \<Rightarrow>
                        if ty AND USB_TYPE_CFG \<noteq> USB_TYPE_CFG then aggr_data alloc pkt_len skb s
                        else aggr_cfg alloc down pkt_len skb s)))"

text \<open>\<open>None\<close>: the loop never ends.\<close>

partial_function (option) aggr_loop :: "(nat \<Rightarrow> bool) \<Rightarrow> bool \<Rightarrow> rx_skb \<Rightarrow> rx_thread \<Rightarrow> pkt_result option" where
  "aggr_loop alloc down skb s =
    (case aggr_round alloc down skb s of
       Next skb' s' \<Rightarrow> aggr_loop alloc down skb' s'
     | Done s' \<Rightarrow> Some (Done s')
     | Abort s' \<Rightarrow> Some (Abort s')
     | Oob \<Rightarrow> Some Oob)"

datatype thread_result = Ret int rx_thread | Fault

definition rx_done :: "rx_skb \<Rightarrow> rx_thread \<Rightarrow> rx_thread" where
  "rx_done skb s = (add_events [FreeSkb (skb_id skb)] s)\<lparr>rx_cnt := rx_cnt s - 1\<rparr>"

partial_function (option) aicwf_process_rxframes_aggr :: "(nat \<Rightarrow> bool) \<Rightarrow> bool \<Rightarrow> rx_thread \<Rightarrow> thread_result option" where
  "aicwf_process_rxframes_aggr alloc down s =
    (if aicwf_is_framequeue_empty (rxq s) then Some (Ret 0 s)
     else case aicwf_frame_dequeue (rxq s) of
       (None, q) \<Rightarrow> Some (Ret 0 (s\<lparr>rxq := q\<rparr>))
     | (Some skb, q) \<Rightarrow>
         Option.bind (aggr_loop alloc down skb (s\<lparr>rxq := q\<rparr>)) (\<lambda>r. case r of
           Done s' \<Rightarrow> aicwf_process_rxframes_aggr alloc down (rx_done skb s')
         | Abort s' \<Rightarrow> Some (Ret (- EBADE) s')
         | _ \<Rightarrow> Some Fault))"

section \<open>One packet per transfer\<close>

definition single_cfg :: "(nat \<Rightarrow> bool) \<Rightarrow> bool \<Rightarrow> u16 \<Rightarrow> rx_skb \<Rightarrow> rx_thread \<Rightarrow> pkt_result" where
  "single_cfg alloc down pkt_len skb s =
    (let aggr_len = pkt_len;
         s1 = s\<lparr>allocs := allocs s + 1\<rparr>
     in if \<not> alloc (allocs s) then Abort (add_events [FreeSkb (skb_id skb)] s1)
        else case memcpy_from skb (unat aggr_len + 4) of
               None \<Rightarrow> Oob
             | Some msg \<Rightarrow> Done (rx_done skb (add_events (cfg_events down msg aggr_len) s1)))"

text \<open>One transfer; \<open>Done\<close> is the end of the round, with the counter already decremented.\<close>

definition single_round :: "(nat \<Rightarrow> bool) \<Rightarrow> bool \<Rightarrow> rx_skb \<Rightarrow> rx_thread \<Rightarrow> pkt_result" where
  "single_round alloc down skb s =
    (case pkt_len_of skb of
       None \<Rightarrow> Oob
     | Some pkt_len \<Rightarrow>
         if skb_len skb < unat pkt_len then Done (rx_done skb s)
         else (case rd (skb_mem skb) 2 of
                 None \<Rightarrow> Oob
               | Some ty \<Rightarrow>
                   if ty AND USB_TYPE_CFG \<noteq> USB_TYPE_CFG then
                     Done ((add_events [DataInd (take (skb_len skb) (skb_mem skb))] s)\<lparr>rx_cnt := rx_cnt s - 1\<rparr>)
                   else single_cfg alloc down pkt_len skb s))"

text \<open>The loop over the queue with a given treatment of one transfer.  It ends because each round takes one off the queue.\<close>

function drain_queue :: "(rx_skb \<Rightarrow> rx_thread \<Rightarrow> pkt_result) \<Rightarrow> rx_skb frame_queue \<Rightarrow> rx_thread \<Rightarrow> thread_result" where
  "drain_queue round q s =
    (if aicwf_is_framequeue_empty q then Ret 0 (s\<lparr>rxq := q\<rparr>)
     else case aicwf_frame_dequeue q of
       (None, q') \<Rightarrow> Ret 0 (s\<lparr>rxq := q'\<rparr>)
     | (Some skb, q') \<Rightarrow>
         (case round skb s of
            Done s' \<Rightarrow> drain_queue round q' s'
          | Abort s' \<Rightarrow> Ret (- EBADE) (s'\<lparr>rxq := q'\<rparr>)
          | _ \<Rightarrow> Fault))"
  by pat_completeness auto
termination
proof (relation "measure (\<lambda>(_, q, _). unat (qcnt q))", simp, goal_cases)
  case (1 round q s r q' skb s')
  then have "qcnt q \<noteq> 0" "qcnt q' = qcnt q - 1"
    by (auto simp: aicwf_frame_dequeue_def Let_def split: if_splits list.splits)
  then show ?case using unat_dec [of "qcnt q"] unat_eq_0 [of "qcnt q"] by simp
qed

declare drain_queue.simps [simp del]

definition aicwf_process_rxframes_single :: "(nat \<Rightarrow> bool) \<Rightarrow> bool \<Rightarrow> rx_thread \<Rightarrow> thread_result" where
  "aicwf_process_rxframes_single alloc down s = drain_queue (single_round alloc down) (rxq s) s"

definition aicwf_process_rxframes :: "bool \<Rightarrow> (nat \<Rightarrow> bool) \<Rightarrow> bool \<Rightarrow> rx_thread \<Rightarrow> thread_result option" where
  "aicwf_process_rxframes aicwf_usb_rx_aggr alloc down s =
    (if aicwf_usb_rx_aggr then aicwf_process_rxframes_aggr alloc down s
     else Some (aicwf_process_rxframes_single alloc down s))"

section \<open>The message endpoint\<close>

text \<open>
  \<open>rxq\<close> and \<open>rx_cnt\<close> stand for \<^verbatim>\<open>msg_rxq\<close> and \<^verbatim>\<open>msg_rx_cnt\<close>.  There is no comparison of the packet length with the length of the transfer, and a
  failed allocation for a data packet goes on with the next transfer without freeing this one.
\<close>

definition msg_data :: "(nat \<Rightarrow> bool) \<Rightarrow> u16 \<Rightarrow> rx_skb \<Rightarrow> rx_thread \<Rightarrow> pkt_result" where
  "msg_data alloc pkt_len skb s =
    (let aggr_len = pkt_len + RX_HWHRD_LEN;
         s1 = s\<lparr>allocs := allocs s + 1\<rparr>
     in if \<not> alloc (allocs s) then Done s1
        else case memcpy_from skb (unat aggr_len) of
               None \<Rightarrow> Oob
             | Some bytes \<Rightarrow> Done (rx_done skb (add_events [DataInd bytes] s1)))"

definition msg_round :: "(nat \<Rightarrow> bool) \<Rightarrow> bool \<Rightarrow> rx_skb \<Rightarrow> rx_thread \<Rightarrow> pkt_result" where
  "msg_round alloc down skb s =
    (case (pkt_len_of skb, rd (skb_mem skb) 2) of
       (Some pkt_len, Some ty) \<Rightarrow>
         if ty AND USB_TYPE_CFG \<noteq> USB_TYPE_CFG then msg_data alloc pkt_len skb s
         else single_cfg alloc down pkt_len skb s
     | _ \<Rightarrow> Oob)"

definition aicwf_process_msg_rxframes :: "(nat \<Rightarrow> bool) \<Rightarrow> bool \<Rightarrow> rx_thread \<Rightarrow> thread_result" where
  "aicwf_process_msg_rxframes alloc down s = drain_queue (msg_round alloc down) (rxq s) s"

section \<open>Transfers as the firmware builds them\<close>

text \<open>
  A data packet has its length without the 60 bytes of the hardware header in its first two bytes and its type in the third; a
  configuration packet has a header of four bytes and is padded to a word.
\<close>

datatype wire_pkt = WData u16 u8 "u8 list" | WCfg u16 u8 u8 "u8 list" "u8 list"

fun wire :: "wire_pkt \<Rightarrow> u8 list" where
  "wire (WData n ty r) = le16 n @ ty # r"
| "wire (WCfg n ty res payload pad) = le16 n @ ty # res # payload @ pad"

fun wire_ok :: "wire_pkt \<Rightarrow> bool" where
  "wire_ok (WData n ty r) \<longleftrightarrow> n \<noteq> 0 \<and> unat n + 60 < 65536 \<and> length r = unat n + 57 \<and> ty AND USB_TYPE_CFG \<noteq> USB_TYPE_CFG"
| "wire_ok (WCfg n ty res payload pad) \<longleftrightarrow> n \<noteq> 0 \<and> unat n \<le> 65532 \<and> length payload = unat n \<and> (unat n + length pad) mod 4 = 0
     \<and> length pad < 4 \<and> ty AND USB_TYPE_CFG = USB_TYPE_CFG"

fun wire_events :: "bool \<Rightarrow> wire_pkt \<Rightarrow> rx_event list" where
  "wire_events down (WData n ty r) = [DataInd (wire (WData n ty r))]"
| "wire_events down (WCfg n ty res payload pad) = cfg_events down (le16 n @ ty # res # payload) n"

text \<open>A transfer: packets, then fewer than two bytes or a zero length.\<close>

definition transfer :: "rx_skb \<Rightarrow> wire_pkt list \<Rightarrow> bool" where
  "transfer skb ps \<longleftrightarrow> list_all wire_ok ps \<and>
    (\<exists>tail t. skb_mem skb = concat (map wire ps) @ tail \<and> skb_len skb = length (concat (map wire ps)) + t \<and> t \<le> length tail
       \<and> (t < 2 \<or> take 2 tail = [0, 0]))"

lemma le16_header [simp]: "rd16 (le16 n @ r) 0 = Some n"
  by (simp add: rd16_def rd_def le16_def)

lemma rd_third [simp]: "rd (le16 n @ ty # r) 2 = Some ty"
  by (simp add: rd_def nth_append)

lemma unat_hdr: "unat n + 60 < 65536 \<Longrightarrow> unat (n + RX_HWHRD_LEN) = unat n + 60"
  by (simp add: RX_HWHRD_LEN_def unat_word_ariths(1))

lemma unat_adjust:
  assumes "unat n \<le> 65532" "(unat n + k) mod 4 = 0" "k < 4"
  shows "unat (adjust_cfg n) = unat n + k"
proof (cases "unat n mod 4 = 0")
  case True
  with assms(2,3) have "k = 0" by presburger
  with True show ?thesis by (simp add: adjust_cfg_def RX_ALIGNMENT_def)
next
  case False
  with assms(2,3) have r: "(unat n + 3) div 4 * 4 = unat n + k" by presburger
  have "unat n + k < 65536" using assms by presburger
  then have "unat (word_of_nat (unat n + k) :: u16) = unat n + k" by (simp only: unat_of_nat) simp
  moreover have "adjust_cfg n = word_of_nat (unat n + k)"
    using False unfolding adjust_cfg_def RX_ALIGNMENT_def r [symmetric] by simp
  ultimately show ?thesis by simp
qed

lemma skb_pull_exact:
  "skb_mem skb = xs @ ys \<Longrightarrow> skb_len skb = length xs + n \<Longrightarrow> skb_pull skb (length xs) = skb\<lparr>skb_mem := ys, skb_len := n\<rparr>"
  by (simp add: skb_pull_def)

lemma aggr_round_wire:
  assumes "wire_ok p" "skb_mem skb = wire p @ rest" "skb_len skb = length (wire p) + n"
  shows "aggr_round (\<lambda>_. True) down skb s =
     Next (skb\<lparr>skb_mem := rest, skb_len := n\<rparr>) (s\<lparr>rx_events := rx_events s @ wire_events down p, allocs := allocs s + 1\<rparr>)"
proof (cases p)
  case (WData m ty r)
  have u: "unat (m + RX_HWHRD_LEN) = length (wire p)" using assms(1) unat_hdr [of m] WData by simp
  have "skb_pull skb (length (wire p)) = skb\<lparr>skb_mem := rest, skb_len := n\<rparr>"
    by (rule skb_pull_exact [OF assms(2,3)])
  moreover have "memcpy_from skb (length (wire p)) = Some (wire p)"
    using assms(2) by (simp add: memcpy_from_def)
  ultimately show ?thesis
    using assms WData u
    by (simp add: aggr_round_def aicwf_another_ptk_def pkt_len_of_def aggr_data_def add_events_def Let_def)
next
  case (WCfg m ty res payload pad)
  have u: "unat (adjust_cfg m) + 4 = length (wire p)" "length payload = unat m"
    using assms(1) unat_adjust [of m "length pad"] WCfg by auto
  have "skb_pull skb (length (wire p)) = skb\<lparr>skb_mem := rest, skb_len := n\<rparr>"
    by (rule skb_pull_exact [OF assms(2,3)])
  then have "skb_pull skb (unat (adjust_cfg m) + 4) = skb\<lparr>skb_mem := rest, skb_len := n\<rparr>" by (simp only: u(1))
  moreover have "memcpy_from skb (unat m + 4) = Some (le16 m @ ty # res # payload)"
    using assms(2) WCfg by (simp add: memcpy_from_def le16_def eval_nat_numeral flip: u(2))
  ultimately show ?thesis
    using assms WCfg
    by (simp add: aggr_round_def aicwf_another_ptk_def pkt_len_of_def aggr_cfg_def add_events_def Let_def)
qed

lemma transfer_Cons:
  assumes "transfer skb (p # ps)"
  obtains rest n where "wire_ok p" "skb_mem skb = wire p @ rest" "skb_len skb = length (wire p) + n"
    "transfer (skb\<lparr>skb_mem := rest, skb_len := n\<rparr>) ps"
proof -
  obtain tail t where T: "skb_mem skb = concat (map wire (p # ps)) @ tail" "skb_len skb = length (concat (map wire (p # ps))) + t"
    "t \<le> length tail" "t < 2 \<or> take 2 tail = [0, 0]" "list_all wire_ok (p # ps)"
    using assms by (auto simp: transfer_def)
  show ?thesis
    by (rule that [of "concat (map wire ps) @ tail" "length (concat (map wire ps)) + t"]) (use T in \<open>auto simp: transfer_def\<close>)
qed

lemma transfer_end: "transfer skb [] \<Longrightarrow> aicwf_another_ptk skb = Some False"
  by (auto simp: transfer_def aicwf_another_ptk_def pkt_len_of_def rd16_def rd_def of_le16_def take_Suc_conv_app_nth numeral_2_eq_2 nth_append)

lemma aggr_loop_transfer:
  "transfer skb ps \<Longrightarrow> aggr_loop (\<lambda>_. True) down skb s =
     Some (Done (s\<lparr>rx_events := rx_events s @ concat (map (wire_events down) ps), allocs := allocs s + length ps\<rparr>))"
proof (induction ps arbitrary: skb s)
  case Nil
  then show ?case by (subst aggr_loop.simps) (simp add: aggr_round_def transfer_end)
next
  case (Cons p ps)
  obtain rest n where W: "wire_ok p" "skb_mem skb = wire p @ rest" "skb_len skb = length (wire p) + n"
    "transfer (skb\<lparr>skb_mem := rest, skb_len := n\<rparr>) ps"
    using transfer_Cons [OF Cons.prems] .
  show ?case
    by (subst aggr_loop.simps) (simp add: aggr_round_wire [OF W(1-3)] Cons.IH [OF W(4)])
qed

section \<open>Packets that are cut short\<close>

definition cut_short :: "rx_skb \<Rightarrow> bool" where
  "cut_short skb \<longleftrightarrow> (\<exists>n ty. pkt_len_of skb = Some n \<and> n \<noteq> 0 \<and> rd (skb_mem skb) 2 = Some ty \<and> ty AND USB_TYPE_CFG \<noteq> USB_TYPE_CFG
     \<and> 2 \<le> skb_len skb \<and> unat n \<le> skb_len skb \<and> skb_len skb < unat n + 60 \<and> unat n + 60 < 65536 \<and> unat n + 60 \<le> length (skb_mem skb))"

lemma cut_short_round:
  assumes "cut_short skb"
  shows "\<exists>s'. aggr_round alloc down skb s = Next skb s'"
proof -
  obtain n ty where N: "pkt_len_of skb = Some n" "n \<noteq> 0" "rd (skb_mem skb) 2 = Some ty" "ty AND USB_TYPE_CFG \<noteq> USB_TYPE_CFG"
    "2 \<le> skb_len skb" "unat n \<le> skb_len skb" "skb_len skb < unat n + 60" "unat n + 60 < 65536" "unat n + 60 \<le> length (skb_mem skb)"
    using assms by (auto simp: cut_short_def)
  have "skb_pull skb (unat n + 60) = skb" using N(7) by (simp add: skb_pull_def)
  then show ?thesis
    using N unat_hdr [OF N(8)] by (simp add: aggr_round_def aicwf_another_ptk_def aggr_data_def memcpy_from_def Let_def)
qed

lemma aggr_loop_cut_short:
  assumes "cut_short skb"
  shows "aggr_loop alloc down skb s = None"
proof (rule ccontr)
  assume "aggr_loop alloc down skb s \<noteq> None"
  then obtain r where r: "aggr_loop alloc down skb s = Some r" by blast
  have "\<not> cut_short skb"
  proof (rule aggr_loop.raw_induct [where P = "\<lambda>_ _ skb _ _. \<not> cut_short skb", OF _ r])
    fix f alloc down skb s r
    assume IH: "\<And>alloc down skb s r. f alloc down skb s = Some r \<Longrightarrow> \<not> cut_short skb"
      and eq: "(case aggr_round alloc down skb s of Next skb' s' \<Rightarrow> f alloc down skb' s' | Done s' \<Rightarrow> Some (Done s')
         | Abort s' \<Rightarrow> Some (Abort s') | Oob \<Rightarrow> Some Oob) = Some r"
    show "\<not> cut_short skb"
    proof
      assume "cut_short skb"
      with cut_short_round obtain s' where "aggr_round alloc down skb s = Next skb s'" by blast
      with eq IH \<open>cut_short skb\<close> show False by auto
    qed
  qed
  with assms show False by contradiction
qed

section \<open>The loops over the queue\<close>

definition transfer_events :: "bool \<Rightarrow> rx_skb \<Rightarrow> wire_pkt list \<Rightarrow> rx_event list" where
  "transfer_events down skb ps = concat (map (wire_events down) ps) @ [FreeSkb (skb_id skb)]"

lemma rxq_not_empty: "rxq_ok q \<Longrightarrow> queued q = x # xs \<Longrightarrow> \<not> aicwf_is_framequeue_empty q"
  by (simp add: rxq_ok_def empty_iff)

lemma rxq_empty: "rxq_ok q \<Longrightarrow> queued q = [] \<Longrightarrow> aicwf_is_framequeue_empty q"
  by (simp add: rxq_ok_def empty_iff)

lemma process_aggr_run:
  "list_all2 transfer skbs pss \<Longrightarrow> rxq_ok (rxq s) \<Longrightarrow> queued (rxq s) = skbs \<Longrightarrow>
   \<exists>s'. aicwf_process_rxframes_aggr (\<lambda>_. True) down s = Some (Ret 0 s') \<and> queued (rxq s') = []
     \<and> rx_cnt s' = rx_cnt s - int (length skbs)
     \<and> rx_events s' = rx_events s @ concat (map2 (transfer_events down) skbs pss)"
proof (induction skbs pss arbitrary: s rule: list_all2_induct)
  case Nil
  then show ?case by (subst aicwf_process_rxframes_aggr.simps) (simp add: rxq_empty)
next
  case (Cons skb skbs ps pss)
  obtain q where q: "aicwf_frame_dequeue (rxq s) = (Some skb, q)" "rxq_ok q" "queued q = skbs"
    using rxq.deq_first [OF Cons.prems] by blast
  let ?s = "rx_done skb (s\<lparr>rxq := q, rx_events := rx_events s @ concat (map (wire_events down) ps), allocs := allocs s + length ps\<rparr>)"
  have f: "rxq ?s = q" "rx_cnt ?s = rx_cnt s - 1" "rx_events ?s = rx_events s @ transfer_events down skb ps"
    by (simp_all add: rx_done_def add_events_def transfer_events_def)
  have "aicwf_process_rxframes_aggr (\<lambda>_. True) down s = aicwf_process_rxframes_aggr (\<lambda>_. True) down ?s"
    by (subst aicwf_process_rxframes_aggr.simps)
      (simp add: rxq_not_empty [OF Cons.prems] q(1) aggr_loop_transfer [OF Cons.hyps(1)])
  with Cons.IH [of ?s] q f show ?case by auto
qed

text \<open>What one round does with a transfer when nothing fails: handed on as data, or freed after its handlers.\<close>

definition single_events :: "bool \<Rightarrow> rx_skb \<Rightarrow> rx_event list" where
  "single_events down skb =
    (case (pkt_len_of skb, rd (skb_mem skb) 2) of
       (Some n, Some ty) \<Rightarrow>
         if skb_len skb < unat n then [FreeSkb (skb_id skb)]
         else if ty AND USB_TYPE_CFG \<noteq> USB_TYPE_CFG then [DataInd (take (skb_len skb) (skb_mem skb))]
         else cfg_events down (take (unat n + 4) (skb_mem skb)) n @ [FreeSkb (skb_id skb)]
     | _ \<Rightarrow> [])"

definition roomy :: "rx_skb \<Rightarrow> bool" where
  "roomy skb \<longleftrightarrow> 3 \<le> length (skb_mem skb) \<and> skb_len skb + 4 \<le> length (skb_mem skb)"

lemma roomy_reads:
  assumes "roomy skb"
  obtains n ty where "pkt_len_of skb = Some n" "rd (skb_mem skb) 2 = Some ty"
proof -
  have "2 < length (skb_mem skb)" using assms by (simp add: roomy_def)
  then show ?thesis by (intro that [of "of_le16 (skb_mem skb ! 0) (skb_mem skb ! 1)" "skb_mem skb ! 2"]) (auto simp: pkt_len_of_def rd16_def rd_def)
qed

lemma single_round_roomy:
  assumes "roomy skb"
  shows "\<exists>s'. single_round (\<lambda>_. True) down skb s = Done s' \<and> rx_cnt s' = rx_cnt s - 1 \<and> rx_events s' = rx_events s @ single_events down skb"
proof -
  obtain n ty where N: "pkt_len_of skb = Some n" "rd (skb_mem skb) 2 = Some ty" using roomy_reads [OF assms] .
  have "memcpy_from skb (unat n + 4) = Some (take (unat n + 4) (skb_mem skb))" if "unat n \<le> skb_len skb"
    using that assms by (simp add: memcpy_from_def roomy_def)
  with N show ?thesis
    by (auto simp: single_round_def single_cfg_def single_events_def rx_done_def add_events_def Let_def not_less)
qed

lemma drain_queue_run:
  assumes step: "\<And>skb s. skb \<in> set skbs \<Longrightarrow> \<exists>s'. f skb s = Done s' \<and> rx_cnt s' = rx_cnt s - 1 \<and> rx_events s' = rx_events s @ ev skb"
  shows "rxq_ok q \<Longrightarrow> queued q = skbs \<Longrightarrow>
   \<exists>s'. drain_queue f q s = Ret 0 s' \<and> queued (rxq s') = [] \<and> rx_cnt s' = rx_cnt s - int (length skbs)
     \<and> rx_events s' = rx_events s @ concat (map ev skbs)"
  using step
proof (induction skbs arbitrary: q s)
  case Nil
  then show ?case by (subst drain_queue.simps) (simp add: rxq_empty)
next
  case (Cons skb skbs)
  obtain q' where q: "aicwf_frame_dequeue q = (Some skb, q')" "rxq_ok q'" "queued q' = skbs"
    using rxq.deq_first [OF Cons.prems(1,2)] by blast
  obtain s1 where s1: "f skb s = Done s1" "rx_cnt s1 = rx_cnt s - 1" "rx_events s1 = rx_events s @ ev skb"
    using Cons.prems(3) [of skb s] by auto
  have "drain_queue f q s = drain_queue f q' s1"
    by (subst drain_queue.simps) (simp add: rxq_not_empty [OF Cons.prems(1,2)] q(1) s1(1))
  with Cons.IH [OF q(2,3), of s1] Cons.prems(3) s1 show ?case by auto
qed

section \<open>Properties\<close>

text \<open>
  C28: the aggregated receive path inverts the firmware's packing.  When every queued transfer consists of well-formed packets and
  the allocations succeed, \<^verbatim>\<open>aicwf_process_rxframes\<close> ends, empties the queue, hands every packet of every transfer to its handler in
  order and unchanged, frees each transfer once and lowers \<^verbatim>\<open>rx_cnt\<close> by the number of transfers.
\<close>

theorem aggregated_transfers_are_split:
  assumes "rxq_ok (rxq s)" and "list_all2 transfer (queued (rxq s)) pss"
  shows "\<exists>s'. aicwf_process_rxframes True (\<lambda>_. True) down s = Some (Ret 0 s') \<and> queued (rxq s') = []
     \<and> rx_cnt s' = rx_cnt s - int (length (queued (rxq s)))
     \<and> rx_events s' = rx_events s @ concat (map2 (transfer_events down) (queued (rxq s)) pss)"
  using process_aggr_run [OF assms(2,1)] by (simp add: aicwf_process_rxframes_def)

definition demo_queue :: "rx_skb list \<Rightarrow> rx_skb frame_queue" where
  "demo_queue l = \<lparr>num_prio = 1, hi_prio = 0, qmax = 2000, qcnt = word_of_nat (length l), queuelist = l # replicate 7 []\<rparr>"

definition demo_thread :: "rx_skb list \<Rightarrow> rx_thread" where
  "demo_thread l = \<lparr>rxq = demo_queue l, rx_cnt = int (length l), rx_events = [], allocs = 0\<rparr>"

lemma demo_thread_ok: "length l \<le> 2000 \<Longrightarrow> rxq_ok (rxq (demo_thread l))" "queued (rxq (demo_thread l)) = l"
proof -
  show q: "queued (rxq (demo_thread l)) = l" by (simp add: demo_thread_def demo_queue_def queued_def)
  assume "length l \<le> 2000"
  then have "unat (word_of_nat (length l) :: u16) = length l" by (simp only: unat_of_nat) simp
  then show "rxq_ok (rxq (demo_thread l))"
    using \<open>length l \<le> 2000\<close> q by (auto simp: rxq_ok_def fq_ok_def demo_thread_def demo_queue_def)
qed

text \<open>A response of four bytes followed by a data packet of one byte, then the zero length.\<close>

definition demo_pkts :: "wire_pkt list" where
  "demo_pkts = [WCfg 4 0x11 0 [1, 2, 3, 4] [], WData 1 0 (replicate 58 0)]"

definition demo_transfer :: rx_skb where
  "demo_transfer = \<lparr>skb_id = 5, skb_mem = concat (map wire demo_pkts) @ [0, 0], skb_len = length (concat (map wire demo_pkts)) + 2\<rparr>"

lemma demo_transfer_ok: "transfer demo_transfer demo_pkts"
  by (auto simp: transfer_def demo_transfer_def demo_pkts_def USB_TYPE_CFG_def intro!: exI [of _ "[0, 0]"] exI [of _ 2])

theorem aggregated_transfers_are_split_witness:
  "\<exists>s'. aicwf_process_rxframes True (\<lambda>_. True) False (demo_thread [demo_transfer]) = Some (Ret 0 s')
     \<and> rx_events s' = [CmdRsp [1, 2, 3, 4], DataInd (wire (WData 1 0 (replicate 58 0))), FreeSkb 5]"
proof -
  have e: "transfer_events False demo_transfer demo_pkts = [CmdRsp [1, 2, 3, 4], DataInd (wire (WData 1 0 (replicate 58 0))), FreeSkb 5]"
    by (simp add: transfer_events_def demo_pkts_def demo_transfer_def cfg_events_def le16_def USB_TYPE_CFG_CMD_RSP_def
        USB_TYPE_CFG_DATA_CFM_def USB_TYPE_CFG_PRINT_def nth_append Let_def)
  have t: "list_all2 transfer (queued (rxq (demo_thread [demo_transfer]))) [demo_pkts]"
    using demo_transfer_ok by (simp add: demo_thread_ok)
  have "rx_events (demo_thread [demo_transfer]) = []" by (simp add: demo_thread_def)
  with aggregated_transfers_are_split [OF demo_thread_ok(1) t, of False] e show ?thesis
    by (auto simp: demo_thread_ok)
qed

text \<open>
  C29: a data packet that is cut short stops the receive thread for good.  When the packet's length fits into what is left of the
  transfer but the packet with its 60 bytes of hardware header does not, \<^verbatim>\<open>skb_pull\<close> refuses to move on and the loop hands the same
  packet up again and again: \<^verbatim>\<open>aicwf_process_rxframes\<close> does not return, whether the allocations succeed or not.
\<close>

theorem cut_short_packet_never_ends:
  assumes "rxq_ok (rxq s)" and "queued (rxq s) = skb # skbs" and "cut_short skb"
  shows "aicwf_process_rxframes True alloc down s = None"
proof -
  obtain q where "aicwf_frame_dequeue (rxq s) = (Some skb, q)"
    using rxq.deq_first [OF assms(1,2)] by blast
  then show ?thesis
    unfolding aicwf_process_rxframes_def
    by (subst aicwf_process_rxframes_aggr.simps) (simp add: rxq_not_empty [OF assms(1,2)] aggr_loop_cut_short [OF assms(3)])
qed

definition demo_cut :: rx_skb where
  "demo_cut = \<lparr>skb_id = 3, skb_mem = le16 20 @ replicate 98 0, skb_len = 40\<rparr>"

theorem cut_short_packet_never_ends_witness:
  "aicwf_process_rxframes True (\<lambda>_. True) False (demo_thread [demo_cut]) = None"
proof -
  have "pkt_len_of demo_cut = Some 20" "rd (skb_mem demo_cut) 2 = Some 0" "skb_len demo_cut = 40" "length (skb_mem demo_cut) = 100"
    by (simp_all add: demo_cut_def pkt_len_of_def rd_def nth_append)
  then have "cut_short demo_cut" by (auto simp: cut_short_def USB_TYPE_CFG_def)
  then show ?thesis
    using cut_short_packet_never_ends [of "demo_thread [demo_cut]" demo_cut "[]"] demo_thread_ok [of "[demo_cut]"] by simp
qed

text \<open>
  With one packet per transfer and enough room behind each (four bytes more than its length), \<^verbatim>\<open>aicwf_process_rxframes\<close>
  ends, empties the queue, lowers \<^verbatim>\<open>rx_cnt\<close> by one per transfer, and disposes of each transfer once and in order: handed on with its
  whole contents as data, or freed after the handlers of its configuration type, or freed unread when its header claims more bytes
  than arrived.
\<close>

theorem single_transfers_are_disposed:
  assumes "rxq_ok (rxq s)" and "list_all roomy (queued (rxq s))"
  shows "\<exists>s'. aicwf_process_rxframes False (\<lambda>_. True) down s = Some (Ret 0 s') \<and> queued (rxq s') = []
     \<and> rx_cnt s' = rx_cnt s - int (length (queued (rxq s)))
     \<and> rx_events s' = rx_events s @ concat (map (single_events down) (queued (rxq s)))"
proof -
  have "\<exists>s'. single_round (\<lambda>_. True) down skb t = Done s' \<and> rx_cnt s' = rx_cnt t - 1 \<and> rx_events s' = rx_events t @ single_events down skb"
    if "skb \<in> set (queued (rxq s))" for skb t
    using that assms(2) by (intro single_round_roomy) (simp add: list_all_iff)
  from drain_queue_run [OF this assms(1) refl, where s = s] show ?thesis
    by (simp add: aicwf_process_rxframes_def aicwf_process_rxframes_single_def)
qed

theorem single_transfers_are_disposed_witness:
  "\<exists>s'. aicwf_process_rxframes False (\<lambda>_. True) False (demo_thread [demo_cut]) = Some (Ret 0 s')
     \<and> rx_cnt s' = 0 \<and> rx_events s' = single_events False demo_cut"
proof -
  have "roomy demo_cut" by (simp add: roomy_def demo_cut_def)
  then show ?thesis
    using single_transfers_are_disposed [OF demo_thread_ok(1), of "[demo_cut]" False] demo_thread_ok(2) [of "[demo_cut]"]
    by (auto simp: demo_thread_def)
qed

text \<open>
  The message endpoint trusts the length in the packet header.  A configuration packet that announces more bytes than the
  receive buffer has behind its data pointer makes \<^verbatim>\<open>aicwf_process_msg_rxframes\<close> copy past the end of the buffer.
\<close>

theorem message_length_is_not_checked:
  assumes "rxq_ok (rxq s)" and "queued (rxq s) = skb # skbs" and "pkt_len_of skb = Some n" and "rd (skb_mem skb) 2 = Some ty"
    and "ty AND USB_TYPE_CFG = USB_TYPE_CFG" and "length (skb_mem skb) < unat n + 4" and "alloc (allocs s)"
  shows "aicwf_process_msg_rxframes alloc down s = Fault"
proof -
  obtain q where "aicwf_frame_dequeue (rxq s) = (Some skb, q)"
    using rxq.deq_first [OF assms(1,2)] by blast
  moreover have "msg_round alloc down skb s = Oob"
    using assms(3-7) by (simp add: msg_round_def single_cfg_def memcpy_from_def)
  ultimately show ?thesis
    unfolding aicwf_process_msg_rxframes_def by (subst drain_queue.simps) (simp add: rxq_not_empty [OF assms(1,2)])
qed

definition demo_long :: rx_skb where
  "demo_long = \<lparr>skb_id = 4, skb_mem = le16 2048 @ 0x11 # replicate 2045 0, skb_len = 64\<rparr>"

theorem message_length_is_not_checked_witness:
  "aicwf_process_msg_rxframes (\<lambda>_. True) False (demo_thread [demo_long]) = Fault"
proof -
  have "pkt_len_of demo_long = Some 2048" "rd (skb_mem demo_long) 2 = Some 0x11" "length (skb_mem demo_long) = 2048"
    by (simp_all add: demo_long_def pkt_len_of_def)
  then show ?thesis
    using message_length_is_not_checked [of "demo_thread [demo_long]" demo_long "[]" 2048 "0x11" "\<lambda>_. True" False]
      demo_thread_ok [of "[demo_long]"] by (simp add: USB_TYPE_CFG_def)
qed

text \<open>
  A failed allocation for a data packet on the message endpoint loses the transfer.  \<^verbatim>\<open>aicwf_process_msg_rxframes\<close> takes it off
  the queue and goes on without freeing it, without handing it up and without lowering \<^verbatim>\<open>msg_rx_cnt\<close>.
\<close>

theorem message_transfer_is_leaked:
  assumes "rxq_ok (rxq s)" and "queued (rxq s) = [skb]" and "pkt_len_of skb = Some n" and "rd (skb_mem skb) 2 = Some ty"
    and "ty AND USB_TYPE_CFG \<noteq> USB_TYPE_CFG" and "\<not> alloc (allocs s)"
  shows "\<exists>s'. aicwf_process_msg_rxframes alloc down s = Ret 0 s' \<and> queued (rxq s') = [] \<and> rx_events s' = rx_events s \<and> rx_cnt s' = rx_cnt s"
proof -
  obtain q where q: "aicwf_frame_dequeue (rxq s) = (Some skb, q)" "rxq_ok q" "queued q = []"
    using rxq.deq_first [OF assms(1,2)] by blast
  have "msg_round alloc down skb s = Done (s\<lparr>allocs := allocs s + 1\<rparr>)"
    using assms(3-6) by (simp add: msg_round_def msg_data_def)
  then have "drain_queue (msg_round alloc down) (rxq s) s = drain_queue (msg_round alloc down) q (s\<lparr>allocs := allocs s + 1\<rparr>)"
    using q(1) by (subst drain_queue.simps) (simp add: rxq_not_empty [OF assms(1,2)])
  also have "\<dots> = Ret 0 (s\<lparr>allocs := allocs s + 1, rxq := q\<rparr>)"
    by (subst drain_queue.simps) (simp add: rxq_empty [OF q(2,3)])
  finally show ?thesis using q(3) by (simp add: aicwf_process_msg_rxframes_def)
qed

theorem message_transfer_is_leaked_witness:
  "\<exists>s'. aicwf_process_msg_rxframes (\<lambda>_. False) False (demo_thread [demo_cut]) = Ret 0 s' \<and> queued (rxq s') = []
     \<and> rx_events s' = [] \<and> rx_cnt s' = 1"
proof -
  have c: "pkt_len_of demo_cut = Some 20" "rd (skb_mem demo_cut) 2 = Some 0"
    by (simp_all add: demo_cut_def pkt_len_of_def rd_def nth_append)
  have "rx_events (demo_thread [demo_cut]) = []" "rx_cnt (demo_thread [demo_cut]) = 1" by (simp_all add: demo_thread_def)
  then show ?thesis
    using message_transfer_is_leaked [OF _ _ c, of "demo_thread [demo_cut]" "\<lambda>_. False" False] demo_thread_ok [of "[demo_cut]"]
    by (auto simp: USB_TYPE_CFG_def)
qed

end
