(* ===== verification/Usb_Rx.thy ===== *)
theory Usb_Rx
  imports Rx_Demux Cmd_Mgr
begin

text \<open>
  The receive side of the USB bus (\<^verbatim>\<open>aicwf_usb.c\<close>): the transfer buffers of the bulk-in and of the message endpoint travel between a free list
  and the host controller; a completion handler takes the socket buffer of a finished transfer, queues it for the receive thread
  and wakes the thread, then refills the endpoint.  Buffers are their index.  \<open>env n\<close> says of the attempt number \<open>n\<close> to submit a
  buffer whether the allocation of its socket buffer and whether \<^verbatim>\<open>usb_submit_urb\<close> succeed.  A \<^verbatim>\<open>struct completion\<close> is the number of its
  pending wake-ups.
\<close>

section \<open>State\<close>

record usb_rx =
  u_state :: aicwf_usb_state
  hw_ready :: bool                    \<comment> \<open>\<^verbatim>\<open>usb_dev->rwnx_hw\<close> is set\<close>
  rx_free_list :: "nat list"
  rx_submitted :: "nat list"
  rx_urb_cnt :: int
  rx_prepare_ready :: bool
  rx_priv :: rx_thread
  busrx_trgg :: nat
  msg_rx_free_list :: "nat list"
  msg_rx_submitted :: "nat list"
  msg_rx_priv :: rx_thread            \<comment> \<open>\<^verbatim>\<open>msg_rxq\<close>, \<^verbatim>\<open>msg_rx_cnt\<close>\<close>
  msg_busrx_trgg :: nat
  wait_disconnect_cb :: bool
  deinit_atomic :: int
  deinit_sem :: int
  attempts :: nat

record urb =
  urb_status :: int
  actual_length :: nat
  transfer_buffer_length :: nat
  urb_skb :: rx_skb

definition free_rx_skb :: "rx_skb \<Rightarrow> 'z usb_rx_scheme \<Rightarrow> 'z usb_rx_scheme" where
  "free_rx_skb skb s = s\<lparr>rx_priv := add_events [FreeSkb (skb_id skb)] (rx_priv s)\<rparr>"

definition free_msg_skb :: "rx_skb \<Rightarrow> 'z usb_rx_scheme \<Rightarrow> 'z usb_rx_scheme" where
  "free_msg_skb skb s = s\<lparr>msg_rx_priv := add_events [FreeSkb (skb_id skb)] (msg_rx_priv s)\<rparr>"

section \<open>The bulk-in endpoint\<close>

definition aicwf_usb_rx_buf_get :: "'z usb_rx_scheme \<Rightarrow> nat option \<times> 'z usb_rx_scheme" where
  "aicwf_usb_rx_buf_get s = (case rx_free_list s of [] \<Rightarrow> (None, s) | b # bs \<Rightarrow> (Some b, s\<lparr>rx_free_list := bs\<rparr>))"

definition aicwf_usb_rx_buf_put :: "nat \<Rightarrow> 'z usb_rx_scheme \<Rightarrow> 'z usb_rx_scheme" where
  "aicwf_usb_rx_buf_put b s = s\<lparr>rx_free_list := rx_free_list s @ [b]\<rparr>"

text \<open>The socket buffer allocated for the attempt is freed again when the submission fails; it never leaves the function then.\<close>

definition aicwf_usb_submit_rx_urb :: "(nat \<Rightarrow> bool \<times> bool) \<Rightarrow> nat \<Rightarrow> 'z usb_rx_scheme \<Rightarrow> int \<times> 'z usb_rx_scheme" where
  "aicwf_usb_submit_rx_urb env b s =
    (if u_state s \<noteq> USB_UP_ST then (-1, aicwf_usb_rx_buf_put b s)
     else case env (attempts s) of (skb_ok, submit_ok) \<Rightarrow>
       let s1 = s\<lparr>attempts := attempts s + 1\<rparr>
       in if \<not> skb_ok \<or> \<not> submit_ok then (-1, aicwf_usb_rx_buf_put b s1)
          else (0, s1\<lparr>rx_submitted := b # rx_submitted s, rx_urb_cnt := rx_urb_cnt s + 1\<rparr>))"

text \<open>The loop of \<^verbatim>\<open>aicwf_usb_rx_submit_all_urb\<close>, over the free list; it stops at the first failure.\<close>

function rx_submit_loop :: "(nat \<Rightarrow> bool \<times> bool) \<Rightarrow> 'z usb_rx_scheme \<Rightarrow> 'z usb_rx_scheme" where
  "rx_submit_loop env s =
    (case aicwf_usb_rx_buf_get s of
       (None, s1) \<Rightarrow> s1\<lparr>rx_prepare_ready := True\<rparr>
     | (Some b, s1) \<Rightarrow>
         (case aicwf_usb_submit_rx_urb env b s1 of (r, s2) \<Rightarrow> if r \<noteq> 0 then s2 else rx_submit_loop env s2))"
  by pat_completeness auto
termination
  by (relation "measure (\<lambda>(_, s). length (rx_free_list s))")
    (auto simp: aicwf_usb_rx_buf_get_def aicwf_usb_submit_rx_urb_def Let_def split: list.splits if_splits prod.splits)

declare rx_submit_loop.simps [simp del]

definition aicwf_usb_rx_submit_all_urb :: "(nat \<Rightarrow> bool \<times> bool) \<Rightarrow> 'z usb_rx_scheme \<Rightarrow> 'z usb_rx_scheme" where
  "aicwf_usb_rx_submit_all_urb env s = (if u_state s \<noteq> USB_UP_ST then s else rx_submit_loop env s)"

text \<open>The three accesses of the completion handler to what it shares with the receive thread.\<close>

definition rx_complete_enqueue :: "rx_skb \<Rightarrow> 'z usb_rx_scheme \<Rightarrow> bool \<times> 'z usb_rx_scheme" where
  "rx_complete_enqueue skb s =
    (case aicwf_rxframe_enqueue (rxq (rx_priv s)) skb of (ok, q, fr) \<Rightarrow>
       (ok, s\<lparr>rx_priv := add_events (map (\<lambda>k. FreeSkb (skb_id k)) fr) ((rx_priv s)\<lparr>rxq := q\<rparr>)\<rparr>))"

definition rx_complete_count :: "'z usb_rx_scheme \<Rightarrow> 'z usb_rx_scheme" where
  "rx_complete_count s = s\<lparr>rx_priv := (rx_priv s)\<lparr>rx_cnt := rx_cnt (rx_priv s) + 1\<rparr>\<rparr>"

definition rx_complete_wake :: "'z usb_rx_scheme \<Rightarrow> 'z usb_rx_scheme" where
  "rx_complete_wake s = (if rx_cnt (rx_priv s) = 1 then s\<lparr>busrx_trgg := busrx_trgg s + 1\<rparr> else s)"

definition rx_disconnect :: "'z usb_rx_scheme \<Rightarrow> 'z usb_rx_scheme" where
  "rx_disconnect s =
    (if wait_disconnect_cb s then s
     else if 0 < deinit_atomic s then s\<lparr>wait_disconnect_cb := True, deinit_atomic := 0, deinit_sem := deinit_sem s - 1\<rparr>
     else s\<lparr>wait_disconnect_cb := False\<rparr>)"

text \<open>The controller has taken the buffer off its list of submitted ones when it calls the handler.\<close>

definition aicwf_usb_rx_complete :: "(nat \<Rightarrow> bool \<times> bool) \<Rightarrow> nat \<Rightarrow> urb \<Rightarrow> 'z usb_rx_scheme \<Rightarrow> 'z usb_rx_scheme" where
  "aicwf_usb_rx_complete env b u s =
    (let skb = urb_skb u;
         s1 = s\<lparr>rx_submitted := remove1 b (rx_submitted s), rx_urb_cnt := rx_urb_cnt s - 1\<rparr>;
         given_back = aicwf_usb_rx_buf_put b (free_rx_skb skb s1)
     in if \<not> hw_ready s then given_back
        else if transfer_buffer_length u < actual_length u then aicwf_usb_rx_submit_all_urb env given_back
        else if urb_status u \<noteq> 0 \<or> actual_length u = 0 then
          (if urb_status u < 0 then rx_disconnect given_back else aicwf_usb_rx_submit_all_urb env given_back)
        else if u_state s = USB_UP_ST then
          (case rx_complete_enqueue (skb\<lparr>skb_len := actual_length u\<rparr>) s1 of
             (False, _) \<Rightarrow> aicwf_usb_rx_submit_all_urb env given_back
           | (True, s2) \<Rightarrow>
               aicwf_usb_rx_submit_all_urb env (aicwf_usb_rx_buf_put b (rx_complete_wake (rx_complete_count s2))))
        else given_back)"

definition aicwf_usb_rx_urb_work :: "(nat \<Rightarrow> bool \<times> bool) \<Rightarrow> 'z usb_rx_scheme \<Rightarrow> 'z usb_rx_scheme" where
  "aicwf_usb_rx_urb_work env s = aicwf_usb_rx_submit_all_urb env s"

section \<open>The message endpoint\<close>

definition aicwf_usb_msg_rx_buf_get :: "'z usb_rx_scheme \<Rightarrow> nat option \<times> 'z usb_rx_scheme" where
  "aicwf_usb_msg_rx_buf_get s = (case msg_rx_free_list s of [] \<Rightarrow> (None, s) | b # bs \<Rightarrow> (Some b, s\<lparr>msg_rx_free_list := bs\<rparr>))"

definition aicwf_usb_msg_rx_buf_put :: "nat \<Rightarrow> 'z usb_rx_scheme \<Rightarrow> 'z usb_rx_scheme" where
  "aicwf_usb_msg_rx_buf_put b s = s\<lparr>msg_rx_free_list := msg_rx_free_list s @ [b]\<rparr>"

text \<open>Other than its counterpart it returns 0 when the submission fails.\<close>

definition aicwf_usb_submit_msg_rx_urb :: "(nat \<Rightarrow> bool \<times> bool) \<Rightarrow> nat \<Rightarrow> 'z usb_rx_scheme \<Rightarrow> int \<times> 'z usb_rx_scheme" where
  "aicwf_usb_submit_msg_rx_urb env b s =
    (if u_state s \<noteq> USB_UP_ST then (-1, aicwf_usb_msg_rx_buf_put b s)
     else case env (attempts s) of (skb_ok, submit_ok) \<Rightarrow>
       let s1 = s\<lparr>attempts := attempts s + 1\<rparr>
       in if \<not> skb_ok then (-1, aicwf_usb_msg_rx_buf_put b s1)
          else if \<not> submit_ok then (0, aicwf_usb_msg_rx_buf_put b s1)
          else (0, s1\<lparr>msg_rx_submitted := b # msg_rx_submitted s\<rparr>))"

text \<open>\<open>None\<close>: the loop never ends.\<close>

partial_function (option) msg_submit_loop :: "(nat \<Rightarrow> bool \<times> bool) \<Rightarrow> 'z usb_rx_scheme \<Rightarrow> 'z usb_rx_scheme option" where
  "msg_submit_loop env s =
    (case aicwf_usb_msg_rx_buf_get s of
       (None, s1) \<Rightarrow> Some s1
     | (Some b, s1) \<Rightarrow>
         (case aicwf_usb_submit_msg_rx_urb env b s1 of (r, s2) \<Rightarrow>
            if r \<noteq> 0 \<and> u_state s2 \<noteq> USB_UP_ST then Some s2 else msg_submit_loop env s2))"

definition aicwf_usb_msg_rx_submit_all_urb :: "(nat \<Rightarrow> bool \<times> bool) \<Rightarrow> 'z usb_rx_scheme \<Rightarrow> 'z usb_rx_scheme option" where
  "aicwf_usb_msg_rx_submit_all_urb env s = (if u_state s \<noteq> USB_UP_ST then Some s else msg_submit_loop env s)"

definition msg_complete_enqueue :: "rx_skb \<Rightarrow> 'z usb_rx_scheme \<Rightarrow> bool \<times> 'z usb_rx_scheme" where
  "msg_complete_enqueue skb s =
    (case aicwf_rxframe_enqueue (rxq (msg_rx_priv s)) skb of (ok, q, fr) \<Rightarrow>
       (ok, s\<lparr>msg_rx_priv := add_events (map (\<lambda>k. FreeSkb (skb_id k)) fr) ((msg_rx_priv s)\<lparr>rxq := q\<rparr>)\<rparr>))"

definition aicwf_usb_msg_rx_complete :: "(nat \<Rightarrow> bool \<times> bool) \<Rightarrow> nat \<Rightarrow> urb \<Rightarrow> 'z usb_rx_scheme \<Rightarrow> 'z usb_rx_scheme option" where
  "aicwf_usb_msg_rx_complete env b u s =
    (let skb = urb_skb u;
         s1 = s\<lparr>msg_rx_submitted := remove1 b (msg_rx_submitted s)\<rparr>;
         given_back = aicwf_usb_msg_rx_buf_put b (free_msg_skb skb s1)
     in if transfer_buffer_length u < actual_length u then aicwf_usb_msg_rx_submit_all_urb env given_back
        else if urb_status u \<noteq> 0 \<or> actual_length u = 0 then
          (if urb_status u < 0 then Some given_back else aicwf_usb_msg_rx_submit_all_urb env given_back)
        else if u_state s = USB_UP_ST then
          (case msg_complete_enqueue (skb\<lparr>skb_len := actual_length u\<rparr>) s1 of
             (False, _) \<Rightarrow> Some (free_msg_skb skb s1)
           | (True, s2) \<Rightarrow>
               let p = msg_rx_priv s2;
                   s3 = s2\<lparr>msg_rx_priv := p\<lparr>rx_cnt := rx_cnt p + 1\<rparr>, msg_busrx_trgg := msg_busrx_trgg s2 + 1\<rparr>
               in aicwf_usb_msg_rx_submit_all_urb env (aicwf_usb_msg_rx_buf_put b s3))
        else Some given_back)"

definition aicwf_usb_msg_rx_urb_work :: "(nat \<Rightarrow> bool \<times> bool) \<Rightarrow> 'z usb_rx_scheme \<Rightarrow> 'z usb_rx_scheme option" where
  "aicwf_usb_msg_rx_urb_work env s = aicwf_usb_msg_rx_submit_all_urb env s"

section \<open>Completion handler and receive thread, interleaved\<close>

text \<open>
  The shared accesses one by one: the handler enqueues under the queue's lock, increments \<^verbatim>\<open>rx_cnt\<close>, reads it and may wake the
  thread; \<^verbatim>\<open>usb_busrx_thread\<close> waits for a wake-up, and in \<^verbatim>\<open>aicwf_process_rxframes\<close> takes one transfer under the lock, treats it and
  decrements \<^verbatim>\<open>rx_cnt\<close>.  The host controller runs the handlers of one endpoint one after the other.
\<close>

datatype handler_pc = H_IDLE | H_COUNT | H_WAKE
datatype thread_pc = T_WAIT | T_LOOP | T_PKT rx_skb | T_STOP

record rx_sys =
  dev :: usb_rx
  hpc :: handler_pc
  tpc :: thread_pc
  bus_down :: bool

inductive rx_sys_step :: "(nat \<Rightarrow> bool) \<Rightarrow> rx_sys \<Rightarrow> rx_sys \<Rightarrow> bool" for alloc where
  h_enqueue: "hpc s = H_IDLE \<Longrightarrow> rx_complete_enqueue skb (dev s) = (ok, d) \<Longrightarrow>
     rx_sys_step alloc s (if ok then s\<lparr>dev := d, hpc := H_COUNT\<rparr> else s)"
| h_count: "hpc s = H_COUNT \<Longrightarrow> rx_sys_step alloc s (s\<lparr>dev := rx_complete_count (dev s), hpc := H_WAKE\<rparr>)"
| h_wake: "hpc s = H_WAKE \<Longrightarrow> rx_sys_step alloc s (s\<lparr>dev := rx_complete_wake (dev s), hpc := H_IDLE\<rparr>)"
| t_wake: "tpc s = T_WAIT \<Longrightarrow> 0 < busrx_trgg (dev s) \<Longrightarrow>
     rx_sys_step alloc s (s\<lparr>dev := (dev s)\<lparr>busrx_trgg := busrx_trgg (dev s) - 1\<rparr>, tpc := if bus_down s then T_STOP else T_LOOP\<rparr>)"
| t_empty: "tpc s = T_LOOP \<Longrightarrow> aicwf_is_framequeue_empty (rxq (rx_priv (dev s))) \<Longrightarrow> rx_sys_step alloc s (s\<lparr>tpc := T_WAIT\<rparr>)"
| t_take: "tpc s = T_LOOP \<Longrightarrow> \<not> aicwf_is_framequeue_empty (rxq (rx_priv (dev s))) \<Longrightarrow>
     aicwf_frame_dequeue (rxq (rx_priv (dev s))) = (r, q) \<Longrightarrow>
     rx_sys_step alloc s (s\<lparr>dev := (dev s)\<lparr>rx_priv := (rx_priv (dev s))\<lparr>rxq := q\<rparr>\<rparr>, tpc := (case r of None \<Rightarrow> T_WAIT | Some skb \<Rightarrow> T_PKT skb)\<rparr>)"
| t_done: "tpc s = T_PKT skb \<Longrightarrow> single_round alloc (bus_down s) skb (rx_priv (dev s)) = Done p \<Longrightarrow>
     rx_sys_step alloc s (s\<lparr>dev := (dev s)\<lparr>rx_priv := p\<rparr>, tpc := T_LOOP\<rparr>)"
| t_abort: "tpc s = T_PKT skb \<Longrightarrow> single_round alloc (bus_down s) skb (rx_priv (dev s)) = Abort p \<Longrightarrow>
     rx_sys_step alloc s (s\<lparr>dev := (dev s)\<lparr>rx_priv := p\<rparr>, tpc := T_WAIT\<rparr>)"
| bus_stop: "rx_sys_step alloc s (s\<lparr>bus_down := True\<rparr>)"

inductive_cases rx_sys_stepE: "rx_sys_step alloc s t"

section \<open>Transfer buffers are conserved\<close>

definition rx_bufs :: "'z usb_rx_scheme \<Rightarrow> nat multiset" where
  "rx_bufs s = mset (rx_free_list s) + mset (rx_submitted s)"

text \<open>Refilling moves buffers between the lists and changes nothing that the other components see.\<close>

definition same_bufs :: "'z usb_rx_scheme \<Rightarrow> 'z usb_rx_scheme \<Rightarrow> bool" where
  "same_bufs s t \<longleftrightarrow> rx_bufs t = rx_bufs s \<and> rx_urb_cnt t - int (length (rx_submitted t)) = rx_urb_cnt s - int (length (rx_submitted s))
     \<and> rx_priv t = rx_priv s \<and> busrx_trgg t = busrx_trgg s \<and> u_state t = u_state s"

lemma same_bufs_trans: "same_bufs s t \<Longrightarrow> same_bufs t u \<Longrightarrow> same_bufs s u"
  by (simp add: same_bufs_def)

lemma get_submit_same:
  assumes "rx_free_list s = b # bs"
  shows "same_bufs s (snd (aicwf_usb_submit_rx_urb env b (s\<lparr>rx_free_list := bs\<rparr>)))"
  using assms
  by (auto simp: same_bufs_def rx_bufs_def aicwf_usb_submit_rx_urb_def aicwf_usb_rx_buf_put_def Let_def split: prod.splits)

lemma submit_loop_same: "same_bufs s (rx_submit_loop env s)"
proof (induction env s rule: rx_submit_loop.induct)
  case (1 env s)
  show ?case
  proof (cases "rx_free_list s")
    case Nil
    then show ?thesis
      by (subst rx_submit_loop.simps) (simp add: aicwf_usb_rx_buf_get_def same_bufs_def rx_bufs_def)
  next
    case (Cons b bs)
    obtain r s2 where r: "aicwf_usb_submit_rx_urb env b (s\<lparr>rx_free_list := bs\<rparr>) = (r, s2)" by fastforce
    have step: "same_bufs s s2" using get_submit_same [OF Cons, of env] r by simp
    show ?thesis
    proof (cases "r = 0")
      case True
      with 1 Cons r have "same_bufs s2 (rx_submit_loop env s2)" by (simp add: aicwf_usb_rx_buf_get_def)
      with step True Cons r show ?thesis
        by (subst rx_submit_loop.simps) (auto simp: aicwf_usb_rx_buf_get_def intro: same_bufs_trans)
    next
      case False
      with step Cons r show ?thesis by (subst rx_submit_loop.simps) (simp add: aicwf_usb_rx_buf_get_def)
    qed
  qed
qed

lemma submit_all_same: "same_bufs s (aicwf_usb_rx_submit_all_urb env s)"
  by (simp add: aicwf_usb_rx_submit_all_urb_def submit_loop_same) (simp add: same_bufs_def)

text \<open>When nothing fails the whole free list goes to the controller.\<close>

lemma submit_loop_all:
  assumes "\<And>n. env n = (True, True)"
  shows "u_state s = USB_UP_ST \<Longrightarrow> rx_free_list (rx_submit_loop env s) = []"
proof (induction "rx_free_list s" arbitrary: s)
  case Nil
  then show ?case by (subst rx_submit_loop.simps) (simp add: aicwf_usb_rx_buf_get_def flip: Nil.hyps)
next
  case (Cons b bs)
  let ?t = "s\<lparr>rx_free_list := bs, attempts := attempts s + 1, rx_submitted := b # rx_submitted s, rx_urb_cnt := rx_urb_cnt s + 1\<rparr>"
  have "rx_submit_loop env s = rx_submit_loop env ?t"
    using Cons.prems by (subst rx_submit_loop.simps)
      (simp add: aicwf_usb_rx_buf_get_def aicwf_usb_submit_rx_urb_def assms Let_def flip: Cons.hyps(2))
  with Cons.hyps(1) [of ?t] Cons.prems show ?case by simp
qed

text \<open>Every way through the completion handler ends in one of three forms, on a state that has the buffer in its free list.\<close>

definition rx_inv :: "nat multiset \<Rightarrow> 'z usb_rx_scheme \<Rightarrow> bool" where
  "rx_inv B s \<longleftrightarrow> rx_bufs s = B \<and> rx_urb_cnt s = int (length (rx_submitted s))"

lemma rx_inv_same: "same_bufs s t \<Longrightarrow> rx_inv B s \<Longrightarrow> rx_inv B t"
  by (simp add: rx_inv_def same_bufs_def)

lemma rx_inv_cong:
  "rx_free_list t = rx_free_list s \<Longrightarrow> rx_submitted t = rx_submitted s \<Longrightarrow> rx_urb_cnt t = rx_urb_cnt s \<Longrightarrow> rx_inv B t = rx_inv B s"
  by (simp add: rx_inv_def rx_bufs_def)

lemma enqueue_keeps_lists:
  assumes "rx_complete_enqueue skb s = (ok, t)"
  shows "rx_free_list t = rx_free_list s" "rx_submitted t = rx_submitted s" "rx_urb_cnt t = rx_urb_cnt s" "u_state t = u_state s"
  using assms by (auto simp: rx_complete_enqueue_def split: prod.splits)

lemma wake_keeps_lists [simp]:
  "rx_free_list (rx_complete_wake s) = rx_free_list s" "rx_submitted (rx_complete_wake s) = rx_submitted s"
  "rx_urb_cnt (rx_complete_wake s) = rx_urb_cnt s" "u_state (rx_complete_wake s) = u_state s"
  "rx_priv (rx_complete_wake s) = rx_priv s"
  by (simp_all add: rx_complete_wake_def)

lemma count_keeps_lists [simp]:
  "rx_free_list (rx_complete_count s) = rx_free_list s" "rx_submitted (rx_complete_count s) = rx_submitted s"
  "rx_urb_cnt (rx_complete_count s) = rx_urb_cnt s" "u_state (rx_complete_count s) = u_state s"
  "busrx_trgg (rx_complete_count s) = busrx_trgg s"
  by (simp_all add: rx_complete_count_def)

lemma disconnect_keeps_lists [simp]:
  "rx_free_list (rx_disconnect s) = rx_free_list s" "rx_submitted (rx_disconnect s) = rx_submitted s"
  "rx_urb_cnt (rx_disconnect s) = rx_urb_cnt s"
  by (simp_all add: rx_disconnect_def)

lemma rx_inv_give_back:
  assumes "rx_inv B s" "b \<in> set (rx_submitted s)"
    and "rx_free_list t = rx_free_list s" "rx_submitted t = remove1 b (rx_submitted s)" "rx_urb_cnt t = rx_urb_cnt s - 1"
  shows "rx_inv B (aicwf_usb_rx_buf_put b t)"
proof -
  have "int (length (remove1 b (rx_submitted s))) = int (length (rx_submitted s)) - 1"
  proof -
    obtain n where "length (rx_submitted s) = Suc n" using length_pos_if_in_set [OF assms(2)] by (metis gr0_conv_Suc)
    with assms(2) show ?thesis by (simp add: length_remove1)
  qed
  with assms show ?thesis
    by (auto simp: rx_inv_def rx_bufs_def aicwf_usb_rx_buf_put_def)
qed

lemma rx_complete_inv:
  assumes "rx_inv B s" "b \<in> set (rx_submitted s)"
  shows "rx_inv B (aicwf_usb_rx_complete env b u s)"
proof -
  let ?s1 = "s\<lparr>rx_submitted := remove1 b (rx_submitted s), rx_urb_cnt := rx_urb_cnt s - 1\<rparr>"
  have g: "rx_inv B (aicwf_usb_rx_buf_put b (free_rx_skb (urb_skb u) ?s1))" (is "rx_inv B ?g")
    by (rule rx_inv_give_back [OF assms]) (simp_all add: free_rx_skb_def)
  have gs: "rx_inv B (aicwf_usb_rx_submit_all_urb env ?g)" by (rule rx_inv_same [OF submit_all_same g])
  have gd: "rx_inv B (rx_disconnect ?g)" using g by (simp add: rx_inv_cong [of "rx_disconnect ?g" ?g])
  have q: "rx_inv B (aicwf_usb_rx_submit_all_urb env (aicwf_usb_rx_buf_put b (rx_complete_wake (rx_complete_count t))))"
    if "rx_complete_enqueue ((urb_skb u)\<lparr>skb_len := actual_length u\<rparr>) ?s1 = (True, t)" for t
    by (rule rx_inv_same [OF submit_all_same], rule rx_inv_give_back [OF assms]) (use enqueue_keeps_lists [OF that] in simp_all)
  show ?thesis
    using g gs gd q by (auto simp: aicwf_usb_rx_complete_def Let_def split: prod.splits bool.splits)
qed

inductive rx_dev_step :: "usb_rx \<Rightarrow> usb_rx \<Rightarrow> bool" where
  dev_complete: "b \<in> set (rx_submitted s) \<Longrightarrow> rx_dev_step s (aicwf_usb_rx_complete env b u s)"
| dev_work: "rx_dev_step s (aicwf_usb_rx_urb_work env s)"
| dev_thread: "rx_dev_step s (s\<lparr>rx_priv := p, busrx_trgg := n\<rparr>)"
| dev_state: "rx_dev_step s (s\<lparr>u_state := st, hw_ready := h\<rparr>)"

lemma rx_dev_step_inv:
  assumes "rx_inv B s" "rx_dev_step s t"
  shows "rx_inv B t"
  using assms(2)
proof cases
  case (dev_complete b env u)
  with assms(1) show ?thesis by (simp add: rx_complete_inv)
next
  case (dev_work env)
  with assms(1) rx_inv_same [OF submit_all_same] show ?thesis by (simp add: aicwf_usb_rx_urb_work_def)
next
  case (dev_thread p n)
  with assms(1) show ?thesis by (simp add: rx_inv_def rx_bufs_def)
next
  case (dev_state st h)
  with assms(1) show ?thesis by (simp add: rx_inv_def rx_bufs_def)
qed

interpretation rxdev: step_system "rx_inv B" rx_dev_step "rx_inv B" for B
  by unfold_locales (auto intro: rx_dev_step_inv)

section \<open>Refilling the message endpoint\<close>

text \<open>While no attempt succeeds, a buffer taken from the free list comes back to its end.\<close>

definition spinning :: "(nat \<Rightarrow> bool \<times> bool) \<Rightarrow> 'z usb_rx_scheme \<Rightarrow> bool" where
  "spinning env s \<longleftrightarrow> (\<forall>n. \<not> (fst (env n) \<and> snd (env n))) \<and> u_state s = USB_UP_ST \<and> msg_rx_free_list s \<noteq> []"

lemma spinning_round:
  assumes "spinning env s"
  shows "\<exists>b s1 r s2. aicwf_usb_msg_rx_buf_get s = (Some b, s1) \<and> aicwf_usb_submit_msg_rx_urb env b s1 = (r, s2) \<and> spinning env s2"
proof -
  obtain b bs where "msg_rx_free_list s = b # bs" using assms by (auto simp: spinning_def neq_Nil_conv)
  moreover obtain x y where "env (attempts s) = (x, y)" "\<not> x \<or> \<not> y"
    using assms by (metis fst_conv snd_conv spinning_def surj_pair)
  ultimately show ?thesis
    using assms by (auto simp: spinning_def aicwf_usb_msg_rx_buf_get_def aicwf_usb_submit_msg_rx_urb_def
        aicwf_usb_msg_rx_buf_put_def Let_def split: prod.splits)
qed

lemma spinning_never_ends: "spinning env s \<Longrightarrow> msg_submit_loop env s = None"
proof (rule ccontr)
  assume sp: "spinning env s" and "msg_submit_loop env s \<noteq> None"
  then obtain t where t: "msg_submit_loop env s = Some t" by blast
  have "\<not> spinning env s"
  proof (rule msg_submit_loop.raw_induct [where P = "\<lambda>env s _. \<not> spinning env s", OF _ t])
    fix f env s t
    assume IH: "\<And>env s t. f env s = Some t \<Longrightarrow> \<not> spinning env s"
      and eq: "(case aicwf_usb_msg_rx_buf_get s of (None, s1) \<Rightarrow> Some s1 | (Some b, s1) \<Rightarrow>
         (case aicwf_usb_submit_msg_rx_urb env b s1 of (r, s2) \<Rightarrow>
            if r \<noteq> 0 \<and> u_state s2 \<noteq> USB_UP_ST then Some s2 else f env s2)) = Some t"
    show "\<not> spinning env s"
    proof
      assume "spinning env s"
      then obtain b s1 r s2 where S: "aicwf_usb_msg_rx_buf_get s = (Some b, s1)" "aicwf_usb_submit_msg_rx_urb env b s1 = (r, s2)"
        "spinning env s2"
        using spinning_round by blast
      then have "u_state s2 = USB_UP_ST" by (simp add: spinning_def)
      with eq S(1,2) have "f env s2 = Some t" by simp
      with IH S(3) show False by blast
    qed
  qed
  with sp show False by contradiction
qed

lemma msg_submit_all_ok:
  assumes "\<And>n. env n = (True, True)"
  shows "u_state s = USB_UP_ST \<Longrightarrow>
    \<exists>t. msg_submit_loop env s = Some t \<and> msg_rx_priv t = msg_rx_priv s \<and> msg_rx_free_list t = [] \<and> mset (msg_rx_submitted t) = mset (msg_rx_free_list s) + mset (msg_rx_submitted s)"
proof (induction "msg_rx_free_list s" arbitrary: s)
  case Nil
  then show ?case by (subst msg_submit_loop.simps) (simp add: aicwf_usb_msg_rx_buf_get_def flip: Nil.hyps)
next
  case (Cons b bs)
  let ?t = "s\<lparr>msg_rx_free_list := bs, attempts := attempts s + 1, msg_rx_submitted := b # msg_rx_submitted s\<rparr>"
  have "msg_submit_loop env s = msg_submit_loop env ?t"
    using Cons.prems by (subst msg_submit_loop.simps)
      (simp add: aicwf_usb_msg_rx_buf_get_def aicwf_usb_submit_msg_rx_urb_def assms Let_def flip: Cons.hyps(2))
  with Cons.hyps(1) [of ?t] Cons.prems show ?case by (simp flip: Cons.hyps(2))
qed

section \<open>Wake-ups\<close>

definition taken :: "thread_pc \<Rightarrow> int" where
  "taken pc = (case pc of T_PKT _ \<Rightarrow> 1 | _ \<Rightarrow> 0)"

definition uncounted :: "handler_pc \<Rightarrow> int" where
  "uncounted pc = (if pc = H_COUNT then 1 else 0)"

definition wake_inv :: "rx_sys \<Rightarrow> bool" where
  "wake_inv s \<longleftrightarrow>
    (let p = rx_priv (dev s); n = length (queued (rxq p))
     in rxq_ok (rxq p) \<and> rx_cnt p = int n + taken (tpc s) - uncounted (hpc s)
        \<and> (tpc s = T_WAIT \<and> busrx_trgg (dev s) = 0 \<longrightarrow> n = 0 \<or> hpc s \<noteq> H_IDLE \<and> n = 1))"

lemma single_round_counts:
  "single_round alloc down skb p = Done p' \<Longrightarrow> rxq p' = rxq p \<and> rx_cnt p' = rx_cnt p - 1"
  "single_round alloc down skb p = Abort p' \<Longrightarrow> rxq p' = rxq p \<and> rx_cnt p' = rx_cnt p \<and> \<not> alloc (allocs p)"
  by (auto simp: single_round_def single_cfg_def rx_done_def add_events_def Let_def split: option.splits if_splits)

lemma enqueue_ok:
  assumes "rxq_ok (rxq (rx_priv s))" "rx_complete_enqueue skb s = (True, t)"
  shows "rxq_ok (rxq (rx_priv t))" "queued (rxq (rx_priv t)) = queued (rxq (rx_priv s)) @ [skb]"
    "rx_cnt (rx_priv t) = rx_cnt (rx_priv s)" "busrx_trgg t = busrx_trgg s"
proof -
  let ?q = "rxq (rx_priv s)"
  obtain q fr where e: "aicwf_rxframe_enqueue ?q skb = (True, q, fr)" and t: "rxq (rx_priv t) = q"
    and c: "rx_cnt (rx_priv t) = rx_cnt (rx_priv s)" "busrx_trgg t = busrx_trgg s"
    using assms(2) by (auto simp: rx_complete_enqueue_def add_events_def split: prod.splits)
  have enq: "rxq_enq ?q skb = (True, q)" using e by (simp add: rxq_enq_def)
  then have "length (queued ?q) \<noteq> unat (qmax ?q)" using rxq.enq_full [OF assms(1), of skb] by auto
  with rxq.bounded [OF assms(1)] have "length (queued ?q) < unat (qmax ?q)" by simp
  from rxq.enq_room [OF assms(1) this, of skb] enq t
  show "rxq_ok (rxq (rx_priv t))" "queued (rxq (rx_priv t)) = queued ?q @ [skb]" by auto
  from c show "rx_cnt (rx_priv t) = rx_cnt (rx_priv s)" "busrx_trgg t = busrx_trgg s" .
qed

lemma msg_enqueue_room:
  assumes "rxq_ok (rxq (msg_rx_priv s))" "length (queued (rxq (msg_rx_priv s))) < unat (qmax (rxq (msg_rx_priv s)))"
  shows "\<exists>t. msg_complete_enqueue skb s = (True, t) \<and> rxq_ok (rxq (msg_rx_priv t)) \<and> u_state t = u_state s
     \<and> queued (rxq (msg_rx_priv t)) = queued (rxq (msg_rx_priv s)) @ [skb]
     \<and> rx_events (msg_rx_priv t) = rx_events (msg_rx_priv s) \<and> allocs (msg_rx_priv t) = allocs (msg_rx_priv s)"
proof -
  let ?q = "rxq (msg_rx_priv s)"
  have "qcnt ?q < qmax ?q" using assms by (simp add: rxq_ok_def fq_ok_def word_less_nat_alt)
  moreover obtain q where "rxq_enq ?q skb = (True, q)" "rxq_ok q" "queued q = queued ?q @ [skb]"
    using rxq.enq_room [OF assms, of skb] by blast
  ultimately have "aicwf_rxframe_enqueue ?q skb = (True, q, [])" "rxq_ok q" "queued q = queued ?q @ [skb]"
    using enq_room_ok [of ?q 0 skb] rxq_items(2) [OF assms(1)] assms(1)
    by (auto simp: rxq_enq_def aicwf_rxframe_enqueue_def rxq_ok_def)
  then show ?thesis by (simp add: msg_complete_enqueue_def add_events_def)
qed

lemma wake_inv_step:
  assumes "wake_inv s" "rx_sys_step (\<lambda>_. True) s t"
  shows "wake_inv t"
  using assms(2)
proof cases
  case (h_enqueue skb ok d)
  show ?thesis
  proof (cases ok)
    case True
    from enqueue_ok [of "dev s" skb d] h_enqueue True assms(1) show ?thesis
      by (auto simp: wake_inv_def Let_def uncounted_def)
  qed (use h_enqueue assms(1) in simp)
next
  case h_count
  with assms(1) show ?thesis by (auto simp: wake_inv_def Let_def uncounted_def rx_complete_count_def)
next
  case h_wake
  with assms(1) show ?thesis
    by (auto simp: wake_inv_def Let_def uncounted_def taken_def rx_complete_wake_def split: thread_pc.splits)
next
  case t_wake
  with assms(1) show ?thesis by (auto simp: wake_inv_def Let_def taken_def)
next
  case t_empty
  with assms(1) show ?thesis by (auto simp: wake_inv_def Let_def taken_def rxq_ok_def empty_iff)
next
  case (t_take r q)
  then obtain x xs where "queued (rxq (rx_priv (dev s))) = x # xs"
    using assms(1) by (cases "queued (rxq (rx_priv (dev s)))") (auto simp: wake_inv_def Let_def rxq_ok_def empty_iff)
  with rxq.deq_first [of "rxq (rx_priv (dev s))" x xs] assms(1) t_take show ?thesis
    by (auto simp: wake_inv_def Let_def taken_def)
next
  case (t_done skb p)
  with single_round_counts(1) [OF t_done(3)] assms(1) show ?thesis by (auto simp: wake_inv_def Let_def taken_def)
next
  case (t_abort skb p)
  with single_round_counts(2) [OF t_abort(3)] show ?thesis by simp
next
  case bus_stop
  with assms(1) show ?thesis by (simp add: wake_inv_def)
qed

definition rx_sys_start :: "rx_sys \<Rightarrow> bool" where
  "rx_sys_start s \<longleftrightarrow> rxq_ok (rxq (rx_priv (dev s))) \<and> queued (rxq (rx_priv (dev s))) = [] \<and> rx_cnt (rx_priv (dev s)) = 0
     \<and> busrx_trgg (dev s) = 0 \<and> hpc s = H_IDLE \<and> tpc s = T_WAIT \<and> \<not> bus_down s"

interpretation rxsys: step_system rx_sys_start "rx_sys_step (\<lambda>_. True)" wake_inv
proof
  show "wake_inv s" if "rx_sys_start s" for s
    using that by (simp add: rx_sys_start_def wake_inv_def taken_def uncounted_def)
qed (rule wake_inv_step)

text \<open>The receive thread sleeps and nothing will wake it: \<^verbatim>\<open>rx_cnt\<close> is too high for any later completion to see the value one.\<close>

definition asleep_for_good :: "rx_sys \<Rightarrow> bool" where
  "asleep_for_good s \<longleftrightarrow> tpc s = T_WAIT \<and> busrx_trgg (dev s) = 0
     \<and> (if hpc s = H_WAKE then 2 else 1) \<le> rx_cnt (rx_priv (dev s))"

lemma asleep_step:
  assumes "asleep_for_good s" "rx_sys_step alloc s t"
  shows "asleep_for_good t"
  using assms(2)
proof cases
  case (h_enqueue skb ok d)
  then have "rx_cnt (rx_priv d) = rx_cnt (rx_priv (dev s))" "busrx_trgg d = busrx_trgg (dev s)"
    by (auto simp: rx_complete_enqueue_def add_events_def split: prod.splits)
  with h_enqueue assms(1) show ?thesis by (auto simp: asleep_for_good_def)
next
  case h_count
  with assms(1) show ?thesis by (simp add: asleep_for_good_def rx_complete_count_def)
next
  case h_wake
  with assms(1) show ?thesis by (simp add: asleep_for_good_def rx_complete_wake_def)
next
  case bus_stop
  with assms(1) show ?thesis by (simp add: asleep_for_good_def)
qed (use assms(1) in \<open>simp_all add: asleep_for_good_def\<close>)

interpretation asleep: step_system asleep_for_good "rx_sys_step alloc" asleep_for_good for alloc
  by unfold_locales (auto intro: asleep_step)

section \<open>Properties\<close>

text \<open>
  C33: the bulk-in endpoint never loses a transfer buffer.  Over every sequence of completions (with any status, length and outcome of
  the queueing), refills with any pattern of failures, receive-thread work and bus state changes, each buffer is either free or
  submitted, and \<^verbatim>\<open>rx_urb_cnt\<close> counts the submitted ones; a refill in which nothing fails submits every free buffer.
\<close>

theorem rx_transfer_buffers_conserved:
  assumes "rx_urb_cnt s = int (length (rx_submitted s))" and "rx_dev_step\<^sup>*\<^sup>* s t"
  shows "mset (rx_free_list t) + mset (rx_submitted t) = mset (rx_free_list s) + mset (rx_submitted s)
     \<and> rx_urb_cnt t = int (length (rx_submitted t))
     \<and> (u_state t = USB_UP_ST \<longrightarrow> rx_free_list (aicwf_usb_rx_submit_all_urb (\<lambda>_. (True, True)) t) = [])"
proof -
  have "rx_inv (rx_bufs s) t"
    by (rule rxdev.inv_reachable [OF _ assms(2)]) (use assms(1) in \<open>simp add: rx_inv_def\<close>)
  then show ?thesis
    by (simp add: rx_inv_def rx_bufs_def aicwf_usb_rx_submit_all_urb_def submit_loop_all)
qed

definition rx_demo_dev :: usb_rx where
  "rx_demo_dev = \<lparr>u_state = USB_UP_ST, hw_ready = True, rx_free_list = [], rx_submitted = [0, 1], rx_urb_cnt = 2, rx_prepare_ready = True,
     rx_priv = demo_thread [], busrx_trgg = 0, msg_rx_free_list = [], msg_rx_submitted = [0, 1], msg_rx_priv = demo_thread [],
     msg_busrx_trgg = 0, wait_disconnect_cb = False, deinit_atomic = 1, deinit_sem = 1, attempts = 0\<rparr>"

definition demo_urb :: urb where
  "demo_urb = \<lparr>urb_status = 0, actual_length = 40, transfer_buffer_length = 2048, urb_skb = demo_cut\<rparr>"

theorem rx_transfer_buffers_conserved_witness:
  "mset (rx_free_list (aicwf_usb_rx_complete (\<lambda>_. (True, False)) 1 demo_urb rx_demo_dev))
     + mset (rx_submitted (aicwf_usb_rx_complete (\<lambda>_. (True, False)) 1 demo_urb rx_demo_dev)) = {#0, 1#}"
proof -
  have "rx_dev_step\<^sup>*\<^sup>* rx_demo_dev (aicwf_usb_rx_complete (\<lambda>_. (True, False)) 1 demo_urb rx_demo_dev)"
    by (rule r_into_rtranclp, rule dev_complete) (simp add: rx_demo_dev_def)
  moreover have "rx_urb_cnt rx_demo_dev = int (length (rx_submitted rx_demo_dev))" "rx_free_list rx_demo_dev = []" "rx_submitted rx_demo_dev = [0, 1]"
    by (simp_all add: rx_demo_dev_def)
  ultimately show ?thesis using rx_transfer_buffers_conserved by (metis mset.simps add_0)
qed

text \<open>
  When the message queue is full, the completion handler of the message endpoint frees the socket buffer and forgets the
  transfer buffer: it is neither put back on the free list nor submitted again, so every overflow leaves the endpoint with one
  buffer less.
\<close>

theorem message_overflow_loses_buffer:
  assumes "rxq_ok (rxq (msg_rx_priv s))" and "length (queued (rxq (msg_rx_priv s))) = unat (qmax (rxq (msg_rx_priv s)))"
    and "u_state s = USB_UP_ST" and "urb_status u = 0" and "0 < actual_length u" and "actual_length u \<le> transfer_buffer_length u"
    and "b \<in> set (msg_rx_submitted s)"
  shows "\<exists>t. aicwf_usb_msg_rx_complete env b u s = Some t
     \<and> mset (msg_rx_free_list s) + mset (msg_rx_submitted s) = add_mset b (mset (msg_rx_free_list t) + mset (msg_rx_submitted t))
     \<and> rx_events (msg_rx_priv t) = rx_events (msg_rx_priv s) @ [FreeSkb (skb_id (urb_skb u))]"
proof -
  have "rxq_enq (rxq (msg_rx_priv s)) k = (False, rxq (msg_rx_priv s))" for k
    by (rule rxq.enq_full [OF assms(1,2)])
  then have "fst (aicwf_rxframe_enqueue (rxq (msg_rx_priv s)) k) = False" for k
    using arg_cong [of _ _ fst] by (auto simp: rxq_enq_def case_prod_beta)
  then have "fst (msg_complete_enqueue k (s\<lparr>msg_rx_submitted := l\<rparr>)) = False" for k l
    by (simp add: msg_complete_enqueue_def case_prod_beta)
  then have "aicwf_usb_msg_rx_complete env b u s
      = Some (free_msg_skb (urb_skb u) (s\<lparr>msg_rx_submitted := remove1 b (msg_rx_submitted s)\<rparr>))"
    using assms(3-6) by (auto simp: aicwf_usb_msg_rx_complete_def Let_def split: prod.splits bool.splits)
      (metis fst_conv)+
  then show ?thesis
    using assms(7) by (simp add: free_msg_skb_def add_events_def)
qed

definition full_demo_queue :: "rx_skb frame_queue" where
  "full_demo_queue = \<lparr>num_prio = 1, hi_prio = 0, qmax = 1, qcnt = 1, queuelist = [demo_cut] # replicate 7 []\<rparr>"

lemma full_demo_queue_ok: "rxq_ok full_demo_queue" "length (queued full_demo_queue) = unat (qmax full_demo_queue)"
  by (auto simp: rxq_ok_def fq_ok_def full_demo_queue_def queued_def)

theorem message_overflow_loses_buffer_witness:
  "\<exists>t. aicwf_usb_msg_rx_complete (\<lambda>_. (True, True)) 1 demo_urb (rx_demo_dev\<lparr>msg_rx_priv := (demo_thread [])\<lparr>rxq := full_demo_queue\<rparr>\<rparr>) = Some t
     \<and> {#0, 1#} = add_mset 1 (mset (msg_rx_free_list t) + mset (msg_rx_submitted t))"
  using message_overflow_loses_buffer [of "rx_demo_dev\<lparr>msg_rx_priv := (demo_thread [])\<lparr>rxq := full_demo_queue\<rparr>\<rparr>" demo_urb 1 "\<lambda>_. (True, True)"]
    full_demo_queue_ok
  by (auto simp: rx_demo_dev_def demo_urb_def add_mset_commute)

text \<open>
  refilling the message endpoint succeeds completely when nothing fails, but it does not give up when everything fails: as long as
  no socket buffer can be allocated or no buffer can be submitted while the bus counts as up, \<^verbatim>\<open>aicwf_usb_msg_rx_submit_all_urb\<close> loops
  forever, in the completion handler that called it.
\<close>

theorem message_refill_never_gives_up:
  assumes "u_state s = USB_UP_ST"
  shows "(\<exists>t. aicwf_usb_msg_rx_submit_all_urb (\<lambda>_. (True, True)) s = Some t \<and> msg_rx_free_list t = []
       \<and> mset (msg_rx_submitted t) = mset (msg_rx_free_list s) + mset (msg_rx_submitted s))
     \<and> (msg_rx_free_list s \<noteq> [] \<and> (\<forall>n. \<not> (fst (env n) \<and> snd (env n))) \<longrightarrow> aicwf_usb_msg_rx_submit_all_urb env s = None)"
  using msg_submit_all_ok [of "\<lambda>_. (True, True)" s] spinning_never_ends [of env s] assms
  by (auto simp: aicwf_usb_msg_rx_submit_all_urb_def spinning_def)

theorem message_refill_never_gives_up_witness:
  "aicwf_usb_msg_rx_submit_all_urb (\<lambda>n. (True, False)) (rx_demo_dev\<lparr>msg_rx_free_list := [7]\<rparr>) = None"
  using message_refill_never_gives_up [of "rx_demo_dev\<lparr>msg_rx_free_list := [7]\<rparr>" "\<lambda>n. (True, False)"]
  by (simp add: rx_demo_dev_def)

text \<open>
  C36: no wake-up is lost while allocations succeed.  However the completion handler's queueing, counting and waking interleave with the
  receive thread's waiting, taking and counting, whenever the thread sleeps with no wake-up pending and no handler is under way,
  every transfer has been taken off the queue and \<^verbatim>\<open>rx_cnt\<close> is zero.
\<close>

theorem no_wakeup_is_lost:
  assumes "rx_sys_start s" and "(rx_sys_step (\<lambda>_. True))\<^sup>*\<^sup>* s t"
    and "tpc t = T_WAIT" and "busrx_trgg (dev t) = 0" and "hpc t = H_IDLE"
  shows "queued (rxq (rx_priv (dev t))) = [] \<and> rx_cnt (rx_priv (dev t)) = 0"
proof -
  have "wake_inv t" by (rule rxsys.inv_reachable [OF assms(1,2)])
  with assms(3-5) show ?thesis by (simp add: wake_inv_def Let_def taken_def uncounted_def)
qed

definition sys_demo :: "usb_rx \<Rightarrow> handler_pc \<Rightarrow> thread_pc \<Rightarrow> rx_sys" where
  "sys_demo d h t = \<lparr>dev = d, hpc = h, tpc = t, bus_down = False\<rparr>"

definition with_rx :: "rx_thread \<Rightarrow> nat \<Rightarrow> usb_rx" where
  "with_rx p n = rx_demo_dev\<lparr>rx_priv := p, busrx_trgg := n\<rparr>"

lemma with_rx_simps [simp]:
  "rx_priv (with_rx p n) = p" "busrx_trgg (with_rx p n) = n" "(with_rx p n)\<lparr>rx_priv := p'\<rparr> = with_rx p' n"
  "(with_rx p n)\<lparr>busrx_trgg := m\<rparr> = with_rx p m"
  by (simp_all add: with_rx_def rx_demo_dev_def)

lemma sys_demo_start: "rx_sys_start (sys_demo (with_rx (demo_thread []) 0) H_IDLE T_WAIT)"
  using demo_thread_ok [of "[]"] by (simp add: rx_sys_start_def sys_demo_def) (simp add: demo_thread_def)

text \<open>One transfer arrives, is counted and wakes the thread, which takes it.\<close>

lemma sys_demo_run:
  assumes enq: "rx_complete_enqueue skb (with_rx (demo_thread []) 0) = (True, with_rx p 0)" and c: "rx_cnt p = 0"
    and deq: "\<not> aicwf_is_framequeue_empty (rxq p)" "aicwf_frame_dequeue (rxq p) = (Some skb, q)"
  shows "(rx_sys_step alloc)\<^sup>*\<^sup>* (sys_demo (with_rx (demo_thread []) 0) H_IDLE T_WAIT)
     (sys_demo (with_rx (p\<lparr>rx_cnt := 1, rxq := q\<rparr>) 0) H_IDLE (T_PKT skb))"
proof -
  let ?p1 = "p\<lparr>rx_cnt := 1\<rparr>"
  note D = sys_demo_def
  have "rx_sys_step alloc (sys_demo (with_rx (demo_thread []) 0) H_IDLE T_WAIT) (sys_demo (with_rx p 0) H_COUNT T_WAIT)"
    using h_enqueue [of "sys_demo (with_rx (demo_thread []) 0) H_IDLE T_WAIT" skb True "with_rx p 0" alloc] enq by (simp add: sys_demo_def)
  moreover have "rx_sys_step alloc (sys_demo (with_rx p 0) H_COUNT T_WAIT) (sys_demo (with_rx ?p1 0) H_WAKE T_WAIT)"
    using h_count [of "sys_demo (with_rx p 0) H_COUNT T_WAIT" alloc] c by (simp add: D rx_complete_count_def)
  moreover have "rx_sys_step alloc (sys_demo (with_rx ?p1 0) H_WAKE T_WAIT) (sys_demo (with_rx ?p1 1) H_IDLE T_WAIT)"
    using h_wake [of "sys_demo (with_rx ?p1 0) H_WAKE T_WAIT" alloc] by (simp add: D rx_complete_wake_def)
  moreover have "rx_sys_step alloc (sys_demo (with_rx ?p1 1) H_IDLE T_WAIT) (sys_demo (with_rx ?p1 0) H_IDLE T_LOOP)"
    using t_wake [of "sys_demo (with_rx ?p1 1) H_IDLE T_WAIT" alloc] by (simp add: D)
  moreover have "rx_sys_step alloc (sys_demo (with_rx ?p1 0) H_IDLE T_LOOP) (sys_demo (with_rx (?p1\<lparr>rxq := q\<rparr>) 0) H_IDLE (T_PKT skb))"
    using t_take [of "sys_demo (with_rx ?p1 0) H_IDLE T_LOOP" "Some skb" q alloc] deq by (simp add: D)
  ultimately show ?thesis
    by (meson converse_rtranclp_into_rtranclp rtranclp.rtrancl_refl)
qed

text \<open>A response of one byte.\<close>

definition demo_rsp :: rx_skb where
  "demo_rsp = \<lparr>skb_id = 8, skb_mem = [1, 0, 0x11, 0, 9, 0, 0, 0, 0], skb_len = 5\<rparr>"

definition rsp_queued :: rx_thread where
  "rsp_queued = (demo_thread [demo_rsp])\<lparr>rx_cnt := 0\<rparr>"

lemma demo_rsp_values:
  "rx_complete_enqueue demo_rsp (with_rx (demo_thread []) 0) = (True, with_rx rsp_queued 0)"
  "aicwf_frame_dequeue (rxq rsp_queued) = (Some demo_rsp, demo_queue [])"
  "\<not> aicwf_is_framequeue_empty (rxq rsp_queued)" "rx_cnt rsp_queued = 0"
  by code_simp+

definition rsp_handled :: rx_thread where
  "rsp_handled = \<lparr>rxq = demo_queue [], rx_cnt = 0, rx_events = [CmdRsp [9], FreeSkb 8], allocs = 1\<rparr>"

text \<open>The thread treats the response and goes back to sleep.\<close>

lemma sys_demo_sleeps:
  "(rx_sys_step (\<lambda>_. True))\<^sup>*\<^sup>* (sys_demo (with_rx (demo_thread []) 0) H_IDLE T_WAIT) (sys_demo (with_rx rsp_handled 0) H_IDLE T_WAIT)"
proof -
  let ?p = "rsp_queued\<lparr>rx_cnt := 1, rxq := demo_queue []\<rparr>"
  have r: "single_round (\<lambda>_. True) False demo_rsp ?p = Done rsp_handled" "aicwf_is_framequeue_empty (rxq rsp_handled)"
    by code_simp+
  have "(rx_sys_step (\<lambda>_. True))\<^sup>*\<^sup>* (sys_demo (with_rx (demo_thread []) 0) H_IDLE T_WAIT) (sys_demo (with_rx ?p 0) H_IDLE (T_PKT demo_rsp))"
    by (rule sys_demo_run [OF demo_rsp_values(1,4,3,2)])
  moreover have "rx_sys_step (\<lambda>_. True) (sys_demo (with_rx ?p 0) H_IDLE (T_PKT demo_rsp)) (sys_demo (with_rx rsp_handled 0) H_IDLE T_LOOP)"
    using t_done [of "sys_demo (with_rx ?p 0) H_IDLE (T_PKT demo_rsp)" demo_rsp "\<lambda>_. True" rsp_handled] r(1) by (simp add: sys_demo_def)
  moreover have "rx_sys_step (\<lambda>_. True) (sys_demo (with_rx rsp_handled 0) H_IDLE T_LOOP) (sys_demo (with_rx rsp_handled 0) H_IDLE T_WAIT)"
    using t_empty [of "sys_demo (with_rx rsp_handled 0) H_IDLE T_LOOP" "\<lambda>_. True"] r(2) by (simp add: sys_demo_def)
  ultimately show ?thesis by (meson rtranclp.rtrancl_into_rtrancl)
qed

theorem no_wakeup_is_lost_witness:
  "queued (rxq (rx_priv (dev (sys_demo (with_rx rsp_handled 0) H_IDLE T_WAIT)))) = []
   \<and> rx_cnt (rx_priv (dev (sys_demo (with_rx rsp_handled 0) H_IDLE T_WAIT))) = 0"
  using no_wakeup_is_lost [OF sys_demo_start sys_demo_sleeps] by (simp add: sys_demo_def)

text \<open>
  One failed allocation for a configuration packet ends reception.  When the receive thread cannot allocate the copy of such a packet,
  \<^verbatim>\<open>aicwf_process_rxframes\<close> returns without lowering \<^verbatim>\<open>rx_cnt\<close>; if no wake-up was pending, no later sequence of completions ever wakes the
  thread again, because the handler wakes it only when it sees the count one.
\<close>

theorem failed_allocation_ends_reception:
  assumes "tpc s = T_PKT skb" and "hpc s = H_IDLE" and "busrx_trgg (dev s) = 0" and "1 \<le> rx_cnt (rx_priv (dev s))"
    and "single_round alloc (bus_down s) skb (rx_priv (dev s)) = Abort p"
    and "t = s\<lparr>dev := (dev s)\<lparr>rx_priv := p\<rparr>, tpc := T_WAIT\<rparr>" and "(rx_sys_step alloc')\<^sup>*\<^sup>* t v"
  shows "rx_sys_step alloc s t \<and> tpc v = T_WAIT \<and> busrx_trgg (dev v) = 0"
proof -
  have "rx_cnt p = rx_cnt (rx_priv (dev s))" using single_round_counts(2) [OF assms(5)] by simp
  then have "asleep_for_good t" using assms(2-4,6) by (simp add: asleep_for_good_def)
  then have "asleep_for_good v" by (rule asleep.inv_reachable [OF _ assms(7)])
  then show ?thesis using t_abort [OF assms(1,5)] assms(6) by (simp add: asleep_for_good_def)
qed

theorem failed_allocation_ends_reception_witness:
  "\<exists>s p. (rx_sys_step (\<lambda>_. False))\<^sup>*\<^sup>* (sys_demo (with_rx (demo_thread []) 0) H_IDLE T_WAIT) s
     \<and> rx_sys_step (\<lambda>_. False) s (s\<lparr>dev := (dev s)\<lparr>rx_priv := p\<rparr>, tpc := T_WAIT\<rparr>) \<and> rx_cnt p = 1"
proof -
  let ?s = "sys_demo (with_rx (rsp_queued\<lparr>rx_cnt := 1, rxq := demo_queue []\<rparr>) 0) H_IDLE (T_PKT demo_rsp)"
  let ?p = "add_events [FreeSkb 8] (rsp_queued\<lparr>rx_cnt := 1, rxq := demo_queue [], allocs := 1\<rparr>)"
  have r: "single_round (\<lambda>_. False) False demo_rsp (rsp_queued\<lparr>rx_cnt := 1, rxq := demo_queue []\<rparr>) = Abort ?p"
    by code_simp
  have "(rx_sys_step (\<lambda>_. False))\<^sup>*\<^sup>* (sys_demo (with_rx (demo_thread []) 0) H_IDLE T_WAIT) ?s"
    by (rule sys_demo_run [OF demo_rsp_values(1,4,3,2)])
  moreover have "rx_sys_step (\<lambda>_. False) ?s (?s\<lparr>dev := (dev ?s)\<lparr>rx_priv := ?p\<rparr>, tpc := T_WAIT\<rparr>)"
    using failed_allocation_ends_reception [of ?s demo_rsp "\<lambda>_. False" ?p _ "\<lambda>_. True", OF _ _ _ _ _ refl rtranclp.rtrancl_refl] r
    by (simp add: sys_demo_def)
  moreover have "rx_cnt ?p = 1" by (simp add: add_events_def)
  ultimately show ?thesis by blast
qed

end
