(* ===== verification/Usb_Tx.thy ===== *)
theory Usb_Tx
  imports Usb_Rx
begin

text \<open>
  The transmit side of the USB bus (\<^verbatim>\<open>aicwf_usb.c\<close>) and the start and stop of the bus: 50 transfer buffers travel from the free list to
  the post list (\<^verbatim>\<open>aicwf_usb_bus_txdata\<close>), to the host controller (\<^verbatim>\<open>aicwf_usb_tx_process\<close>) and back (\<^verbatim>\<open>aicwf_usb_tx_complete\<close>); with few
  free buffers the network queues are stopped, with many they are woken.  \<^verbatim>\<open>CONFIG_PER_STA_FC\<close> and \<^verbatim>\<open>CONFIG_USB_TX_AGGR\<close> are off,
  \<^verbatim>\<open>CONFIG_USB_ALIGN_DATA\<close> and \<^verbatim>\<open>CONFIG_USE_USB_ZERO_PACKET\<close> are on, as in the Makefile.  \<open>None\<close> is a kernel fault.
\<close>

section \<open>State\<close>

definition AICWF_USB_TX_URBS :: nat where "AICWF_USB_TX_URBS = 50"
definition AICWF_USB_TX_LOW_WATER :: int where "AICWF_USB_TX_LOW_WATER = int AICWF_USB_TX_URBS div 4"
definition AICWF_USB_TX_HIGH_WATER :: int where "AICWF_USB_TX_HIGH_WATER = AICWF_USB_TX_LOW_WATER * 3"
definition AICWF_USB_RX_URBS :: nat where "AICWF_USB_RX_URBS = 20"
definition AICWF_USB_MSG_RX_URBS :: nat where "AICWF_USB_MSG_RX_URBS = 100"
definition TX_ALIGNMENT :: nat where "TX_ALIGNMENT = 4"
definition ENODEV :: int where "ENODEV = 19"

text \<open>What \<^verbatim>\<open>usb_buf->skb\<close> points to: a socket buffer, or for a frame with confirmation a plain buffer.\<close>

record tx_buf =
  tb_skb :: "nat option"
  tb_cfm :: bool
  tb_align :: bool
  tb_frame :: "u8 list"

record tx_packet =
  tp_id :: nat
  tp_data :: "u8 list"
  tp_headroom :: nat
  tp_desc :: "u8 list"
  tp_need_cfm :: bool

datatype tx_event =
    KfreeTxSkb nat | KfreeTxBuf nat | KfreeAlign nat | FreeSwHdr nat
  | SubmitTx "u8 list"
  | StopQueues nat | WakeQueues nat    \<comment> \<open>of the interface with that index\<close>

datatype aicwf_bus_state = BUS_DOWN_ST | BUS_UP_ST

record usb_dev = usb_rx +
  tx_free_list :: "nat list"
  tx_post_list :: "nat list"
  tx_inflight :: "nat list"           \<comment> \<open>with the host controller\<close>
  tx_free_count :: int
  tx_post_count :: int
  usb_tx_buf :: "tx_buf list"
  tbusy :: bool
  vifs :: "bool list"                 \<comment> \<open>interface up\<close>
  bustx_trgg :: nat
  bus_state :: aicwf_bus_state
  msg_in_pipe :: bool
  tx_events :: "tx_event list"

definition tx_log :: "tx_event list \<Rightarrow> usb_dev \<Rightarrow> usb_dev" where
  "tx_log es d = d\<lparr>tx_events := tx_events d @ es\<rparr>"

definition upd_buf :: "nat \<Rightarrow> (tx_buf \<Rightarrow> tx_buf) \<Rightarrow> usb_dev \<Rightarrow> usb_dev" where
  "upd_buf b f d = d\<lparr>usb_tx_buf := (usb_tx_buf d)[b := f (usb_tx_buf d ! b)]\<rparr>"

section \<open>Flow control and the two lists\<close>

definition aicwf_usb_tx_flowctrl :: "bool \<Rightarrow> usb_dev \<Rightarrow> usb_dev" where
  "aicwf_usb_tx_flowctrl st d =
     tx_log (map (if st then StopQueues else WakeQueues) (filter (\<lambda>i. vifs d ! i) [0..<length (vifs d)])) d"

definition tx_free_dequeue :: "usb_dev \<Rightarrow> nat option \<times> usb_dev" where
  "tx_free_dequeue d = (case tx_free_list d of [] \<Rightarrow> (None, d)
     | b # bs \<Rightarrow> (Some b, d\<lparr>tx_free_list := bs, tx_free_count := tx_free_count d - 1\<rparr>))"

definition tx_post_dequeue :: "usb_dev \<Rightarrow> nat option \<times> usb_dev" where
  "tx_post_dequeue d = (case tx_post_list d of [] \<Rightarrow> (None, d)
     | b # bs \<Rightarrow> (Some b, d\<lparr>tx_post_list := bs, tx_post_count := tx_post_count d - 1\<rparr>))"

definition tx_free_queue :: "nat \<Rightarrow> usb_dev \<Rightarrow> usb_dev" where
  "tx_free_queue b d = d\<lparr>tx_free_list := tx_free_list d @ [b], tx_free_count := tx_free_count d + 1\<rparr>"

definition tx_post_queue :: "nat \<Rightarrow> usb_dev \<Rightarrow> usb_dev" where
  "tx_post_queue b d = d\<lparr>tx_post_list := tx_post_list d @ [b], tx_post_count := tx_post_count d + 1\<rparr>"

section \<open>Sending a frame\<close>

definition usb_header :: "u32 \<Rightarrow> u8 list" where
  "usb_header len = [ucast (len AND 0xff), ucast (drop_bit 8 len AND 0x0f), 0x01, 0]"

text \<open>The frame with confirmation is copied to a fresh buffer and padded to a word; \<^verbatim>\<open>buf_len\<close> and \<^verbatim>\<open>index\<close> have 16 bits.\<close>

definition tx_body :: "tx_packet \<Rightarrow> u8 list" where
  "tx_body p = tp_desc p @ drop (tp_headroom p) (tp_data p)"

definition frame_cfm :: "tx_packet \<Rightarrow> u16 \<times> u8 list" where
  "frame_cfm p =
    (let buf_len = word_of_nat (4 + length (tx_body p)) :: u16;
         adjust_len = (if unat buf_len mod TX_ALIGNMENT \<noteq> 0
                       then (unat buf_len + (TX_ALIGNMENT - 1)) div TX_ALIGNMENT * TX_ALIGNMENT - unat buf_len else 0);
         len = buf_len + word_of_nat adjust_len
     in (len, usb_header (ucast len) @ tx_body p @ replicate adjust_len 0))"

definition frame_plain :: "tx_packet \<Rightarrow> u16 \<times> u8 list" where
  "frame_plain p =
    (let skb_len = 4 + length (tx_body p)
     in (word_of_nat skb_len, usb_header (word_of_nat skb_len) @ tx_body p))"

text \<open>
  Filling the transfer buffer.  \<open>mem n\<close> tells whether the allocation number \<open>n\<close> succeeds, \<open>aligned\<close> whether the frame's address is
  aligned.  The results of the two allocations are used unchecked, respectively left unset: both failures are faults.
\<close>

definition fill_frame :: "(nat \<Rightarrow> bool) \<Rightarrow> tx_packet \<Rightarrow> nat \<Rightarrow> usb_dev \<Rightarrow> usb_dev option" where
  "fill_frame mem p b d =
    (if tp_need_cfm p then
       (let (len, frame) = frame_cfm p
        in if \<not> mem (attempts d) \<or> length (tp_data p) + 1 < length frame then None
           else Some (upd_buf b (\<lambda>x. x\<lparr>tb_skb := Some (tp_id p), tb_cfm := True, tb_frame := take (unat len) frame\<rparr>)
                  (d\<lparr>attempts := attempts d + 1\<rparr>)))
     else
       (let (len, frame) = frame_plain p
        in Some (upd_buf b (\<lambda>x. x\<lparr>tb_skb := Some (tp_id p), tb_cfm := False, tb_frame := take (unat len) frame\<rparr>)
             (tx_log [FreeSwHdr (tp_id p)] d))))"

definition align_frame :: "(nat \<Rightarrow> bool) \<Rightarrow> bool \<Rightarrow> nat \<Rightarrow> usb_dev \<Rightarrow> usb_dev option" where
  "align_frame mem aligned b d =
    (if aligned then Some d
     else if \<not> mem (attempts d) then None
     else Some (upd_buf b (\<lambda>x. x\<lparr>tb_align := True\<rparr>) (d\<lparr>attempts := attempts d + 1\<rparr>)))"

definition tx_flow_check :: "usb_dev \<Rightarrow> usb_dev" where
  "tx_flow_check d =
    (if tx_free_count d < AICWF_USB_TX_LOW_WATER then aicwf_usb_tx_flowctrl True (d\<lparr>tbusy := True\<rparr>) else d)"

definition aicwf_usb_bus_txdata :: "(nat \<Rightarrow> bool) \<Rightarrow> bool \<Rightarrow> tx_packet \<Rightarrow> usb_dev \<Rightarrow> (int \<times> usb_dev) option" where
  "aicwf_usb_bus_txdata mem aligned p d =
    (if u_state d \<noteq> USB_UP_ST then Some (- EIO, tx_log [FreeSwHdr (tp_id p), KfreeTxSkb (tp_id p)] d)
     else case tx_free_dequeue d of
       (None, d1) \<Rightarrow> Some (- ENOMEM, tx_flow_check (tx_log [FreeSwHdr (tp_id p), KfreeTxSkb (tp_id p)] d1))
     | (Some b, d1) \<Rightarrow> do {
         d2 \<leftarrow> fill_frame mem p b d1;
         d3 \<leftarrow> align_frame mem aligned b d2;
         let d4 = tx_post_queue b d3;
         Some (0, tx_flow_check (d4\<lparr>bustx_trgg := bustx_trgg d4 + 1\<rparr>)) })"

section \<open>The transmit thread and the completion\<close>

text \<open>The failed buffer is freed as a socket buffer, whatever it is.\<close>

definition tx_submit_failed :: "nat \<Rightarrow> usb_dev \<Rightarrow> usb_dev" where
  "tx_submit_failed b d =
     tx_free_queue b (upd_buf b (\<lambda>x. x\<lparr>tb_skb := None\<rparr>)
       (tx_log (case tb_skb (usb_tx_buf d ! b) of None \<Rightarrow> [] | Some k \<Rightarrow> [KfreeTxSkb k]) d))"

text \<open>\<open>code n\<close> is what the submission number \<open>n\<close> returns.  The loop ends because each round takes one off the post list.\<close>

function aicwf_usb_tx_process :: "(nat \<Rightarrow> int) \<Rightarrow> usb_dev \<Rightarrow> usb_dev" where
  "aicwf_usb_tx_process code d =
    (case tx_post_dequeue d of
       (None, _) \<Rightarrow> d
     | (Some b, d1) \<Rightarrow>
         if u_state d \<noteq> USB_UP_ST then d
         else (let ret = code (attempts d); d2 = d1\<lparr>attempts := attempts d + 1\<rparr>
               in if ret = 0 then
                    aicwf_usb_tx_process code (tx_log [SubmitTx (tb_frame (usb_tx_buf d ! b))] (d2\<lparr>tx_inflight := b # tx_inflight d\<rparr>))
                  else if ret = - ENODEV then tx_submit_failed b d2
                  else aicwf_usb_tx_process code (tx_submit_failed b d2)))"
  by pat_completeness auto
termination
  by (relation "measure (\<lambda>(_, d). length (tx_post_list d))")
    (auto simp: tx_post_dequeue_def tx_submit_failed_def tx_free_queue_def upd_buf_def tx_log_def split: list.splits)

declare aicwf_usb_tx_process.simps [simp del]

text \<open>One wake-up of \<^verbatim>\<open>usb_bustx_thread\<close>; false: the thread ends.\<close>

definition usb_bustx_thread_round :: "(nat \<Rightarrow> int) \<Rightarrow> usb_dev \<Rightarrow> bool \<times> usb_dev" where
  "usb_bustx_thread_round code d =
    (let d1 = d\<lparr>bustx_trgg := bustx_trgg d - 1\<rparr>
     in if bus_state d = BUS_DOWN_ST then (False, d1)
        else if 0 < tx_post_count d then (True, aicwf_usb_tx_process code d1)
        else (True, d1))"

definition aicwf_usb_tx_complete :: "nat \<Rightarrow> usb_dev \<Rightarrow> usb_dev" where
  "aicwf_usb_tx_complete b d =
    (let x = usb_tx_buf d ! b;
         d1 = tx_log (if tb_align x then [KfreeAlign b] else []) (d\<lparr>tx_inflight := remove1 b (tx_inflight d)\<rparr>);
         d2 = tx_log (case tb_skb x of None \<Rightarrow> [] | Some k \<Rightarrow> if tb_cfm x then [KfreeTxBuf k] else [KfreeTxSkb k]) d1;
         d3 = tx_free_queue b (upd_buf b (\<lambda>x. x\<lparr>tb_align := False, tb_skb := None\<rparr>) d2)
     in if AICWF_USB_TX_HIGH_WATER < tx_free_count d3 \<and> tbusy d3 then aicwf_usb_tx_flowctrl False (d3\<lparr>tbusy := False\<rparr>) else d3)"

section \<open>Starting and stopping the bus\<close>

definition aicwf_usb_state_change :: "aicwf_usb_state \<Rightarrow> usb_dev \<Rightarrow> usb_dev" where
  "aicwf_usb_state_change st d =
    (if u_state d = st then d
     else d\<lparr>u_state := st, bus_state := (if st = USB_DOWN_ST then BUS_DOWN_ST else if st = USB_UP_ST then BUS_UP_ST else bus_state d)\<rparr>)"

function aicwf_usb_tx_prepare :: "usb_dev \<Rightarrow> usb_dev" where
  "aicwf_usb_tx_prepare d =
    (case tx_post_dequeue d of
       (None, _) \<Rightarrow> d
     | (Some b, d1) \<Rightarrow> aicwf_usb_tx_prepare (tx_submit_failed b d1))"
  by pat_completeness auto
termination
  by (relation "measure (\<lambda>d. length (tx_post_list d))")
    (auto simp: tx_post_dequeue_def tx_submit_failed_def tx_free_queue_def upd_buf_def tx_log_def split: list.splits)

declare aicwf_usb_tx_prepare.simps [simp del]

definition aicwf_usb_bus_start :: "(nat \<Rightarrow> bool \<times> bool) \<Rightarrow> usb_dev \<Rightarrow> (int \<times> usb_dev) option" where
  "aicwf_usb_bus_start env d =
    (if u_state d = USB_UP_ST then Some (0, d)
     else let d1 = (aicwf_usb_state_change USB_UP_ST d)\<lparr>rx_prepare_ready := False\<rparr>;
              d2 = aicwf_usb_tx_prepare d1
          in if msg_in_pipe d2 then map_option (\<lambda>d3. (0, d3)) (aicwf_usb_msg_rx_submit_all_urb env d2)
             else let d3 = aicwf_usb_rx_submit_all_urb env d2
                  in Some (if rx_prepare_ready d3 then 0 else -1, d3))"

definition aicwf_usb_bus_stop :: "usb_dev \<Rightarrow> usb_dev" where
  "aicwf_usb_bus_stop d =
    (if u_state d = USB_DOWN_ST then d
     else aicwf_usb_state_change USB_DOWN_ST
       (if wait_disconnect_cb d then d\<lparr>deinit_atomic := 1, deinit_sem := deinit_sem d + 1\<rparr> else d))"

text \<open>The lists as \<^verbatim>\<open>aicwf_usb_init\<close> fills them; \<open>urbs n\<close>: the allocation of the \<open>n\<close>-th \<^verbatim>\<open>urb\<close> succeeds.  On a failure what was listed so far is
  freed again, the counter keeps its value.\<close>

fun alloc_urbs :: "(nat \<Rightarrow> bool) \<Rightarrow> nat \<Rightarrow> nat list option" where
  "alloc_urbs urbs 0 = Some []"
| "alloc_urbs urbs (Suc n) = (case alloc_urbs urbs n of None \<Rightarrow> None | Some l \<Rightarrow> if urbs n then Some (l @ [n]) else None)"

definition aicwf_usb_alloc_rx_urb :: "(nat \<Rightarrow> bool) \<Rightarrow> usb_dev \<Rightarrow> int \<times> usb_dev" where
  "aicwf_usb_alloc_rx_urb urbs d =
    (case alloc_urbs urbs AICWF_USB_RX_URBS of None \<Rightarrow> (- ENOMEM, d\<lparr>rx_free_list := []\<rparr>) | Some l \<Rightarrow> (0, d\<lparr>rx_free_list := l\<rparr>))"

definition aicwf_usb_alloc_tx_urb :: "(nat \<Rightarrow> bool) \<Rightarrow> usb_dev \<Rightarrow> int \<times> usb_dev" where
  "aicwf_usb_alloc_tx_urb urbs d =
    (case alloc_urbs urbs AICWF_USB_TX_URBS of
       None \<Rightarrow> (- ENOMEM, d\<lparr>tx_free_list := [], tx_free_count := tx_free_count d + int (length (takeWhile urbs [0..<AICWF_USB_TX_URBS]))\<rparr>)
     | Some l \<Rightarrow> (0, d\<lparr>tx_free_list := l, tx_free_count := tx_free_count d + int (length l)\<rparr>))"

definition aicwf_usb_alloc_msg_rx_urb :: "(nat \<Rightarrow> bool) \<Rightarrow> usb_dev \<Rightarrow> int \<times> usb_dev" where
  "aicwf_usb_alloc_msg_rx_urb urbs d =
    (case alloc_urbs urbs AICWF_USB_MSG_RX_URBS of None \<Rightarrow> (- ENOMEM, d\<lparr>msg_rx_free_list := []\<rparr>) | Some l \<Rightarrow> (0, d\<lparr>msg_rx_free_list := l\<rparr>))"

text \<open>\<^verbatim>\<open>aicwf_usb_init\<close> up to the message \<^verbatim>\<open>urb\<close> (\<open>out_ok\<close>), whose failure returns a positive error code.\<close>

definition aicwf_usb_init :: "(nat \<Rightarrow> bool) \<Rightarrow> (nat \<Rightarrow> bool) \<Rightarrow> (nat \<Rightarrow> bool) \<Rightarrow> bool \<Rightarrow> usb_dev \<Rightarrow> int \<times> usb_dev" where
  "aicwf_usb_init rx tx ms out_ok d =
    (let d0 = d\<lparr>tbusy := False, u_state := USB_DOWN_ST, rx_free_list := [], tx_free_list := [], tx_post_list := [],
               rx_urb_cnt := 0, tx_free_count := 0, tx_post_count := 0\<rparr>;
         d1 = (if msg_in_pipe d then d0\<lparr>msg_rx_free_list := []\<rparr> else d0);
         deinit = (\<lambda>d. let e = d\<lparr>rx_free_list := [], tx_free_list := []\<rparr> in if msg_in_pipe d then e\<lparr>msg_rx_free_list := []\<rparr> else e)
     in case aicwf_usb_alloc_rx_urb rx d1 of (r1, d2) \<Rightarrow>
       if r1 \<noteq> 0 then (r1, deinit d2)
       else case aicwf_usb_alloc_tx_urb tx d2 of (r2, d3) \<Rightarrow>
         if r2 \<noteq> 0 then (r2, deinit d3)
         else case (if msg_in_pipe d3 then aicwf_usb_alloc_msg_rx_urb ms d3 else (0, d3)) of (r3, d4) \<Rightarrow>
           if r3 \<noteq> 0 then (r3, deinit d4)
           else if \<not> out_ok then (ENOMEM, deinit d4)
           else (0, d4))"

section \<open>The invariant of the transmit side\<close>

definition sent_id :: "tx_buf list \<Rightarrow> nat \<Rightarrow> nat" where
  "sent_id bufs b = the (tb_skb (bufs ! b))"

definition held :: "usb_dev \<Rightarrow> nat multiset" where
  "held d = image_mset (sent_id (usb_tx_buf d)) (mset (tx_post_list d) + mset (tx_inflight d))"

fun released_by :: "tx_event \<Rightarrow> nat multiset" where
  "released_by (KfreeTxSkb k) = {#k#}"
| "released_by (KfreeTxBuf k) = {#k#}"
| "released_by _ = {#}"

definition released :: "usb_dev \<Rightarrow> nat multiset" where
  "released d = sum_list (map released_by (tx_events d))"

definition tx_ok :: "usb_dev \<Rightarrow> bool" where
  "tx_ok d \<longleftrightarrow> mset (tx_free_list d) + mset (tx_post_list d) + mset (tx_inflight d) = mset [0..<AICWF_USB_TX_URBS]
     \<and> length (usb_tx_buf d) = AICWF_USB_TX_URBS
     \<and> tx_free_count d = int (length (tx_free_list d)) \<and> tx_post_count d = int (length (tx_post_list d))
     \<and> (\<forall>b \<in> set (tx_post_list d) \<union> set (tx_inflight d). tb_skb (usb_tx_buf d ! b) \<noteq> None)
     \<and> (tx_free_count d < AICWF_USB_TX_LOW_WATER \<longrightarrow> tbusy d)"

text \<open>While every submission succeeds, busy means that the controller still has buffers to give back.\<close>

definition drains :: "usb_dev \<Rightarrow> bool" where
  "drains d \<longleftrightarrow> (tbusy d \<longrightarrow> tx_free_count d \<le> AICWF_USB_TX_HIGH_WATER)"

lemma tx_log_sel [simp]:
  "tx_free_list (tx_log es d) = tx_free_list d" "tx_post_list (tx_log es d) = tx_post_list d" "tx_inflight (tx_log es d) = tx_inflight d"
  "tx_free_count (tx_log es d) = tx_free_count d" "tx_post_count (tx_log es d) = tx_post_count d" "usb_tx_buf (tx_log es d) = usb_tx_buf d"
  "tbusy (tx_log es d) = tbusy d" "u_state (tx_log es d) = u_state d" "attempts (tx_log es d) = attempts d"
  "tx_events (tx_log es d) = tx_events d @ es" "vifs (tx_log es d) = vifs d"
  by (simp_all add: tx_log_def)

lemma upd_buf_sel [simp]:
  "tx_free_list (upd_buf b f d) = tx_free_list d" "tx_post_list (upd_buf b f d) = tx_post_list d" "tx_inflight (upd_buf b f d) = tx_inflight d"
  "tx_free_count (upd_buf b f d) = tx_free_count d" "tx_post_count (upd_buf b f d) = tx_post_count d"
  "usb_tx_buf (upd_buf b f d) = (usb_tx_buf d)[b := f (usb_tx_buf d ! b)]"
  "tbusy (upd_buf b f d) = tbusy d" "u_state (upd_buf b f d) = u_state d" "attempts (upd_buf b f d) = attempts d"
  "tx_events (upd_buf b f d) = tx_events d"
  by (simp_all add: upd_buf_def)

lemma free_queue_sel [simp]:
  "tx_free_list (tx_free_queue b d) = tx_free_list d @ [b]" "tx_post_list (tx_free_queue b d) = tx_post_list d"
  "tx_inflight (tx_free_queue b d) = tx_inflight d" "tx_free_count (tx_free_queue b d) = tx_free_count d + 1"
  "tx_post_count (tx_free_queue b d) = tx_post_count d" "usb_tx_buf (tx_free_queue b d) = usb_tx_buf d" "tbusy (tx_free_queue b d) = tbusy d"
  "u_state (tx_free_queue b d) = u_state d" "tx_events (tx_free_queue b d) = tx_events d"
  by (simp_all add: tx_free_queue_def)

lemma flowctrl_sel [simp]:
  "tx_free_list (aicwf_usb_tx_flowctrl st d) = tx_free_list d" "tx_post_list (aicwf_usb_tx_flowctrl st d) = tx_post_list d"
  "tx_inflight (aicwf_usb_tx_flowctrl st d) = tx_inflight d" "tx_free_count (aicwf_usb_tx_flowctrl st d) = tx_free_count d"
  "tx_post_count (aicwf_usb_tx_flowctrl st d) = tx_post_count d" "usb_tx_buf (aicwf_usb_tx_flowctrl st d) = usb_tx_buf d"
  "tbusy (aicwf_usb_tx_flowctrl st d) = tbusy d" "u_state (aicwf_usb_tx_flowctrl st d) = u_state d"
  by (simp_all add: aicwf_usb_tx_flowctrl_def)

lemma released_log: "released (tx_log es d) = released d + sum_list (map released_by es)"
  by (simp add: released_def)

lemma released_cong: "tx_events e = tx_events d \<Longrightarrow> released e = released d"
  by (simp add: released_def)

lemma released_flowctrl [simp]: "released (aicwf_usb_tx_flowctrl st d) = released d"
proof -
  have "sum_list (map released_by (map StopQueues l)) = {#}" "sum_list (map released_by (map WakeQueues l)) = {#}" for l
    by (induction l) simp_all
  then show ?thesis by (cases st) (simp_all add: aicwf_usb_tx_flowctrl_def released_log del: map_map)
qed

lemma held_cong:
  "tx_post_list e = tx_post_list d \<Longrightarrow> tx_inflight e = tx_inflight d \<Longrightarrow> usb_tx_buf e = usb_tx_buf d \<Longrightarrow> held e = held d"
  by (simp add: held_def sent_id_def)

lemma tx_ok_cong:
  "tx_free_list e = tx_free_list d \<Longrightarrow> tx_post_list e = tx_post_list d \<Longrightarrow> tx_inflight e = tx_inflight d \<Longrightarrow>
   usb_tx_buf e = usb_tx_buf d \<Longrightarrow> tx_free_count e = tx_free_count d \<Longrightarrow> tx_post_count e = tx_post_count d \<Longrightarrow> tbusy e = tbusy d \<Longrightarrow>
   tx_ok e = tx_ok d"
  by (simp add: tx_ok_def)

text \<open>A buffer is on one list only.\<close>

lemma tx_ok_distinct:
  assumes "tx_ok d"
  shows "distinct (tx_free_list d @ tx_post_list d @ tx_inflight d)"
    "b \<in> set (tx_free_list d @ tx_post_list d @ tx_inflight d) \<Longrightarrow> b < length (usb_tx_buf d)"
proof -
  have m: "mset (tx_free_list d @ tx_post_list d @ tx_inflight d) = mset [0..<AICWF_USB_TX_URBS]"
    using assms by (simp add: tx_ok_def ac_simps)
  then show "distinct (tx_free_list d @ tx_post_list d @ tx_inflight d)"
    using mset_eq_imp_distinct_iff distinct_upt by blast
  show "b < length (usb_tx_buf d)" if "b \<in> set (tx_free_list d @ tx_post_list d @ tx_inflight d)"
    using that mset_eq_setD [OF m] assms by (auto simp: tx_ok_def)
qed

lemma sent_id_update:
  "b \<notin># M \<Longrightarrow> image_mset (sent_id (bufs[b := x])) M = image_mset (sent_id bufs) M"
  by (intro image_mset_cong) (auto simp: sent_id_def nth_update_if)

text \<open>A buffer goes back to the free list, from the post list or from the controller.\<close>

lemma free_buffer:
  assumes "tx_ok d" and move: "mset (tx_post_list d) + mset (tx_inflight d) = add_mset b (mset (tx_post_list e) + mset (tx_inflight e))"
    and e: "tx_free_list e = tx_free_list d @ [b]" "usb_tx_buf e = (usb_tx_buf d)[b := x]" "tx_free_count e = tx_free_count d + 1"
      "tx_post_count e = int (length (tx_post_list e))" "tx_free_count e < AICWF_USB_TX_LOW_WATER \<longrightarrow> tbusy e"
  shows "tx_ok e" and "held d = add_mset (sent_id (usb_tx_buf d) b) (held e)"
proof -
  have dist: "distinct (tx_post_list d @ tx_inflight d)" using tx_ok_distinct(1) [OF assms(1)] by simp
  have m: "mset (b # tx_post_list e @ tx_inflight e) = mset (tx_post_list d @ tx_inflight d)" using move by simp
  have nb: "b \<notin># mset (tx_post_list e) + mset (tx_inflight e)"
    using mset_eq_imp_distinct_iff [OF m] dist by simp
  have sub: "c \<in> set (tx_post_list d) \<union> set (tx_inflight d)" if "c \<in> set (tx_post_list e) \<union> set (tx_inflight e)" for c
    using mset_eq_setD [OF m] that by auto
  have "\<forall>c \<in> set (tx_post_list e) \<union> set (tx_inflight e). tb_skb (usb_tx_buf e ! c) \<noteq> None"
  proof
    fix c assume c: "c \<in> set (tx_post_list e) \<union> set (tx_inflight e)"
    with nb have "usb_tx_buf e ! c = usb_tx_buf d ! c" by (auto simp: e(2) nth_update_if)
    with sub [OF c] assms(1) show "tb_skb (usb_tx_buf e ! c) \<noteq> None" by (auto simp: tx_ok_def)
  qed
  moreover have "mset (tx_free_list e) + mset (tx_post_list e) + mset (tx_inflight e) = mset [0..<AICWF_USB_TX_URBS]"
    using assms(1) e(1) move by (simp add: tx_ok_def add.assoc)
  ultimately show "tx_ok e" using assms(1) e by (simp add: tx_ok_def)
  show "held d = add_mset (sent_id (usb_tx_buf d) b) (held e)"
    unfolding held_def move e(2) sent_id_update [OF nb] by simp
qed

lemma post_dequeue_cases:
  obtains (empty) "tx_post_list d = []" "tx_post_dequeue d = (None, d)"
  | (taken) b bs where "tx_post_list d = b # bs" "tx_post_dequeue d = (Some b, d\<lparr>tx_post_list := bs, tx_post_count := tx_post_count d - 1\<rparr>)"
  by (cases "tx_post_list d") (auto simp: tx_post_dequeue_def)

definition accounted :: "usb_dev \<Rightarrow> nat multiset" where
  "accounted d = held d + released d"

lemma submit_failed_ok:
  fixes n :: nat
  assumes "tx_ok d" "tx_post_list d = b # bs"
  defines "e \<equiv> tx_submit_failed b (d\<lparr>tx_post_list := bs, tx_post_count := tx_post_count d - 1, attempts := n\<rparr>)"
  shows "tx_ok e" "accounted e = accounted d" "tx_post_list e = bs"
proof -
  have skb: "tb_skb (usb_tx_buf d ! b) = Some (sent_id (usb_tx_buf d) b)"
    using assms(1,2) by (auto simp: tx_ok_def sent_id_def)
  have sel: "tx_post_list e = bs" "tx_inflight e = tx_inflight d" "tx_free_list e = tx_free_list d @ [b]"
    "usb_tx_buf e = (usb_tx_buf d)[b := (usb_tx_buf d ! b)\<lparr>tb_skb := None\<rparr>]" "tx_free_count e = tx_free_count d + 1"
    "tx_post_count e = tx_post_count d - 1" "tbusy e = tbusy d"
    by (simp_all add: e_def tx_submit_failed_def)
  have pc: "tx_post_count d = 1 + int (length bs)" "tx_free_count d < AICWF_USB_TX_LOW_WATER \<longrightarrow> tbusy d"
    using assms(1,2) by (simp_all add: tx_ok_def)
  have F: "tx_ok e" "held d = add_mset (sent_id (usb_tx_buf d) b) (held e)"
    by (rule free_buffer [OF assms(1), of b e], use assms(2) sel pc in simp_all)+
  show "tx_ok e" by (rule F(1))
  have "released e = add_mset (sent_id (usb_tx_buf d) b) (released d)"
    by (simp add: e_def tx_submit_failed_def released_def skb)
  with F(2) show "accounted e = accounted d" by (simp add: accounted_def)
  show "tx_post_list e = bs" by (rule sel(1))
qed

lemma submitted_ok:
  fixes n :: nat and f :: "u8 list"
  assumes "tx_ok d" "tx_post_list d = b # bs"
  defines "e \<equiv> tx_log [SubmitTx f] (d\<lparr>tx_post_list := bs, tx_post_count := tx_post_count d - 1, attempts := n, tx_inflight := b # tx_inflight d\<rparr>)"
  shows "tx_ok e" "accounted e = accounted d" "tbusy e = tbusy d" "tx_free_count e = tx_free_count d"
proof -
  show "tx_ok e" using assms(1,2) by (auto simp: e_def tx_ok_def)
  show "accounted e = accounted d" using assms(2) by (simp add: e_def accounted_def held_def released_log) (simp add: released_def)
  show "tbusy e = tbusy d" "tx_free_count e = tx_free_count d" by (simp_all add: e_def)
qed

lemma tx_process_ok:
  "tx_ok d \<Longrightarrow> tx_ok (aicwf_usb_tx_process code d) \<and> accounted (aicwf_usb_tx_process code d) = accounted d
     \<and> ((\<forall>n. code n = 0) \<longrightarrow> drains d \<longrightarrow> drains (aicwf_usb_tx_process code d))"
proof (induction "length (tx_post_list d)" arbitrary: d rule: less_induct)
  case less
  show ?case
  proof (cases d rule: post_dequeue_cases)
    case empty
    then have e: "aicwf_usb_tx_process code d = d" by (subst aicwf_usb_tx_process.simps) simp
    show ?thesis unfolding e using less.prems by blast
  next
    case (taken b bs)
    let ?d1 = "d\<lparr>tx_post_list := bs, tx_post_count := tx_post_count d - 1\<rparr>"
    let ?s = "tx_log [SubmitTx (tb_frame (usb_tx_buf d ! b))] (?d1\<lparr>attempts := attempts d + 1, tx_inflight := b # tx_inflight d\<rparr>)"
    let ?f = "tx_submit_failed b (?d1\<lparr>attempts := attempts d + 1\<rparr>)"
    note S = submitted_ok [OF less.prems taken(1), of "tb_frame (usb_tx_buf d ! b)" "attempts d + 1"]
    note F = submit_failed_ok [OF less.prems taken(1), of "attempts d + 1"]
    consider "u_state d \<noteq> USB_UP_ST" | "u_state d = USB_UP_ST" "code (attempts d) = 0"
      | "u_state d = USB_UP_ST" "code (attempts d) = - ENODEV"
      | "u_state d = USB_UP_ST" "code (attempts d) \<noteq> 0" "code (attempts d) \<noteq> - ENODEV" by blast
    then show ?thesis
    proof cases
      case 1
      then have e: "aicwf_usb_tx_process code d = d" using taken by (subst aicwf_usb_tx_process.simps) simp
      show ?thesis unfolding e using \<open>tx_ok d\<close> by blast
    next
      case 2
      then have e: "aicwf_usb_tx_process code d = aicwf_usb_tx_process code ?s" using taken by (subst aicwf_usb_tx_process.simps) simp
      have "drains ?s = drains d" using S(3,4) by (simp add: drains_def)
      moreover have "length (tx_post_list ?s) < length (tx_post_list d)" using taken(1) by simp
      ultimately show ?thesis using less.hyps [of ?s] S(1,2) unfolding e by metis
    next
      case 3
      then have e: "aicwf_usb_tx_process code d = ?f" using taken by (subst aicwf_usb_tx_process.simps) (simp add: ENODEV_def)
      have "code (attempts d) \<noteq> 0" using 3 by (simp add: ENODEV_def)
      then show ?thesis unfolding e using F by blast
    next
      case 4
      then have e: "aicwf_usb_tx_process code d = aicwf_usb_tx_process code ?f" using taken by (subst aicwf_usb_tx_process.simps) simp
      have "length (tx_post_list ?f) < length (tx_post_list d)" using taken(1) F(3) by simp
      then show ?thesis using less.hyps [of ?f] F(1,2) 4(2) unfolding e by metis
    qed
  qed
qed

lemma complete_ok:
  assumes "tx_ok d" "b \<in> set (tx_inflight d)"
  defines "e \<equiv> aicwf_usb_tx_complete b d"
  shows "tx_ok e" "accounted e = accounted d" "drains d \<Longrightarrow> drains e"
proof -
  define x where "x = (usb_tx_buf d ! b)\<lparr>tb_align := False, tb_skb := None\<rparr>"
  have skb: "tb_skb (usb_tx_buf d ! b) = Some (sent_id (usb_tx_buf d) b)"
    using assms(1,2) by (auto simp: tx_ok_def sent_id_def)
  have sel: "tx_post_list e = tx_post_list d" "tx_inflight e = remove1 b (tx_inflight d)" "tx_free_list e = tx_free_list d @ [b]"
    "usb_tx_buf e = (usb_tx_buf d)[b := x]" "tx_free_count e = tx_free_count d + 1" "tx_post_count e = tx_post_count d"
    "tbusy e = (tbusy d \<and> tx_free_count d + 1 \<le> AICWF_USB_TX_HIGH_WATER)"
    by (auto simp: e_def aicwf_usb_tx_complete_def Let_def x_def)
  have w: "AICWF_USB_TX_LOW_WATER \<le> AICWF_USB_TX_HIGH_WATER"
    by (simp add: AICWF_USB_TX_HIGH_WATER_def AICWF_USB_TX_LOW_WATER_def AICWF_USB_TX_URBS_def)
  have pc: "tx_post_count d = int (length (tx_post_list d))" "tx_free_count d < AICWF_USB_TX_LOW_WATER \<longrightarrow> tbusy d"
    using assms(1) by (simp_all add: tx_ok_def)
  have busy: "tx_free_count e < AICWF_USB_TX_LOW_WATER \<longrightarrow> tbusy e" using sel(5,7) pc(2) w by auto
  have cnt: "tx_post_count e = int (length (tx_post_list e))" using sel(1,6) pc(1) by simp
  have "mset (tx_post_list d) + mset (tx_inflight d) = add_mset b (mset (tx_post_list e) + mset (tx_inflight e))"
    using sel(1,2) assms(2) by simp
  note F = free_buffer [OF assms(1) this sel(3,4,5) cnt busy]
  show "tx_ok e" by (rule F(1))
  have "released e = add_mset (sent_id (usb_tx_buf d) b) (released d)"
    by (simp add: e_def aicwf_usb_tx_complete_def Let_def skb) (simp add: released_def)
  with F(2) show "accounted e = accounted d" by (simp add: accounted_def)
  show "drains d \<Longrightarrow> drains e" using sel by (simp add: drains_def)
qed

lemma flow_check_ok:
  assumes "tx_ok (d\<lparr>tbusy := True\<rparr>)"
  shows "tx_ok (tx_flow_check d)" "accounted (tx_flow_check d) = accounted d" "drains d \<Longrightarrow> drains (tx_flow_check d)"
proof -
  show "tx_ok (tx_flow_check d)" using assms(1) by (auto simp: tx_flow_check_def tx_ok_def)
  have "held (aicwf_usb_tx_flowctrl True (d\<lparr>tbusy := True\<rparr>)) = held d" by (rule held_cong) simp_all
  moreover have "released (d\<lparr>tbusy := True\<rparr>) = released d" by (rule released_cong) simp
  ultimately show "accounted (tx_flow_check d) = accounted d" by (simp add: tx_flow_check_def accounted_def)
  show "drains (tx_flow_check d)" if "drains d"
    using that by (auto simp: tx_flow_check_def drains_def AICWF_USB_TX_HIGH_WATER_def AICWF_USB_TX_LOW_WATER_def AICWF_USB_TX_URBS_def)
qed

text \<open>A filled buffer differs from an empty one in its own entry only, and that entry holds the packet.\<close>

lemma fill_ok:
  assumes "fill_frame mem p b d = Some e1" "align_frame mem aligned b e1 = Some e" "b < length (usb_tx_buf d)"
  shows "\<exists>x. usb_tx_buf e = (usb_tx_buf d)[b := x] \<and> tb_skb x = Some (tp_id p)" "released e = released d"
    "tx_free_list e = tx_free_list d" "tx_post_list e = tx_post_list d" "tx_inflight e = tx_inflight d" "tx_free_count e = tx_free_count d"
    "tx_post_count e = tx_post_count d" "tbusy e = tbusy d"
  using assms
  by (auto simp: fill_frame_def align_frame_def Let_def released_def split: if_splits prod.splits)

lemma post_ok:
  fixes n :: nat
  assumes "tx_ok d" "tx_free_list d = b # bs"
    and f: "fill_frame mem p b (d\<lparr>tx_free_list := bs, tx_free_count := tx_free_count d - 1\<rparr>) = Some e1" "align_frame mem aligned b e1 = Some e2"
  defines "e \<equiv> tx_flow_check ((tx_post_queue b e2)\<lparr>bustx_trgg := n\<rparr>)"
  shows "tx_ok e" "accounted e = add_mset (tp_id p) (accounted d)" "drains d \<Longrightarrow> drains e"
proof -
  let ?q = "(tx_post_queue b e2)\<lparr>bustx_trgg := n\<rparr>"
  have bl: "b < length (usb_tx_buf d)" using tx_ok_distinct(2) [OF assms(1), of b] assms(2) by simp
  note F = fill_ok [OF f, simplified, OF bl]
  obtain x where x: "usb_tx_buf e2 = (usb_tx_buf d)[b := x]" "tb_skb x = Some (tp_id p)" using F(1) by blast
  have nb: "b \<notin># mset (tx_post_list d) + mset (tx_inflight d)"
    using tx_ok_distinct(1) [OF assms(1)] assms(2) by auto
  have keep: "tb_skb ((usb_tx_buf d)[b := x] ! c) \<noteq> None" if "c \<in> set (tx_post_list d) \<union> set (tx_inflight d)" for c
    using that nb assms(1) by (auto simp: tx_ok_def nth_update_if)
  have new: "tb_skb ((usb_tx_buf d)[b := x] ! b) = Some (tp_id p)" using bl x(2) by simp
  have ok: "tx_ok (?q\<lparr>tbusy := True\<rparr>)"
    using assms(1,2) F x(1) keep new by (auto simp: tx_ok_def tx_post_queue_def)
  have dr: "drains ?q" if "drains d"
    using that F by (auto simp: drains_def tx_post_queue_def)
  have "held ?q = add_mset (tp_id p) (held d)"
    using F x(1) new sent_id_update [OF nb, of "usb_tx_buf d" x] by (simp add: held_def tx_post_queue_def) (simp add: sent_id_def)
  moreover have "released ?q = released d"
    using F(2) by (simp add: released_def tx_post_queue_def)
  ultimately show "accounted e = add_mset (tp_id p) (accounted d)"
    using flow_check_ok(2) [OF ok] by (simp add: e_def accounted_def)
  show "tx_ok e" unfolding e_def by (rule flow_check_ok(1) [OF ok])
  show "drains d \<Longrightarrow> drains e" unfolding e_def by (rule flow_check_ok(3) [OF ok dr])
qed

lemma txdata_ok:
  assumes "tx_ok d" "aicwf_usb_bus_txdata mem aligned p d = Some (r, e)"
  shows "tx_ok e" "accounted e = add_mset (tp_id p) (accounted d)" "drains d \<Longrightarrow> drains e"
proof -
  have "tx_ok e \<and> accounted e = add_mset (tp_id p) (accounted d) \<and> (drains d \<longrightarrow> drains e)"
  proof (cases "u_state d = USB_UP_ST")
    case False
    let ?l = "tx_log [FreeSwHdr (tp_id p), KfreeTxSkb (tp_id p)] d"
    have "e = ?l" using False assms(2) by (simp add: aicwf_usb_bus_txdata_def)
    moreover have "tx_ok ?l" using assms(1) tx_ok_cong [of ?l d] by simp
    moreover have "held ?l = held d" by (rule held_cong) simp_all
    ultimately show ?thesis by (simp add: accounted_def released_log drains_def)
  next
    case up: True
    show ?thesis
    proof (cases "tx_free_list d")
      case Nil
      let ?l = "tx_log [FreeSwHdr (tp_id p), KfreeTxSkb (tp_id p)] d"
      have e: "e = tx_flow_check ?l" using up Nil assms(2) by (simp add: aicwf_usb_bus_txdata_def tx_free_dequeue_def)
      have ok: "tx_ok (?l\<lparr>tbusy := True\<rparr>)" using assms(1) by (simp add: tx_ok_def)
      have dr: "drains ?l = drains d" by (simp add: drains_def)
      have "held ?l = held d" by (rule held_cong) simp_all
      with flow_check_ok [OF ok] e dr show ?thesis by (simp add: accounted_def released_log)
    next
      case (Cons b bs)
      then obtain e1 e2 where f: "fill_frame mem p b (d\<lparr>tx_free_list := bs, tx_free_count := tx_free_count d - 1\<rparr>) = Some e1"
        "align_frame mem aligned b e1 = Some e2" "e = tx_flow_check ((tx_post_queue b e2)\<lparr>bustx_trgg := bustx_trgg (tx_post_queue b e2) + 1\<rparr>)"
        using up assms(2) by (auto simp: aicwf_usb_bus_txdata_def tx_free_dequeue_def Let_def split: bind_splits)
      from post_ok [OF assms(1) Cons f(1,2)] f(3) show ?thesis by simp
    qed
  qed
  then show "tx_ok e" "accounted e = add_mset (tp_id p) (accounted d)" "drains d \<Longrightarrow> drains e" by blast+
qed

lemma tx_prepare_ok:
  "tx_ok d \<Longrightarrow> tx_ok (aicwf_usb_tx_prepare d) \<and> accounted (aicwf_usb_tx_prepare d) = accounted d \<and> tx_post_list (aicwf_usb_tx_prepare d) = []"
proof (induction "length (tx_post_list d)" arbitrary: d rule: less_induct)
  case less
  show ?case
  proof (cases d rule: post_dequeue_cases)
    case empty
    then have e: "aicwf_usb_tx_prepare d = d" by (subst aicwf_usb_tx_prepare.simps) simp
    show ?thesis unfolding e using less.prems empty(1) by blast
  next
    case (taken b bs)
    let ?f = "tx_submit_failed b (d\<lparr>tx_post_list := bs, tx_post_count := tx_post_count d - 1\<rparr>)"
    have e: "aicwf_usb_tx_prepare d = aicwf_usb_tx_prepare ?f" using taken by (subst aicwf_usb_tx_prepare.simps) simp
    have F: "tx_ok ?f" "accounted ?f = accounted d" "tx_post_list ?f = bs"
      using submit_failed_ok [OF less.prems taken(1), of "attempts d"] by simp_all
    then show ?thesis unfolding e using less.hyps [of ?f] taken(1) by simp
  qed
qed

lemma state_change_sel:
  "tx_ok (aicwf_usb_state_change st d) = tx_ok d" "accounted (aicwf_usb_state_change st d) = accounted d"
  "drains (aicwf_usb_state_change st d) = drains d"
  by (auto simp: aicwf_usb_state_change_def tx_ok_def accounted_def held_def released_def drains_def)

section \<open>All runs of the transmit side\<close>

text \<open>A run with the frames that were given to \<^verbatim>\<open>aicwf_usb_bus_txdata\<close> so far.\<close>

record tx_run =
  tr_dev :: usb_dev
  given :: "nat multiset"

inductive tx_step :: "(nat \<Rightarrow> int) \<Rightarrow> tx_run \<Rightarrow> tx_run \<Rightarrow> bool" for code where
  tx_send: "aicwf_usb_bus_txdata mem aligned p (tr_dev r) = Some (ret, e) \<Longrightarrow>
     tx_step code r (r\<lparr>tr_dev := e, given := add_mset (tp_id p) (given r)\<rparr>)"
| tx_thread: "0 < bustx_trgg (tr_dev r) \<Longrightarrow> tx_step code r (r\<lparr>tr_dev := snd (usb_bustx_thread_round code (tr_dev r))\<rparr>)"
| tx_finished: "b \<in> set (tx_inflight (tr_dev r)) \<Longrightarrow> tx_step code r (r\<lparr>tr_dev := aicwf_usb_tx_complete b (tr_dev r)\<rparr>)"
| tx_bus: "tx_step code r (r\<lparr>tr_dev := aicwf_usb_state_change st (tr_dev r)\<rparr>)"
| tx_vif: "tx_step code r (r\<lparr>tr_dev := (tr_dev r)\<lparr>vifs := v\<rparr>\<rparr>)"

definition tx_run_inv :: "tx_run \<Rightarrow> bool" where
  "tx_run_inv r \<longleftrightarrow> tx_ok (tr_dev r) \<and> given r = accounted (tr_dev r)"

lemma thread_round_ok:
  assumes "tx_ok d"
  shows "tx_ok (snd (usb_bustx_thread_round code d))" "accounted (snd (usb_bustx_thread_round code d)) = accounted d"
    "(\<forall>n. code n = 0) \<Longrightarrow> drains d \<Longrightarrow> drains (snd (usb_bustx_thread_round code d))"
proof -
  let ?d = "d\<lparr>bustx_trgg := bustx_trgg d - 1\<rparr>"
  have d: "tx_ok ?d" "accounted ?d = accounted d" "drains ?d = drains d"
    using assms by (simp_all add: tx_ok_def accounted_def held_def released_def drains_def)
  note P = tx_process_ok [OF d(1), of code]
  have "snd (usb_bustx_thread_round code d) = ?d \<or> snd (usb_bustx_thread_round code d) = aicwf_usb_tx_process code ?d"
    by (simp add: usb_bustx_thread_round_def Let_def)
  then have "tx_ok (snd (usb_bustx_thread_round code d)) \<and> accounted (snd (usb_bustx_thread_round code d)) = accounted d
     \<and> ((\<forall>n. code n = 0) \<longrightarrow> drains d \<longrightarrow> drains (snd (usb_bustx_thread_round code d)))"
    by (rule disjE) (use P d in metis)+
  then show "tx_ok (snd (usb_bustx_thread_round code d))" "accounted (snd (usb_bustx_thread_round code d)) = accounted d"
    "(\<forall>n. code n = 0) \<Longrightarrow> drains d \<Longrightarrow> drains (snd (usb_bustx_thread_round code d))" by blast+
qed

lemma tx_step_inv:
  assumes "tx_run_inv r" "tx_step code r t"
  shows "tx_run_inv t" "(\<forall>n. code n = 0) \<Longrightarrow> drains (tr_dev r) \<Longrightarrow> drains (tr_dev t)"
proof -
  have ok: "tx_ok (tr_dev r)" "given r = accounted (tr_dev r)" using assms(1) by (simp_all add: tx_run_inv_def)
  from assms(2) have "tx_run_inv t \<and> ((\<forall>n. code n = 0) \<longrightarrow> drains (tr_dev r) \<longrightarrow> drains (tr_dev t))"
  proof cases
    case (tx_send mem aligned p ret e)
    from txdata_ok [OF ok(1) tx_send(2)] ok(2) tx_send(1) show ?thesis by (simp add: tx_run_inv_def)
  next
    case tx_thread
    from thread_round_ok [OF ok(1), of code] ok(2) show ?thesis unfolding tx_thread(1) tx_run_inv_def by simp
  next
    case (tx_finished b)
    from complete_ok [OF ok(1) tx_finished(2)] ok(2) tx_finished(1) show ?thesis by (simp add: tx_run_inv_def)
  next
    case (tx_bus st)
    with ok show ?thesis by (simp add: tx_run_inv_def state_change_sel)
  next
    case (tx_vif v)
    with ok show ?thesis by (simp add: tx_run_inv_def tx_ok_def accounted_def held_def released_def drains_def)
  qed
  then show "tx_run_inv t" "(\<forall>n. code n = 0) \<Longrightarrow> drains (tr_dev r) \<Longrightarrow> drains (tr_dev t)" by blast+
qed

text \<open>Runs begin after a successful \<^verbatim>\<open>aicwf_usb_init\<close> on a device without transfers under way.\<close>

definition tx_start :: "tx_run \<Rightarrow> bool" where
  "tx_start r \<longleftrightarrow> given r = {#} \<and> (\<exists>rx tx ms d. aicwf_usb_init rx tx ms True d = (0, tr_dev r)
     \<and> length (usb_tx_buf d) = AICWF_USB_TX_URBS \<and> tx_inflight d = [] \<and> tx_events d = [])"

lemma alloc_urbs_upt: "alloc_urbs urbs n = Some l \<Longrightarrow> l = [0..<n]"
  by (induction n arbitrary: l) (auto split: option.splits if_splits)

lemma init_lists:
  assumes "aicwf_usb_init rx tx ms True d = (0, e)"
  shows "tx_free_list e = [0..<AICWF_USB_TX_URBS]" "tx_post_list e = []" "tx_inflight e = tx_inflight d" "usb_tx_buf e = usb_tx_buf d"
    "tx_free_count e = int AICWF_USB_TX_URBS" "tx_post_count e = 0" "tbusy e = False" "tx_events e = tx_events d"
  using assms by (auto simp: aicwf_usb_init_def aicwf_usb_alloc_rx_urb_def aicwf_usb_alloc_tx_urb_def aicwf_usb_alloc_msg_rx_urb_def
      ENOMEM_def Let_def dest: alloc_urbs_upt split: option.splits if_splits prod.splits)

lemma start_inv:
  assumes "tx_start r"
  shows "tx_run_inv r" "drains (tr_dev r)"
proof -
  obtain rx tx ms d where d: "aicwf_usb_init rx tx ms True d = (0, tr_dev r)" "length (usb_tx_buf d) = AICWF_USB_TX_URBS"
    "tx_inflight d = []" "tx_events d = []" "given r = {#}"
    using assms by (auto simp: tx_start_def)
  then show "tx_run_inv r" "drains (tr_dev r)"
    using init_lists [OF d(1)] by (simp_all add: tx_run_inv_def tx_ok_def accounted_def held_def released_def drains_def
        AICWF_USB_TX_LOW_WATER_def AICWF_USB_TX_URBS_def)
qed

interpretation txrun: step_system tx_start "tx_step code" tx_run_inv for code
  by unfold_locales (auto intro: start_inv tx_step_inv(1))

interpretation txdrain: step_system tx_start "tx_step (\<lambda>_. 0)" "\<lambda>r. tx_run_inv r \<and> drains (tr_dev r)"
  by unfold_locales (auto intro: start_inv tx_step_inv)

section \<open>Failing submissions and frame layout\<close>

lemma process_all_fail:
  assumes "\<And>n. code n \<noteq> 0 \<and> code n \<noteq> - ENODEV"
  shows "tx_ok d \<Longrightarrow> u_state d = USB_UP_ST \<Longrightarrow> tx_post_list (aicwf_usb_tx_process code d) = []
     \<and> tx_inflight (aicwf_usb_tx_process code d) = tx_inflight d \<and> tbusy (aicwf_usb_tx_process code d) = tbusy d"
proof (induction "length (tx_post_list d)" arbitrary: d rule: less_induct)
  case less
  show ?case
  proof (cases d rule: post_dequeue_cases)
    case empty
    then have e: "aicwf_usb_tx_process code d = d" by (subst aicwf_usb_tx_process.simps) simp
    show ?thesis unfolding e using empty(1) by simp
  next
    case (taken b bs)
    let ?f = "tx_submit_failed b (d\<lparr>tx_post_list := bs, tx_post_count := tx_post_count d - 1, attempts := attempts d + 1\<rparr>)"
    have e: "aicwf_usb_tx_process code d = aicwf_usb_tx_process code ?f"
      using taken less.prems(2) assms [of "attempts d"] by (subst aicwf_usb_tx_process.simps) (simp add: Let_def)
    have "tx_ok ?f" "tx_post_list ?f = bs" using submit_failed_ok [OF less.prems(1) taken(1), of "attempts d + 1"] by simp_all
    moreover have "u_state ?f = USB_UP_ST" "tx_inflight ?f = tx_inflight d" "tbusy ?f = tbusy d"
      using less.prems(2) by (simp_all add: tx_submit_failed_def)
    ultimately show ?thesis unfolding e using less.hyps [of ?f] taken(1) by simp
  qed
qed

lemma header_length:
  "length (usb_header w) = 4"
  "unat (of_le16 (usb_header w ! 0) (usb_header w ! 1)) = unat w mod 4096"
proof -
  show "length (usb_header w) = 4" by (simp add: usb_header_def)
  have "of_le16 (ucast (w AND 0xff)) (ucast (drop_bit 8 w AND 0x0f)) = (ucast (take_bit 12 w) :: u16)"
  proof -
    have "w AND 0xff = take_bit 8 w" "drop_bit 8 w AND 0x0f = take_bit 4 (drop_bit 8 w)"
      by (simp_all add: take_bit_eq_mask mask_eq_exp_minus_1)
    then show ?thesis by (intro bit_word_eqI) (auto simp: of_le16_def bit_simps)
  qed
  moreover have "unat (ucast (take_bit 12 w) :: u16) = unat w mod 4096"
  proof -
    have "unat (take_bit 12 w) = unat w mod 4096" by (simp only: unsigned_take_bit_eq) (simp add: take_bit_eq_mod)
    moreover from this have "unat (take_bit 12 w) < 2 ^ LENGTH(16)" using mod_less_divisor [of 4096 "unat w"] by simp
    ultimately show ?thesis by (simp add: unat_ucast_small del: unsigned_take_bit_eq)
  qed
  ultimately show "unat (of_le16 (usb_header w ! 0) (usb_header w ! 1)) = unat w mod 4096"
    by (simp add: usb_header_def)
qed

section \<open>Properties\<close>


definition tx_demo_buf :: tx_buf where
  "tx_demo_buf = \<lparr>tb_skb = None, tb_cfm = False, tb_align = False, tb_frame = []\<rparr>"

definition tx_demo_raw :: usb_dev where
  "tx_demo_raw = usb_rx.extend rx_demo_dev \<lparr>tx_free_list = [], tx_post_list = [], tx_inflight = [], tx_free_count = 0, tx_post_count = 0,
     usb_tx_buf = replicate 50 tx_demo_buf, tbusy = False, vifs = [True], bustx_trgg = 0, bus_state = BUS_DOWN_ST, msg_in_pipe = False,
     tx_events = []\<rparr>"

definition tx_demo_init :: usb_dev where
  "tx_demo_init = snd (aicwf_usb_init (\<lambda>_. True) (\<lambda>_. True) (\<lambda>_. True) True tx_demo_raw)"

definition tx_demo_packet :: tx_packet where
  "tx_demo_packet = \<lparr>tp_id = 77, tp_data = replicate 100 0, tp_headroom = 80, tp_desc = [1, 2, 3, 4], tp_need_cfm = True\<rparr>"

lemma alloc_urbs_all: "alloc_urbs (\<lambda>_. True) n = Some [0..<n]"
  by (induction n) simp_all

lemma tx_demo_start: "tx_start \<lparr>tr_dev = tx_demo_init, given = {#}\<rparr>"
proof -
  have "fst (aicwf_usb_init (\<lambda>_. True) (\<lambda>_. True) (\<lambda>_. True) True tx_demo_raw) = 0"
    by (simp add: aicwf_usb_init_def aicwf_usb_alloc_rx_urb_def aicwf_usb_alloc_tx_urb_def alloc_urbs_all Let_def tx_demo_raw_def
        usb_rx.defs usb_dev.defs rx_demo_dev_def)
  then have "aicwf_usb_init (\<lambda>_. True) (\<lambda>_. True) (\<lambda>_. True) True tx_demo_raw = (0, tx_demo_init)"
    by (simp add: tx_demo_init_def prod_eq_iff)
  moreover have "length (usb_tx_buf tx_demo_raw) = AICWF_USB_TX_URBS" "tx_inflight tx_demo_raw = []" "tx_events tx_demo_raw = []"
    by (simp_all add: tx_demo_raw_def AICWF_USB_TX_URBS_def usb_rx.defs)
  ultimately show ?thesis by (auto simp: tx_start_def)
qed


text \<open>
  Failing submissions leave the network queues stopped.  When the device is busy, nothing is under way and every waiting buffer fails to
  be submitted, \<^verbatim>\<open>aicwf_usb_tx_process\<close> returns all 50 buffers to the free list but leaves the device busy; no completion is outstanding
  that could wake the queues.
\<close>

theorem failed_submissions_leave_queues_stopped:
  assumes "tx_ok d" and "tbusy d" and "u_state d = USB_UP_ST" and "tx_inflight d = []"
    and "\<forall>n. code n \<noteq> 0 \<and> code n \<noteq> - ENODEV"
  defines "e \<equiv> aicwf_usb_tx_process code d"
  shows "tbusy e \<and> tx_post_list e = [] \<and> tx_inflight e = [] \<and> tx_free_count e = 50"
proof -
  have e: "tx_post_list e = []" "tx_inflight e = []" "tbusy e"
    using process_all_fail [of code d] assms by auto
  have "tx_ok e" using tx_process_ok [OF assms(1)] by (simp add: e_def)
  then have "mset (tx_free_list e) = mset [0..<50]" "tx_free_count e = int (length (tx_free_list e))"
    using e by (simp_all add: tx_ok_def AICWF_USB_TX_URBS_def)
  moreover have "length (tx_free_list e) = length [0..<50 :: nat]"
    using \<open>mset (tx_free_list e) = mset [0..<50]\<close> by (rule mset_eq_length)
  ultimately show ?thesis using e by simp
qed

text \<open>All buffers wait, none is free.\<close>

definition tx_demo_full :: usb_dev where
  "tx_demo_full = tx_demo_raw\<lparr>u_state := USB_UP_ST, tx_post_list := [0..<50], tx_post_count := 50, tbusy := True,
     usb_tx_buf := replicate 50 (tx_demo_buf\<lparr>tb_skb := Some 7\<rparr>)\<rparr>"

theorem failed_submissions_leave_queues_stopped_witness:
  "tbusy (aicwf_usb_tx_process (\<lambda>_. -5) tx_demo_full) \<and> tx_free_count (aicwf_usb_tx_process (\<lambda>_. -5) tx_demo_full) = 50"
proof -
  have "tx_ok tx_demo_full" "tbusy tx_demo_full" "u_state tx_demo_full = USB_UP_ST" "tx_inflight tx_demo_full = []"
    by (simp_all add: tx_demo_full_def tx_ok_def AICWF_USB_TX_URBS_def tx_demo_raw_def usb_rx.defs)
  then show ?thesis
    using failed_submissions_leave_queues_stopped [of tx_demo_full "\<lambda>_. -5"] by (simp add: ENODEV_def)
qed

text \<open>
  C40: the frame on the wire.  A frame with confirmation is the 4-byte header, the descriptor and payload, and zeros up to a multiple of
  four bytes; one without is the same without padding.  The header's length field holds the length of the whole frame modulo 4096: the
  frame's length is lost from 4096 bytes on.
\<close>

theorem tx_frame_layout:
  assumes "length (tx_body p) + 7 < 65536"
  shows "(\<exists>pad. snd (frame_cfm p) = usb_header (ucast (fst (frame_cfm p))) @ tx_body p @ replicate pad 0 \<and> pad < 4
       \<and> length (snd (frame_cfm p)) mod 4 = 0 \<and> unat (fst (frame_cfm p)) = length (snd (frame_cfm p)))
     \<and> unat (fst (frame_plain p)) = length (snd (frame_plain p)) \<and> drop 4 (snd (frame_plain p)) = tx_body p
     \<and> unat (of_le16 (snd (frame_cfm p) ! 0) (snd (frame_cfm p) ! 1)) = length (snd (frame_cfm p)) mod 4096
     \<and> unat (of_le16 (snd (frame_plain p) ! 0) (snd (frame_plain p) ! 1)) = length (snd (frame_plain p)) mod 4096"
proof -
  define n where "n = 4 + length (tx_body p)"
  define pad where "pad = (if n mod 4 \<noteq> 0 then (n + 3) div 4 * 4 - n else 0)"
  have pad: "pad < 4" "(n + pad) mod 4 = 0" "n + pad < 65536"
    using assms unfolding pad_def n_def by (auto simp: mod_eq_0_iff_dvd)
  have u: "unat (word_of_nat n :: u16) = n" "unat (word_of_nat pad :: u16) = pad" "unat (word_of_nat n :: u32) = n"
    "unat (word_of_nat (n + pad) :: u16) = n + pad"
    using pad by (simp_all only: unat_of_nat) simp_all
  have c: "frame_cfm p = (word_of_nat (n + pad), usb_header (ucast (word_of_nat (n + pad) :: u16)) @ tx_body p @ replicate pad 0)"
    unfolding frame_cfm_def Let_def n_def [symmetric] u(1) TX_ALIGNMENT_def by (simp add: pad_def)
  have pl: "frame_plain p = (word_of_nat n, usb_header (word_of_nat n) @ tx_body p)"
    by (simp add: frame_plain_def Let_def n_def)
  have "unat (ucast (word_of_nat (n + pad) :: u16) :: u32) = n + pad" using u(4) by simp
  moreover have len: "length (usb_header w @ tx_body p @ replicate pad 0) = n + pad" "length (usb_header w @ tx_body p) = n" for w
    by (simp_all add: n_def header_length)
  moreover have hd: "(usb_header w @ xs) ! 0 = usb_header w ! 0" "(usb_header w @ xs) ! 1 = usb_header w ! 1" "drop 4 (usb_header w @ xs) = xs" for w xs
    by (simp_all add: nth_append header_length(1))
  ultimately show ?thesis
    unfolding c pl fst_conv snd_conv hd len u header_length(2)
    by (intro conjI exI [of _ pad]) (use pad in simp_all)
qed

theorem tx_frame_layout_witness:
  "unat (fst (frame_plain tx_demo_packet)) = length (snd (frame_plain tx_demo_packet))
   \<and> drop 4 (snd (frame_plain tx_demo_packet)) = [1, 2, 3, 4] @ replicate 20 0"
proof -
  have "tx_body tx_demo_packet = [1, 2, 3, 4] @ replicate 20 0" by (simp add: tx_body_def tx_demo_packet_def)
  then show ?thesis using tx_frame_layout [of tx_demo_packet] by simp
qed

end
