(* ===== verification/Txq.thy ===== *)
theory Txq
  imports Aic_Prelude
begin

text \<open>
  The transmit queues (\<^verbatim>\<open>rwnx_txq.c\<close>) and the part of the transmit path that feeds and drains them (\<^verbatim>\<open>rwnx_tx.c\<close>, \<^verbatim>\<open>usb_host.c\<close>): every
  station has a queue for each of eight traffic classes and one for management, every interface one for broadcast and one for unknown
  destinations, and one serves off-channel frames.  A queue with frames that is not stopped is linked into the list of its
  hardware queue; processing that list pushes frames to the bus.  Stations in power-save mode have their queues stopped and receive a
  limited number of frames per service period.  Queues, stations and hardware queues are their index.  \<open>None\<close> is a \<^verbatim>\<open>BUG_ON\<close> or a
  fault.  The configuration is that of the Makefile (one user position, no A-MSDU, no \<^verbatim>\<open>CONFIG_ONE_TXQ\<close>); statistics are left out.
\<close>

section \<open>Constants\<close>

definition TXQ_INACTIVE :: u16 where "TXQ_INACTIVE = 0xffff"
definition NDEV_NO_TXQ :: u16 where "NDEV_NO_TXQ = 0xffff"
definition NX_TXQ_INITIAL_CREDITS :: u8 where "NX_TXQ_INITIAL_CREDITS = 64"
definition NX_NB_TID_PER_STA :: nat where "NX_NB_TID_PER_STA = 8"
definition NX_NB_TXQ_PER_STA :: nat where "NX_NB_TXQ_PER_STA = NX_NB_TID_PER_STA + 1"
definition NX_VIRT_DEV_MAX :: nat where "NX_VIRT_DEV_MAX = 4"
definition RWNX_NDEV_FLOW_CTRL_STOP :: nat where "RWNX_NDEV_FLOW_CTRL_STOP = 64"
definition RWNX_NDEV_FLOW_CTRL_RESTART :: nat where "RWNX_NDEV_FLOW_CTRL_RESTART = 64"
definition USB_TXDESC_CNT :: nat where "USB_TXDESC_CNT = 64"

definition RWNX_TXQ_IN_HWQ_LIST :: u8 where "RWNX_TXQ_IN_HWQ_LIST = 0x01"
definition RWNX_TXQ_STOP_FULL :: u8 where "RWNX_TXQ_STOP_FULL = 0x02"
definition RWNX_TXQ_STOP_CSA :: u8 where "RWNX_TXQ_STOP_CSA = 0x04"
definition RWNX_TXQ_STOP_STA_PS :: u8 where "RWNX_TXQ_STOP_STA_PS = 0x08"
definition RWNX_TXQ_STOP_VIF_PS :: u8 where "RWNX_TXQ_STOP_VIF_PS = 0x10"
definition RWNX_TXQ_STOP_CHAN :: u8 where "RWNX_TXQ_STOP_CHAN = 0x20"
definition RWNX_TXQ_STOP :: u8 where
  "RWNX_TXQ_STOP = RWNX_TXQ_STOP_FULL OR RWNX_TXQ_STOP_CSA OR RWNX_TXQ_STOP_STA_PS OR RWNX_TXQ_STOP_VIF_PS OR RWNX_TXQ_STOP_CHAN"
definition RWNX_TXQ_NDEV_FLOW_CTRL :: u8 where "RWNX_TXQ_NDEV_FLOW_CTRL = 0x80"

lemmas txq_flag_defs = RWNX_TXQ_IN_HWQ_LIST_def RWNX_TXQ_STOP_FULL_def RWNX_TXQ_STOP_CSA_def RWNX_TXQ_STOP_STA_PS_def
  RWNX_TXQ_STOP_VIF_PS_def RWNX_TXQ_STOP_CHAN_def RWNX_TXQ_STOP_def RWNX_TXQ_NDEV_FLOW_CTRL_def

definition TXU_CNTRL_RETRY :: u16 where "TXU_CNTRL_RETRY = 0x001"
definition TXU_CNTRL_MORE_DATA :: u16 where "TXU_CNTRL_MORE_DATA = 0x004"
definition TXU_CNTRL_MGMT :: u16 where "TXU_CNTRL_MGMT = 0x008"
definition TXU_CNTRL_EOSP :: u16 where "TXU_CNTRL_EOSP = 0x200"

definition LEGACY_PS_ID :: nat where "LEGACY_PS_ID = 0"
definition UAPSD_ID :: nat where "UAPSD_ID = 1"
definition PS_SP_INTERRUPTED :: u16 where "PS_SP_INTERRUPTED = 255"

definition RWNX_HWQ_BK :: nat where "RWNX_HWQ_BK = 0"
definition RWNX_HWQ_BE :: nat where "RWNX_HWQ_BE = 1"
definition RWNX_HWQ_VI :: nat where "RWNX_HWQ_VI = 2"
definition RWNX_HWQ_VO :: nat where "RWNX_HWQ_VO = 3"
definition nx_txdesc_cnt :: "u8 list" where "nx_txdesc_cnt = [8, 64, 64, 32]"
definition TID_MGT :: nat where "TID_MGT = 8"
definition rwnx_tid2hwq :: "nat list" where
  "rwnx_tid2hwq = [RWNX_HWQ_BE, RWNX_HWQ_BK, RWNX_HWQ_BK, RWNX_HWQ_BE, RWNX_HWQ_VI, RWNX_HWQ_VI, RWNX_HWQ_VO, RWNX_HWQ_VO, RWNX_HWQ_VO]"
definition nx_tid_prio :: "nat list" where "nx_tid_prio = [7, 6, 5, 4, 3, 0, 2, 1]"

section \<open>State\<close>

text \<open>
  A frame with what the code keeps in its software header: destination, queue, descriptor flags, Ethernet type, the first byte
  behind the headroom, whether it is a raw frame, its fixed rate, the hardware queue it was pushed to, whether it is to be confirmed,
  the status address in its descriptor, and whether its interface is a mesh point.
\<close>

record tx_frame =
  f_id :: nat
  f_sta :: "nat option"
  f_txq :: nat
  f_flags :: u16
  f_ethertype :: u16
  f_byte0 :: u8
  f_raw :: bool
  f_rate :: "u32 option"
  f_hw_queue :: nat
  f_need_cfm :: bool
  f_status_addr :: u32
  f_mesh :: bool

record rwnx_txq =
  tq_idx :: u16
  tq_status :: u8
  tq_credits :: u8                    \<comment> \<open>\<^verbatim>\<open>s8\<close>, read with \<open>sint\<close>\<close>
  tq_pkt_sent :: u8
  tq_pkt_pushed :: u8
  tq_sk_list :: "tx_frame list"
  tq_last_retry :: "nat option"
  tq_nb_retry :: int
  tq_hwq :: nat
  tq_push_limit :: u8
  tq_tid :: nat
  tq_sta :: "nat option"
  tq_ps_id :: nat
  tq_ndev_idx :: u16
  tq_ndev :: nat                      \<comment> \<open>the interface\<close>

record rwnx_hwq =
  hq_list :: "nat list"
  hq_size :: u8
  hq_need :: bool

text \<open>\<^verbatim>\<open>struct rwnx_sta\<close> with its \<^verbatim>\<open>struct rwnx_sta_ps\<close>; the two counters are arrays over the power-save types.\<close>

record rwnx_sta =
  s_vif_idx :: nat
  s_uapsd_tids :: u16
  s_tdls_active :: bool
  ps_active :: bool
  pkt_ready :: "nat \<Rightarrow> u16"
  sp_cnt :: "nat \<Rightarrow> u16"

datatype txq_event =
    FrameTx tx_frame                  \<comment> \<open>\<^verbatim>\<open>aicwf_frame_tx\<close>\<close>
  | StopSubqueue nat u16 | WakeSubqueue nat u16
  | TrafficInd nat bool bool | TdlsTrafficInd nat
  | FreeFrame nat
  | LostFrame nat                     \<comment> \<open>still linked when the queue's list was initialised again\<close>
  | MgmtStatus nat bool
  | TaskletSchedule

record tx_hw =
  txqs :: "rwnx_txq list"
  hwqs :: "rwnx_hwq list"
  stas :: "rwnx_sta list"
  old_ic :: bool                      \<comment> \<open>a chip for which the \<^verbatim>\<open>..._FOR_OLD_IC\<close> layout holds\<close>
  flow_tbusy :: bool                  \<comment> \<open>\<^verbatim>\<open>usbdev->tbusy\<close>\<close>
  usb_is_down :: bool
  tx_host_id :: "tx_frame option list"
  txdesc_free_idx :: u32
  txdesc_used_idx :: u32
  hw_events :: "txq_event list"

abbreviation txq_of :: "tx_hw \<Rightarrow> nat \<Rightarrow> rwnx_txq" where "txq_of s i \<equiv> txqs s ! i"

definition upd_txq :: "nat \<Rightarrow> (rwnx_txq \<Rightarrow> rwnx_txq) \<Rightarrow> tx_hw \<Rightarrow> tx_hw" where
  "upd_txq i f s = s\<lparr>txqs := (txqs s)[i := f (txqs s ! i)]\<rparr>"

definition upd_hwq :: "nat \<Rightarrow> (rwnx_hwq \<Rightarrow> rwnx_hwq) \<Rightarrow> tx_hw \<Rightarrow> tx_hw" where
  "upd_hwq h f s = s\<lparr>hwqs := (hwqs s)[h := f (hwqs s ! h)]\<rparr>"

definition upd_sta :: "nat \<Rightarrow> (rwnx_sta \<Rightarrow> rwnx_sta) \<Rightarrow> tx_hw \<Rightarrow> tx_hw" where
  "upd_sta k f s = s\<lparr>stas := (stas s)[k := f (stas s ! k)]\<rparr>"

definition hw_log :: "txq_event list \<Rightarrow> tx_hw \<Rightarrow> tx_hw" where
  "hw_log es s = s\<lparr>hw_events := hw_events s @ es\<rparr>"

section \<open>Which queue belongs to whom\<close>

definition remote_sta_max :: "tx_hw \<Rightarrow> nat" where
  "remote_sta_max s = (if old_ic s then 8 else 32)"

definition is_multicast_sta :: "tx_hw \<Rightarrow> nat \<Rightarrow> bool" where
  "is_multicast_sta s st \<longleftrightarrow> remote_sta_max s \<le> st"

definition first_vif_txq_idx :: "tx_hw \<Rightarrow> nat" where
  "first_vif_txq_idx s = remote_sta_max s * NX_NB_TXQ_PER_STA"

definition rwnx_txq_sta_idx :: "tx_hw \<Rightarrow> nat \<Rightarrow> nat \<Rightarrow> nat" where
  "rwnx_txq_sta_idx s st tid =
    (if is_multicast_sta s st then first_vif_txq_idx s + s_vif_idx (stas s ! st) else st * NX_NB_TXQ_PER_STA + tid)"

definition rwnx_txq_vif_idx :: "tx_hw \<Rightarrow> nat \<Rightarrow> nat \<Rightarrow> nat" where
  "rwnx_txq_vif_idx s v type = first_vif_txq_idx s + v + type * NX_VIRT_DEV_MAX"

definition rwnx_txq_sta_get :: "tx_hw \<Rightarrow> nat \<Rightarrow> nat \<Rightarrow> nat" where
  "rwnx_txq_sta_get s st tid = rwnx_txq_sta_idx s st (if NX_NB_TXQ_PER_STA \<le> tid then 0 else tid)"

definition rwnx_txq_vif_get :: "tx_hw \<Rightarrow> nat \<Rightarrow> nat \<Rightarrow> nat" where
  "rwnx_txq_vif_get s v type = rwnx_txq_vif_idx s v (if 1 < type then 0 else type)"

definition off_chan_txq_idx :: "tx_hw \<Rightarrow> nat" where
  "off_chan_txq_idx s = first_vif_txq_idx s + NX_VIRT_DEV_MAX * 2"

text \<open>The queues \<^verbatim>\<open>foreach_sta_txq\<close> visits.\<close>

definition sta_txqs :: "tx_hw \<Rightarrow> nat \<Rightarrow> nat list" where
  "sta_txqs s st = map (\<lambda>tid. rwnx_txq_sta_get s st 0 + tid) [0..<if is_multicast_sta s st then 1 else NX_NB_TXQ_PER_STA]"

section \<open>The list of a hardware queue\<close>

definition rwnx_txq_is_stopped :: "rwnx_txq \<Rightarrow> bool" where
  "rwnx_txq_is_stopped q \<longleftrightarrow> flag_set (tq_status q) RWNX_TXQ_STOP"

definition rwnx_txq_is_full :: "rwnx_txq \<Rightarrow> bool" where
  "rwnx_txq_is_full q \<longleftrightarrow> flag_set (tq_status q) RWNX_TXQ_STOP_FULL"

definition rwnx_txq_is_scheduled :: "rwnx_txq \<Rightarrow> bool" where
  "rwnx_txq_is_scheduled q \<longleftrightarrow> flag_set (tq_status q) RWNX_TXQ_IN_HWQ_LIST"

definition rwnx_txq_skb_ready :: "rwnx_txq \<Rightarrow> bool" where
  "rwnx_txq_skb_ready q \<longleftrightarrow> tq_sk_list q \<noteq> []"

definition set_status :: "nat \<Rightarrow> u8 \<Rightarrow> tx_hw \<Rightarrow> tx_hw" where
  "set_status i m = upd_txq i (\<lambda>q. q\<lparr>tq_status := flag_add (tq_status q) m\<rparr>)"

definition clear_status :: "nat \<Rightarrow> u8 \<Rightarrow> tx_hw \<Rightarrow> tx_hw" where
  "clear_status i m = upd_txq i (\<lambda>q. q\<lparr>tq_status := flag_clear (tq_status q) m\<rparr>)"

definition rwnx_txq_add_to_hw_list :: "nat \<Rightarrow> tx_hw \<Rightarrow> tx_hw" where
  "rwnx_txq_add_to_hw_list i s =
    (if rwnx_txq_is_scheduled (txq_of s i) then s
     else upd_hwq (tq_hwq (txq_of s i)) (\<lambda>h. h\<lparr>hq_list := hq_list h @ [i], hq_need := True\<rparr>)
            (set_status i RWNX_TXQ_IN_HWQ_LIST s))"

text \<open>\<^verbatim>\<open>list_del\<close> takes the queue out of whatever list it is in.\<close>

definition rwnx_txq_del_from_hw_list :: "nat \<Rightarrow> tx_hw \<Rightarrow> tx_hw" where
  "rwnx_txq_del_from_hw_list i s =
    (if rwnx_txq_is_scheduled (txq_of s i)
     then (clear_status i RWNX_TXQ_IN_HWQ_LIST s)\<lparr>hwqs := map (\<lambda>h. h\<lparr>hq_list := remove1 i (hq_list h)\<rparr>) (hwqs s)\<rparr>
     else s)"

section \<open>Initialisation\<close>

definition rwnx_txq_init :: "nat \<Rightarrow> u8 \<Rightarrow> nat \<Rightarrow> nat \<Rightarrow> nat option \<Rightarrow> nat \<Rightarrow> tx_hw \<Rightarrow> tx_hw" where
  "rwnx_txq_init i st h tid sta ndev s =
    (let ndev_idx =
           (if i < first_vif_txq_idx s then
              (let t = i - the sta * NX_NB_TXQ_PER_STA
               in if t < NX_NB_TID_PER_STA then word_of_nat (t + the sta * NX_NB_TID_PER_STA) else NDEV_NO_TXQ)
            else if i < first_vif_txq_idx s + NX_VIRT_DEV_MAX then word_of_nat (NX_NB_TID_PER_STA * remote_sta_max s)
            else NDEV_NO_TXQ)
     in upd_txq i (\<lambda>_. \<lparr>tq_idx = word_of_nat i, tq_status = st, tq_credits = NX_TXQ_INITIAL_CREDITS, tq_pkt_sent = 0, tq_pkt_pushed = 0,
            tq_sk_list = [], tq_last_retry = None, tq_nb_retry = 0, tq_hwq = h, tq_push_limit = 0, tq_tid = tid, tq_sta = sta,
            tq_ps_id = LEGACY_PS_ID, tq_ndev_idx = ndev_idx, tq_ndev = ndev\<rparr>)
          (hw_log (map (\<lambda>f. LostFrame (f_id f)) (tq_sk_list (txq_of s i))) s))"

definition rwnx_txq_flush :: "nat \<Rightarrow> tx_hw \<Rightarrow> tx_hw" where
  "rwnx_txq_flush i s =
     upd_txq i (\<lambda>q. q\<lparr>tq_sk_list := []\<rparr>) (hw_log (map (\<lambda>f. FreeFrame (f_id f)) (tq_sk_list (txq_of s i))) s)"

definition rwnx_txq_deinit :: "nat \<Rightarrow> tx_hw \<Rightarrow> tx_hw" where
  "rwnx_txq_deinit i s =
    (if tq_idx (txq_of s i) = TXQ_INACTIVE then s
     else rwnx_txq_flush i (upd_txq i (\<lambda>q. q\<lparr>tq_idx := TXQ_INACTIVE\<rparr>) (rwnx_txq_del_from_hw_list i s)))"

definition rwnx_txq_vif_init :: "nat \<Rightarrow> nat \<Rightarrow> u8 \<Rightarrow> tx_hw \<Rightarrow> tx_hw" where
  "rwnx_txq_vif_init v bcmc st s =
     rwnx_txq_init (rwnx_txq_vif_get s v 1) st RWNX_HWQ_VO TID_MGT None v
       (rwnx_txq_init (rwnx_txq_vif_get s v 0) st RWNX_HWQ_BE 0 (Some bcmc) v s)"

definition rwnx_txq_vif_deinit :: "nat \<Rightarrow> tx_hw \<Rightarrow> tx_hw" where
  "rwnx_txq_vif_deinit v s = rwnx_txq_deinit (rwnx_txq_vif_get s v 1) (rwnx_txq_deinit (rwnx_txq_vif_get s v 0) s)"

definition sta_init_one :: "nat \<Rightarrow> u8 \<Rightarrow> nat \<Rightarrow> tx_hw \<Rightarrow> tx_hw" where
  "sta_init_one st stat tid s =
     upd_txq (rwnx_txq_sta_get s st 0 + tid)
       (\<lambda>q. q\<lparr>tq_ps_id := if bit (s_uapsd_tids (stas s ! st)) tid then UAPSD_ID else LEGACY_PS_ID\<rparr>)
       (rwnx_txq_init (rwnx_txq_sta_get s st 0 + tid) stat (rwnx_tid2hwq ! tid) tid (Some st) (s_vif_idx (stas s ! st)) s)"

definition rwnx_txq_sta_init :: "nat \<Rightarrow> u8 \<Rightarrow> tx_hw \<Rightarrow> tx_hw" where
  "rwnx_txq_sta_init st stat s = fold (sta_init_one st stat) [0..<length (sta_txqs s st)] s"

definition rwnx_txq_sta_deinit :: "nat \<Rightarrow> tx_hw \<Rightarrow> tx_hw" where
  "rwnx_txq_sta_deinit st s = fold rwnx_txq_deinit (sta_txqs s st) s"

definition rwnx_txq_unk_vif_init :: "nat \<Rightarrow> tx_hw \<Rightarrow> tx_hw" where
  "rwnx_txq_unk_vif_init v s = rwnx_txq_init (rwnx_txq_vif_get s v 1) 0 RWNX_HWQ_VO TID_MGT None v s"

definition rwnx_txq_unk_vif_deinit :: "nat \<Rightarrow> tx_hw \<Rightarrow> tx_hw" where
  "rwnx_txq_unk_vif_deinit v s = rwnx_txq_deinit (rwnx_txq_vif_get s v 1) s"

definition rwnx_txq_tdls_vif_init :: "bool \<Rightarrow> nat \<Rightarrow> tx_hw \<Rightarrow> tx_hw" where
  "rwnx_txq_tdls_vif_init supports_tdls v s = (if supports_tdls then rwnx_txq_unk_vif_init v s else s)"

definition rwnx_txq_tdls_vif_deinit :: "bool \<Rightarrow> nat \<Rightarrow> tx_hw \<Rightarrow> tx_hw" where
  "rwnx_txq_tdls_vif_deinit supports_tdls v s = (if supports_tdls then rwnx_txq_unk_vif_deinit v s else s)"

definition rwnx_txq_offchan_init :: "nat \<Rightarrow> tx_hw \<Rightarrow> tx_hw" where
  "rwnx_txq_offchan_init v s = rwnx_txq_init (off_chan_txq_idx s) RWNX_TXQ_STOP_CHAN RWNX_HWQ_VO TID_MGT None v s"

definition rwnx_txq_offchan_deinit :: "tx_hw \<Rightarrow> tx_hw" where
  "rwnx_txq_offchan_deinit s = rwnx_txq_deinit (off_chan_txq_idx s) s"

definition rwnx_hwq_init :: "tx_hw \<Rightarrow> tx_hw" where
  "rwnx_hwq_init s = s\<lparr>hwqs := map (\<lambda>(h, n). h\<lparr>hq_list := [], hq_size := n\<rparr>) (zip (hwqs s) nx_txdesc_cnt)\<rparr>"

section \<open>Starting and stopping\<close>

definition rwnx_txq_start :: "nat \<Rightarrow> u8 \<Rightarrow> tx_hw \<Rightarrow> tx_hw" where
  "rwnx_txq_start i reason s =
    (if tq_idx (txq_of s i) \<noteq> TXQ_INACTIVE \<and> flag_set (tq_status (txq_of s i)) reason
     then (let s1 = clear_status i reason s
           in if \<not> rwnx_txq_is_stopped (txq_of s1 i) \<and> rwnx_txq_skb_ready (txq_of s1 i) then rwnx_txq_add_to_hw_list i s1 else s1)
     else s)"

definition rwnx_txq_stop :: "nat \<Rightarrow> u8 \<Rightarrow> tx_hw \<Rightarrow> tx_hw" where
  "rwnx_txq_stop i reason s =
    (if tq_idx (txq_of s i) \<noteq> TXQ_INACTIVE then rwnx_txq_del_from_hw_list i (set_status i reason s) else s)"

definition rwnx_txq_sta_start :: "u8 \<Rightarrow> nat \<Rightarrow> tx_hw \<Rightarrow> tx_hw" where
  "rwnx_txq_sta_start reason st s = fold (\<lambda>i. rwnx_txq_start i reason) (sta_txqs s st) s"

definition rwnx_txq_sta_stop :: "u8 \<Rightarrow> nat \<Rightarrow> tx_hw \<Rightarrow> tx_hw" where
  "rwnx_txq_sta_stop reason st s = fold (\<lambda>i. rwnx_txq_stop i reason) (sta_txqs s st) s"


text \<open>
  An interface as \<^verbatim>\<open>rwnx_txq_vif_for_each_sta\<close> sees it: for a station interface its access point and TDLS peer, otherwise the list of its
  stations (that of the master for a VLAN).  Another type is a \<^verbatim>\<open>BUG\<close>, a missing TDLS peer of an active link a fault on starting.
\<close>

datatype vif_type = VIF_STATION | VIF_P2P_CLIENT | VIF_AP_VLAN | VIF_AP | VIF_MESH_POINT | VIF_P2P_GO | VIF_MONITOR | VIF_OTHER

record rwnx_vif =
  v_index :: nat                      \<comment> \<open>\<^verbatim>\<open>master_vif_idx\<close>\<close>
  v_type :: vif_type
  v_tdls_link :: bool
  v_tdls_sta :: "nat option"
  v_tdls_chsw :: bool
  v_roc_tdls :: bool
  v_ap :: "nat option"
  v_sta_list :: "nat list"
  v_master_sta_list :: "nat list"

definition rwnx_txq_vif_for_each_sta :: "rwnx_vif \<Rightarrow> (nat \<Rightarrow> tx_hw \<Rightarrow> tx_hw) \<Rightarrow> bool \<Rightarrow> tx_hw \<Rightarrow> tx_hw option" where
  "rwnx_txq_vif_for_each_sta v f null_ok s =
    (case v_type v of
       VIF_MONITOR \<Rightarrow> None | VIF_OTHER \<Rightarrow> None
     | VIF_AP_VLAN \<Rightarrow> Some (fold f (v_master_sta_list v) s)
     | VIF_AP \<Rightarrow> Some (fold f (v_sta_list v) s) | VIF_MESH_POINT \<Rightarrow> Some (fold f (v_sta_list v) s)
     | VIF_P2P_GO \<Rightarrow> Some (fold f (v_sta_list v) s)
     | _ \<Rightarrow> do {
         s1 \<leftarrow> (if v_tdls_link v then (case v_tdls_sta v of Some st \<Rightarrow> Some (f st s) | None \<Rightarrow> if null_ok then Some s else None) else Some s);
         Some (case v_ap v of None \<Rightarrow> s1 | Some st \<Rightarrow> f st s1) })"

definition vif_queues :: "(nat \<Rightarrow> tx_hw \<Rightarrow> tx_hw) \<Rightarrow> rwnx_vif \<Rightarrow> tx_hw \<Rightarrow> tx_hw" where
  "vif_queues f v s = f (rwnx_txq_vif_get s (v_index v) 1) (f (rwnx_txq_vif_get s (v_index v) 0) s)"

definition rwnx_txq_vif_start :: "rwnx_vif \<Rightarrow> u8 \<Rightarrow> tx_hw \<Rightarrow> tx_hw option" where
  "rwnx_txq_vif_start v reason s =
    (if v_type v = VIF_MONITOR then Some s
     else do {
       let s1 = (case v_tdls_sta v of Some st \<Rightarrow> if v_roc_tdls v \<and> v_tdls_chsw v then rwnx_txq_sta_start reason st s else s | None \<Rightarrow> s);
       s2 \<leftarrow> (if v_roc_tdls v then Some s1 else rwnx_txq_vif_for_each_sta v (rwnx_txq_sta_start reason) False s1);
       Some (vif_queues (\<lambda>i. rwnx_txq_start i reason) v s2) })"

definition rwnx_txq_vif_stop :: "rwnx_vif \<Rightarrow> u8 \<Rightarrow> tx_hw \<Rightarrow> tx_hw option" where
  "rwnx_txq_vif_stop v reason s =
    (if v_type v = VIF_MONITOR then Some s
     else do {
       s1 \<leftarrow> rwnx_txq_vif_for_each_sta v (rwnx_txq_sta_stop reason) True s;
       Some (vif_queues (\<lambda>i. rwnx_txq_stop i reason) v s1) })"

definition rwnx_txq_tdls_sta_start :: "rwnx_vif \<Rightarrow> u8 \<Rightarrow> tx_hw \<Rightarrow> tx_hw" where
  "rwnx_txq_tdls_sta_start v reason s = (case v_tdls_sta v of None \<Rightarrow> s | Some st \<Rightarrow> rwnx_txq_sta_start reason st s)"

definition rwnx_txq_tdls_sta_stop :: "rwnx_vif \<Rightarrow> u8 \<Rightarrow> tx_hw \<Rightarrow> tx_hw" where
  "rwnx_txq_tdls_sta_stop v reason s = (case v_tdls_sta v of None \<Rightarrow> s | Some st \<Rightarrow> rwnx_txq_sta_stop reason st s)"

definition rwnx_txq_offchan_start :: "tx_hw \<Rightarrow> tx_hw" where
  "rwnx_txq_offchan_start s = rwnx_txq_start (off_chan_txq_idx s) RWNX_TXQ_STOP_CHAN s"

text \<open>A station moves to another interface of the same access point.\<close>

definition switch_queue :: "nat \<Rightarrow> nat \<Rightarrow> tx_hw \<Rightarrow> tx_hw" where
  "switch_queue v i s = hw_log [WakeSubqueue v (tq_ndev_idx (txq_of s i))] (upd_txq i (\<lambda>q. q\<lparr>tq_ndev := v\<rparr>) s)"

definition rwnx_txq_sta_switch_vif :: "nat \<Rightarrow> nat \<Rightarrow> tx_hw \<Rightarrow> tx_hw" where
  "rwnx_txq_sta_switch_vif st v s = fold (switch_queue v) (map (\<lambda>i. rwnx_txq_sta_get s st 0 + i) [0..<NX_NB_TID_PER_STA]) s"

section \<open>Queueing a frame\<close>

definition rwnx_set_traffic_status :: "nat \<Rightarrow> bool \<Rightarrow> nat \<Rightarrow> tx_hw \<Rightarrow> tx_hw" where
  "rwnx_set_traffic_status st available ps s =
     hw_log [if s_tdls_active (stas s ! st) then TdlsTrafficInd (s_vif_idx (stas s ! st)) else TrafficInd st (ps \<noteq> LEGACY_PS_ID) available] s"

fun insert_after :: "nat \<Rightarrow> tx_frame \<Rightarrow> tx_frame list \<Rightarrow> tx_frame list option" where
  "insert_after k f [] = None"
| "insert_after k f (g # gs) = (if f_id g = k then Some (g # f # gs) else map_option (Cons g) (insert_after k f gs))"

definition ps_count_queued :: "nat \<Rightarrow> tx_hw \<Rightarrow> tx_hw" where
  "ps_count_queued i s =
    (case tq_sta (txq_of s i) of
       None \<Rightarrow> s
     | Some st \<Rightarrow>
         if ps_active (stas s ! st) then
           (let k = tq_ps_id (txq_of s i);
                n = pkt_ready (stas s ! st) k + 1;
                s1 = upd_sta st (\<lambda>x. x\<lparr>pkt_ready := (pkt_ready x)(k := n)\<rparr>) s
            in if n = 1 then rwnx_set_traffic_status st True k s1 else s1)
         else s)"

definition link_frame :: "tx_frame \<Rightarrow> bool \<Rightarrow> rwnx_txq \<Rightarrow> rwnx_txq option" where
  "link_frame f retry q =
    (if \<not> retry then Some (q\<lparr>tq_sk_list := tq_sk_list q @ [f]\<rparr>)
     else map_option (\<lambda>l. q\<lparr>tq_sk_list := l, tq_last_retry := Some (f_id f), tq_nb_retry := tq_nb_retry q + 1\<rparr>)
       (case tq_last_retry q of None \<Rightarrow> Some (f # tq_sk_list q) | Some k \<Rightarrow> insert_after k f (tq_sk_list q)))"

definition flow_stop :: "nat \<Rightarrow> tx_hw \<Rightarrow> tx_hw" where
  "flow_stop i s =
    (let q = txq_of s i
     in if tq_ndev_idx q \<noteq> NDEV_NO_TXQ \<and> \<not> flow_tbusy s \<and> RWNX_NDEV_FLOW_CTRL_STOP < length (tq_sk_list q)
        then hw_log [StopSubqueue (tq_ndev q) (tq_ndev_idx q)] (set_status i RWNX_TXQ_NDEV_FLOW_CTRL s) else s)"

definition rwnx_txq_queue_skb :: "tx_frame \<Rightarrow> nat \<Rightarrow> bool \<Rightarrow> tx_hw \<Rightarrow> (bool \<times> tx_hw) option" where
  "rwnx_txq_queue_skb f i retry s = do {
     let s1 = ps_count_queued i s;
     q \<leftarrow> link_frame f retry (txq_of s1 i);
     let s2 = flow_stop i (upd_txq i (\<lambda>_. q) s1);
     Some (if rwnx_txq_is_stopped (txq_of s2 i) then (False, s2) else (True, rwnx_txq_add_to_hw_list i s2)) }"

section \<open>Pushing frames to the bus\<close>

definition aicwf_usb_host_txdesc_push :: "tx_frame \<Rightarrow> tx_hw \<Rightarrow> tx_hw" where
  "aicwf_usb_host_txdesc_push f s =
    (let n = txdesc_free_idx s + 1
     in s\<lparr>tx_host_id := (tx_host_id s)[unat (txdesc_free_idx s) mod USB_TXDESC_CNT := Some f],
          txdesc_free_idx := if n = 0x40000000 then 0 else n\<rparr>)"

definition rwnx_set_more_data_flag :: "nat \<Rightarrow> tx_frame \<Rightarrow> tx_hw \<Rightarrow> tx_frame \<times> tx_hw" where
  "rwnx_set_more_data_flag st f s =
    (if ps_active (stas s ! st) then
       (let k = tq_ps_id (txq_of s (f_txq f));
            ready = pkt_ready (stas s ! st) k - 1;
            sp = sp_cnt (stas s ! st) k - 1;
            s1 = upd_sta st (\<lambda>x. x\<lparr>pkt_ready := (pkt_ready x)(k := ready), sp_cnt := (sp_cnt x)(k := sp)\<rparr>) s;
            f1 = (if (k = UAPSD_ID \<or> f_mesh f \<or> s_tdls_active (stas s ! st)) \<and> sp = 0
                  then f\<lparr>f_flags := flag_add (f_flags f) TXU_CNTRL_EOSP\<rparr> else f)
        in if ready \<noteq> 0 then (f1\<lparr>f_flags := flag_add (f_flags f1) TXU_CNTRL_MORE_DATA\<rparr>, s1)
           else (f1, rwnx_set_traffic_status st False k s1))
     else (f, s))"

definition needs_cfm :: "tx_frame \<Rightarrow> bool" where
  "needs_cfm f \<longleftrightarrow> (flag_set (f_flags f) TXU_CNTRL_MGMT \<and> f_byte0 f \<in> {0xd0, 0x10, 0x30}) \<or> f_ethertype f \<in> {0x8e88, 0xb488}"

definition push_counts :: "rwnx_txq \<Rightarrow> rwnx_txq" where
  "push_counts q =
    (if tq_nb_retry q \<noteq> 0
     then q\<lparr>tq_nb_retry := tq_nb_retry q - 1, tq_last_retry := if tq_nb_retry q = 1 then None else tq_last_retry q\<rparr>
     else q\<lparr>tq_pkt_sent := tq_pkt_sent q + 1\<rparr>)"

definition push_to_bus :: "tx_frame \<Rightarrow> tx_hw \<Rightarrow> tx_hw" where
  "push_to_bus f s =
    (if needs_cfm f then
       (let f1 = f\<lparr>f_need_cfm := True, f_status_addr := 0x80000000 OR txdesc_free_idx s\<rparr>
        in hw_log [FrameTx f1] (aicwf_usb_host_txdesc_push f1 s))
     else
       hw_log [FrameTx (f\<lparr>f_need_cfm := False, f_flags := if f_raw f then flag_add (f_flags f) TXU_CNTRL_MGMT else f_flags f,
                  f_status_addr := case f_rate f of None \<Rightarrow> 0 | Some r \<Rightarrow> 0x40000000 OR r\<rparr>)] s)"

definition rwnx_tx_push :: "tx_frame \<Rightarrow> tx_hw \<Rightarrow> tx_hw" where
  "rwnx_tx_push f s =
    (let i = f_txq f;
         s1 = upd_txq i push_counts s;
         (f1, s2) = (case f_sta f of
                       None \<Rightarrow> (f\<lparr>f_hw_queue := tq_hwq (txq_of s i)\<rparr>, s1)
                     | Some st \<Rightarrow> rwnx_set_more_data_flag st (f\<lparr>f_hw_queue := tq_hwq (txq_of s i)\<rparr>) s1)
     in push_to_bus f1
          (upd_txq i (\<lambda>q. q\<lparr>tq_pkt_pushed := tq_pkt_pushed q + 1,
                            tq_push_limit := if tq_push_limit q = 0 then 0 else tq_push_limit q - 1\<rparr>) s2))"

section \<open>Processing a hardware queue\<close>

definition rwnx_txq_get_credits :: "rwnx_txq \<Rightarrow> int" where
  "rwnx_txq_get_credits q =
    (if tq_push_limit q \<noteq> 0 \<and> uint (tq_push_limit q) < sint (tq_credits q) then uint (tq_push_limit q) else sint (tq_credits q))"

definition rwnx_txq_get_skb_to_push :: "nat \<Rightarrow> tx_hw \<Rightarrow> bool \<times> tx_frame list \<times> tx_hw" where
  "rwnx_txq_get_skb_to_push i s =
    (let q = txq_of s i; credits = rwnx_txq_get_credits q
     in if int (length (tq_sk_list q)) \<le> credits then (True, tq_sk_list q, upd_txq i (\<lambda>q. q\<lparr>tq_sk_list := []\<rparr>) s)
        else (tq_push_limit q \<noteq> 0 \<and> credits = uint (tq_push_limit q), take (nat credits) (tq_sk_list q),
              upd_txq i (\<lambda>q. q\<lparr>tq_sk_list := drop (nat credits) (tq_sk_list q)\<rparr>) s))"

definition after_push :: "nat \<Rightarrow> nat \<Rightarrow> bool \<Rightarrow> tx_hw \<Rightarrow> tx_hw" where
  "after_push h i none_left s =
    (if none_left then upd_txq i (\<lambda>q. q\<lparr>tq_pkt_sent := 0\<rparr>) (rwnx_txq_del_from_hw_list i s)
     else if rwnx_txq_is_scheduled (txq_of s i) \<and> hq_size (hwqs s ! h) < tq_pkt_sent (txq_of s i)
     then upd_hwq h (\<lambda>x. x\<lparr>hq_list := rotate1 (hq_list x)\<rparr>) (upd_txq i (\<lambda>q. q\<lparr>tq_pkt_sent := 0\<rparr>) s)
     else s)"

text \<open>A legacy service period that could not be completed is given up.\<close>

definition end_legacy_sp :: "nat \<Rightarrow> tx_hw \<Rightarrow> tx_hw" where
  "end_legacy_sp i s =
    (let q = txq_of s i
     in case tq_sta q of
          None \<Rightarrow> s
        | Some st \<Rightarrow>
            if tq_push_limit q \<noteq> 0 \<and> tq_ps_id q = LEGACY_PS_ID
            then upd_txq i (\<lambda>q. q\<lparr>tq_push_limit := 0\<rparr>)
                   (upd_sta st (\<lambda>x. x\<lparr>sp_cnt := (sp_cnt x)(LEGACY_PS_ID := sp_cnt x LEGACY_PS_ID - ucast (tq_push_limit q))\<rparr>) s)
            else s)"

definition flow_restart :: "nat \<Rightarrow> tx_hw \<Rightarrow> tx_hw" where
  "flow_restart i s =
    (let q = txq_of s i
     in if flag_set (tq_status q) RWNX_TXQ_NDEV_FLOW_CTRL \<and> length (tq_sk_list q) < RWNX_NDEV_FLOW_CTRL_RESTART
        then hw_log (if flow_tbusy s then [] else [WakeSubqueue (tq_ndev q) (tq_ndev_idx q)]) (clear_status i RWNX_TXQ_NDEV_FLOW_CTRL s)
        else s)"

definition hwq_round :: "nat \<Rightarrow> nat \<Rightarrow> tx_hw \<Rightarrow> tx_hw" where
  "hwq_round h i s =
    (case rwnx_txq_get_skb_to_push i s of (none_left, fs, s1) \<Rightarrow>
       flow_restart i (end_legacy_sp i (after_push h i none_left (fold rwnx_tx_push fs s1))))"

text \<open>\<^verbatim>\<open>list_for_each_entry_safe\<close> looks up the successor before the body runs.\<close>

fun next_in :: "nat \<Rightarrow> nat list \<Rightarrow> nat option" where
  "next_in i [] = None"
| "next_in i (j # js) = (if i = j then (case js of [] \<Rightarrow> None | k # _ \<Rightarrow> Some k) else next_in i js)"

definition first_of :: "nat list \<Rightarrow> nat option" where
  "first_of l = (case l of [] \<Rightarrow> None | i # _ \<Rightarrow> Some i)"

definition hwq_bug :: "tx_hw \<Rightarrow> nat \<Rightarrow> bool" where
  "hwq_bug s i \<longleftrightarrow> length (txqs s) \<le> i \<or> \<not> rwnx_txq_is_scheduled (txq_of s i)
     \<or> tq_idx (txq_of s i) \<noteq> TXQ_INACTIVE \<and> (sint (tq_credits (txq_of s i)) \<le> 0 \<or> \<not> rwnx_txq_skb_ready (txq_of s i))"


section \<open>What the operations leave alone\<close>

text \<open>Access to updated states.\<close>

lemma upd_txq_sel [simp]:
  "length (txqs (upd_txq i f s)) = length (txqs s)" "hwqs (upd_txq i f s) = hwqs s" "stas (upd_txq i f s) = stas s"
  "old_ic (upd_txq i f s) = old_ic s" "flow_tbusy (upd_txq i f s) = flow_tbusy s" "hw_events (upd_txq i f s) = hw_events s"
  "tx_host_id (upd_txq i f s) = tx_host_id s" "txdesc_free_idx (upd_txq i f s) = txdesc_free_idx s" "usb_is_down (upd_txq i f s) = usb_is_down s"
  "txqs (upd_txq i f s) ! j = (if i = j \<and> i < length (txqs s) then f (txqs s ! i) else txqs s ! j)"
  by (auto simp: upd_txq_def nth_update_if)

lemma upd_hwq_sel [simp]:
  "txqs (upd_hwq h f s) = txqs s" "length (hwqs (upd_hwq h f s)) = length (hwqs s)" "stas (upd_hwq h f s) = stas s"
  "old_ic (upd_hwq h f s) = old_ic s" "flow_tbusy (upd_hwq h f s) = flow_tbusy s" "hw_events (upd_hwq h f s) = hw_events s"
  "tx_host_id (upd_hwq h f s) = tx_host_id s" "txdesc_free_idx (upd_hwq h f s) = txdesc_free_idx s" "usb_is_down (upd_hwq h f s) = usb_is_down s"
  "hwqs (upd_hwq h f s) ! k = (if h = k \<and> h < length (hwqs s) then f (hwqs s ! h) else hwqs s ! k)"
  by (auto simp: upd_hwq_def nth_update_if)

lemma upd_sta_sel [simp]:
  "txqs (upd_sta k f s) = txqs s" "hwqs (upd_sta k f s) = hwqs s" "length (stas (upd_sta k f s)) = length (stas s)"
  "old_ic (upd_sta k f s) = old_ic s" "flow_tbusy (upd_sta k f s) = flow_tbusy s" "hw_events (upd_sta k f s) = hw_events s"
  "tx_host_id (upd_sta k f s) = tx_host_id s" "txdesc_free_idx (upd_sta k f s) = txdesc_free_idx s" "usb_is_down (upd_sta k f s) = usb_is_down s"
  "stas (upd_sta k f s) ! j = (if k = j \<and> k < length (stas s) then f (stas s ! k) else stas s ! j)"
  by (auto simp: upd_sta_def nth_update_if)

lemma hw_log_sel [simp]:
  "txqs (hw_log es s) = txqs s" "hwqs (hw_log es s) = hwqs s" "stas (hw_log es s) = stas s" "old_ic (hw_log es s) = old_ic s"
  "flow_tbusy (hw_log es s) = flow_tbusy s" "tx_host_id (hw_log es s) = tx_host_id s" "txdesc_free_idx (hw_log es s) = txdesc_free_idx s"
  "usb_is_down (hw_log es s) = usb_is_down s" "hw_events (hw_log es s) = hw_events s @ es"
  by (simp_all add: hw_log_def)

text \<open>
  Sending frames touches, of a queue, only the counters: what is linked in it, its state and its place stay.  \<open>same_queues\<close> collects
  that, \<open>qcore\<close> is the part of a queue that stays.
\<close>

definition qcore :: "rwnx_txq \<Rightarrow> rwnx_txq" where
  "qcore q = q\<lparr>tq_pkt_sent := 0, tq_pkt_pushed := 0, tq_last_retry := None, tq_nb_retry := 0, tq_push_limit := 0\<rparr>"

definition same_queues :: "tx_hw \<Rightarrow> tx_hw \<Rightarrow> bool" where
  "same_queues s t \<longleftrightarrow> map qcore (txqs t) = map qcore (txqs s) \<and> hwqs t = hwqs s \<and> old_ic t = old_ic s \<and> flow_tbusy t = flow_tbusy s
     \<and> length (stas t) = length (stas s) \<and> map ps_active (stas t) = map ps_active (stas s) \<and> map s_vif_idx (stas t) = map s_vif_idx (stas s)"

lemma same_queues_refl [simp]: "same_queues s s"
  by (simp add: same_queues_def)

lemma same_queues_trans: "same_queues s t \<Longrightarrow> same_queues t u \<Longrightarrow> same_queues s u"
  by (simp add: same_queues_def)

lemma qcore_eq:
  assumes "qcore q = qcore p"
  shows "tq_idx q = tq_idx p" "tq_status q = tq_status p" "tq_credits q = tq_credits p" "tq_sk_list q = tq_sk_list p" "tq_hwq q = tq_hwq p"
    "tq_sta q = tq_sta p" "tq_ps_id q = tq_ps_id p" "tq_ndev_idx q = tq_ndev_idx p" "tq_ndev q = tq_ndev p"
proof -
  show "tq_idx q = tq_idx p" "tq_status q = tq_status p" "tq_credits q = tq_credits p" "tq_sk_list q = tq_sk_list p" "tq_hwq q = tq_hwq p"
    "tq_sta q = tq_sta p" "tq_ps_id q = tq_ps_id p" "tq_ndev_idx q = tq_ndev_idx p" "tq_ndev q = tq_ndev p"
    using arg_cong [OF assms, of tq_idx] arg_cong [OF assms, of tq_status] arg_cong [OF assms, of tq_credits] arg_cong [OF assms, of tq_sk_list]
      arg_cong [OF assms, of tq_hwq] arg_cong [OF assms, of tq_sta] arg_cong [OF assms, of tq_ps_id] arg_cong [OF assms, of tq_ndev_idx]
      arg_cong [OF assms, of tq_ndev]
    by (simp_all add: qcore_def)
qed

lemma same_queues_nth:
  assumes "same_queues s t" and "i < length (txqs s)"
  shows "qcore (txqs t ! i) = qcore (txqs s ! i)"
proof -
  have m: "map qcore (txqs t) = map qcore (txqs s)" using assms(1) by (simp add: same_queues_def)
  then have "i < length (txqs t)" using assms(2) by (metis length_map)
  with arg_cong [OF m, of "\<lambda>l. l ! i"] assms(2) show ?thesis by simp
qed

lemma same_queues_len: "same_queues s t \<Longrightarrow> length (txqs t) = length (txqs s)"
  unfolding same_queues_def by (metis length_map)

lemma same_queues_upd_txq:
  assumes "\<And>q. qcore (f q) = qcore q"
  shows "same_queues s (upd_txq i f s)"
proof -
  have "map qcore (txqs (upd_txq i f s)) = map qcore (txqs s)"
    by (rule nth_equalityI) (simp_all add: assms)
  then show ?thesis by (simp add: same_queues_def)
qed

lemma same_queues_upd_sta:
  "(\<And>x. ps_active (f x) = ps_active x \<and> s_vif_idx (f x) = s_vif_idx x) \<Longrightarrow> same_queues s (upd_sta k f s)"
  by (cases "k < length (stas s)") (auto simp: same_queues_def upd_sta_def map_update list_update_beyond list_update_same_conv)

lemma same_queues_log [simp]: "same_queues s (hw_log es t) = same_queues s t"
  by (simp add: same_queues_def)

lemma more_data_same: "rwnx_set_more_data_flag st f s = (f', s') \<Longrightarrow> same_queues s s' \<and> f_id f' = f_id f \<and> f_txq f' = f_txq f \<and> f_sta f' = f_sta f"
  by (auto simp: rwnx_set_more_data_flag_def Let_def rwnx_set_traffic_status_def same_queues_upd_sta split: if_splits)

lemma push_to_bus_same: "same_queues s (push_to_bus f s)"
  by (simp add: push_to_bus_def Let_def same_queues_def aicwf_usb_host_txdesc_push_def)

lemma push_same: "same_queues s (rwnx_tx_push f s)"
proof -
  let ?s1 = "upd_txq (f_txq f) push_counts s"
  obtain f1 s2 where f1: "(case f_sta f of None \<Rightarrow> (f\<lparr>f_hw_queue := tq_hwq (txq_of s (f_txq f))\<rparr>, ?s1)
      | Some st \<Rightarrow> rwnx_set_more_data_flag st (f\<lparr>f_hw_queue := tq_hwq (txq_of s (f_txq f))\<rparr>) ?s1) = (f1, s2)"
    by fastforce
  have 1: "same_queues s ?s1" by (rule same_queues_upd_txq) (simp add: push_counts_def qcore_def)
  have 2: "same_queues ?s1 s2" using f1 more_data_same by (fastforce split: option.splits)
  let ?s3 = "upd_txq (f_txq f) (\<lambda>q. q\<lparr>tq_pkt_pushed := tq_pkt_pushed q + 1,
      tq_push_limit := if tq_push_limit q = 0 then 0 else tq_push_limit q - 1\<rparr>) s2"
  have 3: "same_queues s2 ?s3" by (rule same_queues_upd_txq) (simp add: qcore_def)
  have "rwnx_tx_push f s = push_to_bus f1 ?s3" by (simp add: rwnx_tx_push_def Let_def f1)
  moreover have "same_queues s ?s3" by (rule same_queues_trans [OF same_queues_trans [OF 1 2] 3])
  ultimately show ?thesis by (simp add: same_queues_trans [OF _ push_to_bus_same])
qed

lemma pushes_same: "same_queues s (fold rwnx_tx_push fs s)"
  by (induction fs arbitrary: s) (auto intro: same_queues_trans push_same)


lemma status_sel [simp]:
  "txqs (set_status i m s) ! j = (if i = j \<and> i < length (txqs s) then (txqs s ! i)\<lparr>tq_status := flag_add (tq_status (txqs s ! i)) m\<rparr> else txqs s ! j)"
  "txqs (clear_status i m s) ! j = (if i = j \<and> i < length (txqs s) then (txqs s ! i)\<lparr>tq_status := flag_clear (tq_status (txqs s ! i)) m\<rparr> else txqs s ! j)"
  "length (txqs (set_status i m s)) = length (txqs s)" "length (txqs (clear_status i m s)) = length (txqs s)"
  "hwqs (set_status i m s) = hwqs s" "hwqs (clear_status i m s) = hwqs s" "stas (set_status i m s) = stas s" "stas (clear_status i m s) = stas s"
  "old_ic (set_status i m s) = old_ic s" "old_ic (clear_status i m s) = old_ic s"
  "flow_tbusy (set_status i m s) = flow_tbusy s" "flow_tbusy (clear_status i m s) = flow_tbusy s"
  "hw_events (set_status i m s) = hw_events s" "hw_events (clear_status i m s) = hw_events s"
  "tx_host_id (set_status i m s) = tx_host_id s" "tx_host_id (clear_status i m s) = tx_host_id s"
  by (simp_all add: set_status_def clear_status_def)

text \<open>How much there is to do: frames linked, and queues marked as scheduled.\<close>

definition backlog :: "tx_hw \<Rightarrow> nat" where
  "backlog s = sum_list (map (\<lambda>q. length (tq_sk_list q) + of_bool (rwnx_txq_is_scheduled q)) (txqs s))"

lemma backlog_upd:
  assumes "i < length (txqs s)"
  shows "backlog (upd_txq i f s) + (length (tq_sk_list (txqs s ! i)) + of_bool (rwnx_txq_is_scheduled (txqs s ! i)))
       = backlog s + (length (tq_sk_list (f (txqs s ! i))) + of_bool (rwnx_txq_is_scheduled (f (txqs s ! i))))"
proof -
  let ?w = "\<lambda>q. length (tq_sk_list q) + of_bool (rwnx_txq_is_scheduled q)"
  have "?w (txqs s ! i) \<le> sum_list (map ?w (txqs s))" using assms by (intro member_le_sum_list) auto
  then show ?thesis
    using assms sum_list_update [of i "map ?w (txqs s)" "?w (f (txqs s ! i))"] by (simp add: backlog_def upd_txq_def map_update)
qed

lemma backlog_same: "same_queues s t \<Longrightarrow> backlog t = backlog s"
proof -
  assume a: "same_queues s t"
  have "map (\<lambda>q. length (tq_sk_list q) + of_bool (rwnx_txq_is_scheduled q)) (txqs t)
      = map (\<lambda>q. length (tq_sk_list q) + of_bool (rwnx_txq_is_scheduled q)) (txqs s)"
    using same_queues_len [OF a] qcore_eq(2,4) [OF same_queues_nth [OF a]]
    by (intro nth_equalityI) (simp_all add: rwnx_txq_is_scheduled_def)
  then show ?thesis by (simp add: backlog_def)
qed

lemma backlog_cong: "txqs s = txqs t \<Longrightarrow> backlog s = backlog t"
  by (simp add: backlog_def)

lemma backlog_upd_le:
  assumes "\<And>q. length (tq_sk_list (f q)) = length (tq_sk_list q)" "\<And>q. rwnx_txq_is_scheduled (f q) \<Longrightarrow> rwnx_txq_is_scheduled q"
  shows "backlog (upd_txq i f s) \<le> backlog s"
proof (cases "i < length (txqs s)")
  case True
  have "of_bool (rwnx_txq_is_scheduled (f (txqs s ! i))) \<le> (of_bool (rwnx_txq_is_scheduled (txqs s ! i)) :: nat)"
    using assms(2) [of "txqs s ! i"] by auto
  with backlog_upd [OF True, of f] assms(1) [of "txqs s ! i"] show ?thesis by linarith
next
  case False
  then show ?thesis by (simp add: backlog_def upd_txq_def list_update_beyond)
qed

lemma scheduled_clear: "rwnx_txq_is_scheduled (q\<lparr>tq_status := flag_clear (tq_status q) m\<rparr>) \<Longrightarrow> rwnx_txq_is_scheduled q"
  by (auto simp: rwnx_txq_is_scheduled_def flag_set_def flag_clear_def) (auto simp: bit_eq_iff bit_simps)

lemma del_backlog_le: "backlog (rwnx_txq_del_from_hw_list i s) \<le> backlog s"
proof -
  have "backlog (clear_status i RWNX_TXQ_IN_HWQ_LIST s) \<le> backlog s"
    unfolding clear_status_def by (rule backlog_upd_le) (simp_all add: scheduled_clear)
  then show ?thesis
    using backlog_cong [of "(clear_status i RWNX_TXQ_IN_HWQ_LIST s)\<lparr>hwqs := map (\<lambda>h. h\<lparr>hq_list := remove1 i (hq_list h)\<rparr>) (hwqs s)\<rparr>"
        "clear_status i RWNX_TXQ_IN_HWQ_LIST s"]
    by (simp add: rwnx_txq_del_from_hw_list_def)
qed

lemma after_push_backlog_le: "backlog (after_push h i e s) \<le> backlog s"
proof -
  have u: "backlog (upd_txq i (\<lambda>q. q\<lparr>tq_pkt_sent := 0\<rparr>) t) \<le> backlog t" for t
    by (rule backlog_upd_le) (simp_all add: rwnx_txq_is_scheduled_def)
  have "backlog (upd_hwq h f t) = backlog t" for f t by (rule backlog_cong) simp
  then show ?thesis
    using order_trans [OF u del_backlog_le] u [of s] by (simp add: after_push_def)
qed

lemma end_sp_same: "same_queues s (end_legacy_sp i s)"
proof -
  have "same_queues s (upd_txq i (\<lambda>q. q\<lparr>tq_push_limit := 0\<rparr>) (upd_sta st (\<lambda>x. x\<lparr>sp_cnt := f x\<rparr>) s))" for st f
    by (rule same_queues_trans [OF same_queues_upd_sta same_queues_upd_txq]) (simp_all add: qcore_def)
  then show ?thesis by (simp add: end_legacy_sp_def Let_def split: option.splits)
qed

lemma restart_backlog_le: "backlog (flow_restart i s) \<le> backlog s"
proof -
  have "backlog (clear_status i RWNX_TXQ_NDEV_FLOW_CTRL s) \<le> backlog s"
    unfolding clear_status_def by (rule backlog_upd_le) (simp_all add: scheduled_clear)
  moreover have "backlog (hw_log es t) = backlog t" for es t by (rule backlog_cong) simp
  ultimately show ?thesis by (simp add: flow_restart_def Let_def)
qed

lemma credits_pos: "0 < sint (tq_credits q) \<Longrightarrow> 0 < rwnx_txq_get_credits q"
  by (auto simp: rwnx_txq_get_credits_def word_gt_0 word_less_def uint_0_iff order.not_eq_order_implies_strict)

lemma round_shrinks:
  assumes "\<not> hwq_bug s i" and "tq_idx (txq_of s i) \<noteq> TXQ_INACTIVE"
  shows "backlog (hwq_round h i s) < backlog s"
proof -
  let ?q = "txq_of s i"
  have i: "i < length (txqs s)" "0 < sint (tq_credits ?q)" "tq_sk_list ?q \<noteq> []"
    using assms by (auto simp: hwq_bug_def rwnx_txq_skb_ready_def)
  obtain e fs s1 where g: "rwnx_txq_get_skb_to_push i s = (e, fs, s1)" by (metis surj_pair)
  have pos: "0 < length (tq_sk_list ?q)" using i(3) by simp
  have "backlog s1 < backlog s"
  proof (cases "int (length (tq_sk_list ?q)) \<le> rwnx_txq_get_credits ?q")
    case True
    with g have s1: "s1 = upd_txq i (\<lambda>q. q\<lparr>tq_sk_list := []\<rparr>) s" by (simp add: rwnx_txq_get_skb_to_push_def Let_def)
    show ?thesis using backlog_upd [OF i(1), of "\<lambda>q. q\<lparr>tq_sk_list := []\<rparr>"] pos unfolding s1 by (simp add: rwnx_txq_is_scheduled_def del: length_greater_0_conv)
  next
    case False
    let ?f = "\<lambda>q. q\<lparr>tq_sk_list := drop (nat (rwnx_txq_get_credits ?q)) (tq_sk_list q)\<rparr>"
    from False g have s1: "s1 = upd_txq i ?f s" by (simp add: rwnx_txq_get_skb_to_push_def Let_def)
    show ?thesis using backlog_upd [OF i(1), of ?f] pos credits_pos [OF i(2)] unfolding s1
      by (simp add: rwnx_txq_is_scheduled_def del: length_greater_0_conv)
  qed
  moreover have "backlog (after_push h i e (fold rwnx_tx_push fs s1)) \<le> backlog s1"
    using after_push_backlog_le backlog_same [OF pushes_same] by metis
  moreover have "backlog (hwq_round h i s) \<le> backlog (after_push h i e (fold rwnx_tx_push fs s1))"
    using restart_backlog_le [of i "end_legacy_sp i (after_push h i e (fold rwnx_tx_push fs s1))"]
    by (simp add: hwq_round_def g backlog_same [OF end_sp_same])
  ultimately show ?thesis by linarith
qed

lemma drop_inactive_shrinks:
  assumes "\<not> hwq_bug s i"
  shows "backlog (rwnx_txq_flush i (rwnx_txq_del_from_hw_list i s)) < backlog s"
proof -
  have i: "i < length (txqs s)" "rwnx_txq_is_scheduled (txq_of s i)" using assms by (auto simp: hwq_bug_def)
  let ?d = "rwnx_txq_del_from_hw_list i s"
  have "backlog ?d < backlog s"
  proof -
    have "backlog ?d = backlog (clear_status i RWNX_TXQ_IN_HWQ_LIST s)"
      using i(2) by (intro backlog_cong) (simp add: rwnx_txq_del_from_hw_list_def)
    also have "\<dots> < backlog s"
      using i backlog_upd [OF i(1), of "\<lambda>q. q\<lparr>tq_status := flag_clear (tq_status q) RWNX_TXQ_IN_HWQ_LIST\<rparr>"]
      by (simp add: clear_status_def rwnx_txq_is_scheduled_def flag_simps)
    finally show ?thesis .
  qed
  moreover have "backlog (rwnx_txq_flush i ?d) \<le> backlog ?d"
  proof -
    have len: "length (txqs ?d) = length (txqs s)" by (simp add: rwnx_txq_del_from_hw_list_def)
    have "backlog (rwnx_txq_flush i ?d) = backlog (upd_txq i (\<lambda>q. q\<lparr>tq_sk_list := []\<rparr>) ?d)"
      by (rule backlog_cong) (simp add: rwnx_txq_flush_def upd_txq_def)
    with backlog_upd [of i ?d "\<lambda>q. q\<lparr>tq_sk_list := []\<rparr>"] i(1) len show ?thesis by (simp add: rwnx_txq_is_scheduled_def)
  qed
  ultimately show ?thesis by linarith
qed

text \<open>
  The loop of \<^verbatim>\<open>rwnx_hwq_process\<close>: each round pushes a frame or takes a queue off the list, so it ends although the list may be
  rotated under it.
\<close>

function hwq_loop :: "nat \<Rightarrow> nat option \<Rightarrow> tx_hw \<Rightarrow> tx_hw option" where
  "hwq_loop h None s = Some s"
| "hwq_loop h (Some i) s =
    (let n = next_in i (hq_list (hwqs s ! h))
     in if hwq_bug s i then None
        else if tq_idx (txq_of s i) = TXQ_INACTIVE then hwq_loop h n (rwnx_txq_flush i (rwnx_txq_del_from_hw_list i s))
        else hwq_loop h n (hwq_round h i s))"
  by pat_completeness auto
termination
  by (relation "measure (\<lambda>(_, _, s). backlog s)") (auto simp: round_shrinks drop_inactive_shrinks)

declare hwq_loop.simps(2) [simp del]

definition rwnx_hwq_process :: "nat \<Rightarrow> tx_hw \<Rightarrow> tx_hw option" where
  "rwnx_hwq_process h s =
    (let s1 = upd_hwq h (\<lambda>x. x\<lparr>hq_need := False\<rparr>) s
     in hwq_loop h (first_of (hq_list (hwqs s1 ! h))) s1)"

fun hwq_process_list :: "nat list \<Rightarrow> tx_hw \<Rightarrow> tx_hw option" where
  "hwq_process_list [] s = Some s"
| "hwq_process_list (h # hs) s =
    (if hq_need (hwqs s ! h) then do { t \<leftarrow> rwnx_hwq_process h s; hwq_process_list hs t } else hwq_process_list hs s)"

definition rwnx_hwq_process_all :: "tx_hw \<Rightarrow> tx_hw option" where
  "rwnx_hwq_process_all s = hwq_process_list (rev [0..<length (hwqs s)]) s"

text \<open>The end of \<^verbatim>\<open>rwnx_start_xmit\<close> and of the other senders, under \<^verbatim>\<open>tx_lock\<close>.\<close>

definition xmit_queue :: "tx_frame \<Rightarrow> nat \<Rightarrow> tx_hw \<Rightarrow> tx_hw option" where
  "xmit_queue f i s = do {
     (added, s1) \<leftarrow> rwnx_txq_queue_skb f i False s;
     if added then rwnx_hwq_process (tq_hwq (txq_of s1 i)) s1 else Some s1 }"

end
