(* ===== verification/Txq_Run.thy ===== *)
theory Txq_Run
  imports Txq
begin

text \<open>
  Power save, confirmations and credits of the transmit queues (\<^verbatim>\<open>rwnx_tx.c\<close>, \<^verbatim>\<open>usb_host.c\<close>).
\<close>

section \<open>Power save\<close>

definition add_lengths :: "tx_hw \<Rightarrow> nat list \<Rightarrow> nat \<Rightarrow> u16" where
  "add_lengths s is k = sum_list (map (\<lambda>i. if tq_ps_id (txq_of s i) = k then word_of_nat (length (tq_sk_list (txq_of s i))) else 0) is)"

definition zero_push_limit :: "nat \<Rightarrow> tx_hw \<Rightarrow> tx_hw" where
  "zero_push_limit i = upd_txq i (\<lambda>q. q\<lparr>tq_push_limit := 0\<rparr>)"

definition rwnx_ps_bh_enable :: "nat \<Rightarrow> bool \<Rightarrow> tx_hw \<Rightarrow> tx_hw" where
  "rwnx_ps_bh_enable st enable s =
    (if enable then
       (let s1 = rwnx_txq_sta_stop RWNX_TXQ_STOP_STA_PS st (upd_sta st (\<lambda>x. x\<lparr>ps_active := True, sp_cnt := \<lambda>_. 0\<rparr>) s)
        in if is_multicast_sta s st
           then upd_sta st (\<lambda>x. x\<lparr>pkt_ready := (\<lambda>_. 0)(LEGACY_PS_ID := word_of_nat (length (tq_sk_list (txq_of s1 (rwnx_txq_sta_get s st 0)))))\<rparr>) s1
           else upd_sta st (\<lambda>x. x\<lparr>pkt_ready := \<lambda>k. add_lengths s1 (sta_txqs s st) k\<rparr>) s1)
     else
       (let s1 = upd_sta st (\<lambda>x. x\<lparr>ps_active := False\<rparr>) s;
            s2 = (if is_multicast_sta s st then upd_txq (rwnx_txq_sta_get s st 0) (\<lambda>q. q\<lparr>tq_hwq := RWNX_HWQ_BE\<rparr>) s1 else s1);
            s3 = rwnx_txq_sta_start RWNX_TXQ_STOP_STA_PS st (fold zero_push_limit (sta_txqs s st) s2);
            s4 = (if pkt_ready (stas s ! st) LEGACY_PS_ID \<noteq> 0 then rwnx_set_traffic_status st False LEGACY_PS_ID s3 else s3)
        in hw_log [TaskletSchedule] s4))"

text \<open>Giving one queue its share of the service period and scheduling it although it is stopped.\<close>

definition serve :: "nat \<Rightarrow> nat \<Rightarrow> u16 \<Rightarrow> nat \<Rightarrow> tx_hw \<Rightarrow> tx_hw" where
  "serve st k n i s =
     rwnx_txq_add_to_hw_list i (upd_txq i (\<lambda>q. q\<lparr>tq_push_limit := ucast n\<rparr>)
       (upd_sta st (\<lambda>x. x\<lparr>sp_cnt := (sp_cnt x)(k := sp_cnt x k + n)\<rparr>) s))"

definition cap_credits :: "u16 \<Rightarrow> rwnx_txq \<Rightarrow> u16" where
  "cap_credits n q = (if sint (tq_credits q) < int (unat n) then word_of_int (sint (tq_credits q)) else n)"

fun ps_dispatch :: "nat \<Rightarrow> nat \<Rightarrow> u16 \<Rightarrow> nat list \<Rightarrow> tx_hw \<Rightarrow> tx_hw" where
  "ps_dispatch st k req [] s = s"
| "ps_dispatch st k req (tid # tids) s =
    (let i = rwnx_txq_sta_get s st tid;
         q = txq_of s i;
         n = cap_credits (word_of_nat (length (tq_sk_list q))) q
     in if tq_ps_id q \<noteq> k \<or> n = 0 then ps_dispatch st k req tids s
        else if n < req then ps_dispatch st k (req - n) tids (serve st k n i s)
        else serve st k req i s)"

definition rwnx_ps_bh_traffic_req :: "nat \<Rightarrow> u16 \<Rightarrow> nat \<Rightarrow> tx_hw \<Rightarrow> tx_hw" where
  "rwnx_ps_bh_traffic_req st pkt_req k s =
    (let x = stas s ! st; ready_all = int (unat (pkt_ready x k)) - int (unat (sp_cnt x k))
     in if \<not> ps_active x then s
        else if pkt_req = PS_SP_INTERRUPTED \<and> k = UAPSD_ID
        then fold zero_push_limit (sta_txqs s st) (upd_sta st (\<lambda>x. x\<lparr>sp_cnt := (sp_cnt x)(k := 0)\<rparr>) s)
        else if sp_cnt x k \<noteq> 0 \<or> ready_all \<le> 0 then s
        else (let req = (if pkt_req = 0 \<or> ready_all < int (unat pkt_req) then word_of_int ready_all else pkt_req)
              in hw_log [TaskletSchedule]
                   (if is_multicast_sta s st
                    then (let i = rwnx_txq_sta_get s st 0 in serve st k (cap_credits req (txq_of s i)) i s)
                    else ps_dispatch st k req nx_tid_prio s)))"

section \<open>Confirmations and credits\<close>

definition rwnx_txq_confirm_any :: "tx_frame \<Rightarrow> tx_hw \<Rightarrow> tx_hw" where
  "rwnx_txq_confirm_any f s =
     upd_hwq (f_hw_queue f) (\<lambda>h. h\<lparr>hq_need := True\<rparr>)
       (upd_txq (f_txq f) (\<lambda>q. q\<lparr>tq_pkt_pushed := if tq_pkt_pushed q = 0 then 0 else tq_pkt_pushed q - 1\<rparr>) s)"

definition rwnx_tx_retry :: "tx_frame \<Rightarrow> bool \<Rightarrow> tx_hw \<Rightarrow> tx_hw option" where
  "rwnx_tx_retry f sw_retry s =
    (let i = f_txq f;
         fl = (if sw_retry then f_flags f else flag_add (f_flags f) TXU_CNTRL_RETRY);
         f1 = f\<lparr>f_flags := flag_clear fl TXU_CNTRL_MORE_DATA\<rparr>;
         s1 = upd_txq i (\<lambda>q. q\<lparr>tq_credits := tq_credits q + 1\<rparr>) s;
         s2 = (if 0 < sint (tq_credits (txq_of s1 i)) then rwnx_txq_start i RWNX_TXQ_STOP_FULL s1 else s1)
     in map_option snd (rwnx_txq_queue_skb f1 i True s2))"

text \<open>The bits of \<^verbatim>\<open>union rwnx_hw_txstatus\<close>.\<close>

abbreviation retry_required :: "u32 \<Rightarrow> bool" where "retry_required v \<equiv> bit v 1"
abbreviation sw_retry_required :: "u32 \<Rightarrow> bool" where "sw_retry_required v \<equiv> bit v 2"
abbreviation acknowledged :: "u32 \<Rightarrow> bool" where "acknowledged v \<equiv> bit v 3"

definition rwnx_txdatacfm :: "tx_frame \<Rightarrow> u32 \<Rightarrow> tx_hw \<Rightarrow> (int \<times> tx_hw) option" where
  "rwnx_txdatacfm f v s =
    (if v = 0 then Some (-1, s)
     else if usb_is_down s then Some (0, hw_log [FreeFrame (f_id f)] s)
     else (let s1 = rwnx_txq_confirm_any f s;
               i = f_txq f;
               mgmt = flag_set (f_flags f) TXU_CNTRL_MGMT;
               active = (tq_idx (txq_of s1 i) \<noteq> TXQ_INACTIVE)
           in if \<not> mgmt \<and> active \<and> (retry_required v \<or> sw_retry_required v)
              then map_option (Pair 0) (rwnx_tx_retry f (sw_retry_required v) s1)
              else (let s2 = (if mgmt then hw_log [MgmtStatus (f_id f) (acknowledged v)] s1 else s1);
                        q = txq_of s2 i;
                        s3 = (if active \<and> tq_push_limit q \<noteq> 0 \<and> \<not> rwnx_txq_is_full q then rwnx_txq_add_to_hw_list i s2 else s2)
                    in Some (0, hw_log [FreeFrame (f_id f)] s3))))"

text \<open>A confirmation names the slot of the frame; a refused one (status 0) puts the frame back.\<close>

definition aicwf_usb_host_tx_cfm_handler :: "u32 \<Rightarrow> u32 \<Rightarrow> tx_hw \<Rightarrow> tx_hw option" where
  "aicwf_usb_host_tx_cfm_handler status used_idx s =
    (let slot = unat used_idx mod USB_TXDESC_CNT
     in case tx_host_id s ! slot of
          None \<Rightarrow> Some (s\<lparr>txdesc_used_idx := used_idx\<rparr>)
        | Some f \<Rightarrow> do {
            (ret, s1) \<leftarrow> rwnx_txdatacfm f status (s\<lparr>tx_host_id := (tx_host_id s)[slot := None]\<rparr>);
            Some (if ret \<noteq> 0 then s1\<lparr>txdesc_used_idx := used_idx, tx_host_id := (tx_host_id s1)[slot := Some f]\<rparr> else s1) })"

definition rwnx_txq_credit_update :: "nat \<Rightarrow> nat \<Rightarrow> tx_hw \<Rightarrow> tx_hw" where
  "rwnx_txq_credit_update st tid s =
    (let i = rwnx_txq_sta_get s st tid
     in if tq_idx (txq_of s i) = TXQ_INACTIVE then s
        else if sint (tq_credits (txq_of s i)) \<le> 0 then rwnx_txq_stop i RWNX_TXQ_STOP_FULL s
        else rwnx_txq_start i RWNX_TXQ_STOP_FULL s)"

end
