(* ===== verification/Txq_Inv.thy ===== *)
theory Txq_Inv
  imports Txq_Run
begin

text \<open>The invariant of the transmit queues and what the operations on one queue or one station do to its parts.\<close>

section \<open>The invariant\<close>

definition owner :: "tx_hw \<Rightarrow> nat \<Rightarrow> nat option" where
  "owner s i = (if i < first_vif_txq_idx s then Some (i div NX_NB_TXQ_PER_STA)
     else if i < first_vif_txq_idx s + NX_VIRT_DEV_MAX then Some (remote_sta_max s + (i - first_vif_txq_idx s)) else None)"

definition txq_static :: "tx_hw \<Rightarrow> bool" where
  "txq_static s \<longleftrightarrow> length (txqs s) = 297 \<and> length (hwqs s) = 4 \<and> length (stas s) = remote_sta_max s + NX_VIRT_DEV_MAX
     \<and> (\<forall>v < NX_VIRT_DEV_MAX. s_vif_idx (stas s ! (remote_sta_max s + v)) = v)"

abbreviation txq_active :: "rwnx_txq \<Rightarrow> bool" where "txq_active q \<equiv> tq_idx q \<noteq> TXQ_INACTIVE"

text \<open>A queue is in the list of its hardware queue exactly when it is marked as scheduled.\<close>

definition sched_ok :: "tx_hw \<Rightarrow> bool" where
  "sched_ok s \<longleftrightarrow> (\<forall>h < length (hwqs s). distinct (hq_list (hwqs s ! h))
     \<and> (\<forall>i. i \<in> set (hq_list (hwqs s ! h)) \<longleftrightarrow> i < length (txqs s) \<and> rwnx_txq_is_scheduled (txqs s ! i) \<and> tq_hwq (txqs s ! i) = h))"

text \<open>The frames to be retried are the first \<^verbatim>\<open>nb_retry\<close> ones, \<^verbatim>\<open>last_retry_skb\<close> is the last of them.\<close>

definition retry_ok :: "rwnx_txq \<Rightarrow> bool" where
  "retry_ok q \<longleftrightarrow> 0 \<le> tq_nb_retry q \<and> nat (tq_nb_retry q) \<le> length (tq_sk_list q)
     \<and> (if tq_nb_retry q = 0 then tq_last_retry q = None
        else (let r = take (nat (tq_nb_retry q)) (tq_sk_list q)
              in tq_last_retry q = Some (f_id (last r)) \<and> f_id (last r) \<notin> f_id ` set (butlast r)))"

definition ps_stopped :: "rwnx_txq \<Rightarrow> bool" where
  "ps_stopped q \<longleftrightarrow> flag_set (tq_status q) RWNX_TXQ_STOP_STA_PS"

definition qbase :: "tx_hw \<Rightarrow> nat \<Rightarrow> rwnx_txq \<Rightarrow> bool" where
  "qbase s i q \<longleftrightarrow> tq_hwq q < 4 \<and> (\<forall>f \<in> set (tq_sk_list q). f_txq f = i \<and> f_sta f = owner s i)
     \<and> (tq_sta q = None \<or> tq_sta q = owner s i)
     \<and> (first_vif_txq_idx s \<le> i \<longrightarrow> tq_ps_id q = LEGACY_PS_ID)
     \<and> (txq_active q \<longrightarrow>
         0 < sint (tq_credits q) \<and> tq_sta q = owner s i \<and> retry_ok q \<and> unat (tq_push_limit q) \<le> length (tq_sk_list q)
         \<and> (rwnx_txq_is_scheduled q \<longrightarrow> tq_sk_list q \<noteq> [])
         \<and> (\<not> rwnx_txq_is_stopped q \<and> tq_sk_list q \<noteq> [] \<longrightarrow> rwnx_txq_is_scheduled q)
         \<and> (tq_push_limit q \<noteq> 0 \<longrightarrow> ps_stopped q)
         \<and> (first_vif_txq_idx s \<le> i \<and> owner s i \<noteq> None \<longrightarrow> tq_hwq q = RWNX_HWQ_BE))"

text \<open>The queues of a station in power-save mode are stopped; for a broadcast station the number of waiting frames is known.\<close>

definition qps :: "tx_hw \<Rightarrow> nat \<Rightarrow> rwnx_txq \<Rightarrow> bool" where
  "qps s i q \<longleftrightarrow> (\<forall>st. txq_active q \<and> owner s i = Some st \<and> ps_active (stas s ! st) \<longrightarrow>
     ps_stopped q \<and> (is_multicast_sta s st \<longrightarrow> pkt_ready (stas s ! st) LEGACY_PS_ID = word_of_nat (length (tq_sk_list q))))"

definition table_ok :: "tx_hw \<Rightarrow> bool" where
  "table_ok s \<longleftrightarrow> length (tx_host_id s) = USB_TXDESC_CNT
     \<and> (\<forall>f. Some f \<in> set (tx_host_id s) \<longrightarrow> f_txq f < 297 \<and> f_sta f = owner s (f_txq f) \<and> f_hw_queue f < 4)"

definition sta_ok :: "tx_hw \<Rightarrow> bool" where
  "sta_ok s \<longleftrightarrow> (\<forall>st < length (stas s). is_multicast_sta s st \<and> ps_active (stas s ! st) \<longrightarrow> pkt_ready (stas s ! st) UAPSD_ID = 0)"

definition txq_base :: "tx_hw \<Rightarrow> bool" where
  "txq_base s \<longleftrightarrow> txq_static s \<and> sched_ok s \<and> table_ok s \<and> (\<forall>i < 297. qbase s i (txqs s ! i))"

definition ps_ok :: "nat set \<Rightarrow> tx_hw \<Rightarrow> bool" where
  "ps_ok X s \<longleftrightarrow> (\<forall>i < 297. i \<notin> X \<longrightarrow> qps s i (txqs s ! i))"

definition txq_inv :: "tx_hw \<Rightarrow> bool" where
  "txq_inv s \<longleftrightarrow> txq_base s \<and> ps_ok {} s \<and> sta_ok s"

section \<open>Ownership\<close>

lemmas txq_nums = NX_NB_TXQ_PER_STA_def NX_NB_TID_PER_STA_def NX_VIRT_DEV_MAX_def

lemma layout_cong:
  assumes "old_ic t = old_ic s"
  shows "remote_sta_max t = remote_sta_max s" "first_vif_txq_idx t = first_vif_txq_idx s" "owner t i = owner s i" "is_multicast_sta t st = is_multicast_sta s st"
  using assms by (simp_all add: remote_sta_max_def first_vif_txq_idx_def owner_def is_multicast_sta_def)

lemma sta_txqs_owner:
  assumes "txq_static s" and "st < length (stas s)"
  shows "set (sta_txqs s st) = {i. i < 297 \<and> owner s i = Some st}" and "distinct (sta_txqs s st)"
proof -
  show "distinct (sta_txqs s st)" by (auto simp: sta_txqs_def distinct_map inj_on_def)
  show "set (sta_txqs s st) = {i. i < 297 \<and> owner s i = Some st}"
  proof (cases "is_multicast_sta s st")
    case True
    define v where "v = st - remote_sta_max s"
    have v: "st = remote_sta_max s + v" "v < 4" using True assms by (auto simp: v_def is_multicast_sta_def txq_static_def txq_nums)
    then have "s_vif_idx (stas s ! st) = v" using assms(1) by (simp add: txq_static_def txq_nums)
    with True v show ?thesis
      by (auto simp: sta_txqs_def rwnx_txq_sta_get_def rwnx_txq_sta_idx_def owner_def txq_nums first_vif_txq_idx_def remote_sta_max_def
          is_multicast_sta_def split: if_splits)
  next
    case False
    have "i \<in> set (sta_txqs s st) \<longleftrightarrow> st * 9 \<le> i \<and> i < 9 + st * 9" for i
      using False by (auto simp: sta_txqs_def rwnx_txq_sta_get_def rwnx_txq_sta_idx_def txq_nums)
    moreover have "st * 9 \<le> i \<and> i < 9 + st * 9 \<longleftrightarrow> i div 9 = st" for i :: nat
      using div_nat_eqI [of 9 st i] times_div_less_eq_dividend [of 9 i] dividend_less_div_times [of 9 i] by auto
    moreover have "i div 9 = st \<longleftrightarrow> i < 297 \<and> owner s i = Some st" for i
      using False by (auto simp: owner_def first_vif_txq_idx_def is_multicast_sta_def remote_sta_max_def txq_nums split: if_splits)
    ultimately show ?thesis by blast
  qed
qed

lemma owner_lt: "txq_static s \<Longrightarrow> owner s i = Some st \<Longrightarrow> st < length (stas s)"
  by (auto simp: owner_def txq_static_def txq_nums first_vif_txq_idx_def split: if_splits)

lemma owner_multicast:
  assumes "owner s i = Some st"
  shows "is_multicast_sta s st \<longleftrightarrow> first_vif_txq_idx s \<le> i"
  using assms by (auto simp: owner_def is_multicast_sta_def txq_nums first_vif_txq_idx_def split: if_splits)

lemma sta_get_lt:
  assumes "txq_static s" and "st < length (stas s)"
  shows "rwnx_txq_sta_get s st tid < 297" and "owner s (rwnx_txq_sta_get s st tid) = Some st"
proof -
  have "rwnx_txq_sta_get s st tid \<in> set (sta_txqs s st)"
    by (auto simp: sta_txqs_def rwnx_txq_sta_get_def rwnx_txq_sta_idx_def txq_nums)
  then show "rwnx_txq_sta_get s st tid < 297" "owner s (rwnx_txq_sta_get s st tid) = Some st"
    using sta_txqs_owner(1) [OF assms] by auto
qed


section \<open>One queue at a time\<close>

lemma qbase_cong: "old_ic t = old_ic s \<Longrightarrow> qbase t i q = qbase s i q"
  by (simp add: qbase_def layout_cong [of t s])

lemma parts_cong:
  assumes "txqs t = txqs s" "map hq_list (hwqs t) = map hq_list (hwqs s)" "old_ic t = old_ic s"
    "map s_vif_idx (stas t) = map s_vif_idx (stas s)"
  shows "sched_ok t = sched_ok s" "txq_static t = txq_static s"
proof -
  have l: "length (hwqs t) = length (hwqs s)" "length (stas t) = length (stas s)"
    using arg_cong [OF assms(2), of length] arg_cong [OF assms(4), of length] by simp_all
  have "hq_list (hwqs t ! h) = hq_list (hwqs s ! h)" if "h < length (hwqs s)" for h
    using arg_cong [OF assms(2), of "\<lambda>l. l ! h"] that l(1) by simp
  then show "sched_ok t = sched_ok s" unfolding sched_ok_def l(1) assms(1) by (intro all_cong) simp
  have "s_vif_idx (stas t ! k) = s_vif_idx (stas s ! k)" if "k < length (stas s)" for k
    using arg_cong [OF assms(4), of "\<lambda>l. l ! k"] that l(2) by simp
  then have "(\<forall>v < NX_VIRT_DEV_MAX. s_vif_idx (stas t ! (remote_sta_max s + v)) = v) = (\<forall>v < NX_VIRT_DEV_MAX. s_vif_idx (stas s ! (remote_sta_max s + v)) = v)"
    if "length (stas s) = remote_sta_max s + NX_VIRT_DEV_MAX"
    using that by (intro all_cong) simp
  then show "txq_static t = txq_static s"
    unfolding txq_static_def l assms(1) layout_cong(1) [OF assms(3)] by blast
qed

lemma base_cong:
  assumes "txqs t = txqs s" "map hq_list (hwqs t) = map hq_list (hwqs s)" "old_ic t = old_ic s" "tx_host_id t = tx_host_id s"
    "map s_vif_idx (stas t) = map s_vif_idx (stas s)"
  shows "txq_base t = txq_base s"
  using parts_cong [OF assms(1-3,5)]
  by (simp add: txq_base_def table_ok_def assms(1,4) layout_cong(3) [OF assms(3)] qbase_cong [OF assms(3)])

lemma baseD:
  assumes "txq_base s"
  shows "length (txqs s) = 297" "length (hwqs s) = 4" "txq_static s" "sched_ok s" "table_ok s" "i < 297 \<Longrightarrow> qbase s i (txqs s ! i)"
  using assms by (auto simp: txq_base_def txq_static_def)

text \<open>Within an operation the queue it works on may be out of order.\<close>

definition base_but :: "nat \<Rightarrow> tx_hw \<Rightarrow> bool" where
  "base_but i s \<longleftrightarrow> txq_static s \<and> sched_ok s \<and> table_ok s \<and> i < 297 \<and> tq_hwq (txqs s ! i) < 4 \<and> (\<forall>j < 297. j \<noteq> i \<longrightarrow> qbase s j (txqs s ! j))"

lemma base_butI: "txq_base s \<Longrightarrow> i < 297 \<Longrightarrow> base_but i s"
  by (auto simp: base_but_def txq_base_def qbase_def)

lemma base_but_close: "base_but i s \<Longrightarrow> qbase s i (txqs s ! i) \<Longrightarrow> txq_base s"
  unfolding base_but_def txq_base_def by metis

lemma butD:
  assumes "base_but i s"
  shows "length (txqs s) = 297" "length (hwqs s) = 4" "i < 297" "tq_hwq (txqs s ! i) < 4" "sched_ok s"
  using assms by (auto simp: base_but_def txq_static_def)

lemma but_cong:
  assumes "base_but i s" and "sched_ok t" and "length (txqs t) = length (txqs s)" "length (hwqs t) = length (hwqs s)" "old_ic t = old_ic s" "stas t = stas s"
    "tx_host_id t = tx_host_id s" "\<And>j. j < 297 \<Longrightarrow> j \<noteq> i \<Longrightarrow> txqs t ! j = txqs s ! j" "tq_hwq (txqs t ! i) < 4"
  shows "base_but i t"
  using assms qbase_cong [OF assms(5)]
  by (auto simp: base_but_def txq_static_def table_ok_def layout_cong [OF assms(5)])

lemma but_upd:
  assumes "base_but i s" and "rwnx_txq_is_scheduled (f (txqs s ! i)) = rwnx_txq_is_scheduled (txqs s ! i)" "tq_hwq (f (txqs s ! i)) = tq_hwq (txqs s ! i)"
  shows "base_but i (upd_txq i f s)"
proof -
  have "sched_ok (upd_txq i f s)" using butD(5) [OF assms(1)] assms(2,3) by (auto simp: sched_ok_def)
  then show ?thesis by (rule but_cong [OF assms(1)]) (use butD [OF assms(1)] assms(3) in simp_all)
qed

lemma add_sel [simp]:
  "old_ic (rwnx_txq_add_to_hw_list i s) = old_ic s" "stas (rwnx_txq_add_to_hw_list i s) = stas s"
  "hw_events (rwnx_txq_add_to_hw_list i s) = hw_events s" "tx_host_id (rwnx_txq_add_to_hw_list i s) = tx_host_id s"
  "flow_tbusy (rwnx_txq_add_to_hw_list i s) = flow_tbusy s" "length (txqs (rwnx_txq_add_to_hw_list i s)) = length (txqs s)"
  "length (hwqs (rwnx_txq_add_to_hw_list i s)) = length (hwqs s)"
  by (simp_all add: rwnx_txq_add_to_hw_list_def)

lemma del_sel [simp]:
  "old_ic (rwnx_txq_del_from_hw_list i s) = old_ic s" "stas (rwnx_txq_del_from_hw_list i s) = stas s"
  "hw_events (rwnx_txq_del_from_hw_list i s) = hw_events s" "tx_host_id (rwnx_txq_del_from_hw_list i s) = tx_host_id s"
  "flow_tbusy (rwnx_txq_del_from_hw_list i s) = flow_tbusy s" "length (txqs (rwnx_txq_del_from_hw_list i s)) = length (txqs s)"
  "length (hwqs (rwnx_txq_del_from_hw_list i s)) = length (hwqs s)"
  by (simp_all add: rwnx_txq_del_from_hw_list_def)

definition scheduled_q :: "rwnx_txq \<Rightarrow> rwnx_txq" where
  "scheduled_q q = q\<lparr>tq_status := flag_add (tq_status q) RWNX_TXQ_IN_HWQ_LIST\<rparr>"

definition unscheduled_q :: "rwnx_txq \<Rightarrow> rwnx_txq" where
  "unscheduled_q q = q\<lparr>tq_status := flag_clear (tq_status q) RWNX_TXQ_IN_HWQ_LIST\<rparr>"

lemma flag_add_same: "flag_set f (1 :: 'a::len word) \<Longrightarrow> flag_add f 1 = f"
  by (simp add: flag_set_def flag_add_def and_one_eq or_one_eq odd_iff_mod_2_eq_one)

lemma flag_set_num [simp]:
  "flag_set (1 :: 'a::len word) 1" "\<not> flag_set 0 m"
  "flag_set (1 :: 'a::len word) (numeral b) \<longleftrightarrow> 1 AND (numeral b :: 'a word) \<noteq> 0"
  "flag_set (numeral a :: 'a::len word) 1 \<longleftrightarrow> (numeral a :: 'a word) AND 1 \<noteq> 0"
  "flag_set (numeral a :: 'a::len word) (numeral b) \<longleftrightarrow> (numeral a :: 'a word) AND numeral b \<noteq> 0"
  by (simp_all add: flag_set_def)

lemma flag_clear_none: "\<not> flag_set f m \<Longrightarrow> flag_clear f m = f"
  by (auto simp: flag_set_def flag_clear_def bit_eq_iff bit_simps)

lemma add_nth: "i < length (txqs s) \<Longrightarrow> txqs (rwnx_txq_add_to_hw_list i s) ! j = (if i = j then scheduled_q (txqs s ! i) else txqs s ! j)"
  by (auto simp: rwnx_txq_add_to_hw_list_def scheduled_q_def rwnx_txq_is_scheduled_def flag_add_same RWNX_TXQ_IN_HWQ_LIST_def)

lemma del_nth: "i < length (txqs s) \<Longrightarrow> txqs (rwnx_txq_del_from_hw_list i s) ! j = (if i = j then unscheduled_q (txqs s ! i) else txqs s ! j)"
  by (auto simp: rwnx_txq_del_from_hw_list_def unscheduled_q_def rwnx_txq_is_scheduled_def flag_clear_none)

lemma scheduled_flags [simp]:
  "rwnx_txq_is_scheduled (scheduled_q q)" "\<not> rwnx_txq_is_scheduled (unscheduled_q q)"
  "rwnx_txq_is_stopped (scheduled_q q) = rwnx_txq_is_stopped q" "rwnx_txq_is_stopped (unscheduled_q q) = rwnx_txq_is_stopped q"
  "ps_stopped (scheduled_q q) = ps_stopped q" "ps_stopped (unscheduled_q q) = ps_stopped q"
  "retry_ok (scheduled_q q) = retry_ok q" "retry_ok (unscheduled_q q) = retry_ok q"
  by (simp_all add: scheduled_q_def unscheduled_q_def rwnx_txq_is_scheduled_def rwnx_txq_is_stopped_def ps_stopped_def retry_ok_def flag_simps)
    (simp_all add: txq_flag_defs flag_set_clear_other)


lemma scheduled_sel [simp]:
  "tq_idx (scheduled_q q) = tq_idx q" "tq_hwq (scheduled_q q) = tq_hwq q" "tq_sk_list (scheduled_q q) = tq_sk_list q"
  "tq_credits (scheduled_q q) = tq_credits q" "tq_sta (scheduled_q q) = tq_sta q" "tq_ps_id (scheduled_q q) = tq_ps_id q"
  "tq_push_limit (scheduled_q q) = tq_push_limit q"
  "tq_idx (unscheduled_q q) = tq_idx q" "tq_hwq (unscheduled_q q) = tq_hwq q" "tq_sk_list (unscheduled_q q) = tq_sk_list q"
  "tq_credits (unscheduled_q q) = tq_credits q" "tq_sta (unscheduled_q q) = tq_sta q" "tq_ps_id (unscheduled_q q) = tq_ps_id q"
  "tq_push_limit (unscheduled_q q) = tq_push_limit q"
  by (simp_all add: scheduled_q_def unscheduled_q_def)

lemma but_add:
  assumes "base_but i s"
  shows "base_but i (rwnx_txq_add_to_hw_list i s)"
proof (cases "rwnx_txq_is_scheduled (txqs s ! i)")
  case True
  then show ?thesis using assms by (simp add: rwnx_txq_add_to_hw_list_def)
next
  case False
  let ?t = "rwnx_txq_add_to_hw_list i s" and ?h = "tq_hwq (txqs s ! i)"
  note l = butD [OF assms]
  have hw: "hq_list (hwqs ?t ! k) = (if k = ?h then hq_list (hwqs s ! k) @ [i] else hq_list (hwqs s ! k))" for k
    using False l by (simp add: rwnx_txq_add_to_hw_list_def)
  have "distinct (hq_list (hwqs ?t ! k)) \<and>
      (\<forall>j. j \<in> set (hq_list (hwqs ?t ! k)) \<longleftrightarrow> j < 297 \<and> rwnx_txq_is_scheduled (txqs ?t ! j) \<and> tq_hwq (txqs ?t ! j) = k)" if "k < 4" for k
  proof -
    have o: "distinct (hq_list (hwqs s ! k))"
      "\<And>j. j \<in> set (hq_list (hwqs s ! k)) \<longleftrightarrow> j < 297 \<and> rwnx_txq_is_scheduled (txqs s ! j) \<and> tq_hwq (txqs s ! j) = k"
      using l that by (auto simp: sched_ok_def)
    have i: "i \<notin> set (hq_list (hwqs s ! k))" using o(2) [of i] False by simp
    have "j \<in> set (hq_list (hwqs ?t ! k)) \<longleftrightarrow> j < 297 \<and> rwnx_txq_is_scheduled (txqs ?t ! j) \<and> tq_hwq (txqs ?t ! j) = k" for j
      using o(2) [of j] l False by (cases "j = i") (auto simp: hw add_nth)
    moreover have "distinct (hq_list (hwqs ?t ! k))" using o(1) i by (auto simp: hw)
    ultimately show ?thesis by blast
  qed
  then have "sched_ok ?t" by (simp add: sched_ok_def l)
  then show ?thesis by (rule but_cong [OF assms]) (use l in \<open>simp_all add: add_nth\<close>)
qed

lemma del_lists:
  assumes "base_but i s" and "k < 4"
  shows "hq_list (hwqs (rwnx_txq_del_from_hw_list i s) ! k) = remove1 i (hq_list (hwqs s ! k))"
proof -
  note l = butD [OF assms(1)]
  have "rwnx_txq_is_scheduled (txqs s ! i) \<or> i \<notin> set (hq_list (hwqs s ! k))"
    using assms(2) l by (auto simp: sched_ok_def)
  then show ?thesis using l assms(2) by (auto simp: rwnx_txq_del_from_hw_list_def remove1_idem)
qed

lemma but_del:
  assumes "base_but i s"
  shows "base_but i (rwnx_txq_del_from_hw_list i s)"
proof -
  let ?t = "rwnx_txq_del_from_hw_list i s"
  note l = butD [OF assms]
  have "distinct (hq_list (hwqs ?t ! k)) \<and>
      (\<forall>j. j \<in> set (hq_list (hwqs ?t ! k)) \<longleftrightarrow> j < 297 \<and> rwnx_txq_is_scheduled (txqs ?t ! j) \<and> tq_hwq (txqs ?t ! j) = k)" if "k < 4" for k
  proof -
    have o: "distinct (hq_list (hwqs s ! k))"
      "\<And>j. j \<in> set (hq_list (hwqs s ! k)) \<longleftrightarrow> j < 297 \<and> rwnx_txq_is_scheduled (txqs s ! j) \<and> tq_hwq (txqs s ! j) = k"
      using l that by (auto simp: sched_ok_def)
    have "j \<in> set (hq_list (hwqs ?t ! k)) \<longleftrightarrow> j < 297 \<and> rwnx_txq_is_scheduled (txqs ?t ! j) \<and> tq_hwq (txqs ?t ! j) = k" for j
      using o(1) o(2) [of j] l by (cases "j = i") (auto simp: del_lists [OF assms that] del_nth)
    moreover have "distinct (hq_list (hwqs ?t ! k))" using o(1) by (simp add: del_lists [OF assms that])
    ultimately show ?thesis by blast
  qed
  then have "sched_ok ?t" by (simp add: sched_ok_def l)
  then show ?thesis by (rule but_cong [OF assms]) (use l in \<open>simp_all add: del_nth\<close>)
qed

text \<open>The power-save part under the same changes.\<close>

lemma qps_cong: "old_ic t = old_ic s \<Longrightarrow> stas t = stas s \<Longrightarrow> qps t i q = qps s i q"
  by (simp add: qps_def layout_cong [of t s])

lemma sta_ok_cong: "old_ic t = old_ic s \<Longrightarrow> stas t = stas s \<Longrightarrow> sta_ok t = sta_ok s"
  by (simp add: sta_ok_def layout_cong [of t s])

lemma ps_ok_nth:
  assumes "ps_ok X s" and "old_ic t = old_ic s" "stas t = stas s" and "\<And>j. j < 297 \<Longrightarrow> j \<noteq> i \<Longrightarrow> txqs t ! j = txqs s ! j"
  shows "ps_ok (insert i X) t" and "qps s i (txqs t ! i) \<Longrightarrow> ps_ok (X - {i}) t"
proof -
  have q: "qps t j q = qps s j q" for j q by (rule qps_cong [OF assms(2,3)])
  show "ps_ok (insert i X) t" using assms(1,4) by (simp add: ps_ok_def q)
  show "ps_ok (X - {i}) t" if "qps s i (txqs t ! i)"
    unfolding ps_ok_def q
  proof (intro allI impI)
    fix j assume "j < 297" "j \<notin> X - {i}"
    then show "qps s j (txqs t ! j)" using that assms(1,4) by (cases "j = i") (simp_all add: ps_ok_def)
  qed
qed

lemma qps_same:
  assumes "qps s i q" and "tq_idx p = tq_idx q" "ps_stopped q \<Longrightarrow> ps_stopped p" "length (tq_sk_list p) = length (tq_sk_list q)"
  shows "qps s i p"
  using assms by (auto simp: qps_def)

lemma ps_ok_add:
  assumes "ps_ok X s" and "length (txqs s) = 297" "i < 297"
  shows "ps_ok X (rwnx_txq_add_to_hw_list i s)"
  using assms qps_same [of s i "txqs s ! i" "scheduled_q (txqs s ! i)"]
  by (auto simp: ps_ok_def add_nth qps_cong [of "rwnx_txq_add_to_hw_list i s" s])

lemma ps_ok_del:
  assumes "ps_ok X s" and "length (txqs s) = 297" "i < 297"
  shows "ps_ok X (rwnx_txq_del_from_hw_list i s)"
  using assms qps_same [of s i "txqs s ! i" "unscheduled_q (txqs s ! i)"]
  by (auto simp: ps_ok_def del_nth qps_cong [of "rwnx_txq_del_from_hw_list i s" s])


definition txq_invx :: "nat set \<Rightarrow> tx_hw \<Rightarrow> bool" where
  "txq_invx X s \<longleftrightarrow> txq_base s \<and> ps_ok X s \<and> sta_ok s"

lemma txq_inv_x: "txq_inv s = txq_invx {} s"
  by (simp add: txq_inv_def txq_invx_def)

lemma invxD:
  assumes "txq_invx X s"
  shows "txq_base s" "ps_ok X s" "sta_ok s" "i < 297 \<Longrightarrow> qbase s i (txqs s ! i)" "i < 297 \<Longrightarrow> i \<notin> X \<Longrightarrow> qps s i (txqs s ! i)"
    "i < 297 \<Longrightarrow> base_but i s" "length (txqs s) = 297" "txq_static s"
  using assms by (auto simp: txq_invx_def ps_ok_def baseD base_butI)

lemma inv_single:
  assumes "txq_invx X s" and "base_but i t" and "old_ic t = old_ic s" "stas t = stas s" "\<And>j. j < 297 \<Longrightarrow> j \<noteq> i \<Longrightarrow> txqs t ! j = txqs s ! j"
    and "qbase s i (txqs t ! i)" "i \<notin> X \<Longrightarrow> qps s i (txqs t ! i)"
  shows "txq_invx X t"
proof -
  have "txq_base t" using base_but_close [OF assms(2)] assms(6) by (simp add: qbase_cong [OF assms(3)])
  moreover have "ps_ok X t"
  proof (cases "i \<in> X")
    case True
    then show ?thesis using ps_ok_nth(1) [OF invxD(2) [OF assms(1)] assms(3,4,5), of i] by (simp add: insert_absorb)
  next
    case False
    then show ?thesis using ps_ok_nth(2) [OF invxD(2) [OF assms(1)] assms(3,4,5) assms(7)] by simp
  qed
  ultimately show ?thesis using invxD(3) [OF assms(1)] by (simp add: txq_invx_def sta_ok_cong [OF assms(3,4)])
qed

lemma but_log [simp]: "base_but i (hw_log es s) = base_but i s"
  by (simp add: base_but_def txq_static_def sched_ok_def table_ok_def layout_cong [of "hw_log es s" s] qbase_cong [of "hw_log es s" s])

lemma txq_inv_log [simp]: "txq_invx X (hw_log es s) = txq_invx X s"
  by (simp add: txq_invx_def ps_ok_def base_cong [of "hw_log es s" s] qps_cong [of "hw_log es s" s] sta_ok_cong [of "hw_log es s" s])

section \<open>Starting and stopping\<close>

definition stop_reason :: "u8 \<Rightarrow> bool" where
  "stop_reason r \<longleftrightarrow> r \<in> {RWNX_TXQ_STOP_FULL, RWNX_TXQ_STOP_CSA, RWNX_TXQ_STOP_STA_PS, RWNX_TXQ_STOP_VIF_PS, RWNX_TXQ_STOP_CHAN}"

lemma stop_reasonD:
  assumes "stop_reason r"
  shows "r AND 1 = 0" "flag_set r RWNX_TXQ_STOP" "\<not> flag_set r 1" "r \<noteq> RWNX_TXQ_STOP_STA_PS \<Longrightarrow> r AND RWNX_TXQ_STOP_STA_PS = 0"
  using assms by (auto simp: stop_reason_def txq_flag_defs)

definition start_q :: "u8 \<Rightarrow> rwnx_txq \<Rightarrow> rwnx_txq" where
  "start_q r q =
    (if txq_active q \<and> flag_set (tq_status q) r
     then (let q1 = q\<lparr>tq_status := flag_clear (tq_status q) r\<rparr>
           in if \<not> rwnx_txq_is_stopped q1 \<and> tq_sk_list q \<noteq> [] then scheduled_q q1 else q1)
     else q)"

definition stop_q :: "u8 \<Rightarrow> rwnx_txq \<Rightarrow> rwnx_txq" where
  "stop_q r q = (if txq_active q then unscheduled_q (q\<lparr>tq_status := flag_add (tq_status q) r\<rparr>) else q)"

lemma start_effect:
  assumes "i < length (txqs s)"
  shows "txqs (rwnx_txq_start i r s) ! j = (if i = j then start_q r (txqs s ! i) else txqs s ! j)"
    "stas (rwnx_txq_start i r s) = stas s" "old_ic (rwnx_txq_start i r s) = old_ic s" "length (txqs (rwnx_txq_start i r s)) = length (txqs s)"
  using assms by (auto simp: rwnx_txq_start_def start_q_def Let_def add_nth rwnx_txq_skb_ready_def)

lemma stop_effect:
  assumes "i < length (txqs s)"
  shows "txqs (rwnx_txq_stop i r s) ! j = (if i = j then stop_q r (txqs s ! i) else txqs s ! j)"
    "stas (rwnx_txq_stop i r s) = stas s" "old_ic (rwnx_txq_stop i r s) = old_ic s" "length (txqs (rwnx_txq_stop i r s)) = length (txqs s)"
  using assms by (auto simp: rwnx_txq_stop_def stop_q_def Let_def del_nth)

lemma but_start:
  assumes "base_but i s" and "r AND 1 = 0"
  shows "base_but i (rwnx_txq_start i r s)"
proof -
  have "base_but i (clear_status i r s)"
    unfolding clear_status_def using assms
    by (intro but_upd) (simp_all add: rwnx_txq_is_scheduled_def RWNX_TXQ_IN_HWQ_LIST_def flag_set_clear_other)
  then show ?thesis using assms(1) but_add by (auto simp: rwnx_txq_start_def Let_def)
qed

lemma but_stop:
  assumes "base_but i s" and "\<not> flag_set r 1"
  shows "base_but i (rwnx_txq_stop i r s)"
proof -
  have "base_but i (set_status i r s)"
    unfolding set_status_def using assms
    by (intro but_upd) (simp_all add: rwnx_txq_is_scheduled_def RWNX_TXQ_IN_HWQ_LIST_def flag_simps)
  then show ?thesis using assms(1) but_del by (auto simp: rwnx_txq_stop_def)
qed

lemma cleared_flags:
  assumes "r AND 1 = 0"
  shows "rwnx_txq_is_scheduled (q\<lparr>tq_status := flag_clear (tq_status q) r\<rparr>) = rwnx_txq_is_scheduled q"
    "r AND RWNX_TXQ_STOP_STA_PS = 0 \<Longrightarrow> ps_stopped (q\<lparr>tq_status := flag_clear (tq_status q) r\<rparr>) = ps_stopped q"
    "retry_ok (q\<lparr>tq_status := x\<rparr>) = retry_ok q"
  using assms by (simp_all add: rwnx_txq_is_scheduled_def ps_stopped_def retry_ok_def RWNX_TXQ_IN_HWQ_LIST_def flag_set_clear_other)

lemma qbase_start:
  assumes "qbase s i q" and "r AND 1 = 0" and "r AND RWNX_TXQ_STOP_STA_PS = 0 \<or> tq_push_limit q = 0"
  shows "qbase s i (start_q r q)"
proof (cases "txq_active q \<and> flag_set (tq_status q) r")
  case True
  let ?q = "q\<lparr>tq_status := flag_clear (tq_status q) r\<rparr>"
  note f = cleared_flags [OF assms(2)]
  have "tq_push_limit q \<noteq> 0 \<longrightarrow> ps_stopped ?q" using assms(1,3) True f(2) by (auto simp: qbase_def)
  then show ?thesis using assms(1) True f by (auto simp: start_q_def Let_def qbase_def)
qed (use assms(1) in \<open>auto simp: start_q_def\<close>)

lemma qbase_stop:
  assumes "qbase s i q" and "stop_reason r"
  shows "qbase s i (stop_q r q)"
proof (cases "txq_active q")
  case True
  let ?q = "q\<lparr>tq_status := flag_add (tq_status q) r\<rparr>"
  have "rwnx_txq_is_stopped ?q" "ps_stopped q \<longrightarrow> ps_stopped ?q" "retry_ok ?q = retry_ok q"
    using stop_reasonD(2) [OF assms(2)] by (simp_all add: rwnx_txq_is_stopped_def ps_stopped_def retry_ok_def flag_simps)
  then show ?thesis using assms(1) True by (auto simp: stop_q_def qbase_def)
qed (use assms(1) in \<open>simp add: stop_q_def\<close>)

lemma qps_start:
  assumes "qps s i q" and "r AND 1 = 0" and "r AND RWNX_TXQ_STOP_STA_PS = 0"
  shows "qps s i (start_q r q)"
  by (rule qps_same [OF assms(1)]) (use cleared_flags [OF assms(2)] assms(3) in \<open>auto simp: start_q_def Let_def\<close>)

lemma qps_stop: "qps s i q \<Longrightarrow> qps s i (stop_q r q)"
  by (erule qps_same) (auto simp: stop_q_def ps_stopped_def flag_simps unscheduled_q_def, auto simp: flag_set_clear_other txq_flag_defs flag_simps)

lemma txq_start_inv:
  assumes "txq_invx X s" and "i < 297" and "stop_reason r" and "r \<noteq> RWNX_TXQ_STOP_STA_PS"
  shows "txq_invx X (rwnx_txq_start i r s)"
proof -
  note d = invxD [OF assms(1)] and r = stop_reasonD [OF assms(3)]
  show ?thesis
    by (rule inv_single [OF assms(1) but_start [OF d(6) [OF assms(2)] r(1)]])
      (use assms(2,4) d r qbase_start qps_start in \<open>auto simp: start_effect\<close>)
qed

lemma stop_inv:
  assumes "txq_invx X s" and "i < 297" and "stop_reason r"
  shows "txq_invx X (rwnx_txq_stop i r s)"
proof -
  note d = invxD [OF assms(1)] and r = stop_reasonD [OF assms(3)]
  show ?thesis
    by (rule inv_single [OF assms(1) but_stop [OF d(6) [OF assms(2)] r(3)]])
      (use assms(2) d qbase_stop [OF _ assms(3)] qps_stop in \<open>auto simp: stop_effect\<close>)
qed

lemma fold_inv:
  assumes "txq_invx X s" and "\<And>i t. i \<in> set is \<Longrightarrow> txq_invx X t \<Longrightarrow> txq_invx X (f i t)"
  shows "txq_invx X (fold f is s)"
  using assms by (induction "is" arbitrary: s) auto


section \<open>Operations that change the power-save counters\<close>

text \<open>Two states whose stations differ only in the counters of the owner of queue \<open>i\<close>.\<close>

definition stas_upto :: "tx_hw \<Rightarrow> tx_hw \<Rightarrow> nat \<Rightarrow> bool" where
  "stas_upto s t i \<longleftrightarrow> old_ic t = old_ic s \<and> map s_vif_idx (stas t) = map s_vif_idx (stas s) \<and> map ps_active (stas t) = map ps_active (stas s)
     \<and> (\<forall>st. owner s i \<noteq> Some st \<longrightarrow> stas t ! st = stas s ! st)"

lemma stas_uptoD:
  assumes "stas_upto s t i"
  shows "old_ic t = old_ic s" "length (stas t) = length (stas s)" "st < length (stas s) \<Longrightarrow> ps_active (stas t ! st) = ps_active (stas s ! st)"
    "owner s i \<noteq> Some st \<Longrightarrow> stas t ! st = stas s ! st"
proof -
  show l: "length (stas t) = length (stas s)" using assms by (metis length_map stas_upto_def)
  have "map ps_active (stas t) = map ps_active (stas s)" using assms by (simp add: stas_upto_def)
  from arg_cong [OF this, of "\<lambda>l. l ! st"] l
  show "ps_active (stas t ! st) = ps_active (stas s ! st)" if "st < length (stas s)" using that by simp
qed (use assms in \<open>simp_all add: stas_upto_def\<close>)

lemma stas_upto_refl: "stas t = stas s \<Longrightarrow> old_ic t = old_ic s \<Longrightarrow> stas_upto s t i"
  by (simp add: stas_upto_def)

lemma stas_upto_trans: "stas_upto s t i \<Longrightarrow> stas_upto t u i \<Longrightarrow> stas_upto s u i"
  using layout_cong(3) [of t s i] by (auto simp: stas_upto_def)

lemma owner_inj:
  assumes "owner s i = Some st" "owner s j = Some st" "is_multicast_sta s st"
  shows "i = j"
proof -
  have "first_vif_txq_idx s \<le> i" "first_vif_txq_idx s \<le> j" using assms(3) owner_multicast [OF assms(1)] owner_multicast [OF assms(2)] by auto
  then show ?thesis using assms(1,2) by (auto simp: owner_def split: if_splits)
qed

lemma qps_upto:
  assumes "txq_static s" "stas_upto s t i" "j \<noteq> i" "qps s j q"
  shows "qps t j q"
proof -
  note u = stas_uptoD [OF assms(2)]
  show ?thesis
    unfolding qps_def layout_cong [OF u(1)]
  proof (intro allI impI)
    fix st assume a: "txq_active q \<and> owner s j = Some st \<and> ps_active (stas t ! st)"
    then have p: "ps_active (stas s ! st)" using u(3) owner_lt [OF assms(1)] by blast
    have "stas t ! st = stas s ! st" if "is_multicast_sta s st" using u(4) owner_inj [of s i st j] a that assms(3) by blast
    with a p assms(4) show "ps_stopped q \<and> (is_multicast_sta s st \<longrightarrow> pkt_ready (stas t ! st) LEGACY_PS_ID = word_of_nat (length (tq_sk_list q)))"
      by (auto simp: qps_def)
  qed
qed

lemma inv_single_ps:
  assumes "txq_invx X s" and "base_but i t" and "stas_upto s t i" and "\<And>j. j < 297 \<Longrightarrow> j \<noteq> i \<Longrightarrow> txqs t ! j = txqs s ! j"
    and "qbase s i (txqs t ! i)" and "i \<notin> X \<Longrightarrow> qps t i (txqs t ! i)" and "sta_ok t"
  shows "txq_invx X t"
proof -
  note u = stas_uptoD [OF assms(3)]
  have "txq_base t" using base_but_close [OF assms(2)] assms(5) by (simp add: qbase_cong [OF u(1)])
  moreover have "ps_ok X t"
    unfolding ps_ok_def
  proof (intro allI impI)
    fix j assume j: "j < 297" "j \<notin> X"
    show "qps t j (txqs t ! j)"
    proof (cases "j = i")
      case False
      then show ?thesis using qps_upto [OF invxD(8) [OF assms(1)] assms(3) False invxD(5) [OF assms(1) j]] assms(4) [OF j(1)] by simp
    qed (use assms(6) j in simp)
  qed
  ultimately show ?thesis using assms(7) by (simp add: txq_invx_def)
qed

lemma but_cong_ps:
  assumes "base_but i s" and "txqs t = txqs s" "hwqs t = hwqs s" "stas_upto s t i" "tx_host_id t = tx_host_id s"
  shows "base_but i t"
  using assms(1) parts_cong [OF assms(2) arg_cong [OF assms(3)] stas_uptoD(1) [OF assms(4)]] assms(4)
  by (simp add: base_but_def table_ok_def assms(2,5) layout_cong(3) [OF stas_uptoD(1) [OF assms(4)]] qbase_cong [OF stas_uptoD(1) [OF assms(4)]]
      stas_upto_def)

subsection \<open>Queueing\<close>

lemma upd_ready_upto:
  assumes "owner s i = Some st"
  shows "stas_upto s (upd_sta st (\<lambda>x. x\<lparr>pkt_ready := f x\<rparr>) s) i" "stas_upto s (upd_sta st (\<lambda>x. x\<lparr>sp_cnt := f' x\<rparr>) s) i"
    "stas_upto s (upd_sta st (\<lambda>x. x\<lparr>pkt_ready := f x, sp_cnt := f' x\<rparr>) s) i"
  using assms
  by (auto simp: stas_upto_def intro!: nth_equalityI split: if_splits)

lemma count_queued_effect:
  assumes "txq_invx X s" and "i < 297" and "t = ps_count_queued i s"
  shows "txqs t = txqs s" "hwqs t = hwqs s" "tx_host_id t = tx_host_id s" "flow_tbusy t = flow_tbusy s" "stas_upto s t i" "sta_ok t"
    "txq_active (txqs s ! i) \<Longrightarrow> owner s i = Some st \<Longrightarrow> ps_active (stas s ! st) \<Longrightarrow> is_multicast_sta s st \<Longrightarrow>
     pkt_ready (stas t ! st) LEGACY_PS_ID = pkt_ready (stas s ! st) LEGACY_PS_ID + 1"
proof -
  let ?q = "txqs s ! i"
  note d = invxD [OF assms(1)]
  have q: "tq_sta ?q = None \<or> tq_sta ?q = owner s i" "first_vif_txq_idx s \<le> i \<Longrightarrow> tq_ps_id ?q = LEGACY_PS_ID" "txq_active ?q \<Longrightarrow> tq_sta ?q = owner s i"
    using d(4) [OF assms(2)] by (auto simp: qbase_def)
  show "txqs t = txqs s" "hwqs t = hwqs s" "tx_host_id t = tx_host_id s" "flow_tbusy t = flow_tbusy s"
    by (auto simp: assms(3) ps_count_queued_def Let_def rwnx_set_traffic_status_def split: option.splits)
  show upto: "stas_upto s t i"
    using q(1) upd_ready_upto(1) [of s i]
    by (auto simp: assms(3) ps_count_queued_def Let_def rwnx_set_traffic_status_def stas_upto_refl split: option.splits)
      (auto simp: stas_upto_def)
  show "sta_ok t"
    unfolding sta_ok_def layout_cong [OF stas_uptoD(1) [OF upto]] stas_uptoD(2) [OF upto]
  proof (intro allI impI, elim conjE)
    fix st assume a: "st < length (stas s)" "is_multicast_sta s st" "ps_active (stas t ! st)"
    then have u: "pkt_ready (stas s ! st) UAPSD_ID = 0"
      using d(3) stas_uptoD(3) [OF upto a(1)] by (simp add: sta_ok_def)
    show "pkt_ready (stas t ! st) UAPSD_ID = 0"
    proof (cases "owner s i = Some st")
      case True
      then have "tq_ps_id ?q = LEGACY_PS_ID" using q(2) owner_multicast [OF True] a(2) by simp
      with True u q(1) show ?thesis
        by (auto simp: assms(3) ps_count_queued_def Let_def rwnx_set_traffic_status_def LEGACY_PS_ID_def UAPSD_ID_def split: option.splits)
    qed (use u stas_uptoD(4) [OF upto] in simp)
  qed
  show "pkt_ready (stas t ! st) LEGACY_PS_ID = pkt_ready (stas s ! st) LEGACY_PS_ID + 1"
    if "txq_active ?q" "owner s i = Some st" "ps_active (stas s ! st)" "is_multicast_sta s st"
  proof -
    have "tq_ps_id ?q = LEGACY_PS_ID" "tq_sta ?q = Some st" using q(2,3) owner_multicast [OF that(2)] that by auto
    moreover have "st < length (stas s)" using owner_lt [OF d(8) that(2)] .
    ultimately show ?thesis using that(3)
      by (simp add: assms(3) ps_count_queued_def Let_def rwnx_set_traffic_status_def)
  qed
qed


lemma link_frame_effect:
  assumes "link_frame f retry q = Some p"
  shows "tq_idx p = tq_idx q" "tq_status p = tq_status q" "tq_hwq p = tq_hwq q" "tq_credits p = tq_credits q" "tq_sta p = tq_sta q"
    "tq_ps_id p = tq_ps_id q" "tq_push_limit p = tq_push_limit q" "length (tq_sk_list p) = length (tq_sk_list q) + 1"
    "set (tq_sk_list p) = insert f (set (tq_sk_list q))"
proof -
  have ins: "insert_after k f l = Some l' \<Longrightarrow> length l' = length l + 1 \<and> set l' = insert f (set l)" for k l l'
    by (induction k f l arbitrary: l' rule: insert_after.induct) (auto split: if_splits)
  show "tq_idx p = tq_idx q" "tq_status p = tq_status q" "tq_hwq p = tq_hwq q" "tq_credits p = tq_credits q" "tq_sta p = tq_sta q"
    "tq_ps_id p = tq_ps_id q" "tq_push_limit p = tq_push_limit q"
    using assms by (auto simp: link_frame_def split: if_splits)
  show "length (tq_sk_list p) = length (tq_sk_list q) + 1" "set (tq_sk_list p) = insert f (set (tq_sk_list q))"
    using assms ins by (auto simp: link_frame_def split: if_splits option.splits)
qed

text \<open>A retried frame goes behind the retried ones; its buffer is not linked in the queue already.\<close>

lemma insert_after_found:
  assumes "k \<notin> f_id ` set xs"
  shows "f_id g = k \<Longrightarrow> insert_after k f (xs @ g # ys) = Some (xs @ g # f # ys)"
  using assms by (induction xs) auto

lemma link_retry_ok:
  assumes "retry_ok q" and "retry \<Longrightarrow> f_id f \<notin> f_id ` set (tq_sk_list q)"
  shows "\<exists>p. link_frame f retry q = Some p \<and> retry_ok p"
proof (cases retry)
  case False
  have "retry_ok (q\<lparr>tq_sk_list := tq_sk_list q @ [f]\<rparr>)" using assms(1) by (auto simp: retry_ok_def Let_def)
  with False show ?thesis by (simp add: link_frame_def)
next
  case True
  let ?n = "tq_nb_retry q" and ?l = "tq_sk_list q"
  have n: "0 \<le> ?n" "nat ?n \<le> length ?l" using assms(1) by (auto simp: retry_ok_def)
  show ?thesis
  proof (cases "?n = 0")
    case z: True
    then have "tq_last_retry q = None" using assms(1) by (simp add: retry_ok_def)
    with z True show ?thesis by (auto simp: link_frame_def retry_ok_def Let_def)
  next
    case nz: False
    let ?r = "take (nat ?n) ?l"
    have ne: "?r \<noteq> []" using nz n by auto
    have r: "tq_last_retry q = Some (f_id (last ?r))" "f_id (last ?r) \<notin> f_id ` set (butlast ?r)"
      using assms(1) nz by (auto simp: retry_ok_def Let_def)
    have l: "?l = butlast ?r @ last ?r # drop (nat ?n) ?l"
      using ne append_take_drop_id [of "nat ?n" ?l] by (metis append.assoc append_Cons append_Nil append_butlast_last_id)
    let ?l' = "butlast ?r @ last ?r # f # drop (nat ?n) ?l"
    have ins: "insert_after (f_id (last ?r)) f ?l = Some ?l'"
      using insert_after_found [OF r(2) refl] l by metis
    let ?p = "q\<lparr>tq_sk_list := ?l', tq_last_retry := Some (f_id f), tq_nb_retry := ?n + 1\<rparr>"
    have "?l' = (?r @ [f]) @ drop (nat ?n) ?l" using ne by simp
    moreover have "length (?r @ [f]) = nat (?n + 1)" using n by simp
    ultimately have "take (nat (?n + 1)) ?l' = ?r @ [f]" by (metis append_eq_conv_conj)
    moreover have "f_id f \<notin> f_id ` set ?r" using assms(2) [OF True] by (meson image_mono in_mono set_take_subset)
    ultimately have "retry_ok ?p" using n by (auto simp: retry_ok_def Let_def)
    with True r(1) ins show ?thesis by (simp add: link_frame_def)
  qed
qed

definition flow_stop_q :: "tx_hw \<Rightarrow> rwnx_txq \<Rightarrow> rwnx_txq" where
  "flow_stop_q s q =
    (if tq_ndev_idx q \<noteq> NDEV_NO_TXQ \<and> \<not> flow_tbusy s \<and> RWNX_NDEV_FLOW_CTRL_STOP < length (tq_sk_list q)
     then q\<lparr>tq_status := flag_add (tq_status q) RWNX_TXQ_NDEV_FLOW_CTRL\<rparr> else q)"

definition flow_restart_q :: "rwnx_txq \<Rightarrow> rwnx_txq" where
  "flow_restart_q q =
    (if flag_set (tq_status q) RWNX_TXQ_NDEV_FLOW_CTRL \<and> length (tq_sk_list q) < RWNX_NDEV_FLOW_CTRL_RESTART
     then q\<lparr>tq_status := flag_clear (tq_status q) RWNX_TXQ_NDEV_FLOW_CTRL\<rparr> else q)"

lemma flow_effect:
  assumes "i < length (txqs s)"
  shows "txqs (flow_stop i s) ! j = (if i = j then flow_stop_q s (txqs s ! i) else txqs s ! j)"
    "txqs (flow_restart i s) ! j = (if i = j then flow_restart_q (txqs s ! i) else txqs s ! j)"
  using assms by (auto simp: flow_stop_def flow_restart_def flow_stop_q_def flow_restart_q_def Let_def)

lemma flow_sel [simp]:
  "hwqs (flow_stop i s) = hwqs s" "stas (flow_stop i s) = stas s" "old_ic (flow_stop i s) = old_ic s" "tx_host_id (flow_stop i s) = tx_host_id s"
  "length (txqs (flow_stop i s)) = length (txqs s)"
  "hwqs (flow_restart i s) = hwqs s" "stas (flow_restart i s) = stas s" "old_ic (flow_restart i s) = old_ic s"
  "tx_host_id (flow_restart i s) = tx_host_id s" "length (txqs (flow_restart i s)) = length (txqs s)"
  by (simp_all add: flow_stop_def flow_restart_def Let_def)

lemma flow_flag:
  "rwnx_txq_is_scheduled (q\<lparr>tq_status := flag_add (tq_status q) RWNX_TXQ_NDEV_FLOW_CTRL\<rparr>) = rwnx_txq_is_scheduled q"
  "rwnx_txq_is_stopped (q\<lparr>tq_status := flag_add (tq_status q) RWNX_TXQ_NDEV_FLOW_CTRL\<rparr>) = rwnx_txq_is_stopped q"
  "ps_stopped (q\<lparr>tq_status := flag_add (tq_status q) RWNX_TXQ_NDEV_FLOW_CTRL\<rparr>) = ps_stopped q"
  "rwnx_txq_is_scheduled (q\<lparr>tq_status := flag_clear (tq_status q) RWNX_TXQ_NDEV_FLOW_CTRL\<rparr>) = rwnx_txq_is_scheduled q"
  "rwnx_txq_is_stopped (q\<lparr>tq_status := flag_clear (tq_status q) RWNX_TXQ_NDEV_FLOW_CTRL\<rparr>) = rwnx_txq_is_stopped q"
  "ps_stopped (q\<lparr>tq_status := flag_clear (tq_status q) RWNX_TXQ_NDEV_FLOW_CTRL\<rparr>) = ps_stopped q"
  by (simp_all add: rwnx_txq_is_scheduled_def rwnx_txq_is_stopped_def ps_stopped_def flag_simps txq_flag_defs flag_set_clear_other)


lemma flow_q_sel [simp]:
  "rwnx_txq_is_scheduled (flow_stop_q s q) = rwnx_txq_is_scheduled q" "rwnx_txq_is_stopped (flow_stop_q s q) = rwnx_txq_is_stopped q"
  "ps_stopped (flow_stop_q s q) = ps_stopped q" "retry_ok (flow_stop_q s q) = retry_ok q" "tq_idx (flow_stop_q s q) = tq_idx q"
  "tq_hwq (flow_stop_q s q) = tq_hwq q" "tq_sk_list (flow_stop_q s q) = tq_sk_list q" "tq_credits (flow_stop_q s q) = tq_credits q"
  "tq_sta (flow_stop_q s q) = tq_sta q" "tq_ps_id (flow_stop_q s q) = tq_ps_id q" "tq_push_limit (flow_stop_q s q) = tq_push_limit q"
  "rwnx_txq_is_scheduled (flow_restart_q q) = rwnx_txq_is_scheduled q" "rwnx_txq_is_stopped (flow_restart_q q) = rwnx_txq_is_stopped q"
  "ps_stopped (flow_restart_q q) = ps_stopped q" "retry_ok (flow_restart_q q) = retry_ok q" "tq_idx (flow_restart_q q) = tq_idx q"
  "tq_hwq (flow_restart_q q) = tq_hwq q" "tq_sk_list (flow_restart_q q) = tq_sk_list q" "tq_credits (flow_restart_q q) = tq_credits q"
  "tq_sta (flow_restart_q q) = tq_sta q" "tq_ps_id (flow_restart_q q) = tq_ps_id q" "tq_push_limit (flow_restart_q q) = tq_push_limit q"
  by (simp_all add: flow_stop_q_def flow_restart_q_def flow_flag) (simp_all add: retry_ok_def)

lemma queue_skb_inv:
  assumes "txq_invx {} s" and "i < 297" and "f_txq f = i" "f_sta f = owner s i"
    and "retry \<Longrightarrow> txq_active (txqs s ! i) \<and> f_id f \<notin> f_id ` set (tq_sk_list (txqs s ! i))"
  shows "\<exists>added t. rwnx_txq_queue_skb f i retry s = Some (added, t) \<and> txq_invx {} t
     \<and> tq_hwq (txqs t ! i) = tq_hwq (txqs s ! i) \<and> tq_idx (txqs t ! i) = tq_idx (txqs s ! i)
     \<and> (added \<longleftrightarrow> \<not> rwnx_txq_is_stopped (txqs s ! i))"
proof -
  define q where "q = txqs s ! i"
  define s1 where "s1 = ps_count_queued i s"
  note d = invxD [OF assms(1)] and c = count_queued_effect [OF assms(1,2) s1_def]
  have qb: "qbase s i q" using d(4) [OF assms(2)] by (simp add: q_def)
  have len: "length (txqs s1) = 297" using c(1) d(7) by simp
  obtain p where p: "link_frame f retry q = Some p" "txq_active q \<Longrightarrow> retry_ok p"
  proof (cases "txq_active q")
    case True
    then show ?thesis using link_retry_ok [of q retry f] qb assms(5) that by (auto simp: qbase_def q_def)
  next
    case False
    with assms(5) have "\<not> retry" by (auto simp: q_def)
    with False that show ?thesis by (simp add: link_frame_def)
  qed
  note l = link_frame_effect [OF p(1)]
  define s2 where "s2 = flow_stop i (upd_txq i (\<lambda>_. p) s1)"
  define t where "t = (if rwnx_txq_is_stopped (txqs s2 ! i) then s2 else rwnx_txq_add_to_hw_list i s2)"
  have sp: "rwnx_txq_is_scheduled p = rwnx_txq_is_scheduled q" "rwnx_txq_is_stopped p = rwnx_txq_is_stopped q" "ps_stopped p = ps_stopped q"
    using l(2) by (simp_all add: rwnx_txq_is_scheduled_def rwnx_txq_is_stopped_def ps_stopped_def)
  have s2: "txqs s2 ! j = (if j = i then flow_stop_q s1 p else txqs s ! j)" "stas s2 = stas s1" "old_ic s2 = old_ic s1" "length (txqs s2) = 297" for j
    using assms(2) len c(1) by (auto simp: s2_def flow_effect flow_stop_q_def)
  have res: "rwnx_txq_queue_skb f i retry s = Some (\<not> rwnx_txq_is_stopped (txqs s2 ! i), t)"
    using p(1) c(1) by (simp add: rwnx_txq_queue_skb_def Let_def t_def s2_def q_def flip: s1_def)
  have tq: "txqs t ! j = (if j = i then (if rwnx_txq_is_stopped q then flow_stop_q s1 p else scheduled_q (flow_stop_q s1 p)) else txqs s ! j)"
    "stas t = stas s1" "old_ic t = old_ic s1" for j
    using s2 assms(2) sp(2) by (auto simp: t_def add_nth)
  have "base_but i s1" by (rule but_cong_ps [OF d(6) [OF assms(2)] c(1,2,5,3)])
  then have "base_but i (upd_txq i (\<lambda>_. p) s1)"
    using l(3) sp(1) by (intro but_upd) (simp_all add: c(1) q_def)
  then have "base_but i s2"
    unfolding s2_def by (auto simp: flow_stop_def Let_def set_status_def flow_flag intro!: but_upd)
  then have but: "base_but i t" using but_add by (simp add: t_def)
  have upto: "stas_upto s t i" using c(5) by (simp add: stas_upto_def tq(2,3))
  have "sta_ok t" using c(6) sta_ok_cong [OF tq(3,2)] by simp
  moreover have "qbase s i (txqs t ! i)"
  proof -
    let ?p = "txqs t ! i"
    have sel: "tq_idx ?p = tq_idx q" "tq_hwq ?p = tq_hwq q" "tq_sta ?p = tq_sta q" "tq_ps_id ?p = tq_ps_id q" "tq_credits ?p = tq_credits q"
      "tq_push_limit ?p = tq_push_limit q" "set (tq_sk_list ?p) = insert f (set (tq_sk_list q))" "length (tq_sk_list ?p) = length (tq_sk_list q) + 1"
      "retry_ok ?p = retry_ok p" "ps_stopped ?p = ps_stopped q" "rwnx_txq_is_stopped ?p = rwnx_txq_is_stopped q"
      using l sp by (simp_all add: tq)
    have ne: "tq_sk_list ?p \<noteq> []" using sel(8) by auto
    have sch: "\<not> rwnx_txq_is_stopped q \<Longrightarrow> rwnx_txq_is_scheduled ?p" by (simp add: tq)
    from qb p(2) sch assms(3,4) show ?thesis unfolding qbase_def sel by (simp add: ne) (blast intro: le_SucI)
  qed
  moreover have "qps t i (txqs t ! i)"
  proof -
    have o: "qps s i q" using d(5) [OF assms(2)] by (simp add: q_def)
    have f: "tq_idx (txqs t ! i) = tq_idx q" "ps_stopped (txqs t ! i) = ps_stopped q" "length (tq_sk_list (txqs t ! i)) = length (tq_sk_list q) + 1"
      using l(1,8) sp(3) by (simp_all add: tq)
    show ?thesis
      unfolding qps_def f layout_cong [OF stas_uptoD(1) [OF upto]]
    proof (intro allI impI)
      fix st assume a: "txq_active q \<and> owner s i = Some st \<and> ps_active (stas t ! st)"
      then have p: "ps_active (stas s ! st)" using stas_uptoD(3) [OF upto] owner_lt [OF d(8)] by blast
      from a p o have "ps_stopped q" "is_multicast_sta s st \<longrightarrow> pkt_ready (stas s ! st) LEGACY_PS_ID = word_of_nat (length (tq_sk_list q))"
        by (auto simp: qps_def)
      with a p c(7) [of st]
      show "ps_stopped q \<and> (is_multicast_sta s st \<longrightarrow> pkt_ready (stas t ! st) LEGACY_PS_ID = word_of_nat (length (tq_sk_list q) + 1))"
        by (simp add: tq(2) q_def)
    qed
  qed
  ultimately have "txq_invx {} t" using inv_single_ps [OF assms(1) but upto] tq(1) by auto
  with res l(1,3) sp(2) show ?thesis by (simp add: tq(1) s2(1) q_def)
qed

end
