(* ===== verification/Txq_Sched.thy ===== *)
theory Txq_Sched
  imports Txq_Inv
begin

text \<open>Processing a hardware queue: what one push, one round and the whole loop do to the queues, the stations and what is sent.\<close>

section \<open>One push\<close>

definition push_q :: "rwnx_txq \<Rightarrow> rwnx_txq" where
  "push_q q = (push_counts q)\<lparr>tq_pkt_pushed := tq_pkt_pushed q + 1, tq_push_limit := if tq_push_limit q = 0 then 0 else tq_push_limit q - 1\<rparr>"

text \<open>The frames of queue \<open>i\<close> that were handed to the bus, in order.\<close>

fun pushed_ids :: "nat \<Rightarrow> txq_event list \<Rightarrow> nat list" where
  "pushed_ids i [] = []"
| "pushed_ids i (FrameTx f # es) = (if f_txq f = i then f_id f # pushed_ids i es else pushed_ids i es)"
| "pushed_ids i (_ # es) = pushed_ids i es"

lemma pushed_ids_append [simp]: "pushed_ids i (xs @ ys) = pushed_ids i xs @ pushed_ids i ys"
  by (induction i xs rule: pushed_ids.induct) auto

lemma push_q_sel [simp]:
  "tq_idx (push_q q) = tq_idx q" "tq_status (push_q q) = tq_status q" "tq_hwq (push_q q) = tq_hwq q" "tq_sk_list (push_q q) = tq_sk_list q"
  "tq_credits (push_q q) = tq_credits q" "tq_sta (push_q q) = tq_sta q" "tq_ps_id (push_q q) = tq_ps_id q"
  "tq_ndev_idx (push_q q) = tq_ndev_idx q" "tq_ndev (push_q q) = tq_ndev q"
  by (simp_all add: push_q_def push_counts_def)

lemma push_q_status [simp]:
  "rwnx_txq_is_scheduled (push_q q) = rwnx_txq_is_scheduled q" "rwnx_txq_is_stopped (push_q q) = rwnx_txq_is_stopped q" "ps_stopped (push_q q) = ps_stopped q"
  by (simp_all add: rwnx_txq_is_scheduled_def rwnx_txq_is_stopped_def ps_stopped_def)

definition ps_pushed :: "nat \<Rightarrow> rwnx_sta \<Rightarrow> rwnx_sta" where
  "ps_pushed k x = (if ps_active x then x\<lparr>pkt_ready := (pkt_ready x)(k := pkt_ready x k - 1), sp_cnt := (sp_cnt x)(k := sp_cnt x k - 1)\<rparr> else x)"

lemma more_data_effect:
  assumes "rwnx_set_more_data_flag st f s = (g, t)"
  shows "txqs t = txqs s" "hwqs t = hwqs s" "old_ic t = old_ic s" "tx_host_id t = tx_host_id s" "flow_tbusy t = flow_tbusy s"
    "stas t = stas (upd_sta st (ps_pushed (tq_ps_id (txqs s ! f_txq f))) s)"
    "f_txq g = f_txq f" "f_sta g = f_sta f" "f_id g = f_id f" "f_hw_queue g = f_hw_queue f"
    "\<And>i. pushed_ids i (hw_events t) = pushed_ids i (hw_events s)"
  using assms
  by (auto simp: rwnx_set_more_data_flag_def Let_def rwnx_set_traffic_status_def ps_pushed_def upd_sta_def split: if_splits)

lemma push_to_bus_effect:
  "txqs (push_to_bus f s) = txqs s" "hwqs (push_to_bus f s) = hwqs s" "old_ic (push_to_bus f s) = old_ic s" "stas (push_to_bus f s) = stas s"
  "flow_tbusy (push_to_bus f s) = flow_tbusy s"
  "pushed_ids i (hw_events (push_to_bus f s)) = pushed_ids i (hw_events s) @ (if f_txq f = i then [f_id f] else [])"
  by (auto simp: push_to_bus_def Let_def aicwf_usb_host_txdesc_push_def)

lemma table_ok_slot:
  assumes "table_ok s" and "f_txq f < 297" "f_sta f = owner s (f_txq f)" "f_hw_queue f < 4"
    and "old_ic t = old_ic s" "tx_host_id t = (tx_host_id s)[n := Some f]"
  shows "table_ok t"
proof -
  have "length (tx_host_id t) = USB_TXDESC_CNT" using assms(1,6) by (simp add: table_ok_def)
  moreover have "f_txq g < 297 \<and> f_sta g = owner t (f_txq g) \<and> f_hw_queue g < 4" if "Some g \<in> set (tx_host_id t)" for g
  proof -
    have "Some g \<in> insert (Some f) (set (tx_host_id s))" using that assms(6) set_update_subset_insert by fastforce
    then show ?thesis using assms(1-4) by (auto simp: table_ok_def layout_cong(3) [OF assms(5)])
  qed
  ultimately show ?thesis by (simp add: table_ok_def)
qed

lemma table_ok_cong: "old_ic t = old_ic s \<Longrightarrow> tx_host_id t = tx_host_id s \<Longrightarrow> table_ok t = table_ok s"
  by (simp add: table_ok_def layout_cong(3) [of t s])

lemma push_to_bus_table:
  assumes "table_ok s" and "f_txq f < 297" "f_sta f = owner s (f_txq f)" "f_hw_queue f < 4"
  shows "table_ok (push_to_bus f s)"
proof (cases "needs_cfm f")
  case True
  let ?f = "f\<lparr>f_need_cfm := True, f_status_addr := 0x80000000 OR txdesc_free_idx s\<rparr>"
  have "tx_host_id (push_to_bus f s) = (tx_host_id s)[unat (txdesc_free_idx s) mod USB_TXDESC_CNT := Some ?f]"
    using True by (simp add: push_to_bus_def Let_def aicwf_usb_host_txdesc_push_def)
  from table_ok_slot [OF assms(1) _ _ _ push_to_bus_effect(3) this] assms(2-4) show ?thesis by simp
next
  case False
  then have "tx_host_id (push_to_bus f s) = tx_host_id s" by (simp add: push_to_bus_def)
  with assms(1) show ?thesis by (simp add: table_ok_cong [OF push_to_bus_effect(3)])
qed

lemma push_effect:
  assumes "f_txq f = i"
  shows "txqs (rwnx_tx_push f s) = (txqs s)[i := push_q (txqs s ! i)]" "hwqs (rwnx_tx_push f s) = hwqs s" "old_ic (rwnx_tx_push f s) = old_ic s"
    "flow_tbusy (rwnx_tx_push f s) = flow_tbusy s"
    "stas (rwnx_tx_push f s) = (case f_sta f of None \<Rightarrow> stas s | Some st \<Rightarrow> stas (upd_sta st (ps_pushed (tq_ps_id (txqs s ! i))) s))"
    "pushed_ids j (hw_events (rwnx_tx_push f s)) = pushed_ids j (hw_events s) @ (if i = j then [f_id f] else [])"
    "table_ok s \<Longrightarrow> i < 297 \<Longrightarrow> f_sta f = owner s i \<Longrightarrow> tq_hwq (txqs s ! i) < 4 \<Longrightarrow> table_ok (rwnx_tx_push f s)"
proof -
  let ?f = "f\<lparr>f_hw_queue := tq_hwq (txq_of s i)\<rparr>" and ?s1 = "upd_txq i push_counts s"
  obtain g s2 where g: "(case f_sta f of None \<Rightarrow> (?f, ?s1) | Some st \<Rightarrow> rwnx_set_more_data_flag st ?f ?s1) = (g, s2)" by fastforce
  have ps: "tq_ps_id (txqs ?s1 ! i) = tq_ps_id (txqs s ! i)" by (simp add: push_counts_def)
  have e: "txqs s2 = txqs ?s1" "hwqs s2 = hwqs s" "old_ic s2 = old_ic s" "tx_host_id s2 = tx_host_id s" "flow_tbusy s2 = flow_tbusy s"
    "stas s2 = (case f_sta f of None \<Rightarrow> stas s | Some st \<Rightarrow> stas (upd_sta st (ps_pushed (tq_ps_id (txqs s ! i))) s))"
    "f_txq g = i" "f_sta g = f_sta f" "f_id g = f_id f" "f_hw_queue g = tq_hwq (txqs s ! i)"
    "\<And>j. pushed_ids j (hw_events s2) = pushed_ids j (hw_events s)"
    using g more_data_effect [of _ ?f ?s1 g s2] assms ps by (auto split: option.splits simp: upd_sta_def)
  let ?s3 = "upd_txq i (\<lambda>q. q\<lparr>tq_pkt_pushed := tq_pkt_pushed q + 1, tq_push_limit := if tq_push_limit q = 0 then 0 else tq_push_limit q - 1\<rparr>) s2"
  have t: "rwnx_tx_push f s = push_to_bus g ?s3" using assms g by (simp add: rwnx_tx_push_def Let_def)
  have q: "txqs ?s3 = (txqs s)[i := push_q (txqs s ! i)]"
    by (cases "i < length (txqs s)") (simp_all add: upd_txq_def e(1) push_q_def push_counts_def list_update_beyond)
  show "txqs (rwnx_tx_push f s) = (txqs s)[i := push_q (txqs s ! i)]" "hwqs (rwnx_tx_push f s) = hwqs s" "old_ic (rwnx_tx_push f s) = old_ic s"
    "flow_tbusy (rwnx_tx_push f s) = flow_tbusy s"
    "stas (rwnx_tx_push f s) = (case f_sta f of None \<Rightarrow> stas s | Some st \<Rightarrow> stas (upd_sta st (ps_pushed (tq_ps_id (txqs s ! i))) s))"
    "pushed_ids j (hw_events (rwnx_tx_push f s)) = pushed_ids j (hw_events s) @ (if i = j then [f_id f] else [])"
    using e q by (simp_all add: t push_to_bus_effect)
  show "table_ok (rwnx_tx_push f s)" if "table_ok s" "i < 297" "f_sta f = owner s i" "tq_hwq (txqs s ! i) < 4"
  proof -
    have "old_ic ?s3 = old_ic s" by (simp add: e(3))
    then have "table_ok ?s3" using that(1) by (simp add: table_ok_def e(4) layout_cong [of ?s3 s])
    then show ?thesis
      unfolding t by (rule push_to_bus_table) (use that e layout_cong(3) [of ?s3 s] in simp_all)
  qed
qed

section \<open>Pushing a list of frames of one queue\<close>

lemma pushes_effect:
  assumes "\<forall>f \<in> set fs. f_txq f = i \<and> f_sta f = sta" and "i < length (txqs s)"
  shows "txqs (fold rwnx_tx_push fs s) = (txqs s)[i := (push_q ^^ length fs) (txqs s ! i)]" "hwqs (fold rwnx_tx_push fs s) = hwqs s"
    "old_ic (fold rwnx_tx_push fs s) = old_ic s" "flow_tbusy (fold rwnx_tx_push fs s) = flow_tbusy s"
    "stas (fold rwnx_tx_push fs s) =
       (case sta of None \<Rightarrow> stas s | Some st \<Rightarrow> stas (upd_sta st (ps_pushed (tq_ps_id (txqs s ! i)) ^^ length fs) s))"
    "pushed_ids j (hw_events (fold rwnx_tx_push fs s)) = pushed_ids j (hw_events s) @ (if i = j then map f_id fs else [])"
    "table_ok s \<Longrightarrow> i < 297 \<Longrightarrow> sta = owner s i \<Longrightarrow> tq_hwq (txqs s ! i) < 4 \<Longrightarrow> table_ok (fold rwnx_tx_push fs s)"
proof -
  have "txqs (fold rwnx_tx_push fs s) = (txqs s)[i := (push_q ^^ length fs) (txqs s ! i)] \<and> hwqs (fold rwnx_tx_push fs s) = hwqs s
    \<and> old_ic (fold rwnx_tx_push fs s) = old_ic s \<and> flow_tbusy (fold rwnx_tx_push fs s) = flow_tbusy s
    \<and> stas (fold rwnx_tx_push fs s) =
       (case sta of None \<Rightarrow> stas s | Some st \<Rightarrow> stas (upd_sta st (ps_pushed (tq_ps_id (txqs s ! i)) ^^ length fs) s))
    \<and> pushed_ids j (hw_events (fold rwnx_tx_push fs s)) = pushed_ids j (hw_events s) @ (if i = j then map f_id fs else [])
    \<and> (table_ok s \<and> i < 297 \<and> sta = owner s i \<and> tq_hwq (txqs s ! i) < 4 \<longrightarrow> table_ok (fold rwnx_tx_push fs s))"
    using assms
  proof (induction fs arbitrary: s)
    case Nil
    then show ?case by (simp add: upd_sta_def split: option.splits)
  next
    case (Cons f fs)
    have f: "f_txq f = i" "f_sta f = sta" using Cons.prems by auto
    note e = push_effect [OF f(1), where s = s]
    let ?s = "rwnx_tx_push f s"
    have len: "i < length (txqs ?s)" using Cons.prems(2) e(1) by simp
    have IH: "txqs (fold rwnx_tx_push fs ?s) = (txqs ?s)[i := (push_q ^^ length fs) (txqs ?s ! i)]" "hwqs (fold rwnx_tx_push fs ?s) = hwqs ?s"
      "old_ic (fold rwnx_tx_push fs ?s) = old_ic ?s" "flow_tbusy (fold rwnx_tx_push fs ?s) = flow_tbusy ?s"
      "stas (fold rwnx_tx_push fs ?s) =
         (case sta of None \<Rightarrow> stas ?s | Some st \<Rightarrow> stas (upd_sta st (ps_pushed (tq_ps_id (txqs ?s ! i)) ^^ length fs) ?s))"
      "pushed_ids j (hw_events (fold rwnx_tx_push fs ?s)) = pushed_ids j (hw_events ?s) @ (if i = j then map f_id fs else [])"
      "table_ok ?s \<and> i < 297 \<and> sta = owner ?s i \<and> tq_hwq (txqs ?s ! i) < 4 \<longrightarrow> table_ok (fold rwnx_tx_push fs ?s)"
      using Cons.IH [OF _ len] Cons.prems(1) by simp_all
    have i: "txqs ?s ! i = push_q (txqs s ! i)" using e(1) Cons.prems(2) by simp
    have "stas (fold rwnx_tx_push (f # fs) s) =
        (case sta of None \<Rightarrow> stas s | Some st \<Rightarrow> stas (upd_sta st (ps_pushed (tq_ps_id (txqs s ! i)) ^^ length (f # fs)) s))"
      using IH(5) e(5) f(2) i
      by (auto simp: upd_sta_def funpow_swap1 nth_update_if list_update_beyond not_less split: option.splits)
    moreover have "table_ok s \<and> i < 297 \<and> sta = owner s i \<and> tq_hwq (txqs s ! i) < 4 \<longrightarrow> table_ok (fold rwnx_tx_push (f # fs) s)"
      using IH(7) e(7) f(2) i layout_cong(3) [OF e(3)] by simp
    ultimately show ?case
      using IH(1-4,6) e f(2) i Cons.prems(2) by (simp add: funpow_swap1)
  qed
  then show "txqs (fold rwnx_tx_push fs s) = (txqs s)[i := (push_q ^^ length fs) (txqs s ! i)]" "hwqs (fold rwnx_tx_push fs s) = hwqs s"
    "old_ic (fold rwnx_tx_push fs s) = old_ic s" "flow_tbusy (fold rwnx_tx_push fs s) = flow_tbusy s"
    "stas (fold rwnx_tx_push fs s) =
       (case sta of None \<Rightarrow> stas s | Some st \<Rightarrow> stas (upd_sta st (ps_pushed (tq_ps_id (txqs s ! i)) ^^ length fs) s))"
    "pushed_ids j (hw_events (fold rwnx_tx_push fs s)) = pushed_ids j (hw_events s) @ (if i = j then map f_id fs else [])"
    "table_ok s \<Longrightarrow> i < 297 \<Longrightarrow> sta = owner s i \<Longrightarrow> tq_hwq (txqs s ! i) < 4 \<Longrightarrow> table_ok (fold rwnx_tx_push fs s)"
    by blast+
qed

end
