(* ===== verification/Txq_Round.thy ===== *)
theory Txq_Round
  imports Txq_Sched
begin

text \<open>One round of the processing loop: a queue of the list pushes its batch of frames, leaves the list or stays in it, and the invariant holds again.\<close>

section \<open>A round of the loop\<close>

lemma funpow_push_sel [simp]:
  "tq_idx ((push_q ^^ n) q) = tq_idx q" "tq_status ((push_q ^^ n) q) = tq_status q" "tq_hwq ((push_q ^^ n) q) = tq_hwq q"
  "tq_sk_list ((push_q ^^ n) q) = tq_sk_list q" "tq_credits ((push_q ^^ n) q) = tq_credits q" "tq_sta ((push_q ^^ n) q) = tq_sta q"
  "tq_ps_id ((push_q ^^ n) q) = tq_ps_id q"
  "rwnx_txq_is_scheduled ((push_q ^^ n) q) = rwnx_txq_is_scheduled q" "rwnx_txq_is_stopped ((push_q ^^ n) q) = rwnx_txq_is_stopped q"
  "ps_stopped ((push_q ^^ n) q) = ps_stopped q"
  by (induction n) simp_all

lemma push_q_limit: "unat (tq_push_limit ((push_q ^^ n) q)) = unat (tq_push_limit q) - n"
proof (induction n)
  case (Suc n)
  let ?p = "(push_q ^^ n) q"
  have "unat (tq_push_limit (push_q ?p)) = unat (tq_push_limit ?p) - 1"
    by (auto simp: push_q_def push_counts_def unat_sub_if' unat_eq_0 word_le_nat_alt unat_gt_0 Suc_leI)
  with Suc show ?case by simp
qed simp

lemma push_retry_ok:
  assumes "retry_ok q" and "tq_sk_list q = f # fs"
  shows "retry_ok (push_q (q\<lparr>tq_sk_list := fs\<rparr>))"
proof -
  let ?n = "tq_nb_retry q"
  have n: "0 \<le> ?n" "nat ?n \<le> length fs + 1" using assms by (auto simp: retry_ok_def)
  consider "?n = 0" | "?n = 1" | "1 < ?n" using n by linarith
  then show ?thesis
  proof cases
    case 3
    define k where "k = nat ?n - 2"
    have k: "?n = int (Suc (Suc k))" "nat ?n = Suc (Suc k)" using 3 by (simp_all add: k_def)
    obtain g gs where fs: "fs = g # gs" using n(2) k by (cases fs) auto
    let ?r = "take (Suc k) fs"
    have r: "take (nat ?n) (f # fs) = f # ?r" "?r \<noteq> []" unfolding k(2) using fs by auto
    have "tq_last_retry q = Some (f_id (last ?r))" "f_id (last ?r) \<notin> f_id ` set (butlast (f # ?r))"
      using assms k r by (auto simp: retry_ok_def Let_def)
    then have "f_id (last ?r) \<notin> f_id ` set (butlast ?r)" using r(2) by auto
    then show ?thesis using k \<open>tq_last_retry q = _\<close> n(2) by (simp add: retry_ok_def push_q_def push_counts_def Let_def nat_add_distrib)
  qed (use assms n in \<open>auto simp: retry_ok_def push_q_def push_counts_def Let_def\<close>)
qed

lemma push_q_list: "(push_q ^^ n) (q\<lparr>tq_sk_list := l\<rparr>) = ((push_q ^^ n) q)\<lparr>tq_sk_list := l\<rparr>"
  by (induction n) (simp_all add: push_q_def push_counts_def)

lemma pushes_retry_ok:
  assumes "retry_ok q" and "n \<le> length (tq_sk_list q)"
  shows "retry_ok ((push_q ^^ n) (q\<lparr>tq_sk_list := drop n (tq_sk_list q)\<rparr>))"
  using assms(2)
proof (induction n)
  case 0
  then show ?case using assms(1) by (simp add: retry_ok_def)
next
  case (Suc n)
  let ?p = "(push_q ^^ n) (q\<lparr>tq_sk_list := drop n (tq_sk_list q)\<rparr>)"
  have l: "tq_sk_list ?p = tq_sk_list q ! n # drop (Suc n) (tq_sk_list q)" using Suc.prems by (simp add: Cons_nth_drop_Suc)
  have "retry_ok (push_q (?p\<lparr>tq_sk_list := drop (Suc n) (tq_sk_list q)\<rparr>))" by (rule push_retry_ok [OF _ l]) (use Suc in simp)
  then show ?case by (simp add: push_q_list)
qed

definition batch :: "rwnx_txq \<Rightarrow> nat" where
  "batch q = min (length (tq_sk_list q)) (nat (rwnx_txq_get_credits q))"

definition batch_ends :: "rwnx_txq \<Rightarrow> bool" where
  "batch_ends q \<longleftrightarrow> int (length (tq_sk_list q)) \<le> rwnx_txq_get_credits q \<or> tq_push_limit q \<noteq> 0 \<and> rwnx_txq_get_credits q = uint (tq_push_limit q)"

lemma get_skb_batch:
  assumes "i < length (txqs s)"
  shows "rwnx_txq_get_skb_to_push i s =
    (batch_ends (txqs s ! i), take (batch (txqs s ! i)) (tq_sk_list (txqs s ! i)),
     upd_txq i (\<lambda>q. q\<lparr>tq_sk_list := drop (batch (txqs s ! i)) (tq_sk_list (txqs s ! i))\<rparr>) s)"
proof (cases "int (length (tq_sk_list (txqs s ! i))) \<le> rwnx_txq_get_credits (txqs s ! i)")
  case True
  then have "batch (txqs s ! i) = length (tq_sk_list (txqs s ! i))" by (simp add: batch_def min_def) linarith
  with True show ?thesis by (simp add: rwnx_txq_get_skb_to_push_def batch_ends_def Let_def)
next
  case False
  then have "nat (rwnx_txq_get_credits (txqs s ! i)) \<le> length (tq_sk_list (txqs s ! i))" by linarith
  then have "batch (txqs s ! i) = nat (rwnx_txq_get_credits (txqs s ! i))" by (simp add: batch_def)
  with False show ?thesis by (simp add: rwnx_txq_get_skb_to_push_def batch_ends_def Let_def upd_txq_def)
qed

lemma batch_left: "tq_sk_list q \<noteq> [] \<Longrightarrow> drop (batch q) (tq_sk_list q) = [] \<longleftrightarrow> int (length (tq_sk_list q)) \<le> rwnx_txq_get_credits q"
  by (cases "tq_sk_list q") (auto simp: batch_def le_nat_iff)

lemma batch_pos: "0 < sint (tq_credits q) \<Longrightarrow> tq_sk_list q \<noteq> [] \<Longrightarrow> 0 < batch q"
  using credits_pos [of q] by (simp add: batch_def)

lemma but_change:
  assumes "base_but i s" and "sched_ok t" "table_ok t" "stas_upto s t i" and "length (txqs t) = length (txqs s)" "length (hwqs t) = length (hwqs s)"
    "\<And>j. j < 297 \<Longrightarrow> j \<noteq> i \<Longrightarrow> txqs t ! j = txqs s ! j" "tq_hwq (txqs t ! i) < 4"
  shows "base_but i t"
proof -
  note u = stas_uptoD [OF assms(4)]
  have st: "txq_static s" using assms(1) by (simp add: base_but_def)
  have "s_vif_idx (stas t ! k) = s_vif_idx (stas s ! k)" if "k < length (stas s)" for k
  proof -
    have "map s_vif_idx (stas t) = map s_vif_idx (stas s)" using assms(4) by (simp add: stas_upto_def)
    from arg_cong [OF this, of "\<lambda>l. l ! k"] that u(2) show ?thesis by simp
  qed
  then have "txq_static t"
    using st assms(5,6) u(2) by (auto simp: txq_static_def layout_cong(1) [OF u(1)])
  then show ?thesis
    using assms qbase_cong [OF u(1)] by (simp add: base_but_def)
qed

lemma sched_rotate:
  assumes "sched_ok s"
  shows "sched_ok (upd_hwq h (\<lambda>x. x\<lparr>hq_list := rotate1 (hq_list x)\<rparr>) s)"
  using assms by (simp add: sched_ok_def)

lemma but_after_push:
  assumes "base_but i s"
  shows "base_but i (after_push h i e s)"
proof -
  have z: "base_but i (upd_txq i (\<lambda>q. q\<lparr>tq_pkt_sent := 0\<rparr>) t)" if "base_but i t" for t
    using but_upd [OF that] by (simp add: rwnx_txq_is_scheduled_def)
  have r: "base_but i (upd_hwq h (\<lambda>x. x\<lparr>hq_list := rotate1 (hq_list x)\<rparr>) t)" if "base_but i t" for t
    by (rule but_cong [OF that sched_rotate]) (use that in \<open>simp_all add: base_but_def\<close>)
  show ?thesis using z r but_del assms by (simp add: after_push_def)
qed


lemma after_push_effect:
  assumes "base_but i s" and "h < 4" and "i \<in> set (hq_list (hwqs s ! h))" and "t = after_push h i e s"
  shows "stas t = stas s" "old_ic t = old_ic s" "tx_host_id t = tx_host_id s" "hw_events t = hw_events s" "length (txqs t) = length (txqs s)"
    "length (hwqs t) = length (hwqs s)"
    "j \<noteq> i \<Longrightarrow> txqs t ! j = txqs s ! j"
    "\<exists>n. txqs t ! i = (if e then unscheduled_q (txqs s ! i) else txqs s ! i)\<lparr>tq_pkt_sent := n\<rparr>"
    "hq_list (hwqs t ! h) =
       (if e then remove1 i (hq_list (hwqs s ! h))
        else if hq_size (hwqs s ! h) < tq_pkt_sent (txqs s ! i) then rotate1 (hq_list (hwqs s ! h)) else hq_list (hwqs s ! h))"
    "k < 4 \<Longrightarrow> k \<noteq> h \<Longrightarrow> hq_list (hwqs t ! k) = hq_list (hwqs s ! k)"
    "k < 4 \<Longrightarrow> hq_need (hwqs t ! k) = hq_need (hwqs s ! k)"
proof -
  note l = butD [OF assms(1)]
  have sch: "rwnx_txq_is_scheduled (txqs s ! i)" "tq_hwq (txqs s ! i) = h"
    using assms(2,3) l(2,5) by (auto simp: sched_ok_def)
  show "stas t = stas s" "old_ic t = old_ic s" "tx_host_id t = tx_host_id s" "hw_events t = hw_events s" "length (txqs t) = length (txqs s)"
    "length (hwqs t) = length (hwqs s)"
    by (simp_all add: assms(4) after_push_def)
  show "j \<noteq> i \<Longrightarrow> txqs t ! j = txqs s ! j" using l by (simp add: assms(4) after_push_def del_nth)
  show "\<exists>n. txqs t ! i = (if e then unscheduled_q (txqs s ! i) else txqs s ! i)\<lparr>tq_pkt_sent := n\<rparr>"
  proof (cases e)
    case True
    then show ?thesis using l by (auto simp: assms(4) after_push_def del_nth)
  next
    case False
    have "\<exists>n. txqs s ! i = (txqs s ! i)\<lparr>tq_pkt_sent := n\<rparr>" by (rule exI [of _ "tq_pkt_sent (txqs s ! i)"]) simp
    with False l show ?thesis by (auto simp: assms(4) after_push_def)
  qed
  show "hq_list (hwqs t ! h) =
       (if e then remove1 i (hq_list (hwqs s ! h))
        else if hq_size (hwqs s ! h) < tq_pkt_sent (txqs s ! i) then rotate1 (hq_list (hwqs s ! h)) else hq_list (hwqs s ! h))"
    using del_lists [OF assms(1,2)] assms(2) l sch by (simp add: assms(4) after_push_def)
  show "hq_list (hwqs t ! k) = hq_list (hwqs s ! k)" if "k < 4" "k \<noteq> h"
  proof -
    have "i \<notin> set (hq_list (hwqs s ! k))" using sch(2) that l(2,5) by (auto simp: sched_ok_def)
    then show ?thesis using del_lists [OF assms(1) that(1)] that l by (simp add: assms(4) after_push_def remove1_idem)
  qed
  show "k < 4 \<Longrightarrow> hq_need (hwqs t ! k) = hq_need (hwqs s ! k)"
    using l assms(2) by (simp add: assms(4) after_push_def rwnx_txq_del_from_hw_list_def)
qed

lemma end_sp_effect:
  assumes "base_but i s" and "tq_sta (txqs s ! i) = owner s i" and "t = end_legacy_sp i s"
  shows "hwqs t = hwqs s" "old_ic t = old_ic s" "tx_host_id t = tx_host_id s" "hw_events t = hw_events s" "length (txqs t) = length (txqs s)"
    "j \<noteq> i \<Longrightarrow> txqs t ! j = txqs s ! j" "stas_upto s t i" "pkt_ready (stas t ! st) = pkt_ready (stas s ! st)"
    "\<exists>n \<le> tq_push_limit (txqs s ! i). txqs t ! i = (txqs s ! i)\<lparr>tq_push_limit := n\<rparr>"
proof -
  note l = butD [OF assms(1)]
  show "hwqs t = hwqs s" "old_ic t = old_ic s" "tx_host_id t = tx_host_id s" "hw_events t = hw_events s" "length (txqs t) = length (txqs s)"
    by (simp_all add: assms(3) end_legacy_sp_def Let_def split: option.splits)
  show "j \<noteq> i \<Longrightarrow> txqs t ! j = txqs s ! j" "pkt_ready (stas t ! st) = pkt_ready (stas s ! st)"
    by (auto simp: assms(3) end_legacy_sp_def Let_def split: option.splits)
  show "stas_upto s t i"
  proof -
    have "stas_upto s (upd_txq i f u) i = stas_upto s u i" for f u by (simp add: stas_upto_def)
    then show ?thesis using assms(2) upd_ready_upto(2) [of s i]
      by (auto simp: assms(3) end_legacy_sp_def Let_def stas_upto_refl split: option.splits)
  qed
  have "\<exists>n \<le> tq_push_limit (txqs s ! i). txqs s ! i = (txqs s ! i)\<lparr>tq_push_limit := n\<rparr>"
    by (rule exI [of _ "tq_push_limit (txqs s ! i)"]) simp
  moreover have "\<exists>n \<le> tq_push_limit (txqs s ! i). (txqs s ! i)\<lparr>tq_push_limit := 0\<rparr> = (txqs s ! i)\<lparr>tq_push_limit := n\<rparr>"
    by (rule exI [of _ 0]) simp
  ultimately show "\<exists>n \<le> tq_push_limit (txqs s ! i). txqs t ! i = (txqs s ! i)\<lparr>tq_push_limit := n\<rparr>"
    using l by (auto simp: assms(3) end_legacy_sp_def Let_def split: option.splits)
qed

lemma restart_effect:
  assumes "i < length (txqs s)" and "t = flow_restart i s"
  shows "txqs t ! i = flow_restart_q (txqs s ! i)" "j \<noteq> i \<Longrightarrow> txqs t ! j = txqs s ! j" "pushed_ids j (hw_events t) = pushed_ids j (hw_events s)"
  using assms by (auto simp: flow_effect) (auto simp: flow_restart_def Let_def)


lemma map_upd_same: "f y = f (xs ! i) \<Longrightarrow> map f (xs[i := y]) = map f xs"
  by (rule nth_equalityI) (auto simp: nth_update_if)

lemma sched_cong:
  assumes "sched_ok s" and "length (txqs t) = length (txqs s)" "hwqs t = hwqs s"
    and "\<And>j. rwnx_txq_is_scheduled (txqs t ! j) = rwnx_txq_is_scheduled (txqs s ! j) \<and> tq_hwq (txqs t ! j) = tq_hwq (txqs s ! j)"
  shows "sched_ok t"
  using assms by (simp add: sched_ok_def)

lemma push_batch_effect:
  assumes "txq_invx {} s" and "i < 297" and "txq_active (txqs s ! i)" and "n \<le> length (tq_sk_list (txqs s ! i))"
    and "t = fold rwnx_tx_push (take n (tq_sk_list (txqs s ! i))) (upd_txq i (\<lambda>q. q\<lparr>tq_sk_list := drop n (tq_sk_list (txqs s ! i))\<rparr>) s)"
  shows "base_but i t" "txqs t = (txqs s)[i := (push_q ^^ n) ((txqs s ! i)\<lparr>tq_sk_list := drop n (tq_sk_list (txqs s ! i))\<rparr>)]" "stas_upto s t i"
    "hwqs t = hwqs s"
    "pushed_ids j (hw_events t) = pushed_ids j (hw_events s) @ (if i = j then map f_id (take n (tq_sk_list (txqs s ! i))) else [])"
    "owner s i = Some st \<Longrightarrow> stas t = stas (upd_sta st (ps_pushed (tq_ps_id (txqs s ! i)) ^^ n) s)"
proof -
  note d = invxD [OF assms(1)]
  note b = d(6) [OF assms(2)]
  let ?q = "txqs s ! i" and ?p = "(txqs s ! i)\<lparr>tq_sk_list := drop n (tq_sk_list (txqs s ! i))\<rparr>"
  define s1 where "s1 = upd_txq i (\<lambda>q. q\<lparr>tq_sk_list := drop n (tq_sk_list (txqs s ! i))\<rparr>) s"
  have qb: "qbase s i ?q" using d(4) [OF assms(2)] .
  have own: "\<forall>f \<in> set (take n (tq_sk_list ?q)). f_txq f = i \<and> f_sta f = owner s i"
    using qb by (auto simp: qbase_def dest: in_set_takeD)
  have s1: "txqs s1 = (txqs s)[i := ?p]" "hwqs s1 = hwqs s" "old_ic s1 = old_ic s" "stas s1 = stas s" "hw_events s1 = hw_events s"
    "tx_host_id s1 = tx_host_id s" "txqs s1 ! i = ?p"
    using assms(2) d(7) by (simp_all add: s1_def upd_txq_def)
  note e = pushes_effect [OF own, of s1, folded assms(5) [folded s1_def]]
  have len: "i < length (txqs s1)" "length (take n (tq_sk_list ?q)) = n" using assms(2,4) d(7) s1 by simp_all
  show q: "txqs t = (txqs s)[i := (push_q ^^ n) ?p]"
    using e(1) [OF len(1)] s1 len(2) by simp
  show hw: "hwqs t = hwqs s" using e(2) len s1 by simp
  show "pushed_ids j (hw_events t) = pushed_ids j (hw_events s) @ (if i = j then map f_id (take n (tq_sk_list (txqs s ! i))) else [])"
    using e(6) [OF len(1)] s1 by simp
  have st: "stas t = (case owner s i of None \<Rightarrow> stas s | Some st \<Rightarrow> stas (upd_sta st (ps_pushed (tq_ps_id (txqs s ! i)) ^^ n) s))"
    using e(5) [OF len(1)] s1 len(2) by (simp add: upd_sta_def split: option.splits)
  then show "owner s i = Some st \<Longrightarrow> stas t = stas (upd_sta st (ps_pushed (tq_ps_id (txqs s ! i)) ^^ n) s)" by simp
  have ic: "old_ic t = old_ic s" using e(3) len s1 by simp
  have pp: "s_vif_idx ((ps_pushed k ^^ n) x) = s_vif_idx x \<and> ps_active ((ps_pushed k ^^ n) x) = ps_active x" for k x
    by (induction n) (simp_all add: ps_pushed_def)
  show upto: "stas_upto s t i"
  proof (cases "owner s i")
    case None
    then show ?thesis using ic st by (intro stas_upto_refl) simp_all
  next
    case (Some st)
    let ?f = "ps_pushed (tq_ps_id (txqs s ! i)) ^^ n"
    have "stas t = (stas s)[st := ?f (stas s ! st)]" using st Some by (simp add: upd_sta_def)
    moreover have "map s_vif_idx ((stas s)[st := ?f (stas s ! st)]) = map s_vif_idx (stas s)"
      "map ps_active ((stas s)[st := ?f (stas s ! st)]) = map ps_active (stas s)"
      by (rule map_upd_same, simp only: pp)+
    ultimately show ?thesis using ic Some by (simp add: stas_upto_def)
  qed
  have "table_ok s1" using b by (simp add: base_but_def table_ok_cong [OF s1(3,6)])
  then have "table_ok t"
  proof (rule e(7) [OF len(1)])
    show "owner s i = owner s1 i" by (rule sym, rule layout_cong(3) [OF s1(3)])
    show "tq_hwq (txqs s1 ! i) < 4" unfolding s1(7) using qb by (simp add: qbase_def)
  qed (use assms(2) in simp)
  moreover have "sched_ok t"
  proof (rule sched_cong [OF butD(5) [OF b] _ hw])
    show "length (txqs t) = length (txqs s)" by (simp add: q)
    have "rwnx_txq_is_scheduled ((push_q ^^ n) ?p) = rwnx_txq_is_scheduled ?q" "tq_hwq ((push_q ^^ n) ?p) = tq_hwq ?q"
      by (simp_all only: funpow_push_sel) (simp_all add: rwnx_txq_is_scheduled_def)
    then show "rwnx_txq_is_scheduled (txqs t ! j) = rwnx_txq_is_scheduled (txqs s ! j) \<and> tq_hwq (txqs t ! j) = tq_hwq (txqs s ! j)" for j
      by (cases "i = j") (auto simp only: q nth_update_if split: if_splits)
  qed
  ultimately show "base_but i t"
    by (intro but_change [OF b _ _ upto]) (use q hw qb in \<open>simp_all add: nth_update_if qbase_def\<close>)
qed


lemma ps_pushed_ready:
  assumes "ps_active x"
  shows "pkt_ready ((ps_pushed k ^^ n) x) j = (if j = k then pkt_ready x k - word_of_nat n else pkt_ready x j)"
    and "ps_active ((ps_pushed k ^^ n) x)"
proof -
  have "ps_active ((ps_pushed k ^^ n) x) \<and> pkt_ready ((ps_pushed k ^^ n) x) j = (if j = k then pkt_ready x k - word_of_nat n else pkt_ready x j)"
    using assms by (induction n) (auto simp: ps_pushed_def)
  then show "pkt_ready ((ps_pushed k ^^ n) x) j = (if j = k then pkt_ready x k - word_of_nat n else pkt_ready x j)" "ps_active ((ps_pushed k ^^ n) x)"
    by blast+
qed

text \<open>The queue a round works on, after it.\<close>

lemma qbase_round:
  assumes "qbase s i q" and "txq_active q" and "tq_sk_list q \<noteq> []" and "rwnx_txq_is_scheduled q"
    and p: "p = (push_q ^^ batch q) (q\<lparr>tq_sk_list := drop (batch q) (tq_sk_list q)\<rparr>)"
    and r: "r = flow_restart_q (((if batch_ends q then unscheduled_q p else p)\<lparr>tq_pkt_sent := n\<rparr>)\<lparr>tq_push_limit := l\<rparr>)" and "l \<le> tq_push_limit p"
  shows "qbase s i r" "tq_idx r = tq_idx q" "tq_sk_list r = drop (batch q) (tq_sk_list q)" "ps_stopped r = ps_stopped q" "tq_hwq r = tq_hwq q"
    "rwnx_txq_is_scheduled r = (\<not> batch_ends q)"
proof -
  have m: "batch q \<le> length (tq_sk_list q)" by (simp add: batch_def)
  have st: "rwnx_txq_is_scheduled (q\<lparr>tq_pkt_sent := n, tq_push_limit := l\<rparr>) = rwnx_txq_is_scheduled q"
    "rwnx_txq_is_stopped (q\<lparr>tq_pkt_sent := n, tq_push_limit := l\<rparr>) = rwnx_txq_is_stopped q"
    "ps_stopped (q\<lparr>tq_pkt_sent := n, tq_push_limit := l\<rparr>) = ps_stopped q"
    "retry_ok (q\<lparr>tq_pkt_sent := n, tq_push_limit := l\<rparr>) = retry_ok q" for q :: rwnx_txq
    by (simp_all add: rwnx_txq_is_scheduled_def rwnx_txq_is_stopped_def ps_stopped_def retry_ok_def)
  have lst: "rwnx_txq_is_scheduled (q\<lparr>tq_sk_list := x\<rparr>) = rwnx_txq_is_scheduled q" "rwnx_txq_is_stopped (q\<lparr>tq_sk_list := x\<rparr>) = rwnx_txq_is_stopped q"
    "ps_stopped (q\<lparr>tq_sk_list := x\<rparr>) = ps_stopped q" for x
    by (simp_all add: rwnx_txq_is_scheduled_def rwnx_txq_is_stopped_def ps_stopped_def)
  have rp: "retry_ok p" using pushes_retry_ok [OF _ m] assms(1,2) by (simp add: p qbase_def)
  have f: "tq_idx r = tq_idx q" "tq_hwq r = tq_hwq q" "tq_sk_list r = drop (batch q) (tq_sk_list q)" "tq_credits r = tq_credits q"
    "tq_sta r = tq_sta q" "tq_ps_id r = tq_ps_id q" "tq_push_limit r = l" "ps_stopped r = ps_stopped q" "rwnx_txq_is_stopped r = rwnx_txq_is_stopped q"
    "retry_ok r" "rwnx_txq_is_scheduled r = (\<not> batch_ends q)"
    using rp assms(4) by (simp_all add: r st p lst)
  show "tq_idx r = tq_idx q" "tq_sk_list r = drop (batch q) (tq_sk_list q)" "ps_stopped r = ps_stopped q" "tq_hwq r = tq_hwq q"
    "rwnx_txq_is_scheduled r = (\<not> batch_ends q)"
    using f by simp_all
  have lim: "unat l \<le> length (tq_sk_list r)" "l \<noteq> 0 \<longrightarrow> tq_push_limit q \<noteq> 0"
  proof -
    have le: "unat l \<le> unat (tq_push_limit q) - batch q" using assms(7) push_q_limit [of "batch q"] by (simp add: p word_le_nat_alt)
    have "unat (tq_push_limit q) \<le> length (tq_sk_list q)" using assms(1,2) by (simp add: qbase_def)
    with le show "unat l \<le> length (tq_sk_list r)" using f(3) by simp
    show "l \<noteq> 0 \<longrightarrow> tq_push_limit q \<noteq> 0" using le by (auto simp: unat_eq_0)
  qed
  note left = batch_left [OF assms(3), folded f(3)]
  have 1: "rwnx_txq_is_scheduled r \<longrightarrow> tq_sk_list r \<noteq> []" using left f(11) by (auto simp: batch_ends_def)
  have 2: "\<not> rwnx_txq_is_stopped r \<and> tq_sk_list r \<noteq> [] \<longrightarrow> rwnx_txq_is_scheduled r"
  proof (intro impI, elim conjE, rule ccontr)
    assume a: "\<not> rwnx_txq_is_stopped r" "tq_sk_list r \<noteq> []" "\<not> rwnx_txq_is_scheduled r"
    then have "tq_push_limit q \<noteq> 0" using left f(11) by (auto simp: batch_ends_def)
    then have "ps_stopped q" using assms(1,2) by (simp add: qbase_def)
    then have "rwnx_txq_is_stopped q" by (auto simp: ps_stopped_def rwnx_txq_is_stopped_def RWNX_TXQ_STOP_def flag_simps)
    with a f show False by simp
  qed
  have own: "\<forall>f \<in> set (tq_sk_list r). f_txq f = i \<and> f_sta f = owner s i"
    using assms(1) f(3) by (auto simp: qbase_def dest: in_set_dropD)
  have c: "0 < sint (tq_credits q)" "tq_sta q = owner s i" "first_vif_txq_idx s \<le> i \<longrightarrow> tq_ps_id q = LEGACY_PS_ID" "tq_hwq q < 4"
    "tq_push_limit q \<noteq> 0 \<longrightarrow> ps_stopped q" "first_vif_txq_idx s \<le> i \<and> owner s i \<noteq> None \<longrightarrow> tq_hwq q = RWNX_HWQ_BE"
    using assms(1,2) unfolding qbase_def by blast+
  show "qbase s i r"
    unfolding qbase_def f(1,2,4-9) using own c f(10) 1 2 lim f(9) by blast
qed


lemma but_end_sp:
  assumes "base_but i s" and "tq_sta (txqs s ! i) = owner s i"
  shows "base_but i (end_legacy_sp i s)"
proof -
  let ?t = "end_legacy_sp i s"
  note e = end_sp_effect [OF assms refl]
  obtain n where n: "txqs ?t ! i = (txqs s ! i)\<lparr>tq_push_limit := n\<rparr>" using e(9) by blast
  have "rwnx_txq_is_scheduled (txqs ?t ! j) = rwnx_txq_is_scheduled (txqs s ! j) \<and> tq_hwq (txqs ?t ! j) = tq_hwq (txqs s ! j)" for j
    using e(6) [of j] n by (cases "j = i") (simp_all add: rwnx_txq_is_scheduled_def)
  then have "sched_ok ?t" by (intro sched_cong [OF butD(5) [OF assms(1)] e(5) e(1)])
  moreover have "table_ok ?t" using assms(1) by (simp add: base_but_def table_ok_cong [OF e(2,3)])
  ultimately show ?thesis
    by (rule but_change [OF assms(1) _ _ e(7) e(5)]) (use e(1,6) n butD(4) [OF assms(1)] in simp_all)
qed

lemma but_restart: "base_but i s \<Longrightarrow> base_but i (flow_restart i s)"
  by (auto simp: flow_restart_def Let_def clear_status_def flow_flag intro!: but_upd)

lemma round_effect:
  assumes "txq_invx {} s" and "h < 4" and "i \<in> set (hq_list (hwqs s ! h))" and "txq_active (txqs s ! i)" and t: "t = hwq_round h i s"
  shows "txq_invx {} t" "txq_active (txqs t ! i)" "j \<noteq> i \<Longrightarrow> txqs t ! j = txqs s ! j"
    "tq_sk_list (txqs t ! i) = drop (batch (txqs s ! i)) (tq_sk_list (txqs s ! i))"
    "rwnx_txq_is_scheduled (txqs t ! i) = (\<not> batch_ends (txqs s ! i))"
    "pushed_ids j (hw_events t) = pushed_ids j (hw_events s) @ (if i = j then map f_id (take (batch (txqs s ! i)) (tq_sk_list (txqs s ! i))) else [])"
    "hq_list (hwqs t ! h) \<in> {remove1 i (hq_list (hwqs s ! h)), rotate1 (hq_list (hwqs s ! h)), hq_list (hwqs s ! h)}"
    "k < 4 \<Longrightarrow> k \<noteq> h \<Longrightarrow> hq_list (hwqs t ! k) = hq_list (hwqs s ! k)"
    "k < 4 \<Longrightarrow> hq_need (hwqs t ! k) = hq_need (hwqs s ! k)" "tq_hwq (txqs t ! i) = tq_hwq (txqs s ! i)"
proof -
  let ?q = "txqs s ! i" and ?l = "tq_sk_list (txqs s ! i)"
  note d = invxD [OF assms(1)]
  have hl: "length (hwqs s) = 4" using d(1) by (rule baseD(2))
  have i: "i < 297" "rwnx_txq_is_scheduled ?q" "tq_hwq ?q = h"
    using assms(2,3) d(7) hl baseD(4) [OF d(1)] by (auto simp: sched_ok_def)
  note b = d(6) [OF i(1)] and qb = d(4) [OF i(1)]
  have ne: "?l \<noteq> []" using qb assms(4) i(2) by (simp add: qbase_def)
  have m: "batch ?q \<le> length ?l" by (simp add: batch_def)
  define p where "p = (push_q ^^ batch ?q) (?q\<lparr>tq_sk_list := drop (batch ?q) ?l\<rparr>)"
  define s2 where "s2 = fold rwnx_tx_push (take (batch ?q) ?l) (upd_txq i (\<lambda>q. q\<lparr>tq_sk_list := drop (batch ?q) ?l\<rparr>) s)"
  define s3 where "s3 = after_push h i (batch_ends ?q) s2"
  define s4 where "s4 = end_legacy_sp i s3"
  have t4: "t = flow_restart i s4"
    using get_skb_batch [of i s] i(1) d(7) by (simp add: t hwq_round_def s2_def s3_def s4_def)
  note e2 = push_batch_effect [OF assms(1) i(1) assms(4) m s2_def]
  have l2: "length (txqs s2) = 297" using e2(2) d(7) by simp
  have q2: "txqs s2 ! i = p" "j \<noteq> i \<Longrightarrow> txqs s2 ! j = txqs s ! j" for j using e2(2) i(1) d(7) by (simp_all add: p_def)
  have in2: "i \<in> set (hq_list (hwqs s2 ! h))" using assms(3) e2(4) by simp
  note e3 = after_push_effect [OF e2(1) assms(2) in2 s3_def]
  have b3: "base_but i s3" unfolding s3_def by (rule but_after_push [OF e2(1)])
  obtain n where n: "txqs s3 ! i = (if batch_ends ?q then unscheduled_q p else p)\<lparr>tq_pkt_sent := n\<rparr>" using e3(8) q2(1) by metis
  have own3: "owner s3 i = owner s i" using layout_cong(3) e3(2) stas_uptoD(1) [OF e2(3)] by metis
  have "tq_sta (txqs s3 ! i) = owner s3 i" using n qb assms(4) by (simp add: own3 p_def qbase_def)
  note e4 = end_sp_effect [OF b3 this s4_def]
  obtain l where l: "l \<le> tq_push_limit (txqs s3 ! i)" "txqs s4 ! i = (txqs s3 ! i)\<lparr>tq_push_limit := l\<rparr>" using e4(9) by blast
  have lp: "l \<le> tq_push_limit p" using l(1) n by (simp split: if_splits)
  have len4: "i < length (txqs s4)" using e4(5) e3(5) l2 i(1) by simp
  note e5 = restart_effect [OF len4 t4]
  have r: "txqs t ! i = flow_restart_q (((if batch_ends ?q then unscheduled_q p else p)\<lparr>tq_pkt_sent := n\<rparr>)\<lparr>tq_push_limit := l\<rparr>)"
    using e5(1) l(2) n by simp
  note fin = qbase_round [OF qb assms(4) ne i(2) p_def r lp]
  show oth: "txqs t ! j = txqs s ! j" if "j \<noteq> i" for j using e5(2) e4(6) e3(7) q2(2) that by metis
  show "txq_active (txqs t ! i)" using assms(4) fin(2) by simp
  show "tq_sk_list (txqs t ! i) = drop (batch ?q) ?l" "rwnx_txq_is_scheduled (txqs t ! i) = (\<not> batch_ends ?q)" "tq_hwq (txqs t ! i) = tq_hwq ?q"
    using fin by simp_all
  show "pushed_ids j (hw_events t) = pushed_ids j (hw_events s) @ (if i = j then map f_id (take (batch ?q) ?l) else [])"
    using e5(3) e4(4) e3(4) e2(5) by simp
  have hw: "hwqs t = hwqs s3" using e4(1) t4 by simp
  show "hq_list (hwqs t ! h) \<in> {remove1 i (hq_list (hwqs s ! h)), rotate1 (hq_list (hwqs s ! h)), hq_list (hwqs s ! h)}"
    using e3(9) e2(4) by (simp add: hw)
  show "hq_list (hwqs t ! k) = hq_list (hwqs s ! k)" if "k < 4" "k \<noteq> h" for k using e3(10) [OF that] e2(4) by (simp add: hw)
  show "hq_need (hwqs t ! k) = hq_need (hwqs s ! k)" if "k < 4" for k using e3(11) [OF that] e2(4) by (simp add: hw)
  have u34: "stas_upto s s4 i"
  proof -
    have "stas_upto s s3 i" using e2(3) e3(1,2) by (simp add: stas_upto_def)
    then show ?thesis using e4(7) by (rule stas_upto_trans)
  qed
  have upto: "stas_upto s t i" using u34 by (simp add: t4 stas_upto_def)
  have rdy: "pkt_ready (stas t ! st) = pkt_ready (stas s2 ! st)" for st using e4(8) e3(1) by (simp add: t4)
  have bt: "base_but i t" unfolding t4 by (rule but_restart) (unfold s4_def, rule but_end_sp [OF b3 \<open>tq_sta (txqs s3 ! i) = owner s3 i\<close>])
  show "txq_invx {} t"
  proof (rule inv_single_ps [OF assms(1) bt upto oth fin(1)])
    show "sta_ok t"
      unfolding sta_ok_def layout_cong [OF stas_uptoD(1) [OF upto]] stas_uptoD(2) [OF upto] rdy
    proof (intro allI impI, elim conjE)
      fix st assume a: "st < length (stas s)" "is_multicast_sta s st" "ps_active (stas t ! st)"
      then have p: "ps_active (stas s ! st)" using stas_uptoD(3) [OF upto] by simp
      then have u: "pkt_ready (stas s ! st) UAPSD_ID = 0" using a d(3) by (simp add: sta_ok_def)
      show "pkt_ready (stas s2 ! st) UAPSD_ID = 0"
      proof (cases "owner s i = Some st")
        case True
        have "tq_ps_id ?q = LEGACY_PS_ID" using qb owner_multicast [OF True] a(2) by (simp add: qbase_def)
        then show ?thesis
          using e2(6) [OF True] ps_pushed_ready(1) [OF p] u a(1) by (simp add: LEGACY_PS_ID_def UAPSD_ID_def)
      qed (use u stas_uptoD(4) [OF e2(3)] in simp)
    qed
    show "qps t i (txqs t ! i)"
      unfolding qps_def fin(2-4) layout_cong [OF stas_uptoD(1) [OF upto]] rdy r [symmetric]
    proof (intro allI impI)
      fix st assume a: "txq_active ?q \<and> owner s i = Some st \<and> ps_active (stas t ! st)"
      have st: "st < length (stas s)" using a owner_lt [OF d(8)] by blast
      then have p: "ps_active (stas s ! st)" using stas_uptoD(3) [OF upto] a by blast
      have o: "ps_stopped ?q \<and> (is_multicast_sta s st \<longrightarrow> pkt_ready (stas s ! st) LEGACY_PS_ID = word_of_nat (length ?l))"
        using d(5) [OF i(1)] a p by (auto simp: qps_def)
      have "pkt_ready (stas s2 ! st) LEGACY_PS_ID = word_of_nat (length (drop (batch ?q) ?l))" if "is_multicast_sta s st"
      proof -
        have "tq_ps_id ?q = LEGACY_PS_ID" using qb owner_multicast [of s i st] a that by (simp add: qbase_def)
        then show ?thesis using e2(6) [of st] a ps_pushed_ready(1) [OF p] st o that m by (simp add: of_nat_diff)
      qed
      with o show "ps_stopped ?q \<and> (is_multicast_sta s st \<longrightarrow> pkt_ready (stas s2 ! st) LEGACY_PS_ID = word_of_nat (length (drop (batch ?q) ?l)))"
        by blast
    qed
  qed
qed

end
