(* ===== verification/Txq_Process.thy ===== *)
theory Txq_Process
  imports Txq_Round
begin

text \<open>The processing loop as a whole: it ends, it serves every queue that was in the list when it began, and what each queue has pushed is a prefix of its frames.\<close>

section \<open>The loop\<close>

text \<open>What is still ahead of the cursor.\<close>

definition ahead :: "nat option \<Rightarrow> nat list \<Rightarrow> nat list" where
  "ahead cur l = (case cur of None \<Rightarrow> [] | Some i \<Rightarrow> dropWhile (\<lambda>j. j \<noteq> i) l)"

lemma dropWhile_at: "i \<notin> set xs \<Longrightarrow> dropWhile (\<lambda>j. j \<noteq> i) (xs @ i # ys) = i # ys"
  by (induction xs) auto

lemma ahead_next:
  assumes "distinct l" and "i \<in> set l" and "l' \<in> {remove1 i l, rotate1 l, l}"
  shows "set (ahead (Some i) l) \<subseteq> insert i (set (ahead (next_in i l) l'))"
    "next_in i l = Some k \<Longrightarrow> k \<in> set l' \<and> k \<noteq> i"
proof -
  obtain xs ys where l: "l = xs @ i # ys" "i \<notin> set xs" "i \<notin> set ys"
    using assms(1,2) by (metis distinct.simps(2) distinct_append not_distinct_conv_prefix split_list_first)
  have n: "next_in i l = (case ys of [] \<Rightarrow> None | k # _ \<Rightarrow> Some k)"
    using l(2) unfolding l(1) by (induction xs) auto
  have a: "ahead (Some i) l = i # ys" using l(2) by (simp add: ahead_def l(1) dropWhile_at)
  show "set (ahead (Some i) l) \<subseteq> insert i (set (ahead (next_in i l) l'))"
  proof (cases ys)
    case Nil
    then show ?thesis using a by auto
  next
    case (Cons k zs)
    have k: "k \<notin> set xs" "k \<noteq> i" using assms(1) by (auto simp: l(1) Cons)
    have *: "set (ahead (Some k) (us @ k # vs)) = insert k (set vs)" if "k \<notin> set us" for us vs
      using that by (simp add: ahead_def dropWhile_at)
    have "\<exists>us vs. l' = us @ k # vs \<and> k \<notin> set us \<and> set zs \<subseteq> set vs"
    proof -
      consider "l' = xs @ k # zs" | "xs = []" "l' = k # zs @ [i]" | x xs' where "xs = x # xs'" "l' = xs' @ i # k # zs @ [x]" | "l' = xs @ i # k # zs"
        using assms(3) l(2) by (cases xs) (auto simp: l(1) Cons remove1_append)
      then show ?thesis
      proof cases
        case 1 with k show ?thesis by blast
      next
        case 2 then show ?thesis by (intro exI [of _ "[]"] exI [of _ "zs @ [i]"]) auto
      next
        case 3 with k show ?thesis by (intro exI [of _ "xs' @ [i]"] exI [of _ "zs @ [x]"]) auto
      next
        case 4 with k show ?thesis by (intro exI [of _ "xs @ [i]"] exI [of _ zs]) auto
      qed
    qed
    then show ?thesis using * a n Cons by force
  qed
  show "k \<in> set l' \<and> k \<noteq> i" if nk: "next_in i l = Some k"
  proof -
    obtain zs where "ys = k # zs" using nk n by (cases ys) auto
    then have "k \<in> set l" "k \<noteq> i" using l by auto
    then show ?thesis using assms(3) by auto
  qed
qed

definition drop_inactive :: "nat \<Rightarrow> tx_hw \<Rightarrow> tx_hw" where
  "drop_inactive i s = rwnx_txq_flush i (rwnx_txq_del_from_hw_list i s)"

lemma pushed_free [simp]: "pushed_ids j (map (\<lambda>f. FreeFrame (g f)) fs) = []"
  by (induction fs) simp_all

lemma drop_inactive_effect:
  assumes "txq_invx {} s" and "h < 4" and "i \<in> set (hq_list (hwqs s ! h))" and "\<not> txq_active (txqs s ! i)" and t: "t = drop_inactive i s"
  shows "txq_invx {} t" "\<not> txq_active (txqs t ! i)" "j \<noteq> i \<Longrightarrow> txqs t ! j = txqs s ! j" "\<not> rwnx_txq_is_scheduled (txqs t ! i)"
    "pushed_ids j (hw_events t) = pushed_ids j (hw_events s)"
    "hq_list (hwqs t ! h) = remove1 i (hq_list (hwqs s ! h))"
    "k < 4 \<Longrightarrow> k \<noteq> h \<Longrightarrow> hq_list (hwqs t ! k) = hq_list (hwqs s ! k)"
    "k < 4 \<Longrightarrow> hq_need (hwqs t ! k) = hq_need (hwqs s ! k)" "tq_hwq (txqs t ! i) = tq_hwq (txqs s ! i)"
proof -
  let ?q = "txqs s ! i" and ?d = "rwnx_txq_del_from_hw_list i s"
  note d = invxD [OF assms(1)]
  have hl: "length (hwqs s) = 4" using d(1) by (rule baseD(2))
  have i: "i < 297" "rwnx_txq_is_scheduled ?q" "tq_hwq ?q = h"
    using assms(2,3) d(7) hl baseD(4) [OF d(1)] by (auto simp: sched_ok_def)
  note b = d(6) [OF i(1)] and qb = d(4) [OF i(1)]
  have q: "txqs t ! j = (if j = i then (unscheduled_q ?q)\<lparr>tq_sk_list := []\<rparr> else txqs s ! j)" for j
    using i(1) d(7) by (auto simp: t drop_inactive_def rwnx_txq_flush_def del_nth)
  have hw: "hwqs t = hwqs ?d" "old_ic t = old_ic s" "stas t = stas s" by (simp_all add: t drop_inactive_def rwnx_txq_flush_def)
  show oth: "txqs t ! j = txqs s ! j" if "j \<noteq> i" for j using that q by simp
  have fi: "tq_idx (txqs t ! i) = tq_idx ?q" "tq_hwq (txqs t ! i) = tq_hwq ?q" "tq_sta (txqs t ! i) = tq_sta ?q" "tq_ps_id (txqs t ! i) = tq_ps_id ?q"
    "tq_sk_list (txqs t ! i) = []" "\<not> rwnx_txq_is_scheduled (txqs t ! i)"
    using q scheduled_flags(2) [of ?q] by (simp_all add: rwnx_txq_is_scheduled_def)
  show "\<not> txq_active (txqs t ! i)" "\<not> rwnx_txq_is_scheduled (txqs t ! i)" "tq_hwq (txqs t ! i) = tq_hwq ?q" using fi assms(4) by simp_all
  show "pushed_ids j (hw_events t) = pushed_ids j (hw_events s)" by (simp add: t drop_inactive_def rwnx_txq_flush_def)
  show "hq_list (hwqs t ! h) = remove1 i (hq_list (hwqs s ! h))" unfolding hw by (rule del_lists [OF b assms(2)])
  show "hq_list (hwqs t ! k) = hq_list (hwqs s ! k)" if "k < 4" "k \<noteq> h" for k
  proof -
    have "i \<notin> set (hq_list (hwqs s ! k))" using i(3) that hl d(7) baseD(4) [OF d(1)] by (auto simp: sched_ok_def)
    then show ?thesis unfolding hw using del_lists [OF b that(1)] by (simp add: remove1_idem)
  qed
  show "k < 4 \<Longrightarrow> hq_need (hwqs t ! k) = hq_need (hwqs s ! k)" unfolding hw using hl by (simp add: rwnx_txq_del_from_hw_list_def)
  have "base_but i t"
    unfolding t drop_inactive_def rwnx_txq_flush_def using but_del [OF b] by (intro but_upd) (simp_all add: rwnx_txq_is_scheduled_def)
  then show "txq_invx {} t"
  proof (rule inv_single [OF assms(1) _ hw(2,3) oth])
    show "qbase s i (txqs t ! i)" using qb assms(4) fi by (simp add: qbase_def)
    show "qps s i (txqs t ! i)" using assms(4) fi by (simp add: qps_def)
  qed
qed

text \<open>What processing does to the queue \<open>j\<close>: some of its frames, from the front, are handed to the bus, the rest stays.\<close>

definition pushes_front :: "tx_hw \<Rightarrow> tx_hw \<Rightarrow> nat \<Rightarrow> nat \<Rightarrow> bool" where
  "pushes_front s t j n \<longleftrightarrow>
     pushed_ids j (hw_events t) = pushed_ids j (hw_events s) @ map f_id (take n (tq_sk_list (txqs s ! j)))
     \<and> (txq_active (txqs s ! j) \<longrightarrow> tq_sk_list (txqs t ! j) = drop n (tq_sk_list (txqs s ! j)))
     \<and> (\<not> txq_active (txqs s ! j) \<longrightarrow> n = 0)
     \<and> txq_active (txqs t ! j) = txq_active (txqs s ! j) \<and> tq_hwq (txqs t ! j) = tq_hwq (txqs s ! j)"

lemma pushes_front_trans:
  assumes "pushes_front s t j m" and "pushes_front t u j n"
  shows "pushes_front s u j (m + n)"
proof (cases "txq_active (txqs s ! j)")
  case True
  then have "tq_sk_list (txqs t ! j) = drop m (tq_sk_list (txqs s ! j))" using assms(1) by (simp add: pushes_front_def)
  with True assms show ?thesis by (auto simp: pushes_front_def take_add add.commute)
qed (use assms in \<open>auto simp: pushes_front_def\<close>)

definition loop_post :: "nat \<Rightarrow> nat option \<Rightarrow> tx_hw \<Rightarrow> tx_hw \<Rightarrow> bool" where
  "loop_post h cur s t \<longleftrightarrow> txq_invx {} t
     \<and> (\<forall>k < 4. hq_need (hwqs t ! k) = hq_need (hwqs s ! k) \<and> (k \<noteq> h \<longrightarrow> hq_list (hwqs t ! k) = hq_list (hwqs s ! k)))
     \<and> (\<forall>j. \<exists>n. pushes_front s t j n \<and> (j \<in> set (ahead cur (hq_list (hwqs s ! h))) \<and> txq_active (txqs s ! j) \<longrightarrow> 0 < n)
          \<and> (j \<notin> set (hq_list (hwqs s ! h)) \<longrightarrow> n = 0))
     \<and> (\<forall>j. rwnx_txq_is_scheduled (txqs t ! j) \<and> \<not> txq_active (txqs s ! j) \<longrightarrow>
          rwnx_txq_is_scheduled (txqs s ! j) \<and> j \<notin> set (ahead cur (hq_list (hwqs s ! h))))"

lemma loop_step:
  assumes "txq_invx {} s" and "h < 4" and "i \<in> set (hq_list (hwqs s ! h))"
  defines "s1 \<equiv> if txq_active (txqs s ! i) then hwq_round h i s else drop_inactive i s"
  shows "txq_invx {} s1" "hq_list (hwqs s1 ! h) \<in> {remove1 i (hq_list (hwqs s ! h)), rotate1 (hq_list (hwqs s ! h)), hq_list (hwqs s ! h)}"
    "k < 4 \<Longrightarrow> k \<noteq> h \<Longrightarrow> hq_list (hwqs s1 ! k) = hq_list (hwqs s ! k)" "k < 4 \<Longrightarrow> hq_need (hwqs s1 ! k) = hq_need (hwqs s ! k)"
    "\<exists>n. pushes_front s s1 j n \<and> (j = i \<and> txq_active (txqs s ! i) \<longrightarrow> 0 < n) \<and> (j \<noteq> i \<longrightarrow> n = 0)"
    "rwnx_txq_is_scheduled (txqs s1 ! j) \<Longrightarrow> \<not> txq_active (txqs s ! j) \<Longrightarrow> rwnx_txq_is_scheduled (txqs s ! j) \<and> j \<noteq> i"
    "\<not> hwq_bug s i"
proof -
  note d = invxD [OF assms(1)]
  have hl: "length (hwqs s) = 4" using d(1) by (rule baseD(2))
  have i: "i < 297" "rwnx_txq_is_scheduled (txqs s ! i)"
    using assms(2,3) d(7) hl baseD(4) [OF d(1)] by (auto simp: sched_ok_def)
  have q: "txq_active (txqs s ! i) \<Longrightarrow> 0 < sint (tq_credits (txqs s ! i)) \<and> tq_sk_list (txqs s ! i) \<noteq> []"
    using d(4) [OF i(1)] i(2) by (simp add: qbase_def)
  show "\<not> hwq_bug s i" using i q d(7) by (auto simp: hwq_bug_def rwnx_txq_skb_ready_def)
  have triv: "pushes_front s s j 0" for j by (simp add: pushes_front_def)
  note r = round_effect [OF assms(1-3)] and di = drop_inactive_effect [OF assms(1-3)]
  show "txq_invx {} s1" "hq_list (hwqs s1 ! h) \<in> {remove1 i (hq_list (hwqs s ! h)), rotate1 (hq_list (hwqs s ! h)), hq_list (hwqs s ! h)}"
    "k < 4 \<Longrightarrow> k \<noteq> h \<Longrightarrow> hq_list (hwqs s1 ! k) = hq_list (hwqs s ! k)" "k < 4 \<Longrightarrow> hq_need (hwqs s1 ! k) = hq_need (hwqs s ! k)"
    unfolding s1_def using r(1,7,8,9) [OF _ refl] di(1,6,7,8) [OF _ refl] by auto
  show "\<exists>n. pushes_front s s1 j n \<and> (j = i \<and> txq_active (txqs s ! i) \<longrightarrow> 0 < n) \<and> (j \<noteq> i \<longrightarrow> n = 0)"
  proof (cases "txq_active (txqs s ! i)")
    case True
    have "pushes_front s s1 j (if j = i then batch (txqs s ! i) else 0)"
      using True r(2,3,4,6,10) [OF True refl] by (auto simp: s1_def pushes_front_def)
    moreover have "0 < batch (txqs s ! i)" using batch_pos q [OF True] by blast
    ultimately show ?thesis by (intro exI [of _ "if j = i then batch (txqs s ! i) else 0"]) auto
  next
    case False
    then have "pushes_front s s1 j 0" using di(2,3,5,9) [OF False refl] by (cases "j = i") (auto simp: s1_def pushes_front_def)
    with False show ?thesis by blast
  qed
  show "rwnx_txq_is_scheduled (txqs s ! j) \<and> j \<noteq> i" if "rwnx_txq_is_scheduled (txqs s1 ! j)" "\<not> txq_active (txqs s ! j)"
    using that r(3) [OF _ refl] di(3,4) [OF _ refl] by (cases "j = i") (auto simp: s1_def split: if_splits)
qed


lemma loop_post_step:
  assumes "txq_invx {} s" and "h < 4" and "i \<in> set (hq_list (hwqs s ! h))" and "s1 = (if txq_active (txqs s ! i) then hwq_round h i s else drop_inactive i s)"
    and "loop_post h (next_in i (hq_list (hwqs s ! h))) s1 t"
  shows "loop_post h (Some i) s t"
proof -
  let ?l = "hq_list (hwqs s ! h)" and ?l1 = "hq_list (hwqs s1 ! h)"
  note e = loop_step [OF assms(1-3), folded assms(4)]
  have hl: "length (hwqs s) = 4" using invxD(1) [OF assms(1)] by (rule baseD(2))
  have "distinct ?l" using baseD(4) [OF invxD(1) [OF assms(1)]] assms(2) hl by (simp add: sched_ok_def)
  from ahead_next(1) [OF this assms(3) e(2)] have sub: "set (ahead (Some i) ?l) \<subseteq> insert i (set (ahead (next_in i ?l) ?l1))" .
  have sub1: "set ?l1 \<subseteq> set ?l" using e(2) set_remove1_subset [of i ?l] by auto
  have push: "\<exists>n. pushes_front s t j n \<and> (j \<in> set (ahead (Some i) ?l) \<and> txq_active (txqs s ! j) \<longrightarrow> 0 < n) \<and> (j \<notin> set ?l \<longrightarrow> n = 0)" for j
  proof -
    obtain m where m: "pushes_front s s1 j m" "j = i \<and> txq_active (txqs s ! i) \<longrightarrow> 0 < m" "j \<noteq> i \<longrightarrow> m = 0" using e(5) by blast
    obtain n where n: "pushes_front s1 t j n" "j \<in> set (ahead (next_in i ?l) ?l1) \<and> txq_active (txqs s1 ! j) \<longrightarrow> 0 < n" "j \<notin> set ?l1 \<longrightarrow> n = 0"
      using assms(5) unfolding loop_post_def by blast
    have "txq_active (txqs s1 ! j) = txq_active (txqs s ! j)" using m(1) by (simp add: pushes_front_def)
    with sub m(2) n(2) have "j \<in> set (ahead (Some i) ?l) \<and> txq_active (txqs s ! j) \<longrightarrow> 0 < m + n" by auto
    moreover have "j \<notin> set ?l \<longrightarrow> m + n = 0" using m(3) n(3) sub1 assms(3) by auto
    ultimately show ?thesis using pushes_front_trans [OF m(1) n(1)] by blast
  qed
  have "rwnx_txq_is_scheduled (txqs s ! j) \<and> j \<notin> set (ahead (Some i) ?l)" if "rwnx_txq_is_scheduled (txqs t ! j) \<and> \<not> txq_active (txqs s ! j)" for j
  proof -
    obtain m where "pushes_front s s1 j m" using e(5) by blast
    then have "\<not> txq_active (txqs s1 ! j)" using that by (simp add: pushes_front_def)
    with assms(5) that have "rwnx_txq_is_scheduled (txqs s1 ! j)" "j \<notin> set (ahead (next_in i ?l) ?l1)" by (auto simp: loop_post_def)
    with e(6) [of j] that sub show ?thesis by blast
  qed
  with push e(3,4) assms(5) show ?thesis by (simp add: loop_post_def)
qed

lemma loop_ok:
  assumes "txq_invx {} s" and "h < 4" and "\<And>i. cur = Some i \<Longrightarrow> i \<in> set (hq_list (hwqs s ! h))"
  shows "\<exists>t. hwq_loop h cur s = Some t \<and> loop_post h cur s t"
  using assms
proof (induction h cur s rule: hwq_loop.induct)
  case (1 h s)
  have "\<exists>n. pushes_front s s j n \<and> (j \<notin> set (hq_list (hwqs s ! h)) \<longrightarrow> n = 0)" for j
    by (rule exI [of _ 0]) (simp add: pushes_front_def)
  with 1 show ?case by (simp add: loop_post_def ahead_def)
next
  case (2 h i s)
  define s1 where "s1 = (if txq_active (txqs s ! i) then hwq_round h i s else drop_inactive i s)"
  have i: "i \<in> set (hq_list (hwqs s ! h))" using "2.prems"(3) by simp
  note e = loop_step [OF "2.prems"(1,2) i, folded s1_def]
  have hl: "length (hwqs s) = 4" using invxD(1) [OF "2.prems"(1)] by (rule baseD(2))
  have "distinct (hq_list (hwqs s ! h))" using baseD(4) [OF invxD(1) [OF "2.prems"(1)]] "2.prems"(2) hl by (simp add: sched_ok_def)
  note nx = ahead_next(2) [OF this i e(2)]
  have eq: "hwq_loop h (Some i) s = hwq_loop h (next_in i (hq_list (hwqs s ! h))) s1"
    using e(7) by (simp add: hwq_loop.simps(2) Let_def s1_def drop_inactive_def)
  have "\<exists>t. hwq_loop h (next_in i (hq_list (hwqs s ! h))) s1 = Some t \<and> loop_post h (next_in i (hq_list (hwqs s ! h))) s1 t"
  proof (cases "txq_active (txqs s ! i)")
    case True
    have "\<exists>t. hwq_loop h (next_in i (hq_list (hwqs s ! h))) (hwq_round h i s) = Some t
        \<and> loop_post h (next_in i (hq_list (hwqs s ! h))) (hwq_round h i s) t"
      by (rule "2.IH"(2) [OF refl e(7) True _ "2.prems"(2)]) (use e(1) nx True in \<open>auto simp: s1_def\<close>)
    with True show ?thesis by (simp add: s1_def)
  next
    case False
    then have "tq_idx (txqs s ! i) = TXQ_INACTIVE" by simp
    from "2.IH"(1) [OF refl e(7) this _ "2.prems"(2)] e(1) nx False show ?thesis by (simp add: s1_def drop_inactive_def)
  qed
  then obtain t where "hwq_loop h (Some i) s = Some t" "loop_post h (next_in i (hq_list (hwqs s ! h))) s1 t" using eq by auto
  with loop_post_step [OF "2.prems"(1,2) i s1_def] show ?case by blast
qed

section \<open>Processing a hardware queue\<close>

lemma need_inv:
  assumes "txq_invx X s"
  shows "txq_invx X (upd_hwq h (\<lambda>x. x\<lparr>hq_need := b\<rparr>) s)"
proof -
  let ?t = "upd_hwq h (\<lambda>x. x\<lparr>hq_need := b\<rparr>) s"
  have "map hq_list (hwqs ?t) = map hq_list (hwqs s)" by (rule nth_equalityI) auto
  from base_cong [OF _ this] have "txq_base ?t = txq_base s" by simp
  with assms show ?thesis by (simp add: txq_invx_def ps_ok_def qps_cong [of ?t s] sta_ok_cong [of ?t s])
qed

lemma process_ok:
  assumes "txq_invx {} s" and "h < 4"
  obtains t where "rwnx_hwq_process h s = Some t" "txq_invx {} t" "\<not> hq_need (hwqs t ! h)"
    "\<And>k. k < 4 \<Longrightarrow> k \<noteq> h \<Longrightarrow> hq_need (hwqs t ! k) = hq_need (hwqs s ! k) \<and> hq_list (hwqs t ! k) = hq_list (hwqs s ! k)"
    "\<And>j. \<exists>n. pushes_front s t j n \<and> (j \<in> set (hq_list (hwqs s ! h)) \<and> txq_active (txqs s ! j) \<longrightarrow> 0 < n) \<and> (j \<notin> set (hq_list (hwqs s ! h)) \<longrightarrow> n = 0)"
    "\<And>j. rwnx_txq_is_scheduled (txqs t ! j) \<Longrightarrow> \<not> txq_active (txqs s ! j) \<Longrightarrow> rwnx_txq_is_scheduled (txqs s ! j) \<and> j \<notin> set (hq_list (hwqs s ! h))"
proof -
  define s1 where "s1 = upd_hwq h (\<lambda>x. x\<lparr>hq_need := False\<rparr>) s"
  let ?l = "hq_list (hwqs s ! h)"
  have hl: "length (hwqs s) = 4" using invxD(1) [OF assms(1)] by (rule baseD(2))
  have s1: "hq_list (hwqs s1 ! k) = hq_list (hwqs s ! k)" "hq_need (hwqs s1 ! k) = (if k = h then False else hq_need (hwqs s ! k))"
    "txqs s1 = txqs s" "hw_events s1 = hw_events s" for k
    using hl assms(2) by (auto simp: s1_def)
  have all: "ahead (first_of ?l) ?l = ?l" by (simp add: ahead_def first_of_def split: list.split)
  have inv1: "txq_invx {} s1" unfolding s1_def by (rule need_inv [OF assms(1)])
  have "\<exists>t. hwq_loop h (first_of ?l) s1 = Some t \<and> loop_post h (first_of ?l) s1 t"
    by (rule loop_ok [OF inv1 assms(2)]) (auto simp: first_of_def s1 split: list.splits)
  then obtain t where t: "hwq_loop h (first_of ?l) s1 = Some t" "loop_post h (first_of ?l) s1 t" by blast
  show ?thesis
  proof (rule that [of t])
    show "rwnx_hwq_process h s = Some t" using t(1) s1(1) by (simp add: rwnx_hwq_process_def flip: s1_def)
    show "txq_invx {} t" "\<not> hq_need (hwqs t ! h)" using t(2) assms(2) s1 by (simp_all add: loop_post_def)
    show "hq_need (hwqs t ! k) = hq_need (hwqs s ! k) \<and> hq_list (hwqs t ! k) = hq_list (hwqs s ! k)" if "k < 4" "k \<noteq> h" for k
      using t(2) that s1 by (simp add: loop_post_def)
    show "\<exists>n. pushes_front s t j n \<and> (j \<in> set ?l \<and> txq_active (txqs s ! j) \<longrightarrow> 0 < n) \<and> (j \<notin> set ?l \<longrightarrow> n = 0)" for j
      using t(2) s1 by (simp add: loop_post_def all pushes_front_def)
    show "rwnx_txq_is_scheduled (txqs s ! j) \<and> j \<notin> set ?l" if "rwnx_txq_is_scheduled (txqs t ! j)" "\<not> txq_active (txqs s ! j)" for j
      using t(2) s1 that by (simp add: loop_post_def all)
  qed
qed

end
