(* ===== verification/Txq_Keep.thy ===== *)
theory Txq_Keep
  imports Txq_Process
begin

text \<open>The invariant that holds between operations (\<open>txq_ok\<close>: the one of \<open>Txq_Inv\<close>, and only active queues are scheduled), and that queueing, transmitting, processing, starting and stopping keep it.\<close>

section \<open>The invariant between operations\<close>

text \<open>No inactive queue is scheduled once an operation is over.\<close>

definition sched_active :: "tx_hw \<Rightarrow> bool" where
  "sched_active s \<longleftrightarrow> (\<forall>i < 297. rwnx_txq_is_scheduled (txqs s ! i) \<longrightarrow> txq_active (txqs s ! i))"

definition txq_ok :: "nat set \<Rightarrow> tx_hw \<Rightarrow> bool" where
  "txq_ok X s \<longleftrightarrow> txq_invx X s \<and> sched_active s"

lemma okD:
  assumes "txq_ok X s"
  shows "txq_invx X s" "sched_active s" "length (txqs s) = 297" "length (hwqs s) = 4" "txq_static s"
    "i < 297 \<Longrightarrow> rwnx_txq_is_scheduled (txqs s ! i) \<Longrightarrow> txq_active (txqs s ! i)"
  using assms invxD(1,7,8) [of X s] baseD(2) by (auto simp: txq_ok_def sched_active_def)

lemma listed:
  assumes "txq_invx X s" and "h < 4"
  shows "i \<in> set (hq_list (hwqs s ! h)) \<longleftrightarrow> i < 297 \<and> rwnx_txq_is_scheduled (txqs s ! i) \<and> tq_hwq (txqs s ! i) = h"
  using baseD(1,2,4) [OF invxD(1) [OF assms(1)]] assms(2) by (simp add: sched_ok_def)

lemma ok_log [simp]: "txq_ok X (hw_log es s) = txq_ok X s"
  by (simp add: txq_ok_def sched_active_def)

lemma inv_cong:
  assumes "txqs t = txqs s" "map hq_list (hwqs t) = map hq_list (hwqs s)" "stas t = stas s" "old_ic t = old_ic s" "tx_host_id t = tx_host_id s"
  shows "txq_invx X t = txq_invx X s" "txq_ok X t = txq_ok X s"
  using base_cong [OF assms(1,2,4,5)] qps_cong [OF assms(4,3)] sta_ok_cong [OF assms(4,3)] assms(1,3)
  by (simp_all add: txq_ok_def txq_invx_def ps_ok_def sched_active_def)

section \<open>Sending and processing\<close>

lemma queue_skb_effect:
  assumes "rwnx_txq_queue_skb f i retry s = Some (a, t)" and "i < length (txqs s)"
  shows "j \<noteq> i \<Longrightarrow> txqs t ! j = txqs s ! j"
    "rwnx_txq_is_scheduled (txqs t ! i) \<longleftrightarrow> rwnx_txq_is_scheduled (txqs s ! i) \<or> a"
    "\<And>j. pushed_ids j (hw_events t) = pushed_ids j (hw_events s)"
    "map_option tq_sk_list (link_frame f retry (txqs s ! i)) = Some (tq_sk_list (txqs t ! i))"
proof -
  let ?s1 = "ps_count_queued i s"
  have 1: "txqs ?s1 = txqs s" "\<And>j. pushed_ids j (hw_events ?s1) = pushed_ids j (hw_events s)"
    by (auto simp: ps_count_queued_def Let_def rwnx_set_traffic_status_def split: option.splits)
  obtain p where p: "link_frame f retry (txqs s ! i) = Some p" using assms(1) 1 by (auto simp: rwnx_txq_queue_skb_def Let_def split: option.splits bind_splits)
  let ?s2 = "flow_stop i (upd_txq i (\<lambda>_. p) ?s1)"
  have 2: "txqs ?s2 ! j = (if j = i then flow_stop_q ?s1 p else txqs s ! j)" "\<And>j. pushed_ids j (hw_events ?s2) = pushed_ids j (hw_events s)"
    "length (txqs ?s2) = length (txqs s)" for j
    using assms(2) 1 by (auto simp: flow_effect flow_stop_q_def) (auto simp: flow_stop_def Let_def 1)
  have t: "a = (\<not> rwnx_txq_is_stopped (txqs ?s2 ! i))" "t = (if a then rwnx_txq_add_to_hw_list i ?s2 else ?s2)"
    using assms(1) p by (auto simp: rwnx_txq_queue_skb_def Let_def 1 split: if_splits)
  show "j \<noteq> i \<Longrightarrow> txqs t ! j = txqs s ! j" using t(2) 2 assms(2) by (simp add: add_nth)
  have "rwnx_txq_is_scheduled p = rwnx_txq_is_scheduled (txqs s ! i)"
    using link_frame_effect(2) [OF p] by (simp add: rwnx_txq_is_scheduled_def)
  then show "rwnx_txq_is_scheduled (txqs t ! i) \<longleftrightarrow> rwnx_txq_is_scheduled (txqs s ! i) \<or> a"
    using t(2) 2 assms(2) by (simp add: add_nth)
  show "\<And>j. pushed_ids j (hw_events t) = pushed_ids j (hw_events s)" using t(2) 2(2) by simp
  show "map_option tq_sk_list (link_frame f retry (txqs s ! i)) = Some (tq_sk_list (txqs t ! i))"
    using t(2) 2 assms(2) p by (simp add: add_nth)
qed

lemma process_keeps:
  assumes "txq_ok {} s" and "h < 4"
  shows "\<exists>t. rwnx_hwq_process h s = Some t \<and> txq_ok {} t"
proof -
  obtain t where t: "rwnx_hwq_process h s = Some t" "txq_invx {} t"
    "\<And>j. \<exists>n. pushes_front s t j n \<and> (j \<in> set (hq_list (hwqs s ! h)) \<and> txq_active (txqs s ! j) \<longrightarrow> 0 < n)"
    "\<And>j. rwnx_txq_is_scheduled (txqs t ! j) \<Longrightarrow> \<not> txq_active (txqs s ! j) \<Longrightarrow> rwnx_txq_is_scheduled (txqs s ! j) \<and> j \<notin> set (hq_list (hwqs s ! h))"
    using process_ok [OF okD(1) [OF assms(1)] assms(2)] by metis
  have "txq_active (txqs t ! i)" if "i < 297" "rwnx_txq_is_scheduled (txqs t ! i)" for i
    using t(3) [of i] t(4) [of i] okD(6) [OF assms(1) that(1)] that(2) by (auto simp: pushes_front_def)
  with t show ?thesis by (auto simp: txq_ok_def sched_active_def)
qed

lemma process_list_keeps:
  assumes "txq_ok {} s" and "\<forall>h \<in> set hs. h < 4"
  shows "\<exists>t. hwq_process_list hs s = Some t \<and> txq_ok {} t"
  using assms
proof (induction hs arbitrary: s)
  case (Cons h hs)
  obtain t where "rwnx_hwq_process h s = Some t" "txq_ok {} t" using process_keeps [OF Cons.prems(1), of h] Cons.prems(2) by auto
  with Cons show ?case by auto
qed simp

lemma process_all_keeps: "txq_ok {} s \<Longrightarrow> \<exists>t. rwnx_hwq_process_all s = Some t \<and> txq_ok {} t"
  unfolding rwnx_hwq_process_all_def using okD(4) [of "{}" s] by (intro process_list_keeps) auto

lemma xmit_keeps:
  assumes "txq_ok {} s" and "i < 297" and "f_txq f = i" "f_sta f = owner s i"
  shows "\<exists>t. xmit_queue f i s = Some t \<and> txq_ok {} t"
proof -
  note o = okD [OF assms(1)]
  obtain a s1 where q: "rwnx_txq_queue_skb f i False s = Some (a, s1)" "txq_invx {} s1" "tq_hwq (txqs s1 ! i) = tq_hwq (txqs s ! i)"
    "tq_idx (txqs s1 ! i) = tq_idx (txqs s ! i)"
    using queue_skb_inv [OF o(1) assms(2-4), of False] by blast
  have i: "i < length (txqs s)" using assms(2) o(3) by simp
  note e = queue_skb_effect [OF q(1) i]
  have sch: "txq_active (txqs s1 ! j)" if "j < 297" "rwnx_txq_is_scheduled (txqs s1 ! j)" "j \<noteq> i \<or> \<not> a" for j
    using that o(6) [OF that(1)] e(1) [of j] e(2) q(4) by (cases "j = i") auto
  show ?thesis
  proof (cases a)
    case False
    with q sch show ?thesis by (auto simp: xmit_queue_def txq_ok_def sched_active_def)
  next
    case True
    let ?h = "tq_hwq (txqs s1 ! i)"
    have h: "?h < 4" using invxD(4) [OF q(2) assms(2)] by (simp add: qbase_def)
    obtain t where t: "rwnx_hwq_process ?h s1 = Some t" "txq_invx {} t"
      "\<And>j. \<exists>n. pushes_front s1 t j n \<and> (j \<in> set (hq_list (hwqs s1 ! ?h)) \<and> txq_active (txqs s1 ! j) \<longrightarrow> 0 < n)"
      "\<And>j. rwnx_txq_is_scheduled (txqs t ! j) \<Longrightarrow> \<not> txq_active (txqs s1 ! j) \<Longrightarrow> rwnx_txq_is_scheduled (txqs s1 ! j) \<and> j \<notin> set (hq_list (hwqs s1 ! ?h))"
      using process_ok [OF q(2) h] by metis
    have "i \<in> set (hq_list (hwqs s1 ! ?h))" using listed [OF q(2) h] assms(2) e(2) True by simp
    then have "txq_active (txqs t ! j)" if "j < 297" "rwnx_txq_is_scheduled (txqs t ! j)" for j
      using t(3) [of j] t(4) [OF that(2)] sch [OF that(1)] by (cases "j = i") (auto simp: pushes_front_def)
    with t q(1) True show ?thesis by (auto simp: xmit_queue_def txq_ok_def sched_active_def)
  qed
qed

section \<open>Starting and stopping\<close>

lemma start_keeps:
  assumes "txq_ok X s" and "i < 297" and "stop_reason r" and "r \<noteq> RWNX_TXQ_STOP_STA_PS"
  shows "txq_ok X (rwnx_txq_start i r s)"
proof -
  note o = okD [OF assms(1)]
  have "txq_active (start_q r (txqs s ! i))" if "rwnx_txq_is_scheduled (start_q r (txqs s ! i))"
    using that o(6) [OF assms(2)] by (auto simp: start_q_def Let_def split: if_splits)
  with o txq_start_inv [OF o(1) assms(2-4)] show ?thesis
    using assms(2) by (auto simp: txq_ok_def sched_active_def start_effect)
qed

lemma stop_keeps:
  assumes "txq_ok X s" and "i < 297" and "stop_reason r"
  shows "txq_ok X (rwnx_txq_stop i r s)"
proof -
  note o = okD [OF assms(1)]
  have "txq_active (stop_q r (txqs s ! i))" if "rwnx_txq_is_scheduled (stop_q r (txqs s ! i))"
    using that o(6) [OF assms(2)] by (auto simp: stop_q_def split: if_splits)
  with o stop_inv [OF o(1) assms(2,3)] show ?thesis
    using assms(2) by (auto simp: txq_ok_def sched_active_def stop_effect)
qed

lemma fold_keeps:
  assumes "txq_ok X s" and "\<And>i t. i \<in> set is \<Longrightarrow> txq_ok X t \<Longrightarrow> txq_ok X (f i t)"
  shows "txq_ok X (fold f is s)"
  using assms by (induction "is" arbitrary: s) auto

lemma sta_start_keeps:
  assumes "txq_ok X s" and "st < length (stas s)" and "stop_reason r" and "r \<noteq> RWNX_TXQ_STOP_STA_PS"
  shows "txq_ok X (rwnx_txq_sta_start r st s)"
  unfolding rwnx_txq_sta_start_def using sta_txqs_owner(1) [OF okD(5) [OF assms(1)] assms(2)]
  by (intro fold_keeps start_keeps assms) auto

lemma sta_stop_keeps:
  assumes "txq_ok X s" and "st < length (stas s)" and "stop_reason r"
  shows "txq_ok X (rwnx_txq_sta_stop r st s)"
  unfolding rwnx_txq_sta_stop_def using sta_txqs_owner(1) [OF okD(5) [OF assms(1)] assms(2)]
  by (intro fold_keeps stop_keeps assms) auto


lemma startstop_sel [simp]:
  "stas (rwnx_txq_start i r s) = stas s" "old_ic (rwnx_txq_start i r s) = old_ic s"
  "stas (rwnx_txq_stop i r s) = stas s" "old_ic (rwnx_txq_stop i r s) = old_ic s"
  by (simp_all add: rwnx_txq_start_def rwnx_txq_stop_def Let_def)

lemma fold_frame:
  assumes "\<And>i s. i \<in> set is \<Longrightarrow> g (f i s) = g s"
  shows "g (fold f is s) = g s"
  using assms by (induction "is" arbitrary: s) auto

lemma sta_startstop_sel [simp]:
  "stas (rwnx_txq_sta_start r st s) = stas s" "old_ic (rwnx_txq_sta_start r st s) = old_ic s"
  "stas (rwnx_txq_sta_stop r st s) = stas s" "old_ic (rwnx_txq_sta_stop r st s) = old_ic s"
  unfolding rwnx_txq_sta_start_def rwnx_txq_sta_stop_def by (rule fold_frame, simp)+

subsection \<open>Interfaces\<close>

definition vif_valid :: "tx_hw \<Rightarrow> rwnx_vif \<Rightarrow> bool" where
  "vif_valid s v \<longleftrightarrow> v_index v < NX_VIRT_DEV_MAX
     \<and> (\<forall>st. v_tdls_sta v = Some st \<or> v_ap v = Some st \<or> st \<in> set (v_sta_list v) \<or> st \<in> set (v_master_sta_list v) \<longrightarrow> st < length (stas s))"

lemma vif_get_lt: "v < NX_VIRT_DEV_MAX \<Longrightarrow> rwnx_txq_vif_get s v type < 297" "off_chan_txq_idx s < 297"
  by (simp_all add: rwnx_txq_vif_get_def rwnx_txq_vif_idx_def off_chan_txq_idx_def first_vif_txq_idx_def remote_sta_max_def txq_nums)

text \<open>An operation on stations that keeps the invariant and the station table.\<close>

definition sta_op :: "(nat \<Rightarrow> tx_hw \<Rightarrow> tx_hw) \<Rightarrow> bool" where
  "sta_op f \<longleftrightarrow> (\<forall>X st s. txq_ok X s \<and> st < length (stas s) \<longrightarrow> txq_ok X (f st s) \<and> stas (f st s) = stas s \<and> old_ic (f st s) = old_ic s)"

lemma sta_op_fold:
  assumes "sta_op f" and "txq_ok X s" and "\<forall>st \<in> set sts. st < length (stas s)"
  shows "txq_ok X (fold f sts s) \<and> stas (fold f sts s) = stas s \<and> old_ic (fold f sts s) = old_ic s"
  using assms(2,3)
proof (induction sts arbitrary: s)
  case (Cons st sts)
  have "txq_ok X (f st s)" "stas (f st s) = stas s" "old_ic (f st s) = old_ic s" using assms(1) Cons.prems by (auto simp: sta_op_def)
  with Cons show ?case by simp
qed simp

lemma each_sta_keeps:
  assumes "sta_op f" and "txq_ok X s" and "vif_valid s v" and "rwnx_txq_vif_for_each_sta v f b s = Some t"
  shows "txq_ok X t \<and> stas t = stas s \<and> old_ic t = old_ic s"
proof -
  have one: "txq_ok X (f st u) \<and> stas (f st u) = stas u \<and> old_ic (f st u) = old_ic u" if "txq_ok X u" "st < length (stas u)" for st u
    using assms(1) that by (auto simp: sta_op_def)
  have all: "txq_ok X (fold f l s) \<and> stas (fold f l s) = stas s \<and> old_ic (fold f l s) = old_ic s" if "l \<in> {v_sta_list v, v_master_sta_list v}" for l
    using that assms(3) by (intro sta_op_fold [OF assms(1,2)]) (auto simp: vif_valid_def)
  have sta: "txq_ok X t \<and> stas t = stas s \<and> old_ic t = old_ic s"
    if g: "(if v_tdls_link v then (case v_tdls_sta v of Some st \<Rightarrow> Some (f st s) | None \<Rightarrow> if b then Some s else None) else Some s) = Some s1"
      "t = (case v_ap v of None \<Rightarrow> s1 | Some st \<Rightarrow> f st s1)" for s1
  proof -
    have 1: "txq_ok X s1 \<and> stas s1 = stas s \<and> old_ic s1 = old_ic s"
      using g(1) one [OF assms(2)] assms(2,3) by (auto simp: vif_valid_def split: if_splits option.splits)
    show ?thesis
    proof (cases "v_ap v")
      case None
      with g(2) 1 show ?thesis by simp
    next
      case (Some st)
      then have "st < length (stas s1)" using assms(3) 1 by (simp add: vif_valid_def)
      with one [of s1 st] 1 g(2) Some show ?thesis by simp
    qed
  qed
  show ?thesis
    using assms(4) sta all [of "v_sta_list v"] all [of "v_master_sta_list v"]
    unfolding rwnx_txq_vif_for_each_sta_def by (cases "v_type v") (auto simp del: o_apply split: bind_splits)
qed

lemma start_op: "stop_reason r \<Longrightarrow> r \<noteq> RWNX_TXQ_STOP_STA_PS \<Longrightarrow> sta_op (rwnx_txq_sta_start r)"
  by (simp add: sta_op_def sta_start_keeps)

lemma stop_op: "stop_reason r \<Longrightarrow> sta_op (rwnx_txq_sta_stop r)"
  by (simp add: sta_op_def sta_stop_keeps)

lemma vif_start_keeps:
  assumes "txq_ok X s" and "vif_valid s v" and "stop_reason r" "r \<noteq> RWNX_TXQ_STOP_STA_PS" and "rwnx_txq_vif_start v r s = Some t"
  shows "txq_ok X t"
proof -
  define s1 where "s1 = (case v_tdls_sta v of Some st \<Rightarrow> if v_roc_tdls v \<and> v_tdls_chsw v then rwnx_txq_sta_start r st s else s | None \<Rightarrow> s)"
  have 1: "txq_ok X s1" "stas s1 = stas s" "old_ic s1 = old_ic s"
    using assms by (auto simp: s1_def vif_valid_def sta_start_keeps split: option.split)
  have v1: "vif_valid s1 v" using assms(2) 1(2) by (simp add: vif_valid_def)
  have q: "txq_ok X (vif_queues (\<lambda>i. rwnx_txq_start i r) v u)" if "txq_ok X u" for u
    using that vif_get_lt(1) assms(2-4) by (simp add: vif_queues_def start_keeps vif_valid_def)
  have e: "txq_ok X u" if "rwnx_txq_vif_for_each_sta v (rwnx_txq_sta_start r) False s1 = Some u" for u
    using each_sta_keeps [OF start_op [OF assms(3,4)] 1(1) v1 that] by blast
  show ?thesis
    using assms(1,5) q e 1(1) by (auto simp: rwnx_txq_vif_start_def Let_def simp flip: s1_def split: if_splits bind_splits)
qed

lemma vif_stop_keeps:
  assumes "txq_ok X s" and "vif_valid s v" and "stop_reason r" and "rwnx_txq_vif_stop v r s = Some t"
  shows "txq_ok X t"
proof -
  have q: "txq_ok X (vif_queues (\<lambda>i. rwnx_txq_stop i r) v u)" if "txq_ok X u" for u
    using that vif_get_lt(1) assms(2,3) by (simp add: vif_queues_def stop_keeps vif_valid_def)
  have e: "txq_ok X u" if "rwnx_txq_vif_for_each_sta v (rwnx_txq_sta_stop r) True s = Some u" for u
    using each_sta_keeps [OF stop_op [OF assms(3)] assms(1,2) that] by blast
  show ?thesis
    using assms(1,4) q e by (auto simp: rwnx_txq_vif_stop_def split: if_splits bind_splits)
qed

end
