(* ===== verification/Txq_Setup.thy ===== *)
theory Txq_Setup
  imports Txq_Keep
begin

text \<open>Initialisation and removal of the queues of a station or an interface keep the invariant.\<close>

section \<open>Initialisation and removal\<close>

lemma but_upd_free:
  assumes "base_but i s" and "\<not> rwnx_txq_is_scheduled (txqs s ! i)" "\<not> rwnx_txq_is_scheduled (f (txqs s ! i))" "tq_hwq (f (txqs s ! i)) < 4"
  shows "base_but i (upd_txq i f s)"
proof -
  have "sched_ok (upd_txq i f s)" using butD(5) [OF assms(1)] assms(2,3) by (auto simp: sched_ok_def)
  then show ?thesis by (rule but_cong [OF assms(1)]) (use butD [OF assms(1)] assms(4) in simp_all)
qed

lemma ok_mono: "txq_ok X s \<Longrightarrow> X \<subseteq> Y \<Longrightarrow> txq_ok Y s"
  by (auto simp: txq_ok_def txq_invx_def ps_ok_def)

lemma ok_upd_free:
  assumes "txq_ok X s" and "i < 297" and "\<not> rwnx_txq_is_scheduled (txqs s ! i)" "\<not> rwnx_txq_is_scheduled (f (txqs s ! i))"
    and "qbase s i (f (txqs s ! i))" and "i \<notin> X \<Longrightarrow> qps s i (f (txqs s ! i))"
  shows "txq_ok X (upd_txq i f s)"
proof -
  note o = okD [OF assms(1)]
  have b: "base_but i (upd_txq i f s)"
    by (rule but_upd_free [where f = f, OF invxD(6) [OF o(1) assms(2)] assms(3,4)]) (use assms(5) in \<open>simp add: qbase_def\<close>)
  have "txq_invx X (upd_txq i f s)" by (rule inv_single [OF o(1) b]) (use assms(2,5,6) o(3) in auto)
  moreover have "sched_active (upd_txq i f s)" using o(2,3) assms(4) by (auto simp: sched_active_def)
  ultimately show ?thesis by (simp add: txq_ok_def)
qed

definition init_status :: "u8 \<Rightarrow> bool" where
  "init_status st \<longleftrightarrow> \<not> flag_set st RWNX_TXQ_IN_HWQ_LIST"

lemma idx_active: "i < 297 \<Longrightarrow> (word_of_nat i :: u16) \<noteq> TXQ_INACTIVE"
proof
  assume "i < 297" "(word_of_nat i :: u16) = TXQ_INACTIVE"
  then have "unat (word_of_nat i :: u16) = 65535" by (simp add: TXQ_INACTIVE_def)
  with \<open>i < 297\<close> show False by (simp add: unat_of_nat)
qed

lemma init_sel [simp]:
  "stas (rwnx_txq_init i st h tid sta v s) = stas s" "old_ic (rwnx_txq_init i st h tid sta v s) = old_ic s"
  "length (txqs (rwnx_txq_init i st h tid sta v s)) = length (txqs s)"
  by (simp_all add: rwnx_txq_init_def Let_def)

lemma init_nth: "j \<noteq> i \<Longrightarrow> txqs (rwnx_txq_init i st h tid sta v s) ! j = txqs s ! j"
  by (simp add: rwnx_txq_init_def Let_def)

lemma init_keeps:
  assumes "txq_ok X s" and "i < 297" and "\<not> txq_active (txqs s ! i)" and "h < 4" and "sta = owner s i" and "init_status st"
    and "first_vif_txq_idx s \<le> i \<and> owner s i \<noteq> None \<longrightarrow> h = RWNX_HWQ_BE"
    and "i \<in> X \<or> (\<forall>k. owner s i = Some k \<longrightarrow> \<not> ps_active (stas s ! k))"
    and "first_vif_txq_idx s \<le> i \<longrightarrow> g = LEGACY_PS_ID"
  shows "txq_ok X (upd_txq i (\<lambda>q. q\<lparr>tq_ps_id := g\<rparr>) (rwnx_txq_init i st h tid sta v s))" "txq_active (txqs (rwnx_txq_init i st h tid sta v s) ! i)"
proof -
  note o = okD [OF assms(1)]
  let ?lost = "hw_log (map (\<lambda>f. LostFrame (f_id f)) (tq_sk_list (txqs s ! i))) s"
  obtain nd where nd: "rwnx_txq_init i st h tid sta v s = upd_txq i (\<lambda>_. \<lparr>tq_idx = word_of_nat i, tq_status = st, tq_credits = NX_TXQ_INITIAL_CREDITS,
      tq_pkt_sent = 0, tq_pkt_pushed = 0, tq_sk_list = [], tq_last_retry = None, tq_nb_retry = 0, tq_hwq = h, tq_push_limit = 0, tq_tid = tid, tq_sta = sta,
      tq_ps_id = LEGACY_PS_ID, tq_ndev_idx = nd, tq_ndev = v\<rparr>) ?lost"
    by (simp add: rwnx_txq_init_def Let_def)
  let ?q = "\<lparr>tq_idx = word_of_nat i, tq_status = st, tq_credits = NX_TXQ_INITIAL_CREDITS,
      tq_pkt_sent = 0, tq_pkt_pushed = 0, tq_sk_list = [], tq_last_retry = None, tq_nb_retry = 0, tq_hwq = h, tq_push_limit = 0, tq_tid = tid, tq_sta = sta,
      tq_ps_id = g, tq_ndev_idx = nd, tq_ndev = v\<rparr>"
  have eq: "upd_txq i (\<lambda>q. q\<lparr>tq_ps_id := g\<rparr>) (rwnx_txq_init i st h tid sta v s) = upd_txq i (\<lambda>_. ?q) ?lost"
    using assms(2) o(3) by (simp add: nd upd_txq_def)
  have ns: "\<not> rwnx_txq_is_scheduled (txqs s ! i)" using o(6) [OF assms(2)] assms(3) by blast
  have "txq_ok X (upd_txq i (\<lambda>_. ?q) ?lost)"
  proof (rule ok_upd_free)
    show "txq_ok X ?lost" using assms(1) by simp
    show "\<not> rwnx_txq_is_scheduled ?q" using assms(6) by (simp add: rwnx_txq_is_scheduled_def init_status_def)
    show "qbase ?lost i ?q"
      using assms(4,5,7,9) idx_active [OF assms(2)] \<open>\<not> rwnx_txq_is_scheduled ?q\<close>
      by (simp add: qbase_def retry_ok_def NX_TXQ_INITIAL_CREDITS_def layout_cong [of ?lost s])
    show "qps ?lost i ?q" if "i \<notin> X" using that assms(8) by (auto simp: qps_def layout_cong [of ?lost s])
  qed (use ns assms(2) in simp_all)
  then show "txq_ok X (upd_txq i (\<lambda>q. q\<lparr>tq_ps_id := g\<rparr>) (rwnx_txq_init i st h tid sta v s))" by (simp only: eq)
  show "txq_active (txqs (rwnx_txq_init i st h tid sta v s) ! i)" using assms(2) o(3) idx_active by (simp add: nd)
qed

lemma init_plain:
  assumes "txq_ok X s" and "i < 297" and "\<not> txq_active (txqs s ! i)" and "h < 4" and "sta = owner s i" and "init_status st"
    and "first_vif_txq_idx s \<le> i \<and> owner s i \<noteq> None \<longrightarrow> h = RWNX_HWQ_BE"
    and "i \<in> X \<or> (\<forall>k. owner s i = Some k \<longrightarrow> \<not> ps_active (stas s ! k))"
  shows "txq_ok X (rwnx_txq_init i st h tid sta v s)"
proof -
  let ?t = "rwnx_txq_init i st h tid sta v s"
  have "upd_txq i (\<lambda>q. q\<lparr>tq_ps_id := LEGACY_PS_ID\<rparr>) ?t = ?t"
    using assms(2) okD(3) [OF assms(1)] by (simp add: rwnx_txq_init_def Let_def upd_txq_def)
  with init_keeps(1) [OF assms, of LEGACY_PS_ID tid v] show ?thesis by simp
qed

lemma deinit_keeps:
  assumes "txq_ok X s" and "i < 297"
  shows "txq_ok X (rwnx_txq_deinit i s)" "stas (rwnx_txq_deinit i s) = stas s" "old_ic (rwnx_txq_deinit i s) = old_ic s"
proof -
  note o = okD [OF assms(1)]
  let ?d = "rwnx_txq_del_from_hw_list i s" and ?q = "txqs s ! i"
  define t where "t = upd_txq i (\<lambda>q. q\<lparr>tq_idx := TXQ_INACTIVE, tq_sk_list := []\<rparr>) (hw_log (map (\<lambda>f. FreeFrame (f_id f)) (tq_sk_list ?q)) ?d)"
  show "stas (rwnx_txq_deinit i s) = stas s" "old_ic (rwnx_txq_deinit i s) = old_ic s" by (simp_all add: rwnx_txq_deinit_def rwnx_txq_flush_def)
  have eq: "rwnx_txq_deinit i s = t" if "txq_active ?q"
    using that assms(2) o(3)
    by (simp add: t_def rwnx_txq_deinit_def rwnx_txq_flush_def del_nth upd_txq_def hw_log_def)
  have sel: "stas t = stas s" "old_ic t = old_ic s" by (simp_all add: t_def)
  have b: "base_but i t" unfolding t_def
    using but_del [OF invxD(6) [OF o(1) assms(2)]] by (intro but_upd) (simp_all add: rwnx_txq_is_scheduled_def)
  have q: "txqs t ! j = (if j = i then (unscheduled_q ?q)\<lparr>tq_idx := TXQ_INACTIVE, tq_sk_list := []\<rparr> else txqs s ! j)" for j
    using assms(2) o(3) by (simp add: t_def del_nth)
  have u: "\<not> rwnx_txq_is_scheduled ((unscheduled_q ?q)\<lparr>tq_idx := TXQ_INACTIVE, tq_sk_list := []\<rparr>)"
    using scheduled_flags(2) [of ?q] by (simp add: rwnx_txq_is_scheduled_def)
  have "txq_invx X t"
  proof (rule inv_single [OF o(1) b])
    have qi: "txqs t ! i = (unscheduled_q ?q)\<lparr>tq_idx := TXQ_INACTIVE, tq_sk_list := []\<rparr>" by (simp only: q simp_thms if_True)
    show "qbase s i (txqs t ! i)" unfolding qi using invxD(4) [OF o(1) assms(2)] by (simp add: qbase_def)
    show "qps s i (txqs t ! i)" unfolding qi by (simp add: qps_def)
  qed (use q sel in simp_all)
  moreover have "sched_active t" using o(2) u by (auto simp: sched_active_def q)
  ultimately have "txq_ok X t" by (simp add: txq_ok_def)
  then show "txq_ok X (rwnx_txq_deinit i s)" using eq assms(1) by (cases "txq_active ?q") (simp_all add: rwnx_txq_deinit_def)
qed


lemma fold_keeps_frame:
  assumes "txq_ok X s" and "\<And>i t. i \<in> set is \<Longrightarrow> txq_ok X t \<Longrightarrow> txq_ok X (f i t) \<and> stas (f i t) = stas t \<and> old_ic (f i t) = old_ic t"
  shows "txq_ok X (fold f is s) \<and> stas (fold f is s) = stas s \<and> old_ic (fold f is s) = old_ic s"
  using assms
proof (induction "is" arbitrary: s)
  case (Cons i "is")
  have 1: "txq_ok X (f i s) \<and> stas (f i s) = stas s \<and> old_ic (f i s) = old_ic s" using Cons.prems by simp
  have "txq_ok X (fold f is (f i s)) \<and> stas (fold f is (f i s)) = stas (f i s) \<and> old_ic (fold f is (f i s)) = old_ic (f i s)"
    by (rule Cons.IH) (use 1 Cons.prems in auto)
  with 1 show ?case by simp
qed simp

lemma sta_deinit_keeps:
  assumes "txq_ok X s" and "st < length (stas s)"
  shows "txq_ok X (rwnx_txq_sta_deinit st s)"
proof -
  have "i < 297" if "i \<in> set (sta_txqs s st)" for i using that sta_txqs_owner(1) [OF okD(5) [OF assms(1)] assms(2)] by blast
  then have "txq_ok X (fold rwnx_txq_deinit (sta_txqs s st) s) \<and> stas (fold rwnx_txq_deinit (sta_txqs s st) s) = stas s
      \<and> old_ic (fold rwnx_txq_deinit (sta_txqs s st) s) = old_ic s"
    by (intro fold_keeps_frame [OF assms(1)]) (simp_all add: deinit_keeps)
  then show ?thesis by (simp add: rwnx_txq_sta_deinit_def)
qed

definition sta_inactive :: "tx_hw \<Rightarrow> nat \<Rightarrow> bool" where
  "sta_inactive s st \<longleftrightarrow> (\<forall>i \<in> set (sta_txqs s st). \<not> txq_active (txqs s ! i))"

lemma sta_queue:
  assumes "st < remote_sta_max s" and "tid < 9"
  shows "rwnx_txq_sta_get s st 0 + tid = st * 9 + tid" "st * 9 + tid < first_vif_txq_idx s" "st * 9 + tid < 297" "owner s (st * 9 + tid) = Some st"
    "set (sta_txqs s st) = (\<lambda>tid. st * 9 + tid) ` {0..<9}" "length (sta_txqs s st) = 9"
proof -
  have "st * 9 + tid < (st + 1) * 9" using assms(2) by simp
  also have "\<dots> \<le> remote_sta_max s * 9" using assms(1) by (intro mult_le_mono1) simp
  finally show lt: "st * 9 + tid < first_vif_txq_idx s" by (simp add: first_vif_txq_idx_def txq_nums)
  then show "st * 9 + tid < 297" by (simp add: first_vif_txq_idx_def remote_sta_max_def txq_nums split: if_splits)
  show "owner s (st * 9 + tid) = Some st" using lt assms(2) by (simp add: owner_def txq_nums)
  show "rwnx_txq_sta_get s st 0 + tid = st * 9 + tid"
    "set (sta_txqs s st) = (\<lambda>tid. st * 9 + tid) ` {0..<9}" "length (sta_txqs s st) = 9"
    using assms(1) by (auto simp: rwnx_txq_sta_get_def rwnx_txq_sta_idx_def is_multicast_sta_def txq_nums sta_txqs_def image_def)
qed

lemma sta_init_keeps:
  assumes "txq_ok X s" and "st < remote_sta_max s" and "sta_inactive s st" and "init_status stat"
    and "set (sta_txqs s st) \<subseteq> X \<or> \<not> ps_active (stas s ! st)"
  shows "txq_ok X (rwnx_txq_sta_init st stat s)" "stas (rwnx_txq_sta_init st stat s) = stas s" "old_ic (rwnx_txq_sta_init st stat s) = old_ic s"
proof -
  have one: "txq_ok X (sta_init_one st stat tid t) \<and> stas (sta_init_one st stat tid t) = stas t \<and> old_ic (sta_init_one st stat tid t) = old_ic t
      \<and> (\<forall>j. j \<noteq> st * 9 + tid \<longrightarrow> txqs (sta_init_one st stat tid t) ! j = txqs t ! j)"
    if a: "txq_ok X t" "tid < 9" "old_ic t = old_ic s" "stas t = stas s" "\<not> txq_active (txqs t ! (st * 9 + tid))" for tid t
  proof -
    have st: "st < remote_sta_max t" using assms(2) layout_cong(1) [OF a(3)] by simp
    note q = sta_queue [OF st a(2)]
    have in_s: "st * 9 + tid \<in> set (sta_txqs s st)" using sta_queue(5) [OF assms(2) a(2)] a(2) by simp
    have "rwnx_tid2hwq ! tid < 4"
    proof -
      have "\<forall>x \<in> set rwnx_tid2hwq. x < 4" "tid < length rwnx_tid2hwq"
        using a(2) by (simp_all add: rwnx_tid2hwq_def RWNX_HWQ_BE_def RWNX_HWQ_BK_def RWNX_HWQ_VI_def RWNX_HWQ_VO_def)
      then show ?thesis by simp
    qed
    moreover have "st * 9 + tid \<in> X \<or> (\<forall>k. owner t (st * 9 + tid) = Some k \<longrightarrow> \<not> ps_active (stas t ! k))"
      using assms(5) in_s q(4) a(4) by auto
    ultimately have "txq_ok X (sta_init_one st stat tid t)"
      unfolding sta_init_one_def q(1) using q a(1,5) assms(4) by (intro init_keeps(1)) auto
    then show ?thesis by (simp add: sta_init_one_def q(1) init_nth)
  qed
  have "txq_ok X (fold (sta_init_one st stat) tids t) \<and> stas (fold (sta_init_one st stat) tids t) = stas s \<and> old_ic (fold (sta_init_one st stat) tids t) = old_ic s"
    if "txq_ok X t" "distinct tids" "\<forall>tid \<in> set tids. tid < 9 \<and> \<not> txq_active (txqs t ! (st * 9 + tid))" "old_ic t = old_ic s" "stas t = stas s" for tids t
    using that
  proof (induction tids arbitrary: t)
    case (Cons tid tids)
    have "tid < 9" "\<not> txq_active (txqs t ! (st * 9 + tid))" using Cons.prems by simp_all
    note o = one [OF Cons.prems(1) this(1) Cons.prems(4,5) this(2)]
    have "\<forall>tid' \<in> set tids. tid' < 9 \<and> \<not> txq_active (txqs (sta_init_one st stat tid t) ! (st * 9 + tid'))"
    proof
      fix tid' assume "tid' \<in> set tids"
      moreover from this have "st * 9 + tid' \<noteq> st * 9 + tid" using Cons.prems(2) by auto
      ultimately show "tid' < 9 \<and> \<not> txq_active (txqs (sta_init_one st stat tid t) ! (st * 9 + tid'))" using Cons.prems(3) o by simp
    qed
    with Cons o show ?case by simp
  qed simp
  from this [OF assms(1), of "[0..<length (sta_txqs s st)]"] assms(3) sta_queue(5,6) [OF assms(2), of 0]
  have "txq_ok X (rwnx_txq_sta_init st stat s) \<and> stas (rwnx_txq_sta_init st stat s) = stas s \<and> old_ic (rwnx_txq_sta_init st stat s) = old_ic s"
    by (simp add: rwnx_txq_sta_init_def sta_inactive_def)
  then show "txq_ok X (rwnx_txq_sta_init st stat s)" "stas (rwnx_txq_sta_init st stat s) = stas s" "old_ic (rwnx_txq_sta_init st stat s) = old_ic s"
    by blast+
qed

lemma vif_queue:
  assumes "v < 4"
  shows "rwnx_txq_vif_get s v 0 = first_vif_txq_idx s + v" "rwnx_txq_vif_get s v 1 = first_vif_txq_idx s + v + 4"
    "owner s (first_vif_txq_idx s + v) = Some (remote_sta_max s + v)" "owner s (first_vif_txq_idx s + v + 4) = None"
    "owner s (off_chan_txq_idx s) = None" "off_chan_txq_idx s = first_vif_txq_idx s + 8"
  using assms by (auto simp: rwnx_txq_vif_get_def rwnx_txq_vif_idx_def owner_def off_chan_txq_idx_def txq_nums)

lemma vif_init_keeps:
  assumes "txq_ok {} s" and "v < 4" and "\<not> txq_active (txqs s ! rwnx_txq_vif_get s v 0)" "\<not> txq_active (txqs s ! rwnx_txq_vif_get s v 1)"
    and "init_status st" and "\<not> ps_active (stas s ! (remote_sta_max s + v))"
  shows "txq_ok {} (rwnx_txq_vif_init v (remote_sta_max s + v) st s)"
proof -
  note q = vif_queue [OF assms(2)]
  have lt: "rwnx_txq_vif_get s v 0 < 297" "rwnx_txq_vif_get s v 1 < 297" using vif_get_lt(1) assms(2) by (simp_all add: txq_nums)
  let ?s1 = "rwnx_txq_init (rwnx_txq_vif_get s v 0) st RWNX_HWQ_BE 0 (Some (remote_sta_max s + v)) v s"
  have 1: "txq_ok {} ?s1"
    by (rule init_plain [OF assms(1) lt(1) assms(3)]) (use q assms(5,6) in \<open>simp_all add: RWNX_HWQ_BE_def\<close>)
  have g: "rwnx_txq_vif_get ?s1 v 1 = rwnx_txq_vif_get s v 1" "owner ?s1 j = owner s j" for j
    by (simp_all add: rwnx_txq_vif_get_def rwnx_txq_vif_idx_def layout_cong [OF init_sel(2)])
  have "txqs ?s1 ! rwnx_txq_vif_get s v 1 = txqs s ! rwnx_txq_vif_get s v 1" by (rule init_nth) (use q in simp)
  then show ?thesis
    unfolding rwnx_txq_vif_init_def using g(2) q lt(2) assms(4,5)
    by (intro init_plain [OF 1]) (simp_all add: RWNX_HWQ_VO_def)
qed

lemma vif_init_keeps_unk:
  assumes "txq_ok {} s" and "v < 4" and "\<not> txq_active (txqs s ! rwnx_txq_vif_get s v 1)"
  shows "txq_ok {} (rwnx_txq_unk_vif_init v s)"
  unfolding rwnx_txq_unk_vif_init_def using vif_queue [OF assms(2), of s] assms(2,3) vif_get_lt(1) [of v, where s = s and type = 1]
  by (intro init_plain [OF assms(1)]) (simp_all add: RWNX_HWQ_VO_def init_status_def txq_nums)

lemma offchan_init_keeps:
  assumes "txq_ok {} s" and "\<not> txq_active (txqs s ! off_chan_txq_idx s)"
  shows "txq_ok {} (rwnx_txq_offchan_init v s)"
  unfolding rwnx_txq_offchan_init_def using vif_queue [where v = 0 and s = s] assms(2) vif_get_lt(2) [of s]
  by (intro init_plain [OF assms(1)])
    (simp_all add: RWNX_HWQ_VO_def init_status_def RWNX_TXQ_STOP_CHAN_def RWNX_TXQ_IN_HWQ_LIST_def txq_nums)

lemma vif_deinit_keeps:
  assumes "txq_ok X s" and "v < 4"
  shows "txq_ok X (rwnx_txq_vif_deinit v s)" "txq_ok X (rwnx_txq_unk_vif_deinit v s)" "txq_ok X (rwnx_txq_offchan_deinit s)"
  using assms vif_get_lt
  by (simp_all add: rwnx_txq_vif_deinit_def rwnx_txq_unk_vif_deinit_def rwnx_txq_offchan_deinit_def deinit_keeps txq_nums)

end
