(* ===== verification/Txq_Ps.thy ===== *)
theory Txq_Ps
  imports Txq_Setup
begin

text \<open>Power save keeps the invariant: a station falls asleep or wakes up, asks for frames, and a service period is shared among its queues.\<close>

section \<open>Power save\<close>

text \<open>A change of one station entry, its queues being the only ones allowed to be out of order before.\<close>

lemma ok_upd_stas:
  assumes "txq_ok X u" and "st < length (stas u)" and "X \<subseteq> set (sta_txqs u st)"
    and eq: "txqs t = txqs u" "hwqs t = hwqs u" "old_ic t = old_ic u" "tx_host_id t = tx_host_id u" "stas t = (stas u)[st := x]"
    and "s_vif_idx x = s_vif_idx (stas u ! st) \<or> st < remote_sta_max u"
    and "is_multicast_sta u st \<Longrightarrow> ps_active x \<Longrightarrow> pkt_ready x UAPSD_ID = 0"
    and "\<And>i. i < 297 \<Longrightarrow> owner u i = Some st \<Longrightarrow> txq_active (txqs u ! i) \<Longrightarrow> ps_active x \<Longrightarrow>
      ps_stopped (txqs u ! i) \<and> (is_multicast_sta u st \<longrightarrow> pkt_ready x LEGACY_PS_ID = word_of_nat (length (tq_sk_list (txqs u ! i))))"
  shows "txq_ok {} t"
proof -
  note o = okD [OF assms(1)] and lay = layout_cong [OF eq(3)]
  have nth: "stas t ! k = (if k = st then x else stas u ! k)" for k using assms(2) by (simp add: eq(5))
  note d = baseD [OF invxD(1) [OF o(1)]]
  have "txq_static t" using o(5) assms(9) by (auto simp: txq_static_def lay eq(1,2) nth) (auto simp: eq(5))
  moreover have "sched_ok t" by (rule sched_cong [OF d(4)]) (simp_all add: eq(1,2))
  moreover have "table_ok t" using d(5) by (simp add: table_ok_cong [OF eq(3,4)])
  ultimately have "txq_base t" using d(6) by (simp add: txq_base_def qbase_cong [OF eq(3)] eq(1))
  moreover have "ps_ok {} t"
    unfolding ps_ok_def
  proof (intro allI impI)
    fix i :: nat assume i: "i < 297"
    show "qps t i (txqs t ! i)"
    proof (cases "owner u i = Some st")
      case True
      then show ?thesis using assms(11) [OF i True] by (auto simp: qps_def lay eq(1) nth)
    next
      case False
      then have "i \<notin> X" using assms(3) sta_txqs_owner(1) [OF o(5) assms(2)] by auto
      with invxD(5) [OF o(1) i] False show ?thesis by (auto simp: qps_def lay eq(1) nth)
    qed
  qed
  moreover have "sta_ok t"
    using invxD(3) [OF o(1)] assms(2,10) by (auto simp: sta_ok_def lay nth_list_update eq(5))
  moreover have "sched_active t" using o(2) by (simp add: sched_active_def eq(1))
  ultimately show ?thesis by (simp add: txq_ok_def txq_invx_def)
qed

lemma stop_commute: "rwnx_txq_stop i r (upd_sta st f s) = upd_sta st f (rwnx_txq_stop i r s)"
  by (simp add: rwnx_txq_stop_def rwnx_txq_del_from_hw_list_def set_status_def clear_status_def upd_txq_def upd_sta_def Let_def)

lemma sta_txqs_cong: "old_ic t = old_ic s \<Longrightarrow> s_vif_idx (stas t ! st) = s_vif_idx (stas s ! st) \<Longrightarrow> sta_txqs t st = sta_txqs s st"
  by (simp add: sta_txqs_def rwnx_txq_sta_get_def rwnx_txq_sta_idx_def layout_cong [of t s])

lemma sta_get_cong: "old_ic t = old_ic s \<Longrightarrow> s_vif_idx (stas t ! st) = s_vif_idx (stas s ! st) \<Longrightarrow> rwnx_txq_sta_get t st tid = rwnx_txq_sta_get s st tid"
  by (simp add: rwnx_txq_sta_get_def rwnx_txq_sta_idx_def layout_cong [of t s])

lemma sta_stop_commute:
  assumes "\<And>x. s_vif_idx (f x) = s_vif_idx x"
  shows "rwnx_txq_sta_stop r st (upd_sta st f s) = upd_sta st f (rwnx_txq_sta_stop r st s)"
proof -
  have "sta_txqs (upd_sta st f s) st = sta_txqs s st" using assms by (intro sta_txqs_cong) auto
  moreover have "fold (\<lambda>i. rwnx_txq_stop i r) is (upd_sta st f s) = upd_sta st f (fold (\<lambda>i. rwnx_txq_stop i r) is s)" for "is"
    by (induction "is" arbitrary: s) (simp_all add: stop_commute)
  ultimately show ?thesis by (simp add: rwnx_txq_sta_stop_def)
qed

lemma fold_nth:
  assumes "distinct is" and "\<And>i s j. i < length (txqs s) \<Longrightarrow> txqs (f i s) ! j = (if i = j then g (txqs s ! i) else txqs s ! j)"
    and "\<And>i s. length (txqs (f i s)) = length (txqs s)" and "\<forall>i \<in> set is. i < length (txqs s)"
  shows "txqs (fold f is s) ! j = (if j \<in> set is then g (txqs s ! j) else txqs s ! j)"
  using assms(1,4)
proof (induction "is" arbitrary: s)
  case (Cons i "is")
  then show ?case using assms(2,3) by auto
qed simp

lemma txq_len_sel [simp]:
  "length (txqs (rwnx_txq_start i r s)) = length (txqs s)" "length (txqs (rwnx_txq_stop i r s)) = length (txqs s)"
  by (simp_all add: rwnx_txq_start_def rwnx_txq_stop_def Let_def)

lemma enable_keeps:
  assumes "txq_ok X s" and "st < length (stas s)" and "X \<subseteq> set (sta_txqs s st)"
  shows "txq_ok {} (rwnx_ps_bh_enable st True s)"
proof -
  define u where "u = rwnx_txq_sta_stop RWNX_TXQ_STOP_STA_PS st s"
  note o = okD [OF assms(1)]
  have ok: "txq_ok X u" unfolding u_def by (rule sta_stop_keeps [OF assms(1,2)]) (simp add: stop_reason_def)
  have sel: "stas u = stas s" "old_ic u = old_ic s" by (simp_all add: u_def)
  have tq: "sta_txqs u st = sta_txqs s st" "\<And>tid. rwnx_txq_sta_get u st tid = rwnx_txq_sta_get s st tid"
    using sta_txqs_cong [of u s st] sta_get_cong [of u s st] sel by simp_all
  have own: "i \<in> set (sta_txqs s st) \<longleftrightarrow> i < 297 \<and> owner u i = Some st" for i
    using sta_txqs_owner(1) [OF o(5) assms(2)] layout_cong(3) [OF sel(2)] by auto
  have q: "txqs u ! i = stop_q RWNX_TXQ_STOP_STA_PS (txqs s ! i)" if "i < 297" "owner u i = Some st" for i
    unfolding u_def rwnx_txq_sta_stop_def using that own [of i] own o(3) sta_txqs_owner(2) [OF o(5) assms(2)]
    by (subst fold_nth [where g = "stop_q RWNX_TXQ_STOP_STA_PS"]) (auto simp: stop_effect)
  have stopped: "ps_stopped (txqs u ! i)" if "i < 297" "owner u i = Some st" "txq_active (txqs u ! i)" for i
    using that(3) unfolding q [OF that(1,2)] by (simp add: stop_q_def ps_stopped_def flag_simps split: if_splits)
      (auto simp: txq_flag_defs flag_set_clear_other unscheduled_q_def flag_simps)
  have only: "i = rwnx_txq_sta_get s st 0" if "i < 297" "owner u i = Some st" "is_multicast_sta u st" for i
    using that owner_inj [of s i st "rwnx_txq_sta_get s st 0"] sta_get_lt(2) [OF o(5) assms(2)] layout_cong(3,4) [OF sel(2)] by auto
  let ?a = "\<lambda>x. x\<lparr>ps_active := True, sp_cnt := \<lambda>_. 0\<rparr>"
  let ?p = "if is_multicast_sta s st then (\<lambda>_. 0)(LEGACY_PS_ID := word_of_nat (length (tq_sk_list (txqs u ! rwnx_txq_sta_get s st 0))))
     else (\<lambda>k. add_lengths (upd_sta st ?a u) (sta_txqs s st) k)"
  let ?x = "(?a (stas u ! st))\<lparr>pkt_ready := ?p\<rparr>"
  have com: "rwnx_txq_sta_stop RWNX_TXQ_STOP_STA_PS st (upd_sta st ?a s) = upd_sta st ?a u"
    unfolding u_def by (rule sta_stop_commute) simp
  have t: "rwnx_ps_bh_enable st True s = upd_sta st (\<lambda>x. x\<lparr>pkt_ready := ?p\<rparr>) (upd_sta st ?a u)"
    by (simp add: rwnx_ps_bh_enable_def Let_def com)
  have lay: "is_multicast_sta u st = is_multicast_sta s st" using layout_cong(4) [OF sel(2)] .
  show ?thesis
    unfolding t
  proof (rule ok_upd_stas [where x = ?x, OF ok])
    show "stas (upd_sta st (\<lambda>x. x\<lparr>pkt_ready := ?p\<rparr>) (upd_sta st ?a u)) = (stas u)[st := ?x]"
      using assms(2) sel(1) by (simp add: upd_sta_def)
    show "is_multicast_sta u st \<Longrightarrow> pkt_ready ?x UAPSD_ID = 0" using lay by (simp add: LEGACY_PS_ID_def UAPSD_ID_def)
    show "ps_stopped (txqs u ! i) \<and> (is_multicast_sta u st \<longrightarrow> pkt_ready ?x LEGACY_PS_ID = word_of_nat (length (tq_sk_list (txqs u ! i))))"
      if "i < 297" "owner u i = Some st" "txq_active (txqs u ! i)" for i
      using stopped [OF that] only [OF that(1,2)] lay by auto
  qed (use assms sel tq in simp_all)
qed


lemma zero_keeps:
  assumes "txq_ok X s" and "i < 297"
  shows "txq_ok X (zero_push_limit i s)"
proof -
  note o = okD [OF assms(1)]
  let ?t = "zero_push_limit i s"
  have b: "base_but i ?t" unfolding zero_push_limit_def by (rule but_upd [OF invxD(6) [OF o(1) assms(2)]]) (simp_all add: rwnx_txq_is_scheduled_def)
  have q: "txqs ?t ! j = (if j = i then (txqs s ! i)\<lparr>tq_push_limit := 0\<rparr> else txqs s ! j)" for j
    using assms(2) o(3) by (simp add: zero_push_limit_def)
  have f: "rwnx_txq_is_scheduled (q\<lparr>tq_push_limit := 0\<rparr>) = rwnx_txq_is_scheduled q" "rwnx_txq_is_stopped (q\<lparr>tq_push_limit := 0\<rparr>) = rwnx_txq_is_stopped q"
    "ps_stopped (q\<lparr>tq_push_limit := 0\<rparr>) = ps_stopped q" "retry_ok (q\<lparr>tq_push_limit := 0\<rparr>) = retry_ok q" for q :: rwnx_txq
    by (simp_all add: rwnx_txq_is_scheduled_def rwnx_txq_is_stopped_def ps_stopped_def retry_ok_def)
  have "txq_invx X ?t"
  proof (rule inv_single [OF o(1) b])
    show "qbase s i (txqs ?t ! i)" using invxD(4) [OF o(1) assms(2)] by (simp add: q qbase_def f)
    show "qps s i (txqs ?t ! i)" if "i \<notin> X" using invxD(5) [OF o(1) assms(2) that] by (auto simp: q qps_def f)
  qed (simp_all add: q zero_push_limit_def)
  moreover have "sched_active ?t" using o(2) by (simp add: sched_active_def q f)
  ultimately show ?thesis by (simp add: txq_ok_def)
qed

lemma start_ps_keeps:
  assumes "txq_ok {} s" and "i < 297" and "tq_push_limit (txqs s ! i) = 0" and "owner s i = Some st" "\<not> ps_active (stas s ! st)"
  shows "txq_ok {} (rwnx_txq_start i RWNX_TXQ_STOP_STA_PS s)"
proof -
  note o = okD [OF assms(1)]
  let ?r = RWNX_TXQ_STOP_STA_PS
  have r: "stop_reason ?r" by (simp add: stop_reason_def)
  have "txq_invx {} (rwnx_txq_start i ?r s)"
  proof (rule inv_single [OF o(1) but_start [OF invxD(6) [OF o(1) assms(2)] stop_reasonD(1) [OF r]]])
    show "qbase s i (txqs (rwnx_txq_start i ?r s) ! i)"
      using qbase_start [OF invxD(4) [OF o(1) assms(2)] stop_reasonD(1) [OF r]] assms(2,3) o(3) by (simp add: start_effect)
    show "qps s i (txqs (rwnx_txq_start i ?r s) ! i)" using assms(4,5) by (simp add: qps_def)
  qed (use assms(2) o(3) in \<open>simp_all add: start_effect\<close>)
  moreover have "txq_active (start_q ?r (txqs s ! i))" if "rwnx_txq_is_scheduled (start_q ?r (txqs s ! i))"
    using that o(6) [OF assms(2)] by (auto simp: start_q_def Let_def split: if_splits)
  ultimately show ?thesis using o(2,3) assms(2) by (auto simp: txq_ok_def sched_active_def start_effect)
qed

lemma start_ps_fold:
  assumes "txq_ok {} s" and "\<not> ps_active (stas s ! st)" and "\<forall>i \<in> set is. i < 297 \<and> owner s i = Some st \<and> tq_push_limit (txqs s ! i) = 0"
  shows "txq_ok {} (fold (\<lambda>i. rwnx_txq_start i RWNX_TXQ_STOP_STA_PS) is s)"
  using assms
proof (induction "is" arbitrary: s)
  case (Cons i "is")
  let ?s = "rwnx_txq_start i RWNX_TXQ_STOP_STA_PS s"
  have len: "i < length (txqs s)" using Cons.prems(3) okD(3) [OF Cons.prems(1)] by simp
  have "tq_push_limit (txqs ?s ! j) = tq_push_limit (txqs s ! j)" for j
    using len by (simp add: start_effect start_q_def Let_def)
  then have "\<forall>j \<in> set is. j < 297 \<and> owner ?s j = Some st \<and> tq_push_limit (txqs ?s ! j) = 0"
    using Cons.prems(3) layout_cong(3) [of ?s s] by simp
  moreover have "txq_ok {} ?s" using start_ps_keeps [OF Cons.prems(1) _ _ _ Cons.prems(2)] Cons.prems(3) by simp
  ultimately show ?case using Cons.IH [of ?s] Cons.prems(2) by simp
qed simp

lemma disable_keeps:
  assumes "txq_ok X s" and "st < length (stas s)" and "X \<subseteq> set (sta_txqs s st)"
  shows "txq_ok {} (rwnx_ps_bh_enable st False s)"
proof -
  let ?f = "\<lambda>x. x\<lparr>ps_active := False\<rparr>" and ?g = "rwnx_txq_sta_get s st 0"
  note o = okD [OF assms(1)]
  define s1 where "s1 = upd_sta st ?f s"
  define s2 where "s2 = (if is_multicast_sta s st then upd_txq ?g (\<lambda>q. q\<lparr>tq_hwq := RWNX_HWQ_BE\<rparr>) s1 else s1)"
  define s3 where "s3 = fold zero_push_limit (sta_txqs s st) s2"
  have 1: "txq_ok {} s1" unfolding s1_def
    by (rule ok_upd_stas [where x = "?f (stas s ! st)", OF assms]) (simp_all add: upd_sta_def)
  have "rwnx_txq_sta_get (upd_sta st ?f s) st tid = rwnx_txq_sta_get s st tid" for tid by (rule sta_get_cong) simp_all
  note gt = sta_get_lt [OF o(5) assms(2), of 0]
  have 2: "txq_ok {} s2"
  proof (cases "is_multicast_sta s st")
    case True
    have q: "txqs s1 ! ?g = txqs s ! ?g" "owner s1 ?g = Some st" using gt(2) layout_cong(3) [of s1 s] by (simp_all add: s1_def)
    have qb: "qbase s1 ?g (txqs s1 ! ?g)" using invxD(4) [OF okD(1) [OF 1] gt(1)] .
    have s2: "s2 = upd_txq ?g (\<lambda>q. q\<lparr>tq_hwq := RWNX_HWQ_BE\<rparr>) s1" using True by (simp add: s2_def)
    show ?thesis
    proof (cases "txq_active (txqs s1 ! ?g)")
      case act: True
      have "first_vif_txq_idx s1 \<le> ?g" using owner_multicast [OF gt(2)] True layout_cong(2) [of s1 s] by (simp add: s1_def)
      then have "tq_hwq (txqs s1 ! ?g) = RWNX_HWQ_BE" using qb act q(2) by (simp add: qbase_def)
      then have "(txqs s1 ! ?g)\<lparr>tq_hwq := RWNX_HWQ_BE\<rparr> = txqs s1 ! ?g" by simp
      then have "s2 = s1" by (simp add: s2 upd_txq_def)
      with 1 show ?thesis by simp
    next
      case False
      have ns: "\<not> rwnx_txq_is_scheduled (txqs s1 ! ?g)" using okD(6) [OF 1 gt(1)] False by blast
      show ?thesis unfolding s2
        by (rule ok_upd_free [OF 1 gt(1) ns]) (use ns qb False in \<open>simp_all add: rwnx_txq_is_scheduled_def qbase_def qps_def RWNX_HWQ_BE_def\<close>)
    qed
  qed (use 1 in \<open>simp add: s2_def\<close>)
  have own: "i \<in> set (sta_txqs s st) \<longleftrightarrow> i < 297 \<and> owner s i = Some st" for i
    using sta_txqs_owner(1) [OF o(5) assms(2)] by auto
  have z: "txq_ok {} (fold zero_push_limit is u)" if "txq_ok {} u" "set is \<subseteq> set (sta_txqs s st)" for "is" u
    using that own by (intro fold_keeps zero_keeps) auto
  have 3: "txq_ok {} s3" unfolding s3_def by (rule z [OF 2]) simp
  have len2: "length (txqs s2) = 297" using okD(3) [OF 2] .
  have lim: "tq_push_limit (txqs s3 ! i) = 0" if "i \<in> set (sta_txqs s st)" for i
    unfolding s3_def using that own len2 sta_txqs_owner(2) [OF o(5) assms(2)]
    by (subst fold_nth [where g = "\<lambda>q. q\<lparr>tq_push_limit := 0\<rparr>"]) (auto simp: zero_push_limit_def)
  have sel3: "stas s3 = stas s1" "old_ic s3 = old_ic s"
  proof -
    have "stas s3 = stas s2" "old_ic s3 = old_ic s2" unfolding s3_def by (rule fold_frame, simp add: zero_push_limit_def)+
    then show "stas s3 = stas s1" "old_ic s3 = old_ic s" by (simp_all add: s2_def s1_def)
  qed
  have na: "\<not> ps_active (stas s3 ! st)" using assms(2) by (simp add: sel3 s1_def)
  have "sta_txqs s3 st = sta_txqs s st" by (rule sta_txqs_cong) (use assms(2) in \<open>simp_all add: sel3 s1_def\<close>)
  then have 4: "txq_ok {} (rwnx_txq_sta_start RWNX_TXQ_STOP_STA_PS st s3)"
    unfolding rwnx_txq_sta_start_def
    by (intro start_ps_fold [OF 3 na]) (use own lim layout_cong(3) [OF sel3(2)] in auto)
  have "txq_ok {} (rwnx_set_traffic_status st b k u) = txq_ok {} u" for b k u by (simp add: rwnx_set_traffic_status_def)
  with 4 show ?thesis
    by (simp only: rwnx_ps_bh_enable_def Let_def if_False s1_def [symmetric] s2_def [symmetric] s3_def [symmetric] ok_log split: if_split) simp
qed


section \<open>Service periods\<close>

lemma serve_keeps:
  assumes "txq_ok {} s" and "i < 297" and "owner s i = Some st" and "ps_active (stas s ! st)" and "txq_active (txqs s ! i)"
    and "n \<noteq> 0" and "unat n \<le> length (tq_sk_list (txqs s ! i))" and "unat n < 256" and "t = serve st k n i s"
  shows "txq_ok {} t" "old_ic t = old_ic s" "length (stas t) = length (stas s)" "j \<noteq> i \<Longrightarrow> txqs t ! j = txqs s ! j"
    "ps_active (stas t ! j) = ps_active (stas s ! j)" "s_vif_idx (stas t ! j) = s_vif_idx (stas s ! j)"
    "txq_active (txqs t ! i)" "tq_sk_list (txqs t ! i) = tq_sk_list (txqs s ! i)" "tq_credits (txqs t ! i) = tq_credits (txqs s ! i)"
proof -
  let ?q = "txqs s ! i"
  define s1 where "s1 = upd_sta st (\<lambda>x. x\<lparr>sp_cnt := (sp_cnt x)(k := sp_cnt x k + n)\<rparr>) s"
  define s2 where "s2 = upd_txq i (\<lambda>q. q\<lparr>tq_push_limit := ucast n\<rparr>) s1"
  have t: "t = rwnx_txq_add_to_hw_list i s2" by (simp add: assms(9) serve_def s1_def s2_def)
  note o = okD [OF assms(1)]
  have st: "st < length (stas s)" using owner_lt [OF o(5) assms(3)] .
  have ps: "ps_stopped (txqs s ! j) \<and> (is_multicast_sta s st \<longrightarrow> pkt_ready (stas s ! st) LEGACY_PS_ID = word_of_nat (length (tq_sk_list (txqs s ! j))))"
    if "j < 297" "owner s j = Some st" "txq_active (txqs s ! j)" for j
    using invxD(5) [OF o(1) that(1)] that assms(4) by (auto simp: qps_def)
  have 1: "txq_ok {} s1" unfolding s1_def
    by (rule ok_upd_stas [OF assms(1) st, where x = "(stas s ! st)\<lparr>sp_cnt := (sp_cnt (stas s ! st))(k := sp_cnt (stas s ! st) k + n)\<rparr>"])
      (use ps invxD(3) [OF o(1)] st in \<open>auto simp: upd_sta_def sta_ok_def\<close>)
  have sel: "txqs s1 = txqs s" "old_ic s1 = old_ic s" by (simp_all add: s1_def)
  let ?p = "?q\<lparr>tq_push_limit := ucast n\<rparr>"
  have f: "rwnx_txq_is_scheduled ?p = rwnx_txq_is_scheduled ?q" "rwnx_txq_is_stopped ?p = rwnx_txq_is_stopped ?q"
    "ps_stopped ?p = ps_stopped ?q" "retry_ok ?p = retry_ok ?q"
    by (simp_all add: rwnx_txq_is_scheduled_def rwnx_txq_is_stopped_def ps_stopped_def retry_ok_def)
  have ucast: "unat (ucast n :: u8) = unat n" using assms(8) by (simp add: unat_ucast_small)
  have len: "i < length (txqs s2)" using assms(2) o(3) by (simp add: s2_def sel)
  have q2: "txqs s2 ! j = (if j = i then ?p else txqs s ! j)" for j using assms(2) o(3) by (simp add: s2_def sel)
  have q: "txqs t ! j = (if j = i then scheduled_q ?p else txqs s ! j)" for j by (auto simp: t add_nth [OF len] q2)
  have ne: "tq_sk_list ?q \<noteq> []" using assms(6,7) by (auto simp: unat_eq_0)
  have b: "base_but i t" unfolding t s2_def
    by (rule but_add, rule but_upd [OF invxD(6) [OF okD(1) [OF 1] assms(2)]]) (simp_all add: sel f)
  have qb: "qbase s1 i ?q" using invxD(4) [OF okD(1) [OF 1] assms(2)] by (simp add: sel)
  have "txq_invx {} t"
  proof (rule inv_single [OF okD(1) [OF 1] b])
    show "qbase s1 i (txqs t ! i)"
      using qb assms(5,7) ne ucast ps [OF assms(2,3,5)] by (simp add: q qbase_def f)
    show "qps s1 i (txqs t ! i)" using invxD(5) [OF okD(1) [OF 1] assms(2)] by (auto simp: q qps_def sel f)
    show "stas t = stas s1" "old_ic t = old_ic s1" by (simp_all add: t s2_def)
    show "\<And>j. j \<noteq> i \<Longrightarrow> txqs t ! j = txqs s1 ! j" by (simp add: q sel)
  qed
  moreover have "sched_active t" using o(2) assms(5) by (auto simp: sched_active_def q)
  ultimately show "txq_ok {} t" by (simp add: txq_ok_def)
  show "old_ic t = old_ic s" "length (stas t) = length (stas s)" "j \<noteq> i \<Longrightarrow> txqs t ! j = txqs s ! j"
    "ps_active (stas t ! j) = ps_active (stas s ! j)" "s_vif_idx (stas t ! j) = s_vif_idx (stas s ! j)"
    "txq_active (txqs t ! i)" "tq_sk_list (txqs t ! i) = tq_sk_list (txqs s ! i)" "tq_credits (txqs t ! i) = tq_credits (txqs s ! i)"
    using assms(5) by (auto simp: q) (auto simp: t s2_def s1_def split: if_splits)
qed

lemma cap_credits_le:
  assumes "0 < sint (tq_credits q)"
  shows "unat (cap_credits n q) \<le> unat n" "unat (cap_credits n q) < 256" "n \<noteq> 0 \<Longrightarrow> cap_credits n q \<noteq> 0" "unat (cap_credits n q) = min (unat n) (nat (sint (tq_credits q)))"
proof -
  have "sint (tq_credits q) < 128" using sint_lt [of "tq_credits q"] by simp
  then obtain c where c: "sint (tq_credits q) = int c" "0 < c" "c < 128" using assms by (metis less_imp_le nonneg_int_cases of_nat_0_less_iff of_nat_less_numeral_iff)
  have u: "unat (word_of_int (int c) :: u16) = c" using c(3) by (simp add: unat_of_nat)
  have eq: "cap_credits n q = (if c < unat n then word_of_int (int c) else n)" unfolding cap_credits_def c(1) of_nat_less_iff by simp
  show m: "unat (cap_credits n q) = min (unat n) (nat (sint (tq_credits q)))" unfolding eq c(1) using u by simp
  show "unat (cap_credits n q) \<le> unat n" "unat (cap_credits n q) < 256" unfolding m c(1) using c(3) by simp_all
  assume "n \<noteq> 0"
  then have "0 < unat n" by (simp add: unat_gt_0)
  then have "0 < unat (cap_credits n q)" unfolding m c(1) using c(2) by simp
  then show "cap_credits n q \<noteq> 0" by auto
qed

text \<open>A station in power-save mode whose queues are active.\<close>

definition ps_served :: "tx_hw \<Rightarrow> nat \<Rightarrow> bool" where
  "ps_served s st \<longleftrightarrow> (\<forall>i. i < 297 \<and> owner s i = Some st \<longrightarrow> txq_active (txqs s ! i))"

lemma serve_served:
  assumes "txq_ok {} s" and "i < 297" and "owner s i = Some st" and "ps_active (stas s ! st)" and "ps_served s st"
    and "n \<noteq> 0" and "unat n \<le> length (tq_sk_list (txqs s ! i))" and "unat n < 256" and "t = serve st k n i s"
  shows "ps_served t st"
proof -
  note e = serve_keeps [OF assms(1-4) _ assms(6-9)]
  have a: "txq_active (txqs s ! i)" using assms(2,3,5) by (simp add: ps_served_def)
  have "txq_active (txqs t ! j)" if "j < 297" "owner s j = Some st" for j
    using e(4,7) [OF a] that assms(5) by (cases "j = i") (auto simp: ps_served_def)
  then show ?thesis using layout_cong(3) [OF e(2) [OF a]] by (simp add: ps_served_def)
qed

lemma share_ok:
  assumes "txq_invx {} s" and "i < 297" and "txq_active (txqs s ! i)" and "n \<noteq> 0"
    and "n \<le> cap_credits (word_of_nat (length (tq_sk_list (txqs s ! i)))) (txqs s ! i)"
  shows "unat n \<le> length (tq_sk_list (txqs s ! i))" "unat n < 256"
proof -
  have "0 < sint (tq_credits (txqs s ! i))" using invxD(4) [OF assms(1,2)] assms(3) by (simp add: qbase_def)
  note c = cap_credits_le [OF this]
  have "unat n \<le> unat (cap_credits (word_of_nat (length (tq_sk_list (txqs s ! i)))) (txqs s ! i))" using assms(5) by (simp add: word_le_nat_alt)
  then show "unat n \<le> length (tq_sk_list (txqs s ! i))" "unat n < 256"
    using c(1,2) [of "word_of_nat (length (tq_sk_list (txqs s ! i)))"] by (auto simp: unat_of_nat intro: le_trans order.trans [OF _ mod_less_eq_dividend])
qed

lemma dispatch_keeps:
  assumes "txq_ok {} s" and "st < length (stas s)" and "ps_active (stas s ! st)" and "ps_served s st" and "req \<noteq> 0"
  shows "txq_ok {} (ps_dispatch st k req tids s)"
  using assms
proof (induction st k req tids s rule: ps_dispatch.induct)
  case (2 st k req tid tids s)
  let ?i = "rwnx_txq_sta_get s st tid"
  let ?n = "cap_credits (word_of_nat (length (tq_sk_list (txqs s ! ?i)))) (txqs s ! ?i)"
  note g = sta_get_lt [OF okD(5) [OF "2.prems"(1)] "2.prems"(2), of tid]
  have a: "txq_active (txqs s ! ?i)" using "2.prems"(4) g by (simp add: ps_served_def)
  note sh = share_ok [OF okD(1) [OF "2.prems"(1)] g(1) a]
  note kp = serve_keeps [OF "2.prems"(1) g "2.prems"(3) a] and sv = serve_served [OF "2.prems"(1) g "2.prems"(3,4)]
  show ?case
  proof (cases "tq_ps_id (txqs s ! ?i) \<noteq> k \<or> ?n = 0")
    case True
    then have "ps_dispatch st k req (tid # tids) s = ps_dispatch st k req tids s" by (auto simp: Let_def)
    with "2.IH"(1) [OF refl refl refl True "2.prems"] show ?thesis by simp
  next
    case nz: False
    then have n0: "?n \<noteq> 0" by blast
    show ?thesis
    proof (cases "?n < req")
      case True
      have l: "unat ?n \<le> length (tq_sk_list (txqs s ! ?i))" "unat ?n < 256" using sh [OF n0] by simp_all
      let ?t = "serve st k ?n ?i s"
      have e: "ps_dispatch st k req (tid # tids) s = ps_dispatch st k (req - ?n) tids ?t" using nz True by (simp add: Let_def)
      have "req - ?n \<noteq> 0" using True by auto
      then show ?thesis unfolding e using kp [OF n0 l refl] sv [OF n0 l refl] "2.prems"(2,3)
        by (intro "2.IH"(2) [OF refl refl refl nz True]) simp_all
    next
      case False
      then have le: "req \<le> ?n" by simp
      have l: "unat req \<le> length (tq_sk_list (txqs s ! ?i))" "unat req < 256" using sh [OF "2.prems"(5) le] by simp_all
      have e: "ps_dispatch st k req (tid # tids) s = serve st k req ?i s" using nz False by (simp add: Let_def)
      show ?thesis unfolding e by (rule kp(1) [OF "2.prems"(5) l refl])
    qed
  qed
qed simp

lemma sp_cnt_keeps:
  assumes "txq_ok {} s" and "st < length (stas s)"
  shows "txq_ok {} (upd_sta st (\<lambda>x. x\<lparr>sp_cnt := f x\<rparr>) s)"
proof -
  note o = okD [OF assms(1)]
  have ps: "ps_stopped (txqs s ! j) \<and> (is_multicast_sta s st \<longrightarrow> pkt_ready (stas s ! st) LEGACY_PS_ID = word_of_nat (length (tq_sk_list (txqs s ! j))))"
    if "j < 297" "owner s j = Some st" "txq_active (txqs s ! j)" "ps_active (stas s ! st)" for j
    using invxD(5) [OF o(1) that(1)] that by (auto simp: qps_def)
  show ?thesis
    by (rule ok_upd_stas [OF assms, where x = "(stas s ! st)\<lparr>sp_cnt := f (stas s ! st)\<rparr>"])
      (use ps invxD(3) [OF o(1)] assms(2) in \<open>auto simp: upd_sta_def sta_ok_def\<close>)
qed

lemma zero_fold_keeps: "txq_ok X s \<Longrightarrow> \<forall>i \<in> set is. i < 297 \<Longrightarrow> txq_ok X (fold zero_push_limit is s)"
  by (intro fold_keeps zero_keeps) auto

definition traffic_ready :: "rwnx_sta \<Rightarrow> nat \<Rightarrow> int" where
  "traffic_ready x k = int (unat (pkt_ready x k)) - int (unat (sp_cnt x k))"

definition traffic_share :: "rwnx_sta \<Rightarrow> u16 \<Rightarrow> nat \<Rightarrow> u16" where
  "traffic_share x pkt_req k = (if pkt_req = 0 \<or> traffic_ready x k < int (unat pkt_req) then word_of_int (traffic_ready x k) else pkt_req)"

lemma traffic_share_pos:
  assumes "0 < traffic_ready x k"
  shows "traffic_share x r k \<noteq> 0" "int (unat (traffic_share x r k)) \<le> traffic_ready x k"
    "unat (traffic_share x r k) = (if r = 0 then nat (traffic_ready x k) else min (unat r) (nat (traffic_ready x k)))"
proof -
  have "traffic_ready x k < 65536" using unat_u16_less [of "pkt_ready x k"] unfolding traffic_ready_def by linarith
  then obtain c where c: "traffic_ready x k = int c" "0 < c" "c < 65536"
    using assms by (metis less_imp_le nonneg_int_cases of_nat_0_less_iff of_nat_less_numeral_iff)
  have u: "unat (word_of_int (int c) :: u16) = c" using c(3) by (simp add: unat_of_nat)
  have eq: "traffic_share x r k = (if r = 0 \<or> c < unat r then word_of_int (int c) else r)" unfolding traffic_share_def c(1) of_nat_less_iff by simp
  show m: "unat (traffic_share x r k) = (if r = 0 then nat (traffic_ready x k) else min (unat r) (nat (traffic_ready x k)))"
    unfolding eq c(1) using u by auto
  show "int (unat (traffic_share x r k)) \<le> traffic_ready x k" unfolding m c(1) nat_int of_nat_le_iff by simp
  have "0 < unat (traffic_share x r k)" unfolding m c(1) using c(2) by (auto simp: unat_gt_0)
  then show "traffic_share x r k \<noteq> 0" by auto
qed

lemma traffic_keeps:
  assumes "txq_ok {} s" and "st < length (stas s)" and "ps_served s st" and "k \<in> {LEGACY_PS_ID, UAPSD_ID}"
  shows "txq_ok {} (rwnx_ps_bh_traffic_req st r k s)"
proof -
  let ?x = "stas s ! st" and ?i = "rwnx_txq_sta_get s st 0"
  note o = okD [OF assms(1)]
  have own: "\<forall>i \<in> set (sta_txqs s st). i < 297" using sta_txqs_owner(1) [OF o(5) assms(2)] by blast
  have intr: "txq_ok {} (fold zero_push_limit (sta_txqs s st) (upd_sta st (\<lambda>x. x\<lparr>sp_cnt := (sp_cnt x)(k := 0)\<rparr>) s))"
    by (rule zero_fold_keeps [OF sp_cnt_keeps [OF assms(1,2)] own])
  have norm: "txq_ok {} (if is_multicast_sta s st then serve st k (cap_credits (traffic_share ?x r k) (txqs s ! ?i)) ?i s
      else ps_dispatch st k (traffic_share ?x r k) nx_tid_prio s)" if act: "ps_active ?x" "0 < traffic_ready ?x k"
  proof (cases "is_multicast_sta s st")
    case True
    note g = sta_get_lt [OF o(5) assms(2), of 0]
    have a: "txq_active (txqs s ! ?i)" using assms(3) g by (simp add: ps_served_def)
    have "pkt_ready ?x UAPSD_ID = 0" using invxD(3) [OF o(1)] True act(1) assms(2) by (simp add: sta_ok_def)
    with act(2) assms(4) have k: "k = LEGACY_PS_ID" by (auto simp: traffic_ready_def)
    have r: "pkt_ready ?x LEGACY_PS_ID = word_of_nat (length (tq_sk_list (txqs s ! ?i)))"
      using invxD(5) [OF o(1) g(1)] g(2) a act(1) True by (simp add: qps_def)
    have "unat (traffic_share ?x r k) \<le> unat (pkt_ready ?x LEGACY_PS_ID)"
      using traffic_share_pos(2) [OF act(2), of r] unfolding traffic_ready_def k by linarith
    also have "\<dots> \<le> length (tq_sk_list (txqs s ! ?i))" by (simp add: r unat_of_nat)
    finally have le: "unat (traffic_share ?x r k) \<le> length (tq_sk_list (txqs s ! ?i))" .
    have "0 < sint (tq_credits (txqs s ! ?i))" using invxD(4) [OF o(1) g(1)] a by (simp add: qbase_def)
    note c = cap_credits_le [OF this, of "traffic_share ?x r k"]
    show ?thesis
      using serve_keeps(1) [OF assms(1) g act(1) a c(3) [OF traffic_share_pos(1) [OF act(2)]] _ c(2) refl] c(1) le True by simp
  next
    case False
    with dispatch_keeps [OF assms(1,2) act(1) assms(3) traffic_share_pos(1) [OF act(2)]] show ?thesis by simp
  qed
  note def = rwnx_ps_bh_traffic_req_def Let_def traffic_ready_def [symmetric] traffic_share_def [symmetric]
  show ?thesis
  proof (cases "\<not> ps_active ?x \<or> r = PS_SP_INTERRUPTED \<and> k = UAPSD_ID \<or> sp_cnt ?x k \<noteq> 0 \<or> traffic_ready ?x k \<le> 0")
    case True
    with intr assms(1) show ?thesis unfolding def by (auto simp only: split: if_split)
  next
    case False
    then have "ps_active ?x" "0 < traffic_ready ?x k" by linarith+
    from norm [OF this] False show ?thesis unfolding def by (auto simp only: ok_log split: if_split)
  qed
qed

end
