(* ===== verification/Txq_Cfm.thy ===== *)
theory Txq_Cfm
  imports Txq_Ps
begin

text \<open>Credit updates, retries and confirmations keep the invariant.\<close>

section \<open>Credits and confirmations\<close>

lemma ok_upd:
  assumes "txq_ok X s" and "i < 297" and "rwnx_txq_is_scheduled (f (txqs s ! i)) = rwnx_txq_is_scheduled (txqs s ! i)" "tq_hwq (f (txqs s ! i)) = tq_hwq (txqs s ! i)"
    "tq_idx (f (txqs s ! i)) = tq_idx (txqs s ! i)" and "qbase s i (f (txqs s ! i))" and "i \<notin> X \<Longrightarrow> qps s i (f (txqs s ! i))"
  shows "txq_ok X (upd_txq i f s)"
proof -
  note o = okD [OF assms(1)]
  have b: "base_but i (upd_txq i f s)" by (rule but_upd [where f = f, OF invxD(6) [OF o(1) assms(2)] assms(3,4)])
  have "txq_invx X (upd_txq i f s)" by (rule inv_single [OF o(1) b]) (use assms(2,6,7) o(3) in auto)
  moreover have "sched_active (upd_txq i f s)" using o(2,3) assms(2,3,5) by (auto simp: sched_active_def)
  ultimately show ?thesis by (simp add: txq_ok_def)
qed

lemma credit_keeps:
  assumes "txq_ok X s" and "st < length (stas s)"
  shows "txq_ok X (rwnx_txq_credit_update st tid s)"
proof -
  have "stop_reason RWNX_TXQ_STOP_FULL" "RWNX_TXQ_STOP_FULL \<noteq> RWNX_TXQ_STOP_STA_PS"
    by (simp add: stop_reason_def) (simp add: txq_flag_defs)
  then show ?thesis
    using sta_get_lt(1) [OF okD(5) [OF assms(1)] assms(2), of tid] assms(1)
    by (simp add: rwnx_txq_credit_update_def Let_def start_keeps stop_keeps)
qed

lemma qbase_eq:
  assumes "tq_hwq p = tq_hwq q" "tq_sk_list p = tq_sk_list q" "tq_sta p = tq_sta q" "tq_ps_id p = tq_ps_id q" "tq_idx p = tq_idx q"
    "tq_status p = tq_status q" "tq_push_limit p = tq_push_limit q" "tq_last_retry p = tq_last_retry q" "tq_nb_retry p = tq_nb_retry q"
  shows "qbase s i q \<Longrightarrow> (txq_active q \<Longrightarrow> 0 < sint (tq_credits p)) \<Longrightarrow> qbase s i p" "qps s i p = qps s i q"
    "rwnx_txq_is_scheduled p = rwnx_txq_is_scheduled q"
proof -
  have f: "rwnx_txq_is_scheduled p = rwnx_txq_is_scheduled q" "rwnx_txq_is_stopped p = rwnx_txq_is_stopped q" "ps_stopped p = ps_stopped q" "retry_ok p = retry_ok q"
    using assms by (simp_all add: rwnx_txq_is_scheduled_def rwnx_txq_is_stopped_def ps_stopped_def retry_ok_def)
  show "qbase s i q \<Longrightarrow> (txq_active q \<Longrightarrow> 0 < sint (tq_credits p)) \<Longrightarrow> qbase s i p" unfolding qbase_def f assms by blast
  show "qps s i p = qps s i q" unfolding qps_def f assms by simp
  show "rwnx_txq_is_scheduled p = rwnx_txq_is_scheduled q" by (rule f)
qed

text \<open>An update of a queue's counters.\<close>

lemma ok_counts:
  assumes "txq_ok {} s" and "i < 297"
    and "\<And>q. tq_hwq (f q) = tq_hwq q \<and> tq_sk_list (f q) = tq_sk_list q \<and> tq_sta (f q) = tq_sta q \<and> tq_ps_id (f q) = tq_ps_id q \<and> tq_idx (f q) = tq_idx q
      \<and> tq_status (f q) = tq_status q \<and> tq_push_limit (f q) = tq_push_limit q \<and> tq_last_retry (f q) = tq_last_retry q \<and> tq_nb_retry (f q) = tq_nb_retry q"
    and "txq_active (txqs s ! i) \<Longrightarrow> 0 < sint (tq_credits (f (txqs s ! i)))"
  shows "txq_ok {} (upd_txq i f s)"
proof -
  note o = okD [OF assms(1)]
  have g: "tq_hwq (f q) = tq_hwq q" "tq_sk_list (f q) = tq_sk_list q" "tq_sta (f q) = tq_sta q" "tq_ps_id (f q) = tq_ps_id q" "tq_idx (f q) = tq_idx q"
    "tq_status (f q) = tq_status q" "tq_push_limit (f q) = tq_push_limit q" "tq_last_retry (f q) = tq_last_retry q" "tq_nb_retry (f q) = tq_nb_retry q" for q
    using assms(3) by blast+
  show ?thesis
  proof (rule ok_upd [where f = f, OF assms(1,2)])
    show "rwnx_txq_is_scheduled (f (txqs s ! i)) = rwnx_txq_is_scheduled (txqs s ! i)" by (rule qbase_eq(3) [OF g])
    show "qbase s i (f (txqs s ! i))" by (rule qbase_eq(1) [OF g invxD(4) [OF o(1) assms(2)] assms(4)])
    show "qps s i (f (txqs s ! i))" unfolding qbase_eq(2) [OF g] by (rule invxD(5) [OF o(1) assms(2)]) simp
  qed (rule g)+
qed

lemma confirm_keeps:
  assumes "txq_ok {} s" and "f_txq f < 297"
  shows "txq_ok {} (rwnx_txq_confirm_any f s)"
proof -
  note o = okD [OF assms(1)]
  let ?g = "\<lambda>q. q\<lparr>tq_pkt_pushed := if tq_pkt_pushed q = 0 then 0 else tq_pkt_pushed q - 1\<rparr>"
  have u: "txq_ok {} (upd_txq (f_txq f) ?g s)"
    by (rule ok_counts [OF assms]) (use invxD(4) [OF o(1) assms(2)] in \<open>simp_all add: qbase_def\<close>)
  have "map hq_list (hwqs (upd_hwq h (\<lambda>h. h\<lparr>hq_need := True\<rparr>) t)) = map hq_list (hwqs t)" for h t
    by (rule nth_equalityI) auto
  then show ?thesis
    unfolding rwnx_txq_confirm_any_def
    by (subst inv_cong(2) [where s = "upd_txq (f_txq f) ?g s"]) (simp_all add: u)
qed

lemma confirm_sel:
  "tq_idx (txqs (rwnx_txq_confirm_any f s) ! j) = tq_idx (txqs s ! j)" "tq_credits (txqs (rwnx_txq_confirm_any f s) ! j) = tq_credits (txqs s ! j)"
  "tq_sk_list (txqs (rwnx_txq_confirm_any f s) ! j) = tq_sk_list (txqs s ! j)" "old_ic (rwnx_txq_confirm_any f s) = old_ic s"
  "tq_status (txqs (rwnx_txq_confirm_any f s) ! j) = tq_status (txqs s ! j)" "tq_push_limit (txqs (rwnx_txq_confirm_any f s) ! j) = tq_push_limit (txqs s ! j)"
  by (simp_all add: rwnx_txq_confirm_any_def)

lemma sint_inc: "0 < sint (c :: u8) \<Longrightarrow> sint c < 127 \<Longrightarrow> sint (c + 1) = sint c + 1"
proof -
  assume a: "0 < sint c" "sint c < 127"
  then obtain n where n: "sint c = int n" "n < 127" by (metis less_imp_le nonneg_int_cases of_nat_less_numeral_iff)
  have "c = of_int (sint c)" by simp
  also have "\<dots> = word_of_nat n" using n(1) by simp
  finally have "c = word_of_nat n" .
  then have "c + 1 = word_of_nat (n + 1)" by simp
  moreover have "sint (word_of_nat m :: u8) = int m" if "m \<le> 127" for m
    using that by (simp add: signed_of_nat signed_take_bit_int_eq_self)
  ultimately have "sint (c + 1) = int (n + 1)" using n(2) by (simp only: Suc_eq_plus1 [symmetric] Suc_le_eq)
  then show "sint (c + 1) = sint c + 1" unfolding n(1) by simp
qed

lemma retry_keeps:
  assumes "txq_ok {} s" and "f_txq f < 297" "f_sta f = owner s (f_txq f)" and "txq_active (txqs s ! f_txq f)"
    and "sint (tq_credits (txqs s ! f_txq f)) < 127" "f_id f \<notin> f_id ` set (tq_sk_list (txqs s ! f_txq f))"
  shows "\<exists>t. rwnx_tx_retry f sw s = Some t \<and> txq_ok {} t"
proof -
  let ?i = "f_txq f"
  note o = okD [OF assms(1)]
  define s1 where "s1 = upd_txq ?i (\<lambda>q. q\<lparr>tq_credits := tq_credits q + 1\<rparr>) s"
  define s2 where "s2 = rwnx_txq_start ?i RWNX_TXQ_STOP_FULL s1"
  define g where "g = f\<lparr>f_flags := flag_clear (if sw then f_flags f else flag_add (f_flags f) TXU_CNTRL_RETRY) TXU_CNTRL_MORE_DATA\<rparr>"
  have qb: "qbase s ?i (txqs s ! ?i)" using invxD(4) [OF o(1) assms(2)] .
  then have inc: "sint (tq_credits (txqs s ! ?i) + 1) = sint (tq_credits (txqs s ! ?i)) + 1"
    using assms(4,5) by (intro sint_inc) (simp_all add: qbase_def)
  have 1: "txq_ok {} s1" unfolding s1_def
    by (rule ok_counts [OF assms(1,2)]) (use qb inc in \<open>simp_all add: qbase_def\<close>)
  have 2: "txq_ok {} s2" unfolding s2_def
    by (rule start_keeps [OF 1 assms(2)]) (simp_all add: stop_reason_def txq_flag_defs)
  have i: "?i < length (txqs s)" using assms(2) o(3) by simp
  then have q1: "txqs s1 ! ?i = (txqs s ! ?i)\<lparr>tq_credits := tq_credits (txqs s ! ?i) + 1\<rparr>" by (simp add: s1_def)
  have q2: "tq_idx (txqs s2 ! ?i) = tq_idx (txqs s ! ?i)" "tq_sk_list (txqs s2 ! ?i) = tq_sk_list (txqs s ! ?i)"
    using i by (simp_all add: s2_def s1_def start_effect start_q_def Let_def)
  have own: "owner s2 ?i = owner s ?i" by (rule layout_cong(3)) (simp add: s2_def s1_def)
  have "0 < sint (tq_credits (txqs s1 ! ?i))" using inc qb assms(4) by (simp add: q1 qbase_def)
  then have eq: "rwnx_tx_retry f sw s = map_option snd (rwnx_txq_queue_skb g ?i True s2)"
    by (simp only: rwnx_tx_retry_def Let_def s1_def [symmetric] s2_def [symmetric] g_def [symmetric] if_True)
  have g: "f_txq g = ?i" "f_sta g = owner s2 ?i" "f_id g = f_id f" using assms(3) own by (simp_all add: g_def)
  obtain a t where t: "rwnx_txq_queue_skb g ?i True s2 = Some (a, t)" "txq_invx {} t" "tq_idx (txqs t ! ?i) = tq_idx (txqs s2 ! ?i)"
    using queue_skb_inv [OF okD(1) [OF 2] assms(2) g(1,2), of True] assms(4,6) g(3) q2 by auto
  have i2: "?i < length (txqs s2)" using okD(3) [OF 2] assms(2) by simp
  have "txq_active (txqs t ! j)" if "j < 297" "rwnx_txq_is_scheduled (txqs t ! j)" for j
    using queue_skb_effect(1) [OF t(1) i2, of j] okD(6) [OF 2 that(1)] that(2) t(3) q2(1) assms(4) by (cases "j = ?i") auto
  with t(2) have "txq_ok {} t" by (simp add: txq_ok_def sched_active_def)
  with t(1) eq show ?thesis by simp
qed

text \<open>A frame that is retried is not linked in its queue, and its credits fit.\<close>

definition cfm_safe :: "tx_frame \<Rightarrow> u32 \<Rightarrow> tx_hw \<Rightarrow> bool" where
  "cfm_safe f v s \<longleftrightarrow> retry_required v \<or> sw_retry_required v \<longrightarrow>
     sint (tq_credits (txqs s ! f_txq f)) < 127 \<and> f_id f \<notin> f_id ` set (tq_sk_list (txqs s ! f_txq f))"

lemma add_list_keeps:
  assumes "txq_ok {} s" and "i < 297" and "txq_active (txqs s ! i)" and "tq_sk_list (txqs s ! i) \<noteq> []"
  shows "txq_ok {} (rwnx_txq_add_to_hw_list i s)"
proof -
  note o = okD [OF assms(1)]
  let ?t = "rwnx_txq_add_to_hw_list i s"
  have q: "txqs ?t ! j = (if j = i then scheduled_q (txqs s ! i) else txqs s ! j)" for j using assms(2) o(3) by (simp add: add_nth)
  have "txq_invx {} ?t"
  proof (rule inv_single [OF o(1) but_add [OF invxD(6) [OF o(1) assms(2)]]])
    show "qbase s i (txqs ?t ! i)" using invxD(4) [OF o(1) assms(2)] assms(4) by (simp add: q qbase_def)
    show "qps s i (txqs ?t ! i)" using invxD(5) [OF o(1) assms(2)] by (auto simp: q qps_def)
  qed (simp_all add: q)
  moreover have "sched_active ?t" using o(2) assms(3) by (simp add: sched_active_def q)
  ultimately show ?thesis by (simp add: txq_ok_def)
qed

lemma txdatacfm_keeps:
  assumes "txq_ok {} s" and "f_txq f < 297" "f_sta f = owner s (f_txq f)" and "cfm_safe f v s"
  shows "\<exists>r t. rwnx_txdatacfm f v s = Some (r, t) \<and> txq_ok {} t \<and> (r \<noteq> 0 \<longrightarrow> t = s)"
proof (cases "v = 0 \<or> usb_is_down s")
  case True
  with assms(1) show ?thesis by (auto simp: rwnx_txdatacfm_def)
next
  case False
  define s1 where "s1 = rwnx_txq_confirm_any f s"
  let ?i = "f_txq f" and ?m = "flag_set (f_flags f) TXU_CNTRL_MGMT"
  have 1: "txq_ok {} s1" unfolding s1_def by (rule confirm_keeps [OF assms(1,2)])
  note c = confirm_sel [of f s, folded s1_def]
  show ?thesis
  proof (cases "\<not> ?m \<and> txq_active (txqs s1 ! ?i) \<and> (retry_required v \<or> sw_retry_required v)")
    case True
    then have "\<exists>t. rwnx_tx_retry f (sw_retry_required v) s1 = Some t \<and> txq_ok {} t"
      using assms c layout_cong(3) [OF c(4)] by (intro retry_keeps [OF 1]) (auto simp: cfm_safe_def)
    with True False show ?thesis by (auto simp: rwnx_txdatacfm_def Let_def simp flip: s1_def)
  next
    case retry: False
    define s2 where "s2 = (if ?m then hw_log [MgmtStatus (f_id f) (acknowledged v)] s1 else s1)"
    define s3 where "s3 = (if txq_active (txqs s1 ! ?i) \<and> tq_push_limit (txqs s2 ! ?i) \<noteq> 0 \<and> \<not> rwnx_txq_is_full (txqs s2 ! ?i)
      then rwnx_txq_add_to_hw_list ?i s2 else s2)"
    have 2: "txq_ok {} s2" "txqs s2 = txqs s1" using 1 by (simp_all add: s2_def)
    have "txq_ok {} s3"
    proof -
      have "tq_sk_list (txqs s2 ! ?i) \<noteq> []" if "txq_active (txqs s1 ! ?i)" "tq_push_limit (txqs s2 ! ?i) \<noteq> 0"
        using invxD(4) [OF okD(1) [OF 2(1)] assms(2)] that 2(2) by (auto simp: qbase_def unat_eq_0)
      then show ?thesis using add_list_keeps [OF 2(1) assms(2)] 2 by (simp add: s3_def)
    qed
    moreover have "rwnx_txdatacfm f v s = Some (0, hw_log [FreeFrame (f_id f)] s3)"
      using False retry unfolding rwnx_txdatacfm_def Let_def s1_def [symmetric] s2_def [symmetric] s3_def [symmetric] by auto
    ultimately show ?thesis by simp
  qed
qed

lemma cfm_keeps:
  assumes "txq_ok {} s" and "\<And>f. tx_host_id s ! (unat idx mod USB_TXDESC_CNT) = Some f \<Longrightarrow> cfm_safe f v s"
  shows "\<exists>t. aicwf_usb_host_tx_cfm_handler v idx s = Some t \<and> txq_ok {} t"
proof -
  let ?k = "unat idx mod USB_TXDESC_CNT"
  have tab: "table_ok s" using baseD(5) [OF invxD(1) [OF okD(1) [OF assms(1)]]] .
  then have k: "?k < length (tx_host_id s)" by (simp add: table_ok_def USB_TXDESC_CNT_def)
  show ?thesis
  proof (cases "tx_host_id s ! ?k")
    case None
    have "txq_ok {} (s\<lparr>txdesc_used_idx := idx\<rparr>)" using assms(1) by (subst inv_cong(2) [of _ s]) simp_all
    with None show ?thesis by (simp add: aicwf_usb_host_tx_cfm_handler_def Let_def)
  next
    case (Some f)
    define s' where "s' = s\<lparr>tx_host_id := (tx_host_id s)[?k := None]\<rparr>"
    have f: "f_txq f < 297" "f_sta f = owner s (f_txq f)" using tab Some k nth_mem [OF k] by (auto simp: table_ok_def)
    have sel: "txqs s' = txqs s" "hwqs s' = hwqs s" "old_ic s' = old_ic s" "stas s' = stas s" by (simp_all add: s'_def)
    have "table_ok s'"
    proof -
      have "Some g \<in> set (tx_host_id s)" if "Some g \<in> set (tx_host_id s')" for g
        using that set_update_subset_insert [of "tx_host_id s" ?k None] by (auto simp: s'_def)
      moreover have "length (tx_host_id s') = length (tx_host_id s)" by (simp add: s'_def)
      ultimately show ?thesis using tab unfolding table_ok_def layout_cong(3) [OF sel(3)] by auto
    qed
    moreover have "sched_ok s'" "txq_static s'"
      using parts_cong [OF sel(1) _ sel(3)] sel baseD(3,4) [OF invxD(1) [OF okD(1) [OF assms(1)]]] by simp_all
    ultimately have "txq_base s'"
      using baseD(6) [OF invxD(1) [OF okD(1) [OF assms(1)]]] by (simp add: txq_base_def qbase_cong [OF sel(3)] sel(1))
    then have "txq_ok {} s'"
      using assms(1) sel(1) by (simp add: txq_ok_def txq_invx_def ps_ok_def sched_active_def qps_cong [OF sel(3,4)] sta_ok_cong [OF sel(3,4)])
    moreover have "cfm_safe f v s'" using assms(2) [OF Some] by (simp add: cfm_safe_def s'_def)
    moreover have "f_sta f = owner s' (f_txq f)" using f(2) layout_cong(3) [of s' s] by (simp add: s'_def)
    ultimately obtain r t where t: "rwnx_txdatacfm f v s' = Some (r, t)" "txq_ok {} t" "r \<noteq> 0 \<longrightarrow> t = s'"
      using txdatacfm_keeps f(1) by blast
    have "txq_ok {} (t\<lparr>txdesc_used_idx := idx, tx_host_id := (tx_host_id t)[?k := Some f]\<rparr>)" if "r \<noteq> 0"
      using t(3) that assms(1) Some k by (subst inv_cong(2) [of _ s]) (simp_all add: s'_def flip: Some)
    with t Some show ?thesis by (simp add: aicwf_usb_host_tx_cfm_handler_def Let_def flip: s'_def)
  qed
qed

end
