(* ===== verification/Txq_Steps.thy ===== *)
theory Txq_Steps
  imports Txq_Cfm
begin

text \<open>The step relation of all operations and that every reachable state satisfies the invariant (an interpretation of \<open>step_system\<close>).  The guards of a step are what the code leaves to its environment.\<close>

section \<open>The runs\<close>

definition zero_txq :: rwnx_txq where
  "zero_txq = \<lparr>tq_idx = 0, tq_status = 0, tq_credits = 0, tq_pkt_sent = 0, tq_pkt_pushed = 0, tq_sk_list = [], tq_last_retry = None, tq_nb_retry = 0,
     tq_hwq = 0, tq_push_limit = 0, tq_tid = 0, tq_sta = None, tq_ps_id = 0, tq_ndev_idx = 0, tq_ndev = 0\<rparr>"

text \<open>\<^verbatim>\<open>rwnx_cfg80211_init\<close>: the hardware queues are initialised and every queue is marked as unused; the allocation is zeroed.\<close>

definition txq_boot :: "bool \<Rightarrow> rwnx_sta list \<Rightarrow> tx_hw" where
  "txq_boot old xs = rwnx_hwq_init \<lparr>txqs = replicate 297 (zero_txq\<lparr>tq_idx := TXQ_INACTIVE\<rparr>), hwqs = replicate 4 \<lparr>hq_list = [], hq_size = 0, hq_need = False\<rparr>,
     stas = xs, old_ic = old, flow_tbusy = False, usb_is_down = False, tx_host_id = replicate USB_TXDESC_CNT None, txdesc_free_idx = 0,
     txdesc_used_idx = 0, hw_events = []\<rparr>"

text \<open>The station table has an entry per remote station and one per interface for its broadcast frames; nobody sleeps.\<close>

definition txq_start :: "tx_hw \<Rightarrow> bool" where
  "txq_start s \<longleftrightarrow> (\<exists>old xs. s = txq_boot old xs \<and> length xs = remote_sta_max s + NX_VIRT_DEV_MAX \<and> (\<forall>x \<in> set xs. \<not> ps_active x)
     \<and> (\<forall>v < NX_VIRT_DEV_MAX. s_vif_idx (xs ! (remote_sta_max s + v)) = v))"

definition sta_fields :: "nat \<Rightarrow> u16 \<Rightarrow> bool \<Rightarrow> nat \<Rightarrow> tx_hw \<Rightarrow> tx_hw" where
  "sta_fields v u td st = upd_sta st (\<lambda>x. x\<lparr>s_vif_idx := v, s_uapsd_tids := u, s_tdls_active := td\<rparr>)"

definition sta_awake :: "nat \<Rightarrow> tx_hw \<Rightarrow> tx_hw" where
  "sta_awake st = upd_sta st (\<lambda>x. x\<lparr>ps_active := False\<rparr>)"

definition pause_reason :: "u8 \<Rightarrow> bool" where
  "pause_reason r \<longleftrightarrow> r \<in> {RWNX_TXQ_STOP_CSA, RWNX_TXQ_STOP_VIF_PS, RWNX_TXQ_STOP_CHAN}"

text \<open>
  One operation under the transmit lock: a frame is sent (\<open>xmit\<close>), the tasklet runs, an interface is stopped or started, the firmware
  confirms, updates credits, reports or serves a sleeping station, stations and interfaces come and go, the bus changes.
\<close>

inductive txq_step :: "tx_hw \<Rightarrow> tx_hw \<Rightarrow> bool" where
  xmit: "\<lbrakk>f_txq f < 297; f_sta f = owner s (f_txq f); xmit_queue f (f_txq f) s = Some t\<rbrakk> \<Longrightarrow> txq_step s t"
| tasklet: "rwnx_hwq_process_all s = Some t \<Longrightarrow> txq_step s t"
| vif_start: "\<lbrakk>vif_valid s v; pause_reason r; rwnx_txq_vif_start v r s = Some t\<rbrakk> \<Longrightarrow> txq_step s t"
| vif_stop: "\<lbrakk>vif_valid s v; pause_reason r; rwnx_txq_vif_stop v r s = Some t\<rbrakk> \<Longrightarrow> txq_step s t"
| tdls_start: "\<lbrakk>vif_valid s v; pause_reason r\<rbrakk> \<Longrightarrow> txq_step s (rwnx_txq_tdls_sta_start v r s)"
| tdls_stop: "\<lbrakk>vif_valid s v; pause_reason r\<rbrakk> \<Longrightarrow> txq_step s (rwnx_txq_tdls_sta_stop v r s)"
| credits: "st < length (stas s) \<Longrightarrow> txq_step s (rwnx_txq_credit_update st tid s)"
| confirm: "\<lbrakk>\<And>f. tx_host_id s ! (unat idx mod USB_TXDESC_CNT) = Some f \<Longrightarrow> cfm_safe f v s; aicwf_usb_host_tx_cfm_handler v idx s = Some t\<rbrakk>
    \<Longrightarrow> txq_step s t"
| power_save: "st < length (stas s) \<Longrightarrow> txq_step s (rwnx_ps_bh_enable st b s)"
| traffic: "\<lbrakk>st < length (stas s); ps_served s st; k \<in> {LEGACY_PS_ID, UAPSD_ID}\<rbrakk> \<Longrightarrow> txq_step s (rwnx_ps_bh_traffic_req st r k s)"
| sta_sleeps_early: "\<lbrakk>st < remote_sta_max s; sta_inactive s st\<rbrakk> \<Longrightarrow> txq_step s (upd_sta st (\<lambda>x. x\<lparr>ps_active := b\<rparr>) s)"
| sta_add: "\<lbrakk>st < remote_sta_max s; sta_inactive s st; init_status stat; s1 = rwnx_txq_sta_init st stat (sta_fields v u td st s)\<rbrakk>
    \<Longrightarrow> txq_step s (rwnx_ps_bh_enable st (ps_active (stas s ! st) \<or> pm) s1)"
| sta_join: "\<lbrakk>st < remote_sta_max s; sta_inactive s st; init_status stat\<rbrakk>
    \<Longrightarrow> txq_step s (rwnx_txq_sta_init st stat (sta_awake st (sta_fields v u td st s)))"
| sta_leave: "st < length (stas s) \<Longrightarrow> txq_step s (rwnx_txq_sta_deinit st (sta_awake st s))"
| ap_start: "\<lbrakk>v < NX_VIRT_DEV_MAX; \<not> txq_active (txqs s ! rwnx_txq_vif_get s v 0); \<not> txq_active (txqs s ! rwnx_txq_vif_get s v 1); init_status stat\<rbrakk>
    \<Longrightarrow> txq_step s (rwnx_txq_vif_init v (remote_sta_max s + v) stat (sta_awake (remote_sta_max s + v) s))"
| ap_stop: "v < NX_VIRT_DEV_MAX \<Longrightarrow> txq_step s (rwnx_txq_vif_deinit v s)"
| unk_init: "\<lbrakk>v < NX_VIRT_DEV_MAX; \<not> txq_active (txqs s ! rwnx_txq_vif_get s v 1)\<rbrakk> \<Longrightarrow> txq_step s (rwnx_txq_unk_vif_init v s)"
| unk_deinit: "v < NX_VIRT_DEV_MAX \<Longrightarrow> txq_step s (rwnx_txq_unk_vif_deinit v s)"
| tdls_vif_init: "\<lbrakk>v < NX_VIRT_DEV_MAX; \<not> txq_active (txqs s ! rwnx_txq_vif_get s v 1)\<rbrakk> \<Longrightarrow> txq_step s (rwnx_txq_tdls_vif_init b v s)"
| tdls_vif_deinit: "v < NX_VIRT_DEV_MAX \<Longrightarrow> txq_step s (rwnx_txq_tdls_vif_deinit b v s)"
| sta_switch: "st < remote_sta_max s \<Longrightarrow> txq_step s (rwnx_txq_sta_switch_vif st v s)"
| offchan_init: "\<not> txq_active (txqs s ! off_chan_txq_idx s) \<Longrightarrow> txq_step s (rwnx_txq_offchan_init v s)"
| offchan_start: "txq_step s (rwnx_txq_offchan_start s)"
| offchan_deinit: "txq_step s (rwnx_txq_offchan_deinit s)"
| bus: "txq_step s (s\<lparr>flow_tbusy := b, usb_is_down := d\<rparr>)"

lemma boot_ok:
  assumes "txq_start s"
  shows "txq_ok {} s"
proof -
  obtain old xs where s: "s = txq_boot old xs" "length xs = remote_sta_max s + NX_VIRT_DEV_MAX" "\<forall>x \<in> set xs. \<not> ps_active x"
    "\<forall>v < NX_VIRT_DEV_MAX. s_vif_idx (xs ! (remote_sta_max s + v)) = v"
    using assms by (auto simp: txq_start_def)
  let ?q = "zero_txq\<lparr>tq_idx := TXQ_INACTIVE\<rparr>"
  have sel: "txqs s = replicate 297 ?q" "stas s = xs" "tx_host_id s = replicate USB_TXDESC_CNT None" "length (hwqs s) = 4"
    "\<And>h. h < 4 \<Longrightarrow> hq_list (hwqs s ! h) = []"
    by (simp_all add: s(1) txq_boot_def rwnx_hwq_init_def nx_txdesc_cnt_def)
  have q: "\<not> rwnx_txq_is_scheduled ?q" "\<not> txq_active ?q" by (simp_all add: zero_txq_def rwnx_txq_is_scheduled_def)
  have "txq_static s" using s(2,4) sel by (simp add: txq_static_def)
  moreover have "sched_ok s" using sel q by (auto simp: sched_ok_def)
  moreover have "table_ok s" using sel(3) by (simp add: table_ok_def)
  moreover have "qbase s i ?q" for i by (simp add: qbase_def zero_txq_def LEGACY_PS_ID_def)
  moreover have "sta_ok s" using s(3) sel(2) by (auto simp: sta_ok_def)
  ultimately show ?thesis
    using q sel by (simp add: txq_ok_def txq_invx_def txq_base_def ps_ok_def qps_def sched_active_def)
qed

lemma pause_reasonD: "pause_reason r \<Longrightarrow> stop_reason r \<and> r \<noteq> RWNX_TXQ_STOP_STA_PS"
  by (auto simp: pause_reason_def stop_reason_def txq_flag_defs)

lemma tdls_keeps:
  assumes "txq_ok X s" and "vif_valid s v" and "pause_reason r"
  shows "txq_ok X (rwnx_txq_tdls_sta_start v r s)" "txq_ok X (rwnx_txq_tdls_sta_stop v r s)"
  using assms pause_reasonD
  by (auto simp: rwnx_txq_tdls_sta_start_def rwnx_txq_tdls_sta_stop_def vif_valid_def sta_start_keeps sta_stop_keeps split: option.split)

lemma ndev_sel:
  "rwnx_txq_is_scheduled (q\<lparr>tq_ndev := v\<rparr>) = rwnx_txq_is_scheduled q" "qbase s i (q\<lparr>tq_ndev := v\<rparr>) = qbase s i q"
  "qps s i (q\<lparr>tq_ndev := v\<rparr>) = qps s i q"
proof -
  have "retry_ok (q\<lparr>tq_ndev := v\<rparr>) = retry_ok q" "rwnx_txq_is_stopped (q\<lparr>tq_ndev := v\<rparr>) = rwnx_txq_is_stopped q"
    "ps_stopped (q\<lparr>tq_ndev := v\<rparr>) = ps_stopped q"
    by (simp_all add: retry_ok_def rwnx_txq_is_stopped_def ps_stopped_def)
  moreover show s: "rwnx_txq_is_scheduled (q\<lparr>tq_ndev := v\<rparr>) = rwnx_txq_is_scheduled q" by (simp add: rwnx_txq_is_scheduled_def)
  ultimately show "qbase s i (q\<lparr>tq_ndev := v\<rparr>) = qbase s i q" "qps s i (q\<lparr>tq_ndev := v\<rparr>) = qps s i q"
    by (simp_all add: qbase_def qps_def)
qed

lemma switch_keeps:
  assumes "txq_ok {} s" and "st < remote_sta_max s"
  shows "txq_ok {} (rwnx_txq_sta_switch_vif st v s)"
proof -
  have one: "txq_ok {} (switch_queue v i t)" if "txq_ok {} t" "i < 297" for i t
  proof -
    have q: "qbase t i (txqs t ! i)" "qps t i (txqs t ! i)" using invxD(4,5) [OF okD(1) [OF that(1)] that(2)] by simp_all
    have "txq_ok {} (upd_txq i (\<lambda>q. q\<lparr>tq_ndev := v\<rparr>) t)"
      by (rule ok_upd [OF that]) (simp_all add: q ndev_sel)
    then show ?thesis unfolding switch_queue_def by (subst inv_cong(2)) simp_all
  qed
  have all: "txq_ok {} (fold (switch_queue v) is t)" if "txq_ok {} t" "\<forall>i \<in> set is. i < 297" for "is" t
    using that by (induction "is" arbitrary: t) (simp_all add: one)
  have lt: "rwnx_txq_sta_get s st 0 + i < 297" if "i < 8" for i
    using assms(2) that by (auto simp: rwnx_txq_sta_get_def rwnx_txq_sta_idx_def is_multicast_sta_def txq_nums remote_sta_max_def split: if_splits)
  show ?thesis
    unfolding rwnx_txq_sta_switch_vif_def NX_NB_TID_PER_STA_def by (rule all [OF assms(1)]) (use lt [of 7] in auto)
qed

lemma awake_keeps:
  assumes "txq_ok {} s" and "st < length (stas s)"
  shows "txq_ok {} (sta_awake st s)"
  unfolding sta_awake_def
  by (rule ok_upd_stas [OF assms, where x = "(stas s ! st)\<lparr>ps_active := False\<rparr>"]) (simp_all add: upd_sta_def)

lemma awake_sel [simp]:
  "txqs (sta_awake st s) = txqs s" "old_ic (sta_awake st s) = old_ic s" "length (stas (sta_awake st s)) = length (stas s)"
  "txqs (sta_fields v u td st s) = txqs s" "old_ic (sta_fields v u td st s) = old_ic s" "length (stas (sta_fields v u td st s)) = length (stas s)"
  by (simp_all add: sta_awake_def sta_fields_def)

lemma remote_lt: "txq_ok X s \<Longrightarrow> st < remote_sta_max s \<Longrightarrow> st < length (stas s)"
  using okD(5) [of X s] by (simp add: txq_static_def)

text \<open>The entry of a station whose queues are unused may change as it likes.\<close>

lemma entry_keeps:
  assumes "txq_ok {} s" and "st < remote_sta_max s" and "sta_inactive s st"
  shows "txq_ok {} (upd_sta st f s)" "sta_inactive (upd_sta st f s) st"
proof -
  note o = okD [OF assms(1)]
  have st: "st < length (stas s)" using remote_lt [OF assms(1,2)] .
  have in_st: "\<not> txq_active (txqs s ! i)" if "i < 297" "owner s i = Some st" for i
    using that assms(3) sta_txqs_owner(1) [OF o(5) st] by (auto simp: sta_inactive_def)
  have uni: "\<not> is_multicast_sta s st" using assms(2) by (simp add: is_multicast_sta_def)
  show "txq_ok {} (upd_sta st f s)"
    by (rule ok_upd_stas [OF assms(1) st, where x = "f (stas s ! st)"])
      (use assms(2) uni in_st in \<open>simp_all add: upd_sta_def\<close>)
  have "sta_txqs (upd_sta st f s) st = sta_txqs s st"
    using uni by (simp add: sta_txqs_def rwnx_txq_sta_get_def rwnx_txq_sta_idx_def layout_cong(4) [of "upd_sta st f s" s])
  then show "sta_inactive (upd_sta st f s) st" using assms(3) by (simp add: sta_inactive_def)
qed

lemma remote_cong: "old_ic t = old_ic s \<Longrightarrow> st < remote_sta_max s \<Longrightarrow> st < remote_sta_max t"
  using layout_cong(1) by metis

lemma add_keeps:
  assumes "txq_ok {} s" and "st < remote_sta_max s" and "sta_inactive s st" and "init_status stat"
    and s1: "s1 = rwnx_txq_sta_init st stat (sta_fields v u td st s)"
  shows "txq_ok {} (rwnx_ps_bh_enable st b s1)"
proof -
  let ?s0 = "sta_fields v u td st s"
  note e = entry_keeps [OF assms(1-3), where f = "\<lambda>x. x\<lparr>s_vif_idx := v, s_uapsd_tids := u, s_tdls_active := td\<rparr>", folded sta_fields_def]
  have r: "st < remote_sta_max ?s0" by (rule remote_cong [OF _ assms(2)]) simp
  let ?X = "set (sta_txqs ?s0 st)"
  have i: "txq_ok ?X s1" "stas s1 = stas ?s0" "old_ic s1 = old_ic ?s0"
    using sta_init_keeps [OF ok_mono [OF e(1)] r e(2) assms(4), of ?X] by (simp_all add: s1)
  have "sta_txqs s1 st = sta_txqs ?s0 st" by (rule sta_txqs_cong) (simp_all add: i(2,3))
  then have sub: "?X \<subseteq> set (sta_txqs s1 st)" by simp
  have st: "st < length (stas s1)" using remote_lt [OF assms(1,2)] i(2) by simp
  show ?thesis using enable_keeps [OF i(1) st sub] disable_keeps [OF i(1) st sub] by (cases b) simp_all
qed

lemma join_keeps:
  assumes "txq_ok {} s" and "st < remote_sta_max s" and "sta_inactive s st" and "init_status stat"
  shows "txq_ok {} (rwnx_txq_sta_init st stat (sta_awake st (sta_fields v u td st s)))"
proof -
  let ?s0 = "sta_awake st (sta_fields v u td st s)"
  have eq: "?s0 = upd_sta st (\<lambda>x. x\<lparr>s_vif_idx := v, s_uapsd_tids := u, s_tdls_active := td, ps_active := False\<rparr>) s"
    using remote_lt [OF assms(1,2)] by (simp add: sta_awake_def sta_fields_def upd_sta_def)
  note e = entry_keeps [OF assms(1-3), where f = "\<lambda>x. x\<lparr>s_vif_idx := v, s_uapsd_tids := u, s_tdls_active := td, ps_active := False\<rparr>", folded eq]
  have r: "st < remote_sta_max ?s0" by (rule remote_cong [OF _ assms(2)]) simp
  have "\<not> ps_active (stas ?s0 ! st)" using remote_lt [OF assms(1,2)] by (simp add: sta_awake_def)
  then show ?thesis using sta_init_keeps(1) [OF e(1) r e(2) assms(4)] by blast
qed

lemma ap_start_keeps:
  assumes "txq_ok {} s" and "v < NX_VIRT_DEV_MAX" and "\<not> txq_active (txqs s ! rwnx_txq_vif_get s v 0)" "\<not> txq_active (txqs s ! rwnx_txq_vif_get s v 1)"
    and "init_status stat"
  shows "txq_ok {} (rwnx_txq_vif_init v (remote_sta_max s + v) stat (sta_awake (remote_sta_max s + v) s))"
proof -
  let ?b = "remote_sta_max s + v"
  let ?t = "sta_awake ?b s"
  have st: "?b < length (stas s)" using okD(5) [OF assms(1)] assms(2) by (simp add: txq_static_def)
  have lay: "remote_sta_max ?t = remote_sta_max s" "rwnx_txq_vif_get ?t v j = rwnx_txq_vif_get s v j" for j
    using layout_cong(1,2) [of ?t s] by (simp_all add: rwnx_txq_vif_get_def rwnx_txq_vif_idx_def)
  have "\<not> ps_active (stas ?t ! ?b)" using st by (simp add: sta_awake_def)
  then show ?thesis
    using vif_init_keeps [OF awake_keeps [OF assms(1) st], of v stat] assms(2-5) lay by (simp add: txq_nums)
qed

lemma step_keeps: "txq_step s t \<Longrightarrow> txq_ok {} s \<Longrightarrow> txq_ok {} t"
proof (induction rule: txq_step.induct)
  case (xmit f s t)
  then show ?case using xmit_keeps [of s "f_txq f" f] by auto
next
  case (tasklet s t)
  then show ?case using process_all_keeps [of s] by auto
next
  case (confirm s idx v t)
  then show ?case using cfm_keeps [of s idx v] by auto
next
  case (power_save st s b)
  then show ?case using enable_keeps [of "{}" s st] disable_keeps [of "{}" s st] by (cases b) auto
next
  case (sta_leave st s)
  then show ?case by (intro sta_deinit_keeps awake_keeps) simp_all
next
  case (offchan_start s)
  then show ?case unfolding rwnx_txq_offchan_start_def
    by (intro start_keeps vif_get_lt(2)) (simp_all add: stop_reason_def txq_flag_defs)
next
  case (offchan_deinit s)
  then show ?case using vif_deinit_keeps(3) [of "{}" s 0] by simp
next
  case (tdls_start s v r)
  then show ?case by (intro tdls_keeps)
next
  case (tdls_stop s v r)
  then show ?case by (intro tdls_keeps)
next
  case (bus s b d)
  then show ?case by (subst inv_cong(2) [of _ s]) simp_all
qed (auto simp: txq_nums rwnx_txq_tdls_vif_init_def rwnx_txq_tdls_vif_deinit_def dest!: pause_reasonD intro: switch_keeps vif_start_keeps vif_stop_keeps credit_keeps traffic_keeps entry_keeps(1) add_keeps join_keeps
    ap_start_keeps vif_deinit_keeps vif_init_keeps_unk offchan_init_keeps)

interpretation queues: step_system txq_start txq_step "txq_ok {}"
  by unfold_locales (use boot_ok step_keeps in blast)+

end
