(* ===== verification/Txq_Example.thy ===== *)
theory Txq_Example
  imports Txq_Steps
begin

text \<open>Facts of reachable states that the properties share, and a run (a station joins, falls asleep, frames pile up) for their instances.\<close>

section \<open>A queue after initialisation\<close>

definition fresh_txq :: "tx_hw \<Rightarrow> nat \<Rightarrow> u8 \<Rightarrow> nat \<Rightarrow> rwnx_txq \<Rightarrow> bool" where
  "fresh_txq s st stat tid q \<longleftrightarrow> tq_idx q = word_of_nat (st * 9 + tid) \<and> tq_status q = stat \<and> tq_credits q = NX_TXQ_INITIAL_CREDITS \<and> tq_sk_list q = []
     \<and> tq_push_limit q = 0 \<and> tq_nb_retry q = 0 \<and> tq_last_retry q = None \<and> tq_hwq q = rwnx_tid2hwq ! tid \<and> tq_sta q = Some st
     \<and> tq_ps_id q = (if bit (s_uapsd_tids (stas s ! st)) tid then UAPSD_ID else LEGACY_PS_ID)"

lemma sta_init_fresh:
  assumes "st < remote_sta_max s" and "length (txqs s) = 297" and "tid < 9"
  shows "fresh_txq s st stat tid (txqs (rwnx_txq_sta_init st stat s) ! (st * 9 + tid))"
    "(\<forall>tid < 9. j \<noteq> st * 9 + tid) \<Longrightarrow> txqs (rwnx_txq_sta_init st stat s) ! j = txqs s ! j"
proof -
  have one: "fresh_txq s st stat tid (txqs (sta_init_one st stat tid t) ! (st * 9 + tid))"
    "j \<noteq> st * 9 + tid \<Longrightarrow> txqs (sta_init_one st stat tid t) ! j = txqs t ! j" "length (txqs (sta_init_one st stat tid t)) = 297"
    "stas (sta_init_one st stat tid t) = stas s" "old_ic (sta_init_one st stat tid t) = old_ic s"
    if a: "tid < 9" "length (txqs t) = 297" "stas t = stas s" "old_ic t = old_ic s" for tid t j
  proof -
    have st: "st < remote_sta_max t" using assms(1) layout_cong(1) [OF a(4)] by simp
    note q = sta_queue [OF st a(1)]
    show "fresh_txq s st stat tid (txqs (sta_init_one st stat tid t) ! (st * 9 + tid))"
      unfolding sta_init_one_def q(1) using q(3) a by (simp add: rwnx_txq_init_def Let_def fresh_txq_def)
    show "j \<noteq> st * 9 + tid \<Longrightarrow> txqs (sta_init_one st stat tid t) ! j = txqs t ! j"
      unfolding sta_init_one_def q(1) by (simp add: init_nth)
    show "length (txqs (sta_init_one st stat tid t)) = 297" "stas (sta_init_one st stat tid t) = stas s" "old_ic (sta_init_one st stat tid t) = old_ic s"
      using a by (simp_all add: sta_init_one_def)
  qed
  have all: "(\<forall>tid \<in> set tids. fresh_txq s st stat tid (txqs (fold (sta_init_one st stat) tids t) ! (st * 9 + tid)))
      \<and> (\<forall>j. (\<forall>tid \<in> set tids. j \<noteq> st * 9 + tid) \<longrightarrow> txqs (fold (sta_init_one st stat) tids t) ! j = txqs t ! j)"
    if "distinct tids" "\<forall>tid \<in> set tids. tid < 9" "length (txqs t) = 297" "stas t = stas s" "old_ic t = old_ic s" for tids t
    using that
  proof (induction tids arbitrary: t)
    case (Cons tid tids)
    let ?t = "sta_init_one st stat tid t"
    note o = one [of tid t, OF _ Cons.prems(3-5)]
    have tid: "tid < 9" using Cons.prems(2) by simp
    have IH: "(\<forall>tid \<in> set tids. fresh_txq s st stat tid (txqs (fold (sta_init_one st stat) tids ?t) ! (st * 9 + tid)))"
      "\<And>j. (\<forall>tid \<in> set tids. j \<noteq> st * 9 + tid) \<Longrightarrow> txqs (fold (sta_init_one st stat) tids ?t) ! j = txqs ?t ! j"
      using Cons.IH [of ?t] Cons.prems(1,2) o(3-5) [OF tid] by auto
    have "txqs (fold (sta_init_one st stat) tids ?t) ! (st * 9 + tid) = txqs ?t ! (st * 9 + tid)"
      using Cons.prems(1) by (intro IH(2)) auto
    with IH o(1,2) [OF tid] show ?case by simp
  qed simp
  have len: "length (sta_txqs s st) = 9" using sta_queue(6) [OF assms(1), of 0] by simp
  from all [of "[0..<9]" s] assms(2,3)
  show "fresh_txq s st stat tid (txqs (rwnx_txq_sta_init st stat s) ! (st * 9 + tid))"
    "(\<forall>tid < 9. j \<noteq> st * 9 + tid) \<Longrightarrow> txqs (rwnx_txq_sta_init st stat s) ! j = txqs s ! j"
    by (simp_all add: rwnx_txq_sta_init_def len del: upt_rec_numeral)
qed

section \<open>Facts of reachable states\<close>

lemma reach_ok: "txq_start s0 \<Longrightarrow> txq_step\<^sup>*\<^sup>* s0 s \<Longrightarrow> txq_ok {} s"
  by (rule queues.inv_reachable)

lemma ok_queue:
  assumes "txq_ok {} s" and "i < 297"
  shows "tq_hwq (txqs s ! i) < 4" "f \<in> set (tq_sk_list (txqs s ! i)) \<Longrightarrow> f_txq f = i \<and> f_sta f = owner s i"
    "txq_active (txqs s ! i) \<Longrightarrow> tq_sta (txqs s ! i) = owner s i \<and> 0 < sint (tq_credits (txqs s ! i)) \<and> 0 \<le> tq_nb_retry (txqs s ! i)
       \<and> tq_nb_retry (txqs s ! i) \<le> int (length (tq_sk_list (txqs s ! i))) \<and> unat (tq_push_limit (txqs s ! i)) \<le> length (tq_sk_list (txqs s ! i))
       \<and> (rwnx_txq_is_scheduled (txqs s ! i) \<longrightarrow> tq_sk_list (txqs s ! i) \<noteq> [])
       \<and> (\<not> rwnx_txq_is_stopped (txqs s ! i) \<and> tq_sk_list (txqs s ! i) \<noteq> [] \<longrightarrow> rwnx_txq_is_scheduled (txqs s ! i))"
proof -
  have q: "qbase s i (txqs s ! i)" using invxD(4) [OF okD(1) [OF assms(1)] assms(2)] .
  show "tq_hwq (txqs s ! i) < 4" "f \<in> set (tq_sk_list (txqs s ! i)) \<Longrightarrow> f_txq f = i \<and> f_sta f = owner s i"
    using q by (auto simp: qbase_def)
  assume "txq_active (txqs s ! i)"
  with q show "tq_sta (txqs s ! i) = owner s i \<and> 0 < sint (tq_credits (txqs s ! i)) \<and> 0 \<le> tq_nb_retry (txqs s ! i)
       \<and> tq_nb_retry (txqs s ! i) \<le> int (length (tq_sk_list (txqs s ! i))) \<and> unat (tq_push_limit (txqs s ! i)) \<le> length (tq_sk_list (txqs s ! i))
       \<and> (rwnx_txq_is_scheduled (txqs s ! i) \<longrightarrow> tq_sk_list (txqs s ! i) \<noteq> [])
       \<and> (\<not> rwnx_txq_is_stopped (txqs s ! i) \<and> tq_sk_list (txqs s ! i) \<noteq> [] \<longrightarrow> rwnx_txq_is_scheduled (txqs s ! i))"
    by (auto simp: qbase_def retry_ok_def)
qed

lemma queue_result:
  assumes "rwnx_txq_queue_skb f i retry s = Some (a, t)" and "i < length (txqs s)"
  shows "\<exists>p. link_frame f retry (txqs s ! i) = Some p
    \<and> txqs t ! i = (if a then scheduled_q (flow_stop_q (ps_count_queued i s) p) else flow_stop_q (ps_count_queued i s) p)"
proof -
  let ?s1 = "ps_count_queued i s"
  have 1: "txqs ?s1 = txqs s" by (auto simp: ps_count_queued_def Let_def rwnx_set_traffic_status_def split: option.splits)
  obtain p where p: "link_frame f retry (txqs s ! i) = Some p" using assms(1) 1 by (auto simp: rwnx_txq_queue_skb_def Let_def split: bind_splits)
  let ?s2 = "flow_stop i (upd_txq i (\<lambda>_. p) ?s1)"
  have 2: "txqs ?s2 ! i = flow_stop_q ?s1 p" "length (txqs ?s2) = length (txqs s)" using assms(2) 1 by (simp_all add: flow_effect flow_stop_q_def)
  have "t = (if a then rwnx_txq_add_to_hw_list i ?s2 else ?s2)" using assms(1) p by (auto simp: rwnx_txq_queue_skb_def Let_def 1 split: if_splits)
  with p 2 assms(2) show ?thesis by (simp add: add_nth)
qed

lemma link_retry_list:
  assumes "retry_ok q" and "link_frame f True q = Some p"
  shows "tq_sk_list p = take (nat (tq_nb_retry q)) (tq_sk_list q) @ f # drop (nat (tq_nb_retry q)) (tq_sk_list q)" "tq_nb_retry p = tq_nb_retry q + 1"
proof -
  let ?n = "tq_nb_retry q" and ?l = "tq_sk_list q"
  show "tq_nb_retry p = ?n + 1" using assms(2) by (auto simp: link_frame_def)
  have n: "0 \<le> ?n" "nat ?n \<le> length ?l" using assms(1) by (auto simp: retry_ok_def)
  show "tq_sk_list p = take (nat ?n) ?l @ f # drop (nat ?n) ?l"
  proof (cases "?n = 0")
    case True
    with assms show ?thesis by (auto simp: link_frame_def retry_ok_def)
  next
    case False
    let ?r = "take (nat ?n) ?l"
    have ne: "?r \<noteq> []" using False n by auto
    have r: "tq_last_retry q = Some (f_id (last ?r))" "f_id (last ?r) \<notin> f_id ` set (butlast ?r)"
      using assms(1) False by (auto simp: retry_ok_def Let_def)
    have l: "?l = butlast ?r @ last ?r # drop (nat ?n) ?l"
      using ne append_take_drop_id [of "nat ?n" ?l] by (metis append.assoc append_Cons append_Nil append_butlast_last_id)
    have "insert_after (f_id (last ?r)) f ?l = Some (butlast ?r @ last ?r # f # drop (nat ?n) ?l)"
      using insert_after_found [OF r(2) refl] l by metis
    with assms(2) r(1) have "tq_sk_list p = butlast ?r @ last ?r # f # drop (nat ?n) ?l" by (auto simp: link_frame_def)
    also have "\<dots> = ?r @ f # drop (nat ?n) ?l" using ne by (metis append.assoc append_Cons append_Nil append_butlast_last_id)
    finally show ?thesis .
  qed
qed

lemma process_single:
  assumes "txq_ok {} s" and "h < 4" and "hq_list (hwqs s ! h) = [i]"
  defines "s1 \<equiv> upd_hwq h (\<lambda>x. x\<lparr>hq_need := False\<rparr>) s"
  shows "rwnx_hwq_process h s = Some (hwq_round h i s1)" "txq_invx {} s1" "hq_list (hwqs s1 ! h) = [i]" "txqs s1 = txqs s" "txq_active (txqs s ! i)"
    "hw_events s1 = hw_events s" "\<not> hq_need (hwqs s1 ! h)" "k \<noteq> h \<Longrightarrow> hwqs s1 ! k = hwqs s ! k" "i < 297"
proof -
  note o = okD [OF assms(1)]
  show inv: "txq_invx {} s1" unfolding s1_def by (rule need_inv [OF o(1)])
  show s1: "hq_list (hwqs s1 ! h) = [i]" "txqs s1 = txqs s" "hw_events s1 = hw_events s" "\<not> hq_need (hwqs s1 ! h)"
    "k \<noteq> h \<Longrightarrow> hwqs s1 ! k = hwqs s ! k"
    using assms(2,3) o(4) by (simp_all add: s1_def)
  show "i < 297" "txq_active (txqs s ! i)" using listed [OF o(1) assms(2), of i] assms(3) o(6) by auto
  then have "\<not> hwq_bug s1 i" using loop_step(7) [OF inv assms(2), of i] s1(1) by simp
  with \<open>txq_active (txqs s ! i)\<close> show "rwnx_hwq_process h s = Some (hwq_round h i s1)"
    by (simp add: rwnx_hwq_process_def first_of_def s1(1,2) hwq_loop.simps(2) Let_def flip: s1_def)
qed

lemma sleeping_xmit:
  assumes "txq_ok {} s" and "i < 297" and "f_txq f = i" "f_sta f = owner s i" and "tq_idx (txqs s ! i) \<noteq> TXQ_INACTIVE"
    and "owner s i = Some st" "ps_active (stas s ! st)"
  defines "k \<equiv> tq_ps_id (txqs s ! i)"
  shows "\<exists>t. xmit_queue f i s = Some t \<and> tq_sk_list (txqs t ! i) = tq_sk_list (txqs s ! i) @ [f]
    \<and> (\<forall>j. pushed_ids j (hw_events t) = pushed_ids j (hw_events s))
    \<and> pkt_ready (stas t ! st) k = pkt_ready (stas s ! st) k + 1 \<and> ps_active (stas t ! st) \<and> txq_ok {} t
    \<and> sp_cnt (stas t ! st) = sp_cnt (stas s ! st) \<and> old_ic t = old_ic s \<and> (\<forall>j. j \<noteq> i \<longrightarrow> txqs t ! j = txqs s ! j)
    \<and> tq_idx (txqs t ! i) = tq_idx (txqs s ! i) \<and> tq_ps_id (txqs t ! i) = tq_ps_id (txqs s ! i) \<and> tq_credits (txqs t ! i) = tq_credits (txqs s ! i)
    \<and> (pkt_ready (stas s ! st) k = 0 \<and> \<not> s_tdls_active (stas s ! st) \<longrightarrow> TrafficInd st (k \<noteq> LEGACY_PS_ID) True \<in> set (hw_events t))"
proof -
  note o = okD [OF assms(1)]
  have i: "i < length (txqs s)" using assms(2) o(3) by simp
  have st: "st < length (stas s)" using owner_lt [OF o(5) assms(6)] .
  have sta: "tq_sta (txqs s ! i) = Some st" using ok_queue(3) [OF assms(1,2,5)] assms(6) by simp
  have "ps_stopped (txqs s ! i)" using invxD(5) [OF o(1) assms(2)] assms(5-7) by (auto simp: qps_def)
  then have stop: "rwnx_txq_is_stopped (txqs s ! i)" by (auto simp: ps_stopped_def rwnx_txq_is_stopped_def RWNX_TXQ_STOP_def flag_simps)
  obtain a t where t: "rwnx_txq_queue_skb f i False s = Some (a, t)" "txq_invx {} t" "a \<longleftrightarrow> \<not> rwnx_txq_is_stopped (txqs s ! i)"
    "tq_idx (txqs t ! i) = tq_idx (txqs s ! i)"
    using queue_skb_inv [OF o(1) assms(2-4), of False] by blast
  have na: "\<not> a" using t(3) stop by simp
  note e = queue_skb_effect [OF t(1) i]
  have x: "xmit_queue f i s = Some t" using t(1) na by (simp add: xmit_queue_def)
  obtain t' where t': "xmit_queue f i s = Some t'" "txq_ok {} t'" using xmit_keeps [OF assms(1-4)] by blast
  have sk: "tq_sk_list (txqs t ! i) = tq_sk_list (txqs s ! i) @ [f]" using e(4) by (simp add: link_frame_def)
  have fld: "tq_ps_id (txqs t ! i) = tq_ps_id (txqs s ! i) \<and> tq_credits (txqs t ! i) = tq_credits (txqs s ! i)"
    using queue_result [OF t(1) i] by (auto dest: link_frame_effect(4,6))
  let ?s1 = "ps_count_queued i s"
  have "old_ic t = old_ic s"
    using t(1) na by (auto simp: rwnx_txq_queue_skb_def Let_def flow_stop_def ps_count_queued_def rwnx_set_traffic_status_def
        split: if_splits option.splits bind_splits)
  moreover have "stas t = stas ?s1 \<and> (\<exists>es. hw_events t = hw_events ?s1 @ es)"
    using t(1) na by (auto simp: rwnx_txq_queue_skb_def Let_def link_frame_def flow_stop_def split: if_splits)
  ultimately have s1: "old_ic t = old_ic s" "stas t = stas ?s1" "set (hw_events ?s1) \<subseteq> set (hw_events t)" by auto
  have "pkt_ready (stas ?s1 ! st) k = pkt_ready (stas s ! st) k + 1" "ps_active (stas ?s1 ! st)"
    "sp_cnt (stas ?s1 ! st) = sp_cnt (stas s ! st)"
    using sta assms(7) st by (simp_all add: ps_count_queued_def Let_def k_def rwnx_set_traffic_status_def)
  moreover have "TrafficInd st (k \<noteq> LEGACY_PS_ID) True \<in> set (hw_events ?s1)" if "pkt_ready (stas s ! st) k = 0" "\<not> s_tdls_active (stas s ! st)"
    using that sta assms(7) st by (simp add: ps_count_queued_def Let_def k_def rwnx_set_traffic_status_def)
  ultimately show ?thesis using x sk e(1,3) s1 t' t(4) fld by auto
qed


section \<open>A run for the instances below: one station has joined\<close>

definition ex_sta :: "nat \<Rightarrow> rwnx_sta" where
  "ex_sta v = \<lparr>s_vif_idx = v, s_uapsd_tids = 0, s_tdls_active = False, ps_active = False, pkt_ready = \<lambda>_. 0, sp_cnt = \<lambda>_. 0\<rparr>"

definition ex_boot :: tx_hw where
  "ex_boot = txq_boot True (map (\<lambda>k. ex_sta (k - 8)) [0..<12])"

definition ex_joined :: tx_hw where
  "ex_joined = rwnx_txq_sta_init 0 0 (sta_awake 0 (sta_fields 0 0 False 0 ex_boot))"

lemma boot_start: "txq_start ex_boot"
proof -
  have r: "remote_sta_max ex_boot = 8" by (simp add: ex_boot_def txq_boot_def rwnx_hwq_init_def remote_sta_max_def)
  show ?thesis
    unfolding txq_start_def r
    by (intro exI [of _ True] exI [of _ "map (\<lambda>k. ex_sta (k - 8)) [0..<12]"])
      (auto simp: ex_boot_def ex_sta_def NX_VIRT_DEV_MAX_def simp del: upt_rec_numeral)
qed

lemma boot_facts:
  "old_ic ex_boot" "length (txqs ex_boot) = 297" "i < 297 \<Longrightarrow> txqs ex_boot ! i = zero_txq\<lparr>tq_idx := TXQ_INACTIVE\<rparr>" "remote_sta_max ex_boot = 8"
  "length (stas ex_boot) = 12" "st < 12 \<Longrightarrow> stas ex_boot ! st = ex_sta (st - 8)"
  by (simp_all add: ex_boot_def txq_boot_def rwnx_hwq_init_def remote_sta_max_def del: upt_rec_numeral)

lemma boot_inactive: "st < 8 \<Longrightarrow> sta_inactive ex_boot st"
  using sta_queue(5) [of st ex_boot 0] by (auto simp: sta_inactive_def boot_facts)

lemma joined_reach: "txq_step\<^sup>*\<^sup>* ex_boot ex_joined"
  unfolding ex_joined_def
  by (rule r_into_rtranclp, rule sta_join) (simp_all add: boot_facts boot_inactive init_status_def)

lemma joined_ok: "txq_ok {} ex_joined"
  using queues.inv_reachable [OF boot_start joined_reach] .

lemma joined_queue:
  assumes "tid < 9"
  shows "fresh_txq ex_boot 0 0 tid (txqs ex_joined ! tid)"
proof -
  let ?s = "sta_awake 0 (sta_fields 0 0 False 0 ex_boot)"
  have r: "0 < remote_sta_max ?s" by (rule remote_cong [of _ ex_boot]) (simp_all add: boot_facts)
  have "fresh_txq ?s 0 0 tid (txqs ex_joined ! tid)"
    using sta_init_fresh(1) [OF r _ assms] by (simp add: ex_joined_def boot_facts)
  moreover have "s_uapsd_tids (stas ?s ! 0) = s_uapsd_tids (stas ex_boot ! 0)" by (simp add: sta_awake_def sta_fields_def boot_facts ex_sta_def)
  ultimately show ?thesis by (simp add: fresh_txq_def)
qed

lemma joined_sel: "old_ic ex_joined" "length (stas ex_joined) = 12" "stas ex_joined ! 0 = ex_sta 0" "length (txqs ex_joined) = 297"
  using okD(3) [OF joined_ok] sta_init_keeps(2,3) [of "{}" "sta_awake 0 (sta_fields 0 0 False 0 ex_boot)" 0 0]
proof -
  let ?s = "sta_awake 0 (sta_fields 0 0 False 0 ex_boot)"
  have r: "0 < remote_sta_max ?s" by (rule remote_cong [of _ ex_boot]) (simp_all add: boot_facts)
  have "stas ex_joined = stas ?s" "old_ic ex_joined = old_ic ?s"
    unfolding ex_joined_def rwnx_txq_sta_init_def by (rule fold_frame, simp add: sta_init_one_def)+
  then show "old_ic ex_joined" "length (stas ex_joined) = 12" "stas ex_joined ! 0 = ex_sta 0"
    by (simp_all add: boot_facts sta_awake_def sta_fields_def ex_sta_def)
  show "length (txqs ex_joined) = 297" using okD(3) [OF joined_ok] .
qed

lemma joined_owner: "tid < 9 \<Longrightarrow> owner ex_joined tid = Some 0"
  using joined_sel(1) by (simp add: owner_def first_vif_txq_idx_def remote_sta_max_def txq_nums)

lemma joined_rest: "9 \<le> i \<Longrightarrow> i < 297 \<Longrightarrow> txqs ex_joined ! i = zero_txq\<lparr>tq_idx := TXQ_INACTIVE\<rparr>"
proof -
  assume i: "9 \<le> i" "i < 297"
  let ?s = "sta_awake 0 (sta_fields 0 0 False 0 ex_boot)"
  have r: "0 < remote_sta_max ?s" by (rule remote_cong [of _ ex_boot]) (simp_all add: boot_facts)
  have "txqs ex_joined ! i = txqs ?s ! i" unfolding ex_joined_def using i by (intro sta_init_fresh(2) [OF r, of 0]) (auto simp: boot_facts)
  with i show ?thesis by (simp add: boot_facts)
qed

lemma joined_empty: "i < 297 \<Longrightarrow> tq_sk_list (txqs ex_joined ! i) = []"
  using joined_queue [of i] joined_rest [of i] by (cases "i < 9") (simp_all add: fresh_txq_def zero_txq_def)


definition ex_frame :: "nat \<Rightarrow> nat \<Rightarrow> tx_frame" where
  "ex_frame k i = \<lparr>f_id = k, f_sta = Some 0, f_txq = i, f_flags = 0, f_ethertype = 0x0008, f_byte0 = 0, f_raw = False, f_rate = None, f_hw_queue = 0,
     f_need_cfm = False, f_status_addr = 0, f_mesh = False\<rparr>"

subsection \<open>The station sleeps\<close>

definition ex_asleep :: tx_hw where
  "ex_asleep = rwnx_ps_bh_enable 0 True ex_joined"

lemma asleep_reach: "txq_step\<^sup>*\<^sup>* ex_boot ex_asleep"
  unfolding ex_asleep_def by (rule rtranclp.rtrancl_into_rtrancl [OF joined_reach], rule power_save) (simp add: joined_sel)

lemma asleep_facts:
  "old_ic ex_asleep" "ps_active (stas ex_asleep ! 0)" "sp_cnt (stas ex_asleep ! 0) k = 0" "pkt_ready (stas ex_asleep ! 0) k = 0"
  "\<not> s_tdls_active (stas ex_asleep ! 0)" "tid < 9 \<Longrightarrow> txqs ex_asleep ! tid = stop_q RWNX_TXQ_STOP_STA_PS (txqs ex_joined ! tid)"
proof -
  let ?a = "\<lambda>x. x\<lparr>ps_active := True, sp_cnt := \<lambda>_. 0\<rparr>" and ?r = RWNX_TXQ_STOP_STA_PS
  let ?u = "rwnx_txq_sta_stop ?r 0 ex_joined"
  have r: "0 < remote_sta_max ex_joined" by (rule remote_cong [of _ ex_boot]) (simp_all add: boot_facts joined_sel)
  have q: "set (sta_txqs ex_joined 0) = {0..<9}" using sta_queue(5) [OF r, of 0] by simp
  have d: "distinct (sta_txqs ex_joined 0)" using sta_txqs_owner(2) [OF okD(5) [OF joined_ok], of 0] joined_sel(2) by simp
  have uni: "\<not> is_multicast_sta ex_joined 0" using r by (simp add: is_multicast_sta_def)
  have tx: "txqs ?u ! i = (if i < 9 then stop_q ?r (txqs ex_joined ! i) else txqs ex_joined ! i)" for i
    unfolding rwnx_txq_sta_stop_def using q d joined_sel(4)
    by (subst fold_nth [where g = "stop_q ?r"]) (auto simp: stop_effect)
  have e: "tq_sk_list (txqs ?u ! i) = []" if "i \<in> set (sta_txqs ex_joined 0)" for i
    using that joined_empty [of i] unfolding q by (auto simp: tx stop_q_def)
  have "map (\<lambda>i. if tq_ps_id (txqs ?u ! i) = k then word_of_nat (length (tq_sk_list (txqs ?u ! i))) else (0 :: u16)) (sta_txqs ex_joined 0)
      = map (\<lambda>_. 0) (sta_txqs ex_joined 0)"
    by (rule map_cong [OF refl]) (simp add: e)
  then have z: "add_lengths (upd_sta 0 ?a ?u) (sta_txqs ex_joined 0) k = 0" by (simp only: add_lengths_def upd_sta_sel(1) sum_list_0)
  have com: "rwnx_txq_sta_stop ?r 0 (upd_sta 0 ?a ex_joined) = upd_sta 0 ?a ?u" by (rule sta_stop_commute) simp
  have t: "ex_asleep = upd_sta 0 (\<lambda>x. x\<lparr>pkt_ready := \<lambda>k. add_lengths (upd_sta 0 ?a ?u) (sta_txqs ex_joined 0) k\<rparr>) (upd_sta 0 ?a ?u)"
    using uni by (simp add: ex_asleep_def rwnx_ps_bh_enable_def Let_def com)
  show "old_ic ex_asleep" "ps_active (stas ex_asleep ! 0)" "sp_cnt (stas ex_asleep ! 0) k = 0" "pkt_ready (stas ex_asleep ! 0) k = 0"
    "\<not> s_tdls_active (stas ex_asleep ! 0)" "tid < 9 \<Longrightarrow> txqs ex_asleep ! tid = stop_q ?r (txqs ex_joined ! tid)"
    using z tx joined_sel by (simp_all add: t ex_sta_def)
qed

lemma asleep_queue:
  assumes "tid < 9"
  shows "txq_active (txqs ex_asleep ! tid)" "tq_sk_list (txqs ex_asleep ! tid) = []" "tq_ps_id (txqs ex_asleep ! tid) = LEGACY_PS_ID"
    "sint (tq_credits (txqs ex_asleep ! tid)) = 64" "owner ex_asleep tid = Some 0"
proof -
  have a: "txq_active (txqs ex_joined ! tid)" using joined_queue [OF assms] idx_active [of tid] assms by (simp add: fresh_txq_def)
  show "txq_active (txqs ex_asleep ! tid)" "tq_sk_list (txqs ex_asleep ! tid) = []" "tq_ps_id (txqs ex_asleep ! tid) = LEGACY_PS_ID"
    "sint (tq_credits (txqs ex_asleep ! tid)) = 64"
    using joined_queue [OF assms] a
    by (simp_all add: asleep_facts(6) [OF assms] stop_q_def fresh_txq_def NX_TXQ_INITIAL_CREDITS_def boot_facts ex_sta_def)
  show "owner ex_asleep tid = Some 0" using joined_owner [OF assms] layout_cong(3) [of ex_asleep ex_joined] asleep_facts(1) joined_sel(1) by simp
qed

subsection \<open>Frames pile up while the channel is away\<close>

definition ex_vif :: rwnx_vif where
  "ex_vif = \<lparr>v_index = 0, v_type = VIF_STATION, v_tdls_link = True, v_tdls_sta = Some 0, v_tdls_chsw = False, v_roc_tdls = False, v_ap = None,
     v_sta_list = [], v_master_sta_list = []\<rparr>"

definition piled :: "nat \<Rightarrow> tx_hw \<Rightarrow> bool" where
  "piled n s \<longleftrightarrow> txq_step\<^sup>*\<^sup>* ex_boot s \<and> old_ic s \<and> length (stas s) = 12 \<and> tq_sk_list (txqs s ! 0) = map (\<lambda>k. ex_frame k 0) [0..<n]
     \<and> txq_active (txqs s ! 0) \<and> tq_credits (txqs s ! 0) = 64 \<and> tq_push_limit (txqs s ! 0) = 0 \<and> tq_hwq (txqs s ! 0) = RWNX_HWQ_BE
     \<and> flag_set (tq_status (txqs s ! 0)) RWNX_TXQ_STOP_CHAN \<and> \<not> flag_set (tq_status (txqs s ! 0)) 0x1e
     \<and> (\<forall>j. 0 < j \<and> j < 297 \<longrightarrow> tq_sk_list (txqs s ! j) = []) \<and> (\<forall>k < 4. \<not> hq_need (hwqs s ! k))"

lemma stop_flags:
  "rwnx_txq_is_stopped q \<longleftrightarrow> flag_set (tq_status q) RWNX_TXQ_STOP_CHAN \<or> flag_set (tq_status q) 0x1e"
  unfolding rwnx_txq_is_stopped_def by (simp add: RWNX_TXQ_STOP_def txq_flag_defs flip: flag_set_or_mask)

lemma joined_need: "k < 4 \<Longrightarrow> \<not> hq_need (hwqs ex_joined ! k)"
proof -
  assume k: "k < 4"
  have "hwqs ex_joined = hwqs (sta_awake 0 (sta_fields 0 0 False 0 ex_boot))"
    unfolding ex_joined_def rwnx_txq_sta_init_def by (rule fold_frame) (simp add: sta_init_one_def rwnx_txq_init_def Let_def)
  also have "\<dots> = hwqs ex_boot" by (simp add: sta_awake_def sta_fields_def)
  finally show ?thesis using k by (simp add: ex_boot_def txq_boot_def rwnx_hwq_init_def nx_txdesc_cnt_def)
qed

lemma stop_need: "k < length (hwqs s) \<Longrightarrow> hq_need (hwqs (rwnx_txq_stop i r s) ! k) = hq_need (hwqs s ! k)"
  by (simp add: rwnx_txq_stop_def rwnx_txq_del_from_hw_list_def)

lemma sta_stop_need:
  assumes "k < length (hwqs s)"
  shows "hq_need (hwqs (rwnx_txq_sta_stop r st s) ! k) = hq_need (hwqs s ! k)"
proof -
  have "hq_need (hwqs (fold (\<lambda>i. rwnx_txq_stop i r) is s) ! k) = hq_need (hwqs s ! k)" for "is"
    using assms
  proof (induction "is" arbitrary: s)
    case (Cons i "is")
    have "length (hwqs (rwnx_txq_stop i r s)) = length (hwqs s)" by (simp add: rwnx_txq_stop_def)
    with Cons show ?case by (simp add: stop_need)
  qed simp
  then show ?thesis by (simp add: rwnx_txq_sta_stop_def)
qed

lemma start_need:
  assumes "hq_need (hwqs (rwnx_txq_start i r s) ! k)"
  shows "hq_need (hwqs s ! k) \<or> k = tq_hwq (txqs s ! i) \<and> tq_sk_list (txqs s ! i) \<noteq> []"
  using assms
  by (auto simp: rwnx_txq_start_def Let_def rwnx_txq_add_to_hw_list_def rwnx_txq_skb_ready_def split: if_splits)

lemma fold_start_need:
  assumes "hq_need (hwqs (fold (\<lambda>i. rwnx_txq_start i r) is s) ! k)" and "\<forall>i \<in> set is. i < length (txqs s) \<and> (tq_hwq (txqs s ! i) = h \<or> tq_sk_list (txqs s ! i) = [])"
  shows "hq_need (hwqs s ! k) \<or> k = h"
  using assms
proof (induction "is" arbitrary: s)
  case (Cons i "is")
  let ?s = "rwnx_txq_start i r s"
  have i: "i < length (txqs s)" using Cons.prems(2) by simp
  have "tq_hwq (txqs ?s ! j) = tq_hwq (txqs s ! j)" "tq_sk_list (txqs ?s ! j) = tq_sk_list (txqs s ! j)" for j
    using i by (simp_all add: start_effect start_q_def Let_def)
  then have "hq_need (hwqs ?s ! k) \<or> k = h" using Cons by (intro Cons.IH) auto
  with start_need [of i r s k] Cons.prems(2) show ?case by auto
qed simp

lemma piled_start: "\<exists>s. piled 0 s"
proof -
  let ?r = RWNX_TXQ_STOP_CHAN
  let ?s = "rwnx_txq_tdls_sta_stop ex_vif ?r ex_joined"
  have v: "vif_valid ex_joined ex_vif" by (simp add: vif_valid_def ex_vif_def joined_sel NX_VIRT_DEV_MAX_def)
  have r: "0 < remote_sta_max ex_joined" by (rule remote_cong [of _ ex_boot]) (simp_all add: boot_facts joined_sel)
  have q: "set (sta_txqs ex_joined 0) = {0..<9}" using sta_queue(5) [OF r, of 0] by simp
  have d: "distinct (sta_txqs ex_joined 0)" using sta_txqs_owner(2) [OF okD(5) [OF joined_ok], of 0] joined_sel(2) by simp
  have s: "?s = rwnx_txq_sta_stop ?r 0 ex_joined" by (simp add: rwnx_txq_tdls_sta_stop_def ex_vif_def)
  have tx: "txqs ?s ! i = (if i < 9 then stop_q ?r (txqs ex_joined ! i) else txqs ex_joined ! i)" for i
    unfolding s rwnx_txq_sta_stop_def using q d joined_sel(4)
    by (subst fold_nth [where g = "stop_q ?r"]) (auto simp: stop_effect)
  have st: "txq_step\<^sup>*\<^sup>* ex_boot ?s"
    by (rule rtranclp.rtrancl_into_rtrancl [OF joined_reach], rule tdls_stop [OF v]) (simp add: pause_reason_def)
  have j: "fresh_txq ex_boot 0 0 0 (txqs ex_joined ! 0)" using joined_queue [of 0] by simp
  then have a: "txq_active (txqs ex_joined ! 0)" by (simp add: fresh_txq_def TXQ_INACTIVE_def)
  have f: "txqs ?s ! 0 = unscheduled_q ((txqs ex_joined ! 0)\<lparr>tq_status := flag_add (tq_status (txqs ex_joined ! 0)) ?r\<rparr>)"
    using a by (simp add: tx stop_q_def)
  have "tq_status (txqs ?s ! 0) = 0x20"
    using j unfolding f by (simp add: unscheduled_q_def fresh_txq_def txq_flag_defs flag_add_def flag_clear_def)
  then have "flag_set (tq_status (txqs ?s ! 0)) ?r" "\<not> flag_set (tq_status (txqs ?s ! 0)) 0x1e"
    by (simp_all add: flag_set_def RWNX_TXQ_STOP_CHAN_def)
  moreover have "tq_sk_list (txqs ?s ! i) = []" if "i < 297" for i using joined_empty [OF that] by (simp add: tx stop_q_def)
  moreover have "tq_credits (txqs ?s ! 0) = 64" "tq_push_limit (txqs ?s ! 0) = 0" "tq_hwq (txqs ?s ! 0) = RWNX_HWQ_BE" "txq_active (txqs ?s ! 0)"
    using j a unfolding f by (simp_all add: fresh_txq_def NX_TXQ_INITIAL_CREDITS_def rwnx_tid2hwq_def)
  moreover have "old_ic ?s" "length (stas ?s) = 12" using joined_sel by (simp_all add: s)
  moreover have "\<not> hq_need (hwqs ?s ! k)" if "k < 4" for k
    using joined_need [OF that] sta_stop_need [of k ex_joined] okD(4) [OF joined_ok] that by (simp add: s)
  ultimately have "piled 0 ?s" using st by (simp add: piled_def)
  then show ?thesis by blast
qed


lemma piled_step:
  assumes "piled n s"
  shows "\<exists>t. piled (Suc n) t"
proof -
  let ?f = "ex_frame n 0"
  have ok: "txq_ok {} s" using assms queues.inv_reachable [OF boot_start] by (simp add: piled_def)
  have own: "f_sta ?f = owner s 0" using assms
    by (simp add: piled_def ex_frame_def owner_def first_vif_txq_idx_def remote_sta_max_def txq_nums)
  have len: "0 < length (txqs s)" using okD(3) [OF ok] by simp
  obtain a t where t: "rwnx_txq_queue_skb ?f 0 False s = Some (a, t)" "a \<longleftrightarrow> \<not> rwnx_txq_is_stopped (txqs s ! 0)"
    using queue_skb_inv [OF okD(1) [OF ok], of 0 ?f False] own by (auto simp: ex_frame_def)
  have na: "\<not> a" using t(2) assms by (simp add: stop_flags piled_def)
  have x: "xmit_queue ?f 0 s = Some t" using t(1) na by (simp add: xmit_queue_def)
  have step: "txq_step s t" by (rule xmit [of ?f]) (use own x in \<open>simp_all add: ex_frame_def\<close>)
  then have ok': "txq_ok {} t" using step_keeps ok by blast
  obtain p where p: "link_frame ?f False (txqs s ! 0) = Some p" "txqs t ! 0 = flow_stop_q (ps_count_queued 0 s) p"
    using queue_result [OF t(1) len] na by auto
  note l = link_frame_effect [OF p(1)]
  have sk: "tq_sk_list (txqs t ! 0) = map (\<lambda>k. ex_frame k 0) [0..<Suc n]"
  proof -
    have "tq_sk_list p = tq_sk_list (txqs s ! 0) @ [?f]" using p(1) by (auto simp: link_frame_def)
    with p(2) assms show ?thesis by (simp add: piled_def)
  qed
  have st: "flag_set (tq_status (txqs t ! 0)) m = flag_set (tq_status (txqs s ! 0)) m" if "m AND RWNX_TXQ_NDEV_FLOW_CTRL = 0" for m
  proof -
    have "\<not> flag_set RWNX_TXQ_NDEV_FLOW_CTRL m" using that by (simp add: flag_set_def and.commute)
    then show ?thesis by (simp add: p(2) flow_stop_q_def flag_simps l(2))
  qed
  have oth: "tq_sk_list (txqs t ! j) = []" if "0 < j" "j < 297" for j
    using queue_skb_effect(1) [OF t(1) len, of j] that assms by (simp add: piled_def)
  have sel: "old_ic t" "length (stas t) = 12" "\<forall>k < 4. \<not> hq_need (hwqs t ! k)"
  proof -
    have "old_ic t = old_ic s" "length (stas t) = length (stas s)" "hwqs t = hwqs s"
      using t(1) na by (auto simp: rwnx_txq_queue_skb_def Let_def flow_stop_def ps_count_queued_def rwnx_set_traffic_status_def
        split: if_splits option.splits bind_splits)
    then show "old_ic t" "length (stas t) = 12" "\<forall>k < 4. \<not> hq_need (hwqs t ! k)" using assms by (simp_all add: piled_def)
  qed
  have "flag_set (tq_status (txqs t ! 0)) RWNX_TXQ_STOP_CHAN" "\<not> flag_set (tq_status (txqs t ! 0)) 0x1e"
    using st [of RWNX_TXQ_STOP_CHAN] st [of "0x1e"] assms by (simp_all add: piled_def txq_flag_defs)
  moreover have "txq_active (txqs t ! 0)" "tq_credits (txqs t ! 0) = 64" "tq_push_limit (txqs t ! 0) = 0" "tq_hwq (txqs t ! 0) = RWNX_HWQ_BE"
    using p(2) l assms by (simp_all add: piled_def)
  ultimately have "piled (Suc n) t"
    using sk oth sel step assms by (auto simp: piled_def intro: rtranclp.rtrancl_into_rtrancl)
  then show ?thesis by blast
qed

lemma piled_ex: "\<exists>s. piled n s"
  by (induction n) (blast intro: piled_start piled_step)+

text \<open>The channel comes back: the queue is the only one in the list of its hardware queue.\<close>

lemma backlog_ex:
  assumes "0 < n"
  shows "\<exists>s. txq_step\<^sup>*\<^sup>* ex_boot s \<and> hq_list (hwqs s ! RWNX_HWQ_BE) = [0] \<and> tq_sk_list (txqs s ! 0) = map (\<lambda>k. ex_frame k 0) [0..<n]
    \<and> tq_credits (txqs s ! 0) = 64 \<and> tq_push_limit (txqs s ! 0) = 0 \<and> txq_active (txqs s ! 0) \<and> (\<forall>k < 4. k \<noteq> RWNX_HWQ_BE \<longrightarrow> \<not> hq_need (hwqs s ! k))"
proof -
  obtain s where s: "piled n s" using piled_ex by blast
  let ?r = RWNX_TXQ_STOP_CHAN
  let ?t = "rwnx_txq_tdls_sta_start ex_vif ?r s"
  have ok: "txq_ok {} s" using s queues.inv_reachable [OF boot_start] by (simp add: piled_def)
  have v: "vif_valid s ex_vif" using s by (simp add: vif_valid_def ex_vif_def piled_def NX_VIRT_DEV_MAX_def)
  have step: "txq_step s ?t" by (rule tdls_start [OF v]) (simp add: pause_reason_def)
  have ok': "txq_ok {} ?t" by (rule step_keeps [OF step ok])
  have r: "0 < remote_sta_max s" by (simp add: remote_sta_max_def)
  have q: "set (sta_txqs s 0) = {0..<9}" using sta_queue(5) [OF r, of 0] by simp
  have "length (stas s) = 12" using s by (simp add: piled_def)
  then have d: "distinct (sta_txqs s 0)" using sta_txqs_owner(2) [OF okD(5) [OF ok], of 0] by simp
  have tx: "txqs ?t ! i = (if i < 9 then start_q ?r (txqs s ! i) else txqs s ! i)" for i
  proof -
    have u: "?t = fold (\<lambda>i. rwnx_txq_start i ?r) (sta_txqs s 0) s" by (simp add: rwnx_txq_tdls_sta_start_def rwnx_txq_sta_start_def ex_vif_def)
    show ?thesis
      unfolding u using q d okD(3) [OF ok] by (subst fold_nth [where g = "start_q ?r"]) (auto simp: start_effect)
  qed
  have sk: "tq_sk_list (txqs ?t ! i) = tq_sk_list (txqs s ! i)" for i by (simp add: tx start_q_def Let_def)
  have act: "txq_active (txqs ?t ! 0)" "tq_credits (txqs ?t ! 0) = 64" "tq_push_limit (txqs ?t ! 0) = 0" "tq_hwq (txqs ?t ! 0) = RWNX_HWQ_BE"
    using s by (simp_all add: tx start_q_def Let_def piled_def)
  have "\<not> rwnx_txq_is_stopped (txqs ?t ! 0)"
  proof -
    have "(0x20 :: u8) AND 0x1e = 0" by simp
    then have "\<not> flag_set (flag_clear (tq_status (txqs s ! 0)) ?r) 0x1e" "\<not> flag_set (flag_clear (tq_status (txqs s ! 0)) ?r) ?r"
      using s by (simp_all add: piled_def RWNX_TXQ_STOP_CHAN_def flag_set_clear_other flag_set_clear_same)
    then have "\<not> rwnx_txq_is_stopped ((txqs s ! 0)\<lparr>tq_status := flag_clear (tq_status (txqs s ! 0)) ?r\<rparr>)"
      by (simp add: stop_flags)
    then show ?thesis using s by (simp add: tx start_q_def Let_def piled_def)
  qed
  moreover have "tq_sk_list (txqs ?t ! 0) \<noteq> []" using s assms by (simp add: sk piled_def)
  ultimately have s0: "rwnx_txq_is_scheduled (txqs ?t ! 0)" using ok_queue(3) [OF ok', of 0] act(1) by simp
  have only: "i = 0" if "rwnx_txq_is_scheduled (txqs ?t ! i)" "i < 297" for i
  proof (rule ccontr)
    assume "i \<noteq> 0"
    then have "tq_sk_list (txqs ?t ! i) = []" using s that(2) by (simp add: sk piled_def)
    with ok_queue(3) [OF ok' that(2)] okD(6) [OF ok' that(2,1)] that(1) show False by simp
  qed
  have m: "i \<in> set (hq_list (hwqs ?t ! k)) \<longleftrightarrow> i = 0 \<and> k = RWNX_HWQ_BE" if "k < 4" for i k
  proof -
    have "i \<in> set (hq_list (hwqs ?t ! k)) \<longleftrightarrow> i < 297 \<and> rwnx_txq_is_scheduled (txqs ?t ! i) \<and> tq_hwq (txqs ?t ! i) = k"
      by (rule listed [OF okD(1) [OF ok'] that])
    moreover have "(0 :: nat) < 297" by simp
    ultimately show ?thesis using only s0 act(4) by metis
  qed
  have "distinct (hq_list (hwqs ?t ! k))" if "k < 4" for k
    using baseD(4) [OF invxD(1) [OF okD(1) [OF ok']]] that okD(4) [OF ok'] unfolding sched_ok_def by metis
  moreover have "set (hq_list (hwqs ?t ! k)) = (if k = RWNX_HWQ_BE then {0} else {})" if "k < 4" for k
    by (rule set_eqI) (simp add: m [OF that])
  ultimately have l: "set (hq_list (hwqs ?t ! k)) = (if k = RWNX_HWQ_BE then {0} else {})" "distinct (hq_list (hwqs ?t ! k))" if "k < 4" for k
    using that by blast+
  have be: "RWNX_HWQ_BE < 4" by (simp add: RWNX_HWQ_BE_def)
  have "length (hq_list (hwqs ?t ! RWNX_HWQ_BE)) = 1" using distinct_card [OF l(2) [OF be]] l(1) [OF be] by simp
  then obtain x where x: "hq_list (hwqs ?t ! RWNX_HWQ_BE) = [x]" by (metis One_nat_def Suc_length_conv length_0_conv)
  then have "set [x] = {0}" using l(1) [OF be] by (simp only: if_True refl)
  then have one: "hq_list (hwqs ?t ! RWNX_HWQ_BE) = [0]" using x by simp
  have "txq_step\<^sup>*\<^sup>* ex_boot ?t" using s step by (auto simp: piled_def intro: rtranclp.rtrancl_into_rtrancl)
  moreover have "tq_sk_list (txqs ?t ! 0) = map (\<lambda>k. ex_frame k 0) [0..<n]" using s by (simp add: sk piled_def)
  moreover have "\<not> hq_need (hwqs ?t ! k)" if "k < 4" "k \<noteq> RWNX_HWQ_BE" for k
  proof
    assume "hq_need (hwqs ?t ! k)"
    moreover have "?t = fold (\<lambda>i. rwnx_txq_start i ?r) (sta_txqs s 0) s" by (simp add: rwnx_txq_tdls_sta_start_def rwnx_txq_sta_start_def ex_vif_def)
    moreover have "\<forall>i \<in> set (sta_txqs s 0). i < length (txqs s) \<and> (tq_hwq (txqs s ! i) = RWNX_HWQ_BE \<or> tq_sk_list (txqs s ! i) = [])"
    proof
      fix i assume "i \<in> set (sta_txqs s 0)"
      then have "i < 9" unfolding q by simp
      then show "i < length (txqs s) \<and> (tq_hwq (txqs s ! i) = RWNX_HWQ_BE \<or> tq_sk_list (txqs s ! i) = [])"
        using s okD(3) [OF ok] by (cases "i = 0") (simp_all add: piled_def)
    qed
    ultimately have "hq_need (hwqs s ! k)" using fold_start_need [of ?r "sta_txqs s 0" s k RWNX_HWQ_BE] that(2) by simp
    then show False using s that(1) by (simp add: piled_def)
  qed
  ultimately show ?thesis using one act by blast
qed

end
