(* ===== verification/Txq_Props.thy ===== *)
theory Txq_Props
  imports Txq_Example
begin

text \<open>What holds of the transmit queues in every run: their state, processing, power save and retries.\<close>

section \<open>The state of the queues\<close>






section \<open>Processing\<close>

text \<open>
  C31: in every reachable state processing a hardware queue ends; each queue hands a prefix of its frames to the bus, in order, and keeps the
  rest; the prefix is not empty exactly for the queues that were in the list.
\<close>

theorem processing_serves_every_queue_in_order:
  assumes "txq_start s0" and "txq_step\<^sup>*\<^sup>* s0 s" and "h < 4"
  shows "\<exists>t. rwnx_hwq_process h s = Some t \<and> \<not> hq_need (hwqs t ! h)
    \<and> (\<forall>j < 297. \<exists>n \<le> length (tq_sk_list (txqs s ! j)).
         pushed_ids j (hw_events t) = pushed_ids j (hw_events s) @ map f_id (take n (tq_sk_list (txqs s ! j)))
         \<and> (tq_idx (txqs s ! j) \<noteq> TXQ_INACTIVE \<longrightarrow> tq_sk_list (txqs t ! j) = drop n (tq_sk_list (txqs s ! j)))
         \<and> (0 < n \<longleftrightarrow> j \<in> set (hq_list (hwqs s ! h))))"
proof -
  have ok: "txq_ok {} s" by (rule reach_ok [OF assms(1,2)])
  note l = listed [OF okD(1) [OF ok] assms(3)]
  obtain t where t: "rwnx_hwq_process h s = Some t" "\<not> hq_need (hwqs t ! h)"
    "\<And>j. \<exists>n. pushes_front s t j n \<and> (j \<in> set (hq_list (hwqs s ! h)) \<and> txq_active (txqs s ! j) \<longrightarrow> 0 < n) \<and> (j \<notin> set (hq_list (hwqs s ! h)) \<longrightarrow> n = 0)"
    using process_ok [OF okD(1) [OF ok] assms(3)] by metis
  have "\<exists>n \<le> length (tq_sk_list (txqs s ! j)).
         pushed_ids j (hw_events t) = pushed_ids j (hw_events s) @ map f_id (take n (tq_sk_list (txqs s ! j)))
         \<and> (tq_idx (txqs s ! j) \<noteq> TXQ_INACTIVE \<longrightarrow> tq_sk_list (txqs t ! j) = drop n (tq_sk_list (txqs s ! j)))
         \<and> (0 < n \<longleftrightarrow> j \<in> set (hq_list (hwqs s ! h)))" if j: "j < 297" for j
  proof -
    obtain n where n: "pushes_front s t j n" "j \<in> set (hq_list (hwqs s ! h)) \<and> txq_active (txqs s ! j) \<longrightarrow> 0 < n" "j \<notin> set (hq_list (hwqs s ! h)) \<longrightarrow> n = 0"
      using t(3) by blast
    have "j \<in> set (hq_list (hwqs s ! h)) \<Longrightarrow> txq_active (txqs s ! j) \<and> tq_sk_list (txqs s ! j) \<noteq> []"
      using l okD(6) [OF ok] ok_queue(3) [OF ok] by blast
    with n show ?thesis
      by (intro exI [of _ "min n (length (tq_sk_list (txqs s ! j)))"]) (auto simp: pushes_front_def min_def)
  qed
  with t show ?thesis by blast
qed

lemma processing_serves_every_queue_in_order_witness:
  "\<exists>s t. txq_step\<^sup>*\<^sup>* ex_boot s \<and> hq_list (hwqs s ! RWNX_HWQ_BE) = [0] \<and> rwnx_hwq_process RWNX_HWQ_BE s = Some t
     \<and> (\<exists>n. 0 < n \<and> pushed_ids 0 (hw_events t) = pushed_ids 0 (hw_events s) @ take n [0, 1, 2])"
proof -
  obtain s where s: "txq_step\<^sup>*\<^sup>* ex_boot s" "hq_list (hwqs s ! RWNX_HWQ_BE) = [0]" "tq_sk_list (txqs s ! 0) = map (\<lambda>k. ex_frame k 0) [0..<3]"
    using backlog_ex [of 3] by auto
  have ids: "map f_id (take n (tq_sk_list (txqs s ! 0))) = take n [0, 1, 2]" for n
  proof -
    have "map f_id (tq_sk_list (txqs s ! 0)) = [0, 1, 2]" unfolding s(3) by (simp add: ex_frame_def numeral_3_eq_3)
    then show ?thesis by (simp only: take_map [symmetric])
  qed
  obtain t where t: "rwnx_hwq_process RWNX_HWQ_BE s = Some t"
    "\<forall>j < 297. \<exists>n \<le> length (tq_sk_list (txqs s ! j)).
         pushed_ids j (hw_events t) = pushed_ids j (hw_events s) @ map f_id (take n (tq_sk_list (txqs s ! j)))
         \<and> (tq_idx (txqs s ! j) \<noteq> TXQ_INACTIVE \<longrightarrow> tq_sk_list (txqs t ! j) = drop n (tq_sk_list (txqs s ! j)))
         \<and> (0 < n \<longleftrightarrow> j \<in> set (hq_list (hwqs s ! RWNX_HWQ_BE)))"
    using processing_serves_every_queue_in_order [OF boot_start s(1), of RWNX_HWQ_BE] by (auto simp: RWNX_HWQ_BE_def)
  obtain n where "pushed_ids 0 (hw_events t) = pushed_ids 0 (hw_events s) @ take n [0, 1, 2]" "0 < n"
    using t(2) [rule_format, of 0] s(2) ids by auto
  with s(1,2) t(1) show ?thesis by blast
qed

text \<open>
  C34: when the only queue in the list of a hardware queue holds more frames than it has credits, processing pushes as many as it has credits
  and clears the need for processing although the queue stays in the list; with no other hardware queue in need, processing all of them does
  nothing more: the rest waits for the next frame, confirmation or start of a queue of this hardware queue.
\<close>

theorem backlog_beyond_credits_waits:
  assumes "txq_start s0" and "txq_step\<^sup>*\<^sup>* s0 s" and "h < 4" and "hq_list (hwqs s ! h) = [i]" and "tq_push_limit (txqs s ! i) = 0"
    and "sint (tq_credits (txqs s ! i)) < int (length (tq_sk_list (txqs s ! i)))" and "\<forall>k < 4. k \<noteq> h \<longrightarrow> \<not> hq_need (hwqs s ! k)"
  shows "\<exists>t. rwnx_hwq_process h s = Some t \<and> hq_list (hwqs t ! h) = [i] \<and> rwnx_hwq_process_all t = Some t
    \<and> pushed_ids i (hw_events t) = pushed_ids i (hw_events s) @ map f_id (take (nat (sint (tq_credits (txqs s ! i)))) (tq_sk_list (txqs s ! i)))
    \<and> tq_sk_list (txqs t ! i) = drop (nat (sint (tq_credits (txqs s ! i)))) (tq_sk_list (txqs s ! i)) \<and> tq_sk_list (txqs t ! i) \<noteq> []"
proof -
  have ok: "txq_ok {} s" by (rule reach_ok [OF assms(1,2)])
  let ?q = "txqs s ! i"
  define s1 where "s1 = upd_hwq h (\<lambda>x. x\<lparr>hq_need := False\<rparr>) s"
  note p = process_single [OF ok assms(3,4), folded s1_def]
  have cr: "rwnx_txq_get_credits ?q = sint (tq_credits ?q)" using assms(5) by (simp add: rwnx_txq_get_credits_def)
  have b: "batch ?q = nat (sint (tq_credits ?q))" "\<not> batch_ends ?q" using assms(5,6) cr by (simp_all add: batch_def batch_ends_def)
  have in1: "i \<in> set (hq_list (hwqs s1 ! h))" "txq_active (txqs s1 ! i)" using p(3,4,5) by simp_all
  define t where "t = hwq_round h i s1"
  note r = round_effect [OF p(2) assms(3) in1 t_def]
  have len: "i < length (txqs s1)" "length (hwqs t) = 4" using p(4,9) okD(3) [OF ok] baseD(2) [OF invxD(1) [OF r(1)]] by simp_all
  have "i \<in> set (hq_list (hwqs t ! h))"
    using listed [OF r(1) assms(3), of i] r(5,10) listed [OF p(2) assms(3), of i] in1(1) b(2) p(4) by simp
  moreover have "hq_list (hwqs t ! h) \<in> {[], [i]}" using r(7) p(3) by simp
  ultimately have lst: "hq_list (hwqs t ! h) = [i]" by auto
  have "\<not> hq_need (hwqs t ! k)" if "k < 4" for k
    using r(9) [OF that] p(7) p(8) [of k] assms(7) that by (cases "k = h") auto
  then have idle: "hwq_process_list hs t = Some t" if "\<forall>k \<in> set hs. k < 4" for hs using that by (induction hs) simp_all
  then have "rwnx_hwq_process_all t = Some t" unfolding rwnx_hwq_process_all_def len(2) using idle [of "rev [0..<4]"] by simp
  moreover have "drop (nat (sint (tq_credits ?q))) (tq_sk_list ?q) \<noteq> []" using assms(6) ok_queue(3) [OF ok p(9,5)] by auto
  ultimately show ?thesis
    using p(1,4,6) r(4,6) lst b(1) by (auto simp: t_def)
qed

lemma backlog_beyond_credits_waits_witness:
  "\<exists>s t. txq_step\<^sup>*\<^sup>* ex_boot s \<and> rwnx_hwq_process RWNX_HWQ_BE s = Some t \<and> rwnx_hwq_process_all t = Some t
     \<and> length (tq_sk_list (txqs s ! 0)) = 70 \<and> length (tq_sk_list (txqs t ! 0)) = 6"
proof -
  obtain s where s: "txq_step\<^sup>*\<^sup>* ex_boot s" "hq_list (hwqs s ! RWNX_HWQ_BE) = [0]" "tq_sk_list (txqs s ! 0) = map (\<lambda>k. ex_frame k 0) [0..<70]"
    "tq_credits (txqs s ! 0) = 64" "tq_push_limit (txqs s ! 0) = 0" "\<forall>k < 4. k \<noteq> RWNX_HWQ_BE \<longrightarrow> \<not> hq_need (hwqs s ! k)"
    using backlog_ex [of 70] by auto
  have len: "length (tq_sk_list (txqs s ! 0)) = 70" unfolding s(3) by (simp del: upt_rec_numeral)
  have "\<exists>t. rwnx_hwq_process RWNX_HWQ_BE s = Some t \<and> hq_list (hwqs t ! RWNX_HWQ_BE) = [0] \<and> rwnx_hwq_process_all t = Some t
    \<and> pushed_ids 0 (hw_events t) = pushed_ids 0 (hw_events s) @ map f_id (take (nat (sint (tq_credits (txqs s ! 0)))) (tq_sk_list (txqs s ! 0)))
    \<and> tq_sk_list (txqs t ! 0) = drop (nat (sint (tq_credits (txqs s ! 0)))) (tq_sk_list (txqs s ! 0)) \<and> tq_sk_list (txqs t ! 0) \<noteq> []"
    by (rule backlog_beyond_credits_waits [OF boot_start s(1) _ s(2,5) _ s(6)]) (simp_all add: RWNX_HWQ_BE_def len s(4))
  then obtain t where "rwnx_hwq_process RWNX_HWQ_BE s = Some t" "rwnx_hwq_process_all t = Some t"
    "tq_sk_list (txqs t ! 0) = drop (nat (sint (tq_credits (txqs s ! 0)))) (tq_sk_list (txqs s ! 0))" by blast
  moreover from this(3) have "length (tq_sk_list (txqs t ! 0)) = 6" by (simp add: len s(4))
  ultimately show ?thesis using s(1) len by blast
qed

section \<open>Sleeping stations\<close>

text \<open>
  C13: a frame for a queue of a station in power-save mode is only queued: nothing is handed to the bus, the frame is the last of its queue,
  the count of frames that wait for the station grows by one, and the first of them is announced to the firmware.
\<close>

theorem frames_for_sleeping_station_wait:
  assumes "txq_start s0" and "txq_step\<^sup>*\<^sup>* s0 s" and "f_txq f < 297" and "f_sta f = Some st" and "owner s (f_txq f) = Some st"
    and "tq_idx (txqs s ! f_txq f) \<noteq> TXQ_INACTIVE" and "ps_active (stas s ! st)"
  shows "\<exists>t. xmit_queue f (f_txq f) s = Some t \<and> tq_sk_list (txqs t ! f_txq f) = tq_sk_list (txqs s ! f_txq f) @ [f]
    \<and> (\<forall>j. pushed_ids j (hw_events t) = pushed_ids j (hw_events s))
    \<and> pkt_ready (stas t ! st) (tq_ps_id (txqs s ! f_txq f)) = pkt_ready (stas s ! st) (tq_ps_id (txqs s ! f_txq f)) + 1
    \<and> (pkt_ready (stas s ! st) (tq_ps_id (txqs s ! f_txq f)) = 0 \<and> \<not> s_tdls_active (stas s ! st) \<longrightarrow>
         TrafficInd st (tq_ps_id (txqs s ! f_txq f) \<noteq> LEGACY_PS_ID) True \<in> set (hw_events t))"
  using sleeping_xmit [OF reach_ok [OF assms(1,2)] assms(3) refl _ assms(6,5,7)] assms(4,5) by auto

lemma frames_for_sleeping_station_wait_witness:
  "\<exists>t. xmit_queue (ex_frame 7 0) 0 ex_asleep = Some t \<and> tq_sk_list (txqs t ! 0) = [ex_frame 7 0] \<and> pkt_ready (stas t ! 0) LEGACY_PS_ID = 1
     \<and> TrafficInd 0 False True \<in> set (hw_events t)"
  using frames_for_sleeping_station_wait [OF boot_start asleep_reach, of "ex_frame 7 0" 0] asleep_facts asleep_queue [of 0]
  by (auto simp: ex_frame_def)

section \<open>Retries\<close>



text \<open>Credits are never taken away again, so a queue can collect them until the signed counter wraps: then its processing is a \<^verbatim>\<open>BUG_ON\<close>.\<close>

lemma retry_credits_wrap:
  assumes "i < length (txqs s)" and "f_txq f = i" and "sint (tq_credits (txqs s ! i)) = 127" and "rwnx_tx_retry f sw s = Some t"
  shows "sint (tq_credits (txqs t ! i)) = -128" "tq_idx (txqs s ! i) \<noteq> TXQ_INACTIVE \<Longrightarrow> hwq_bug t i"
proof -
  let ?s1 = "upd_txq i (\<lambda>q. q\<lparr>tq_credits := tq_credits q + 1\<rparr>) s"
  have "tq_credits (txqs s ! i) = of_int (sint (tq_credits (txqs s ! i)))" by simp
  also have "\<dots> = 127" using assms(3) by simp
  finally have c: "tq_credits (txqs s ! i) + 1 = 128" by simp
  have neg: "sint (128 :: u8) = -128" by simp
  have "\<not> 0 < sint (tq_credits (txqs ?s1 ! i))" using assms(1) c neg by simp
  then obtain g a where a: "rwnx_txq_queue_skb g i True ?s1 = Some (a, t)"
    using assms(2,4) by (auto simp: rwnx_tx_retry_def Let_def)
  obtain p where p: "link_frame g True (txqs ?s1 ! i) = Some p" "txqs t ! i = (if a then scheduled_q (flow_stop_q (ps_count_queued i ?s1) p) else flow_stop_q (ps_count_queued i ?s1) p)"
    using queue_result [OF a] assms(1) by auto
  have "tq_credits (txqs t ! i) = 128" "tq_idx (txqs t ! i) = tq_idx (txqs s ! i)"
    using p link_frame_effect(1,4) [OF p(1)] assms(1) c by simp_all
  then show "sint (tq_credits (txqs t ! i)) = -128" "tq_idx (txqs s ! i) \<noteq> TXQ_INACTIVE \<Longrightarrow> hwq_bug t i"
    using neg by (simp_all add: hwq_bug_def)
qed

end
