(* ===== verification/Txq_Service.thy ===== *)
theory Txq_Service
  imports Txq_Example
begin

text \<open>How a service period is shared among the queues of a sleeping station.\<close>

section \<open>Service periods\<close>

text \<open>How a request for frames is shared: the queues in the order of their priority, each what is left of the request at most.\<close>

fun grants :: "nat \<Rightarrow> nat list \<Rightarrow> nat list" where
  "grants r [] = []"
| "grants r (n # ns) = min r n # grants (r - n) ns"

lemma length_grants [simp]: "length (grants r ns) = length ns"
  by (induction r ns rule: grants.induct) simp_all

lemma grants_zero [simp]: "grants 0 ns = replicate (length ns) 0"
  by (induction ns) simp_all

lemma sum_grants: "sum_list (grants r ns) = min r (sum_list ns)"
  by (induction r ns rule: grants.induct) auto

definition avail :: "tx_hw \<Rightarrow> nat \<Rightarrow> nat \<Rightarrow> nat \<Rightarrow> nat" where
  "avail s st k tid = (let q = txqs s ! rwnx_txq_sta_get s st tid
     in if tq_ps_id q = k then min (length (tq_sk_list q)) (nat (sint (tq_credits q))) else 0)"

text \<open>A queue that is granted \<open>g\<close> frames.\<close>

definition granted :: "tx_hw \<Rightarrow> tx_hw \<Rightarrow> nat \<Rightarrow> nat \<Rightarrow> bool" where
  "granted s t i g \<longleftrightarrow> (if g = 0 then txqs t ! i = txqs s ! i
     else unat (tq_push_limit (txqs t ! i)) = g \<and> rwnx_txq_is_scheduled (txqs t ! i) \<and> tq_sk_list (txqs t ! i) = tq_sk_list (txqs s ! i))"

lemma granted_log: "granted s (hw_log es t) i g = granted s t i g"
  by (simp add: granted_def)

lemma serve_granted:
  assumes "i < length (txqs s)" and "st < length (stas s)" and "n \<noteq> 0" and "unat n < 256"
  shows "granted s (serve st k n i s) i (unat n)" "sp_cnt (stas (serve st k n i s) ! st) k = sp_cnt (stas s ! st) k + n"
proof -
  have "unat (ucast n :: u8) = unat n" using assms(4) by (simp add: unat_ucast_small)
  then show "granted s (serve st k n i s) i (unat n)" using assms(1,3) by (simp add: granted_def serve_def add_nth unat_eq_0)
  show "sp_cnt (stas (serve st k n i s) ! st) k = sp_cnt (stas s ! st) k + n" using assms(2) by (simp add: serve_def)
qed

lemma sta_get_unicast: "\<not> is_multicast_sta s st \<Longrightarrow> tid < 9 \<Longrightarrow> rwnx_txq_sta_get s st tid = st * 9 + tid"
  by (simp add: rwnx_txq_sta_get_def rwnx_txq_sta_idx_def txq_nums)

lemma dispatch_grants:
  assumes "txq_ok {} s" and "st < length (stas s)" and "ps_active (stas s ! st)" and "ps_served s st" and "req \<noteq> 0" and "\<not> is_multicast_sta s st"
    and "distinct tids" "\<forall>tid \<in> set tids. tid < 9 \<and> length (tq_sk_list (txqs s ! (st * 9 + tid))) < 65536"
  shows "(\<forall>(tid, g) \<in> set (zip tids (grants (unat req) (map (avail s st k) tids))). granted s (ps_dispatch st k req tids s) (st * 9 + tid) g)
    \<and> sp_cnt (stas (ps_dispatch st k req tids s) ! st) k = sp_cnt (stas s ! st) k + word_of_nat (sum_list (grants (unat req) (map (avail s st k) tids)))
    \<and> (\<forall>j. (\<forall>tid \<in> set tids. j \<noteq> st * 9 + tid) \<longrightarrow> txqs (ps_dispatch st k req tids s) ! j = txqs s ! j)"
  using assms
proof (induction st k req tids s rule: ps_dispatch.induct)
  case (2 st k req tid tids s)
  let ?i = "rwnx_txq_sta_get s st tid"
  let ?n = "cap_credits (word_of_nat (length (tq_sk_list (txqs s ! ?i)))) (txqs s ! ?i)"
  note g = sta_get_lt [OF okD(5) [OF "2.prems"(1)] "2.prems"(2), of tid]
  have ii: "?i = st * 9 + tid" using sta_get_unicast "2.prems"(6,8) by simp
  have a: "txq_active (txqs s ! ?i)" using "2.prems"(4) g by (simp add: ps_served_def)
  have "0 < sint (tq_credits (txqs s ! ?i))" using invxD(4) [OF okD(1) [OF "2.prems"(1)] g(1)] a by (simp add: qbase_def)
  note cc = cap_credits_le [OF this]
  have un: "unat ?n = min (length (tq_sk_list (txqs s ! ?i))) (nat (sint (tq_credits (txqs s ! ?i))))"
    using cc(4) "2.prems"(8) ii by (simp add: unat_of_nat)
  have av: "avail s st k tid = (if tq_ps_id (txqs s ! ?i) = k then unat ?n else 0)" by (simp add: avail_def Let_def un)
  have il: "?i < length (txqs s)" using g(1) okD(3) [OF "2.prems"(1)] by simp
  note sh = share_ok [OF okD(1) [OF "2.prems"(1)] g(1) a]
  note kp = serve_keeps [OF "2.prems"(1) g "2.prems"(3) a] and sv = serve_served [OF "2.prems"(1) g "2.prems"(3,4)]
  note sg = serve_granted [OF il "2.prems"(2)]
  show ?case
  proof (cases "tq_ps_id (txqs s ! ?i) \<noteq> k \<or> ?n = 0")
    case True
    then have e: "ps_dispatch st k req (tid # tids) s = ps_dispatch st k req tids s" by (auto simp: Let_def)
    have "avail s st k tid = 0" using True av by auto
    moreover note IH = "2.IH"(1) [OF refl refl refl True "2.prems"(1-6)]
    moreover have "txqs (ps_dispatch st k req tids s) ! (st * 9 + tid) = txqs s ! (st * 9 + tid)"
      by (rule IH [THEN conjunct2, THEN conjunct2, rule_format]) (use "2.prems"(7,8) in auto)
    ultimately show ?thesis unfolding e using "2.prems"(7,8) by (simp add: granted_def)
  next
    case nz: False
    then have n0: "?n \<noteq> 0" "tq_ps_id (txqs s ! ?i) = k" by blast+
    have av': "avail s st k tid = unat ?n" using av n0(2) by simp
    show ?thesis
    proof (cases "?n < req")
      case True
      have l: "unat ?n \<le> length (tq_sk_list (txqs s ! ?i))" "unat ?n < 256" using sh [OF n0(1)] by simp_all
      define t where "t = serve st k ?n ?i s"
      have e: "ps_dispatch st k req (tid # tids) s = ps_dispatch st k (req - ?n) tids t" using nz True by (simp add: Let_def t_def)
      have r: "req - ?n \<noteq> 0" "unat (req - ?n) = unat req - unat ?n" "unat ?n < unat req" using True by (auto simp: unat_sub_if' word_less_nat_alt)
      note kt = kp [OF n0(1) l t_def] and sgt = sg [OF n0(1) l(2), of k, folded t_def]
      have gt: "rwnx_txq_sta_get t st x = rwnx_txq_sta_get s st x" for x by (rule sta_get_cong [OF kt(2)]) (use kt(6) in simp)
      have oth: "txqs t ! (st * 9 + x) = txqs s ! (st * 9 + x)" if "x \<in> set tids" for x
        using that "2.prems"(7) ii by (intro kt(4)) auto
      have avs: "map (avail t st k) tids = map (avail s st k) tids"
        using oth gt "2.prems"(6,8) by (intro map_cong) (simp_all add: avail_def Let_def sta_get_unicast)
      have pre: "st < length (stas t)" "ps_active (stas t ! st)" "\<not> is_multicast_sta t st" "distinct tids"
        "\<forall>tid \<in> set tids. tid < 9 \<and> length (tq_sk_list (txqs t ! (st * 9 + tid))) < 65536"
        using kt(2,3,5) "2.prems"(2,3,6-8) oth layout_cong(4) [OF kt(2)] by simp_all
      note IH = "2.IH"(2) [OF refl refl refl nz True, folded t_def, OF kt(1) pre(1,2) sv [OF n0(1) l t_def] r(1) pre(3-5), unfolded avs r(2)]
      let ?u = "ps_dispatch st k (req - ?n) tids t"
      have "txqs ?u ! ?i = txqs t ! ?i"
        by (rule IH [THEN conjunct2, THEN conjunct2, rule_format]) (use "2.prems"(7) ii in auto)
      then have 1: "granted s ?u ?i (unat ?n)" using sgt(1) by (simp add: granted_def)
      have 2: "granted s ?u (st * 9 + x) h" if "(x, h) \<in> set (zip tids (grants (unat req - unat ?n) (map (avail s st k) tids)))" for x h
        using IH that oth [OF set_zip_leftD [OF that]] by (auto simp: granted_def)
      have m: "min (unat req) (avail s st k tid) = unat ?n" using r(3) av' by simp
      have gr: "grants (unat req) (map (avail s st k) (tid # tids)) = unat ?n # grants (unat req - unat ?n) (map (avail s st k) tids)"
        using m av' by simp
      show ?thesis
        unfolding e gr using 1 2 IH sgt(2) ii kt(4) by (auto simp: algebra_simps)
    next
      case False
      then have le: "req \<le> ?n" by simp
      then have le2: "unat req \<le> unat ?n" unfolding word_le_nat_alt .
      have l: "unat req \<le> length (tq_sk_list (txqs s ! ?i))" "unat req < 256" using sh [OF "2.prems"(5) le] by simp_all
      define t where "t = serve st k req ?i s"
      have e: "ps_dispatch st k req (tid # tids) s = t" using nz False by (simp add: Let_def t_def)
      note kt = kp [OF "2.prems"(5) l t_def] and sgt = sg [OF "2.prems"(5) l(2), of k, folded t_def]
      have gr: "grants (unat req) (map (avail s st k) (tid # tids)) = unat req # replicate (length tids) 0"
        using le2 av' by simp
      have "granted s t (st * 9 + x) h" if "(x, h) \<in> set (zip tids (replicate (length tids) 0))" for x h
      proof -
        have "x \<in> set tids" "h = 0" using set_zip_leftD [OF that] set_zip_rightD [OF that] by simp_all
        then have "st * 9 + x \<noteq> ?i" using "2.prems"(7) ii by auto
        with \<open>h = 0\<close> show ?thesis using kt(4) by (simp add: granted_def)
      qed
      then show ?thesis unfolding e gr using sgt ii kt(4) by (auto simp: sum_list_replicate)
    qed
  qed
qed simp

text \<open>
  C15: a sleeping station asks for frames.  The request (all waiting frames when it names none, at most those) is shared among its queues of
  the asked power-save type in the order of priority 7, 6, 5, 4, 3, 0, 2, 1: each may push what it holds, has credits for and is left of the
  request, and is put into the list of its hardware queue; the others stay as they are; the service period is as long as the shares together.
\<close>

theorem service_period_shares_by_priority:
  assumes "txq_start s0" and "txq_step\<^sup>*\<^sup>* s0 s" and "st < remote_sta_max s" and "ps_active (stas s ! st)" and "ps_served s st"
    and "r \<noteq> PS_SP_INTERRUPTED \<or> k \<noteq> UAPSD_ID" and "sp_cnt (stas s ! st) k = 0" and "pkt_ready (stas s ! st) k \<noteq> 0"
    and "\<forall>tid < 9. length (tq_sk_list (txqs s ! (st * 9 + tid))) < 65536"
  shows "\<exists>gs. gs = grants (if r = 0 then unat (pkt_ready (stas s ! st) k) else min (unat r) (unat (pkt_ready (stas s ! st) k))) (map (avail s st k) [7, 6, 5, 4, 3, 0, 2, 1])
    \<and> (\<forall>(tid, g) \<in> set (zip [7, 6, 5, 4, 3, 0, 2, 1] gs). granted s (rwnx_ps_bh_traffic_req st r k s) (st * 9 + tid) g)
    \<and> unat (sp_cnt (stas (rwnx_ps_bh_traffic_req st r k s) ! st) k) = sum_list gs"
proof -
  have ok: "txq_ok {} s" by (rule queues.inv_reachable [OF assms(1,2)])
  let ?x = "stas s ! st" and ?t = "rwnx_ps_bh_traffic_req st r k s"
  let ?n = "if r = 0 then unat (pkt_ready ?x k) else min (unat r) (unat (pkt_ready ?x k))"
  let ?gs = "grants ?n (map (avail s st k) nx_tid_prio)"
  have st: "st < length (stas s)" using remote_lt [OF ok assms(3)] .
  have uni: "\<not> is_multicast_sta s st" using assms(3) by (simp add: is_multicast_sta_def)
  have rdy: "traffic_ready ?x k = int (unat (pkt_ready ?x k))" using assms(7) by (simp add: traffic_ready_def)
  have pos: "0 < traffic_ready ?x k" using assms(8) unfolding rdy of_nat_0_less_iff by (simp add: unat_gt_0)
  note sh = traffic_share_pos [OF pos, of r]
  have n: "unat (traffic_share ?x r k) = ?n" using sh(3) unfolding rdy nat_int .
  have c: "\<not> (sp_cnt ?x k \<noteq> 0 \<or> traffic_ready ?x k \<le> 0)" using assms(7) pos by simp
  note def = rwnx_ps_bh_traffic_req_def Let_def traffic_ready_def [symmetric] traffic_share_def [symmetric]
  have t: "?t = hw_log [TaskletSchedule] (ps_dispatch st k (traffic_share ?x r k) nx_tid_prio s)"
    unfolding def using assms(4,6) uni c by (simp only: if_False if_True simp_thms) auto
  have "\<forall>tid \<in> set nx_tid_prio. tid < 9" by (simp add: nx_tid_prio_def)
  then have prio: "nx_tid_prio = [7, 6, 5, 4, 3, 0, 2, 1]" "distinct nx_tid_prio" "\<forall>tid \<in> set nx_tid_prio. tid < 9 \<and> length (tq_sk_list (txqs s ! (st * 9 + tid))) < 65536"
    using assms(9) by (simp_all add: nx_tid_prio_def [symmetric], simp_all add: nx_tid_prio_def)
  note d = dispatch_grants [OF ok st assms(4,5) sh(1) uni prio(2,3), of k, unfolded n]
  have "sum_list ?gs \<le> unat (pkt_ready ?x k)" unfolding sum_grants by (auto simp: min_le_iff_disj)
  then have "sum_list ?gs < 65536" using unat_u16_less [of "pkt_ready ?x k"] by linarith
  then have "unat (word_of_nat (sum_list ?gs) :: u16) = sum_list ?gs" by (simp add: unat_of_nat)
  then have "unat (sp_cnt (stas ?t ! st) k) = sum_list ?gs" using d assms(7) unfolding t by simp
  moreover have "\<forall>(tid, g) \<in> set (zip nx_tid_prio ?gs). granted s ?t (st * 9 + tid) g"
    using d unfolding t granted_log by blast
  ultimately show ?thesis unfolding prio(1) by blast
qed


lemma service_period_shares_by_priority_witness:
  "\<exists>s. txq_step\<^sup>*\<^sup>* ex_boot s \<and> unat (tq_push_limit (txqs (rwnx_ps_bh_traffic_req 0 5 LEGACY_PS_ID s) ! 0)) = 1
     \<and> rwnx_txq_is_scheduled (txqs (rwnx_ps_bh_traffic_req 0 5 LEGACY_PS_ID s) ! 0)
     \<and> unat (sp_cnt (stas (rwnx_ps_bh_traffic_req 0 5 LEGACY_PS_ID s) ! 0) LEGACY_PS_ID) = 1"
proof -
  let ?f = "ex_frame 7 0"
  have ok: "txq_ok {} ex_asleep" by (rule queues.inv_reachable [OF boot_start asleep_reach])
  note q0 = asleep_queue [of 0]
  obtain s where s: "xmit_queue ?f 0 ex_asleep = Some s" "tq_sk_list (txqs s ! 0) = [?f]" "pkt_ready (stas s ! 0) LEGACY_PS_ID = 1" "ps_active (stas s ! 0)"
    "sp_cnt (stas s ! 0) = sp_cnt (stas ex_asleep ! 0)" "old_ic s" "\<forall>j. j \<noteq> 0 \<longrightarrow> txqs s ! j = txqs ex_asleep ! j"
    "tq_idx (txqs s ! 0) = tq_idx (txqs ex_asleep ! 0)" "tq_ps_id (txqs s ! 0) = LEGACY_PS_ID" "tq_credits (txqs s ! 0) = tq_credits (txqs ex_asleep ! 0)" "txq_ok {} s"
    using sleeping_xmit [OF ok, of 0 ?f 0] q0 asleep_facts by (auto simp: ex_frame_def)
  have "txq_step ex_asleep s" by (rule xmit [of ?f]) (use s(1) q0(5) in \<open>simp_all add: ex_frame_def\<close>)
  then have reach: "txq_step\<^sup>*\<^sup>* ex_boot s" using asleep_reach by (rule rtranclp.rtrancl_into_rtrancl [rotated])
  have r: "0 < remote_sta_max s" by (simp add: remote_sta_max_def)
  have uni: "\<not> is_multicast_sta s 0" using r by (simp add: is_multicast_sta_def)
  have act: "txq_active (txqs s ! tid)" if "tid < 9" for tid using asleep_queue(1) [OF that] s(7,8) by (cases "tid = 0") auto
  have "ps_served s 0"
    unfolding ps_served_def
  proof (intro allI impI, elim conjE)
    fix i assume "i < 297" "owner s i = Some 0"
    then have "i div 9 = 0" using s(6) by (auto simp: owner_def txq_nums first_vif_txq_idx_def remote_sta_max_def split: if_splits)
    then show "txq_active (txqs s ! i)" using act [of i] by auto
  qed
  moreover have len: "length (tq_sk_list (txqs s ! tid)) = (if tid = 0 then 1 else 0)" if "tid < 9" for tid
    using asleep_queue(2) [OF that] s(2,7) by auto
  ultimately obtain gs where gs: "gs = grants (min (unat (5 :: u16)) (unat (pkt_ready (stas s ! 0) LEGACY_PS_ID))) (map (avail s 0 LEGACY_PS_ID) [7, 6, 5, 4, 3, 0, 2, 1])"
    "\<forall>(tid, g) \<in> set (zip [7, 6, 5, 4, 3, 0, 2, 1] gs). granted s (rwnx_ps_bh_traffic_req 0 5 LEGACY_PS_ID s) (0 * 9 + tid) g"
    "unat (sp_cnt (stas (rwnx_ps_bh_traffic_req 0 5 LEGACY_PS_ID s) ! 0) LEGACY_PS_ID) = sum_list gs"
    using service_period_shares_by_priority [OF boot_start reach r s(4), of 5 LEGACY_PS_ID] s(3,5) asleep_facts(3)
    by (auto simp: PS_SP_INTERRUPTED_def)
  have av: "avail s 0 LEGACY_PS_ID tid = (if tid = 0 then 1 else 0)" if "tid < 9" for tid
    using len [OF that] s(9,10) q0(4) sta_get_unicast [OF uni that] by (cases "tid = 0") (simp_all add: avail_def Let_def)
  have "gs = [0, 0, 0, 0, 0, 1, 0, 0]" unfolding gs(1) s(3) by (simp add: av)
  with gs(2,3) reach show ?thesis by (intro exI [of _ s]) (auto simp: granted_def)
qed

end
