(* ===== verification/Spec2Isabelle.thy ===== *)
theory Spec2Isabelle
  imports Rx_Example Radar_Props Cmd_Props Tcp_Ack Rx_Props Md5 Usb_Tx Txq_Props Txq_Service
begin

text \<open>
  \<^bold>\<open>A verification of the AIC8800 USB wireless driver.\<close>  The program is the Linux driver under \<^verbatim>\<open>src/drivers/aic8800/aic8800_fdrv\<close>, in the
  configuration its Makefile sets for the USB chip.  File names below are of that directory.

  \<^bold>\<open>The parts and how they interact.\<close>  The kernel's wireless stack calls the driver, which sends \<^emph>\<open>commands\<close> to the firmware and waits for
  confirmations (\<^verbatim>\<open>rwnx_msg_tx.c\<close>, \<^verbatim>\<open>rwnx_cmds.c\<close>).  Commands and frames leave over USB (\<^verbatim>\<open>aicwf_usb.c\<close>).  What arrives is queued by the
  completion handlers (\<^verbatim>\<open>aicwf_usb.c\<close>, queues of \<^verbatim>\<open>aicwf_txrxif.c\<close>), taken apart by the receive threads (\<^verbatim>\<open>aicwf_txrxif.c\<close>) and given to
  the command manager (messages) or to the data path, which converts headers, collects fragments, splits aggregated frames, puts
  frames of a block-acknowledgement session in order and bridges between the stations of an access point (\<^verbatim>\<open>rwnx_rx.c\<close>).  On the way out, TCP acknowledgements are thinned out (\<^verbatim>\<open>aicwf_tcp_ack.c\<close>), frames wait in the queue of their station and
  traffic class until their hardware queue is processed (\<^verbatim>\<open>rwnx_txq.c\<close>), and some of them are confirmed by the firmware (\<^verbatim>\<open>rwnx_tx.c\<close>,
  \<^verbatim>\<open>usb_host.c\<close>).  Pulses that the firmware hears on a radar channel are matched against the patterns of the regulatory domain (\<^verbatim>\<open>rwnx_radar.c\<close>).
  Firmware files are checked with MD5 (\<^verbatim>\<open>md5.c\<close>).

  \<^bold>\<open>Theories.\<close>
  \<^item> \<open>Aic_Prelude\<close>: word types, flag words, little- and big-endian fields, bounded reads, list lemmas, and the locale \<open>step_system\<close>
    (initial states, steps, an invariant) from which every reachability property is obtained by interpretation.
  \<^item> \<open>Cmd_Mgr\<close>, \<open>Cmd_Proto\<close>, \<open>Cmd_Props\<close>: the command manager.  \<open>Cmd_Mgr\<close> has the state (\<open>driver\<close>: pool of commands, queue, manager state, bus log)
    and one definition per function of \<^verbatim>\<open>rwnx_cmds.c\<close> and per sender of \<^verbatim>\<open>rwnx_msg_tx.c\<close>; a blocking call is split at its wait
    (\<open>cmd_mgr_queue\<close>, \<open>cmd_mgr_queue_wake\<close>).  \<open>Cmd_Proto\<close> has the step relation of senders, worker, confirmations, timeouts and killed
    waits and its invariant (C1 to C3: one command with the firmware, the order of the phases, no fault in a woken waiter).
    \<open>Cmd_Props\<close> has the behaviour of the single operations and of the error paths (C4 to C6; besides the faults of a send to a
    crashed manager and of a drained waiter).
  \<^item> \<open>Tcp_Ack\<close>: the acknowledgement filter with its table, packet parser, timer and teardown (C10, C14: buffers are conserved, the drop bound; besides,
    free entries are found, packets are classified, an over-read and a stranded buffer).
  \<^item> \<open>Rx_Reorder\<close> (definitions), \<open>Rx_Order\<close> (sequence numbers in the window), \<open>Rx_Run\<close> (invariant of the operations), \<open>Rx_Props\<close>: the reorder buffer (C16
    to C19: window and pool invariant, a timer for every buffered frame, release in order, progress on timeout; besides, late and duplicate
    frames and a lost descriptor).
  \<^item> \<open>Rx_Data\<close>: the data path from a transfer with its hardware header to the network stack, the air or the reorder buffer.  Its state
    \<open>rx_hw\<close> has the interface and station tables, the incomplete frames and the reorder buffer; \<open>rxdata_upload\<close> is the part of
    \<^verbatim>\<open>rwnx_rxdataind_aicwf\<close> for frames that are handed up, with one definition per function it calls.  \<open>Rx_Amsdu\<close> splits aggregated
    frames (C39: when this ends), \<open>Rx_Frames\<close> has the layout of frames and the conversion of their headers, \<open>Rx_Deliver\<close> a station
    interface (C8, C30: single frames arrive as Ethernet frames, aggregated ones as their subframes), \<open>Rx_Defrag\<close> the fragments (C37,
    C9: they are reassembled, or overflow their buffer), \<open>Rx_Bridge\<close> an access point (C26), \<open>Rx_Example\<close> the instances.
  \<^item> \<open>Md5\<close>: the digest on 32-bit words, and through the locale \<open>stream_digest\<close> its equality with RFC 1321 for every cut of the message into chunks (C23).
  \<^item> \<open>Frame_Queue\<close>: \<open>frame_queue\<close> and \<open>rx_frame_queue\<close> with every operation; both are interpretations of the locale \<open>bounded_fifo\<close> (C24, C27:
    accounting, first in first out; besides, the order of priorities and the displacement in a full queue).
  \<^item> \<open>Rx_Demux\<close>: \<^verbatim>\<open>aicwf_process_rxframes\<close> (aggregated and single transfers) and \<^verbatim>\<open>aicwf_process_msg_rxframes\<close> (C28, C29: the inverse of the
    firmware's packing, an endless loop; besides the disposal of every transfer, an unchecked length and a leaked transfer).
  \<^item> \<open>Usb_Rx\<close>: transfer buffers of the two receive endpoints, refill, completion handlers, and the interleaving of handler and receive thread
    at the granularity of their shared accesses (C33, C36: conservation, no lost wake-up;
    besides an endless refill, the end of reception after one failed allocation, and a lost buffer).
  \<^item> \<open>Usb_Tx\<close>: transmit buffers, frame layout, thread, completion, flow control, initialisation, start and stop (C38, C40;
    besides the queues that stay stopped when every submission fails).  Its record
    extends that of \<open>Usb_Rx\<close>, as both are parts of \<^verbatim>\<open>struct aic_usb_dev\<close>.
  \<^item> \<open>Txq\<close>, \<open>Txq_Run\<close>: the 297 transmit queues, the four hardware queues and the station entries (\<open>tx_hw\<close>) with one definition per function of
    \<^verbatim>\<open>rwnx_txq.c\<close> and of the part of \<^verbatim>\<open>rwnx_tx.c\<close> that pushes, confirms and retries frames and serves sleeping stations.  \<open>Txq_Inv\<close> has the
    invariant and its preservation by single updates, \<open>Txq_Sched\<close>, \<open>Txq_Round\<close> and \<open>Txq_Process\<close> a push, a round and the whole of
    \<^verbatim>\<open>rwnx_hwq_process\<close>, \<open>Txq_Keep\<close>, \<open>Txq_Setup\<close>, \<open>Txq_Ps\<close> and \<open>Txq_Cfm\<close> the invariant under every operation, \<open>Txq_Steps\<close> the step relation.
    \<open>Txq_Props\<close> and \<open>Txq_Service\<close> have the properties (C7, C13, C15, C21, C31, C32, C34: retries first, frames for sleeping stations wait,
    service periods follow the priorities, the lists hold exactly the queues with something to send, order of transmission, a
    well-formed state, a backlog that stays), \<open>Txq_Example\<close> a run for their instances.
  \<^item> \<open>Radar\<close> (patterns, pools and one detector), \<open>Radar_Dfs\<close> (the pattern detector of a chain), \<open>Radar_Driver\<close> (ring of pulses, detection work,
    availability check, channel contexts; state \<open>radar_hw\<close>): radar detection.  \<open>Radar_Burst\<close> and \<open>Radar_Detect\<close> follow a burst through one detector
    and through all patterns (C12: no burst is missed), \<open>Radar_Sound\<close> has what backs a sequence (C11: no alarm without pulses), \<open>Radar_Mem\<close> and
    \<open>Radar_Run\<close> the accounts of the pools and the steps of the driver, with two interpretations of \<open>step_system\<close> (C35: memory is conserved;
    C25: in the shipped configuration no radar is ever reported), \<open>Radar_Props\<close> the ring and the work (C20: a completed pattern is
    reported; besides, a refused availability check, a missing detector, a cancelled check that counts as finished).
  \<^item> This theory: the composition of completion handler, message thread and command manager (C22).

  \<^bold>\<open>How the code is represented.\<close>  Integers whose width matters are words (\<open>u8\<close>, \<open>u16\<close>, \<open>u32\<close>); counters that the code keeps as \<^verbatim>\<open>int\<close> or
  \<^verbatim>\<open>atomic_t\<close> are \<open>int\<close>; radar detection, which mixes widths in every expression, is written over \<open>int\<close> with the width of each value as a remainder.  Memory blocks are byte lists, read through bounded accessors: reading or writing outside gives \<open>None\<close> or
  \<open>Fault\<close>, as do the unlock of a free lock and the second unlinking of a list entry.  Buffers are numbers or abstract values; what is
  freed, sent or handed to code outside the model is logged, so that conservation is an equation on multisets.  Sections under one
  lock are one step.  Results of allocation, of submission to the USB stack, timeouts and handlers of messages are arguments;
  no property assumes more of them than its statement says.

  \<^bold>\<open>Loops and bounds.\<close>  Loops are recursive functions with a measure where they always end (over a list, the queue length or the
  remaining bytes).  Four loops of the code need not end and are \<open>partial_function (option)\<close>, with \<open>None\<close> for not returning:
  the loop over an aggregated transfer, the thread around it, the refill of the message endpoint, and the splitting of an A-MSDU; C28,
  \<open>message_refill_never_gives_up\<close> and C39 prove that they return, C29 and the last two when they do not.  There is no fuel.  The constants are those of the code: 16 queued commands, 32 connections, a
  reorder window of 64 with 250 descriptors, 50 transmit buffers, 64 unconfirmed frames.  The loop over the list of a hardware queue, which
  moves the list under its own cursor, ends because each round pushes a frame or unlinks a queue (measure \<open>backlog\<close>).  The steps of
  \<open>txq_step\<close> assume of their callers what the code does not check itself: queues are initialised only while unused, service periods are
  requested for stations whose queues are in use (\<open>ps_served\<close>), a frame is confirmed while it is not linked and the credits of its
  queue do not wrap (\<open>cfm_safe\<close>).

  \<^bold>\<open>Not modelled.\<close>  Callbacks of the wireless stack (\<^verbatim>\<open>rwnx_main.c\<close>) and the builders and handlers of single messages (\<^verbatim>\<open>rwnx_msg_tx.c\<close>,
  \<^verbatim>\<open>rwnx_msg_rx.c\<close>), which fill and read structures of other parties; of the transmit path (\<^verbatim>\<open>rwnx_tx.c\<close>) the choice of the queue, descriptor and
  headroom, A-MSDU and the monitor sender; of the received data path the radiotap header of a monitor interface; of radar detection the dump functions for debugfs; key files and text commands, which
  are next in the plan; SDIO, PCI, mesh, bridging and the code under
  \<^verbatim>\<open>CONFIG_USB_RX_REASSEMBLE\<close>, \<^verbatim>\<open>CONFIG_USB_TX_AGGR\<close>, \<^verbatim>\<open>CONFIG_PER_STA_FC\<close> and the tasklets, which the configuration leaves out; debugging output; the
  regulatory tables, which are data; the firmware loader module \<^verbatim>\<open>aic_load_fw\<close>.
\<close>

section \<open>From the wire to the waiting command\<close>

text \<open>
  \<^verbatim>\<open>rwnx_rx_handle_msg\<close> (\<^verbatim>\<open>rwnx_msg_rx.c\<close>) on the bytes behind the transfer header: the message structure has its identifier at offset 0, the
  length of its parameters at 6 and the parameters at 12.  \<open>hdlrs\<close> is the table of handlers.
\<close>

definition rwnx_rx_handle_msg :: "(u16 \<Rightarrow> (nat option \<Rightarrow> ipc_e2a_msg \<Rightarrow> int) option) \<Rightarrow> u8 list \<Rightarrow> driver \<Rightarrow> driver option" where
  "rwnx_rx_handle_msg hdlrs bytes s = do {
     mid \<leftarrow> rd16 bytes 0;
     plen \<leftarrow> rd16 bytes 6;
     cmd_mgr_msgind (hdlrs mid) \<lparr>e_id = mid, e_param_len = plen, e_param = drop 12 bytes\<rparr> s }"

text \<open>What the receive thread's events do to the command manager.\<close>

fun handle_events :: "(u16 \<Rightarrow> (nat option \<Rightarrow> ipc_e2a_msg \<Rightarrow> int) option) \<Rightarrow> rx_event list \<Rightarrow> driver \<Rightarrow> driver option" where
  "handle_events hdlrs [] s = Some s"
| "handle_events hdlrs (CmdRsp bytes # es) s = do { t \<leftarrow> rwnx_rx_handle_msg hdlrs bytes s; handle_events hdlrs es t }"
| "handle_events hdlrs (_ # es) s = handle_events hdlrs es s"

text \<open>A transfer that holds one response: header with length and type, then the message.\<close>

definition response_transfer :: "rx_skb \<Rightarrow> u8 list \<Rightarrow> bool" where
  "response_transfer skb resp \<longleftrightarrow> (\<exists>r tail. skb_mem skb = le16 (word_of_nat (length resp)) @ USB_TYPE_CFG_CMD_RSP # r # resp @ tail)
     \<and> length resp < 65536"

lemma response_round:
  assumes "response_transfer skb resp"
  shows "\<exists>s'. msg_round (\<lambda>_. True) False skb s = Done s' \<and> rx_cnt s' = rx_cnt s - 1
     \<and> rx_events s' = rx_events s @ [CmdRsp resp, FreeSkb (skb_id skb)]"
proof -
  obtain r tail where m: "skb_mem skb = le16 (word_of_nat (length resp)) @ USB_TYPE_CFG_CMD_RSP # r # resp @ tail" "length resp < 65536"
    using assms by (auto simp: response_transfer_def)
  define n where "n = (word_of_nat (length resp) :: u16)"
  have n: "unat n = length resp" using m(2) unfolding n_def by (simp only: unat_of_nat) simp
  have p: "pkt_len_of skb = Some n" "rd (skb_mem skb) 2 = Some USB_TYPE_CFG_CMD_RSP" by (simp_all add: pkt_len_of_def m(1) n_def)
  have copy: "memcpy_from skb (unat n + 4) = Some (le16 n @ USB_TYPE_CFG_CMD_RSP # r # resp)"
    by (simp add: memcpy_from_def m(1) n le16_def eval_nat_numeral flip: n_def)
  have "cfg_events False (le16 n @ USB_TYPE_CFG_CMD_RSP # r # resp) n = [CmdRsp resp]"
    by (simp add: cfg_events_def nth_append le16_def USB_TYPE_CFG_CMD_RSP_def USB_TYPE_CFG_DATA_CFM_def USB_TYPE_CFG_PRINT_def Let_def)
  with p copy show ?thesis
    by (simp add: msg_round_def single_cfg_def rx_done_def add_events_def Let_def) (simp add: USB_TYPE_CFG_def USB_TYPE_CFG_CMD_RSP_def)
qed

lemma response_run:
  assumes "rxq_ok (rxq s)" "queued (rxq s) = [skb]" "response_transfer skb resp"
  shows "\<exists>s'. aicwf_process_msg_rxframes (\<lambda>_. True) False s = Ret 0 s' \<and> queued (rxq s') = []
     \<and> rx_events s' = rx_events s @ [CmdRsp resp, FreeSkb (skb_id skb)]"
proof -
  have "\<exists>s'. msg_round (\<lambda>_. True) False k t = Done s' \<and> rx_cnt s' = rx_cnt t - 1
     \<and> rx_events s' = rx_events t @ [CmdRsp resp, FreeSkb (skb_id k)]" if "k \<in> set [skb]" for k t
    using that assms(3) response_round by simp
  from drain_queue_run [where f = "msg_round (\<lambda>_. True) False" and ev = "\<lambda>k. [CmdRsp resp, FreeSkb (skb_id k)]", OF this assms(1,2), where s = s]
  show ?thesis
    by (auto simp: aicwf_process_msg_rxframes_def)
qed

lemma message_arrives:
  assumes "rxq_ok (rxq (msg_rx_priv u))" "queued (rxq (msg_rx_priv u)) = []" "0 < unat (qmax (rxq (msg_rx_priv u)))"
    and "u_state u = USB_UP_ST" "urb_status x = 0" "0 < actual_length x" "actual_length x \<le> transfer_buffer_length x"
  shows "\<exists>u'. aicwf_usb_msg_rx_complete (\<lambda>_. (True, True)) b x u = Some u' \<and> rxq_ok (rxq (msg_rx_priv u'))
     \<and> queued (rxq (msg_rx_priv u')) = [(urb_skb x)\<lparr>skb_len := actual_length x\<rparr>] \<and> rx_events (msg_rx_priv u') = rx_events (msg_rx_priv u)"
proof -
  let ?s = "u\<lparr>msg_rx_submitted := remove1 b (msg_rx_submitted u)\<rparr>"
  obtain t where t: "msg_complete_enqueue ((urb_skb x)\<lparr>skb_len := actual_length x\<rparr>) ?s = (True, t)" "rxq_ok (rxq (msg_rx_priv t))"
    "queued (rxq (msg_rx_priv t)) = [(urb_skb x)\<lparr>skb_len := actual_length x\<rparr>]" "rx_events (msg_rx_priv t) = rx_events (msg_rx_priv u)"
    "u_state t = USB_UP_ST"
    using msg_enqueue_room [of ?s "(urb_skb x)\<lparr>skb_len := actual_length x\<rparr>"] assms(1-4) by auto
  let ?t = "aicwf_usb_msg_rx_buf_put b (t\<lparr>msg_rx_priv := (msg_rx_priv t)\<lparr>rx_cnt := rx_cnt (msg_rx_priv t) + 1\<rparr>, msg_busrx_trgg := msg_busrx_trgg t + 1\<rparr>)"
  obtain v where v: "msg_submit_loop (\<lambda>_. (True, True)) ?t = Some v" "msg_rx_priv v = (msg_rx_priv t)\<lparr>rx_cnt := rx_cnt (msg_rx_priv t) + 1\<rparr>"
    using msg_submit_all_ok [of "\<lambda>_. (True, True)" ?t] t(5) by (auto simp: aicwf_usb_msg_rx_buf_put_def)
  have "aicwf_usb_msg_rx_complete (\<lambda>_. (True, True)) b x u = Some v"
    using assms(4-7) t(1,5) v(1)
    by (simp add: aicwf_usb_msg_rx_complete_def Let_def aicwf_usb_msg_rx_submit_all_urb_def) (simp add: aicwf_usb_msg_rx_buf_put_def)
  with t(2-4) v(2) show ?thesis by simp
qed

text \<open>
  C22: from the wire to the waiting command.  A transfer that completes on the message endpoint and holds the response a queued command
  waits for is queued by the completion handler, taken up by the message thread, parsed, and completes exactly the first matching command: the
  caller's structure receives the parameters, the result is 0, the waiter is woken once, the other commands are untouched, and the socket
  buffer is freed.
\<close>

theorem response_completes_waiting_command:
  assumes "rxq_ok (rxq (msg_rx_priv u))" and "queued (rxq (msg_rx_priv u)) = []" and "0 < unat (qmax (rxq (msg_rx_priv u)))"
    and "rx_events (msg_rx_priv u) = []" and "u_state u = USB_UP_ST"
    and "urb_status x = 0" and "0 < actual_length x" and "actual_length x \<le> transfer_buffer_length x"
    and "response_transfer (urb_skb x) resp" and "rd16 resp 0 = Some mid" and "rd16 resp 6 = Some plen"
    and "msg = \<lparr>e_id = mid, e_param_len = plen, e_param = drop 12 resp\<rparr>"
    and "\<not> locked d" and "cmds (mgr d) = ps @ p # qs" and "\<forall>q \<in> set ps. \<not> matches d msg q" and "matches d msg p"
    and "p < length (cmd_array d)" and "c_e2a_msg (cmd_at d p) = Some dst"
    and "e2a_copy_len msg \<le> length dst" and "e2a_copy_len msg \<le> length (e_param msg)"
    and "\<not> flag_set (flags_of d p) RWNX_CMD_FLAG_NONBLOCK" and "\<not> flag_set (flags_of d p) RWNX_CMD_FLAG_WAIT_ACK"
    and "\<forall>f. hdlrs mid = Some f \<longrightarrow> f (Some p) msg = 0"
  shows "\<exists>u' t d'. aicwf_usb_msg_rx_complete (\<lambda>_. (True, True)) b x u = Some u'
     \<and> aicwf_process_msg_rxframes (\<lambda>_. True) False (msg_rx_priv u') = Ret 0 t \<and> FreeSkb (skb_id (urb_skb x)) \<in> set (rx_events t)
     \<and> handle_events hdlrs (rx_events t) d = Some d'
     \<and> c_complete (cmd_at d' p) = Suc (c_complete (cmd_at d p)) \<and> c_result (cmd_at d' p) = 0
     \<and> c_e2a_msg (cmd_at d' p) = Some (take (e2a_copy_len msg) (e_param msg) @ drop (e2a_copy_len msg) dst)
     \<and> (\<forall>q. q \<noteq> p \<longrightarrow> cmd_at d' q = cmd_at d q) \<and> mgr d' = mgr d"
proof -
  obtain u' where u: "aicwf_usb_msg_rx_complete (\<lambda>_. (True, True)) b x u = Some u'" "rxq_ok (rxq (msg_rx_priv u'))"
    "queued (rxq (msg_rx_priv u')) = [(urb_skb x)\<lparr>skb_len := actual_length x\<rparr>]" "rx_events (msg_rx_priv u') = []"
    using message_arrives [OF assms(1-3,5-8), of b] assms(4) by auto
  have "response_transfer ((urb_skb x)\<lparr>skb_len := actual_length x\<rparr>) resp" using assms(9) by (simp add: response_transfer_def)
  then obtain t where t: "aicwf_process_msg_rxframes (\<lambda>_. True) False (msg_rx_priv u') = Ret 0 t"
    "rx_events t = [CmdRsp resp, FreeSkb (skb_id (urb_skb x))]"
    using response_run [OF u(2,3)] u(4) by auto
  obtain d' where d': "cmd_mgr_msgind (hdlrs mid) msg d = Some d'" "\<forall>q. q \<noteq> p \<longrightarrow> cmd_at d' q = cmd_at d q" "mgr d' = mgr d"
    "c_e2a_msg (cmd_at d' p) = Some (take (e2a_copy_len msg) (e_param msg) @ drop (e2a_copy_len msg) dst)"
    "c_complete (cmd_at d' p) = Suc (c_complete (cmd_at d p))" "c_result (cmd_at d' p) = 0"
    using msgind_first_match [OF assms(13-23)] by blast
  have "handle_events hdlrs (rx_events t) d = Some d'"
    using d'(1) assms(10-12) by (simp add: t(2) rwnx_rx_handle_msg_def)
  with u(1) t d'(2-6) show ?thesis by fastforce
qed

text \<open>The command of the earlier example waits for message 5; the response carries two bytes of parameters.\<close>

definition demo_resp :: "u8 list" where
  "demo_resp = [5, 0, 0, 0, 0, 0, 2, 0, 0, 0, 0, 0, 6, 7]"

definition demo_resp_urb :: urb where
  "demo_resp_urb = \<lparr>urb_status = 0, actual_length = 18, transfer_buffer_length = 2048,
     urb_skb = \<lparr>skb_id = 9, skb_mem = [14, 0, 0x11, 0] @ demo_resp @ [0, 0], skb_len = 0\<rparr>\<rparr>"

theorem response_completes_waiting_command_witness:
  "\<exists>u' t d'. aicwf_usb_msg_rx_complete (\<lambda>_. (True, True)) 1 demo_resp_urb rx_demo_dev = Some u'
     \<and> aicwf_process_msg_rxframes (\<lambda>_. True) False (msg_rx_priv u') = Ret 0 t \<and> handle_events (\<lambda>_. None) (rx_events t) cfm_demo = Some d'
     \<and> c_e2a_msg (cmd_at d' 0) = Some [6, 7, 0, 0] \<and> c_complete (cmd_at d' 0) = 1"
proof -
  let ?m = "\<lparr>e_id = 5, e_param_len = 2, e_param = drop 12 demo_resp\<rparr>"
  have m: "matches cfm_demo ?m 0" "e2a_copy_len ?m = 2"
    "\<not> flag_set (flags_of cfm_demo 0) RWNX_CMD_FLAG_NONBLOCK" "\<not> flag_set (flags_of cfm_demo 0) RWNX_CMD_FLAG_WAIT_ACK"
    by (simp_all add: matches_def cfm_demo_values flag_set_def cmd_flag_defs e2a_copy_len_def RWNX_CMD_E2AMSG_LEN_MAX_def)
  have r: "rd16 demo_resp 0 = Some 5" "rd16 demo_resp 6 = Some 2" "drop 12 demo_resp = [6, 7]"
    by code_simp+
  have tr: "response_transfer (urb_skb demo_resp_urb) demo_resp"
    by (auto simp: response_transfer_def demo_resp_urb_def demo_resp_def le16_def USB_TYPE_CFG_CMD_RSP_def)
  have u: "rxq_ok (rxq (msg_rx_priv rx_demo_dev))" "queued (rxq (msg_rx_priv rx_demo_dev)) = []" "0 < unat (qmax (rxq (msg_rx_priv rx_demo_dev)))"
    "rx_events (msg_rx_priv rx_demo_dev) = []" "u_state rx_demo_dev = USB_UP_ST"
    using demo_thread_ok [of "[]"] by (simp_all add: rx_demo_dev_def) (simp_all add: demo_thread_def demo_queue_def)
  from response_completes_waiting_command [OF u _ _ _ tr r(1,2) refl, where d = cfm_demo and ps = "[]" and p = 0 and qs = "[]"
      and dst = "[0, 0, 0, 0]" and hdlrs = "\<lambda>_. None" and b = 1] m r(3)
  show ?thesis by (auto simp: cfm_demo_values demo_resp_urb_def)
qed

end
